(* ===== verification/Go_Prelude.thy ===== *)
theory Go_Prelude
  imports Complex_Main "HOL-Library.Sublist"
begin

text \<open>
  The part of Go and of its standard library that the modelled packages use, and the
  generic lemmas the component theories share.

  \<^item> \<open>time\<close> is \<^verbatim>\<open>time.Time\<close>: nanoseconds since Go's zero time (1 January of year 1), so
    the zero value is 0 and \<^verbatim>\<open>IsZero\<close> is equality with 0. \<open>duration\<close> is
    \<^verbatim>\<open>time.Duration\<close>, an int64 of nanoseconds; \<open>time_Sub\<close> saturates as \<^verbatim>\<open>Time.Sub\<close> does.
  \<^item> \<open>float64\<close> is a float as comparison sees it: a NaN, the infinities, or a finite
    (rational) value. Only comparisons, clamping and constants are used of it here.
  \<^item> Go's \<^verbatim>\<open>int\<close> and \<^verbatim>\<open>int64\<close> are \<open>int\<close>, with the 64-bit wrap-around written out by
    \<open>wrap64\<close> where the code adds to a stored counter.
  \<^item> A \<^verbatim>\<open>string\<close> is its list of bytes. The functions of \<^verbatim>\<open>strings\<close> are modelled on ASCII:
    a byte of 128 or more is neither white space nor a letter.
  \<^item> \<open>go_error\<close> is a non-nil \<^verbatim>\<open>error\<close>, given by what the code observes of it: its text,
    what \<^verbatim>\<open>grpcstatus.FromError\<close> says of it, and the sentinels \<^verbatim>\<open>errors.Is\<close> finds in its
    chain. A returned \<^verbatim>\<open>error\<close> is a \<open>go_error option\<close>, with \<open>None\<close> for nil.
  \<^item> \<^verbatim>\<open>for k := range m\<close> visits the keys of a Go map in an unspecified order. A function that
    ranges over a map takes the order as an argument \<open>ks\<close>; \<open>enumerates m ks\<close> says that
    \<open>ks\<close> is an order in which the keys of \<open>m\<close> can be visited.
\<close>

named_theorems store_simps "what a store operation does to each observable of the store"
named_theorems frame_simps "parts of a state that an operation leaves alone"
named_theorems inv_intros "operations that keep an invariant"

section \<open>Time\<close>

type_synonym time = int
type_synonym duration = int

definition zero_time :: time where
  "zero_time = 0"

definition IsZero :: "time \<Rightarrow> bool" where
  "IsZero t \<longleftrightarrow> t = zero_time"

definition After :: "time \<Rightarrow> time \<Rightarrow> bool" where
  "After t u \<longleftrightarrow> u < t"

definition Before :: "time \<Rightarrow> time \<Rightarrow> bool" where
  "Before t u \<longleftrightarrow> t < u"

abbreviation max_duration :: duration where
  "max_duration \<equiv> 2 ^ 63 - 1"

abbreviation min_duration :: duration where
  "min_duration \<equiv> - (2 ^ 63)"

definition time_Sub :: "time \<Rightarrow> time \<Rightarrow> duration" where
  "time_Sub t u = max min_duration (min max_duration (t - u))"

definition Millisecond :: duration where "Millisecond = 1000000"
definition Second :: duration where "Second = 1000 * Millisecond"
definition Minute :: duration where "Minute = 60 * Second"
definition Hour :: duration where "Hour = 60 * Minute"

lemmas duration_units = Millisecond_def Second_def Minute_def Hour_def

lemma After_irrefl [simp]: "\<not> After t t"
  by (simp add: After_def)

lemma After_trans: "After t u \<Longrightarrow> After u v \<Longrightarrow> After t v"
  by (simp add: After_def)

lemma time_Sub_self [simp]: "time_Sub t t = 0"
  by (simp add: time_Sub_def)

lemma time_Sub_exact: "\<bar>t - u\<bar> < 2 ^ 63 \<Longrightarrow> time_Sub t u = t - u"
  by (simp add: time_Sub_def)

lemma time_Sub_ge: "d \<le> t - u \<Longrightarrow> d \<le> max_duration \<Longrightarrow> d \<le> time_Sub t u"
  by (simp add: time_Sub_def)

section \<open>Integers of 64 bits\<close>

definition wrap64 :: "int \<Rightarrow> int" where
  "wrap64 i = (i + 2 ^ 63) mod 2 ^ 64 - 2 ^ 63"

lemma wrap64_id: "- (2 ^ 63) \<le> i \<Longrightarrow> i < 2 ^ 63 \<Longrightarrow> wrap64 i = i"
  by (simp add: wrap64_def)

lemma wrap64_range: "- (2 ^ 63) \<le> wrap64 i \<and> wrap64 i < 2 ^ 63"
  using pos_mod_bound [of "2 ^ 64" "i + 2 ^ 63"] by (simp add: wrap64_def)

section \<open>Floats, as far as comparison goes\<close>

datatype float64 = NaN | NegInf | PosInf | Fin rat

fun float_less :: "float64 \<Rightarrow> float64 \<Rightarrow> bool" where
  "float_less NaN _ = False"
| "float_less _ NaN = False"
| "float_less NegInf y = (y \<noteq> NegInf)"
| "float_less _ NegInf = False"
| "float_less PosInf _ = False"
| "float_less _ PosInf = True"
| "float_less (Fin x) (Fin y) = (x < y)"

definition clamp01 :: "float64 \<Rightarrow> float64" where
  "clamp01 p =
     (let p1 = (if float_less p (Fin 0) then Fin 0 else p)
      in if float_less (Fin 1) p1 then Fin 1 else p1)"

lemma clamp01_range:
  "clamp01 p = NaN \<or> (\<exists>q. clamp01 p = Fin q \<and> 0 \<le> q \<and> q \<le> 1)"
  by (cases p) (auto simp: clamp01_def Let_def)

lemma clamp01_NaN [simp]: "clamp01 NaN = NaN"
  by (simp add: clamp01_def)

lemma clamp01_idem [simp]: "clamp01 (clamp01 p) = clamp01 p"
  by (cases p) (auto simp: clamp01_def Let_def)

section \<open>Strings\<close>

definition is_space :: "char \<Rightarrow> bool" where
  "is_space c \<longleftrightarrow> (let n = (of_char c :: nat) in n = 32 \<or> (9 \<le> n \<and> n \<le> 13))"

definition TrimSpace :: "string \<Rightarrow> string" where
  "TrimSpace s = rev (dropWhile is_space (rev (dropWhile is_space s)))"

definition lower_char :: "char \<Rightarrow> char" where
  "lower_char c = (let n = (of_char c :: nat) in if 65 \<le> n \<and> n \<le> 90 then char_of (n + 32) else c)"

definition ToLower :: "string \<Rightarrow> string" where
  "ToLower s = List.map lower_char s"

fun HasPrefix :: "string \<Rightarrow> string \<Rightarrow> bool" where
  "HasPrefix s [] = True"
| "HasPrefix [] (_ # _) = False"
| "HasPrefix (x # xs) (y # ys) = (x = y \<and> HasPrefix xs ys)"

fun Contains :: "string \<Rightarrow> string \<Rightarrow> bool" where
  "Contains [] sub = (sub = [])"
| "Contains (c # cs) sub = (HasPrefix (c # cs) sub \<or> Contains cs sub)"

lemma HasPrefix_iff: "HasPrefix s p \<longleftrightarrow> (\<exists>t. s = p @ t)"
  by (induction s p rule: HasPrefix.induct) auto

lemma Contains_iff: "Contains s sub \<longleftrightarrow> (\<exists>a b. s = a @ sub @ b)"
proof (induction s)
  case Nil
  then show ?case by simp
next
  case (Cons c s)
  have "(\<exists>a b. c # s = a @ sub @ b) \<longleftrightarrow> (\<exists>b. c # s = sub @ b) \<or> (\<exists>a b. s = a @ sub @ b)"
    by (metis append_Cons append_Nil list.inject neq_Nil_conv)
  then show ?case using Cons.IH by (simp add: HasPrefix_iff)
qed

lemma Contains_append [intro]: "Contains (a @ sub @ b) sub"
  by (auto simp: Contains_iff)

lemma lower_char_idem [simp]: "lower_char (lower_char c) = lower_char c"
proof -
  have "(of_char (char_of (of_char c + 32 :: nat)) :: nat) = of_char c + 32"
    if "(of_char c :: nat) \<le> 90"
    using that by simp
  then show ?thesis by (auto simp: lower_char_def Let_def)
qed

lemma ToLower_idem [simp]: "ToLower (ToLower s) = ToLower s"
  by (simp add: ToLower_def comp_def)

lemma ToLower_Nil [simp]: "ToLower [] = []"
  by (simp add: ToLower_def)

lemma TrimSpace_Nil [simp]: "TrimSpace [] = []"
  by (simp add: TrimSpace_def)

lemma TrimSpace_nonempty: "TrimSpace s \<noteq> [] \<Longrightarrow> s \<noteq> []"
  by auto

text \<open>Decimal text of a number, as \<^verbatim>\<open>strconv.Itoa\<close> and \<^verbatim>\<open>fmt\<close>'s \<^verbatim>\<open>%d\<close> give it.\<close>

definition digit_char :: "nat \<Rightarrow> char" where
  "digit_char d = char_of (48 + d)"

fun nat_str :: "nat \<Rightarrow> string" where
  "nat_str n = (if n < 10 then [digit_char n] else nat_str (n div 10) @ [digit_char (n mod 10)])"

declare nat_str.simps [simp del]

text \<open>
  \<^verbatim>\<open>d.Round(time.Second)\<close> and \<^verbatim>\<open>Duration.String\<close> of a whole number of seconds, for
  \<open>0 \<le> d\<close>: \<^verbatim>\<open>45m0s\<close>, \<^verbatim>\<open>1h0m5s\<close>, \<^verbatim>\<open>7s\<close>.
\<close>

definition Round_Second :: "duration \<Rightarrow> duration" where
  "Round_Second d = (let r = d mod Second in if r + r < Second then d - r else d + Second - r)"

definition duration_String :: "duration \<Rightarrow> string" where
  "duration_String d =
     (let s = nat (d div Second); h = s div 3600; m = s div 60 mod 60; r = s mod 60
      in if 0 < h then nat_str h @ ''h'' @ nat_str m @ ''m'' @ nat_str r @ ''s''
         else if 0 < m then nat_str m @ ''m'' @ nat_str r @ ''s''
         else nat_str r @ ''s'')"

section \<open>Errors\<close>

datatype grpc_code = OK | Canceled | Unknown | InvalidArgument | DeadlineExceeded | NotFound
  | AlreadyExists | PermissionDenied | ResourceExhausted | FailedPrecondition | Aborted
  | OutOfRange | Unimplemented | Internal | Unavailable | DataLoss | Unauthenticated

datatype sentinel = ErrJobCancelled | ContextCanceled | ErrLLMProviderRequired

record go_error =
  err_text :: string
  err_grpc :: "grpc_code option"
  err_chain :: "sentinel list"

definition Errorf :: "string \<Rightarrow> go_error" where
  "Errorf msg = \<lparr>err_text = msg, err_grpc = None, err_chain = []\<rparr>"

text \<open>\<^verbatim>\<open>fmt.Errorf\<close> with a \<^verbatim>\<open>%w\<close> verb: new text around a wrapped error that stays visible.\<close>

definition Wrapf :: "string \<Rightarrow> go_error \<Rightarrow> string \<Rightarrow> go_error" where
  "Wrapf pre e post = e\<lparr>err_text := pre @ err_text e @ post\<rparr>"

definition errors_Is :: "go_error \<Rightarrow> sentinel \<Rightarrow> bool" where
  "errors_Is e s \<longleftrightarrow> s \<in> set (err_chain e)"

lemma Errorf_sel [simp]:
  "err_text (Errorf m) = m" "err_grpc (Errorf m) = None" "err_chain (Errorf m) = []"
  by (simp_all add: Errorf_def)

lemma errors_Is_Errorf [simp]: "\<not> errors_Is (Errorf m) s"
  by (simp add: errors_Is_def)

lemma Wrapf_Is [simp]: "errors_Is (Wrapf a e b) s = errors_Is e s"
  by (simp add: errors_Is_def Wrapf_def)

section \<open>Ranging over maps, sorting\<close>

definition enumerates :: "('k \<rightharpoonup> 'v) \<Rightarrow> 'k list \<Rightarrow> bool" where
  "enumerates m ks \<longleftrightarrow> distinct ks \<and> set ks = dom m"

definition range_vals :: "('k \<rightharpoonup> 'v) \<Rightarrow> 'k list \<Rightarrow> 'v list" where
  "range_vals m ks = List.map_filter m ks"

lemma range_vals_simps [simp]:
  "range_vals m [] = []"
  "range_vals m (k # ks) = (case m k of None \<Rightarrow> range_vals m ks | Some v \<Rightarrow> v # range_vals m ks)"
  by (simp_all add: range_vals_def map_filter_simps split: option.split)

lemma set_range_vals: "set (range_vals m ks) = {v. \<exists>k\<in>set ks. m k = Some v}"
  by (induction ks) (auto split: option.splits)

lemma set_range_vals_enum: "enumerates m ks \<Longrightarrow> set (range_vals m ks) = ran m"
  by (auto simp: set_range_vals enumerates_def ran_def dom_def)

lemma enumerates_empty [simp]: "enumerates Map.empty ks \<longleftrightarrow> ks = []"
  by (auto simp: enumerates_def)

lemma enumerates_upd_old: "m k = Some v \<Longrightarrow> enumerates (m(k \<mapsto> w)) ks = enumerates m ks"
  by (auto simp: enumerates_def)

lemma sort_desc_sorted:
  fixes f :: "'a \<Rightarrow> int"
  shows "sorted_wrt (\<lambda>x y. f y \<le> f x) (sort_key (\<lambda>x. - f x) xs)"
proof -
  have "sorted_wrt (\<lambda>x y. - f x \<le> - f y) (sort_key (\<lambda>x. - f x) xs)"
    using sorted_sort_key [of "\<lambda>x. - f x" xs] by (simp add: sorted_wrt_map)
  then show ?thesis by simp
qed

lemma sorted_wrt_take_le:
  "sorted_wrt P xs \<Longrightarrow> x \<in> set (take n xs) \<Longrightarrow> y \<in> set (drop n xs) \<Longrightarrow> P x y"
  by (metis append_take_drop_id sorted_wrt_append)

text \<open>Sorting a list that is sorted by \<open>g\<close> stably by \<open>f\<close> sorts it by \<open>f\<close>, then \<open>g\<close>.\<close>

lemma insort_key_lex:
  fixes f :: "'a \<Rightarrow> int" and g :: "'a \<Rightarrow> int"
  assumes "sorted_wrt (\<lambda>a b. f a < f b \<or> (f a = f b \<and> g a \<le> g b)) xs"
    and "\<And>y. y \<in> set xs \<Longrightarrow> g x \<le> g y"
  shows "sorted_wrt (\<lambda>a b. f a < f b \<or> (f a = f b \<and> g a \<le> g b)) (insort_key f x xs)"
  using assms
proof (induction xs)
  case Nil
  then show ?case by simp
next
  case (Cons y ys)
  then show ?case by (fastforce simp: set_insort_key)
qed

lemma sort_key_lex:
  fixes f :: "'a \<Rightarrow> int" and g :: "'a \<Rightarrow> int"
  assumes "sorted_wrt (\<lambda>a b. g a \<le> g b) xs"
  shows "sorted_wrt (\<lambda>a b. f a < f b \<or> (f a = f b \<and> g a \<le> g b)) (sort_key f xs)"
  using assms by (induction xs) (auto intro!: insort_key_lex)

lemma sort_key_asc: "sorted_wrt (\<lambda>a b. f a \<le> (f b :: int)) (sort_key f xs)"
  using sorted_sort_key [of f xs] by (simp add: sorted_wrt_map)

text \<open>
  The loop that keeps the best element seen so far:
  \<^verbatim>\<open>for _, x := range xs { if best == nil || better(x, best) { best = x } }\<close>.
\<close>

fun pick_best :: "('a \<Rightarrow> 'a \<Rightarrow> bool) \<Rightarrow> 'a option \<Rightarrow> 'a list \<Rightarrow> 'a option" where
  "pick_best better best [] = best"
| "pick_best better best (x # xs) =
     pick_best better
       (case best of None \<Rightarrow> Some x | Some b \<Rightarrow> if better x b then Some x else best) xs"

lemma pick_best_in:
  "pick_best better best xs = Some x \<Longrightarrow> x \<in> set xs \<or> best = Some x"
  by (induction xs arbitrary: best) (auto split: option.splits if_splits)

lemma pick_best_Some: "pick_best better (Some b) xs \<noteq> None"
  by (induction xs arbitrary: b) (auto split: if_splits)

lemma pick_best_None_iff [simp]: "pick_best better None xs = None \<longleftrightarrow> xs = []"
  using pick_best_Some by (cases xs) auto

lemma pick_best_max:
  fixes f :: "'a \<Rightarrow> int"
  assumes "pick_best (\<lambda>x b. f b < f x) best xs = Some r"
  shows "(\<forall>x\<in>set xs. f x \<le> f r) \<and> (\<forall>b. best = Some b \<longrightarrow> f b \<le> f r)"
  using assms
proof (induction xs arbitrary: best)
  case Nil
  then show ?case by simp
next
  case (Cons x xs)
  then show ?case by (cases best) (fastforce split: if_splits)+
qed

text \<open>
  Reading a missing key of a map of slices gives the empty slice, and
  \<^verbatim>\<open>m[k] = append(m[k], x)\<close> makes the key when it is missing.
\<close>

definition slice_at :: "('k \<rightharpoonup> 'v list) \<Rightarrow> 'k \<Rightarrow> 'v list" where
  "slice_at m k = (case m k of None \<Rightarrow> [] | Some xs \<Rightarrow> xs)"

definition push_at :: "'k \<Rightarrow> 'v \<Rightarrow> ('k \<rightharpoonup> 'v list) \<Rightarrow> 'k \<rightharpoonup> 'v list" where
  "push_at k x m = m(k \<mapsto> slice_at m k @ [x])"

lemma filter_cong_set: "(\<And>x. x \<in> set xs \<Longrightarrow> P x = Q x) \<Longrightarrow> filter P xs = filter Q xs"
  by (rule filter_cong) auto

end
