(* ===== verification/LLM_Job.thy ===== *)
theory LLM_Job
  imports Go_Prelude
begin

text \<open>
  The job model of \<^verbatim>\<open>internal/llm\<close> (\<^verbatim>\<open>job.go\<close>, \<^verbatim>\<open>job_log.go\<close>, the filter of \<^verbatim>\<open>store.go\<close>).
  Go's string enumerations are datatypes whose last constructor stands for every other
  string, the zero value being that constructor at the empty string. A pointer field
  \<^verbatim>\<open>*time.Time\<close> is a \<open>time option\<close>. Record fields carry the prefix of their struct:
  \<open>j\<close> for \<^verbatim>\<open>Job\<close>, \<open>r\<close> for \<^verbatim>\<open>EnqueueRequest\<close>, \<open>l\<close> for \<^verbatim>\<open>JobLogEntry\<close>, \<open>f\<close> for \<^verbatim>\<open>ListFilter\<close>.
\<close>

section \<open>Status, subsystem, priority\<close>

datatype JobStatus = StatusPending | StatusGenerating | StatusReady | StatusFailed
  | StatusCancelled | StatusOther string

fun status_string :: "JobStatus \<Rightarrow> string" where
  "status_string StatusPending = ''pending''"
| "status_string StatusGenerating = ''generating''"
| "status_string StatusReady = ''ready''"
| "status_string StatusFailed = ''failed''"
| "status_string StatusCancelled = ''cancelled''"
| "status_string (StatusOther s) = s"

definition IsTerminal :: "JobStatus \<Rightarrow> bool" where
  "IsTerminal s \<longleftrightarrow> s = StatusReady \<or> s = StatusFailed \<or> s = StatusCancelled"

definition IsActive :: "JobStatus \<Rightarrow> bool" where
  "IsActive s \<longleftrightarrow> s = StatusPending \<or> s = StatusGenerating"

lemma IsTerminal_simps [simp]:
  "IsTerminal StatusReady" "IsTerminal StatusFailed" "IsTerminal StatusCancelled"
  "\<not> IsTerminal StatusPending" "\<not> IsTerminal StatusGenerating" "\<not> IsTerminal (StatusOther s)"
  by (simp_all add: IsTerminal_def)

lemma IsActive_simps [simp]:
  "IsActive StatusPending" "IsActive StatusGenerating"
  "\<not> IsActive StatusReady" "\<not> IsActive StatusFailed" "\<not> IsActive StatusCancelled"
  "\<not> IsActive (StatusOther s)"
  by (simp_all add: IsActive_def)

lemma active_not_terminal: "IsActive s \<Longrightarrow> \<not> IsTerminal s"
  by (cases s) simp_all

datatype Subsystem = SubsystemKnowledge | SubsystemReasoning | SubsystemRequirements
  | SubsystemLinking | SubsystemContracts | SubsystemQA | SubsystemClustering
  | SubsystemLivingWiki | SubsystemOther string

fun subsystem_string :: "Subsystem \<Rightarrow> string" where
  "subsystem_string SubsystemKnowledge = ''knowledge''"
| "subsystem_string SubsystemReasoning = ''reasoning''"
| "subsystem_string SubsystemRequirements = ''requirements''"
| "subsystem_string SubsystemLinking = ''linking''"
| "subsystem_string SubsystemContracts = ''contracts''"
| "subsystem_string SubsystemQA = ''qa''"
| "subsystem_string SubsystemClustering = ''clustering''"
| "subsystem_string SubsystemLivingWiki = ''living_wiki''"
| "subsystem_string (SubsystemOther s) = s"

definition AllSubsystems :: "Subsystem list" where
  "AllSubsystems = [SubsystemKnowledge, SubsystemReasoning, SubsystemRequirements,
     SubsystemLinking, SubsystemContracts, SubsystemQA, SubsystemClustering, SubsystemLivingWiki]"

abbreviation no_subsystem :: Subsystem where
  "no_subsystem \<equiv> SubsystemOther []"

datatype JobPriority = PriorityInteractive | PriorityMaintenance | PriorityPrewarm
  | PriorityOther string

abbreviation no_priority :: JobPriority where
  "no_priority \<equiv> PriorityOther []"

section \<open>The life cycle as an order\<close>

text \<open>
  A job moves from pending to generating to one of the terminal statuses. \<open>s \<le> t\<close> says
  that a job in status \<open>s\<close> may still get to \<open>t\<close>; the terminal statuses are its maximal
  elements, and a status outside the enumeration is comparable with itself only.
\<close>

fun lifecycle_rank :: "JobStatus \<Rightarrow> nat" where
  "lifecycle_rank StatusPending = 0"
| "lifecycle_rank StatusGenerating = 1"
| "lifecycle_rank StatusReady = 2"
| "lifecycle_rank StatusFailed = 2"
| "lifecycle_rank StatusCancelled = 2"
| "lifecycle_rank (StatusOther s) = 3"

instantiation JobStatus :: order
begin

definition less_JobStatus :: "JobStatus \<Rightarrow> JobStatus \<Rightarrow> bool" where
  "less_JobStatus s t \<longleftrightarrow> lifecycle_rank s < lifecycle_rank t \<and> lifecycle_rank t \<le> 2"

definition less_eq_JobStatus :: "JobStatus \<Rightarrow> JobStatus \<Rightarrow> bool" where
  "less_eq_JobStatus s t \<longleftrightarrow> s = t \<or> s < t"

instance
  by standard (auto simp: less_JobStatus_def less_eq_JobStatus_def)

end

lemma terminal_maximal: "IsTerminal s \<Longrightarrow> s \<le> t \<longleftrightarrow> t = s"
  by (cases s; cases t) (auto simp: less_eq_JobStatus_def less_JobStatus_def)

lemma active_le_terminal: "IsActive s \<Longrightarrow> IsTerminal t \<Longrightarrow> s \<le> t"
  by (cases s; cases t) (auto simp: less_eq_JobStatus_def less_JobStatus_def)

lemma pending_le_generating [simp]: "StatusPending \<le> StatusGenerating"
  by (simp add: less_eq_JobStatus_def less_JobStatus_def)

section \<open>The job record\<close>

record Job =
  jID :: string
  jSubsystem :: Subsystem
  jJobType :: string
  jTargetKey :: string
  jStrategy :: string
  jModel :: string
  jPriority :: JobPriority
  jGenerationMode :: string
  jLLMProvider :: string
  jStatus :: JobStatus
  jProgress :: float64
  jProgressPhase :: string
  jProgressMessage :: string
  jCurrentTokensPerSecond :: float64
  jErrorCode :: string
  jErrorMessage :: string
  jRetryCount :: int
  jMaxAttempts :: int
  jTimeoutSec :: int
  jAttachedRequests :: int
  jInputTokens :: int
  jOutputTokens :: int
  jSnapshotBytes :: int
  jReusedSummaries :: int
  jLeafCacheHits :: int
  jFileCacheHits :: int
  jPackageCacheHits :: int
  jRootCacheHits :: int
  jCachedNodesLoaded :: int
  jTotalNodes :: int
  jResumeStage :: string
  jSkippedLeafUnits :: int
  jSkippedFileUnits :: int
  jSkippedPackageUnits :: int
  jSkippedRootUnits :: int
  jProcessID :: string
  jArtifactID :: string
  jRepoID :: string
  jCreatedAt :: time
  jStartedAt :: "time option"
  jUpdatedAt :: time
  jCompletedAt :: "time option"

text \<open>The zero value \<^verbatim>\<open>Job{}\<close>, on which composite literals are built.\<close>

definition zero_Job :: Job where
  "zero_Job = \<lparr>jID = [], jSubsystem = no_subsystem, jJobType = [], jTargetKey = [],
     jStrategy = [], jModel = [], jPriority = no_priority, jGenerationMode = [],
     jLLMProvider = [], jStatus = StatusOther [], jProgress = Fin 0, jProgressPhase = [],
     jProgressMessage = [], jCurrentTokensPerSecond = Fin 0, jErrorCode = [],
     jErrorMessage = [], jRetryCount = 0, jMaxAttempts = 0, jTimeoutSec = 0,
     jAttachedRequests = 0, jInputTokens = 0, jOutputTokens = 0, jSnapshotBytes = 0,
     jReusedSummaries = 0, jLeafCacheHits = 0, jFileCacheHits = 0, jPackageCacheHits = 0,
     jRootCacheHits = 0, jCachedNodesLoaded = 0, jTotalNodes = 0, jResumeStage = [],
     jSkippedLeafUnits = 0, jSkippedFileUnits = 0, jSkippedPackageUnits = 0,
     jSkippedRootUnits = 0, jProcessID = [], jArtifactID = [], jRepoID = [],
     jCreatedAt = zero_time, jStartedAt = None, jUpdatedAt = zero_time, jCompletedAt = None\<rparr>"

definition set_time :: "time option \<Rightarrow> bool" where
  "set_time t = (case t of None \<Rightarrow> False | Some u \<Rightarrow> \<not> IsZero u)"

definition Elapsed :: "time \<Rightarrow> Job option \<Rightarrow> duration" where
  "Elapsed now jp = (case jp of None \<Rightarrow> 0
     | Some j \<Rightarrow>
        (let start = (if set_time (jStartedAt j) then the (jStartedAt j) else jCreatedAt j);
             stop = (if set_time (jCompletedAt j) then the (jCompletedAt j) else now)
         in if Before stop start then 0 else time_Sub stop start))"

lemma Elapsed_bounds: "0 \<le> Elapsed now jp \<and> Elapsed now jp \<le> max_duration"
  by (auto simp: Elapsed_def Let_def Before_def time_Sub_def split: option.split)

lemma Elapsed_completed:
  "jCompletedAt j = Some t \<Longrightarrow> \<not> IsZero t \<Longrightarrow> Elapsed now (Some j) = Elapsed now' (Some j)"
  by (simp add: Elapsed_def set_time_def)

section \<open>Enqueue requests\<close>

text \<open>
  The two closures of the request are represented by whether they are set; what a closure
  does when it is called is the argument \<open>run\<close> of the model of the worker.
\<close>

record EnqueueRequest =
  rSubsystem :: Subsystem
  rJobType :: string
  rTargetKey :: string
  rStrategy :: string
  rModel :: string
  rLLMProvider :: string
  rPriority :: JobPriority
  rGenerationMode :: string
  rArtifactID :: string
  rRepoID :: string
  rTimeoutSec :: int
  rMaxAttempts :: int
  rRunWithContext :: bool
  rRun :: bool

definition Validate :: "EnqueueRequest option \<Rightarrow> go_error option \<times> EnqueueRequest option" where
  "Validate rp = (case rp of None \<Rightarrow> (Some (Errorf ''enqueue request is nil''), None)
     | Some r \<Rightarrow>
        if TrimSpace (subsystem_string (rSubsystem r)) = []
        then (Some (Errorf ''subsystem is required''), Some r)
        else if TrimSpace (rJobType r) = []
        then (Some (Errorf ''job_type is required''), Some r)
        else if TrimSpace (rTargetKey r) = []
        then (Some (Errorf ''target_key is required (used for dedupe)''), Some r)
        else
          (let r1 = (if rPriority r = no_priority then r\<lparr>rPriority := PriorityInteractive\<rparr> else r)
           in if \<not> rRunWithContext r1 \<and> \<not> rRun r1
              then (Some (Errorf ''run function is required''), Some r1)
              else (None, Some r1)))"

lemma Validate_ok:
  assumes "Validate rp = (None, rp')"
  obtains r where "rp = Some r"
    and "rp' = Some (if rPriority r = no_priority then r\<lparr>rPriority := PriorityInteractive\<rparr> else r)"
    and "rTargetKey r \<noteq> []" and "rJobType r \<noteq> []" and "rRunWithContext r \<or> rRun r"
  using assms
  by (cases rp) (auto simp: Validate_def Let_def dest: TrimSpace_nonempty split: if_splits)

section \<open>Events, logs, filters\<close>

datatype EventKind = EventCreated | EventStarted | EventProgress | EventCompleted
  | EventFailed | EventCancelled

record JobEvent =
  evKind :: EventKind
  evJob :: Job

datatype JobLogLevel = LogLevelDebug | LogLevelInfo | LogLevelWarn | LogLevelError

text \<open>
  \<^verbatim>\<open>PayloadJSON\<close> is kept as the list of key/value pairs that is marshalled; its JSON text is
  not modelled.
\<close>

datatype payload_value = PString string | PInt int | PFloat float64

type_synonym payload = "(string \<times> payload_value) list"

record JobLogEntry =
  lID :: string
  lJobID :: string
  lRepoID :: string
  lArtifactID :: string
  lSubsystem :: Subsystem
  lJobType :: string
  lLLMProvider :: string
  lLevel :: JobLogLevel
  lPhase :: string
  lEvent :: string
  lMessage :: string
  lPayload :: payload
  lSequence :: int
  lCreatedAt :: time

record JobLogFilter =
  lfLimit :: int
  lfAfterSequence :: int

record ListFilter =
  fSubsystem :: Subsystem
  fJobType :: string
  fRepoID :: string
  fArtifactID :: string
  fTargetKey :: string
  fStatuses :: "JobStatus list"
  fLimit :: int

definition no_filter :: ListFilter where
  "no_filter = \<lparr>fSubsystem = no_subsystem, fJobType = [], fRepoID = [], fArtifactID = [],
     fTargetKey = [], fStatuses = [], fLimit = 0\<rparr>"

end
