(* ===== verification/LLM_MemStore.thy ===== *)
theory LLM_MemStore
  imports LLM_Job
begin

text \<open>
  The job store of \<^verbatim>\<open>internal/llm/memstore.go\<close>. A \<open>MemStore\<close> is the two maps of the struct
  (its mutex makes every method atomic, so a method is a function of the state). A method
  that returns only an \<^verbatim>\<open>error\<close> gives that error and the new store; \<^verbatim>\<open>time.Now()\<close> is the
  argument \<open>now\<close>. The methods that range over the job map take the visiting order \<open>ks\<close>.
\<close>

record MemStore =
  ms_jobs :: "string \<rightharpoonup> Job"
  ms_logs :: "string \<rightharpoonup> JobLogEntry list"

definition NewMemStore :: MemStore where
  "NewMemStore = \<lparr>ms_jobs = Map.empty, ms_logs = Map.empty\<rparr>"

definition job_not_found :: "string \<Rightarrow> go_error" where
  "job_not_found i = Errorf (''job '' @ i @ '' not found'')"

section \<open>Creating, replacing and reading jobs\<close>

definition fill_defaults :: "time \<Rightarrow> Job \<Rightarrow> Job" where
  "fill_defaults now job =
     (let j1 = (if IsZero (jCreatedAt job) then job\<lparr>jCreatedAt := now\<rparr> else job);
          j2 = (if IsZero (jUpdatedAt j1) then j1\<lparr>jUpdatedAt := now\<rparr> else j1);
          j3 = (if jStatus j2 = StatusOther [] then j2\<lparr>jStatus := StatusPending\<rparr> else j2)
      in if jPriority j3 = no_priority then j3\<lparr>jPriority := PriorityInteractive\<rparr> else j3)"

definition Create :: "time \<Rightarrow> Job option \<Rightarrow> MemStore \<Rightarrow> (go_error + Job) \<times> MemStore" where
  "Create now jp s = (case jp of None \<Rightarrow> (Inl (Errorf ''job is nil''), s)
     | Some job \<Rightarrow>
        if jID job = [] then (Inl (Errorf ''job id is required''), s)
        else if ms_jobs s (jID job) \<noteq> None
        then (Inl (Errorf (''job '' @ jID job @ '' already exists'')), s)
        else
          (let stored = fill_defaults now job
           in (Inr stored, s\<lparr>ms_jobs := (ms_jobs s)(jID job \<mapsto> stored)\<rparr>)))"

definition Update :: "time \<Rightarrow> Job option \<Rightarrow> MemStore \<Rightarrow> go_error option \<times> MemStore" where
  "Update now jp s = (case jp of None \<Rightarrow> (Some (Errorf ''job id is required''), s)
     | Some job \<Rightarrow>
        if jID job = [] then (Some (Errorf ''job id is required''), s)
        else if ms_jobs s (jID job) = None then (Some (job_not_found (jID job)), s)
        else (None, s\<lparr>ms_jobs := (ms_jobs s)(jID job \<mapsto> job\<lparr>jUpdatedAt := now\<rparr>)\<rparr>))"

definition GetByID :: "string \<Rightarrow> MemStore \<Rightarrow> Job option" where
  "GetByID i s = ms_jobs s i"

definition GetActiveByTargetKey :: "string list \<Rightarrow> string \<Rightarrow> MemStore \<Rightarrow> Job option" where
  "GetActiveByTargetKey ks key s =
     pick_best (\<lambda>j best. After (jUpdatedAt j) (jUpdatedAt best)) None
       (filter (\<lambda>j. jTargetKey j = key \<and> IsActive (jStatus j)) (range_vals (ms_jobs s) ks))"

definition list_keeps :: "ListFilter \<Rightarrow> JobStatus list \<Rightarrow> time \<Rightarrow> Job \<Rightarrow> bool" where
  "list_keeps flt statuses since j \<longleftrightarrow>
     jStatus j \<in> set statuses
   \<and> (fSubsystem flt = no_subsystem \<or> jSubsystem j = fSubsystem flt)
   \<and> (fJobType flt = [] \<or> jJobType j = fJobType flt)
   \<and> (fRepoID flt = [] \<or> jRepoID j = fRepoID flt)
   \<and> (fArtifactID flt = [] \<or> jArtifactID j = fArtifactID flt)
   \<and> (fTargetKey flt = [] \<or> jTargetKey j = fTargetKey flt)
   \<and> (IsZero since \<or> \<not> Before (jUpdatedAt j) since)"

definition listLocked ::
  "string list \<Rightarrow> ListFilter \<Rightarrow> JobStatus list \<Rightarrow> time \<Rightarrow> MemStore \<Rightarrow> Job list" where
  "listLocked ks flt statuses since s =
     (let results = sort_key (\<lambda>j. - jUpdatedAt j)
                      (filter (list_keeps flt statuses since) (range_vals (ms_jobs s) ks))
      in if 0 < fLimit flt \<and> fLimit flt < int (length results)
         then take (nat (fLimit flt)) results else results)"

definition ListActive :: "string list \<Rightarrow> ListFilter \<Rightarrow> MemStore \<Rightarrow> Job list" where
  "ListActive ks flt s =
     (let statuses = (if fStatuses flt = [] then [StatusPending, StatusGenerating] else fStatuses flt)
      in listLocked ks flt statuses zero_time s)"

definition ListRecent :: "string list \<Rightarrow> ListFilter \<Rightarrow> time \<Rightarrow> MemStore \<Rightarrow> Job list" where
  "ListRecent ks flt since s =
     (let statuses = (if fStatuses flt = [] then [StatusReady, StatusFailed, StatusCancelled]
                      else fStatuses flt)
      in listLocked ks flt statuses since s)"

section \<open>The setters\<close>

text \<open>
  Every setter first looks the job up and fails when it is not there; then it writes some
  fields of the stored record, or none when a guard makes it a no-op.
\<close>

definition on_job :: "string \<Rightarrow> (Job \<Rightarrow> Job) \<Rightarrow> MemStore \<Rightarrow> go_error option \<times> MemStore" where
  "on_job i f s = (case ms_jobs s i of None \<Rightarrow> (Some (job_not_found i), s)
     | Some j \<Rightarrow> (None, s\<lparr>ms_jobs := (ms_jobs s)(i \<mapsto> f j)\<rparr>))"

definition status_write :: "time \<Rightarrow> JobStatus \<Rightarrow> Job \<Rightarrow> Job" where
  "status_write now status j =
     (if IsTerminal (jStatus j) \<and> status \<noteq> jStatus j \<and> IsTerminal status then j
      else
        (let j1 = j\<lparr>jStatus := status, jUpdatedAt := now\<rparr>;
             j2 = (if status = StatusGenerating \<and> \<not> set_time (jStartedAt j1)
                   then j1\<lparr>jStartedAt := Some now\<rparr> else j1)
         in if IsTerminal status
            then (let j3 = j2\<lparr>jCompletedAt := Some now\<rparr>
                  in if status = StatusReady
                     then j3\<lparr>jProgress := Fin 1, jErrorCode := [], jErrorMessage := []\<rparr>
                     else j3)
            else j2))"

definition SetStatus :: "time \<Rightarrow> string \<Rightarrow> JobStatus \<Rightarrow> MemStore \<Rightarrow> go_error option \<times> MemStore" where
  "SetStatus now i status s = on_job i (status_write now status) s"

definition progress_write :: "time \<Rightarrow> float64 \<Rightarrow> string \<Rightarrow> string \<Rightarrow> float64 \<Rightarrow> Job \<Rightarrow> Job" where
  "progress_write now progress phase message tps j =
     (if IsTerminal (jStatus j) then j
      else
        (let j1 = j\<lparr>jProgress := clamp01 progress, jProgressPhase := phase,
                    jProgressMessage := message\<rparr>;
             j2 = (if float_less (Fin 0) tps then j1\<lparr>jCurrentTokensPerSecond := tps\<rparr> else j1)
         in j2\<lparr>jUpdatedAt := now\<rparr>))"

definition SetProgress ::
  "time \<Rightarrow> string \<Rightarrow> float64 \<Rightarrow> string \<Rightarrow> string \<Rightarrow> float64 \<Rightarrow> MemStore \<Rightarrow> go_error option \<times> MemStore" where
  "SetProgress now i progress phase message tps s =
     on_job i (progress_write now progress phase message tps) s"

definition Heartbeat :: "time \<Rightarrow> string \<Rightarrow> MemStore \<Rightarrow> go_error option \<times> MemStore" where
  "Heartbeat now i s = (case ms_jobs s i of None \<Rightarrow> (None, s)
     | Some j \<Rightarrow> if IsTerminal (jStatus j) then (None, s)
                 else (None, s\<lparr>ms_jobs := (ms_jobs s)(i \<mapsto> j\<lparr>jUpdatedAt := now\<rparr>)\<rparr>))"

definition error_write :: "time \<Rightarrow> string \<Rightarrow> string \<Rightarrow> Job \<Rightarrow> Job" where
  "error_write now code message j =
     (if IsTerminal (jStatus j) \<and> jStatus j \<noteq> StatusFailed then j
      else j\<lparr>jStatus := StatusFailed, jErrorCode := code, jErrorMessage := message,
             jUpdatedAt := now, jCompletedAt := Some now\<rparr>)"

definition SetError :: "time \<Rightarrow> string \<Rightarrow> string \<Rightarrow> string \<Rightarrow> MemStore \<Rightarrow> go_error option \<times> MemStore" where
  "SetError now i code message s = on_job i (error_write now code message) s"

definition SetTokens :: "time \<Rightarrow> string \<Rightarrow> int \<Rightarrow> int \<Rightarrow> MemStore \<Rightarrow> go_error option \<times> MemStore" where
  "SetTokens now i input output s =
     on_job i (\<lambda>j. if IsTerminal (jStatus j) then j
                   else j\<lparr>jInputTokens := input, jOutputTokens := output, jUpdatedAt := now\<rparr>) s"

definition SetSnapshotBytes :: "time \<Rightarrow> string \<Rightarrow> int \<Rightarrow> MemStore \<Rightarrow> go_error option \<times> MemStore" where
  "SetSnapshotBytes now i bytes s =
     on_job i (\<lambda>j. if IsTerminal (jStatus j) then j
                   else j\<lparr>jSnapshotBytes := bytes, jUpdatedAt := now\<rparr>) s"

definition SetReuseStats ::
  "time \<Rightarrow> string \<Rightarrow> int \<Rightarrow> int \<Rightarrow> int \<Rightarrow> int \<Rightarrow> int \<Rightarrow> MemStore \<Rightarrow> go_error option \<times> MemStore" where
  "SetReuseStats now i reused leafHits fileHits packageHits rootHits s =
     on_job i (\<lambda>j. j\<lparr>jReusedSummaries := reused, jLeafCacheHits := leafHits,
                    jFileCacheHits := fileHits, jPackageCacheHits := packageHits,
                    jRootCacheHits := rootHits, jUpdatedAt := now\<rparr>) s"

definition attach_write :: "time \<Rightarrow> Job \<Rightarrow> Job" where
  "attach_write now j =
     (let n = (if jAttachedRequests j \<le> 0 then 1 else jAttachedRequests j)
      in j\<lparr>jAttachedRequests := wrap64 (n + 1), jUpdatedAt := now\<rparr>)"

definition IncrementAttachedRequests :: "time \<Rightarrow> string \<Rightarrow> MemStore \<Rightarrow> go_error option \<times> MemStore" where
  "IncrementAttachedRequests now i s = on_job i (attach_write now) s"

definition IncrementRetry :: "time \<Rightarrow> string \<Rightarrow> MemStore \<Rightarrow> go_error option \<times> MemStore" where
  "IncrementRetry now i s =
     on_job i (\<lambda>j. if IsTerminal (jStatus j) then j
                   else j\<lparr>jRetryCount := wrap64 (jRetryCount j + 1), jUpdatedAt := now\<rparr>) s"

definition ForceUpdatedAt :: "string \<Rightarrow> time \<Rightarrow> MemStore \<Rightarrow> go_error option \<times> MemStore" where
  "ForceUpdatedAt i t s = on_job i (\<lambda>j. j\<lparr>jUpdatedAt := t\<rparr>) s"

section \<open>The job log\<close>

definition AppendLog ::
  "time \<Rightarrow> JobLogEntry option \<Rightarrow> MemStore \<Rightarrow> (go_error + JobLogEntry) \<times> MemStore" where
  "AppendLog now ep s = (case ep of None \<Rightarrow> (Inl (Errorf ''job log job_id is required''), s)
     | Some entry \<Rightarrow>
        if lJobID entry = [] then (Inl (Errorf ''job log job_id is required''), s)
        else if ms_jobs s (lJobID entry) = None then (Inl (job_not_found (lJobID entry)), s)
        else
          (let stored = (if IsZero (lCreatedAt entry) then entry\<lparr>lCreatedAt := now\<rparr> else entry);
               old = (case ms_logs s (lJobID entry) of None \<Rightarrow> [] | Some ls \<Rightarrow> ls)
           in (Inr stored, s\<lparr>ms_logs := (ms_logs s)(lJobID entry \<mapsto> old @ [stored])\<rparr>)))"

definition log_rows :: "MemStore \<Rightarrow> string \<Rightarrow> JobLogEntry list" where
  "log_rows s i = (case ms_logs s i of None \<Rightarrow> [] | Some ls \<Rightarrow> ls)"

text \<open>Ordered by sequence, ties by creation time: two stable sorts, the minor key first.\<close>

definition ListLogs :: "string \<Rightarrow> JobLogFilter \<Rightarrow> MemStore \<Rightarrow> JobLogEntry list" where
  "ListLogs i flt s =
     (let rows = filter (\<lambda>r. \<not> (0 < lfAfterSequence flt \<and> lSequence r \<le> lfAfterSequence flt))
                   (log_rows s i);
          out = sort_key lSequence (sort_key lCreatedAt rows)
      in if 0 < lfLimit flt \<and> lfLimit flt < int (length out)
         then drop (length out - nat (lfLimit flt)) out else out)"

section \<open>What the operations do to a lookup\<close>

lemma on_job_jobs [store_simps]:
  "ms_jobs (snd (on_job i f s)) k = (if k = i then map_option f (ms_jobs s i) else ms_jobs s k)"
  by (auto simp: on_job_def split: option.split)

lemma on_job_logs [store_simps]: "ms_logs (snd (on_job i f s)) = ms_logs s"
  by (simp add: on_job_def split: option.split)

lemma on_job_error [store_simps]:
  "fst (on_job i f s) = (if ms_jobs s i = None then Some (job_not_found i) else None)"
  by (simp add: on_job_def split: option.split)

lemma on_job_upd: "ms_jobs s i = Some j \<Longrightarrow> ms_jobs (snd (on_job i f s)) = (ms_jobs s)(i \<mapsto> f j)"
  by (simp add: on_job_def)

lemmas setter_defs = SetStatus_def SetProgress_def SetError_def SetTokens_def
  SetSnapshotBytes_def SetReuseStats_def IncrementAttachedRequests_def IncrementRetry_def
  ForceUpdatedAt_def

lemma Heartbeat_jobs [store_simps]:
  "ms_jobs (snd (Heartbeat now i s)) k =
     (if k = i then map_option (\<lambda>j. if IsTerminal (jStatus j) then j else j\<lparr>jUpdatedAt := now\<rparr>)
                     (ms_jobs s i)
      else ms_jobs s k)"
  by (auto simp: Heartbeat_def split: option.split)

lemma Heartbeat_logs [store_simps]: "ms_logs (snd (Heartbeat now i s)) = ms_logs s"
  by (simp add: Heartbeat_def split: option.split)

lemma Heartbeat_never_fails [simp]: "fst (Heartbeat now i s) = None"
  by (simp add: Heartbeat_def split: option.split)

lemma AppendLog_jobs [store_simps]: "ms_jobs (snd (AppendLog now ep s)) = ms_jobs s"
  by (cases ep) (simp_all add: AppendLog_def Let_def)

lemma Create_logs [store_simps]: "ms_logs (snd (Create now jp s)) = ms_logs s"
  by (cases jp) (simp_all add: Create_def Let_def)

lemma fill_defaults_sel [simp]:
  "jID (fill_defaults now j) = jID j" "jTargetKey (fill_defaults now j) = jTargetKey j"
  "jStatus (fill_defaults now j) =
     (if jStatus j = StatusOther [] then StatusPending else jStatus j)"
  "jProgress (fill_defaults now j) = jProgress j"
  "jCompletedAt (fill_defaults now j) = jCompletedAt j"
  "jErrorCode (fill_defaults now j) = jErrorCode j"
  "jErrorMessage (fill_defaults now j) = jErrorMessage j"
  "jMaxAttempts (fill_defaults now j) = jMaxAttempts j"
  "jAttachedRequests (fill_defaults now j) = jAttachedRequests j"
  "jProcessID (fill_defaults now j) = jProcessID j"
  "jLLMProvider (fill_defaults now j) = jLLMProvider j"
  "jPriority (fill_defaults now j) =
     (if jPriority j = no_priority then PriorityInteractive else jPriority j)"
  by (simp_all add: fill_defaults_def Let_def)

lemma fill_defaults_id:
  assumes "\<not> IsZero (jCreatedAt job)" and "\<not> IsZero (jUpdatedAt job)"
    and "jStatus job \<noteq> StatusOther []" and "jPriority job \<noteq> no_priority"
  shows "fill_defaults now job = job"
  using assms by (simp add: fill_defaults_def)

lemma Create_ok:
  assumes "Create now jp s = (Inr j, s')"
  obtains job where "jp = Some job" and "jID job \<noteq> []" and "ms_jobs s (jID job) = None"
    and "j = fill_defaults now job" and "s' = s\<lparr>ms_jobs := (ms_jobs s)(jID job \<mapsto> j)\<rparr>"
  using assms
  by (cases jp) (auto simp: Create_def Let_def split: if_splits)

lemma Create_error: "Create now jp s = (Inl e, s') \<Longrightarrow> s' = s"
  by (auto simp: Create_def Let_def split: option.splits if_splits)

text \<open>The record that \<open>Create\<close> stores, for a caller that fills the defaulted fields itself.\<close>

lemma Create_filled:
  assumes "jID job \<noteq> []" and "ms_jobs s (jID job) = None"
    and "\<not> IsZero (jCreatedAt job)" and "\<not> IsZero (jUpdatedAt job)"
    and "jStatus job \<noteq> StatusOther []" and "jPriority job \<noteq> no_priority"
  shows "Create now (Some job) s = (Inr job, s\<lparr>ms_jobs := (ms_jobs s)(jID job \<mapsto> job)\<rparr>)"
  using assms by (simp add: Create_def fill_defaults_id)

section \<open>Writers that respect a terminal status\<close>

definition keeps_terminal :: "(Job \<Rightarrow> Job) \<Rightarrow> bool" where
  "keeps_terminal f \<longleftrightarrow> (\<forall>j. IsTerminal (jStatus j) \<longrightarrow> jStatus (f j) = jStatus j)"

lemma status_write_guard:
  assumes "IsTerminal (jStatus j)" and "IsTerminal status"
  shows "jStatus (status_write now status j) = jStatus j"
  using assms by (auto simp: status_write_def Let_def)

lemma status_write_status:
  "jStatus (status_write now status j) =
     (if IsTerminal (jStatus j) \<and> IsTerminal status then jStatus j else status)"
  by (auto simp: status_write_def Let_def)

lemma error_write_status:
  "jStatus (error_write now c m j) =
     (if IsTerminal (jStatus j) then jStatus j else StatusFailed)"
  by (auto simp: error_write_def)

lemma progress_write_status [simp]: "jStatus (progress_write now p ph m t j) = jStatus j"
  by (simp add: progress_write_def Let_def)

lemma progress_write_terminal: "IsTerminal (jStatus j) \<Longrightarrow> progress_write now p ph m t j = j"
  by (simp add: progress_write_def)

lemma attach_write_sel [simp]:
  "jID (attach_write now j) = jID j" "jStatus (attach_write now j) = jStatus j"
  "jTargetKey (attach_write now j) = jTargetKey j" "jProgress (attach_write now j) = jProgress j"
  "jCompletedAt (attach_write now j) = jCompletedAt j" "jErrorCode (attach_write now j) = jErrorCode j"
  "jErrorMessage (attach_write now j) = jErrorMessage j"
  "jAttachedRequests (attach_write now j) =
     wrap64 ((if jAttachedRequests j \<le> 0 then 1 else jAttachedRequests j) + 1)"
  by (simp_all add: attach_write_def Let_def)

lemma write_frame [frame_simps]:
  "jID (status_write now st j) = jID j"
  "jTargetKey (status_write now st j) = jTargetKey j"
  "jID (error_write now c m j) = jID j"
  "jTargetKey (error_write now c m j) = jTargetKey j"
  "jID (progress_write now p ph m t j) = jID j"
  "jTargetKey (progress_write now p ph m t j) = jTargetKey j"
  by (simp_all add: status_write_def error_write_def progress_write_def Let_def)

section \<open>Queries\<close>

lemma GetActiveByTargetKey_None:
  assumes "enumerates (ms_jobs s) ks"
  shows "GetActiveByTargetKey ks key s = None \<longleftrightarrow>
    (\<forall>i j. ms_jobs s i = Some j \<longrightarrow> \<not> (jTargetKey j = key \<and> IsActive (jStatus j)))"
  using set_range_vals_enum [OF assms]
  by (auto simp: GetActiveByTargetKey_def filter_empty_conv ran_def)

lemma GetActiveByTargetKey_Some:
  assumes "enumerates (ms_jobs s) ks" and "GetActiveByTargetKey ks key s = Some j"
  shows "\<exists>i. ms_jobs s i = Some j" and "jTargetKey j = key" and "IsActive (jStatus j)"
    and "\<And>i k. ms_jobs s i = Some k \<Longrightarrow> jTargetKey k = key \<Longrightarrow> IsActive (jStatus k)
          \<Longrightarrow> jUpdatedAt k \<le> jUpdatedAt j"
proof -
  let ?xs = "filter (\<lambda>j. jTargetKey j = key \<and> IsActive (jStatus j)) (range_vals (ms_jobs s) ks)"
  have pick: "pick_best (\<lambda>j b. jUpdatedAt b < jUpdatedAt j) None ?xs = Some j"
    using assms(2) by (simp add: GetActiveByTargetKey_def After_def)
  have vals: "set (range_vals (ms_jobs s) ks) = ran (ms_jobs s)"
    using assms(1) by (rule set_range_vals_enum)
  from pick_best_in [OF pick] have j: "j \<in> set ?xs" by simp
  with vals show "\<exists>i. ms_jobs s i = Some j" "jTargetKey j = key" "IsActive (jStatus j)"
    by (auto simp: ran_def)
  fix i k
  assume "ms_jobs s i = Some k" "jTargetKey k = key" "IsActive (jStatus k)"
  with vals have "k \<in> set ?xs" by (auto simp: ran_def)
  with pick_best_max [OF pick] show "jUpdatedAt k \<le> jUpdatedAt j" by blast
qed

lemma listLocked_sorted: "sorted_wrt (\<lambda>a b. jUpdatedAt b \<le> jUpdatedAt a) (listLocked ks flt sts since s)"
  by (auto simp: listLocked_def Let_def intro: sort_desc_sorted sorted_wrt_take)

lemma listLocked_sound: "j \<in> set (listLocked ks flt sts since s) \<Longrightarrow>
    list_keeps flt sts since j \<and> (\<exists>i\<in>set ks. ms_jobs s i = Some j)"
  by (auto simp: listLocked_def Let_def set_range_vals dest: in_set_takeD split: if_splits)

lemma listLocked_all:
  assumes "enumerates (ms_jobs s) ks" and "fLimit flt \<le> 0"
  shows "set (listLocked ks flt sts since s) = {j \<in> ran (ms_jobs s). list_keeps flt sts since j}"
  using set_range_vals_enum [OF assms(1)] assms(2) by (auto simp: listLocked_def Let_def)

text \<open>A truncated listing keeps the most recently updated of the matching jobs.\<close>

lemma listLocked_most_recent:
  assumes "enumerates (ms_jobs s) ks" and "ms_jobs s i = Some j" and "list_keeps flt sts since j"
    and "j \<notin> set (listLocked ks flt sts since s)" and "k \<in> set (listLocked ks flt sts since s)"
  shows "jUpdatedAt j \<le> jUpdatedAt k"
proof -
  let ?r = "sort_key (\<lambda>j. - jUpdatedAt j)
              (filter (list_keeps flt sts since) (range_vals (ms_jobs s) ks))"
  let ?n = "nat (fLimit flt)"
  have jr: "j \<in> set ?r"
    using assms(2,3) set_range_vals_enum [OF assms(1)] by (auto simp: ran_def)
  with assms(4) have trunc: "listLocked ks flt sts since s = take ?n ?r"
    by (simp add: listLocked_def Let_def split: if_splits)
  have "j \<in> set (drop ?n ?r)"
    using jr assms(4) trunc by (metis Un_iff append_take_drop_id set_append)
  then show ?thesis
    using sorted_wrt_take_le [OF sort_desc_sorted, of k ?n jUpdatedAt _ j] assms(5) trunc by auto
qed

lemma ListActive_no_filter:
  assumes "enumerates (ms_jobs s) ks"
  shows "set (ListActive ks no_filter s) = {j \<in> ran (ms_jobs s). IsActive (jStatus j)}"
  using listLocked_all [OF assms, of no_filter]
  by (auto simp: ListActive_def no_filter_def list_keeps_def IsActive_def IsZero_def)

section \<open>Histories of the store\<close>

text \<open>
  One constructor per mutating method of the \<^verbatim>\<open>JobStore\<close> interface; a history is the list
  of calls in the order in which they took the lock, each with its reading of the clock.
\<close>

datatype store_op =
    OpCreate "Job option"
  | OpUpdate "Job option"
  | OpSetStatus string JobStatus
  | OpSetProgress string float64 string string float64
  | OpHeartbeat string
  | OpSetError string string string
  | OpSetTokens string int int
  | OpSetSnapshotBytes string int
  | OpSetReuseStats string int int int int int
  | OpIncrementAttachedRequests string
  | OpIncrementRetry string
  | OpForceUpdatedAt string time
  | OpAppendLog "JobLogEntry option"

fun apply_op :: "time \<times> store_op \<Rightarrow> MemStore \<Rightarrow> MemStore" where
  "apply_op (now, OpCreate jp) s = snd (Create now jp s)"
| "apply_op (now, OpUpdate jp) s = snd (Update now jp s)"
| "apply_op (now, OpSetStatus i st) s = snd (SetStatus now i st s)"
| "apply_op (now, OpSetProgress i p ph m tps) s = snd (SetProgress now i p ph m tps s)"
| "apply_op (now, OpHeartbeat i) s = snd (Heartbeat now i s)"
| "apply_op (now, OpSetError i c m) s = snd (SetError now i c m s)"
| "apply_op (now, OpSetTokens i a b) s = snd (SetTokens now i a b s)"
| "apply_op (now, OpSetSnapshotBytes i b) s = snd (SetSnapshotBytes now i b s)"
| "apply_op (now, OpSetReuseStats i a b c d e) s = snd (SetReuseStats now i a b c d e s)"
| "apply_op (now, OpIncrementAttachedRequests i) s = snd (IncrementAttachedRequests now i s)"
| "apply_op (now, OpIncrementRetry i) s = snd (IncrementRetry now i s)"
| "apply_op (now, OpForceUpdatedAt i t) s = snd (ForceUpdatedAt i t s)"
| "apply_op (now, OpAppendLog ep) s = snd (AppendLog now ep s)"

definition run_ops :: "(time \<times> store_op) list \<Rightarrow> MemStore \<Rightarrow> MemStore" where
  "run_ops ops s = fold apply_op ops s"

definition job_status :: "MemStore \<Rightarrow> string \<Rightarrow> JobStatus option" where
  "job_status s i = map_option jStatus (ms_jobs s i)"

text \<open>
  The two calls that can take job \<open>i\<close> out of a terminal status: an \<open>Update\<close> that replaces
  the record, and a \<open>SetStatus\<close> to a status that is not terminal.
\<close>

fun reopens :: "string \<Rightarrow> store_op \<Rightarrow> bool" where
  "reopens i (OpUpdate jp) = (case jp of None \<Rightarrow> False | Some j \<Rightarrow> jID j = i)"
| "reopens i (OpSetStatus k st) = (k = i \<and> \<not> IsTerminal st)"
| "reopens i _ = False"

lemma job_status_on_job:
  "job_status (snd (on_job i f s)) k =
     (if k = i then map_option (\<lambda>j. jStatus (f j)) (ms_jobs s i) else job_status s k)"
  by (simp add: job_status_def on_job_jobs option.map_comp comp_def)

lemma apply_op_terminal:
  assumes st: "job_status s i = Some t" and trm: "IsTerminal t" and ok: "\<not> reopens i op"
  shows "job_status (apply_op (now, op) s) i = Some t"
proof -
  from st obtain j where j: "ms_jobs s i = Some j" and t: "jStatus j = t"
    by (auto simp: job_status_def)
  show ?thesis
  proof (cases op)
    case (OpCreate jp)
    show ?thesis
    proof (cases "Create now jp s")
      case (Pair r s')
      then show ?thesis
        using OpCreate st j
        by (cases r) (auto dest: Create_error elim!: Create_ok simp: job_status_def)
    qed
  next
    case (OpUpdate jp)
    then show ?thesis using ok st by (cases jp) (auto simp: Update_def job_status_def)
  qed (use j t trm ok st in
      \<open>auto simp: setter_defs store_simps status_write_status error_write_status
         job_status_def Let_def\<close>)
qed

lemma run_ops_terminal:
  assumes "job_status s i = Some t" and "IsTerminal t"
    and "\<And>now op. (now, op) \<in> set ops \<Longrightarrow> \<not> reopens i op"
  shows "job_status (run_ops ops s) i = Some t"
  using assms
proof (induction ops arbitrary: s)
  case Nil
  then show ?case by (simp add: run_ops_def)
next
  case (Cons x ops)
  obtain now op where x: "x = (now, op)" by (cases x)
  with Cons.prems have "job_status (apply_op x s) i = Some t"
    by (auto intro: apply_op_terminal)
  with Cons.IH [of "apply_op x s"] Cons.prems show ?case by (auto simp: run_ops_def)
qed

text \<open>The guard of \<open>SetStatus\<close> does not cover a write of a status that is not terminal.\<close>

lemma SetStatus_reopens:
  assumes "job_status s i = Some t" and "\<not> IsTerminal st"
  shows "job_status (snd (SetStatus now i st s)) i = Some st"
  using assms by (auto simp: SetStatus_def store_simps status_write_status job_status_def)

section \<open>Well-formed stores\<close>

text \<open>
  What holds of every stored record: it sits under its own id, a terminal record has its
  completion time, a ready record has no error and full progress, progress is clamped; and
  log rows belong to an existing job.
\<close>

definition wf_job :: "Job \<Rightarrow> bool" where
  "wf_job j \<longleftrightarrow> jID j \<noteq> []
     \<and> (IsTerminal (jStatus j) \<longrightarrow> jCompletedAt j \<noteq> None)
     \<and> (jStatus j = StatusReady \<longrightarrow> jProgress j = Fin 1 \<and> jErrorCode j = [] \<and> jErrorMessage j = [])
     \<and> clamp01 (jProgress j) = jProgress j"

definition wf_store :: "MemStore \<Rightarrow> bool" where
  "wf_store s \<longleftrightarrow>
     (\<forall>i j. ms_jobs s i = Some j \<longrightarrow> jID j = i \<and> wf_job j)
   \<and> (\<forall>i ls. ms_logs s i = Some ls \<longrightarrow> ms_jobs s i \<noteq> None \<and> (\<forall>e\<in>set ls. lJobID e = i))"

fun op_wf :: "store_op \<Rightarrow> bool" where
  "op_wf (OpCreate (Some j)) = (jID j \<noteq> [] \<longrightarrow> wf_job j)"
| "op_wf (OpUpdate (Some j)) = (jID j \<noteq> [] \<longrightarrow> wf_job j)"
| "op_wf _ = True"

lemma wf_store_empty: "wf_store NewMemStore"
  by (simp add: wf_store_def NewMemStore_def)

lemma wf_job_status_write [inv_intros]: "wf_job j \<Longrightarrow> wf_job (status_write now st j)"
  by (cases "st = StatusReady") (auto simp: wf_job_def status_write_def Let_def clamp01_def)

lemma wf_job_error_write [inv_intros]: "wf_job j \<Longrightarrow> wf_job (error_write now c m j)"
  by (simp add: wf_job_def error_write_def)

lemma wf_job_progress_write [inv_intros]: "wf_job j \<Longrightarrow> wf_job (progress_write now p ph m t j)"
  by (auto simp: wf_job_def progress_write_def Let_def IsTerminal_def)

lemma wf_store_on_job:
  assumes "wf_store s" and "\<And>j. ms_jobs s i = Some j \<Longrightarrow> wf_job j \<Longrightarrow> wf_job (f j) \<and> jID (f j) = jID j"
  shows "wf_store (snd (on_job i f s))"
  using assms by (auto simp: wf_store_def on_job_def split: option.split)

lemma wf_store_put:
  assumes "wf_store s" and "wf_job j"
  shows "wf_store (s\<lparr>ms_jobs := (ms_jobs s)(jID j \<mapsto> j)\<rparr>)"
  using assms by (auto simp: wf_store_def)

lemma wf_store_AppendLog:
  assumes "wf_store s" shows "wf_store (snd (AppendLog now ep s))"
proof (cases ep)
  case None
  with assms show ?thesis by (simp add: AppendLog_def)
next
  case (Some e)
  have "lJobID (if IsZero (lCreatedAt e) then e\<lparr>lCreatedAt := now\<rparr> else e) = lJobID e" by simp
  with Some assms show ?thesis
    by (cases "ms_logs s (lJobID e)") (auto simp: AppendLog_def wf_store_def Let_def)
qed

lemma wf_store_Heartbeat:
  assumes "wf_store s" shows "wf_store (snd (Heartbeat now i s))"
  using assms by (auto simp: Heartbeat_def wf_store_def wf_job_def split: option.split)

lemma wf_store_Create:
  assumes "wf_store s" and "op_wf (OpCreate jp)"
  shows "wf_store (snd (Create now jp s))"
proof (cases jp)
  case None
  with assms(1) show ?thesis by (simp add: Create_def)
next
  case (Some job)
  have "wf_job (fill_defaults now job)" if "jID job \<noteq> []"
    using assms(2) Some that by (simp add: wf_job_def)
  from wf_store_put [OF assms(1) this] Some assms(1) show ?thesis
    by (simp add: Create_def Let_def)
qed

lemma wf_store_Update:
  assumes "wf_store s" and "op_wf (OpUpdate jp)"
  shows "wf_store (snd (Update now jp s))"
proof (cases jp)
  case None
  with assms(1) show ?thesis by (simp add: Update_def)
next
  case (Some job)
  have "wf_job (job\<lparr>jUpdatedAt := now\<rparr>)" if "jID job \<noteq> []"
    using assms(2) Some that by (simp add: wf_job_def)
  from wf_store_put [OF assms(1) this] Some assms(1) show ?thesis
    by (simp add: Update_def)
qed

lemma wf_store_apply_op:
  assumes "wf_store s" and "op_wf op"
  shows "wf_store (apply_op (now, op) s)"
proof (cases op)
  case (OpCreate jp)
  with assms show ?thesis by (simp add: wf_store_Create)
next
  case (OpUpdate jp)
  with assms show ?thesis by (simp add: wf_store_Update)
qed (use assms in \<open>auto simp: setter_defs Let_def frame_simps wf_job_def
       intro!: wf_store_on_job wf_store_Heartbeat wf_store_AppendLog
       dest: wf_job_status_write wf_job_error_write wf_job_progress_write\<close>)

lemma wf_store_run_ops:
  "wf_store s \<Longrightarrow> (\<And>now op. (now, op) \<in> set ops \<Longrightarrow> op_wf op) \<Longrightarrow> wf_store (run_ops ops s)"
proof (induction ops arbitrary: s)
  case Nil
  then show ?case by (simp add: run_ops_def)
next
  case (Cons x ops)
  obtain now op where x: "x = (now, op)" by (cases x)
  with Cons.prems have "wf_store (apply_op x s)" by (auto intro: wf_store_apply_op)
  with Cons.IH [of "apply_op x s"] Cons.prems show ?case by (auto simp: run_ops_def)
qed

section \<open>Logs\<close>

lemma AppendLog_rows:
  assumes "AppendLog now (Some e) s = (Inr r, s')"
  shows "log_rows s' (lJobID e) = log_rows s (lJobID e) @ [r]"
    and "r = (if IsZero (lCreatedAt e) then e\<lparr>lCreatedAt := now\<rparr> else e)"
    and "k \<noteq> lJobID e \<Longrightarrow> log_rows s' k = log_rows s k"
  using assms by (auto simp: AppendLog_def log_rows_def Let_def split: if_splits)

lemma ListLogs_set:
  assumes "lfLimit flt \<le> 0"
  shows "set (ListLogs i flt s) =
    {r \<in> set (log_rows s i). 0 < lfAfterSequence flt \<longrightarrow> lfAfterSequence flt < lSequence r}"
  using assms by (auto simp: ListLogs_def Let_def)

lemma ListLogs_ordered:
  "sorted_wrt (\<lambda>a b. lSequence a < lSequence b
       \<or> (lSequence a = lSequence b \<and> lCreatedAt a \<le> lCreatedAt b)) (ListLogs i flt s)"
  by (auto simp: ListLogs_def Let_def intro!: sorted_wrt_drop sort_key_lex sort_key_asc)

section \<open>The contract of terminal writes\<close>

text \<open>
  What the orchestrator relies on when several of its paths may try to finish one job: a
  store with two terminal writes, of which the first to reach a job decides its status.
\<close>

datatype terminal_write = Finish string JobStatus | Fail string string string

fun write_target :: "terminal_write \<Rightarrow> string" where
  "write_target (Finish i _) = i"
| "write_target (Fail i _ _) = i"

fun write_status :: "terminal_write \<Rightarrow> JobStatus" where
  "write_status (Finish _ st) = st"
| "write_status (Fail _ _ _) = StatusFailed"

locale terminal_store =
  fixes status :: "'s \<Rightarrow> string \<Rightarrow> JobStatus option"
    and finish :: "time \<Rightarrow> string \<Rightarrow> JobStatus \<Rightarrow> 's \<Rightarrow> 's"
    and fail :: "time \<Rightarrow> string \<Rightarrow> string \<Rightarrow> string \<Rightarrow> 's \<Rightarrow> 's"
  assumes finish_status: "IsTerminal st \<Longrightarrow> status (finish now i st s) k =
      (if k = i then map_option (\<lambda>u. if IsTerminal u then u else st) (status s i) else status s k)"
    and fail_status: "status (fail now i c m s) k =
      (if k = i then map_option (\<lambda>u. if IsTerminal u then u else StatusFailed) (status s i)
       else status s k)"
begin

fun put :: "time \<times> terminal_write \<Rightarrow> 's \<Rightarrow> 's" where
  "put (now, Finish i st) s = finish now i st s"
| "put (now, Fail i c m) s = fail now i c m s"

lemma put_effect:
  assumes "IsTerminal (write_status w)"
  shows "status (put (now, w) s) k =
    (if k = write_target w then map_option (\<lambda>u. if IsTerminal u then u else write_status w) (status s k)
     else status s k)"
  using assms by (cases w; cases "status s k") (auto simp: finish_status fail_status)

lemma writes_keep_terminal:
  assumes "\<forall>x\<in>set ws. IsTerminal (write_status (snd x))"
    and "status s i = Some t" and "IsTerminal t"
  shows "status (fold put ws s) i = Some t"
  using assms
proof (induction ws arbitrary: s)
  case (Cons x ws)
  obtain now w where x: "x = (now, w)" by (cases x)
  with Cons.prems have "status (put x s) i = Some t"
    by (cases "i = write_target w") (auto simp: put_effect)
  with Cons show ?case by simp
qed simp

lemma first_write_wins:
  assumes "\<forall>x\<in>set ws. IsTerminal (write_status (snd x))"
    and "status s i = Some u" and "\<not> IsTerminal u"
  shows "status (fold put ws s) i =
    (case filter (\<lambda>x. write_target (snd x) = i) ws of
       [] \<Rightarrow> Some u | x # _ \<Rightarrow> Some (write_status (snd x)))"
  using assms
proof (induction ws arbitrary: s)
  case (Cons x ws)
  obtain now w where x: "x = (now, w)" by (cases x)
  have eff: "status (put x s) i = (if write_target w = i then Some (write_status w) else Some u)"
    using Cons.prems x by (simp add: put_effect)
  show ?case
  proof (cases "write_target w = i")
    case True
    with eff Cons.prems x have "status (fold put ws (put x s)) i = Some (write_status w)"
      by (intro writes_keep_terminal) auto
    with True x show ?thesis by simp
  next
    case False
    with eff Cons.IH [of "put x s"] Cons.prems x show ?thesis by simp
  qed
qed simp

end

interpretation mem: terminal_store job_status
  "\<lambda>now i st s. snd (SetStatus now i st s)" "\<lambda>now i c m s. snd (SetError now i c m s)"
  by unfold_locales
    (auto simp: job_status_def SetStatus_def SetError_def store_simps option.map_comp comp_def
      status_write_status error_write_status intro!: option.map_cong)

section \<open>Properties\<close>

text \<open>
  the terminal-status guard of the store. Whatever calls reach the store afterwards, in
  whatever order, a job that is ready, failed or cancelled keeps exactly that status, unless
  one of the calls replaces the record (\<open>Update\<close>) or writes a status that is not terminal.
\<close>

theorem terminal_status_is_final:
  assumes "job_status s i = Some t" and "IsTerminal t"
    and "\<forall>(now, op)\<in>set ops. \<not> reopens i op"
  shows "job_status (run_ops ops s) i = Some t"
  using assms by (intro run_ops_terminal) auto

definition demo_job :: Job where
  "demo_job = zero_Job\<lparr>jID := ''a'', jTargetKey := ''k'', jStatus := StatusPending,
     jPriority := PriorityInteractive, jCreatedAt := 1, jUpdatedAt := 1\<rparr>"

definition demo_store :: MemStore where
  "demo_store = NewMemStore\<lparr>ms_jobs := [''a'' \<mapsto> demo_job]\<rparr>"

lemma demo_job_sel [simp]:
  "jID demo_job = ''a''" "jTargetKey demo_job = ''k''" "jStatus demo_job = StatusPending"
  "jUpdatedAt demo_job = 1" "jCreatedAt demo_job = 1" "jCompletedAt demo_job = None"
  "jProgress demo_job = Fin 0" "jSubsystem demo_job = no_subsystem" "jJobType demo_job = []"
  "jAttachedRequests demo_job = 0" "jRepoID demo_job = []" "jArtifactID demo_job = []"
  "jPriority demo_job = PriorityInteractive" "jProgressPhase demo_job = []"
  "jProcessID demo_job = []" "jStartedAt demo_job = None"
  by (simp_all add: demo_job_def zero_Job_def)

lemma demo_store_sel [simp]:
  "ms_jobs demo_store = [''a'' \<mapsto> demo_job]" "ms_logs demo_store = Map.empty"
  by (simp_all add: demo_store_def NewMemStore_def)

lemma demo_enum [simp]: "enumerates [''a'' \<mapsto> demo_job] [''a'']"
  by (simp add: enumerates_def)

theorem terminal_status_is_final_witness:
  "job_status (run_ops [(9, OpSetProgress ''a'' (Fin 0) [] [] (Fin 0)),
       (10, OpSetStatus ''a'' StatusFailed), (11, OpHeartbeat ''a'')]
     (snd (SetStatus 5 ''a'' StatusReady demo_store))) ''a'' = Some StatusReady"
  by (rule terminal_status_is_final)
    (simp_all add: job_status_def SetStatus_def store_simps status_write_status)

text \<open>
  the first terminal write decides. From a state in which the job is still active, any
  interleaving of terminal writes (\<open>SetStatus\<close> with a terminal status, \<open>SetError\<close>) of any
  number of writers leaves the job with the status of the first write addressed to it.
\<close>

theorem first_terminal_write_wins:
  assumes "\<forall>x\<in>set ws. IsTerminal (write_status (snd x))"
    and "job_status s i = Some u" and "\<not> IsTerminal u"
  shows "job_status (fold (\<lambda>(now, w) s. case w of
             Finish k st \<Rightarrow> snd (SetStatus now k st s)
           | Fail k c m \<Rightarrow> snd (SetError now k c m s)) ws s) i =
    (case filter (\<lambda>x. write_target (snd x) = i) ws of
       [] \<Rightarrow> Some u | x # _ \<Rightarrow> Some (write_status (snd x)))"
proof -
  have "(\<lambda>(now, w) s. case w of Finish k st \<Rightarrow> snd (SetStatus now k st s)
           | Fail k c m \<Rightarrow> snd (SetError now k c m s)) = mem.put"
    by (auto simp: fun_eq_iff split: terminal_write.split)
  with mem.first_write_wins [OF assms] show ?thesis by simp
qed

theorem first_terminal_write_wins_witness:
  "job_status (fold (\<lambda>(now, w) s. case w of
             Finish k st \<Rightarrow> snd (SetStatus now k st s)
           | Fail k c m \<Rightarrow> snd (SetError now k c m s))
       [(7, Finish ''a'' StatusReady), (8, Fail ''a'' ''DEADLINE_EXCEEDED'' [])] demo_store) ''a''
   = Some StatusReady"
  using first_terminal_write_wins [of "[(7, Finish ''a'' StatusReady), (8, Fail ''a'' ''DEADLINE_EXCEEDED'' [])]"
      demo_store "''a''" StatusPending]
  by (simp add: job_status_def)

text \<open>
  every history of calls on an empty store leaves it well formed: records under their own
  non-empty id, terminal records with a completion time, ready records with full progress and
  no error, progress clamped to \<open>[0, 1]\<close> (or NaN), log rows only of existing jobs.
\<close>

theorem store_stays_well_formed:
  assumes "\<forall>(now, op)\<in>set ops. op_wf op"
  shows "wf_store (run_ops ops NewMemStore)"
  using assms by (intro wf_store_run_ops wf_store_empty) auto

theorem store_stays_well_formed_witness:
  "wf_store (run_ops [(1, OpCreate (Some demo_job)), (2, OpSetStatus ''a'' StatusReady),
      (3, OpSetError ''a'' ''X'' [])] NewMemStore)"
  by (rule store_stays_well_formed) (simp add: wf_job_def clamp01_def)

text \<open>
  the store's dedupe lookup. In whatever order the map is ranged over, it returns nil only
  when no active job has the key, and otherwise an active job with that key, and one that was
  updated last among them.
\<close>

theorem active_lookup_correct:
  assumes "enumerates (ms_jobs s) ks"
  shows "case GetActiveByTargetKey ks key s of
      None \<Rightarrow> \<not> (\<exists>i k. ms_jobs s i = Some k \<and> jTargetKey k = key \<and> IsActive (jStatus k))
    | Some j \<Rightarrow> (\<exists>i. ms_jobs s i = Some j) \<and> jTargetKey j = key \<and> IsActive (jStatus j) \<and>
        \<not> (\<exists>i k. ms_jobs s i = Some k \<and> jTargetKey k = key \<and> IsActive (jStatus k) \<and>
             After (jUpdatedAt k) (jUpdatedAt j))"
proof (cases "GetActiveByTargetKey ks key s")
  case None
  with GetActiveByTargetKey_None [OF assms, of key] show ?thesis by auto
next
  case (Some j)
  note found = GetActiveByTargetKey_Some [OF assms Some]
  have "\<not> After (jUpdatedAt k) (jUpdatedAt j)"
    if "ms_jobs s i = Some k" "jTargetKey k = key" "IsActive (jStatus k)" for i k
    using found(4) [OF that] by (simp add: After_def)
  with found(1-3) Some show ?thesis by auto
qed

theorem active_lookup_correct_witness:
  "GetActiveByTargetKey [''a''] ''k'' demo_store \<noteq> None"
  using active_lookup_correct [of demo_store "[''a'']" "''k''"]
  by (cases "GetActiveByTargetKey [''a''] ''k'' demo_store") (auto dest!: spec [of _ "''a''"] spec [of _ demo_job])

text \<open>
  listing. The result is newest first and holds only stored jobs that match the filter and
  the statuses; a matching job is left out only when the limit cut the list, and then every
  listed job is at least as recent as the one left out.
\<close>

theorem listing_correct:
  assumes "enumerates (ms_jobs s) ks"
  shows "sorted_wrt (\<lambda>a b. jUpdatedAt b \<le> jUpdatedAt a) (listLocked ks flt sts since s)
    \<and> (\<forall>j\<in>set (listLocked ks flt sts since s). list_keeps flt sts since j \<and> j \<in> ran (ms_jobs s))
    \<and> (\<forall>i j. ms_jobs s i = Some j \<longrightarrow> list_keeps flt sts since j \<longrightarrow>
          j \<in> set (listLocked ks flt sts since s) \<or>
          0 < fLimit flt \<and> (\<forall>k\<in>set (listLocked ks flt sts since s). jUpdatedAt j \<le> jUpdatedAt k))"
proof (intro conjI allI impI ballI)
  show "sorted_wrt (\<lambda>a b. jUpdatedAt b \<le> jUpdatedAt a) (listLocked ks flt sts since s)"
    by (rule listLocked_sorted)
next
  fix j
  assume "j \<in> set (listLocked ks flt sts since s)"
  from listLocked_sound [OF this] show "list_keeps flt sts since j" "j \<in> ran (ms_jobs s)"
    by (auto simp: ran_def)
next
  fix i j
  assume j: "ms_jobs s i = Some j" "list_keeps flt sts since j"
  then have "fLimit flt \<le> 0 \<Longrightarrow> j \<in> set (listLocked ks flt sts since s)"
    using listLocked_all [OF assms, of flt sts since] by (auto simp: ran_def)
  with listLocked_most_recent [OF assms j]
  show "j \<in> set (listLocked ks flt sts since s) \<or>
      0 < fLimit flt \<and> (\<forall>k\<in>set (listLocked ks flt sts since s). jUpdatedAt j \<le> jUpdatedAt k)"
    by (meson not_less)
qed

theorem listing_correct_witness:
  "demo_job \<in> set (listLocked [''a''] no_filter [StatusPending] zero_time demo_store)"
  using listing_correct [of demo_store "[''a'']" no_filter "[StatusPending]" zero_time]
  by (auto simp: list_keeps_def no_filter_def IsZero_def)

text \<open>
  Log lines come back. A line accepted by \<open>AppendLog\<close> is returned by every later listing
  of its job that does not skip its sequence number and is not limited, the lines listed
  before are still listed, and a listing is in order of sequence, then of time.
\<close>

theorem append_then_list_logs:
  assumes "AppendLog now (Some e) s = (Inr r, s')" and "lfLimit flt \<le> 0"
    and "lfAfterSequence flt \<le> 0 \<or> lfAfterSequence flt < lSequence e"
  shows "set (ListLogs (lJobID e) flt s') = insert r (set (ListLogs (lJobID e) flt s))
    \<and> sorted_wrt (\<lambda>a b. lSequence a < lSequence b
         \<or> (lSequence a = lSequence b \<and> lCreatedAt a \<le> lCreatedAt b)) (ListLogs (lJobID e) flt s')"
proof -
  have seq: "lSequence r = lSequence e"
    using AppendLog_rows(2) [OF assms(1)] by simp
  have "0 < lfAfterSequence flt \<longrightarrow> lfAfterSequence flt < lSequence r"
    using assms(3) seq by auto
  then show ?thesis
    using AppendLog_rows(1) [OF assms(1)] ListLogs_ordered
    by (auto simp: ListLogs_set [OF assms(2)])
qed

definition demo_log :: JobLogEntry where
  "demo_log = \<lparr>lID = [], lJobID = ''a'', lRepoID = [], lArtifactID = [], lSubsystem = no_subsystem,
     lJobType = [], lLLMProvider = [], lLevel = LogLevelInfo, lPhase = [], lEvent = ''e'',
     lMessage = [], lPayload = [], lSequence = 7, lCreatedAt = 3\<rparr>"

theorem append_then_list_logs_witness:
  "demo_log \<in> set (ListLogs ''a'' \<lparr>lfLimit = 0, lfAfterSequence = 0\<rparr>
     (snd (AppendLog 5 (Some demo_log) demo_store)))"
proof -
  have "AppendLog 5 (Some demo_log) demo_store =
      (Inr demo_log, snd (AppendLog 5 (Some demo_log) demo_store))"
    by (simp add: AppendLog_def demo_log_def IsZero_def zero_time_def Let_def)
  from append_then_list_logs [OF this, of "\<lparr>lfLimit = 0, lfAfterSequence = 0\<rparr>"]
  show ?thesis by (simp add: demo_log_def)
qed

end
