(* ===== verification/LLM_Retry.thy ===== *)
theory LLM_Retry
  imports LLM_Job
begin

text \<open>
  Error classification (\<^verbatim>\<open>internal/llm/errors.go\<close>, \<^verbatim>\<open>ClassifyError\<close> of
  \<^verbatim>\<open>internal/llm/orchestrator/runtime.go\<close>) and the retry policy
  (\<^verbatim>\<open>internal/llm/orchestrator/retry.go\<close>). An error is seen through its text and its gRPC
  status (\<open>go_error\<close>). The back-off multiplies floats: the rounding of a product is the
  parameter \<open>rnd\<close>, the conversion of a float to an int64 that Go leaves to the
  implementation when it does not fit is the parameter \<open>conv\<close>.
\<close>

section \<open>Classification\<close>

datatype ErrorClass = ErrUnknown | ErrTransient | ErrComputeError | ErrTimeout | ErrUnavailable
  | ErrTerminal

definition classify_code :: "grpc_code option \<Rightarrow> ErrorClass option" where
  "classify_code c = (case c of None \<Rightarrow> None
     | Some st \<Rightarrow>
        if st = DeadlineExceeded then Some ErrTimeout
        else if st = Unavailable then Some ErrUnavailable
        else if st = ResourceExhausted \<or> st = Aborted then Some ErrTransient
        else if st \<in> {InvalidArgument, NotFound, PermissionDenied, Unauthenticated,
                       AlreadyExists, FailedPrecondition} then Some ErrTerminal
        else None)"

definition classify_text :: "string \<Rightarrow> ErrorClass" where
  "classify_text msg =
     (if Contains msg ''snapshot too large'' \<or> Contains msg ''exceeds budget'' then ErrTerminal
      else if Contains msg ''orchestrator is shutting down'' then ErrTerminal
      else if Contains msg ''llm returned empty content'' \<or> Contains msg ''empty content''
      then ErrTransient
      else if Contains msg ''compute error'' \<or> Contains msg ''server_error'' then ErrComputeError
      else if Contains msg ''deadline exceeded'' \<or> Contains msg ''context deadline'' then ErrTimeout
      else if Contains msg ''connection refused'' \<or> Contains msg ''transport is closing''
            \<or> Contains msg ''unavailable'' then ErrUnavailable
      else ErrUnknown)"

definition ClassifyLLMError :: "go_error option \<Rightarrow> ErrorClass" where
  "ClassifyLLMError ep = (case ep of None \<Rightarrow> ErrUnknown
     | Some e \<Rightarrow> (case classify_code (err_grpc e) of Some c \<Rightarrow> c
                  | None \<Rightarrow> classify_text (ToLower (err_text e))))"

definition ClassifyError :: "go_error option \<Rightarrow> string" where
  "ClassifyError ep = (case ep of None \<Rightarrow> []
     | Some e \<Rightarrow>
        if err_grpc e = Some InvalidArgument then ''INVALID_ARGUMENT''
        else if err_grpc e = Some NotFound then ''NOT_FOUND''
        else if err_grpc e = Some PermissionDenied \<or> err_grpc e = Some Unauthenticated
        then ''UNAUTHORIZED''
        else if Contains (ToLower (err_text e)) ''orchestrator is shutting down''
        then ''ORCHESTRATOR_SHUTDOWN''
        else (case ClassifyLLMError (Some e) of
                ErrTimeout \<Rightarrow> ''DEADLINE_EXCEEDED''
              | ErrUnavailable \<Rightarrow> ''WORKER_UNAVAILABLE''
              | ErrComputeError \<Rightarrow> ''PROVIDER_COMPUTE''
              | ErrTransient \<Rightarrow> ''LLM_EMPTY''
              | ErrTerminal \<Rightarrow> ''SNAPSHOT_TOO_LARGE''
              | ErrUnknown \<Rightarrow> ''INTERNAL''))"

section \<open>The retry policy\<close>

record RetryPolicy =
  rpMaxAttempts :: int
  rpInitialBackoff :: duration
  rpMaxBackoff :: duration
  rpMultiplier :: float64

definition DefaultRetryPolicy :: RetryPolicy where
  "DefaultRetryPolicy = \<lparr>rpMaxAttempts = 2, rpInitialBackoff = 5 * Second,
     rpMaxBackoff = 30 * Second, rpMultiplier = Fin 2\<rparr>"

definition inf_of_sign :: "rat \<Rightarrow> float64" where
  "inf_of_sign q = (if q = 0 then NaN else if 0 < q then PosInf else NegInf)"

fun float_sign :: "float64 \<Rightarrow> rat" where
  "float_sign PosInf = 1"
| "float_sign NegInf = -1"
| "float_sign (Fin q) = sgn q"
| "float_sign NaN = 0"

fun float_mul :: "(rat \<Rightarrow> float64) \<Rightarrow> float64 \<Rightarrow> float64 \<Rightarrow> float64" where
  "float_mul rnd NaN y = NaN"
| "float_mul rnd x NaN = NaN"
| "float_mul rnd (Fin x) (Fin y) = rnd (x * y)"
| "float_mul rnd x y = inf_of_sign (float_sign x * float_sign y)"

definition BackoffFor ::
  "(rat \<Rightarrow> float64) \<Rightarrow> (float64 \<Rightarrow> duration) \<Rightarrow> RetryPolicy \<Rightarrow> int \<Rightarrow> duration" where
  "BackoffFor rnd conv p attempt =
     (if attempt \<le> 1 then 0
      else
        (let multiplier = (if float_less (rpMultiplier p) (Fin 0) \<or> rpMultiplier p = Fin 0
                           then Fin 2 else rpMultiplier p);
             backoff = ((\<lambda>b. float_mul rnd b multiplier) ^^ nat (attempt - 2))
                         (rnd (of_int (rpInitialBackoff p)))
         in if 0 < rpMaxBackoff p \<and> rpMaxBackoff p < conv backoff then rpMaxBackoff p
            else conv backoff))"

definition IsRetryable :: "go_error option \<Rightarrow> bool" where
  "IsRetryable ep = (case ep of None \<Rightarrow> False | Some e \<Rightarrow> ClassifyLLMError (Some e) \<noteq> ErrTerminal)"

definition ShouldRetryWithMax :: "int \<Rightarrow> int \<Rightarrow> go_error option \<Rightarrow> bool" where
  "ShouldRetryWithMax attempt maxAttempts ep =
     (if ep = None then False
      else if maxAttempts \<le> attempt then False
      else IsRetryable ep)"

definition ShouldRetry :: "RetryPolicy \<Rightarrow> int \<Rightarrow> go_error option \<Rightarrow> bool" where
  "ShouldRetry p attempt ep = ShouldRetryWithMax attempt (rpMaxAttempts p) ep"

lemma ShouldRetryWithMax_bound: "ShouldRetryWithMax a m e \<Longrightarrow> a < m"
  by (simp add: ShouldRetryWithMax_def split: if_splits)

lemma ShouldRetryWithMax_error: "ShouldRetryWithMax a m e \<Longrightarrow> IsRetryable e \<and> e \<noteq> None"
  by (simp add: ShouldRetryWithMax_def split: if_splits)

lemma classify_code_terminal:
  "classify_code c = Some ErrTerminal \<longleftrightarrow>
     c \<in> Some ` {InvalidArgument, NotFound, PermissionDenied, Unauthenticated,
                 AlreadyExists, FailedPrecondition}"
  by (cases c) (auto simp: classify_code_def)

section \<open>Properties\<close>

text \<open>
  the code persisted for a failed job agrees with the retry decision: an error that is
  not retried is stored under one of the five terminal codes, and an error stored under
  \<open>INVALID_ARGUMENT\<close>, \<open>NOT_FOUND\<close>, \<open>UNAUTHORIZED\<close> or \<open>SNAPSHOT_TOO_LARGE\<close> is never retried,
  whatever attempts remain.
\<close>

theorem error_code_agrees_with_retry:
  "(\<not> IsRetryable (Some e) \<longrightarrow> ClassifyError (Some e) \<in>
      {''INVALID_ARGUMENT'', ''NOT_FOUND'', ''UNAUTHORIZED'', ''SNAPSHOT_TOO_LARGE'',
       ''ORCHESTRATOR_SHUTDOWN''})
   \<and> (ClassifyError (Some e) \<in>
      {''INVALID_ARGUMENT'', ''NOT_FOUND'', ''UNAUTHORIZED'', ''SNAPSHOT_TOO_LARGE''}
      \<longrightarrow> \<not> ShouldRetryWithMax attempt maxAttempts (Some e))"
proof (cases "ClassifyLLMError (Some e)")
  case ErrTerminal
  then show ?thesis
    by (simp add: ClassifyError_def IsRetryable_def ShouldRetryWithMax_def)
qed (auto simp: ClassifyError_def IsRetryable_def ShouldRetryWithMax_def ClassifyLLMError_def
      classify_code_def)

theorem error_code_agrees_with_retry_witness:
  "\<not> ShouldRetryWithMax 1 5 (Some (Errorf ''Snapshot too large: 9 MB''))"
proof -
  have "ClassifyError (Some (Errorf ''Snapshot too large: 9 MB'')) = ''SNAPSHOT_TOO_LARGE''"
    by code_simp
  with error_code_agrees_with_retry [of "Errorf ''Snapshot too large: 9 MB''" 1 5]
  show ?thesis by simp
qed

text \<open>
  back-off bounds. Before the first attempt there is no wait; before any later one the
  wait never exceeds the configured cap, whatever the multiplier, the rounding and the
  conversion; and the default policy with exact products waits \<open>5 * 2 ^ (n - 2)\<close> seconds
  before attempt \<open>n\<close>, capped at 30 seconds.
\<close>

theorem backoff_bounded:
  "(attempt \<le> 1 \<longrightarrow> BackoffFor rnd conv p attempt = 0)
   \<and> (0 < rpMaxBackoff p \<longrightarrow> BackoffFor rnd conv p attempt \<le> rpMaxBackoff p)
   \<and> (2 \<le> attempt \<longrightarrow> BackoffFor Fin (\<lambda>x. case x of Fin q \<Rightarrow> floor q | _ \<Rightarrow> 0) DefaultRetryPolicy attempt
        = min (30 * Second) (5 * Second * 2 ^ nat (attempt - 2)))"
proof (intro conjI impI)
  show "BackoffFor rnd conv p attempt = 0" if "attempt \<le> 1"
    using that by (simp add: BackoffFor_def)
  show "BackoffFor rnd conv p attempt \<le> rpMaxBackoff p" if "0 < rpMaxBackoff p"
    using that by (auto simp: BackoffFor_def Let_def)
  assume n: "2 \<le> attempt"
  have pow: "((\<lambda>b. float_mul Fin b (Fin 2)) ^^ k) (Fin q) = Fin (q * 2 ^ k)" for k q
    by (induction k) simp_all
  have floor: "floor (of_int (5 * Second) * 2 ^ k :: rat) = 5 * Second * 2 ^ k" for k
  proof -
    have "(of_int (5 * Second) * 2 ^ k :: rat) = of_int (5 * Second * 2 ^ k)" by simp
    then show ?thesis by (simp only: floor_of_int)
  qed
  show "BackoffFor Fin (\<lambda>x. case x of Fin q \<Rightarrow> floor q | _ \<Rightarrow> 0) DefaultRetryPolicy attempt
      = min (30 * Second) (5 * Second * 2 ^ nat (attempt - 2))"
    using n by (simp add: BackoffFor_def DefaultRetryPolicy_def Let_def pow floor del: of_int_mult)
      (simp add: duration_units)
qed

theorem backoff_bounded_witness:
  "BackoffFor Fin (\<lambda>x. case x of Fin q \<Rightarrow> floor q | _ \<Rightarrow> 0) DefaultRetryPolicy 4 = 20 * Second"
  using backoff_bounded [of 4 Fin "\<lambda>x. case x of Fin q \<Rightarrow> floor q | _ \<Rightarrow> 0" DefaultRetryPolicy]
  by (simp add: duration_units)

text \<open>
  What the text of an unclassified conflict error becomes. Every error with the gRPC code
  AlreadyExists or FailedPrecondition is persisted as \<open>SNAPSHOT_TOO_LARGE\<close> (unless its text
  announces the shutdown), although no snapshot is involved.
\<close>

theorem conflict_reported_as_snapshot_too_large:
  assumes "err_grpc e = Some AlreadyExists \<or> err_grpc e = Some FailedPrecondition"
    and "\<not> Contains (ToLower (err_text e)) ''orchestrator is shutting down''"
  shows "ClassifyError (Some e) = ''SNAPSHOT_TOO_LARGE''"
  using assms by (auto simp: ClassifyError_def ClassifyLLMError_def classify_code_def)

theorem conflict_reported_as_snapshot_too_large_witness:
  "ClassifyError (Some ((Errorf ''row exists'')\<lparr>err_grpc := Some AlreadyExists\<rparr>))
   = ''SNAPSHOT_TOO_LARGE''"
  by (rule conflict_reported_as_snapshot_too_large) (simp, code_simp)

end
