(* ===== verification/LLM_Queue.thy ===== *)
theory LLM_Queue
  imports LLM_Job
begin

text \<open>
  The helpers of the orchestrator that keep their own state: the in-flight registry
  (\<^verbatim>\<open>dedupe.go\<close>), the per-subsystem breaker (\<^verbatim>\<open>breaker.go\<close>) and the sample buffers of the
  metrics (\<^verbatim>\<open>metrics.go\<close>), all under \<^verbatim>\<open>internal/llm/orchestrator\<close>. Each has a mutex, so a
  method is a function of its state. The contract of a table of exclusive claims is the
  locale \<open>claim_table\<close>; the registry provides it here, the finalization claims of the
  orchestrator provide it in their own theory.
\<close>

section \<open>Exclusive claims\<close>

locale claim_table =
  fixes holder :: "'s \<Rightarrow> 'k \<Rightarrow> 'v option"
    and claims :: "'k \<Rightarrow> 'v \<Rightarrow> 's \<Rightarrow> bool \<times> 's"
    and release :: "'k \<Rightarrow> 's \<Rightarrow> 's"
    and valid :: "'k \<Rightarrow> 'v \<Rightarrow> bool"
  assumes claim_wins: "valid k v \<Longrightarrow> fst (claims k v s) \<longleftrightarrow> holder s k = None"
    and claim_holder: "valid k v \<Longrightarrow>
      holder (snd (claims k v s)) k' = (if k' = k \<and> holder s k = None then Some v else holder s k')"
    and release_holder: "valid k v \<Longrightarrow>
      holder (release k s) k' = (if k' = k then None else holder s k')"
begin

lemma claim_held: "valid k v \<Longrightarrow> holder (snd (claims k v s)) k \<noteq> None"
  by (simp add: claim_holder)

lemma second_claim_loses: "valid k v \<Longrightarrow> valid k w \<Longrightarrow> \<not> fst (claims k w (snd (claims k v s)))"
  by (simp add: claim_wins claim_holder)

lemma claim_after_release: "valid k v \<Longrightarrow> fst (claims k v (release k s))"
  by (simp add: claim_wins release_holder)

text \<open>A race: claims for one key in the order in which they take the lock.\<close>

fun race :: "'k \<Rightarrow> 'v list \<Rightarrow> 's \<Rightarrow> bool list \<times> 's" where
  "race k [] s = ([], s)"
| "race k (v # vs) s =
     (let (won, s1) = claims k v s; (rest, s2) = race k vs s1 in (won # rest, s2))"

lemma race_held:
  "\<forall>v\<in>set vs. valid k v \<Longrightarrow> holder s k = Some h \<Longrightarrow>
   fst (race k vs s) = replicate (length vs) False \<and> holder (snd (race k vs s)) k = Some h"
proof (induction vs arbitrary: s)
  case (Cons v vs)
  obtain won s1 where c: "claims k v s = (won, s1)" by (cases "claims k v s")
  with Cons.prems have "\<not> won" "holder s1 k = Some h"
    using claim_wins [of k v s] claim_holder [of k v s k] by auto
  with Cons.IH [of s1] Cons.prems c show ?case
    by (cases "race k vs s1") simp
qed simp

lemma race_first_wins:
  assumes "\<forall>v\<in>set (v # vs). valid k v" and "holder s k = None"
  shows "fst (race k (v # vs) s) = True # replicate (length vs) False"
    and "holder (snd (race k (v # vs) s)) k = Some v"
proof -
  obtain won s1 where c: "claims k v s = (won, s1)" by (cases "claims k v s")
  with assms have won: "won" "holder s1 k = Some v"
    using claim_wins [of k v s] claim_holder [of k v s k] by auto
  from race_held [OF _ won(2), of vs] assms(1)
  have "fst (race k vs s1) = replicate (length vs) False" "holder (snd (race k vs s1)) k = Some v"
    by auto
  with c won show "fst (race k (v # vs) s) = True # replicate (length vs) False"
    "holder (snd (race k (v # vs) s)) k = Some v"
    by (auto simp: case_prod_beta)
qed

end

section \<open>The in-flight registry\<close>

type_synonym inflightRegistry = "string \<rightharpoonup> string"

definition newInflightRegistry :: inflightRegistry where
  "newInflightRegistry = Map.empty"

definition registry_claim ::
  "string \<Rightarrow> string \<Rightarrow> inflightRegistry \<Rightarrow> (string \<times> bool) \<times> inflightRegistry" where
  "registry_claim targetKey jobID r = (case r targetKey of
       Some existing \<Rightarrow> if existing \<noteq> [] then ((existing, False), r)
                        else ((jobID, True), r(targetKey \<mapsto> jobID))
     | None \<Rightarrow> ((jobID, True), r(targetKey \<mapsto> jobID)))"

definition registry_release :: "string \<Rightarrow> inflightRegistry \<Rightarrow> inflightRegistry" where
  "registry_release targetKey r = (if targetKey = [] then r else r(targetKey := None))"

definition registry_size :: "inflightRegistry \<Rightarrow> nat" where
  "registry_size r = card (dom r)"

definition registry_peek :: "string \<Rightarrow> inflightRegistry \<Rightarrow> string \<times> bool" where
  "registry_peek targetKey r = (case r targetKey of None \<Rightarrow> ([], False)
     | Some i \<Rightarrow> if i = [] then ([], False) else (i, True))"

definition registry_holder :: "inflightRegistry \<Rightarrow> string \<Rightarrow> string option" where
  "registry_holder r k = (case registry_peek k r of (i, b) \<Rightarrow> if b then Some i else None)"

lemma registry_holder_eq:
  "registry_holder r k = (case r k of None \<Rightarrow> None | Some i \<Rightarrow> if i = [] then None else Some i)"
  by (simp add: registry_holder_def registry_peek_def split: option.split)

definition registry_claims :: "string \<Rightarrow> string \<Rightarrow> inflightRegistry \<Rightarrow> bool \<times> inflightRegistry" where
  "registry_claims k v r = (case registry_claim k v r of ((_, won), r') \<Rightarrow> (won, r'))"

interpretation inflight: claim_table registry_holder registry_claims registry_release
  "\<lambda>k v. k \<noteq> [] \<and> v \<noteq> []"
  by unfold_locales
    (auto simp: registry_holder_eq registry_claims_def registry_claim_def registry_release_def
      split: option.splits)

lemma registry_claim_winner:
  "fst (fst (registry_claim k v r)) =
     (if snd (fst (registry_claim k v r)) then v else the (registry_holder r k))"
  by (auto simp: registry_claim_def registry_holder_eq split: option.split)

lemma registry_release_None [simp]: "k \<noteq> [] \<Longrightarrow> registry_release k r k = None"
  by (simp add: registry_release_def)

lemma registry_release_other [simp]: "k' \<noteq> k \<Longrightarrow> registry_release k r k' = r k'"
  by (simp add: registry_release_def)

section \<open>The subsystem breaker\<close>

record breakerState =
  bsFailures :: int
  bsOpenUntil :: time

record subsystemBreaker =
  brThreshold :: int
  brCooldown :: duration
  brStates :: "Subsystem \<rightharpoonup> breakerState"

definition newSubsystemBreaker :: "int \<Rightarrow> duration \<Rightarrow> subsystemBreaker" where
  "newSubsystemBreaker threshold cooldown =
     (if threshold \<le> 0 \<or> cooldown \<le> 0
      then \<lparr>brThreshold = 0, brCooldown = 0, brStates = Map.empty\<rparr>
      else \<lparr>brThreshold = threshold, brCooldown = cooldown, brStates = Map.empty\<rparr>)"

definition waitDuration ::
  "time \<Rightarrow> Subsystem \<Rightarrow> subsystemBreaker \<Rightarrow> duration \<times> subsystemBreaker" where
  "waitDuration now sub b =
     (if brThreshold b \<le> 0 \<or> brCooldown b \<le> 0 \<or> sub = no_subsystem then (0, b)
      else (case brStates b sub of None \<Rightarrow> (0, b)
        | Some st \<Rightarrow>
           if IsZero (bsOpenUntil st) then (0, b)
           else if \<not> After (bsOpenUntil st) now
           then (0, b\<lparr>brStates := (brStates b)(sub \<mapsto> st\<lparr>bsOpenUntil := zero_time\<rparr>)\<rparr>)
           else (time_Sub (bsOpenUntil st) now, b)))"

definition recordSuccess :: "Subsystem \<Rightarrow> subsystemBreaker \<Rightarrow> subsystemBreaker" where
  "recordSuccess sub b =
     (if sub = no_subsystem then b
      else (case brStates b sub of None \<Rightarrow> b
        | Some st \<Rightarrow> b\<lparr>brStates := (brStates b)
            (sub \<mapsto> st\<lparr>bsFailures := 0, bsOpenUntil := zero_time\<rparr>)\<rparr>))"

definition recordFailure :: "time \<Rightarrow> Subsystem \<Rightarrow> string \<Rightarrow> subsystemBreaker \<Rightarrow> subsystemBreaker" where
  "recordFailure now sub code b =
     (if brThreshold b \<le> 0 \<or> brCooldown b \<le> 0 \<or> sub = no_subsystem then b
      else if code \<noteq> ''PROVIDER_COMPUTE'' then b
      else
        (let st = (case brStates b sub of None \<Rightarrow> \<lparr>bsFailures = 0, bsOpenUntil = zero_time\<rparr>
                    | Some st \<Rightarrow> st);
             st1 = st\<lparr>bsFailures := bsFailures st + 1\<rparr>;
             st2 = (if brThreshold b \<le> bsFailures st1
                    then st1\<lparr>bsOpenUntil := now + brCooldown b\<rparr> else st1)
         in b\<lparr>brStates := (brStates b)(sub \<mapsto> st2)\<rparr>))"

text \<open>
  The calls of one breaker in the order in which they take its lock, and what the breaker is
  meant to remember of them: the number of compute failures of a subsystem since its last
  success.
\<close>

datatype breaker_event = BSuccess Subsystem | BFailure time Subsystem string | BWait time Subsystem

fun breaker_step :: "breaker_event \<Rightarrow> subsystemBreaker \<Rightarrow> subsystemBreaker" where
  "breaker_step (BSuccess sub) b = recordSuccess sub b"
| "breaker_step (BFailure now sub code) b = recordFailure now sub code b"
| "breaker_step (BWait now sub) b = snd (waitDuration now sub b)"

fun failures_since_success :: "Subsystem \<Rightarrow> breaker_event list \<Rightarrow> int \<Rightarrow> int" where
  "failures_since_success sub [] n = n"
| "failures_since_success sub (BSuccess s # es) n =
     failures_since_success sub es (if s = sub then 0 else n)"
| "failures_since_success sub (BFailure t s code # es) n =
     failures_since_success sub es (if s = sub \<and> code = ''PROVIDER_COMPUTE'' then n + 1 else n)"
| "failures_since_success sub (BWait t s # es) n = failures_since_success sub es n"

definition breaker_count :: "subsystemBreaker \<Rightarrow> Subsystem \<Rightarrow> int" where
  "breaker_count b sub = (case brStates b sub of None \<Rightarrow> 0 | Some st \<Rightarrow> bsFailures st)"

lemma breaker_step_config [simp]:
  "brThreshold (breaker_step e b) = brThreshold b" "brCooldown (breaker_step e b) = brCooldown b"
  by (cases e; simp add: recordSuccess_def recordFailure_def waitDuration_def Let_def split: option.split)+

lemma breaker_count_step:
  assumes "0 < brThreshold b" and "0 < brCooldown b" and "sub \<noteq> no_subsystem"
  shows "breaker_count (breaker_step e b) sub = failures_since_success sub [e] (breaker_count b sub)"
proof (cases e)
  case (BSuccess s)
  then show ?thesis
    using assms by (auto simp: breaker_count_def recordSuccess_def split: option.split)
next
  case (BFailure t s code)
  then show ?thesis
    using assms by (auto simp: breaker_count_def recordFailure_def Let_def split: option.split)
next
  case (BWait t s)
  then show ?thesis
    using assms by (auto simp: breaker_count_def waitDuration_def split: option.split)
qed

lemma failures_since_success_Cons:
  "failures_since_success sub (e # es) n =
     failures_since_success sub es (failures_since_success sub [e] n)"
  by (cases e) simp_all

lemma breaker_count_run:
  assumes "0 < brThreshold b" and "0 < brCooldown b" and "sub \<noteq> no_subsystem"
  shows "breaker_count (fold breaker_step es b) sub =
    failures_since_success sub es (breaker_count b sub)"
  using assms
proof (induction es arbitrary: b)
  case (Cons e es)
  with Cons.IH [of "breaker_step e b"] show ?case
    by (simp add: breaker_count_step failures_since_success_Cons [of sub e es])
qed simp

lemma newSubsystemBreaker_count [simp]: "breaker_count (newSubsystemBreaker t c) sub = 0"
  by (simp add: newSubsystemBreaker_def breaker_count_def)

section \<open>Metric samples\<close>

record metricsSample =
  sDurationMs :: int
  sStatus :: JobStatus
  sTs :: time

record metrics =
  mBuckets :: "(Subsystem \<times> string) \<rightharpoonup> metricsSample list"
  mCapacity :: int

definition newMetrics :: "int \<Rightarrow> metrics" where
  "newMetrics capacity =
     \<lparr>mBuckets = Map.empty, mCapacity = (if capacity \<le> 0 then 256 else capacity)\<rparr>"

definition Milliseconds :: "duration \<Rightarrow> int" where
  "Milliseconds d = (if d < 0 then - (- d div 1000000) else d div 1000000)"

definition metrics_record ::
  "time \<Rightarrow> Subsystem \<Rightarrow> string \<Rightarrow> duration \<Rightarrow> JobStatus \<Rightarrow> metrics \<Rightarrow> metrics" where
  "metrics_record now sub jobType d status m =
     (if sub = no_subsystem \<and> jobType = [] then m
      else
        (let bucket = (case mBuckets m (sub, jobType) of None \<Rightarrow> [] | Some xs \<Rightarrow> xs);
             kept = (if mCapacity m \<le> int (length bucket) then tl bucket else bucket);
             sample = \<lparr>sDurationMs = Milliseconds d, sStatus = status, sTs = now\<rparr>
         in m\<lparr>mBuckets := (mBuckets m)((sub, jobType) \<mapsto> kept @ [sample])\<rparr>))"

record counts =
  cReady :: int
  cFailed :: int
  cCancelled :: int

definition counts_add :: "JobStatus \<Rightarrow> counts \<Rightarrow> counts" where
  "counts_add status c =
     (if status = StatusReady then c\<lparr>cReady := cReady c + 1\<rparr>
      else if status = StatusFailed then c\<lparr>cFailed := cFailed c + 1\<rparr>
      else if status = StatusCancelled then c\<lparr>cCancelled := cCancelled c + 1\<rparr>
      else c)"

definition counts_total :: "counts \<Rightarrow> int" where
  "counts_total c = cReady c + cFailed c + cCancelled c"

definition bucket_of :: "metrics \<Rightarrow> Subsystem \<Rightarrow> string \<Rightarrow> metricsSample list" where
  "bucket_of m sub jt = (case mBuckets m (sub, jt) of None \<Rightarrow> [] | Some xs \<Rightarrow> xs)"

type_synonym recording = "time \<times> Subsystem \<times> string \<times> duration \<times> JobStatus"

fun record_one :: "recording \<Rightarrow> metrics \<Rightarrow> metrics" where
  "record_one (now, sub, jt, d, st) m = metrics_record now sub jt d st m"

fun sample_of :: "recording \<Rightarrow> metricsSample" where
  "sample_of (now, sub, jt, d, st) = \<lparr>sDurationMs = Milliseconds d, sStatus = st, sTs = now\<rparr>"

fun recorded_for :: "Subsystem \<Rightarrow> string \<Rightarrow> recording \<Rightarrow> bool" where
  "recorded_for s j (now, sub, jt, d, st) = (sub = s \<and> jt = j)"

definition last_n :: "nat \<Rightarrow> 'a list \<Rightarrow> 'a list" where
  "last_n n xs = drop (length xs - n) xs"

lemma last_n_snoc: "0 < n \<Longrightarrow>
    last_n n (xs @ [x]) = (if n \<le> length (last_n n xs) then tl (last_n n xs) else last_n n xs) @ [x]"
  by (auto simp: last_n_def drop_Suc tl_drop Suc_diff_le)

lemma record_one_capacity [simp]: "mCapacity (record_one r m) = mCapacity m"
  by (cases r) (simp add: metrics_record_def Let_def)

lemma bucket_record_one:
  assumes "sub \<noteq> no_subsystem \<or> jt \<noteq> []"
  shows "bucket_of (record_one r m) sub jt =
    (if recorded_for sub jt r
     then (if mCapacity m \<le> int (length (bucket_of m sub jt)) then tl (bucket_of m sub jt)
           else bucket_of m sub jt) @ [sample_of r]
     else bucket_of m sub jt)"
  using assms by (cases r) (auto simp: metrics_record_def bucket_of_def Let_def)

lemma bucket_run:
  assumes "sub \<noteq> no_subsystem \<or> jt \<noteq> []" and "0 < mCapacity m"
    and "bucket_of m sub jt = last_n (nat (mCapacity m)) hist"
  shows "bucket_of (fold record_one rs m) sub jt =
    last_n (nat (mCapacity m)) (hist @ map sample_of (filter (recorded_for sub jt) rs))"
  using assms(2,3)
proof (induction rs arbitrary: m hist)
  case (Cons r rs)
  let ?h = "if recorded_for sub jt r then hist @ [sample_of r] else hist"
  have "bucket_of (record_one r m) sub jt = last_n (nat (mCapacity m)) ?h"
    using Cons.prems
    by (auto simp: bucket_record_one [OF assms(1)] last_n_snoc nat_le_iff)
  with Cons.IH [of "record_one r m" ?h] Cons.prems show ?case by auto
qed simp

section \<open>Properties\<close>

fun claim_all ::
  "string \<Rightarrow> string list \<Rightarrow> inflightRegistry \<Rightarrow> (string \<times> bool) list \<times> inflightRegistry" where
  "claim_all k [] r = ([], r)"
| "claim_all k (v # vs) r =
     (let (res, r1) = registry_claim k v r; (rest, r2) = claim_all k vs r1 in (res # rest, r2))"

lemma claim_all_race:
  "map snd (fst (claim_all k vs r)) = fst (inflight.race k vs r) \<and>
   snd (claim_all k vs r) = snd (inflight.race k vs r)"
  by (induction vs arbitrary: r) (auto simp: registry_claims_def case_prod_beta)

lemma claim_all_losers:
  "k \<noteq> [] \<Longrightarrow> registry_holder r k = Some h \<Longrightarrow> \<forall>v\<in>set vs. v \<noteq> [] \<Longrightarrow>
   fst (claim_all k vs r) = replicate (length vs) (h, False)"
proof (induction vs arbitrary: r)
  case (Cons v vs)
  then have "registry_claim k v r = ((h, False), r)"
    by (auto simp: registry_claim_def registry_holder_eq split: option.splits if_splits)
  with Cons show ?case by (simp add: case_prod_beta)
qed simp

text \<open>
  the in-process dedupe. Of any number of requests that race to claim one free target key,
  exactly the first to take the lock wins; every other one is told the winner's job id, and
  afterwards the registry holds the winner.
\<close>

theorem registry_single_winner:
  assumes "k \<noteq> []" and "\<forall>i\<in>set (v # vs). i \<noteq> []" and "registry_peek k r = ([], False)"
  shows "fst (claim_all k (v # vs) r) = (v, True) # replicate (length vs) (v, False)
    \<and> registry_peek k (snd (claim_all k (v # vs) r)) = (v, True)"
proof -
  have free: "registry_holder r k = None"
    using assms(3) by (simp add: registry_holder_def)
  have wins: "fst (inflight.race k (v # vs) r) = True # replicate (length vs) False"
    "registry_holder (snd (inflight.race k (v # vs) r)) k = Some v"
    using inflight.race_first_wins [of v vs k r] assms(1,2) free by auto
  obtain r1 where c: "registry_claim k v r = ((v, True), r1)"
    using free by (auto simp: registry_claim_def registry_holder_eq split: option.splits if_splits)
  then have "registry_holder r1 k = Some v"
    using assms(1,2) inflight.claim_holder [of k v r k] free by (simp add: registry_claims_def)
  then have "fst (claim_all k vs r1) = replicate (length vs) (v, False)"
    using assms(1,2) by (intro claim_all_losers) auto
  with c have "fst (claim_all k (v # vs) r) = (v, True) # replicate (length vs) (v, False)"
    by (simp add: case_prod_beta)
  moreover have "registry_holder (snd (claim_all k (v # vs) r)) k = Some v"
    using wins(2) claim_all_race [of k "v # vs" r] by simp
  ultimately show ?thesis
    by (auto simp: registry_holder_eq registry_peek_def split: option.splits if_splits)
qed

theorem registry_single_winner_witness:
  "fst (claim_all ''repo'' [''j1'', ''j2'', ''j3''] newInflightRegistry) =
     [(''j1'', True), (''j1'', False), (''j1'', False)]"
  using registry_single_winner [of "''repo''" "''j1''" "[''j2'', ''j3'']" newInflightRegistry]
  by (simp add: newInflightRegistry_def registry_peek_def)

lemma open_needs_count_step:
  assumes "\<And>st. brStates b sub = Some st \<Longrightarrow> bsOpenUntil st \<noteq> zero_time \<Longrightarrow> brThreshold b \<le> bsFailures st"
    and "brStates (breaker_step e b) sub = Some st" and "bsOpenUntil st \<noteq> zero_time"
  shows "brThreshold b \<le> bsFailures st"
  using assms
  by (cases e) (fastforce simp: recordSuccess_def recordFailure_def waitDuration_def Let_def
      split: option.splits if_splits)+

lemma open_needs_count:
  assumes "\<And>st. brStates b sub = Some st \<Longrightarrow> bsOpenUntil st \<noteq> zero_time \<Longrightarrow> brThreshold b \<le> bsFailures st"
    and "brStates (fold breaker_step es b) sub = Some st" and "bsOpenUntil st \<noteq> zero_time"
  shows "brThreshold b \<le> bsFailures st"
  using assms
proof (induction es arbitrary: b)
  case (Cons e es)
  have "brThreshold (breaker_step e b) \<le> bsFailures st"
  proof (rule Cons.IH)
    show "brThreshold (breaker_step e b) \<le> bsFailures s"
      if "brStates (breaker_step e b) sub = Some s" "bsOpenUntil s \<noteq> zero_time" for s
      using open_needs_count_step [OF Cons.prems(1) that] by simp
  qed (use Cons.prems in simp_all)
  then show ?case by simp
qed auto

lemma fold_breaker_config [simp]:
  "brThreshold (fold breaker_step es b) = brThreshold b"
  "brCooldown (fold breaker_step es b) = brCooldown b"
  by (induction es arbitrary: b) simp_all

text \<open>
  the breaker. After any history of a fresh breaker that ends with a compute failure of a
  subsystem at time \<open>t\<close>, a worker of that subsystem asking at \<open>now\<close> is told to wait for the
  rest of the cool-down exactly when the compute failures since the subsystem's last success
  have reached the threshold, and may go ahead otherwise.
\<close>

theorem breaker_opens_at_threshold:
  assumes "0 < thr" and "0 < cd" and "cd \<le> max_duration" and "sub \<noteq> no_subsystem"
    and "0 < t" and "t \<le> now"
  shows "fst (waitDuration now sub
      (fold breaker_step (es @ [BFailure t sub ''PROVIDER_COMPUTE'']) (newSubsystemBreaker thr cd))) =
    (if thr \<le> failures_since_success sub es 0 + 1 \<and> now < t + cd then t + cd - now else 0)"
proof -
  let ?new = "newSubsystemBreaker thr cd"
  let ?b = "fold breaker_step es ?new"
  have cfg: "brThreshold ?b = thr" "brCooldown ?b = cd"
    using assms(1,2) by (simp_all add: newSubsystemBreaker_def)
  have count: "breaker_count ?b sub = failures_since_success sub es 0"
    using breaker_count_run [of ?new sub es] assms(1,2,4) by (simp add: newSubsystemBreaker_def [of thr cd] breaker_count_def)
  define st where "st = (case brStates ?b sub of None \<Rightarrow> \<lparr>bsFailures = 0, bsOpenUntil = zero_time\<rparr> | Some st \<Rightarrow> st)"
  have fails: "bsFailures st = failures_since_success sub es 0"
    using count by (auto simp: st_def breaker_count_def split: option.splits)
  have closed: "bsOpenUntil st = zero_time" if "failures_since_success sub es 0 + 1 < thr"
  proof (cases "brStates ?b sub")
    case None
    then show ?thesis by (simp add: st_def)
  next
    case (Some s)
    have "brThreshold ?new \<le> bsFailures s" if "bsOpenUntil s \<noteq> zero_time"
      by (rule open_needs_count [OF _ Some that]) (simp add: newSubsystemBreaker_def split: if_splits)
    with Some that fails cfg show ?thesis by (auto simp: st_def newSubsystemBreaker_def)
  qed
  have sub': "time_Sub (t + cd) now = t + cd - now" if "now < t + cd"
    using that assms by (intro time_Sub_exact) auto
  show ?thesis
    using assms fails closed cfg sub'
    by (simp add: recordFailure_def Let_def st_def [symmetric] waitDuration_def IsZero_def
        zero_time_def After_def)
qed

theorem breaker_opens_at_threshold_witness:
  "fst (waitDuration (105 * Second) SubsystemKnowledge
     (fold breaker_step [BFailure 1 SubsystemKnowledge ''PROVIDER_COMPUTE'',
        BFailure 2 SubsystemKnowledge ''LLM_EMPTY'', BFailure 3 SubsystemKnowledge ''PROVIDER_COMPUTE'',
        BFailure (100 * Second) SubsystemKnowledge ''PROVIDER_COMPUTE'']
      (newSubsystemBreaker 3 (20 * Second)))) = 15 * Second"
  using breaker_opens_at_threshold [of 3 "20 * Second" SubsystemKnowledge "100 * Second" "105 * Second"
      "[BFailure 1 SubsystemKnowledge ''PROVIDER_COMPUTE'', BFailure 2 SubsystemKnowledge ''LLM_EMPTY'',
        BFailure 3 SubsystemKnowledge ''PROVIDER_COMPUTE'']"]
  by (simp add: duration_units)

text \<open>
  the metric buffers. After any sequence of recordings, the bucket of a subsystem and job
  type holds exactly the last \<open>capacity\<close> samples recorded for that pair, oldest first, and no
  sample of another pair.
\<close>

theorem metrics_keep_last_samples:
  assumes "sub \<noteq> no_subsystem \<or> jt \<noteq> []"
  shows "bucket_of (fold record_one rs (newMetrics capacity)) sub jt =
    last_n (nat (if capacity \<le> 0 then 256 else capacity))
      (map sample_of (filter (recorded_for sub jt) rs))"
  using bucket_run [OF assms, of "newMetrics capacity" "[]" rs]
  by (simp add: newMetrics_def bucket_of_def last_n_def)

theorem metrics_keep_last_samples_witness:
  "map sDurationMs (bucket_of (fold record_one
      [(1, SubsystemQA, ''ask'', 5000000, StatusReady), (2, SubsystemQA, ''deep'', 1, StatusFailed),
       (3, SubsystemQA, ''ask'', 7000000, StatusReady), (4, SubsystemQA, ''ask'', 9000000, StatusFailed)]
      (newMetrics 2)) SubsystemQA ''ask'') = [7, 9]"
  using metrics_keep_last_samples [of SubsystemQA "''ask''"
      "[(1, SubsystemQA, ''ask'', 5000000, StatusReady), (2, SubsystemQA, ''deep'', 1, StatusFailed),
       (3, SubsystemQA, ''ask'', 7000000, StatusReady), (4, SubsystemQA, ''ask'', 9000000, StatusFailed)]" 2]
  by (simp add: last_n_def Milliseconds_def)

end
