(* ===== verification/LLM_Orchestrator.thy ===== *)
theory LLM_Orchestrator
  imports LLM_MemStore LLM_Retry LLM_Queue
begin

text \<open>
  The state of the job orchestrator (\<^verbatim>\<open>internal/llm/orchestrator/orchestrator.go\<close>) and the
  operations that run to completion in one goroutine: claims, log and event publication,
  the three finalizers, \<^verbatim>\<open>Enqueue\<close>, \<^verbatim>\<open>Cancel\<close>, the reaper pass, the start-up
  reconciliation and the worker-pool bookkeeping.

  \<^item> Each method takes the state and returns it updated. \<^verbatim>\<open>time.Now()\<close> is \<open>read_clock\<close>: the
    state carries an arbitrary stream of clock readings and a position in it, so two
    readings in one method may differ. A \<^verbatim>\<open>uuid\<close> and the visiting order of the job map are
    arguments.
  \<^item> \<open>Enqueue\<close> is a call during which no other goroutine runs; \<open>LLM_Enqueue\<close> has its single accesses,
    interleaved with those of other calls, and shows that undisturbed they amount to \<open>Enqueue\<close>.
  \<^item> A Go channel of work items is the list of buffered items; the subscriber channels are
    the lists of undelivered events, bounded by their capacity, beyond which \<^verbatim>\<open>publish\<close> drops.
  \<^item> A registered \<^verbatim>\<open>context.CancelFunc\<close> is the membership of the job id in \<open>oRunCancels\<close>;
    calling it puts the id into \<open>oCtxCancelled\<close>.
  \<^item> The configured callbacks are represented by whether they are set; their calls are
    recorded, in order, in \<open>oCallbacks\<close>. Log output (\<^verbatim>\<open>slog\<close>) is not modelled.
\<close>

section \<open>Configuration and state\<close>

record Config =
  cfgMaxConcurrency :: int
  cfgQueueCapacity :: int
  cfgProgressDebounce :: duration
  cfgRetry :: RetryPolicy
  cfgMetricsCapacity :: int
  cfgComputeErrorThreshold :: int
  cfgComputeCooldown :: duration
  cfgOnStaleJob :: bool
  cfgOnJobFailed :: bool
  cfgSkipStartupReconciliation :: bool
  cfgDisableWorkers :: bool

definition withDefaults :: "Config \<Rightarrow> Config" where
  "withDefaults c =
     (let c1 = (if cfgMaxConcurrency c \<le> 0 then c\<lparr>cfgMaxConcurrency := 3\<rparr> else c);
          c2 = (if cfgQueueCapacity c1 \<le> 0 then c1\<lparr>cfgQueueCapacity := 128\<rparr> else c1);
          c3 = (if cfgProgressDebounce c2 \<le> 0
                then c2\<lparr>cfgProgressDebounce := 500 * Millisecond\<rparr> else c2);
          c4 = (if rpMaxAttempts (cfgRetry c3) = 0 then c3\<lparr>cfgRetry := DefaultRetryPolicy\<rparr> else c3);
          c5 = (if cfgMetricsCapacity c4 \<le> 0 then c4\<lparr>cfgMetricsCapacity := 256\<rparr> else c4);
          c6 = (if cfgComputeErrorThreshold c5 \<le> 0 then c5\<lparr>cfgComputeErrorThreshold := 3\<rparr> else c5)
      in if cfgComputeCooldown c6 \<le> 0 then c6\<lparr>cfgComputeCooldown := 20 * Second\<rparr> else c6)"

record workItem =
  wiJobID :: string
  wiReq :: EnqueueRequest

datatype callback = CbStaleJob Job | CbJobFailed Job

record orch =
  oCfg :: Config
  oStore :: MemStore
  oInflight :: inflightRegistry
  oMetrics :: metrics
  oBreaker :: subsystemBreaker
  oProcessID :: string
  oInteractiveQ :: "workItem list"
  oMaintenanceQ :: "workItem list"
  oPrewarmQ :: "workItem list"
  oRunCancels :: "string set"
  oCtxCancelled :: "string set"
  oCancelled :: "string set"
  oFinalizing :: "string set"
  oIntakePaused :: bool
  oStopped :: bool
  oDraining :: bool
  oSubscribers :: "int \<rightharpoonup> JobEvent list"
  oNextSubID :: int
  oLogSubscribers :: "int \<rightharpoonup> JobLogEntry list"
  oNextLogSubID :: int
  oLastLogSequence :: "string \<rightharpoonup> int"
  oNextWorkerID :: int
  oConfiguredWorkers :: int
  oActiveWorkers :: int
  oRetiringWorkers :: int
  oCallbacks :: "callback list"
  oClock :: "nat \<Rightarrow> time"
  oTick :: nat

text \<open>The state that the constructor builds, before reconciliation and worker start.\<close>

definition fresh_orch :: "MemStore \<Rightarrow> Config \<Rightarrow> string \<Rightarrow> (nat \<Rightarrow> time) \<Rightarrow> orch" where
  "fresh_orch store cfg pid clock =
     \<lparr>oCfg = cfg, oStore = store, oInflight = newInflightRegistry,
      oMetrics = newMetrics (cfgMetricsCapacity cfg),
      oBreaker = newSubsystemBreaker (cfgComputeErrorThreshold cfg) (cfgComputeCooldown cfg),
      oProcessID = pid, oInteractiveQ = [], oMaintenanceQ = [], oPrewarmQ = [],
      oRunCancels = {}, oCtxCancelled = {}, oCancelled = {}, oFinalizing = {},
      oIntakePaused = False, oStopped = False, oDraining = False,
      oSubscribers = Map.empty, oNextSubID = 0, oLogSubscribers = Map.empty, oNextLogSubID = 0,
      oLastLogSequence = Map.empty, oNextWorkerID = 0, oConfiguredWorkers = cfgMaxConcurrency cfg,
      oActiveWorkers = 0, oRetiringWorkers = 0, oCallbacks = [], oClock = clock, oTick = 0\<rparr>"

definition read_clock :: "orch \<Rightarrow> time \<times> orch" where
  "read_clock w = (oClock w (oTick w), w\<lparr>oTick := Suc (oTick w)\<rparr>)"

text \<open>A call of a store method, with its own reading of the clock.\<close>

definition on_store :: "(time \<Rightarrow> MemStore \<Rightarrow> 'r \<times> MemStore) \<Rightarrow> orch \<Rightarrow> 'r \<times> orch" where
  "on_store f w = (let (r, s) = f (oClock w (oTick w)) (oStore w)
                   in (r, w\<lparr>oStore := s, oTick := Suc (oTick w)\<rparr>))"

section \<open>Claims, cancellation marks, events and logs\<close>

definition claimFinalization :: "string \<Rightarrow> orch \<Rightarrow> bool \<times> orch" where
  "claimFinalization jobID w =
     (if jobID \<in> oFinalizing w then (False, w)
      else (True, w\<lparr>oFinalizing := insert jobID (oFinalizing w)\<rparr>))"

definition releaseFinalization :: "string \<Rightarrow> orch \<Rightarrow> orch" where
  "releaseFinalization jobID w = w\<lparr>oFinalizing := oFinalizing w - {jobID}\<rparr>"

definition cancelActiveRun :: "string \<Rightarrow> orch \<Rightarrow> orch" where
  "cancelActiveRun jobID w =
     (if jobID \<in> oRunCancels w then w\<lparr>oCtxCancelled := insert jobID (oCtxCancelled w)\<rparr> else w)"

definition setRunCancel :: "string \<Rightarrow> orch \<Rightarrow> orch" where
  "setRunCancel jobID w = w\<lparr>oRunCancels := insert jobID (oRunCancels w),
     oCtxCancelled := oCtxCancelled w - {jobID}\<rparr>"

definition clearRunCancel :: "string \<Rightarrow> orch \<Rightarrow> orch" where
  "clearRunCancel jobID w = w\<lparr>oRunCancels := oRunCancels w - {jobID}\<rparr>"

definition clearRunState :: "string \<Rightarrow> orch \<Rightarrow> orch" where
  "clearRunState jobID w = w\<lparr>oRunCancels := oRunCancels w - {jobID},
     oCancelled := oCancelled w - {jobID}\<rparr>"

definition isCancelled :: "string \<Rightarrow> orch \<Rightarrow> bool" where
  "isCancelled jobID w \<longleftrightarrow> jobID \<in> oCancelled w"

definition release_inflight :: "string \<Rightarrow> orch \<Rightarrow> orch" where
  "release_inflight key w = w\<lparr>oInflight := registry_release key (oInflight w)\<rparr>"

definition publish :: "JobEvent \<Rightarrow> orch \<Rightarrow> orch" where
  "publish event w = w\<lparr>oSubscribers := (\<lambda>sid. map_option
      (\<lambda>ch. if length ch < 64 then ch @ [event] else ch) (oSubscribers w sid))\<rparr>"

definition publishLog :: "JobLogEntry \<Rightarrow> orch \<Rightarrow> orch" where
  "publishLog entry w = w\<lparr>oLogSubscribers := (\<lambda>sid. map_option
      (\<lambda>ch. if length ch < 128 then ch @ [entry] else ch) (oLogSubscribers w sid))\<rparr>"

definition Subscribe :: "orch \<Rightarrow> int \<times> orch" where
  "Subscribe w = (let sid = oNextSubID w + 1
     in (sid, w\<lparr>oNextSubID := sid, oSubscribers := (oSubscribers w)(sid \<mapsto> [])\<rparr>))"

definition Unsubscribe :: "int \<Rightarrow> orch \<Rightarrow> orch" where
  "Unsubscribe sid w = w\<lparr>oSubscribers := (oSubscribers w)(sid := None)\<rparr>"

definition SubscribeLogs :: "orch \<Rightarrow> int \<times> orch" where
  "SubscribeLogs w = (let sid = oNextLogSubID w + 1
     in (sid, w\<lparr>oNextLogSubID := sid, oLogSubscribers := (oLogSubscribers w)(sid \<mapsto> [])\<rparr>))"

text \<open>\<^verbatim>\<open>Time.UnixNano\<close> of a reading: nanoseconds since 1 January 1970, as an int64.\<close>

definition UnixNano :: "time \<Rightarrow> int" where
  "UnixNano t = wrap64 (t - 62135596800 * Second)"

definition next_log_sequence :: "time \<Rightarrow> int option \<Rightarrow> int" where
  "next_log_sequence t prev =
     (let sequence = UnixNano t; last = (case prev of None \<Rightarrow> 0 | Some l \<Rightarrow> l)
      in if sequence \<le> last then wrap64 (last + 1) else sequence)"

definition AppendJobLog ::
  "string \<Rightarrow> JobLogLevel \<Rightarrow> string \<Rightarrow> string \<Rightarrow> string \<Rightarrow> payload \<Rightarrow> orch
   \<Rightarrow> go_error option \<times> orch" where
  "AppendJobLog jobID level phase event message payload w =
     (if TrimSpace jobID = [] then (Some (Errorf ''job id is required''), w)
      else (case GetByID jobID (oStore w) of None \<Rightarrow> (Some (job_not_found jobID), w)
        | Some job \<Rightarrow>
           (let (t, w1) = read_clock w;
                sequence = next_log_sequence t (oLastLogSequence w1 jobID);
                w2 = w1\<lparr>oLastLogSequence := (oLastLogSequence w1)(jobID \<mapsto> sequence)\<rparr>;
                entry = \<lparr>lID = [], lJobID = jID job, lRepoID = jRepoID job,
                  lArtifactID = jArtifactID job, lSubsystem = jSubsystem job,
                  lJobType = jJobType job, lLLMProvider = jLLMProvider job, lLevel = level,
                  lPhase = phase, lEvent = event, lMessage = message, lPayload = payload,
                  lSequence = sequence, lCreatedAt = zero_time\<rparr>;
                (r, w3) = on_store (\<lambda>now. AppendLog now (Some entry)) w2
            in (case r of Inl e \<Rightarrow> (Some e, w3) | Inr stored \<Rightarrow> (None, publishLog stored w3)))))"

section \<open>The finalizers\<close>

definition record_terminal :: "Subsystem \<Rightarrow> string \<Rightarrow> Job \<Rightarrow> JobStatus \<Rightarrow> orch \<Rightarrow> orch" where
  "record_terminal sub jobType job status w =
     (let (t1, w1) = read_clock w; (t2, w2) = read_clock w1
      in w2\<lparr>oMetrics := metrics_record t2 sub jobType (Elapsed t1 (Some job)) status (oMetrics w2)\<rparr>)"

definition on_job_failed :: "Job \<Rightarrow> orch \<Rightarrow> orch" where
  "on_job_failed job w =
     (if cfgOnJobFailed (oCfg w) then w\<lparr>oCallbacks := oCallbacks w @ [CbJobFailed job]\<rparr> else w)"

definition on_stale_job :: "Job \<Rightarrow> orch \<Rightarrow> orch" where
  "on_stale_job job w =
     (if cfgOnStaleJob (oCfg w) then w\<lparr>oCallbacks := oCallbacks w @ [CbStaleJob job]\<rparr> else w)"

definition finalizeReady :: "string \<Rightarrow> EnqueueRequest \<Rightarrow> orch \<Rightarrow> orch" where
  "finalizeReady jobID req w =
     (let w1 = snd (on_store (\<lambda>now. SetStatus now jobID StatusReady) w);
          w2 = w1\<lparr>oBreaker := recordSuccess (rSubsystem req) (oBreaker w1)\<rparr>;
          w3 = (case GetByID jobID (oStore w2) of None \<Rightarrow> w2
            | Some job \<Rightarrow> publish \<lparr>evKind = EventCompleted, evJob = job\<rparr>
                (record_terminal (rSubsystem req) (rJobType req) job StatusReady w2))
      in snd (AppendJobLog jobID LogLevelInfo ''ready'' ''job_ready'' ''Job completed successfully'' [] w3))"

definition error_message :: "go_error option \<Rightarrow> string" where
  "error_message err = (case err of None \<Rightarrow> ''unknown error'' | Some e \<Rightarrow> err_text e)"

definition finalizeFailed :: "string \<Rightarrow> EnqueueRequest \<Rightarrow> go_error option \<Rightarrow> orch \<Rightarrow> orch" where
  "finalizeFailed jobID req err w =
     (let code = ClassifyError err;
          (t, w0) = read_clock w;
          w1 = w0\<lparr>oBreaker := recordFailure t (rSubsystem req) code (oBreaker w0)\<rparr>;
          msg = error_message err;
          w2 = snd (on_store (\<lambda>now. SetError now jobID code msg) w1);
          w3 = (case GetByID jobID (oStore w2) of None \<Rightarrow> w2
            | Some job \<Rightarrow> on_job_failed job (publish \<lparr>evKind = EventFailed, evJob = job\<rparr>
                (record_terminal (rSubsystem req) (rJobType req) job StatusFailed w2)))
      in snd (AppendJobLog jobID LogLevelError ''failed'' ''job_failed'' msg
                [(''error_code'', PString code)] w3))"

definition finalizeCancelled :: "string \<Rightarrow> orch \<Rightarrow> orch" where
  "finalizeCancelled jobID w =
     (let w1 = snd (on_store (\<lambda>now. SetStatus now jobID StatusCancelled) w);
          w2 = (case GetByID jobID (oStore w1) of None \<Rightarrow> w1
            | Some job \<Rightarrow> publish \<lparr>evKind = EventCancelled, evJob = job\<rparr>
                (record_terminal (jSubsystem job) (jJobType job) job StatusCancelled w1))
      in snd (AppendJobLog jobID LogLevelWarn ''cancelled'' ''job_cancelled''
                ''Job cancelled before completion'' [] w2))"

section \<open>Enqueue\<close>

definition isLLMBackedEnqueue :: "EnqueueRequest \<Rightarrow> bool" where
  "isLLMBackedEnqueue req = (case rSubsystem req of
       SubsystemKnowledge \<Rightarrow> True | SubsystemReasoning \<Rightarrow> True | SubsystemRequirements \<Rightarrow> True
     | SubsystemLinking \<Rightarrow> True | SubsystemContracts \<Rightarrow> True | SubsystemQA \<Rightarrow> True
     | SubsystemClustering \<Rightarrow> TrimSpace (rJobType req) = ''relabel_clusters''
     | SubsystemLivingWiki \<Rightarrow> True
     | SubsystemOther _ \<Rightarrow> False)"

definition provider_required_error :: "EnqueueRequest \<Rightarrow> go_error" where
  "provider_required_error req =
     \<lparr>err_text = ''llm provider required: LLM-backed enqueue resolved an empty provider: subsystem=''
        @ subsystem_string (rSubsystem req) @ '' job_type='' @ rJobType req
        @ ''; verify /admin/llm and the resolver wiring'',
      err_grpc = None, err_chain = [ErrLLMProviderRequired]\<rparr>"

definition isTerminalJob :: "Job \<Rightarrow> bool" where
  "isTerminalJob job \<longleftrightarrow>
     jStatus job = StatusReady \<or> jStatus job = StatusFailed \<or> jStatus job = StatusCancelled"

text \<open>
  The claim loop of \<^verbatim>\<open>Enqueue\<close>: at most \<open>n\<close> attempts (the code has two). It ends with the job
  of the winner when that job is still active, and otherwise leaves the loop, having
  claimed the key or having used up its attempts.
\<close>

fun claim_loop :: "nat \<Rightarrow> string \<Rightarrow> string \<Rightarrow> orch \<Rightarrow> Job option option \<times> orch" where
  "claim_loop 0 key jobID w = (None, w)"
| "claim_loop (Suc n) key jobID w =
     (case registry_claim key jobID (oInflight w) of ((winner, ok), reg) \<Rightarrow>
        let w1 = w\<lparr>oInflight := reg\<rparr>
        in if ok then (None, w1)
           else (case GetByID winner (oStore w1) of
               Some existing \<Rightarrow>
                 if \<not> isTerminalJob existing
                 then (let w2 = snd (on_store (\<lambda>now. IncrementAttachedRequests now winner) w1)
                       in (Some (GetByID winner (oStore w2)), w2))
                 else claim_loop n key jobID (release_inflight key w1)
             | None \<Rightarrow> claim_loop n key jobID (release_inflight key w1)))"

definition queueFor :: "JobPriority \<Rightarrow> orch \<Rightarrow> workItem list" where
  "queueFor p w = (case p of PriorityMaintenance \<Rightarrow> oMaintenanceQ w
     | PriorityPrewarm \<Rightarrow> oPrewarmQ w | _ \<Rightarrow> oInteractiveQ w)"

definition push_queue :: "JobPriority \<Rightarrow> workItem \<Rightarrow> orch \<Rightarrow> orch" where
  "push_queue p item w = (case p of
       PriorityMaintenance \<Rightarrow> w\<lparr>oMaintenanceQ := oMaintenanceQ w @ [item]\<rparr>
     | PriorityPrewarm \<Rightarrow> w\<lparr>oPrewarmQ := oPrewarmQ w @ [item]\<rparr>
     | _ \<Rightarrow> w\<lparr>oInteractiveQ := oInteractiveQ w @ [item]\<rparr>)"

definition new_job :: "string \<Rightarrow> EnqueueRequest \<Rightarrow> orch \<Rightarrow> Job \<times> orch" where
  "new_job jobID req w =
     (let (t1, w1) = read_clock w; (t2, w2) = read_clock w1
      in (zero_Job\<lparr>jID := jobID, jSubsystem := rSubsystem req, jJobType := rJobType req,
            jTargetKey := rTargetKey req, jStrategy := rStrategy req, jModel := rModel req,
            jLLMProvider := rLLMProvider req, jArtifactID := rArtifactID req,
            jRepoID := rRepoID req, jPriority := rPriority req,
            jGenerationMode := rGenerationMode req, jStatus := StatusPending,
            jMaxAttempts := (if rMaxAttempts req \<le> 0 then rpMaxAttempts (cfgRetry (oCfg w))
                             else rMaxAttempts req),
            jTimeoutSec := rTimeoutSec req, jAttachedRequests := 1,
            jProcessID := oProcessID w, jCreatedAt := t1, jUpdatedAt := t2\<rparr>, w2))"

text \<open>
  The hand-off to a queue is the last step of \<^verbatim>\<open>Enqueue\<close>: a \<^verbatim>\<open>select\<close> between sending to the
  buffered channel and the shutdown. It is a phase of its own because the caller parks while
  the queue is full. \<open>send\<close> is the choice of the \<^verbatim>\<open>select\<close> when both cases are ready.
\<close>

datatype enqueue_phase = Returned "go_error + Job option" | HandOff Job EnqueueRequest

definition Enqueue_handoff ::
  "bool \<Rightarrow> Job \<Rightarrow> EnqueueRequest \<Rightarrow> orch \<Rightarrow> enqueue_phase \<times> orch" where
  "Enqueue_handoff send job req w =
     (let room = int (length (queueFor (rPriority req) w)) < cfgQueueCapacity (oCfg w)
      in if room \<and> (send \<or> \<not> oStopped w)
         then (Returned (Inr (Some job)), push_queue (rPriority req) \<lparr>wiJobID = jID job, wiReq = req\<rparr> w)
         else if oStopped w
         then (let w1 = release_inflight (rTargetKey req) w;
                   w2 = snd (on_store (\<lambda>now. SetError now (jID job) ''ORCHESTRATOR_SHUTDOWN''
                                ''orchestrator is shutting down'') w1)
               in (Returned (Inl (Errorf ''orchestrator shutting down'')), w2))
         else (HandOff job req, w))"

definition Enqueue_create :: "string \<Rightarrow> EnqueueRequest \<Rightarrow> orch \<Rightarrow> enqueue_phase \<times> orch" where
  "Enqueue_create jobID req w =
     (let (job, w1) = new_job jobID req w;
          (r, w2) = on_store (\<lambda>now. Create now (Some job)) w1
      in (case r of
            Inl e \<Rightarrow> (Returned (Inl (Wrapf ''persist job: '' e [])), release_inflight (rTargetKey req) w2)
          | Inr job' \<Rightarrow>
              (let w3 = publish \<lparr>evKind = EventCreated, evJob = job'\<rparr> w2;
                   w4 = snd (AppendJobLog (jID job') LogLevelInfo ''queued'' ''job_created''
                     ''Job created and enqueued''
                     [(''target_key'', PString (jTargetKey job')),
                      (''subsystem'', PString (subsystem_string (jSubsystem job'))),
                      (''job_type'', PString (jJobType job')),
                      (''artifact_id'', PString (jArtifactID job'))] w3)
               in (HandOff job' req, w4))))"

definition Enqueue_prepare ::
  "string list \<Rightarrow> string \<Rightarrow> EnqueueRequest option \<Rightarrow> orch \<Rightarrow> enqueue_phase \<times> orch" where
  "Enqueue_prepare ks jobID rp w =
     (case Validate rp of
        (Some e, _) \<Rightarrow> (Returned (Inl e), w)
      | (None, None) \<Rightarrow> (Returned (Inl (Errorf ''enqueue request is nil'')), w)
      | (None, Some req) \<Rightarrow>
         if isLLMBackedEnqueue req \<and> TrimSpace (rLLMProvider req) = []
         then (Returned (Inl (provider_required_error req)), w)
         else (case GetActiveByTargetKey ks (rTargetKey req) (oStore w) of
             Some found \<Rightarrow>
               (let w1 = snd (on_store (\<lambda>now. IncrementAttachedRequests now (jID found)) w)
                in (case GetByID (jID found) (oStore w1) of
                      Some existing \<Rightarrow>
                        (Returned (Inr (Some existing)),
                         w1\<lparr>oInflight := snd (registry_claim (rTargetKey req) (jID existing) (oInflight w1))\<rparr>)
                    | None \<Rightarrow> (Returned (Inl (Errorf ''invalid memory address or nil pointer dereference'')), w1)))
           | None \<Rightarrow>
               (case claim_loop 2 (rTargetKey req) jobID w of
                  (Some job, w1) \<Rightarrow> (Returned (Inr job), w1)
                | (None, w1) \<Rightarrow>
                    if oIntakePaused w1
                    then (Returned (Inl (Errorf ''llm queue intake is paused'')),
                          release_inflight (rTargetKey req) w1)
                    else Enqueue_create jobID req w1)))"

definition Enqueue ::
  "string list \<Rightarrow> string \<Rightarrow> bool \<Rightarrow> EnqueueRequest option \<Rightarrow> orch \<Rightarrow> enqueue_phase \<times> orch" where
  "Enqueue ks jobID send rp w =
     (case Enqueue_prepare ks jobID rp w of
        (Returned r, w1) \<Rightarrow> (Returned r, w1)
      | (HandOff job req, w1) \<Rightarrow> Enqueue_handoff send job req w1)"

section \<open>Frames\<close>

lemma read_clock_sel [simp]:
  "fst (read_clock w) = oClock w (oTick w)"
  "snd (read_clock w) = w\<lparr>oTick := Suc (oTick w)\<rparr>"
  by (simp_all add: read_clock_def)

lemma on_store_fst: "fst (on_store f w) = fst (f (oClock w (oTick w)) (oStore w))"
  by (simp add: on_store_def case_prod_beta)

lemma on_store_snd: "snd (on_store f w) =
    w\<lparr>oStore := snd (f (oClock w (oTick w)) (oStore w)), oTick := Suc (oTick w)\<rparr>"
  by (simp add: on_store_def case_prod_beta)

lemma on_store_pair:
  "on_store f w = (fst (f (oClock w (oTick w)) (oStore w)),
     w\<lparr>oStore := snd (f (oClock w (oTick w)) (oStore w)), oTick := Suc (oTick w)\<rparr>)"
  by (simp add: on_store_def case_prod_beta)

text \<open>
  Two states that agree on everything a job's fate depends on: the job table, the registry,
  the claims and marks, the queues and the switches. Logging, events, metrics, callbacks,
  the breaker and the clock are left out.
\<close>

definition same_core :: "orch \<Rightarrow> orch \<Rightarrow> bool" where
  "same_core v w \<longleftrightarrow>
     oInflight v = oInflight w \<and> oFinalizing v = oFinalizing w \<and> oCancelled v = oCancelled w
   \<and> oRunCancels v = oRunCancels w \<and> oCtxCancelled v = oCtxCancelled w
   \<and> oInteractiveQ v = oInteractiveQ w \<and> oMaintenanceQ v = oMaintenanceQ w
   \<and> oPrewarmQ v = oPrewarmQ w \<and> oStopped v = oStopped w \<and> oDraining v = oDraining w
   \<and> oIntakePaused v = oIntakePaused w \<and> oCfg v = oCfg w \<and> oProcessID v = oProcessID w
   \<and> oClock v = oClock w"

lemma same_core_refl [simp]: "same_core w w"
  by (simp add: same_core_def)

lemma same_core_trans: "same_core u v \<Longrightarrow> same_core v w \<Longrightarrow> same_core u w"
  by (simp add: same_core_def)

lemma same_coreD:
  assumes "same_core v w"
  shows "oInflight v = oInflight w" "oFinalizing v = oFinalizing w" "oCancelled v = oCancelled w"
    "oRunCancels v = oRunCancels w" "oCtxCancelled v = oCtxCancelled w"
    "oInteractiveQ v = oInteractiveQ w" "oMaintenanceQ v = oMaintenanceQ w"
    "oPrewarmQ v = oPrewarmQ w" "oStopped v = oStopped w" "oDraining v = oDraining w"
    "oIntakePaused v = oIntakePaused w" "oCfg v = oCfg w" "oProcessID v = oProcessID w"
    "oClock v = oClock w"
  using assms by (simp_all add: same_core_def)

text \<open>Operations that touch neither the core nor the job table.\<close>

definition silent :: "orch \<Rightarrow> orch \<Rightarrow> bool" where
  "silent v w \<longleftrightarrow> same_core v w \<and> ms_jobs (oStore v) = ms_jobs (oStore w)"

lemma silent_refl [simp]: "silent w w"
  by (simp add: silent_def)

lemma silent_trans: "silent u v \<Longrightarrow> silent v w \<Longrightarrow> silent u w"
  by (auto simp: silent_def intro: same_core_trans)

lemma silent_steps [simp]:
  "silent (publish e v) w = silent v w"
  "silent (publishLog l v) w = silent v w"
  "silent (record_terminal sub jt job st v) w = silent v w"
  "silent (on_job_failed job v) w = silent v w"
  "silent (on_stale_job job v) w = silent v w"
  "silent (v\<lparr>oBreaker := b\<rparr>) w = silent v w"
  "silent (v\<lparr>oTick := n\<rparr>) w = silent v w"
  "silent (v\<lparr>oLastLogSequence := q\<rparr>) w = silent v w"
  "silent (v\<lparr>oMetrics := m\<rparr>) w = silent v w"
  by (simp_all add: silent_def same_core_def publish_def publishLog_def record_terminal_def
      on_job_failed_def on_stale_job_def read_clock_def)

lemma silent_AppendLog [simp]:
  "silent (snd (on_store (\<lambda>now. AppendLog now ep) v)) w = silent v w"
  by (simp add: silent_def same_core_def on_store_snd AppendLog_jobs)

lemma silent_AppendJobLog [simp]: "silent (snd (AppendJobLog i lv ph ev m pl v)) w = silent v w"
  by (cases "GetByID i (oStore v)")
    (simp_all add: AppendJobLog_def read_clock_def Let_def case_prod_beta split: sum.split)

lemma core_on_store [simp]: "same_core (snd (on_store f w)) w"
  by (simp add: same_core_def on_store_snd)

lemma silent_core: "silent v w \<Longrightarrow> same_core v w"
  by (simp add: silent_def)

lemma silent_jobs: "silent v w \<Longrightarrow> ms_jobs (oStore v) = ms_jobs (oStore w)"
  by (simp add: silent_def)

section \<open>Claims as an exclusive table\<close>

definition claim_holder_of :: "orch \<Rightarrow> string \<Rightarrow> unit option" where
  "claim_holder_of w i = (if i \<in> oFinalizing w then Some () else None)"

interpretation fin: claim_table claim_holder_of "\<lambda>i _. claimFinalization i" releaseFinalization
  "\<lambda>_ _. True"
  by unfold_locales
    (auto simp: claim_holder_of_def claimFinalization_def releaseFinalization_def)

lemma claimFinalization_cases:
  obtains "claimFinalization i w = (False, w)" and "i \<in> oFinalizing w"
  | "claimFinalization i w = (True, w\<lparr>oFinalizing := insert i (oFinalizing w)\<rparr>)"
    and "i \<notin> oFinalizing w"
proof (cases "i \<in> oFinalizing w")
  case True
  then show thesis by (intro that(1)) (simp_all add: claimFinalization_def)
next
  case False
  then show thesis by (intro that(2)) (simp_all add: claimFinalization_def)
qed

section \<open>Effect of the finalizers\<close>

lemma status_SetStatus:
  "IsTerminal st \<Longrightarrow> job_status (snd (SetStatus now i st s)) k =
     (if k = i then map_option (\<lambda>u. if IsTerminal u then u else st) (job_status s i) else job_status s k)"
  by (rule mem.finish_status)

lemmas status_SetError = mem.fail_status

lemma silent_status: "silent v w \<Longrightarrow> job_status (oStore v) k = job_status (oStore w) k"
  by (simp add: silent_def job_status_def)

lemma finalizeReady_split: "\<exists>u. silent (finalizeReady i req w) u \<and>
    u = snd (on_store (\<lambda>now. SetStatus now i StatusReady) w)"
proof -
  let ?u = "snd (on_store (\<lambda>now. SetStatus now i StatusReady) w)"
  have "silent (finalizeReady i req w) ?u"
    unfolding finalizeReady_def Let_def
    by (simp split: option.split)
  then show ?thesis by blast
qed

lemma finalizeCancelled_split: "\<exists>u. silent (finalizeCancelled i w) u \<and>
    u = snd (on_store (\<lambda>now. SetStatus now i StatusCancelled) w)"
proof -
  let ?u = "snd (on_store (\<lambda>now. SetStatus now i StatusCancelled) w)"
  have "silent (finalizeCancelled i w) ?u"
    unfolding finalizeCancelled_def Let_def
    by (simp split: option.split)
  then show ?thesis by blast
qed

lemma finalizeFailed_split: "\<exists>u u0. silent (finalizeFailed i req err w) u \<and> silent u0 w \<and>
    u = snd (on_store (\<lambda>now. SetError now i (ClassifyError err) (error_message err)) u0)"
proof -
  let ?base = "(snd (read_clock w))\<lparr>oBreaker := recordFailure (fst (read_clock w)) (rSubsystem req)
     (ClassifyError err) (oBreaker (snd (read_clock w)))\<rparr>"
  let ?u = "snd (on_store (\<lambda>now. SetError now i (ClassifyError err) (error_message err)) ?base)"
  have "silent (finalizeFailed i req err w) ?u"
    unfolding finalizeFailed_def Let_def case_prod_beta
    by (simp split: option.split)
  moreover have "silent ?base w" by simp
  ultimately show ?thesis by blast
qed

lemma finalizeReady_status:
  "job_status (oStore (finalizeReady i req w)) k =
     (if k = i then map_option (\<lambda>u. if IsTerminal u then u else StatusReady) (job_status (oStore w) i)
      else job_status (oStore w) k)"
  using finalizeReady_split [of i req w]
  by (auto simp: silent_status on_store_snd status_SetStatus)

lemma finalizeCancelled_status:
  "job_status (oStore (finalizeCancelled i w)) k =
     (if k = i then map_option (\<lambda>u. if IsTerminal u then u else StatusCancelled) (job_status (oStore w) i)
      else job_status (oStore w) k)"
  using finalizeCancelled_split [of i w]
  by (auto simp: silent_status on_store_snd status_SetStatus)

lemma finalizeFailed_status:
  "job_status (oStore (finalizeFailed i req err w)) k =
     (if k = i then map_option (\<lambda>u. if IsTerminal u then u else StatusFailed) (job_status (oStore w) i)
      else job_status (oStore w) k)"
  using finalizeFailed_split [of i req err w]
  by (auto simp: silent_status on_store_snd status_SetError)

lemma finalize_core [simp]:
  "same_core (finalizeReady i req w) w" "same_core (finalizeCancelled i w) w"
  "same_core (finalizeFailed i req err w) w"
proof -
  show "same_core (finalizeReady i req w) w"
    using finalizeReady_split [of i req w] by (meson core_on_store same_core_trans silent_core)
  show "same_core (finalizeCancelled i w) w"
    using finalizeCancelled_split [of i w] by (meson core_on_store same_core_trans silent_core)
  show "same_core (finalizeFailed i req err w) w"
    using finalizeFailed_split [of i req err w] by (meson core_on_store same_core_trans silent_core)
qed

lemmas finalizer_status = finalizeReady_status finalizeCancelled_status finalizeFailed_status

section \<open>One active job per target key\<close>

definition active_key :: "MemStore \<Rightarrow> string \<Rightarrow> string option" where
  "active_key s i = (case ms_jobs s i of None \<Rightarrow> None
     | Some j \<Rightarrow> if IsActive (jStatus j) then Some (jTargetKey j) else None)"

definition unique_active :: "MemStore \<Rightarrow> bool" where
  "unique_active s \<longleftrightarrow> (\<forall>i k key. active_key s i = Some key \<longrightarrow> active_key s k = Some key \<longrightarrow> i = k)"

lemma unique_active_mono:
  assumes "unique_active s" and "\<And>i key. active_key s' i = Some key \<Longrightarrow> active_key s i = Some key"
  shows "unique_active s'"
  using assms unfolding unique_active_def by blast

lemma active_key_on_job:
  assumes "\<And>j. jTargetKey (f j) = jTargetKey j"
    and "\<And>j. IsActive (jStatus (f j)) \<Longrightarrow> IsActive (jStatus j)"
  shows "active_key (snd (on_job i f s)) k = Some key \<Longrightarrow> active_key s k = Some key"
  using assms by (auto simp: active_key_def on_job_jobs split: option.splits if_splits)

lemma active_key_attach [simp]:
  "active_key (snd (IncrementAttachedRequests now i s)) = active_key s"
  by (rule ext) (simp add: active_key_def IncrementAttachedRequests_def on_job_jobs split: option.split)

lemma active_key_silent: "silent v w \<Longrightarrow> active_key (oStore v) = active_key (oStore w)"
  by (rule ext) (simp add: active_key_def silent_jobs)

lemma active_key_SetError:
  "active_key (snd (SetError now i c m s)) k = Some key \<Longrightarrow> active_key s k = Some key"
  unfolding SetError_def
  by (rule active_key_on_job) (auto simp: frame_simps error_write_status active_not_terminal
      split: if_splits)

lemma active_key_finish:
  "IsTerminal st \<Longrightarrow> active_key (snd (SetStatus now i st s)) k = Some key \<Longrightarrow> active_key s k = Some key"
  unfolding SetStatus_def
  by (rule active_key_on_job)
    (auto simp: frame_simps status_write_status dest: active_not_terminal split: if_splits)

lemma GetActiveByTargetKey_None_active:
  assumes "enumerates (ms_jobs s) ks" and "GetActiveByTargetKey ks key s = None"
  shows "active_key s i \<noteq> Some key"
  using GetActiveByTargetKey_None [OF assms(1), of key] assms(2)
  by (auto simp: active_key_def split: option.split)

section \<open>Steps of Enqueue\<close>

lemma claim_loop_active: "active_key (oStore (snd (claim_loop n key i w))) = active_key (oStore w)"
proof (induction n arbitrary: w)
  case (Suc n)
  show ?case
    by (simp add: on_store_snd Let_def Suc.IH release_inflight_def split: option.split prod.split)
qed simp

lemma claim_loop_free:
  assumes "registry_peek key (oInflight w) = ([], False)"
  shows "claim_loop (Suc n) key i w = (None, w\<lparr>oInflight := (oInflight w)(key \<mapsto> i)\<rparr>)"
  using assms by (auto simp: registry_peek_def registry_claim_def split: option.splits if_splits)

lemma new_job_sel:
  "jID (fst (new_job i req w)) = i" "jTargetKey (fst (new_job i req w)) = rTargetKey req"
  "jStatus (fst (new_job i req w)) = StatusPending" "jPriority (fst (new_job i req w)) = rPriority req"
  "jAttachedRequests (fst (new_job i req w)) = 1" "jProcessID (fst (new_job i req w)) = oProcessID w"
  "jLLMProvider (fst (new_job i req w)) = rLLMProvider req"
  "jMaxAttempts (fst (new_job i req w)) =
     (if rMaxAttempts req \<le> 0 then rpMaxAttempts (cfgRetry (oCfg w)) else rMaxAttempts req)"
  "snd (new_job i req w) = w\<lparr>oTick := Suc (Suc (oTick w))\<rparr>"
  by (simp_all add: new_job_def read_clock_def Let_def)

text \<open>The two outcomes of the creation phase.\<close>

lemma Enqueue_create_exists:
  assumes "i = [] \<or> ms_jobs (oStore w) i \<noteq> None"
  obtains e w' where "Enqueue_create i req w = (Returned (Inl e), w')"
    and "ms_jobs (oStore w') = ms_jobs (oStore w)"
proof -
  obtain job w1 where nj: "new_job i req w = (job, w1)" by (cases "new_job i req w")
  with new_job_sel [of i req w] have sel: "jID job = i" "oStore w1 = oStore w" by auto
  with assms have "Create now (Some job) (oStore w) = (Inl (if i = [] then Errorf ''job id is required''
      else Errorf (''job '' @ i @ '' already exists'')), oStore w)" for now
    by (auto simp: Create_def)
  then have "fst (on_store (\<lambda>now. Create now (Some job)) w1) = Inl (if i = [] then Errorf ''job id is required''
      else Errorf (''job '' @ i @ '' already exists''))"
    and "oStore (snd (on_store (\<lambda>now. Create now (Some job)) w1)) = oStore w"
    using sel by (simp_all add: on_store_fst on_store_snd)
  then show thesis
    using that by (simp add: Enqueue_create_def nj case_prod_beta release_inflight_def)
qed

lemma Enqueue_create_fresh:
  assumes "i \<noteq> []" and "ms_jobs (oStore w) i = None"
  obtains job w' where "Enqueue_create i req w = (HandOff job req, w')"
    and "same_core w' w" and "ms_jobs (oStore w') = (ms_jobs (oStore w))(i \<mapsto> job)"
    and "\<exists>now. job = fill_defaults now (fst (new_job i req w))"
proof -
  obtain j0 w1 where nj: "new_job i req w = (j0, w1)" by (cases "new_job i req w")
  with new_job_sel [of i req w] have sel: "jID j0 = i" "w1 = w\<lparr>oTick := Suc (Suc (oTick w))\<rparr>" by auto
  let ?now = "oClock w (Suc (Suc (oTick w)))"
  let ?job = "fill_defaults ?now j0"
  let ?w2 = "snd (on_store (\<lambda>now. Create now (Some j0)) w1)"
  have cr: "Create ?now (Some j0) (oStore w) =
      (Inr ?job, (oStore w)\<lparr>ms_jobs := (ms_jobs (oStore w))(i \<mapsto> ?job)\<rparr>)"
    using assms sel by (simp add: Create_def Let_def)
  have w2: "fst (on_store (\<lambda>now. Create now (Some j0)) w1) = Inr ?job"
    "ms_jobs (oStore ?w2) = (ms_jobs (oStore w))(i \<mapsto> ?job)" "same_core ?w2 w"
    using cr sel by (simp_all add: on_store_fst on_store_snd same_core_def)
  let ?w4 = "snd (Enqueue_create i req w)"
  have "silent ?w4 ?w2" and hand: "fst (Enqueue_create i req w) = HandOff ?job req"
    using w2(1) by (simp_all add: Enqueue_create_def nj case_prod_beta Let_def)
  then have "same_core ?w4 w" "ms_jobs (oStore ?w4) = (ms_jobs (oStore w))(i \<mapsto> ?job)"
    using w2 by (auto simp: silent_jobs intro: same_core_trans silent_core)
  with hand show thesis
    using that [of ?job ?w4] nj by (auto simp: prod_eq_iff)
qed

lemma unique_active_create:
  assumes "unique_active (oStore w)" and "\<And>k. active_key (oStore w) k \<noteq> Some (rTargetKey req)"
  shows "unique_active (oStore (snd (Enqueue_create i req w)))"
proof (cases "i = [] \<or> ms_jobs (oStore w) i \<noteq> None")
  case True
  from Enqueue_create_exists [OF this] show ?thesis
    using assms(1) by (metis (no_types, lifting) active_key_def snd_conv unique_active_def)
next
  case False
  then obtain job w' where c: "Enqueue_create i req w = (HandOff job req, w')"
    and jobs: "ms_jobs (oStore w') = (ms_jobs (oStore w))(i \<mapsto> job)"
    and job: "\<exists>now. job = fill_defaults now (fst (new_job i req w))"
    using Enqueue_create_fresh [of i w req] by metis
  from job have "jTargetKey job = rTargetKey req" by (auto simp: new_job_sel)
  then have "active_key (oStore w') k = (if k = i then
      (if IsActive (jStatus job) then Some (rTargetKey req) else None) else active_key (oStore w) k)" for k
    by (simp add: active_key_def jobs)
  with assms c show ?thesis
    by (auto simp: unique_active_def split: if_splits)
qed

lemma unique_active_handoff:
  "unique_active (oStore w) \<Longrightarrow> unique_active (oStore (snd (Enqueue_handoff send job req w)))"
  by (auto simp: Enqueue_handoff_def Let_def push_queue_def on_store_snd release_inflight_def
      intro: unique_active_mono active_key_SetError split: JobPriority.split)

lemma unique_active_prepare:
  assumes "unique_active (oStore w)" and "enumerates (ms_jobs (oStore w)) ks"
  shows "unique_active (oStore (snd (Enqueue_prepare ks i rp w)))"
proof -
  have attach: "unique_active (snd (IncrementAttachedRequests now k (oStore w)))" for now k
    using assms(1) by (simp add: unique_active_def)
  have loop: "unique_active (oStore (snd (claim_loop n key k w)))" for n key k
    using assms(1) by (simp add: unique_active_def claim_loop_active)
  have create: "unique_active (oStore (snd (Enqueue_create i req w1)))"
    if "GetActiveByTargetKey ks (rTargetKey req) (oStore w) = None"
      "claim_loop 2 (rTargetKey req) i w = (None, w1)" for req w1
  proof (rule unique_active_create)
    show "unique_active (oStore w1)" using loop [of 2 "rTargetKey req" i] that(2) by simp
    show "active_key (oStore w1) k \<noteq> Some (rTargetKey req)" for k
      using GetActiveByTargetKey_None_active [OF assms(2) that(1)]
        claim_loop_active [of 2 "rTargetKey req" i w] that(2) by simp
  qed
  have "unique_active (oStore w1)"
    if "claim_loop 2 key i w = (r, w1)" for r w1 key
    using loop [of 2 key i] that by simp
  then show ?thesis
    using assms(1) attach create
    by (auto simp: Enqueue_prepare_def Let_def on_store_snd release_inflight_def
        split: prod.split option.split)
qed

lemma unique_active_Enqueue:
  assumes "unique_active (oStore w)" and "enumerates (ms_jobs (oStore w)) ks"
  shows "unique_active (oStore (snd (Enqueue ks i send rp w)))"
  using unique_active_prepare [OF assms, of i rp] unique_active_handoff
  by (auto simp: Enqueue_def split: prod.split enqueue_phase.split)

section \<open>Properties of Enqueue\<close>

definition demo_cfg :: Config where
  "demo_cfg = \<lparr>cfgMaxConcurrency = 3, cfgQueueCapacity = 128, cfgProgressDebounce = 500 * Millisecond,
     cfgRetry = DefaultRetryPolicy, cfgMetricsCapacity = 256, cfgComputeErrorThreshold = 3,
     cfgComputeCooldown = 20 * Second, cfgOnStaleJob = False, cfgOnJobFailed = False,
     cfgSkipStartupReconciliation = False, cfgDisableWorkers = False\<rparr>"

definition demo_orch :: "MemStore \<Rightarrow> orch" where
  "demo_orch s = fresh_orch s demo_cfg ''p'' (\<lambda>n. 63900000000 * Second + int n)"

definition demo_req :: EnqueueRequest where
  "demo_req = \<lparr>rSubsystem = SubsystemKnowledge, rJobType = ''cliff_notes'', rTargetKey = ''k'',
     rStrategy = [], rModel = [], rLLMProvider = ''ollama'', rPriority = PriorityMaintenance,
     rGenerationMode = [], rArtifactID = [], rRepoID = [], rTimeoutSec = 0, rMaxAttempts = 0,
     rRunWithContext = True, rRun = False\<rparr>"

lemma demo_orch_sel [simp]:
  "oStore (demo_orch s) = s" "oInflight (demo_orch s) = Map.empty" "oFinalizing (demo_orch s) = {}"
  "oCancelled (demo_orch s) = {}" "oRunCancels (demo_orch s) = {}" "oIntakePaused (demo_orch s) = False"
  "oStopped (demo_orch s) = False" "oDraining (demo_orch s) = False" "oCfg (demo_orch s) = demo_cfg"
  "oInteractiveQ (demo_orch s) = []" "oMaintenanceQ (demo_orch s) = []" "oPrewarmQ (demo_orch s) = []"
  "oProcessID (demo_orch s) = ''p''" "oLastLogSequence (demo_orch s) = Map.empty"
  "oClock (demo_orch s) = (\<lambda>n. 63900000000 * Second + int n)" "oTick (demo_orch s) = 0"
  by (simp_all add: demo_orch_def fresh_orch_def newInflightRegistry_def)

lemma demo_cfg_sel [simp]:
  "cfgQueueCapacity demo_cfg = 128" "cfgRetry demo_cfg = DefaultRetryPolicy"
  "cfgOnStaleJob demo_cfg = False" "cfgOnJobFailed demo_cfg = False"
  by (simp_all add: demo_cfg_def)

lemma demo_req_sel [simp]:
  "rTargetKey demo_req = ''k''" "rPriority demo_req = PriorityMaintenance" "rMaxAttempts demo_req = 0"
  "rLLMProvider demo_req = ''ollama''" "rSubsystem demo_req = SubsystemKnowledge"
  by (simp_all add: demo_req_def)

lemma demo_req_valid [simp]: "Validate (Some demo_req) = (None, Some demo_req)"
  by code_simp

lemma demo_provider [simp]: "TrimSpace ''ollama'' \<noteq> []"
  by code_simp

text \<open>
  fail closed on a missing provider. A valid request of an LLM-backed subsystem whose
  provider is blank is refused with \<open>ErrLLMProviderRequired\<close>, before any dedupe: no job is
  attached to, no key claimed, nothing stored or queued.
\<close>

theorem enqueue_requires_provider:
  assumes "Validate rp = (None, Some req)" and "isLLMBackedEnqueue req"
    and "TrimSpace (rLLMProvider req) = []"
  shows "\<exists>e. Enqueue ks i send rp w = (Returned (Inl e), w) \<and> errors_Is e ErrLLMProviderRequired"
  using assms by (simp add: Enqueue_def Enqueue_prepare_def provider_required_error_def errors_Is_def)

theorem enqueue_requires_provider_witness:
  "\<exists>e. Enqueue [''a''] ''b'' True (Some (demo_req\<lparr>rLLMProvider := ''  ''\<rparr>)) (demo_orch demo_store)
     = (Returned (Inl e), demo_orch demo_store) \<and> errors_Is e ErrLLMProviderRequired"
proof (rule enqueue_requires_provider)
  show "Validate (Some (demo_req\<lparr>rLLMProvider := ''  ''\<rparr>)) = (None, Some (demo_req\<lparr>rLLMProvider := ''  ''\<rparr>))"
    by code_simp
  show "isLLMBackedEnqueue (demo_req\<lparr>rLLMProvider := ''  ''\<rparr>)" by code_simp
  show "TrimSpace (rLLMProvider (demo_req\<lparr>rLLMProvider := ''  ''\<rparr>)) = []" by code_simp
qed

text \<open>
  C19: dedupe against the store. While some stored job with the request's target key is active,
  an undisturbed \<open>Enqueue\<close> creates nothing, whatever the registry says: it returns an active job with
  that key, counts the request on it, and leaves every other job, the queues, marks and switches
  alone. The registry keeps its claim of the key when it has one, as for every job this process
  enqueued, and otherwise, as after a restart, is filled in with the job's id.
\<close>

theorem enqueue_attaches_to_active_job:
  assumes valid: "Validate rp = (None, Some req)"
    and prov: "\<not> (isLLMBackedEnqueue req \<and> TrimSpace (rLLMProvider req) = [])"
    and wf: "wf_store (oStore w)" and ks: "enumerates (ms_jobs (oStore w)) ks"
    and act: "active_key (oStore w) k = Some (rTargetKey req)"
  shows "\<exists>j j' w'. Enqueue ks i send rp w = (Returned (Inr (Some j')), w')
    \<and> ms_jobs (oStore w) (jID j) = Some j \<and> active_key (oStore w) (jID j) = Some (rTargetKey req)
    \<and> ms_jobs (oStore w') = (ms_jobs (oStore w))(jID j \<mapsto> j')
    \<and> jID j' = jID j \<and> jStatus j' = jStatus j
    \<and> jAttachedRequests j' = wrap64 (max 1 (jAttachedRequests j) + 1)
    \<and> oInflight w' = (if snd (registry_peek (rTargetKey req) (oInflight w)) then oInflight w
                       else (oInflight w)(rTargetKey req \<mapsto> jID j))
    \<and> same_core (w'\<lparr>oInflight := oInflight w\<rparr>) w"
proof -
  have "GetActiveByTargetKey ks (rTargetKey req) (oStore w) \<noteq> None"
    using GetActiveByTargetKey_None_active [OF ks] act by blast
  then obtain j where j: "GetActiveByTargetKey ks (rTargetKey req) (oStore w) = Some j" by blast
  note found = GetActiveByTargetKey_Some [OF ks j]
  from found(1) wf have at: "ms_jobs (oStore w) (jID j) = Some j" and id: "jID j \<noteq> []"
    by (auto simp: wf_store_def wf_job_def)
  let ?t = "oClock w (oTick w)"
  let ?j' = "attach_write ?t j"
  let ?s = "snd (IncrementAttachedRequests ?t (jID j) (oStore w))"
  have s: "ms_jobs ?s = (ms_jobs (oStore w))(jID j \<mapsto> ?j')"
    using at by (auto simp: IncrementAttachedRequests_def on_job_jobs fun_eq_iff)
  let ?w' = "w\<lparr>oStore := ?s, oTick := Suc (oTick w),
     oInflight := snd (registry_claim (rTargetKey req) (jID j) (oInflight w))\<rparr>"
  have run: "Enqueue ks i send rp w = (Returned (Inr (Some ?j')), ?w')"
    using valid prov j s by (auto simp: Enqueue_def Enqueue_prepare_def on_store_snd GetByID_def Let_def)
  have reg: "snd (registry_claim (rTargetKey req) (jID j) (oInflight w))
      = (if snd (registry_peek (rTargetKey req) (oInflight w)) then oInflight w
         else (oInflight w)(rTargetKey req \<mapsto> jID j))"
    by (auto simp: registry_peek_def registry_claim_def split: option.splits)
  have "active_key (oStore w) (jID j) = Some (rTargetKey req)"
    using at found(2,3) by (simp add: active_key_def)
  moreover have "jAttachedRequests ?j' = wrap64 (max 1 (jAttachedRequests j) + 1)"
    by (auto simp: max_def)
  ultimately show ?thesis
    using at s reg by (intro exI [of _ j] exI [of _ ?j'] exI [of _ ?w'] conjI) (simp_all add: run same_core_def)
qed

theorem enqueue_attaches_to_active_job_witness:
  "\<exists>j' w'. Enqueue [''a''] ''b'' True (Some demo_req) ((demo_orch demo_store)\<lparr>oInflight := [''k'' \<mapsto> ''a'']\<rparr>)
     = (Returned (Inr (Some j')), w') \<and> jID j' = ''a''"
proof -
  let ?w = "(demo_orch demo_store)\<lparr>oInflight := [''k'' \<mapsto> ''a'']\<rparr>"
  have prov: "\<not> (isLLMBackedEnqueue demo_req \<and> TrimSpace (rLLMProvider demo_req) = [])" by simp
  have wf: "wf_store (oStore ?w)"
    by (simp add: wf_store_def wf_job_def clamp01_def)
  have ks: "enumerates (ms_jobs (oStore ?w)) [''a'']" by simp
  have act: "active_key (oStore ?w) ''a'' = Some (rTargetKey demo_req)"
    by (simp add: active_key_def)
  from enqueue_attaches_to_active_job [OF demo_req_valid prov wf ks act, of "''b''" True]
  obtain j j' w' where "Enqueue [''a''] ''b'' True (Some demo_req) ?w = (Returned (Inr (Some j')), w')"
    and "ms_jobs (oStore ?w) (jID j) = Some j" and "jID j' = jID j"
    by blast
  then show ?thesis by (auto split: if_splits)
qed

text \<open>
  C18: a new request is admitted exactly once. With no active job for the key, the key free,
  the intake open, a fresh id and room in its lane, an undisturbed \<open>Enqueue\<close> stores one pending job
  under the id (attempts defaulted, one attached request, stamped with the process), claims the
  key for it and appends it to the end of the lane of its priority. Every other job, every other
  key of the registry, the other lanes, the finalization claims, the cancellation marks and the
  switches are as before; what else it writes is the creation event and a log line.
\<close>

theorem enqueue_admits_new_job:
  assumes valid: "Validate rp = (None, Some req)"
    and prov: "\<not> (isLLMBackedEnqueue req \<and> TrimSpace (rLLMProvider req) = [])"
    and ks: "enumerates (ms_jobs (oStore w)) ks"
    and none: "\<forall>k. active_key (oStore w) k \<noteq> Some (rTargetKey req)"
    and free: "registry_peek (rTargetKey req) (oInflight w) = ([], False)"
    and opened: "\<not> oIntakePaused w" "\<not> oStopped w"
    and fresh: "i \<noteq> []" "ms_jobs (oStore w) i = None"
    and room: "int (length (queueFor (rPriority req) w)) < cfgQueueCapacity (oCfg w)"
  shows "\<exists>job w'. Enqueue ks i send rp w = (Returned (Inr (Some job)), w')
    \<and> ms_jobs (oStore w') = (ms_jobs (oStore w))(i \<mapsto> job)
    \<and> jID job = i \<and> jStatus job = StatusPending \<and> jTargetKey job = rTargetKey req
    \<and> jAttachedRequests job = 1 \<and> jProcessID job = oProcessID w
    \<and> jMaxAttempts job = (if rMaxAttempts req \<le> 0 then rpMaxAttempts (cfgRetry (oCfg w))
                          else rMaxAttempts req)
    \<and> oInflight w' = (oInflight w)(rTargetKey req \<mapsto> i)
    \<and> same_core (w'\<lparr>oInflight := oInflight w, oInteractiveQ := oInteractiveQ w, oMaintenanceQ := oMaintenanceQ w,
                       oPrewarmQ := oPrewarmQ w\<rparr>) w
    \<and> oInteractiveQ w' = oInteractiveQ w @
        (if rPriority req \<in> {PriorityMaintenance, PriorityPrewarm} then [] else [\<lparr>wiJobID = i, wiReq = req\<rparr>])
    \<and> oMaintenanceQ w' = oMaintenanceQ w @
        (if rPriority req = PriorityMaintenance then [\<lparr>wiJobID = i, wiReq = req\<rparr>] else [])
    \<and> oPrewarmQ w' = oPrewarmQ w @
        (if rPriority req = PriorityPrewarm then [\<lparr>wiJobID = i, wiReq = req\<rparr>] else [])"
proof -
  have g: "GetActiveByTargetKey ks (rTargetKey req) (oStore w) = None"
  proof (cases "GetActiveByTargetKey ks (rTargetKey req) (oStore w)")
    case (Some j)
    from GetActiveByTargetKey_Some(1) [OF ks Some] obtain k where "ms_jobs (oStore w) k = Some j"
      by blast
    with GetActiveByTargetKey_Some(2,3) [OF ks Some]
    have "active_key (oStore w) k = Some (rTargetKey req)" by (simp add: active_key_def)
    with none show ?thesis by blast
  qed
  let ?w1 = "w\<lparr>oInflight := (oInflight w)(rTargetKey req \<mapsto> i)\<rparr>"
  have loop: "claim_loop 2 (rTargetKey req) i w = (None, ?w1)"
    using claim_loop_free [OF free, of 1 i] by (simp add: numeral_2_eq_2)
  obtain job w2 where cr: "Enqueue_create i req ?w1 = (HandOff job req, w2)"
    and core: "same_core w2 ?w1" and jobs: "ms_jobs (oStore w2) = (ms_jobs (oStore w))(i \<mapsto> job)"
    and job: "\<exists>now. job = fill_defaults now (fst (new_job i req ?w1))"
    using Enqueue_create_fresh [of i ?w1 req] fresh by auto
  have queues: "queueFor p w2 = queueFor p w" for p
    using core by (auto simp: queueFor_def same_core_def split: JobPriority.split)
  have prep: "Enqueue_prepare ks i rp w = (HandOff job req, w2)"
    using valid prov g loop opened(1) cr by (auto simp: Enqueue_prepare_def)
  let ?item = "\<lparr>wiJobID = i, wiReq = req\<rparr>"
  let ?w' = "push_queue (rPriority req) ?item w2"
  have idj: "jID job = i" using job by (auto simp: new_job_sel)
  have run: "Enqueue ks i send rp w = (Returned (Inr (Some job)), ?w')"
    using prep room queues opened(2) core idj
    by (auto simp: Enqueue_def Enqueue_handoff_def same_core_def)
  have push: "oStore ?w' = oStore w2" "oInflight ?w' = oInflight w2"
    by (simp_all add: push_queue_def split: JobPriority.split)
  have lanes: "oInteractiveQ ?w' = oInteractiveQ w @
        (if rPriority req \<in> {PriorityMaintenance, PriorityPrewarm} then [] else [?item])"
    "oMaintenanceQ ?w' = oMaintenanceQ w @ (if rPriority req = PriorityMaintenance then [?item] else [])"
    "oPrewarmQ ?w' = oPrewarmQ w @ (if rPriority req = PriorityPrewarm then [?item] else [])"
    using core by (cases "rPriority req"; simp add: push_queue_def same_core_def)+
  have reg: "oInflight ?w' = (oInflight w)(rTargetKey req \<mapsto> i)"
    using core by (simp add: push same_core_def)
  have rest: "same_core (?w'\<lparr>oInflight := oInflight w, oInteractiveQ := oInteractiveQ w, oMaintenanceQ := oMaintenanceQ w,
      oPrewarmQ := oPrewarmQ w\<rparr>) w"
    using core by (cases "rPriority req") (simp_all add: push_queue_def same_core_def)
  show ?thesis
    using job run jobs push lanes reg rest
    by (intro exI [of _ job] exI [of _ ?w'] conjI) (auto simp: new_job_sel)
qed

theorem enqueue_admits_new_job_witness:
  "\<exists>job w'. Enqueue [] ''b'' True (Some demo_req) (demo_orch NewMemStore)
     = (Returned (Inr (Some job)), w') \<and> jMaxAttempts job = 2 \<and>
       oMaintenanceQ w' = [\<lparr>wiJobID = ''b'', wiReq = demo_req\<rparr>]"
  using enqueue_admits_new_job [of "Some demo_req" demo_req "demo_orch NewMemStore" "[]" "''b''" True]
  by (auto simp: NewMemStore_def active_key_def registry_peek_def queueFor_def DefaultRetryPolicy_def)

text \<open>
  The dedupe invariant of one undisturbed \<open>Enqueue\<close>; \<open>LLM_Enqueue\<close> has the interleaved one.
\<close>

lemma undisturbed_enqueue_keeps_active_jobs_unique:
  assumes "unique_active (oStore w)" and "enumerates (ms_jobs (oStore w)) ks"
  shows "unique_active (oStore (snd (Enqueue ks i send rp w)))"
  using assms by (rule unique_active_Enqueue)

end
