(* ===== verification/LLM_Lifecycle.thy ===== *)
theory LLM_Lifecycle
  imports LLM_Orchestrator
begin

text \<open>
  The rest of \<^verbatim>\<open>orchestrator.go\<close> that ends jobs or manages workers: \<^verbatim>\<open>Cancel\<close>, the reaper
  pass, the start-up reconciliation, the constructor, draining, and the size of the worker
  pool. The waiting loops around them (\<^verbatim>\<open>reaper\<close>, \<^verbatim>\<open>worker\<close>) repeat these steps.
\<close>

section \<open>Cancel and drain\<close>

definition Cancel :: "string \<Rightarrow> orch \<Rightarrow> go_error option \<times> orch" where
  "Cancel jobID w =
     (case GetByID jobID (oStore w) of None \<Rightarrow> (Some (Errorf ''job not found''), w)
      | Some job \<Rightarrow>
         if IsTerminal (jStatus job)
         then (Some (Errorf (''job is already '' @ status_string (jStatus job))), w)
         else
           (let w1 = w\<lparr>oCancelled := insert jobID (oCancelled w)\<rparr>
            in if jobID \<in> oRunCancels w1
               then (None, w1\<lparr>oCtxCancelled := insert jobID (oCtxCancelled w1)\<rparr>)
               else (case claimFinalization jobID w1 of
                   (False, w2) \<Rightarrow>
                     (Some (Errorf (''job '' @ jobID @ '' is being finalized by another path'')), w2)
                 | (True, w2) \<Rightarrow>
                     (None, finalizeCancelled jobID (release_inflight (jTargetKey job) w2)))))"

definition jobPriorityRank :: "JobPriority \<Rightarrow> int" where
  "jobPriorityRank p = (case p of PriorityInteractive \<Rightarrow> 0 | PriorityMaintenance \<Rightarrow> 1
     | PriorityPrewarm \<Rightarrow> 2 | PriorityOther _ \<Rightarrow> 3)"

definition PendingSnapshot :: "string list \<Rightarrow> ListFilter \<Rightarrow> orch \<Rightarrow> Job list" where
  "PendingSnapshot ks flt w =
     sort_key (\<lambda>j. jobPriorityRank (jPriority j))
       (sort_key jCreatedAt (ListActive ks (flt\<lparr>fStatuses := [StatusPending]\<rparr>) (oStore w)))"

fun drain_all :: "Job list \<Rightarrow> int \<Rightarrow> go_error option \<Rightarrow> orch \<Rightarrow> (int \<times> go_error option) \<times> orch" where
  "drain_all [] cancelled firstErr w = ((cancelled, firstErr), w)"
| "drain_all (job # jobs) cancelled firstErr w =
     (case Cancel (jID job) w of
        (Some e, w1) \<Rightarrow> drain_all jobs cancelled (if firstErr = None then Some e else firstErr) w1
      | (None, w1) \<Rightarrow> drain_all jobs (cancelled + 1) firstErr w1)"

definition DrainPending :: "string list \<Rightarrow> orch \<Rightarrow> (int \<times> go_error option) \<times> orch" where
  "DrainPending ks w = drain_all (PendingSnapshot ks no_filter w) 0 None w"

definition MarkDraining :: "bool \<Rightarrow> orch \<Rightarrow> orch" where
  "MarkDraining b w = w\<lparr>oDraining := b\<rparr>"

definition SetIntakePaused :: "bool \<Rightarrow> orch \<Rightarrow> orch" where
  "SetIntakePaused paused w = w\<lparr>oIntakePaused := paused\<rparr>"

text \<open>The state change of \<^verbatim>\<open>Shutdown\<close> and \<^verbatim>\<open>CancelAndWait\<close>; both then wait for the workers.\<close>

definition begin_shutdown :: "orch \<Rightarrow> orch" where
  "begin_shutdown w = w\<lparr>oDraining := True, oStopped := True\<rparr>"

section \<open>The reaper\<close>

definition staleGeneratingThreshold :: duration where
  "staleGeneratingThreshold = 10 * Minute"
definition staleGeneratingThresholdLivingWiki :: duration where
  "staleGeneratingThresholdLivingWiki = 30 * Minute"
definition stalePendingThreshold :: duration where
  "stalePendingThreshold = 45 * Minute"
definition heartbeatStaleThreshold :: duration where
  "heartbeatStaleThreshold = 5 * Minute"
definition reconcileStaleThreshold :: duration where
  "reconcileStaleThreshold = 90 * Second"

lemmas threshold_defs = staleGeneratingThreshold_def staleGeneratingThresholdLivingWiki_def
  stalePendingThreshold_def heartbeatStaleThreshold_def reconcileStaleThreshold_def duration_units

definition subsystemEmitsHeartbeats :: "Subsystem \<Rightarrow> bool" where
  "subsystemEmitsHeartbeats sub \<longleftrightarrow> subsystem_string sub = ''living_wiki''"

definition generatingThresholdFor :: "Job \<Rightarrow> duration \<times> string" where
  "generatingThresholdFor job =
     (if subsystemEmitsHeartbeats (jSubsystem job) then (heartbeatStaleThreshold, ''heartbeat_stale'')
      else if jSubsystem job = SubsystemLivingWiki
      then (staleGeneratingThresholdLivingWiki, ''living_wiki_wall'')
      else (staleGeneratingThreshold, ''generating_wall''))"

definition reap_threshold :: "duration \<Rightarrow> Job \<Rightarrow> duration" where
  "reap_threshold age job =
     (let t1 = fst (generatingThresholdFor job);
          t2 = (if jStatus job = StatusPending then stalePendingThreshold else t1)
      in if (jProgressPhase job = ''queued'' \<or> jProgressPhase job = ''backoff'')
            \<and> age < staleGeneratingThreshold
         then stalePendingThreshold else t2)"

definition reap_message :: "Job \<Rightarrow> duration \<Rightarrow> string" where
  "reap_message job age = ''Job reaped: stuck in '' @ status_string (jStatus job) @ '' for ''
     @ duration_String (Round_Second age)"

text \<open>
  The terminal writes shared by the reaper and the reconciliation, once the claim is held:
  the status, then the error; when a write fails the claim is given back and the in-flight
  key stays held, otherwise the key is released and the callbacks run.
\<close>

definition fail_claimed :: "Job \<Rightarrow> string \<Rightarrow> string \<Rightarrow> (orch \<Rightarrow> orch) \<Rightarrow> orch \<Rightarrow> orch" where
  "fail_claimed job code msg callbacks w =
     (case on_store (\<lambda>now. SetStatus now (jID job) StatusFailed) w of
        (Some e, w1) \<Rightarrow> releaseFinalization (jID job) w1
      | (None, w1) \<Rightarrow>
          (case on_store (\<lambda>now. SetError now (jID job) code msg) w1 of
             (Some e, w2) \<Rightarrow> releaseFinalization (jID job) w2
           | (None, w2) \<Rightarrow> callbacks (release_inflight (jTargetKey job) w2)))"

definition reap_one :: "time \<Rightarrow> Job \<Rightarrow> orch \<Rightarrow> orch" where
  "reap_one now job w =
     (if oDraining w \<and> jStatus job = StatusGenerating then w
      else
        (let age = time_Sub now (jUpdatedAt job)
         in if age < reap_threshold age job then w
            else (case claimFinalization (jID job) w of
                (False, w1) \<Rightarrow> w1
              | (True, w1) \<Rightarrow>
                  fail_claimed job ''DEADLINE_EXCEEDED'' (reap_message job age)
                    (\<lambda>v. on_job_failed job (on_stale_job job v))
                    (cancelActiveRun (jID job) w1))))"

definition reapStaleJobs :: "string list \<Rightarrow> orch \<Rightarrow> orch" where
  "reapStaleJobs ks w =
     (let active = ListActive ks no_filter (oStore w); (now, w1) = read_clock w
      in fold (reap_one now) active w1)"

section \<open>Start-up reconciliation\<close>

definition reconcile_one :: "time \<Rightarrow> Job \<Rightarrow> orch \<Rightarrow> orch" where
  "reconcile_one now job w =
     (if jProcessID job = oProcessID w then w
      else if time_Sub now (jUpdatedAt job) < reconcileStaleThreshold then w
      else (case claimFinalization (jID job) w of
          (False, w1) \<Rightarrow> w1
        | (True, w1) \<Rightarrow>
            fail_claimed job ''PROCESS_RESTART_RECONCILIATION''
              (''Job marked failed by orchestrator startup reconciliation: zombie from process_id=''
                 @ jProcessID job)
              (on_job_failed job) w1))"

definition reconcileZombieJobs :: "string list \<Rightarrow> orch \<Rightarrow> orch" where
  "reconcileZombieJobs ks w =
     (let active = ListActive ks no_filter (oStore w); (now, w1) = read_clock w
      in fold (reconcile_one now) active w1)"

section \<open>The worker pool\<close>

definition startWorkerLocked :: "orch \<Rightarrow> orch" where
  "startWorkerLocked w = w\<lparr>oNextWorkerID := oNextWorkerID w + 1, oActiveWorkers := oActiveWorkers w + 1\<rparr>"

definition worker_exit :: "orch \<Rightarrow> orch" where
  "worker_exit w = (if 0 < oActiveWorkers w then w\<lparr>oActiveWorkers := oActiveWorkers w - 1\<rparr> else w)"

definition shouldWorkerRetire :: "orch \<Rightarrow> bool \<times> orch" where
  "shouldWorkerRetire w =
     (if oRetiringWorkers w \<le> 0 then (False, w)
      else if oActiveWorkers w \<le> oConfiguredWorkers w then (False, w)
      else (True, w\<lparr>oRetiringWorkers := oRetiringWorkers w - 1\<rparr>))"

definition ReconfigureMaxConcurrency :: "int \<Rightarrow> orch \<Rightarrow> (int \<times> int) \<times> orch" where
  "ReconfigureMaxConcurrency m w =
     (let max1 = (if m \<le> 0 then 1 else m);
          old = (if oConfiguredWorkers w \<le> 0 then cfgMaxConcurrency (oCfg w) else oConfiguredWorkers w)
      in if old = max1 then ((old, max1), w)
         else
           (let w1 = w\<lparr>oConfiguredWorkers := max1, oCfg := (oCfg w)\<lparr>cfgMaxConcurrency := max1\<rparr>\<rparr>
            in if old < max1 then ((old, max1), (startWorkerLocked ^^ nat (max1 - old)) w1)
               else ((old, max1), w1\<lparr>oRetiringWorkers := oRetiringWorkers w1 + (old - max1)\<rparr>)))"

datatype dequeued = DStopped | DItem workItem | DWait

definition dequeue :: "orch \<Rightarrow> dequeued \<times> orch" where
  "dequeue w =
     (if oStopped w then (DStopped, w)
      else (case oInteractiveQ w of
          item # rest \<Rightarrow> (DItem item, w\<lparr>oInteractiveQ := rest\<rparr>)
        | [] \<Rightarrow> (case oMaintenanceQ w of
              item # rest \<Rightarrow> (DItem item, w\<lparr>oMaintenanceQ := rest\<rparr>)
            | [] \<Rightarrow> (case oPrewarmQ w of
                  item # rest \<Rightarrow> (DItem item, w\<lparr>oPrewarmQ := rest\<rparr>)
                | [] \<Rightarrow> (DWait, w)))))"

section \<open>The constructor\<close>

definition New_orchestrator ::
  "string list \<Rightarrow> MemStore \<Rightarrow> Config \<Rightarrow> string \<Rightarrow> (nat \<Rightarrow> time) \<Rightarrow> orch" where
  "New_orchestrator ks store cfg0 pid clock =
     (let cfg = withDefaults cfg0;
          w0 = fresh_orch store cfg pid clock;
          w1 = (if \<not> cfgSkipStartupReconciliation cfg then reconcileZombieJobs ks w0 else w0)
      in if \<not> cfgDisableWorkers cfg
         then (startWorkerLocked ^^ nat (cfgMaxConcurrency cfg)) w1 else w1)"

section \<open>Failing a claimed job\<close>

definition failed_as :: "string \<Rightarrow> string \<Rightarrow> Job \<Rightarrow> Job \<Rightarrow> bool" where
  "failed_as code msg j j' \<longleftrightarrow> jStatus j' = StatusFailed \<and> jErrorCode j' = code \<and> jErrorMessage j' = msg
     \<and> jID j' = jID j \<and> jTargetKey j' = jTargetKey j \<and> jCompletedAt j' \<noteq> None"

lemma fail_writes:
  assumes "IsActive (jStatus j)"
  shows "failed_as code msg j (error_write t2 code msg (status_write t1 StatusFailed j))"
  using assms by (auto simp: failed_as_def error_write_def status_write_def Let_def
      dest: active_not_terminal)

lemma store_on_store: "oStore (snd (on_store f w)) = snd (f (oClock w (oTick w)) (oStore w))"
  by (simp add: on_store_snd)

text \<open>A store call on a job that is there: it succeeds and replaces that job.\<close>

lemma on_store_job:
  assumes "ms_jobs (oStore w) i = Some j"
  obtains w' where "on_store (\<lambda>now. on_job i (f now)) w = (None, w')"
    and "ms_jobs (oStore w') = (ms_jobs (oStore w))(i \<mapsto> f (oClock w (oTick w)) j)"
    and "same_core w' w"
proof (rule that)
  let ?w' = "w\<lparr>oStore := snd (on_job i (f (oClock w (oTick w))) (oStore w)), oTick := Suc (oTick w)\<rparr>"
  show "on_store (\<lambda>now. on_job i (f now)) w = (None, ?w')"
    using assms by (simp add: on_store_pair on_job_error)
  show "ms_jobs (oStore ?w') = (ms_jobs (oStore w))(i \<mapsto> f (oClock w (oTick w)) j)"
    using assms by (simp add: on_job_upd)
  show "same_core ?w' w" by (simp add: same_core_def)
qed

lemma fail_claimed_effect:
  assumes "ms_jobs (oStore w) (jID j) = Some j" and "IsActive (jStatus j)"
    and cb: "\<And>v. silent (callbacks v) v"
  obtains j' where "ms_jobs (oStore (fail_claimed j code msg callbacks w)) = (ms_jobs (oStore w))(jID j \<mapsto> j')"
    and "failed_as code msg j j'"
    and "same_core (fail_claimed j code msg callbacks w) (release_inflight (jTargetKey j) w)"
proof -
  obtain w1 where ok1: "on_store (\<lambda>now. SetStatus now (jID j) StatusFailed) w = (None, w1)"
    and j1: "ms_jobs (oStore w1) = (ms_jobs (oStore w))(jID j \<mapsto> status_write (oClock w (oTick w)) StatusFailed j)"
    and c1: "same_core w1 w"
    using on_store_job [OF assms(1), where f = "\<lambda>now. status_write now StatusFailed"]
    by (auto simp: SetStatus_def [abs_def])
  have at1: "ms_jobs (oStore w1) (jID j) = Some (status_write (oClock w (oTick w)) StatusFailed j)"
    by (simp add: j1)
  obtain w2 where ok2: "on_store (\<lambda>now. SetError now (jID j) code msg) w1 = (None, w2)"
    and j2: "ms_jobs (oStore w2) = (ms_jobs (oStore w1))(jID j \<mapsto>
        error_write (oClock w1 (oTick w1)) code msg (status_write (oClock w (oTick w)) StatusFailed j))"
    and c2: "same_core w2 w1"
    using on_store_job [OF at1, where f = "\<lambda>now. error_write now code msg"]
    by (auto simp: SetError_def [abs_def])
  have f: "fail_claimed j code msg callbacks w = callbacks (release_inflight (jTargetKey j) w2)"
    by (simp add: fail_claimed_def ok1 ok2)
  have core: "same_core (release_inflight (jTargetKey j) w2) (release_inflight (jTargetKey j) w)"
    using same_core_trans [OF c2 c1] by (simp add: same_core_def release_inflight_def)
  show thesis
  proof
    show "ms_jobs (oStore (fail_claimed j code msg callbacks w)) = (ms_jobs (oStore w))(jID j \<mapsto>
        error_write (oClock w1 (oTick w1)) code msg (status_write (oClock w (oTick w)) StatusFailed j))"
      using silent_jobs [OF cb] by (simp add: f release_inflight_def j2 j1)
    show "failed_as code msg j
        (error_write (oClock w1 (oTick w1)) code msg (status_write (oClock w (oTick w)) StatusFailed j))"
      using assms(2) by (rule fail_writes)
    show "same_core (fail_claimed j code msg callbacks w) (release_inflight (jTargetKey j) w)"
      using silent_core [OF cb] core unfolding f by (rule same_core_trans)
  qed
qed

text \<open>
  The contract of a pass that fails the jobs that are due: the reaper and the start-up
  reconciliation are such passes. A pass goes over a snapshot of the active jobs; a job is
  failed when it is due and its finalization is not claimed yet.
\<close>

locale failing_pass =
  fixes due :: "Job \<Rightarrow> orch \<Rightarrow> bool"
    and code :: string
    and msg :: "Job \<Rightarrow> string"
    and prep :: "Job \<Rightarrow> orch \<Rightarrow> orch"
    and callbacks :: "Job \<Rightarrow> orch \<Rightarrow> orch"
    and step :: "Job \<Rightarrow> orch \<Rightarrow> orch"
  assumes due_cong: "oDraining v = oDraining w \<Longrightarrow> oProcessID v = oProcessID w \<Longrightarrow> due j v = due j w"
    and prep_frame: "oStore (prep j w) = oStore w" "oFinalizing (prep j w) = oFinalizing w"
      "oDraining (prep j w) = oDraining w" "oProcessID (prep j w) = oProcessID w"
    and callbacks_silent: "silent (callbacks j w) w"
    and step_eq: "step j w = (if due j w \<and> jID j \<notin> oFinalizing w
      then fail_claimed j code (msg j) (callbacks j)
             (prep j (w\<lparr>oFinalizing := insert (jID j) (oFinalizing w)\<rparr>))
      else w)"
begin

lemma step_effect:
  assumes "ms_jobs (oStore w) (jID j) = Some j" and "IsActive (jStatus j)"
  shows "oDraining (step j w) = oDraining w" and "oProcessID (step j w) = oProcessID w"
    and "oFinalizing (step j w) = (if due j w then insert (jID j) (oFinalizing w) else oFinalizing w)"
    and "i \<noteq> jID j \<or> \<not> due j w \<or> jID j \<in> oFinalizing w \<Longrightarrow>
      ms_jobs (oStore (step j w)) i = ms_jobs (oStore w) i"
    and "due j w \<Longrightarrow> jID j \<notin> oFinalizing w \<Longrightarrow>
      \<exists>j'. ms_jobs (oStore (step j w)) (jID j) = Some j' \<and> failed_as code (msg j) j j'"
proof -
  let ?p = "prep j (w\<lparr>oFinalizing := insert (jID j) (oFinalizing w)\<rparr>)"
  obtain j' where e: "ms_jobs (oStore (fail_claimed j code (msg j) (callbacks j) ?p)) =
      (ms_jobs (oStore ?p))(jID j \<mapsto> j')"
    "failed_as code (msg j) j j'"
    "same_core (fail_claimed j code (msg j) (callbacks j) ?p) (release_inflight (jTargetKey j) ?p)"
    by (rule fail_claimed_effect [of ?p j "callbacks j" code "msg j"])
      (use assms callbacks_silent in \<open>auto simp: prep_frame\<close>)
  note eff = e(1,2) same_coreD(2,10,13) [OF e(3)]
  show "oDraining (step j w) = oDraining w" "oProcessID (step j w) = oProcessID w"
    "oFinalizing (step j w) = (if due j w then insert (jID j) (oFinalizing w) else oFinalizing w)"
    using eff by (auto simp: step_eq release_inflight_def prep_frame)
  show "ms_jobs (oStore (step j w)) i = ms_jobs (oStore w) i"
    if "i \<noteq> jID j \<or> \<not> due j w \<or> jID j \<in> oFinalizing w"
    using that eff by (auto simp: step_eq prep_frame)
  show "\<exists>j'. ms_jobs (oStore (step j w)) (jID j) = Some j' \<and> failed_as code (msg j) j j'"
    if "due j w" "jID j \<notin> oFinalizing w"
    using that eff by (auto simp: step_eq prep_frame)
qed

lemma pass_effect:
  assumes "distinct (map jID jobs)"
    and "\<forall>j\<in>set jobs. ms_jobs (oStore w) (jID j) = Some j \<and> IsActive (jStatus j)"
  shows "(\<forall>j\<in>set jobs. due j w \<and> jID j \<notin> oFinalizing w \<longrightarrow>
       (\<exists>j'. ms_jobs (oStore (fold step jobs w)) (jID j) = Some j' \<and> failed_as code (msg j) j j'))
    \<and> (\<forall>i. (\<forall>j\<in>set jobs. jID j = i \<longrightarrow> \<not> due j w \<or> i \<in> oFinalizing w) \<longrightarrow>
       ms_jobs (oStore (fold step jobs w)) i = ms_jobs (oStore w) i)
    \<and> oFinalizing (fold step jobs w) = oFinalizing w \<union> jID ` {j \<in> set jobs. due j w}"
  using assms
proof (induction jobs arbitrary: w)
  case (Cons x xs)
  have x: "ms_jobs (oStore w) (jID x) = Some x" "IsActive (jStatus x)" and
    notin: "jID x \<notin> jID ` set xs" and xs: "distinct (map jID xs)"
    using Cons.prems by auto
  note s = step_effect [OF x]
  let ?w1 = "step x w"
  have due: "due j ?w1 = due j w" for j using s(1,2) by (rule due_cong)
  have jobs: "ms_jobs (oStore ?w1) (jID j) = ms_jobs (oStore w) (jID j)" if "j \<in> set xs" for j
    using s(4) [of "jID j"] that notin by (metis imageI)
  have "\<forall>j\<in>set xs. ms_jobs (oStore ?w1) (jID j) = Some j \<and> IsActive (jStatus j)"
    using jobs Cons.prems(2) by auto
  note IH = Cons.IH [OF xs this]
  have fin: "jID j \<in> oFinalizing ?w1 \<longleftrightarrow> jID j \<in> oFinalizing w" if "j \<in> set xs" for j
    using s(3) that notin by (auto simp: image_iff)
  have first: "ms_jobs (oStore (fold step xs ?w1)) (jID x) = ms_jobs (oStore ?w1) (jID x)"
    using IH notin by (metis image_eqI)
  show ?case
  proof (intro conjI ballI impI allI)
    fix j assume "j \<in> set (x # xs)" "due j w \<and> jID j \<notin> oFinalizing w"
    then show "\<exists>j'. ms_jobs (oStore (fold step (x # xs) w)) (jID j) = Some j' \<and> failed_as code (msg j) j j'"
      using s(5) first IH due fin by (cases "j = x") auto
  next
    fix i assume "\<forall>j\<in>set (x # xs). jID j = i \<longrightarrow> \<not> due j w \<or> i \<in> oFinalizing w"
    then have h: "\<forall>j\<in>set xs. jID j = i \<longrightarrow> \<not> due j ?w1 \<or> i \<in> oFinalizing ?w1"
      and g: "i \<noteq> jID x \<or> \<not> due x w \<or> jID x \<in> oFinalizing w"
      using due fin by auto
    from h IH have "ms_jobs (oStore (fold step xs ?w1)) i = ms_jobs (oStore ?w1) i" by blast
    with s(4) [OF g] show "ms_jobs (oStore (fold step (x # xs) w)) i = ms_jobs (oStore w) i" by simp
  next
    show "oFinalizing (fold step (x # xs) w) = oFinalizing w \<union> jID ` {j \<in> set (x # xs). due j w}"
      using IH s(3) due by auto
  qed
qed simp

end

section \<open>The two passes\<close>

lemma active_snapshot:
  assumes "wf_store s" and "enumerates (ms_jobs s) ks"
  shows "distinct (map jID (ListActive ks no_filter s))"
    and "j \<in> set (ListActive ks no_filter s) \<longleftrightarrow> ms_jobs s (jID j) = Some j \<and> IsActive (jStatus j)"
proof -
  have ids: "map jID (range_vals (ms_jobs s) xs) = filter (\<lambda>k. ms_jobs s k \<noteq> None) xs" for xs
    using assms(1) by (induction xs) (auto simp: wf_store_def split: option.split)
  have "distinct (map jID (range_vals (ms_jobs s) ks))"
    using assms(2) by (simp add: ids enumerates_def)
  then have "distinct (map jID (filter P (range_vals (ms_jobs s) ks)))" for P
    by (rule distinct_map_filter)
  then have "distinct (map jID (sort_key f (filter P (range_vals (ms_jobs s) ks))))" for f :: "Job \<Rightarrow> int" and P
    by (metis distinct_map distinct_sort set_sort)
  then show "distinct (map jID (ListActive ks no_filter s))"
    by (simp add: ListActive_def listLocked_def Let_def no_filter_def)
  show "j \<in> set (ListActive ks no_filter s) \<longleftrightarrow> ms_jobs s (jID j) = Some j \<and> IsActive (jStatus j)"
    using ListActive_no_filter [OF assms(2)] assms(1)
    by (auto simp: ran_def wf_store_def)
qed

definition reap_due :: "time \<Rightarrow> Job \<Rightarrow> orch \<Rightarrow> bool" where
  "reap_due now job w \<longleftrightarrow> \<not> (oDraining w \<and> jStatus job = StatusGenerating)
     \<and> reap_threshold (time_Sub now (jUpdatedAt job)) job \<le> time_Sub now (jUpdatedAt job)"

definition zombie :: "time \<Rightarrow> Job \<Rightarrow> orch \<Rightarrow> bool" where
  "zombie now job w \<longleftrightarrow> jProcessID job \<noteq> oProcessID w
     \<and> reconcileStaleThreshold \<le> time_Sub now (jUpdatedAt job)"

interpretation reaper: failing_pass "reap_due now" "''DEADLINE_EXCEEDED''"
  "\<lambda>j. reap_message j (time_Sub now (jUpdatedAt j))" "\<lambda>j. cancelActiveRun (jID j)"
  "\<lambda>j v. on_job_failed j (on_stale_job j v)" "reap_one now" for now
  by unfold_locales
    (auto simp add: reap_due_def cancelActiveRun_def reap_one_def Let_def claimFinalization_def not_less)

definition zombie_message :: "Job \<Rightarrow> string" where
  "zombie_message j = ''Job marked failed by orchestrator startup reconciliation: zombie from process_id=''
     @ jProcessID j"

interpretation reconciler: failing_pass "zombie now" "''PROCESS_RESTART_RECONCILIATION''"
  zombie_message "\<lambda>_ v. v" on_job_failed "reconcile_one now" for now
  by unfold_locales
    (auto simp add: zombie_def reconcile_one_def zombie_message_def claimFinalization_def not_less)

context failing_pass
begin

lemma pass_over_snapshot:
  assumes "wf_store (oStore w)" and "enumerates (ms_jobs (oStore w)) ks"
    and "oStore v = oStore w" "oFinalizing v = oFinalizing w" "oDraining v = oDraining w"
      "oProcessID v = oProcessID w"
  defines "w' \<equiv> fold step (ListActive ks no_filter (oStore w)) v"
  shows "ms_jobs (oStore w) i = None \<Longrightarrow> ms_jobs (oStore w') i = None"
    and "ms_jobs (oStore w) i = Some j \<Longrightarrow> IsActive (jStatus j) \<Longrightarrow> due j w \<Longrightarrow> i \<notin> oFinalizing w
      \<Longrightarrow> \<exists>j'. ms_jobs (oStore w') i = Some j' \<and> failed_as code (msg j) j j'"
    and "ms_jobs (oStore w) i = Some j \<Longrightarrow> \<not> (IsActive (jStatus j) \<and> due j w \<and> i \<notin> oFinalizing w)
      \<Longrightarrow> ms_jobs (oStore w') i = Some j"
    and "oFinalizing w' = oFinalizing w \<union>
      {i. \<exists>j. ms_jobs (oStore w) i = Some j \<and> IsActive (jStatus j) \<and> due j w}"
proof -
  note act = active_snapshot [OF assms(1,2)]
  have due: "due j v = due j w" for j using assms(5,6) by (rule due_cong)
  have ids: "jID j = i" if "ms_jobs (oStore w) i = Some j" for i j
    using assms(1) that by (auto simp: wf_store_def)
  have "\<forall>j\<in>set (ListActive ks no_filter (oStore w)). ms_jobs (oStore v) (jID j) = Some j \<and> IsActive (jStatus j)"
    using act(2) assms(3) by simp
  note P = pass_effect [OF act(1) this, unfolded due assms(3,4), folded w'_def]
  from P have P1: "\<exists>j'. ms_jobs (oStore w') (jID j) = Some j' \<and> failed_as code (msg j) j j'"
    if "j \<in> set (ListActive ks no_filter (oStore w))" "due j w" "jID j \<notin> oFinalizing w" for j
    using that by blast
  from P have P2: "ms_jobs (oStore w') i = ms_jobs (oStore w) i"
    if "\<And>j. j \<in> set (ListActive ks no_filter (oStore w)) \<Longrightarrow> jID j = i \<Longrightarrow> \<not> due j w \<or> i \<in> oFinalizing w"
    for i using that by blast
  from P have P3: "oFinalizing w' = oFinalizing w \<union>
      jID ` {j \<in> set (ListActive ks no_filter (oStore w)). due j w}" by blast
  show "ms_jobs (oStore w') i = None" if "ms_jobs (oStore w) i = None"
    using P2 [of i] act(2) that by simp
  show "\<exists>j'. ms_jobs (oStore w') i = Some j' \<and> failed_as code (msg j) j j'"
    if "ms_jobs (oStore w) i = Some j" "IsActive (jStatus j)" "due j w" "i \<notin> oFinalizing w"
    using P1 [of j] act(2) [of j] that ids [OF that(1)] by simp
  show "ms_jobs (oStore w') i = Some j"
    if "ms_jobs (oStore w) i = Some j" "\<not> (IsActive (jStatus j) \<and> due j w \<and> i \<notin> oFinalizing w)"
    using P2 [of i] act(2) that by auto
  show "oFinalizing w' = oFinalizing w \<union>
      {i. \<exists>j. ms_jobs (oStore w) i = Some j \<and> IsActive (jStatus j) \<and> due j w}"
  proof (rule set_eqI)
    fix x
    have "x \<in> jID ` {j \<in> set (ListActive ks no_filter (oStore w)). due j w} \<longleftrightarrow>
        (\<exists>j. ms_jobs (oStore w) x = Some j \<and> IsActive (jStatus j) \<and> due j w)"
      using act(2) ids [of x] by (auto simp: image_iff)
    then show "x \<in> oFinalizing w' \<longleftrightarrow> x \<in> oFinalizing w \<union>
        {i. \<exists>j. ms_jobs (oStore w) i = Some j \<and> IsActive (jStatus j) \<and> due j w}"
      unfolding P3 by simp
  qed
qed

end

section \<open>Properties of the two passes\<close>

text \<open>
  C20: what one reaper pass does, over a well-formed store. With \<open>now\<close> the reading taken after
  the snapshot: an active job that is over its threshold (and not protected by a drain) whose
  finalization nobody holds ends Failed with code \<open>DEADLINE_EXCEEDED\<close>; every other job keeps
  its record untouched; and exactly the jobs over their threshold are claimed afterwards.
\<close>

theorem reaper_fails_exactly_the_stale:
  assumes "wf_store (oStore w)" and "enumerates (ms_jobs (oStore w)) ks"
  defines "now \<equiv> oClock w (oTick w)" and "w' \<equiv> reapStaleJobs ks w"
  shows "(case ms_jobs (oStore w) i of
       None \<Rightarrow> ms_jobs (oStore w') i = None
     | Some j \<Rightarrow>
         if IsActive (jStatus j) \<and> reap_due now j w \<and> i \<notin> oFinalizing w
         then \<exists>j'. ms_jobs (oStore w') i = Some j'
                \<and> failed_as ''DEADLINE_EXCEEDED'' (reap_message j (time_Sub now (jUpdatedAt j))) j j'
         else ms_jobs (oStore w') i = Some j)
    \<and> oFinalizing w' = oFinalizing w \<union>
        {k. \<exists>j. ms_jobs (oStore w) k = Some j \<and> IsActive (jStatus j) \<and> reap_due now j w}"
proof -
  have w': "w' = fold (reap_one now) (ListActive ks no_filter (oStore w)) (snd (read_clock w))"
    by (simp add: w'_def reapStaleJobs_def now_def read_clock_def)
  have v: "oStore (snd (read_clock w)) = oStore w" "oFinalizing (snd (read_clock w)) = oFinalizing w"
    "oDraining (snd (read_clock w)) = oDraining w" "oProcessID (snd (read_clock w)) = oProcessID w"
    by simp_all
  note P = reaper.pass_over_snapshot [where now = now, OF assms(1,2) v, folded w']
  show ?thesis
    using P(1,2,3) [of i] P(4) by (auto split: option.split)
qed

theorem reaper_fails_exactly_the_stale_witness:
  "job_status (oStore (reapStaleJobs [''a''] (demo_orch demo_store))) ''a'' = Some StatusFailed"
proof -
  have wf: "wf_store (oStore (demo_orch demo_store))"
    by (simp add: wf_store_def wf_job_def clamp01_def)
  have ks: "enumerates (ms_jobs (oStore (demo_orch demo_store))) [''a'']" by simp
  have "reap_due (oClock (demo_orch demo_store) (oTick (demo_orch demo_store))) demo_job (demo_orch demo_store)"
    by (simp add: reap_due_def) code_simp
  with reaper_fails_exactly_the_stale [OF wf ks, of "''a''"] show ?thesis
    by (auto simp: job_status_def failed_as_def split: if_splits)
qed


text \<open>
  start-up reconciliation. Over a well-formed job table the constructor fails, with
  \<open>PROCESS_RESTART_RECONCILIATION\<close>, exactly the active jobs that another process owned and
  that were not updated for 90 seconds; it leaves every other record as it was, and starts
  as many workers as are configured.
\<close>

theorem startup_fails_exactly_the_zombies:
  assumes "wf_store s" and "enumerates (ms_jobs s) ks"
    and "\<not> cfgSkipStartupReconciliation cfg" and "\<not> cfgDisableWorkers cfg"
  shows "(case ms_jobs s i of
       None \<Rightarrow> ms_jobs (oStore (New_orchestrator ks s cfg pid clock)) i = None
     | Some j \<Rightarrow>
         if IsActive (jStatus j) \<and> jProcessID j \<noteq> pid
            \<and> 90 * Second \<le> time_Sub (clock 0) (jUpdatedAt j)
         then \<exists>j'. ms_jobs (oStore (New_orchestrator ks s cfg pid clock)) i = Some j'
                \<and> failed_as ''PROCESS_RESTART_RECONCILIATION'' (zombie_message j) j j'
         else ms_jobs (oStore (New_orchestrator ks s cfg pid clock)) i = Some j)
    \<and> oActiveWorkers (New_orchestrator ks s cfg pid clock) = cfgMaxConcurrency (withDefaults cfg)"
proof -
  let ?w = "fresh_orch s (withDefaults cfg) pid clock"
  let ?r = "reconcileZombieJobs ks ?w"
  have flags: "\<not> cfgSkipStartupReconciliation (withDefaults cfg)" "\<not> cfgDisableWorkers (withDefaults cfg)"
    "0 < cfgMaxConcurrency (withDefaults cfg)"
    using assms(3,4) by (simp_all add: withDefaults_def Let_def)
  have start: "oStore ((startWorkerLocked ^^ n) v) = oStore v"
    "oActiveWorkers ((startWorkerLocked ^^ n) v) = oActiveWorkers v + int n" for n v
    by (induction n) (simp_all add: startWorkerLocked_def)
  have active: "oActiveWorkers ?r = 0"
  proof -
    have "oActiveWorkers (reconcile_one now j v) = oActiveWorkers v" for now j v
      by (simp add: reconcile_one_def claimFinalization_def fail_claimed_def on_store_pair
          releaseFinalization_def release_inflight_def on_job_failed_def split: option.split)
    then have "oActiveWorkers (fold (reconcile_one now) js v) = oActiveWorkers v" for now js v
      by (induction js arbitrary: v) simp_all
    then show ?thesis by (simp add: reconcileZombieJobs_def case_prod_beta fresh_orch_def)
  qed
  have w: "oStore ?w = s" "oProcessID ?w = pid" "oFinalizing ?w = {}" "oClock ?w 0 = clock 0" "oTick ?w = 0"
    by (simp_all add: fresh_orch_def)
  have v: "oStore (snd (read_clock ?w)) = oStore ?w" "oFinalizing (snd (read_clock ?w)) = oFinalizing ?w"
    "oDraining (snd (read_clock ?w)) = oDraining ?w" "oProcessID (snd (read_clock ?w)) = oProcessID ?w"
    by simp_all
  have rec: "?r = fold (reconcile_one (clock 0)) (ListActive ks no_filter (oStore ?w)) (snd (read_clock ?w))"
    by (simp add: reconcileZombieJobs_def read_clock_def w)
  have new: "oStore (New_orchestrator ks s cfg pid clock) = oStore ?r"
    "oActiveWorkers (New_orchestrator ks s cfg pid clock) = cfgMaxConcurrency (withDefaults cfg)"
    using flags by (simp_all add: New_orchestrator_def Let_def start active)
  have z: "zombie (clock 0) j ?w \<longleftrightarrow> jProcessID j \<noteq> pid \<and> 90 * Second \<le> time_Sub (clock 0) (jUpdatedAt j)" for j
    by (simp add: zombie_def w reconcileStaleThreshold_def)
  note P = reconciler.pass_over_snapshot [where now = "clock 0" and w = ?w, unfolded w, OF assms(1,2),
      OF v [unfolded w], folded rec [unfolded w]]
  show ?thesis
    using P(1,2,3) [of i] by (auto simp: new z split: option.split)
qed

theorem startup_fails_exactly_the_zombies_witness:
  "job_status (oStore (New_orchestrator [''a''] demo_store demo_cfg ''p'' (\<lambda>n. 200 * Second + int n))) ''a''
     = Some StatusFailed"
proof -
  have wf: "wf_store demo_store" by (simp add: wf_store_def wf_job_def clamp01_def)
  have ks: "enumerates (ms_jobs demo_store) [''a'']" by simp
  have cfg: "\<not> cfgSkipStartupReconciliation demo_cfg" "\<not> cfgDisableWorkers demo_cfg"
    by (simp_all add: demo_cfg_def)
  have "90 * Second \<le> time_Sub (200 * Second + int 0) 1"
    by code_simp
  with startup_fails_exactly_the_zombies [where i = "''a''" and pid = "''p''" and clock = "\<lambda>n. 200 * Second + int n", OF wf ks cfg]
  show ?thesis by (auto simp: job_status_def failed_as_def)
qed

text \<open>
  the reaper's patience. A job that waits in phase \<open>queued\<close> or \<open>backoff\<close> and was updated
  within the last ten minutes has 45 minutes; once it is silent for ten minutes the extension
  is gone, so a zombie left in such a phase is due like any other: after ten minutes while
  generating, or after five when its subsystem heartbeats. The threshold never exceeds 45 minutes.
\<close>

theorem reap_threshold_cases:
  "reap_threshold age j \<le> 45 * Minute
   \<and> reap_threshold age j =
      (if jStatus j = StatusPending \<or> (age < 10 * Minute \<and> jProgressPhase j \<in> {''queued'', ''backoff''})
       then 45 * Minute
       else if subsystem_string (jSubsystem j) = ''living_wiki'' then 5 * Minute
       else 10 * Minute)"
  by (cases "jSubsystem j") (auto simp: reap_threshold_def generatingThresholdFor_def
      subsystemEmitsHeartbeats_def threshold_defs Let_def)

section \<open>The blocking select of \<^verbatim>\<open>dequeue\<close>\<close>

text \<open>
  When no lane has an item at the three polls, \<^verbatim>\<open>dequeue\<close> blocks in one \<^verbatim>\<open>select\<close> over the lanes
  and the shutdown. Whichever case is ready may be taken; \<open>pick\<close> is that choice.
\<close>

datatype ready = ReadyInteractive | ReadyMaintenance | ReadyPrewarm | ReadyDone

definition dequeue_blocked :: "ready \<Rightarrow> orch \<Rightarrow> dequeued \<times> orch" where
  "dequeue_blocked pick w = (case pick of
       ReadyInteractive \<Rightarrow> (case oInteractiveQ w of [] \<Rightarrow> (DWait, w)
         | item # rest \<Rightarrow> (DItem item, w\<lparr>oInteractiveQ := rest\<rparr>))
     | ReadyMaintenance \<Rightarrow> (case oMaintenanceQ w of [] \<Rightarrow> (DWait, w)
         | item # rest \<Rightarrow> (DItem item, w\<lparr>oMaintenanceQ := rest\<rparr>))
     | ReadyPrewarm \<Rightarrow> (case oPrewarmQ w of [] \<Rightarrow> (DWait, w)
         | item # rest \<Rightarrow> (DItem item, w\<lparr>oPrewarmQ := rest\<rparr>))
     | ReadyDone \<Rightarrow> (if oStopped w then (DStopped, w) else (DWait, w)))"

section \<open>The lanes as one priority queue\<close>

definition lanes :: "orch \<Rightarrow> workItem list" where
  "lanes w = oInteractiveQ w @ oMaintenanceQ w @ oPrewarmQ w"

fun lane_rank :: "JobPriority \<Rightarrow> int" where
  "lane_rank PriorityMaintenance = 1"
| "lane_rank PriorityPrewarm = 2"
| "lane_rank _ = 0"

text \<open>The items a single worker gets from \<open>n\<close> polls.\<close>

fun serve :: "nat \<Rightarrow> orch \<Rightarrow> workItem list" where
  "serve 0 w = []"
| "serve (Suc n) w = (case dequeue w of (DItem item, w1) \<Rightarrow> item # serve n w1 | _ \<Rightarrow> [])"

lemma dequeue_item:
  assumes "\<not> oStopped w" and "lanes w = item # rest"
  obtains w' where "dequeue w = (DItem item, w')" and "lanes w' = rest" and "\<not> oStopped w'"
proof (cases "oInteractiveQ w")
  case Cons
  then show thesis using assms that by (simp add: dequeue_def lanes_def)
next
  case i: Nil
  show thesis
  proof (cases "oMaintenanceQ w")
    case Cons
    then show thesis using assms that i by (simp add: dequeue_def lanes_def)
  next
    case Nil
    then show thesis using assms that i by (simp add: dequeue_def lanes_def)
  qed
qed

lemma serve_lanes: "\<not> oStopped w \<Longrightarrow> length (lanes w) \<le> n \<Longrightarrow> serve n w = lanes w"
proof (induction n arbitrary: w)
  case (Suc n)
  show ?case
  proof (cases "lanes w")
    case Nil
    with Suc.prems show ?thesis by (auto simp: dequeue_def lanes_def)
  next
    case (Cons item rest)
    then obtain w' where "dequeue w = (DItem item, w')" "lanes w' = rest" "\<not> oStopped w'"
      using dequeue_item [OF Suc.prems(1)] by blast
    with Suc Cons show ?thesis by simp
  qed
qed simp

definition push_all :: "(JobPriority \<times> workItem) list \<Rightarrow> orch \<Rightarrow> orch" where
  "push_all ps w = fold (\<lambda>(p, item). push_queue p item) ps w"

lemma push_all_lanes:
  "oInteractiveQ (push_all ps w) = oInteractiveQ w @ map snd (filter (\<lambda>x. lane_rank (fst x) = 0) ps)"
  "oMaintenanceQ (push_all ps w) = oMaintenanceQ w @ map snd (filter (\<lambda>x. lane_rank (fst x) = 1) ps)"
  "oPrewarmQ (push_all ps w) = oPrewarmQ w @ map snd (filter (\<lambda>x. lane_rank (fst x) = 2) ps)"
  "oStopped (push_all ps w) = oStopped w"
proof (induction ps arbitrary: w)
  case (Cons x ps)
  obtain p item where x: "x = (p, item)" by (cases x)
  have step: "push_all ((q, item) # ps) v = push_all ps (push_queue q item v)" for q v
    by (simp add: push_all_def)
  {
    case 1 show ?case by (cases p) (simp_all add: step Cons.IH x push_queue_def)
  next
    case 2 show ?case by (cases p) (simp_all add: step Cons.IH x push_queue_def)
  next
    case 3 show ?case by (cases p) (simp_all add: step Cons.IH x push_queue_def)
  next
    case 4 show ?case by (cases p) (simp_all add: step Cons.IH x push_queue_def)
  }
qed (simp_all add: push_all_def)

lemma lane_rank_cases: "lane_rank p = 0 \<or> lane_rank p = 1 \<or> lane_rank p = 2"
  by (cases p) simp_all

lemma sort_by_lane:
  fixes ps :: "(JobPriority \<times> workItem) list"
  shows "sort_key (\<lambda>x. lane_rank (fst x)) ps = filter (\<lambda>x. lane_rank (fst x) = 0) ps
     @ filter (\<lambda>x. lane_rank (fst x) = 1) ps @ filter (\<lambda>x. lane_rank (fst x) = 2) ps"
proof (induction ps)
  case (Cons x ps)
  have skip: "insort_key f a (xs @ ys) = xs @ insort_key f a ys" if "\<forall>y\<in>set xs. f y < f a"
    for f :: "(JobPriority \<times> workItem) \<Rightarrow> int" and a xs ys
    using that by (induction xs) auto
  have front: "insort_key f a ys = a # ys" if "\<forall>y\<in>set ys. f a \<le> f y"
    for f :: "(JobPriority \<times> workItem) \<Rightarrow> int" and a ys
    using that by (rule insort_is_Cons)
  let ?f = "\<lambda>x. lane_rank (fst x)"
  let ?q0 = "filter (\<lambda>x. ?f x = 0) ps" and ?qm = "filter (\<lambda>x. ?f x = 1) ps"
    and ?qp = "filter (\<lambda>x. ?f x = 2) ps"
  have "insort_key ?f x (?q0 @ ?qm @ ?qp) = x # ?q0 @ ?qm @ ?qp" if "?f x = 0"
    using that by (intro front) auto
  moreover have "insort_key ?f x (?qm @ ?qp) = x # ?qm @ ?qp" if "?f x = 1"
    using that by (intro front) auto
  moreover have "insort_key ?f x ?qp = x # ?qp" if "?f x = 2"
    using that by (intro front) auto
  ultimately show ?case
    using lane_rank_cases [of "fst x"] by (elim disjE) (simp_all add: Cons.IH skip)
qed simp

text \<open>
  C27: the three lanes are one stable priority queue. Items sent to the empty lanes of a running
  orchestrator and taken back by polling come out sorted by lane (interactive first,
  then maintenance, then prewarm), in order of arrival within a lane, none lost or repeated.
\<close>

theorem lanes_are_a_stable_priority_queue:
  assumes "\<not> oStopped w" and "lanes w = []"
  shows "serve (length ps) (push_all ps w) = map snd (sort_key (\<lambda>x. lane_rank (fst x)) ps)"
proof -
  from assms(2) have "oInteractiveQ w = []" "oMaintenanceQ w = []" "oPrewarmQ w = []"
    by (simp_all add: lanes_def)
  then have l: "lanes (push_all ps w) = map snd (sort_key (\<lambda>x. lane_rank (fst x)) ps)"
    by (simp add: lanes_def push_all_lanes sort_by_lane)
  then show ?thesis
    using serve_lanes [of "push_all ps w" "length ps"] assms(1) by (simp add: push_all_lanes)
qed

theorem lanes_are_a_stable_priority_queue_witness:
  "serve 3 (push_all [(PriorityPrewarm, \<lparr>wiJobID = ''x'', wiReq = demo_req\<rparr>),
       (PriorityMaintenance, \<lparr>wiJobID = ''y'', wiReq = demo_req\<rparr>),
       (PriorityInteractive, \<lparr>wiJobID = ''z'', wiReq = demo_req\<rparr>)] (demo_orch NewMemStore))
   = [\<lparr>wiJobID = ''z'', wiReq = demo_req\<rparr>, \<lparr>wiJobID = ''y'', wiReq = demo_req\<rparr>,
      \<lparr>wiJobID = ''x'', wiReq = demo_req\<rparr>]"
  using lanes_are_a_stable_priority_queue [of "demo_orch NewMemStore"
      "[(PriorityPrewarm, \<lparr>wiJobID = ''x'', wiReq = demo_req\<rparr>),
       (PriorityMaintenance, \<lparr>wiJobID = ''y'', wiReq = demo_req\<rparr>),
       (PriorityInteractive, \<lparr>wiJobID = ''z'', wiReq = demo_req\<rparr>)]"]
  by (simp add: lanes_def eval_nat_numeral)

section \<open>Cancelling\<close>

lemma finalizeCancelled_other_jobs:
  "k \<noteq> i \<Longrightarrow> ms_jobs (oStore (finalizeCancelled i w)) k = ms_jobs (oStore w) k"
  using finalizeCancelled_split [of i w]
  by (auto simp: on_store_snd SetStatus_def on_job_jobs dest: silent_jobs)

text \<open>Cancelling a job that is neither running, claimed nor terminal.\<close>

lemma Cancel_idle:
  assumes "ms_jobs (oStore w) i = Some j" and "\<not> IsTerminal (jStatus j)"
    and "i \<notin> oRunCancels w" and "i \<notin> oFinalizing w"
  obtains w' where "Cancel i w = (None, w')"
    and "\<And>k. job_status (oStore w') k = (if k = i then Some StatusCancelled else job_status (oStore w) k)"
    and "\<And>k. k \<noteq> i \<Longrightarrow> ms_jobs (oStore w') k = ms_jobs (oStore w) k"
    and "oFinalizing w' = insert i (oFinalizing w)"
    and "oInflight w' = registry_release (jTargetKey j) (oInflight w)"
    and "oRunCancels w' = oRunCancels w"
proof -
  let ?v = "release_inflight (jTargetKey j)
    (w\<lparr>oCancelled := insert i (oCancelled w), oFinalizing := insert i (oFinalizing w)\<rparr>)"
  let ?w' = "finalizeCancelled i ?v"
  note core = same_coreD(1,2,4) [OF finalize_core(2), of i ?v]
  have st: "job_status (oStore w) i = Some (jStatus j)" using assms(1) by (simp add: job_status_def)
  show thesis
  proof (rule that)
    show "Cancel i w = (None, ?w')"
      using assms by (simp add: Cancel_def GetByID_def claimFinalization_def Let_def)
    show "job_status (oStore ?w') k = (if k = i then Some StatusCancelled else job_status (oStore w) k)" for k
      using st assms(2) by (simp add: finalizeCancelled_status release_inflight_def)
    show "ms_jobs (oStore ?w') k = ms_jobs (oStore w) k" if "k \<noteq> i" for k
      using finalizeCancelled_other_jobs [OF that] by (simp add: release_inflight_def)
    show "oFinalizing ?w' = insert i (oFinalizing w)" "oRunCancels ?w' = oRunCancels w"
      "oInflight ?w' = registry_release (jTargetKey j) (oInflight w)"
      using core by (simp_all add: release_inflight_def)
  qed
qed

lemma drain_all_idle:
  assumes "distinct (map jID jobs)"
    and "\<forall>j\<in>set jobs. (\<exists>j'. ms_jobs (oStore w) (jID j) = Some j' \<and> \<not> IsTerminal (jStatus j'))
           \<and> jID j \<notin> oRunCancels w \<and> jID j \<notin> oFinalizing w"
  shows "\<exists>w'. drain_all jobs c e w = ((c + int (length jobs), e), w')
    \<and> (\<forall>k. job_status (oStore w') k =
         (if k \<in> jID ` set jobs then Some StatusCancelled else job_status (oStore w) k))
    \<and> (\<forall>k. k \<notin> jID ` set jobs \<longrightarrow> ms_jobs (oStore w') k = ms_jobs (oStore w) k)"
  using assms
proof (induction jobs arbitrary: c w)
  case (Cons x xs)
  obtain j where "ms_jobs (oStore w) (jID x) = Some j" "\<not> IsTerminal (jStatus j)"
    "jID x \<notin> oRunCancels w" "jID x \<notin> oFinalizing w" using Cons.prems(2) by auto
  from Cancel_idle [OF this] obtain w1 where c: "Cancel (jID x) w = (None, w1)"
    and st: "\<And>k. job_status (oStore w1) k = (if k = jID x then Some StatusCancelled else job_status (oStore w) k)"
    and jobs: "\<And>k. k \<noteq> jID x \<Longrightarrow> ms_jobs (oStore w1) k = ms_jobs (oStore w) k"
    and fr: "oFinalizing w1 = insert (jID x) (oFinalizing w)" "oRunCancels w1 = oRunCancels w"
    by metis
  have x: "jID x \<notin> jID ` set xs" and d: "distinct (map jID xs)" using Cons.prems(1) by auto
  have "\<forall>j\<in>set xs. (\<exists>j'. ms_jobs (oStore w1) (jID j) = Some j' \<and> \<not> IsTerminal (jStatus j'))
           \<and> jID j \<notin> oRunCancels w1 \<and> jID j \<notin> oFinalizing w1"
  proof
    fix y assume y: "y \<in> set xs"
    then have "jID y \<noteq> jID x" using x by (metis imageI)
    then show "(\<exists>j'. ms_jobs (oStore w1) (jID y) = Some j' \<and> \<not> IsTerminal (jStatus j'))
           \<and> jID y \<notin> oRunCancels w1 \<and> jID y \<notin> oFinalizing w1"
      using Cons.prems(2) y by (auto simp: jobs fr)
  qed
  from Cons.IH [OF d this, of "c + 1"] obtain w' where
    w': "drain_all xs (c + 1) e w1 = ((c + 1 + int (length xs), e), w')"
    "\<forall>k. job_status (oStore w') k =
         (if k \<in> jID ` set xs then Some StatusCancelled else job_status (oStore w1) k)"
    "\<forall>k. k \<notin> jID ` set xs \<longrightarrow> ms_jobs (oStore w') k = ms_jobs (oStore w1) k"
    by blast
  have "drain_all (x # xs) c e w = ((c + int (length (x # xs)), e), w')"
    using w'(1) c by (simp add: add.assoc)
  moreover have "\<forall>k. job_status (oStore w') k =
         (if k \<in> jID ` set (x # xs) then Some StatusCancelled else job_status (oStore w) k)"
    using w'(2) st by simp
  moreover have "\<forall>k. k \<notin> jID ` set (x # xs) \<longrightarrow> ms_jobs (oStore w') k = ms_jobs (oStore w) k"
    using w'(3) jobs by auto
  ultimately show ?case by blast
qed simp

text \<open>
  C24: the outcomes of \<open>Cancel\<close>. An unknown or already terminal job is refused and nothing
  changes. A running job is only marked and its context cancelled: the run itself must end it.
  A job whose finalization another path holds is refused. Any other job, pending
  or generating without a run, becomes Cancelled at once: its finalization is claimed, its
  key released, and no other record changes.
\<close>

theorem cancel_outcomes:
  "case ms_jobs (oStore w) i of
     None \<Rightarrow> \<exists>e. Cancel i w = (Some e, w)
   | Some j \<Rightarrow>
       if IsTerminal (jStatus j) then \<exists>e. Cancel i w = (Some e, w)
       else if i \<in> oRunCancels w
       then Cancel i w = (None, w\<lparr>oCancelled := insert i (oCancelled w),
                                   oCtxCancelled := insert i (oCtxCancelled w)\<rparr>)
       else if i \<in> oFinalizing w
       then \<exists>e. Cancel i w = (Some e, w\<lparr>oCancelled := insert i (oCancelled w)\<rparr>)
       else \<exists>w'. Cancel i w = (None, w')
              \<and> (\<forall>k. job_status (oStore w') k =
                   (if k = i then Some StatusCancelled else job_status (oStore w) k))
              \<and> (\<forall>k. k = i \<or> ms_jobs (oStore w') k = ms_jobs (oStore w) k)
              \<and> oFinalizing w' = insert i (oFinalizing w)
              \<and> oInflight w' = registry_release (jTargetKey j) (oInflight w)"
proof (cases "ms_jobs (oStore w) i")
  case None
  then show ?thesis by (simp add: Cancel_def GetByID_def)
next
  case (Some j)
  show ?thesis
  proof (cases "IsTerminal (jStatus j) \<or> i \<in> oRunCancels w \<or> i \<in> oFinalizing w")
    case True
    with Some show ?thesis by (auto simp: Cancel_def GetByID_def claimFinalization_def)
  next
    case False
    then have n: "\<not> IsTerminal (jStatus j)" "i \<notin> oRunCancels w" "i \<notin> oFinalizing w" by auto
    from Cancel_idle [OF Some n] obtain w' where "Cancel i w = (None, w')
        \<and> (\<forall>k. job_status (oStore w') k =
             (if k = i then Some StatusCancelled else job_status (oStore w) k))
        \<and> (\<forall>k. k = i \<or> ms_jobs (oStore w') k = ms_jobs (oStore w) k)
        \<and> oFinalizing w' = insert i (oFinalizing w)
        \<and> oInflight w' = registry_release (jTargetKey j) (oInflight w)" by metis
    then have "\<exists>w'. Cancel i w = (None, w')
        \<and> (\<forall>k. job_status (oStore w') k =
             (if k = i then Some StatusCancelled else job_status (oStore w) k))
        \<and> (\<forall>k. k = i \<or> ms_jobs (oStore w') k = ms_jobs (oStore w) k)
        \<and> oFinalizing w' = insert i (oFinalizing w)
        \<and> oInflight w' = registry_release (jTargetKey j) (oInflight w)" ..
    then show ?thesis using Some n by simp
  qed
qed

lemma pending_snapshot:
  assumes "wf_store (oStore w)" and "enumerates (ms_jobs (oStore w)) ks"
  shows "distinct (map jID (PendingSnapshot ks no_filter w))"
    and "j \<in> set (PendingSnapshot ks no_filter w) \<longleftrightarrow>
      ms_jobs (oStore w) (jID j) = Some j \<and> jStatus j = StatusPending"
proof -
  let ?s = "oStore w" and ?flt = "no_filter\<lparr>fStatuses := [StatusPending]\<rparr>"
  have listed: "ListActive ks ?flt ?s = filter (\<lambda>j. jStatus j = StatusPending) (ListActive ks no_filter ?s)"
  proof -
    have "filter (list_keeps ?flt [StatusPending] zero_time) xs = filter (\<lambda>j. jStatus j = StatusPending)
        (filter (list_keeps no_filter [StatusPending, StatusGenerating] zero_time) xs)" for xs
      by (auto simp: list_keeps_def no_filter_def IsZero_def intro: filter_cong)
    then show ?thesis
      by (simp add: ListActive_def listLocked_def no_filter_def Let_def filter_sort)
  qed
  have "distinct (map jID (ListActive ks ?flt ?s))"
    unfolding listed using active_snapshot(1) [OF assms] by (rule distinct_map_filter)
  then have "distinct (map jID (sort_key f (sort_key g (ListActive ks ?flt ?s))))" for f g :: "Job \<Rightarrow> int"
    by (simp add: distinct_map)
  then show "distinct (map jID (PendingSnapshot ks no_filter w))"
    by (simp add: PendingSnapshot_def)
  show "j \<in> set (PendingSnapshot ks no_filter w) \<longleftrightarrow>
      ms_jobs ?s (jID j) = Some j \<and> jStatus j = StatusPending"
    using active_snapshot(2) [OF assms, of j] by (auto simp: PendingSnapshot_def listed IsActive_def)
qed

text \<open>
  draining the queue. When no pending job is running or being finalized, \<open>DrainPending\<close>
  cancels every pending job and reports their number without an error; generating and terminal
  jobs keep their records untouched.
\<close>

theorem drain_cancels_all_pending:
  assumes "wf_store (oStore w)" and "enumerates (ms_jobs (oStore w)) ks"
    and "\<forall>i. job_status (oStore w) i = Some StatusPending \<longrightarrow> i \<notin> oRunCancels w \<and> i \<notin> oFinalizing w"
  shows "\<exists>w'. DrainPending ks w = ((int (card {i. job_status (oStore w) i = Some StatusPending}), None), w')
    \<and> (\<forall>i. job_status (oStore w') i = (if job_status (oStore w) i = Some StatusPending
            then Some StatusCancelled else job_status (oStore w) i))
    \<and> (\<forall>i. job_status (oStore w) i = Some StatusPending \<or> ms_jobs (oStore w') i = ms_jobs (oStore w) i)"
proof -
  let ?js = "PendingSnapshot ks no_filter w"
  note snap = pending_snapshot [OF assms(1,2)]
  have ids: "jID j = i" if "ms_jobs (oStore w) i = Some j" for i j
    using assms(1) that by (auto simp: wf_store_def)
  have pend: "i \<in> jID ` set ?js \<longleftrightarrow> job_status (oStore w) i = Some StatusPending" for i
  proof -
    have "job_status (oStore w) i = Some StatusPending \<longleftrightarrow>
        (\<exists>j. ms_jobs (oStore w) i = Some j \<and> jStatus j = StatusPending)"
      by (auto simp: job_status_def)
    also have "\<dots> \<longleftrightarrow> (\<exists>j. j \<in> set ?js \<and> jID j = i)"
      using ids [of i] snap(2) by metis
    finally show ?thesis by (auto simp: image_iff)
  qed
  then have set: "jID ` set ?js = {i. job_status (oStore w) i = Some StatusPending}" by blast
  have len: "length ?js = card {i. job_status (oStore w) i = Some StatusPending}"
    using distinct_card [OF snap(1)] set by simp
  have "\<forall>j\<in>set ?js. (\<exists>j'. ms_jobs (oStore w) (jID j) = Some j' \<and> \<not> IsTerminal (jStatus j'))
           \<and> jID j \<notin> oRunCancels w \<and> jID j \<notin> oFinalizing w"
    using assms(3) by (auto simp: snap(2) job_status_def IsTerminal_def)
  from drain_all_idle [OF snap(1) this, of 0 None] obtain w' where
    "drain_all ?js 0 None w = ((0 + int (length ?js), None), w')"
    and st: "\<forall>k. job_status (oStore w') k =
         (if k \<in> jID ` set ?js then Some StatusCancelled else job_status (oStore w) k)"
    and jobs: "\<forall>k. k \<notin> jID ` set ?js \<longrightarrow> ms_jobs (oStore w') k = ms_jobs (oStore w) k" by blast
  then have "DrainPending ks w = ((int (card {i. job_status (oStore w) i = Some StatusPending}), None), w')"
    by (simp only: DrainPending_def len add_0)
  moreover have "\<forall>i. job_status (oStore w') i = (if job_status (oStore w) i = Some StatusPending
            then Some StatusCancelled else job_status (oStore w) i)" using st unfolding pend .
  moreover from jobs have "\<forall>i. job_status (oStore w) i = Some StatusPending
      \<or> ms_jobs (oStore w') i = ms_jobs (oStore w) i" unfolding pend by blast
  ultimately show ?thesis by blast
qed

theorem drain_cancels_all_pending_witness:
  "fst (DrainPending [''a''] (demo_orch demo_store)) = (1, None)"
proof -
  have wf: "wf_store (oStore (demo_orch demo_store))"
    by (simp add: wf_store_def wf_job_def clamp01_def)
  have ks: "enumerates (ms_jobs (oStore (demo_orch demo_store))) [''a'']" by simp
  have "{i. job_status (oStore (demo_orch demo_store)) i = Some StatusPending} = {''a''}"
    by (auto simp: job_status_def split: if_splits)
  then have card: "card {i. job_status (oStore (demo_orch demo_store)) i = Some StatusPending} = 1"
    by simp
  have free: "\<forall>i. job_status (oStore (demo_orch demo_store)) i = Some StatusPending \<longrightarrow>
      i \<notin> oRunCancels (demo_orch demo_store) \<and> i \<notin> oFinalizing (demo_orch demo_store)" by simp
  from drain_cancels_all_pending [OF wf ks free] show ?thesis
    unfolding card by auto
qed

end
