(* ===== verification/LLM_Run.thy ===== *)
theory LLM_Run
  imports LLM_Lifecycle
begin

text \<open>
  One job run: the debouncing runtime handed to the job's closure
  (\<^verbatim>\<open>internal/llm/orchestrator/runtime.go\<close>) and \<^verbatim>\<open>runJob\<close> with its retry loop.

  \<^verbatim>\<open>runJob\<close> gives up control at five kinds of points: the two waits, the call of the closure,
  and the moments after the claim decision and after the flush, where other goroutines (the
  reaper, \<^verbatim>\<open>Cancel\<close>, \<^verbatim>\<open>Enqueue\<close>) may take the locks. What happens there is a parameter, the
  record \<open>run_env\<close>: for attempt \<open>n\<close>, \<open>envRun\<close> is the closure together with everything else
  that happened while it ran, \<open>envCooldown\<close> and \<open>envBackoff\<close> are the waits (their boolean says
  that the shutdown ended the wait), \<open>envDecided\<close> and \<open>envFlushed\<close> are the interference after
  the claim decision and after the flush. A panic of the closure is not modelled.
\<close>

section \<open>The runtime\<close>

record runtime =
  rtJobID :: string
  rtLastProgress :: float64
  rtLastPhase :: string
  rtLastMessage :: string
  rtLastThroughputTPS :: float64
  rtLastWrite :: time
  rtPendingProgress :: bool
  rtLastLoggedPhase :: string
  rtLastLoggedMessage :: string
  rtPendingTokensInput :: int
  rtPendingTokensOutput :: int
  rtPendingTokensSet :: bool
  rtPendingBytes :: int
  rtPendingBytesSet :: bool

definition newRuntime :: "string \<Rightarrow> runtime" where
  "newRuntime jobID = \<lparr>rtJobID = jobID, rtLastProgress = Fin 0, rtLastPhase = [],
     rtLastMessage = [], rtLastThroughputTPS = Fin 0, rtLastWrite = zero_time,
     rtPendingProgress = False, rtLastLoggedPhase = [], rtLastLoggedMessage = [],
     rtPendingTokensInput = 0, rtPendingTokensOutput = 0, rtPendingTokensSet = False,
     rtPendingBytes = 0, rtPendingBytesSet = False\<rparr>"

definition publish_progress :: "string \<Rightarrow> orch \<Rightarrow> orch" where
  "publish_progress jobID w = (case GetByID jobID (oStore w) of None \<Rightarrow> w
     | Some job \<Rightarrow> publish \<lparr>evKind = EventProgress, evJob = job\<rparr> w)"

definition writeProgressLocked :: "time \<Rightarrow> runtime \<Rightarrow> orch \<Rightarrow> runtime \<times> orch" where
  "writeProgressLocked now rt w =
     (case on_store (\<lambda>t. SetProgress t (rtJobID rt) (rtLastProgress rt) (rtLastPhase rt)
                           (rtLastMessage rt) (rtLastThroughputTPS rt)) w of
        (Some e, w1) \<Rightarrow> (rt, w1)
      | (None, w1) \<Rightarrow>
          (let rt1 = rt\<lparr>rtLastWrite := now, rtPendingProgress := False\<rparr>;
               (rt2, w2) =
                 (if rtLastPhase rt1 \<noteq> rtLastLoggedPhase rt1 \<or> rtLastMessage rt1 \<noteq> rtLastLoggedMessage rt1
                  then (rt1\<lparr>rtLastLoggedPhase := rtLastPhase rt1, rtLastLoggedMessage := rtLastMessage rt1\<rparr>,
                        snd (AppendJobLog (rtJobID rt1) LogLevelInfo (rtLastPhase rt1) ''progress_update''
                               (rtLastMessage rt1) [(''progress'', PFloat (rtLastProgress rt1))] w1))
                  else (rt1, w1))
           in (rt2, publish_progress (rtJobID rt2) w2)))"

definition ReportProgress ::
  "float64 \<Rightarrow> string \<Rightarrow> string \<Rightarrow> float64 \<Rightarrow> runtime \<Rightarrow> orch \<Rightarrow> runtime \<times> orch" where
  "ReportProgress progress phase message tps rt w =
     (let rt1 = rt\<lparr>rtLastProgress := clamp01 progress, rtLastPhase := phase, rtLastMessage := message,
                   rtLastThroughputTPS := tps, rtPendingProgress := True\<rparr>;
          (now, w1) = read_clock w
      in if cfgProgressDebounce (oCfg w1) \<le> time_Sub now (rtLastWrite rt1)
         then writeProgressLocked now rt1 w1 else (rt1, w1))"

definition ReportTokens :: "int \<Rightarrow> int \<Rightarrow> runtime \<Rightarrow> runtime" where
  "ReportTokens input output rt = rt\<lparr>rtPendingTokensInput := input,
     rtPendingTokensOutput := output, rtPendingTokensSet := True\<rparr>"

definition ReportSnapshotBytes :: "int \<Rightarrow> runtime \<Rightarrow> runtime" where
  "ReportSnapshotBytes bytes rt = rt\<lparr>rtPendingBytes := bytes, rtPendingBytesSet := True\<rparr>"

definition runtime_Heartbeat :: "runtime \<Rightarrow> orch \<Rightarrow> go_error option \<times> orch" where
  "runtime_Heartbeat rt w = on_store (\<lambda>now. Heartbeat now (rtJobID rt)) w"

definition flush_progress :: "runtime \<Rightarrow> orch \<Rightarrow> runtime \<times> orch" where
  "flush_progress rt w =
     (if rtPendingProgress rt
      then (let (now, w1) = read_clock w in writeProgressLocked now rt w1) else (rt, w))"

definition flush_tokens :: "runtime \<Rightarrow> orch \<Rightarrow> runtime \<times> orch" where
  "flush_tokens rt w =
     (if rtPendingTokensSet rt
      then (rt\<lparr>rtPendingTokensSet := False\<rparr>,
            snd (on_store (\<lambda>t. SetTokens t (rtJobID rt) (rtPendingTokensInput rt)
                                 (rtPendingTokensOutput rt)) w))
      else (rt, w))"

definition flush_bytes :: "runtime \<Rightarrow> orch \<Rightarrow> runtime \<times> orch" where
  "flush_bytes rt w =
     (if rtPendingBytesSet rt
      then (rt\<lparr>rtPendingBytesSet := False\<rparr>,
            snd (on_store (\<lambda>t. SetSnapshotBytes t (rtJobID rt) (rtPendingBytes rt)) w))
      else (rt, w))"

definition flush :: "runtime \<Rightarrow> orch \<Rightarrow> runtime \<times> orch" where
  "flush rt w =
     (let (rt1, w1) = flush_progress rt w; (rt2, w2) = flush_tokens rt1 w1 in flush_bytes rt2 w2)"

section \<open>Running a job\<close>

record run_env =
  envRun :: "int \<Rightarrow> runtime \<Rightarrow> orch \<Rightarrow> go_error option \<times> runtime \<times> orch"
  envCooldown :: "int \<Rightarrow> orch \<Rightarrow> bool \<times> orch"
  envBackoff :: "int \<Rightarrow> orch \<Rightarrow> bool \<times> orch"
  envDecided :: "int \<Rightarrow> orch \<Rightarrow> orch"
  envFlushed :: "int \<Rightarrow> orch \<Rightarrow> orch"

definition cancel_if_claimed :: "string \<Rightarrow> orch \<Rightarrow> orch" where
  "cancel_if_claimed jobID w = (case claimFinalization jobID w of
       (True, w1) \<Rightarrow> finalizeCancelled jobID w1 | (False, w1) \<Rightarrow> w1)"

text \<open>The double nearest to 0.02, in which the code reports the breaker's back-off.\<close>

definition progress_002 :: float64 where
  "progress_002 = Fin (5764607523034235 / 288230376151711744)"

definition wait_for_breaker ::
  "run_env \<Rightarrow> string \<Rightarrow> EnqueueRequest \<Rightarrow> int \<Rightarrow> orch \<Rightarrow> bool \<times> orch" where
  "wait_for_breaker env jobID req attempt w =
     (let (t, w0) = read_clock w;
          (cooldown, b) = waitDuration t (rSubsystem req) (oBreaker w0);
          w1 = w0\<lparr>oBreaker := b\<rparr>
      in if 0 < cooldown
         then (let w2 = snd (on_store (\<lambda>now. SetProgress now jobID progress_002 ''backoff''
                          ''Waiting for model backend to recover'' (Fin 0)) w1);
                   w3 = publish_progress jobID w2;
                   w4 = snd (AppendJobLog jobID LogLevelWarn ''backoff'' ''breaker_backoff''
                          ''Waiting for model backend to recover''
                          [(''cooldown_ms'', PInt (Milliseconds cooldown))] w3)
               in envCooldown env attempt w4)
         else (False, w1))"

definition wait_for_retry ::
  "(rat \<Rightarrow> float64) \<Rightarrow> (float64 \<Rightarrow> duration) \<Rightarrow> run_env \<Rightarrow> string \<Rightarrow> int \<Rightarrow> int \<Rightarrow> orch \<Rightarrow> bool \<times> orch" where
  "wait_for_retry rnd conv env jobID attempt maxAttempts w =
     (if 1 < attempt
      then (let backoff = BackoffFor rnd conv (cfgRetry (oCfg w)) attempt;
                w1 = snd (AppendJobLog jobID LogLevelWarn ''retry'' ''retry_scheduled''
                       ''Retrying job after transient failure''
                       [(''attempt'', PInt attempt), (''max_attempts'', PInt maxAttempts),
                        (''backoff_ms'', PInt (Milliseconds backoff))] w);
                (stop, w2) = envBackoff env attempt w1
            in if stop then (True, w2)
               else (False, snd (on_store (\<lambda>now. IncrementRetry now jobID) w2)))
      else (False, w))"

definition asks_cancel :: "go_error option \<Rightarrow> bool" where
  "asks_cancel err = (case err of None \<Rightarrow> False
     | Some e \<Rightarrow> errors_Is e ErrJobCancelled \<or> errors_Is e ContextCanceled)"

datatype attempt_result = Return | Retry go_error | Break go_error bool

text \<open>What follows the call of the closure: the claim decision, the flush, the three exits.\<close>

definition after_run ::
  "run_env \<Rightarrow> string \<Rightarrow> EnqueueRequest \<Rightarrow> int \<Rightarrow> int \<Rightarrow> go_error option \<Rightarrow> runtime \<Rightarrow> orch
   \<Rightarrow> attempt_result \<times> orch" where
  "after_run env jobID req attempt maxAttempts err rt w =
     (let isTerminalExit = (err = None \<or> asks_cancel err \<or> isCancelled jobID w
                            \<or> \<not> ShouldRetryWithMax attempt maxAttempts err);
          (claimed, w1) = (if isTerminalExit then claimFinalization jobID w else (False, w));
          w2 = envDecided env attempt w1;
          w3 = clearRunCancel jobID (cancelActiveRun jobID w2);
          w4 = envFlushed env attempt (snd (flush rt w3))
      in (case err of
            None \<Rightarrow>
              (Return, if isCancelled jobID w4
                       then (if claimed then finalizeCancelled jobID w4 else w4)
                       else (if claimed then finalizeReady jobID req w4 else w4))
          | Some e \<Rightarrow>
              if asks_cancel err \<or> isCancelled jobID w4
              then (Return, if claimed then finalizeCancelled jobID w4 else w4)
              else if \<not> ShouldRetryWithMax attempt maxAttempts err
              then (Break e claimed, w4)
              else (Retry e, w4)))"

definition run_attempt ::
  "(rat \<Rightarrow> float64) \<Rightarrow> (float64 \<Rightarrow> duration) \<Rightarrow> run_env \<Rightarrow> string \<Rightarrow> EnqueueRequest \<Rightarrow> int \<Rightarrow> int
   \<Rightarrow> orch \<Rightarrow> attempt_result \<times> orch" where
  "run_attempt rnd conv env jobID req attempt maxAttempts w =
     (case wait_for_breaker env jobID req attempt w of
        (True, w1) \<Rightarrow> (Return, cancel_if_claimed jobID w1)
      | (False, w1) \<Rightarrow>
          (case wait_for_retry rnd conv env jobID attempt maxAttempts w1 of
             (True, w2) \<Rightarrow> (Return, cancel_if_claimed jobID w2)
           | (False, w2) \<Rightarrow>
               (case envRun env attempt (newRuntime jobID) (setRunCancel jobID w2) of
                  (err, rt, w3) \<Rightarrow> after_run env jobID req attempt maxAttempts err rt w3)))"

text \<open>
  The loop over attempts, \<open>n\<close> of them left. It ends by a return, or by leaving the loop with
  the last error and, when a claim was attempted, whether it was won.
\<close>

datatype loop_exit = LReturn | LBreak "go_error option" "bool option"

fun run_loop ::
  "(rat \<Rightarrow> float64) \<Rightarrow> (float64 \<Rightarrow> duration) \<Rightarrow> run_env \<Rightarrow> string \<Rightarrow> EnqueueRequest \<Rightarrow> int
   \<Rightarrow> nat \<Rightarrow> int \<Rightarrow> go_error option \<Rightarrow> orch \<Rightarrow> loop_exit \<times> orch" where
  "run_loop rnd conv env jobID req maxAttempts 0 attempt lastErr w = (LBreak lastErr None, w)"
| "run_loop rnd conv env jobID req maxAttempts (Suc n) attempt lastErr w =
     (case run_attempt rnd conv env jobID req attempt maxAttempts w of
        (Return, w1) \<Rightarrow> (LReturn, w1)
      | (Break e claimed, w1) \<Rightarrow> (LBreak (Some e) (Some claimed), w1)
      | (Retry e, w1) \<Rightarrow> run_loop rnd conv env jobID req maxAttempts n (attempt + 1) (Some e) w1)"

definition start_run :: "string \<Rightarrow> orch \<Rightarrow> orch" where
  "start_run jobID w =
     (let w1 = snd (on_store (\<lambda>now. SetStatus now jobID StatusGenerating) w);
          w2 = (case GetByID jobID (oStore w1) of None \<Rightarrow> w1
            | Some job \<Rightarrow> publish \<lparr>evKind = EventStarted, evJob = job\<rparr> w1)
      in snd (AppendJobLog jobID LogLevelInfo ''generating'' ''job_started'' ''Worker claimed the job'' [] w2))"

definition finish_loop :: "string \<Rightarrow> EnqueueRequest \<Rightarrow> loop_exit \<Rightarrow> orch \<Rightarrow> orch" where
  "finish_loop jobID req exit w = (case exit of LReturn \<Rightarrow> w
     | LBreak lastErr claim \<Rightarrow>
         (let (won, w1) = (case claim of Some c \<Rightarrow> (c, w) | None \<Rightarrow> claimFinalization jobID w)
          in if won then finalizeFailed jobID req lastErr w1 else w1))"

definition run_body ::
  "(rat \<Rightarrow> float64) \<Rightarrow> (float64 \<Rightarrow> duration) \<Rightarrow> run_env \<Rightarrow> string \<Rightarrow> EnqueueRequest \<Rightarrow> orch \<Rightarrow> orch" where
  "run_body rnd conv env jobID req w =
     (if isCancelled jobID w
      then (case GetByID jobID (oStore w) of None \<Rightarrow> w
        | Some job \<Rightarrow> if \<not> IsTerminal (jStatus job) then cancel_if_claimed jobID w else w)
      else
        (let w1 = start_run jobID w;
             maxAttempts = (if rMaxAttempts req \<le> 0 then rpMaxAttempts (cfgRetry (oCfg w1))
                            else rMaxAttempts req);
             (exit, w2) = run_loop rnd conv env jobID req maxAttempts (nat maxAttempts) 1 None w1
         in finish_loop jobID req exit w2))"

definition runJob ::
  "(rat \<Rightarrow> float64) \<Rightarrow> (float64 \<Rightarrow> duration) \<Rightarrow> run_env \<Rightarrow> workItem \<Rightarrow> orch \<Rightarrow> orch" where
  "runJob rnd conv env item w =
     (let jobID = wiJobID item; req = wiReq item
      in release_inflight (rTargetKey req) (clearRunState jobID (run_body rnd conv env jobID req w)))"

section \<open>The runtime buffers nothing for good\<close>

lemma silent_publish_progress [simp]: "silent (publish_progress i v) w = silent v w"
  by (simp add: publish_progress_def split: option.split)

text \<open>A progress write on a live job: it succeeds and nothing stays pending.\<close>

lemma writeProgressLocked_effect:
  assumes "ms_jobs (oStore w) (rtJobID rt) = Some j"
  obtains rt' w' t where "writeProgressLocked now rt w = (rt', w')"
    and "ms_jobs (oStore w') = (ms_jobs (oStore w))(rtJobID rt \<mapsto>
           progress_write t (rtLastProgress rt) (rtLastPhase rt) (rtLastMessage rt) (rtLastThroughputTPS rt) j)"
    and "same_core w' w" and "\<not> rtPendingProgress rt'"
    and "rt' = rt\<lparr>rtLastWrite := now, rtPendingProgress := False,
           rtLastLoggedPhase := rtLastPhase rt, rtLastLoggedMessage := rtLastMessage rt\<rparr>"
proof -
  obtain w1 where st: "on_store (\<lambda>t. SetProgress t (rtJobID rt) (rtLastProgress rt) (rtLastPhase rt)
        (rtLastMessage rt) (rtLastThroughputTPS rt)) w = (None, w1)"
    and jobs: "ms_jobs (oStore w1) = (ms_jobs (oStore w))(rtJobID rt \<mapsto>
        progress_write (oClock w (oTick w)) (rtLastProgress rt) (rtLastPhase rt) (rtLastMessage rt)
          (rtLastThroughputTPS rt) j)"
    and core: "same_core w1 w"
    using on_store_job [OF assms, where f = "\<lambda>t. progress_write t (rtLastProgress rt) (rtLastPhase rt)
        (rtLastMessage rt) (rtLastThroughputTPS rt)"]
    by (auto simp: SetProgress_def [abs_def])
  let ?rt' = "rt\<lparr>rtLastWrite := now, rtPendingProgress := False,
           rtLastLoggedPhase := rtLastPhase rt, rtLastLoggedMessage := rtLastMessage rt\<rparr>"
  have rt: "fst (writeProgressLocked now rt w) = ?rt'"
    by (simp add: writeProgressLocked_def st Let_def)
  have "silent (snd (writeProgressLocked now rt w)) w1"
    by (simp add: writeProgressLocked_def st Let_def)
  then have "same_core (snd (writeProgressLocked now rt w)) w"
    and "ms_jobs (oStore (snd (writeProgressLocked now rt w))) = ms_jobs (oStore w1)"
    using core by (auto intro: silent_core silent_jobs same_core_trans)
  with rt jobs show thesis
    by (intro that [of ?rt' "snd (writeProgressLocked now rt w)" "oClock w (oTick w)"])
      (simp_all add: prod_eq_iff)
qed

text \<open>What a closure may call on its runtime.\<close>

datatype report =
    RProgress float64 string string float64
  | RTokens int int
  | RSnapshotBytes int
  | RHeartbeat

fun do_report :: "report \<Rightarrow> runtime \<times> orch \<Rightarrow> runtime \<times> orch" where
  "do_report (RProgress p ph m tps) (rt, w) = ReportProgress p ph m tps rt w"
| "do_report (RTokens a b) (rt, w) = (ReportTokens a b rt, w)"
| "do_report (RSnapshotBytes n) (rt, w) = (ReportSnapshotBytes n rt, w)"
| "do_report RHeartbeat (rt, w) = (rt, snd (runtime_Heartbeat rt w))"

text \<open>The last report of each kind.\<close>

fun last_progress :: "report \<Rightarrow> (float64 \<times> string \<times> string) option \<Rightarrow> (float64 \<times> string \<times> string) option" where
  "last_progress (RProgress p ph m tps) _ = Some (clamp01 p, ph, m)"
| "last_progress _ x = x"

fun last_tokens :: "report \<Rightarrow> (int \<times> int) option \<Rightarrow> (int \<times> int) option" where
  "last_tokens (RTokens a b) _ = Some (a, b)"
| "last_tokens _ x = x"

fun last_bytes :: "report \<Rightarrow> int option \<Rightarrow> int option" where
  "last_bytes (RSnapshotBytes n) _ = Some n"
| "last_bytes _ x = x"

definition shown_progress :: "Job \<Rightarrow> float64 \<times> string \<times> string" where
  "shown_progress j = (jProgress j, jProgressPhase j, jProgressMessage j)"

text \<open>What is known after some reports: each last value is stored or still pending.\<close>

definition buffered ::
  "string \<Rightarrow> (float64 \<times> string \<times> string) option \<Rightarrow> (int \<times> int) option \<Rightarrow> int option
   \<Rightarrow> Job \<Rightarrow> runtime \<times> orch \<Rightarrow> bool" where
  "buffered i pr tk bt j0 x \<longleftrightarrow> (case x of (rt, w) \<Rightarrow> \<exists>j.
     rtJobID rt = i \<and> ms_jobs (oStore w) i = Some j \<and> \<not> IsTerminal (jStatus j) \<and> jStatus j = jStatus j0
   \<and> (pr = None \<longrightarrow> \<not> rtPendingProgress rt \<and> shown_progress j = shown_progress j0)
   \<and> (\<forall>p. pr = Some p \<longrightarrow> (rtLastProgress rt, rtLastPhase rt, rtLastMessage rt) = p
          \<and> clamp01 (fst p) = fst p \<and> (rtPendingProgress rt \<or> shown_progress j = p))
   \<and> jInputTokens j = jInputTokens j0 \<and> jOutputTokens j = jOutputTokens j0
   \<and> jSnapshotBytes j = jSnapshotBytes j0
   \<and> rtPendingTokensSet rt = (tk \<noteq> None)
   \<and> (\<forall>a b. tk = Some (a, b) \<longrightarrow> rtPendingTokensInput rt = a \<and> rtPendingTokensOutput rt = b)
   \<and> rtPendingBytesSet rt = (bt \<noteq> None)
   \<and> (\<forall>n. bt = Some n \<longrightarrow> rtPendingBytes rt = n))"

lemma progress_write_shown:
  assumes "\<not> IsTerminal (jStatus j)"
  shows "shown_progress (progress_write t p ph m tps j) = (clamp01 p, ph, m)"
    and "jStatus (progress_write t p ph m tps j) = jStatus j"
    and "jInputTokens (progress_write t p ph m tps j) = jInputTokens j"
    and "jOutputTokens (progress_write t p ph m tps j) = jOutputTokens j"
    and "jSnapshotBytes (progress_write t p ph m tps j) = jSnapshotBytes j"
  using assms by (simp_all add: shown_progress_def progress_write_def Let_def)

lemma buffered_report:
  assumes "buffered i pr tk bt j0 x"
  shows "buffered i (last_progress r pr) (last_tokens r tk) (last_bytes r bt) j0 (do_report r x)"
proof -
  obtain rt w where x: "x = (rt, w)" by (cases x)
  from assms x obtain j where j: "ms_jobs (oStore w) i = Some j" "\<not> IsTerminal (jStatus j)"
    and i: "rtJobID rt = i" by (auto simp: buffered_def)
  show ?thesis
  proof (cases r)
    case (RProgress p ph m tps)
    let ?rt1 = "rt\<lparr>rtLastProgress := clamp01 p, rtLastPhase := ph, rtLastMessage := m,
                   rtLastThroughputTPS := tps, rtPendingProgress := True\<rparr>"
    let ?w1 = "snd (read_clock w)"
    have at: "ms_jobs (oStore ?w1) (rtJobID ?rt1) = Some j" using j i by simp
    show ?thesis
    proof (cases "cfgProgressDebounce (oCfg w) \<le> time_Sub (oClock w (oTick w)) (rtLastWrite rt)")
      case True
      then have run: "do_report r x = writeProgressLocked (oClock w (oTick w)) ?rt1 ?w1"
        by (simp add: RProgress x ReportProgress_def Let_def read_clock_def)
      from writeProgressLocked_effect [OF at] obtain rt' w' t
        where e: "writeProgressLocked (oClock w (oTick w)) ?rt1 ?w1 = (rt', w')"
        "ms_jobs (oStore w') = (ms_jobs (oStore ?w1))(rtJobID ?rt1 \<mapsto>
           progress_write t (rtLastProgress ?rt1) (rtLastPhase ?rt1) (rtLastMessage ?rt1)
             (rtLastThroughputTPS ?rt1) j)"
        "rt' = ?rt1\<lparr>rtLastWrite := oClock w (oTick w), rtPendingProgress := False,
           rtLastLoggedPhase := rtLastPhase ?rt1, rtLastLoggedMessage := rtLastMessage ?rt1\<rparr>"
        by metis
      then show ?thesis
        using assms j i unfolding run by (auto simp: x buffered_def RProgress progress_write_shown)
    next
      case False
      then have run: "do_report r x = (?rt1, ?w1)"
        by (simp add: RProgress x ReportProgress_def Let_def read_clock_def)
      show ?thesis
        using assms j i unfolding run by (auto simp: x buffered_def RProgress)
    qed
  next
    case RHeartbeat
    let ?w' = "snd (runtime_Heartbeat rt w)"
    have at: "ms_jobs (oStore ?w') i = Some (j\<lparr>jUpdatedAt := oClock w (oTick w)\<rparr>)"
      using j i by (simp add: runtime_Heartbeat_def on_store_snd Heartbeat_jobs)
    have shown: "shown_progress (j\<lparr>jUpdatedAt := t\<rparr>) = shown_progress j" for t
      by (simp add: shown_progress_def)
    show ?thesis
      using assms j by (cases pr) (simp_all add: x RHeartbeat buffered_def at shown)
  next
    case (RTokens a b)
    show ?thesis using assms by (auto simp: RTokens x buffered_def ReportTokens_def)
  next
    case (RSnapshotBytes n)
    show ?thesis using assms by (auto simp: RSnapshotBytes x buffered_def ReportSnapshotBytes_def)
  qed
qed


lemma buffered_reports:
  assumes "buffered i pr tk bt j0 x"
  shows "buffered i (fold last_progress rs pr) (fold last_tokens rs tk) (fold last_bytes rs bt) j0
    (fold do_report rs x)"
  using assms by (induction rs arbitrary: pr tk bt x) (simp_all add: buffered_report)

text \<open>The three parts of a flush, on a live job.\<close>

lemma flush_progress_buffered:
  assumes "buffered i pr tk bt j0 (rt, w)"
  shows "buffered i pr tk bt j0 (flush_progress rt w)"
    and "\<not> rtPendingProgress (fst (flush_progress rt w))"
proof -
  from assms obtain j where j: "ms_jobs (oStore w) i = Some j" "\<not> IsTerminal (jStatus j)"
    and i: "rtJobID rt = i" by (auto simp: buffered_def)
  have "buffered i pr tk bt j0 (flush_progress rt w) \<and> \<not> rtPendingProgress (fst (flush_progress rt w))"
  proof (cases "rtPendingProgress rt")
    case True
    let ?w1 = "snd (read_clock w)"
    have at: "ms_jobs (oStore ?w1) (rtJobID rt) = Some j" using j i by simp
    have run: "flush_progress rt w = writeProgressLocked (oClock w (oTick w)) rt ?w1"
      using True by (simp add: flush_progress_def read_clock_def)
    from writeProgressLocked_effect [OF at] obtain rt' w' t
      where e: "writeProgressLocked (oClock w (oTick w)) rt ?w1 = (rt', w')"
      "ms_jobs (oStore w') = (ms_jobs (oStore ?w1))(rtJobID rt \<mapsto>
         progress_write t (rtLastProgress rt) (rtLastPhase rt) (rtLastMessage rt)
           (rtLastThroughputTPS rt) j)"
      "rt' = rt\<lparr>rtLastWrite := oClock w (oTick w), rtPendingProgress := False,
         rtLastLoggedPhase := rtLastPhase rt, rtLastLoggedMessage := rtLastMessage rt\<rparr>"
      by metis
    then show ?thesis
      using assms j i True unfolding run
      by (cases pr) (auto simp: buffered_def progress_write_shown)
  next
    case False
    then show ?thesis using assms by (simp add: flush_progress_def)
  qed
  then show "buffered i pr tk bt j0 (flush_progress rt w)"
    "\<not> rtPendingProgress (fst (flush_progress rt w))" by blast+
qed

text \<open>
  the debouncer loses nothing. Whatever a closure reports, at whatever times, once the
  runtime is flushed the stored job shows the last progress (clamped), phase and message, the
  last token counts and the last snapshot size that were reported, keeps what was never reported, and nothing
  is left pending. (The job is live and only this run writes to it in the meantime.)
\<close>

theorem flush_stores_the_last_reports:
  fixes rs :: "report list"
  assumes "ms_jobs (oStore w) i = Some j" and "\<not> IsTerminal (jStatus j)"
  defines "x \<equiv> fold do_report rs (newRuntime i, w)"
  defines "y \<equiv> flush (fst x) (snd x)"
  shows "\<exists>j'. ms_jobs (oStore (snd y)) i = Some j'
    \<and> shown_progress j' = (case fold last_progress rs None of None \<Rightarrow> shown_progress j | Some p \<Rightarrow> p)
    \<and> (jInputTokens j', jOutputTokens j') =
        (case fold last_tokens rs None of None \<Rightarrow> (jInputTokens j, jOutputTokens j) | Some t \<Rightarrow> t)
    \<and> jSnapshotBytes j' = (case fold last_bytes rs None of None \<Rightarrow> jSnapshotBytes j | Some n \<Rightarrow> n)
    \<and> \<not> rtPendingProgress (fst y) \<and> \<not> rtPendingTokensSet (fst y) \<and> \<not> rtPendingBytesSet (fst y)"
proof -
  have start: "buffered i None None None j (newRuntime i, w)"
    using assms(1,2) by (simp add: buffered_def newRuntime_def)
  obtain rt v where xv: "x = (rt, v)" by (cases x)
  let ?pr = "fold last_progress rs None" and ?tk = "fold last_tokens rs None" and ?bt = "fold last_bytes rs None"
  have b: "buffered i ?pr ?tk ?bt j (rt, v)"
    using buffered_reports [OF start, of rs] by (simp add: xv [symmetric] x_def)
  obtain rt1 w1 where fp: "flush_progress rt v = (rt1, w1)" by (cases "flush_progress rt v")
  have b1: "buffered i ?pr ?tk ?bt j (rt1, w1)" and np: "\<not> rtPendingProgress rt1"
    using flush_progress_buffered [OF b] by (simp_all add: fp)
  then obtain j1 where j1: "ms_jobs (oStore w1) i = Some j1" "\<not> IsTerminal (jStatus j1)" "rtJobID rt1 = i"
    and shown: "shown_progress j1 = (case ?pr of None \<Rightarrow> shown_progress j | Some p \<Rightarrow> p)"
    and tok: "jInputTokens j1 = jInputTokens j" "jOutputTokens j1 = jOutputTokens j"
    "jSnapshotBytes j1 = jSnapshotBytes j"
    "rtPendingTokensSet rt1 = (?tk \<noteq> None)" "rtPendingBytesSet rt1 = (?bt \<noteq> None)"
    "\<forall>a b. ?tk = Some (a, b) \<longrightarrow> rtPendingTokensInput rt1 = a \<and> rtPendingTokensOutput rt1 = b"
    "\<forall>n. ?bt = Some n \<longrightarrow> rtPendingBytes rt1 = n"
    unfolding buffered_def prod.case by (auto split: option.splits)
  obtain rt2 w2 where ft: "flush_tokens rt1 w1 = (rt2, w2)" by (cases "flush_tokens rt1 w1")
  obtain rt3 w3 where fb: "flush_bytes rt2 w2 = (rt3, w3)" by (cases "flush_bytes rt2 w2")
  have y: "y = (rt3, w3)" by (simp add: y_def xv flush_def fp ft fb)
  define j2 where "j2 = (case ?tk of None \<Rightarrow> j1 | Some (a, b) \<Rightarrow> j1\<lparr>jInputTokens := a, jOutputTokens := b,
      jUpdatedAt := oClock w1 (oTick w1)\<rparr>)"
  have ft': "ms_jobs (oStore w2) i = Some j2 \<and> rtPendingTokensSet rt2 = False
      \<and> rtPendingBytesSet rt2 = rtPendingBytesSet rt1 \<and> rtPendingBytes rt2 = rtPendingBytes rt1
      \<and> rtJobID rt2 = i \<and> rtPendingProgress rt2 = False"
  proof (cases ?tk)
    case None
    then show ?thesis using ft j1 tok np by (simp add: flush_tokens_def j2_def)
  next
    case (Some t)
    obtain a b where t: "t = (a, b)" by (cases t)
    show ?thesis
      using ft j1 tok np Some t
      by (auto simp: flush_tokens_def on_store_snd SetTokens_def on_job_jobs j2_def)
  qed
  have st2: "\<not> IsTerminal (jStatus j2)" using j1 by (simp add: j2_def split: option.split prod.split)
  have sel2: "shown_progress j2 = shown_progress j1" "jSnapshotBytes j2 = jSnapshotBytes j1"
    "(jInputTokens j2, jOutputTokens j2) =
        (case ?tk of None \<Rightarrow> (jInputTokens j, jOutputTokens j) | Some t \<Rightarrow> t)"
    using tok by (auto simp: j2_def shown_progress_def split: option.split)
  define j3 where "j3 = (case ?bt of None \<Rightarrow> j2 | Some n \<Rightarrow> j2\<lparr>jSnapshotBytes := n, jUpdatedAt := oClock w2 (oTick w2)\<rparr>)"
  have "ms_jobs (oStore w3) i = Some j3 \<and> \<not> rtPendingBytesSet rt3 \<and> \<not> rtPendingTokensSet rt3
      \<and> \<not> rtPendingProgress rt3"
  proof (cases ?bt)
    case None
    then show ?thesis using fb ft' tok by (simp add: flush_bytes_def j3_def)
  next
    case (Some n)
    with fb ft' tok have "rt3 = rt2\<lparr>rtPendingBytesSet := False\<rparr>"
      and "w3 = snd (on_store (\<lambda>t. SetSnapshotBytes t i n) w2)"
      by (simp_all add: flush_bytes_def)
    with ft' st2 Some show ?thesis
      by (simp add: on_store_snd SetSnapshotBytes_def on_job_jobs j3_def)
  qed
  moreover have "shown_progress j3 = shown_progress j1" "(jInputTokens j3, jOutputTokens j3) =
        (case ?tk of None \<Rightarrow> (jInputTokens j, jOutputTokens j) | Some t \<Rightarrow> t)"
    "jSnapshotBytes j3 = (case ?bt of None \<Rightarrow> jSnapshotBytes j | Some n \<Rightarrow> n)"
    using sel2 tok by (auto simp: j3_def shown_progress_def split: option.split)
  ultimately show ?thesis
    using shown by (intro exI [of _ j3]) (simp add: y)
qed

theorem flush_stores_the_last_reports_witness:
  "\<exists>j'. ms_jobs (oStore (snd (let x = fold do_report [RProgress (Fin 2) ''a'' ''m'' (Fin 0), RTokens 3 4,
       RProgress (Fin (1/2)) ''b'' ''n'' (Fin 0)] (newRuntime ''a'', demo_orch demo_store)
     in flush (fst x) (snd x)))) ''a'' = Some j' \<and> jProgressPhase j' = ''b'' \<and> jOutputTokens j' = 4"
  using flush_stores_the_last_reports [of "demo_orch demo_store" "''a''" demo_job
      "[RProgress (Fin 2) ''a'' ''m'' (Fin 0), RTokens 3 4, RProgress (Fin (1/2)) ''b'' ''n'' (Fin 0)]"]
  by (auto simp: shown_progress_def IsTerminal_def Let_def)

section \<open>What a run needs from its surroundings\<close>

text \<open>
  The part of the state that decides the fate of job \<open>i\<close>, and an environment that leaves it
  alone: the closure may report, read the clock and let any other job proceed, but nobody
  cancels, claims, reaps or rewrites job \<open>i\<close> while it runs. \<open>out n\<close> is what attempt \<open>n\<close>
  returns.
\<close>

definition same_run :: "string \<Rightarrow> orch \<Rightarrow> orch \<Rightarrow> bool" where
  "same_run i v w \<longleftrightarrow>
     map_option (\<lambda>j. (jStatus j, jRetryCount j)) (ms_jobs (oStore v) i) =
       map_option (\<lambda>j. (jStatus j, jRetryCount j)) (ms_jobs (oStore w) i)
   \<and> (i \<in> oFinalizing v \<longleftrightarrow> i \<in> oFinalizing w) \<and> (i \<in> oCancelled v \<longleftrightarrow> i \<in> oCancelled w)
   \<and> cfgRetry (oCfg v) = cfgRetry (oCfg w)"

definition quiet :: "string \<Rightarrow> (int \<Rightarrow> go_error option) \<Rightarrow> run_env \<Rightarrow> bool" where
  "quiet i out env \<longleftrightarrow>
     (\<forall>n rt w. rtJobID rt = i \<longrightarrow> (\<exists>rt' w'. envRun env n rt w = (out n, rt', w') \<and> rtJobID rt' = i \<and> same_run i w' w))
   \<and> (\<forall>n w. \<exists>w'. envCooldown env n w = (False, w') \<and> same_run i w' w)
   \<and> (\<forall>n w. \<exists>w'. envBackoff env n w = (False, w') \<and> same_run i w' w)
   \<and> (\<forall>n w. same_run i (envDecided env n w) w)
   \<and> (\<forall>n w. same_run i (envFlushed env n w) w)"

lemma same_run_refl [simp]: "same_run i w w"
  by (simp add: same_run_def)

lemma same_run_trans: "same_run i u v \<Longrightarrow> same_run i v w \<Longrightarrow> same_run i u w"
  by (simp add: same_run_def)

lemma same_run_silent: "silent v w \<Longrightarrow> same_run i v w"
  by (simp add: same_run_def silent_def same_core_def)

lemma same_runD:
  assumes "same_run i v w"
  shows "job_status (oStore v) i = job_status (oStore w) i" "i \<in> oFinalizing v \<longleftrightarrow> i \<in> oFinalizing w"
    "isCancelled i v \<longleftrightarrow> isCancelled i w" "cfgRetry (oCfg v) = cfgRetry (oCfg w)"
proof -
  have "map_option fst (map_option (\<lambda>j. (jStatus j, jRetryCount j)) (ms_jobs (oStore v) i)) =
      map_option fst (map_option (\<lambda>j. (jStatus j, jRetryCount j)) (ms_jobs (oStore w) i))"
    using assms by (simp add: same_run_def)
  then show "job_status (oStore v) i = job_status (oStore w) i"
    by (simp add: job_status_def option.map_comp comp_def)
qed (use assms in \<open>simp_all add: same_run_def isCancelled_def\<close>)

text \<open>Store writes that keep status and retry count of the run's job.\<close>

lemma same_run_on_job:
  assumes "\<And>now j. jStatus (f now j) = jStatus j" and "\<And>now j. jRetryCount (f now j) = jRetryCount j"
  shows "same_run i (snd (on_store (\<lambda>now. on_job k (f now)) w)) w"
  using assms by (auto simp: same_run_def on_store_snd on_job_jobs option.map_comp comp_def)

lemma progress_write_retry [simp]: "jRetryCount (progress_write t p ph m tps j) = jRetryCount j"
  by (simp add: progress_write_def Let_def)

lemma same_run_progress: "same_run i (snd (on_store (\<lambda>now. SetProgress now k p ph m tps) w)) w"
  unfolding SetProgress_def [abs_def] by (rule same_run_on_job) simp_all

lemma same_run_flush: "same_run i (snd (flush rt w)) w"
proof -
  have wp: "same_run i (snd (writeProgressLocked now rt w)) w" for now rt w
  proof (cases "on_store (\<lambda>t. SetProgress t (rtJobID rt) (rtLastProgress rt) (rtLastPhase rt)
        (rtLastMessage rt) (rtLastThroughputTPS rt)) w")
    case (Pair e w1)
    then have w1: "same_run i w1 w" by (metis same_run_progress snd_conv)
    have "silent (snd (writeProgressLocked now rt w)) w1"
      by (cases e) (simp_all add: writeProgressLocked_def Pair Let_def)
    with w1 show ?thesis by (blast intro: same_run_trans same_run_silent)
  qed
  have fp: "same_run i (snd (flush_progress rt w)) w" for rt w
  proof (cases "rtPendingProgress rt")
    case True
    have "same_run i (snd (read_clock w)) w" by (simp add: same_run_def)
    with wp [of _ rt "snd (read_clock w)"] True show ?thesis
      by (auto simp: flush_progress_def case_prod_beta intro: same_run_trans)
  qed (simp add: flush_progress_def)
  have ft: "same_run i (snd (flush_tokens rt w)) w" for rt w
    by (simp add: flush_tokens_def SetTokens_def [abs_def] same_run_on_job)
  have fb: "same_run i (snd (flush_bytes rt w)) w" for rt w
    by (simp add: flush_bytes_def SetSnapshotBytes_def [abs_def] same_run_on_job)
  show ?thesis
    using fp ft fb unfolding flush_def Let_def case_prod_beta by (blast intro: same_run_trans)
qed

lemma same_run_marks [simp]:
  "same_run i (setRunCancel k v) w = same_run i v w"
  "same_run i (clearRunCancel k v) w = same_run i v w"
  "same_run i (cancelActiveRun k v) w = same_run i v w"
  "same_run i (v\<lparr>oBreaker := b\<rparr>) w = same_run i v w"
  "same_run i (v\<lparr>oTick := n\<rparr>) w = same_run i v w"
  by (simp_all add: same_run_def setRunCancel_def clearRunCancel_def cancelActiveRun_def)

lemma same_run_AppendJobLog: "same_run i (snd (AppendJobLog k lv ph ev m pl v)) v"
  by (rule same_run_silent) simp

section \<open>One attempt, undisturbed\<close>

lemma wait_for_breaker_quiet:
  assumes "quiet i out env"
  obtains w' where "wait_for_breaker env i req n w = (False, w')" and "same_run i w' w"
proof -
  let ?b = "waitDuration (oClock w (oTick w)) (rSubsystem req) (oBreaker w)"
  let ?w1 = "w\<lparr>oTick := Suc (oTick w), oBreaker := snd ?b\<rparr>"
  show thesis
  proof (cases "0 < fst ?b")
    case False
    then have "wait_for_breaker env i req n w = (False, ?w1)"
      by (simp add: wait_for_breaker_def read_clock_def case_prod_beta)
    then show thesis by (rule that) simp
  next
    case True
    let ?w2 = "snd (on_store (\<lambda>now. SetProgress now i progress_002 ''backoff''
                          ''Waiting for model backend to recover'' (Fin 0)) ?w1)"
    let ?w4 = "snd (AppendJobLog i LogLevelWarn ''backoff'' ''breaker_backoff''
                          ''Waiting for model backend to recover''
                          [(''cooldown_ms'', PInt (Milliseconds (fst ?b)))] (publish_progress i ?w2))"
    have "same_run i ?w2 ?w1" by (rule same_run_progress)
    then have "same_run i ?w2 w" by (rule same_run_trans) simp
    moreover have "same_run i ?w4 ?w2" by (rule same_run_silent) simp
    ultimately have w4: "same_run i ?w4 w" by (blast intro: same_run_trans)
    obtain w' where w': "envCooldown env n ?w4 = (False, w')" "same_run i w' ?w4"
      using assms unfolding quiet_def by blast
    have "wait_for_breaker env i req n w = (False, w')"
      using True w'(1) by (simp add: wait_for_breaker_def read_clock_def case_prod_beta Let_def)
    then show thesis using that same_run_trans [OF w'(2) w4] by blast
  qed
qed


text \<open>The run's job while its run is in control, with \<open>r\<close> retries so far.\<close>

definition running :: "string \<Rightarrow> int \<Rightarrow> RetryPolicy \<Rightarrow> orch \<Rightarrow> bool" where
  "running i r pol w \<longleftrightarrow> (\<exists>j. ms_jobs (oStore w) i = Some j \<and> jStatus j = StatusGenerating \<and> jRetryCount j = r)
     \<and> i \<notin> oCancelled w \<and> cfgRetry (oCfg w) = pol"

lemma running_same: "same_run i v w \<Longrightarrow> running i r pol v \<longleftrightarrow> running i r pol w"
  by (auto simp: running_def same_run_def map_option_case split: option.splits)

lemma on_job_at: "ms_jobs s i = Some j \<Longrightarrow> ms_jobs (snd (on_job i f s)) i = Some (f j)"
  by (simp add: on_job_upd)

lemma running_obtain:
  assumes "running i r pol w"
  obtains j where "ms_jobs (oStore w) i = Some j" and "jStatus j = StatusGenerating"
    and "jRetryCount j = r" and "\<not> IsTerminal (jStatus j)"
  using assms by (auto simp: running_def IsTerminal_def)

lemma wait_for_retry_quiet:
  assumes "quiet i out env" and "running i r pol w" and "i \<notin> oFinalizing w"
  obtains w' where "wait_for_retry rnd conv env i n m w = (False, w')"
    and "running i (if 1 < n then wrap64 (r + 1) else r) pol w'" and "i \<notin> oFinalizing w'"
proof (cases "1 < n")
  case False
  then show thesis using that assms by (simp add: wait_for_retry_def)
next
  case True
  let ?pl = "[(''attempt'', PInt n), (''max_attempts'', PInt m),
      (''backoff_ms'', PInt (Milliseconds (BackoffFor rnd conv (cfgRetry (oCfg w)) n)))]"
  let ?w1 = "snd (AppendJobLog i LogLevelWarn ''retry'' ''retry_scheduled''
       ''Retrying job after transient failure'' ?pl w)"
  obtain w2 where w2: "envBackoff env n ?w1 = (False, w2)" "same_run i w2 ?w1"
    using assms(1) unfolding quiet_def by blast
  have s: "same_run i w2 w" using same_run_trans [OF w2(2) same_run_AppendJobLog] .
  have r2: "running i r pol w2" using assms(2) running_same [OF s] by simp
  let ?w' = "snd (on_store (\<lambda>now. IncrementRetry now i) w2)"
  have "wait_for_retry rnd conv env i n m w = (False, ?w')"
    using True w2(1) by (simp add: wait_for_retry_def Let_def)
  moreover have "running i (wrap64 (r + 1)) pol ?w'"
  proof -
    obtain j where j: "ms_jobs (oStore w2) i = Some j" "jStatus j = StatusGenerating"
      "jRetryCount j = r" "\<not> IsTerminal (jStatus j)" using r2 by (rule running_obtain)
    then show ?thesis
      using r2 by (simp add: running_def on_store_snd IncrementRetry_def on_job_at)
  qed
  moreover have "i \<notin> oFinalizing ?w'"
    using same_runD(2) [OF s] assms(3) by (simp add: on_store_snd)
  ultimately show thesis using that True by simp
qed

text \<open>How the finalizers leave the job of a run that was in control.\<close>

lemma finalizeReady_running:
  assumes "running i r pol w"
  obtains j where "ms_jobs (oStore (finalizeReady i req w)) i = Some j" and "jStatus j = StatusReady"
    and "jRetryCount j = r" and "jErrorCode j = []"
proof -
  from assms obtain j where j: "ms_jobs (oStore w) i = Some j" "jStatus j = StatusGenerating"
    "jRetryCount j = r" "\<not> IsTerminal (jStatus j)" by (rule running_obtain)
  have "ms_jobs (oStore (finalizeReady i req w)) =
      ms_jobs (snd (SetStatus (oClock w (oTick w)) i StatusReady (oStore w)))"
    using finalizeReady_split [of i req w] by (auto simp: store_on_store dest: silent_jobs)
  then have "ms_jobs (oStore (finalizeReady i req w)) i = Some (status_write (oClock w (oTick w)) StatusReady j)"
    by (simp add: SetStatus_def on_job_at [OF j(1)])
  then show thesis by (rule that) (simp_all add: status_write_def j Let_def)
qed

lemma finalizeCancelled_running:
  assumes "running i r pol w"
  obtains j where "ms_jobs (oStore (finalizeCancelled i w)) i = Some j" and "jStatus j = StatusCancelled"
    and "jRetryCount j = r"
proof -
  from assms obtain j where j: "ms_jobs (oStore w) i = Some j" "jStatus j = StatusGenerating"
    "jRetryCount j = r" "\<not> IsTerminal (jStatus j)" by (rule running_obtain)
  have "ms_jobs (oStore (finalizeCancelled i w)) =
      ms_jobs (snd (SetStatus (oClock w (oTick w)) i StatusCancelled (oStore w)))"
    using finalizeCancelled_split [of i w] by (auto simp: store_on_store dest: silent_jobs)
  then have "ms_jobs (oStore (finalizeCancelled i w)) i = Some (status_write (oClock w (oTick w)) StatusCancelled j)"
    by (simp add: SetStatus_def on_job_at [OF j(1)])
  then show thesis by (rule that) (simp_all add: status_write_def j Let_def)
qed

lemma finalizeFailed_running:
  assumes "running i r pol w"
  obtains j where "ms_jobs (oStore (finalizeFailed i req err w)) i = Some j" and "jStatus j = StatusFailed"
    and "jRetryCount j = r" and "jErrorCode j = ClassifyError err" and "jErrorMessage j = error_message err"
proof -
  from assms obtain j where j: "ms_jobs (oStore w) i = Some j" "jStatus j = StatusGenerating"
    "jRetryCount j = r" "\<not> IsTerminal (jStatus j)" by (rule running_obtain)
  obtain u0 t where "silent u0 w" and "ms_jobs (oStore (finalizeFailed i req err w)) =
      ms_jobs (snd (SetError t i (ClassifyError err) (error_message err) (oStore u0)))"
    using finalizeFailed_split [of i req err w] by (auto simp: store_on_store dest: silent_jobs)
  then have "ms_jobs (oStore (finalizeFailed i req err w)) i =
      Some (error_write t (ClassifyError err) (error_message err) j)"
    using silent_jobs [of u0 w] j(1) by (simp add: SetError_def on_job_at)
  then show thesis by (rule that) (simp_all add: error_write_def j)
qed

text \<open>The verdict on an attempt: tried again, or the last one.\<close>

definition retried :: "(int \<Rightarrow> go_error option) \<Rightarrow> int \<Rightarrow> int \<Rightarrow> bool" where
  "retried out m n \<longleftrightarrow> \<not> asks_cancel (out n) \<and> ShouldRetryWithMax n m (out n)"

definition run_verdict :: "go_error option \<Rightarrow> Job \<Rightarrow> bool" where
  "run_verdict err j \<longleftrightarrow> (case err of None \<Rightarrow> jStatus j = StatusReady \<and> jErrorCode j = []
     | Some e \<Rightarrow> if asks_cancel err then jStatus j = StatusCancelled
                 else jStatus j = StatusFailed \<and> jErrorCode j = ClassifyError err \<and> jErrorMessage j = err_text e)"

lemma quiet_interference:
  assumes "quiet i out env"
  shows "same_run i (envDecided env n w) w" and "same_run i (envFlushed env n w) w"
  using assms by (simp_all add: quiet_def)

lemma after_run_quiet:
  assumes "quiet i out env" and "running i r pol w" and "i \<notin> oFinalizing w" and "rtJobID rt = i"
  obtains (retry) e w' where "out n = Some e" and "retried out m n"
      and "after_run env i req n m (out n) rt w = (Retry e, w')"
      and "running i r pol w'" and "i \<notin> oFinalizing w'"
  | (returned) w' j where "\<not> retried out m n"
      and "after_run env i req n m (out n) rt w = (Return, w')"
      and "ms_jobs (oStore w') i = Some j" and "run_verdict (out n) j" and "jRetryCount j = r"
  | (break) e w' where "out n = Some e" and "\<not> retried out m n" and "\<not> asks_cancel (out n)"
      and "after_run env i req n m (out n) rt w = (Break e True, w')" and "running i r pol w'"
proof -
  let ?claim = "out n = None \<or> asks_cancel (out n) \<or> \<not> ShouldRetryWithMax n m (out n)"
  define w1 where "w1 = (if ?claim then w\<lparr>oFinalizing := insert i (oFinalizing w)\<rparr> else w)"
  define w3 where "w3 = clearRunCancel i (cancelActiveRun i (envDecided env n w1))"
  define w4 where "w4 = envFlushed env n (snd (flush rt w3))"
  have nc: "\<not> isCancelled i w" using assms(2) by (simp add: running_def isCancelled_def)
  have r1: "running i r pol w1" using assms(2) by (simp add: running_def w1_def)
  have s: "same_run i w4 w1"
  proof -
    have "same_run i w3 w1" using quiet_interference(1) [OF assms(1)] by (simp add: w3_def)
    then have "same_run i (snd (flush rt w3)) w1" using same_run_flush by (rule same_run_trans [rotated])
    then show ?thesis using quiet_interference(2) [OF assms(1)] unfolding w4_def by (rule same_run_trans [rotated])
  qed
  have r4: "running i r pol w4" using r1 running_same [OF s] by simp
  have nc4: "\<not> isCancelled i w4" using r4 by (simp add: running_def isCancelled_def)
  have c: "(if out n = None \<or> asks_cancel (out n) \<or> isCancelled i w \<or> \<not> ShouldRetryWithMax n m (out n)
      then claimFinalization i w else (False, w)) = (?claim, w1)"
    using nc assms(3) by (auto simp: claimFinalization_def w1_def)
  have run: "after_run env i req n m (out n) rt w = (case out n of
            None \<Rightarrow> (Return, finalizeReady i req w4)
          | Some e \<Rightarrow>
              if asks_cancel (out n) then (Return, finalizeCancelled i w4)
              else if \<not> ShouldRetryWithMax n m (out n) then (Break e ?claim, w4)
              else (Retry e, w4))"
    unfolding after_run_def Let_def c prod.case w3_def [symmetric] w4_def [symmetric]
    using nc4 by (auto split: option.split)
  show thesis
  proof (cases "out n")
    case None
    then have "\<not> retried out m n" by (simp add: retried_def ShouldRetryWithMax_def)
    with None show thesis
      using finalizeReady_running [OF r4, of req] returned run by (simp add: run_verdict_def) metis
  next
    case (Some e)
    consider "asks_cancel (out n)" | "\<not> asks_cancel (out n)" "\<not> ShouldRetryWithMax n m (out n)"
      | "\<not> asks_cancel (out n)" "ShouldRetryWithMax n m (out n)" by blast
    then show thesis
    proof cases
      case 1
      then show thesis
        using finalizeCancelled_running [OF r4] returned run Some
        by (simp add: run_verdict_def retried_def) metis
    next
      case 2
      then show thesis using break [of e w4] run Some r4 by (simp add: retried_def)
    next
      case 3
      have "i \<notin> oFinalizing w4" using same_runD(2) [OF s] assms(3) 3 Some by (simp add: w1_def)
      with 3 show thesis using retry [of e w4] run Some r4 by (simp add: retried_def)
    qed
  qed
qed


section \<open>All attempts, undisturbed\<close>

lemma newRuntime_id [simp]: "rtJobID (newRuntime i) = i"
  by (simp add: newRuntime_def)

lemma run_attempt_quiet:
  fixes n :: int
  assumes "quiet i out env" and "running i r pol w" and "i \<notin> oFinalizing w"
  defines "r' \<equiv> if 1 < n then wrap64 (r + 1) else r"
  obtains (retry) e w' where "out n = Some e" and "retried out m n"
      and "run_attempt rnd conv env i req n m w = (Retry e, w')"
      and "running i r' pol w'" and "i \<notin> oFinalizing w'"
  | (returned) w' j where "\<not> retried out m n"
      and "run_attempt rnd conv env i req n m w = (Return, w')"
      and "ms_jobs (oStore w') i = Some j" and "run_verdict (out n) j" and "jRetryCount j = r'"
  | (break) e w' where "out n = Some e" and "\<not> retried out m n" and "\<not> asks_cancel (out n)"
      and "run_attempt rnd conv env i req n m w = (Break e True, w')" and "running i r' pol w'"
proof -
  obtain w1 where w1: "wait_for_breaker env i req n w = (False, w1)" "same_run i w1 w"
    using wait_for_breaker_quiet [OF assms(1)] .
  have "running i r pol w1" "i \<notin> oFinalizing w1"
    using assms(2,3) running_same [OF w1(2)] same_runD(2) [OF w1(2)] by simp_all
  then obtain w2 where w2: "wait_for_retry rnd conv env i n m w1 = (False, w2)"
    "running i r' pol w2" "i \<notin> oFinalizing w2"
    using wait_for_retry_quiet [OF assms(1)] unfolding r'_def by metis
  obtain rt w3 where w3: "envRun env n (newRuntime i) (setRunCancel i w2) = (out n, rt, w3)"
    "rtJobID rt = i" "same_run i w3 (setRunCancel i w2)"
    using assms(1) unfolding quiet_def by (metis newRuntime_id)
  have s: "same_run i (setRunCancel i w2) w2" by simp
  have w3': "running i r' pol w3" "i \<notin> oFinalizing w3"
    using w2(2,3) running_same [OF same_run_trans [OF w3(3) s]]
      same_runD(2) [OF same_run_trans [OF w3(3) s]] by simp_all
  have run: "run_attempt rnd conv env i req n m w = after_run env i req n m (out n) rt w3"
    by (simp add: run_attempt_def w1(1) w2(1) w3(1))
  show thesis
    using after_run_quiet [OF assms(1) w3' w3(2), of n m req] retry returned break
    unfolding run by blast
qed


lemma retried_below: "retried out m n \<Longrightarrow> n < m"
  by (auto simp: retried_def dest: ShouldRetryWithMax_bound)

lemma run_loop_quiet:
  assumes "quiet i out env" and "0 < n" and "1 \<le> a" and "a + int n = m + 1" and "m < 2 ^ 63"
    and "running i (if 1 < a then a - 2 else 0) pol w" and "i \<notin> oFinalizing w"
  shows "\<exists>k ex w' j. a \<le> k \<and> k \<le> m \<and> (\<forall>b. a \<le> b \<and> b < k \<longrightarrow> retried out m b) \<and> \<not> retried out m k
    \<and> run_loop rnd conv env i req m n a lastErr w = (ex, w')
    \<and> ms_jobs (oStore (finish_loop i req ex w')) i = Some j \<and> run_verdict (out k) j \<and> jRetryCount j = k - 1"
  using assms(2-)
proof (induction n arbitrary: a w lastErr)
  case (Suc n)
  let ?r = "if 1 < a then a - 2 else (0::int)"
  have r': "(if 1 < a then wrap64 (?r + 1) else ?r) = a - 1"
    using Suc.prems(2-4) by (auto simp: wrap64_id)
  show ?case
  proof (rule run_attempt_quiet [OF assms(1) Suc.prems(5,6), of a m rnd conv req])
    fix e w1
    assume e: "out a = Some e" "retried out m a" "run_attempt rnd conv env i req a m w = (Retry e, w1)"
      and r1: "running i (if 1 < a then wrap64 (?r + 1) else ?r) pol w1" "i \<notin> oFinalizing w1"
    have "a < m" using e(2) by (rule retried_below)
    then have n: "0 < n" "1 \<le> a + 1" "a + 1 + int n = m + 1" using Suc.prems by auto
    have run1: "running i (if 1 < a + 1 then a + 1 - 2 else 0) pol w1"
      using r1(1) Suc.prems(2) unfolding r' by simp
    from Suc.IH [OF n Suc.prems(4) run1 r1(2)] obtain k ex w' j where IH:
      "a + 1 \<le> k" "k \<le> m" "\<forall>b. a + 1 \<le> b \<and> b < k \<longrightarrow> retried out m b" "\<not> retried out m k"
      "run_loop rnd conv env i req m n (a + 1) (Some e) w1 = (ex, w')"
      "ms_jobs (oStore (finish_loop i req ex w')) i = Some j" "run_verdict (out k) j" "jRetryCount j = k - 1"
      by blast
    have "retried out m b" if "a \<le> b \<and> b < k" for b
      using that IH(3) e(2) by (cases "b = a") auto
    then show ?thesis
      using IH e(3) by (intro exI [of _ k] exI [of _ ex] exI [of _ w'] exI [of _ j]) simp
  next
    fix w1 j
    assume "\<not> retried out m a" "run_attempt rnd conv env i req a m w = (Return, w1)"
      "ms_jobs (oStore w1) i = Some j" "run_verdict (out a) j"
      "jRetryCount j = (if 1 < a then wrap64 (?r + 1) else ?r)"
    then show ?thesis
      unfolding r' using Suc.prems(3)
      by (intro exI [of _ a] exI [of _ LReturn] exI [of _ w1] exI [of _ j]) (auto simp: finish_loop_def)
  next
    fix e w1
    assume e: "out a = Some e" "\<not> retried out m a" "\<not> asks_cancel (out a)"
      "run_attempt rnd conv env i req a m w = (Break e True, w1)"
      and r1: "running i (if 1 < a then wrap64 (?r + 1) else ?r) pol w1"
    from finalizeFailed_running [OF r1, of req "Some e"] obtain j where j:
      "ms_jobs (oStore (finalizeFailed i req (Some e) w1)) i = Some j" "jStatus j = StatusFailed"
      "jRetryCount j = a - 1" "jErrorCode j = ClassifyError (Some e)" "jErrorMessage j = err_text e"
      unfolding r' by (auto simp: error_message_def)
    then show ?thesis
      using e Suc.prems(3)
      by (intro exI [of _ a] exI [of _ "LBreak (Some e) (Some True)"] exI [of _ w1] exI [of _ j])
        (auto simp: finish_loop_def run_verdict_def)
  qed
qed simp

lemma start_run_running:
  assumes "ms_jobs (oStore w) i = Some j" and "i \<notin> oCancelled w" and "cfgRetry (oCfg w) = pol"
  shows "running i (jRetryCount j) pol (start_run i w)"
    and "oFinalizing (start_run i w) = oFinalizing w" and "oCfg (start_run i w) = oCfg w"
proof -
  let ?u = "snd (on_store (\<lambda>now. SetStatus now i StatusGenerating) w)"
  have s: "silent (start_run i w) ?u"
    by (simp add: start_run_def Let_def split: option.split)
  have "ms_jobs (oStore ?u) i = Some (status_write (oClock w (oTick w)) StatusGenerating j)"
    using assms(1) by (simp add: store_on_store SetStatus_def on_job_at)
  moreover have "jStatus (status_write t StatusGenerating j) = StatusGenerating" for t
    by (simp add: status_write_status IsTerminal_def)
  moreover have "jRetryCount (status_write t StatusGenerating j) = jRetryCount j" for t
    by (simp add: status_write_def Let_def)
  ultimately show "running i (jRetryCount j) pol (start_run i w)"
    using same_coreD(3,12) [OF silent_core [OF s]] assms(2,3)
    by (auto simp: running_def silent_jobs [OF s] on_store_snd)
  show "oFinalizing (start_run i w) = oFinalizing w" "oCfg (start_run i w) = oCfg w"
    using same_coreD(2,12) [OF silent_core [OF s]] by (simp_all add: on_store_snd)
qed

text \<open>
  C2: the outcome of a job run. A worker takes a job that nobody has cancelled or claimed, and
  nothing else touches that job while it runs. Let \<open>out n\<close> be what the closure returns at attempt
  \<open>n\<close>. Then the run ends after attempt \<open>k\<close>, the first whose outcome is not to be retried, and \<open>k\<close> is at
  most the attempt limit. The stored job has \<open>k - 1\<close> retries and the verdict on attempt \<open>k\<close>:
  Ready with no error code, Cancelled, or Failed with the class of the error as its code and the
  error's text. The dedupe key is free again and no mark of the run is left.
\<close>

theorem run_ends_with_the_verdict:
  fixes rnd :: "rat \<Rightarrow> float64" and conv :: "float64 \<Rightarrow> duration"
  assumes "ms_jobs (oStore w) i = Some j" and "jRetryCount j = 0"
    and "i \<notin> oCancelled w" and "i \<notin> oFinalizing w" and "quiet i out env"
    and "m = (if rMaxAttempts req \<le> 0 then rpMaxAttempts (cfgRetry (oCfg w)) else rMaxAttempts req)"
    and "1 \<le> m" and "m < 2 ^ 63" and "rTargetKey req \<noteq> []"
  defines "w' \<equiv> runJob rnd conv env \<lparr>wiJobID = i, wiReq = req\<rparr> w"
  shows "(\<exists>k j'. 1 \<le> k \<and> k \<le> m \<and> (\<forall>b. 1 \<le> b \<and> b < k \<longrightarrow> retried out m b) \<and> \<not> retried out m k
      \<and> ms_jobs (oStore w') i = Some j' \<and> run_verdict (out k) j' \<and> jRetryCount j' = k - 1)
    \<and> registry_peek (rTargetKey req) (oInflight w') = ([], False)
    \<and> i \<notin> oRunCancels w' \<and> i \<notin> oCancelled w'"
proof -
  let ?w1 = "start_run i w"
  note st = start_run_running [OF assms(1,3) refl]
  have m1: "m = (if rMaxAttempts req \<le> 0 then rpMaxAttempts (cfgRetry (oCfg ?w1)) else rMaxAttempts req)"
    using st(3) assms(6) by simp
  have "running i (if 1 < (1::int) then 1 - 2 else 0) (cfgRetry (oCfg w)) ?w1" "i \<notin> oFinalizing ?w1"
    using st assms(2,4) by simp_all
  from run_loop_quiet [OF assms(5) _ _ _ assms(8) this, of "nat m" rnd conv req None] assms(7)
  obtain k ex v j' where k: "1 \<le> k" "k \<le> m" "\<forall>b. 1 \<le> b \<and> b < k \<longrightarrow> retried out m b" "\<not> retried out m k"
    and run: "run_loop rnd conv env i req m (nat m) 1 None ?w1 = (ex, v)"
    and j': "ms_jobs (oStore (finish_loop i req ex v)) i = Some j'" "run_verdict (out k) j'"
      "jRetryCount j' = k - 1" by auto
  have body: "run_body rnd conv env i req w = finish_loop i req ex v"
    using assms(3) run by (simp add: run_body_def isCancelled_def m1 [symmetric] Let_def)
  have "oStore w' = oStore (finish_loop i req ex v)"
    by (simp add: w'_def runJob_def body release_inflight_def clearRunState_def)
  moreover have "registry_peek (rTargetKey req) (oInflight w') = ([], False)"
    using assms(9) by (simp add: w'_def runJob_def release_inflight_def registry_peek_def)
  moreover have "i \<notin> oRunCancels w' \<and> i \<notin> oCancelled w'"
    by (simp add: w'_def runJob_def release_inflight_def clearRunState_def)
  ultimately show ?thesis using k j' by auto
qed

definition demo_env :: "(int \<Rightarrow> go_error option) \<Rightarrow> run_env" where
  "demo_env out = \<lparr>envRun = (\<lambda>n rt w. (out n, rt, w)), envCooldown = (\<lambda>n w. (False, w)),
     envBackoff = (\<lambda>n w. (False, w)), envDecided = (\<lambda>n w. w), envFlushed = (\<lambda>n w. w)\<rparr>"

lemma demo_env_quiet: "quiet i out (demo_env out)"
  by (simp add: quiet_def demo_env_def)

theorem run_ends_with_the_verdict_witness:
  "\<exists>j'. ms_jobs (oStore (runJob Fin (\<lambda>_. 0) (demo_env (\<lambda>_. Some (Errorf ''no such model'')))
       \<lparr>wiJobID = ''a'', wiReq = demo_req\<rparr> (demo_orch demo_store))) ''a'' = Some j'
     \<and> jStatus j' = StatusFailed \<and> jErrorMessage j' = ''no such model''"
proof -
  have a: "ms_jobs (oStore (demo_orch demo_store)) ''a'' = Some demo_job" "jRetryCount demo_job = 0"
    "''a'' \<notin> oCancelled (demo_orch demo_store)" "''a'' \<notin> oFinalizing (demo_orch demo_store)"
    by (simp_all add: demo_job_def zero_Job_def)
  have m: "2 = (if rMaxAttempts demo_req \<le> 0 then rpMaxAttempts (cfgRetry (oCfg (demo_orch demo_store)))
      else rMaxAttempts demo_req)" by (simp add: DefaultRetryPolicy_def)
  have b: "(1::int) \<le> 2" "(2::int) < 2 ^ 63" "rTargetKey demo_req \<noteq> []" by simp_all
  from run_ends_with_the_verdict [OF a demo_env_quiet [of _ "\<lambda>_. Some (Errorf ''no such model'')"] m b,
      of Fin "\<lambda>_. 0"]
  show ?thesis by (auto simp: run_verdict_def asks_cancel_def)
qed

section \<open>A run whose finalization another path holds\<close>

text \<open>An environment that keeps a predicate of the state, whatever else it does.\<close>

definition env_keeps :: "(orch \<Rightarrow> bool) \<Rightarrow> run_env \<Rightarrow> bool" where
  "env_keeps P env \<longleftrightarrow>
     (\<forall>n rt w. P w \<longrightarrow> P (snd (snd (envRun env n rt w))))
   \<and> (\<forall>n w. P w \<longrightarrow> P (snd (envCooldown env n w))) \<and> (\<forall>n w. P w \<longrightarrow> P (snd (envBackoff env n w)))
   \<and> (\<forall>n w. P w \<longrightarrow> P (envDecided env n w)) \<and> (\<forall>n w. P w \<longrightarrow> P (envFlushed env n w))"

definition held_generating :: "string \<Rightarrow> orch \<Rightarrow> bool" where
  "held_generating i w \<longleftrightarrow> job_status (oStore w) i = Some StatusGenerating \<and> i \<in> oFinalizing w"

lemma held_silent [simp]: "silent v w \<Longrightarrow> held_generating i v = held_generating i w"
  by (simp add: held_generating_def silent_status same_coreD(2) [OF silent_core])

lemma held_same_run: "same_run i v w \<Longrightarrow> held_generating i v = held_generating i w"
  using same_runD [of i v w] by (simp add: held_generating_def)

lemma held_claim:
  assumes "held_generating i w"
  shows "claimFinalization i w = (False, w)"
  using assms by (simp add: held_generating_def claimFinalization_def)

lemma held_retry: "held_generating i (snd (on_store (\<lambda>now. IncrementRetry now k) w)) = held_generating i w"
  by (auto simp: held_generating_def on_store_snd IncrementRetry_def job_status_def on_job_jobs
      option.map_comp comp_def if_distrib cong: if_cong)

lemma run_attempt_held:
  assumes "env_keeps (held_generating i) env" and "held_generating i w"
    and "run_attempt rnd conv env i req n m w = (r, w')"
  shows "held_generating i w' \<and> (\<forall>e c. r = Break e c \<longrightarrow> \<not> c)"
proof -
  obtain s1 w1 where b: "wait_for_breaker env i req n w = (s1, w1)" by (cases "wait_for_breaker env i req n w")
  have w1: "held_generating i w1"
  proof -
    let ?b = "waitDuration (oClock w (oTick w)) (rSubsystem req) (oBreaker w)"
    let ?v1 = "w\<lparr>oTick := Suc (oTick w), oBreaker := snd ?b\<rparr>"
    let ?v2 = "snd (on_store (\<lambda>now. SetProgress now i progress_002 ''backoff''
                          ''Waiting for model backend to recover'' (Fin 0)) ?v1)"
    let ?v4 = "snd (AppendJobLog i LogLevelWarn ''backoff'' ''breaker_backoff''
                          ''Waiting for model backend to recover''
                          [(''cooldown_ms'', PInt (Milliseconds (fst ?b)))] (publish_progress i ?v2))"
    have v1: "held_generating i ?v1" using assms(2) by (simp add: held_generating_def)
    moreover have "held_generating i ?v2" using v1 held_same_run [OF same_run_progress] by blast
    moreover have "silent ?v4 ?v2" by simp
    ultimately have "held_generating i ?v4" by (simp only: held_silent)
    with v1 b assms(1) show ?thesis
      by (auto simp: wait_for_breaker_def read_clock_def case_prod_beta Let_def env_keeps_def prod_eq_iff split: if_splits)
  qed
  obtain s2 w2 where c: "wait_for_retry rnd conv env i n m w1 = (s2, w2)"
    by (cases "wait_for_retry rnd conv env i n m w1")
  have w2: "held_generating i w2"
  proof (cases "1 < n")
    case True
    let ?v = "snd (AppendJobLog i LogLevelWarn ''retry'' ''retry_scheduled''
       ''Retrying job after transient failure'' [(''attempt'', PInt n), (''max_attempts'', PInt m),
      (''backoff_ms'', PInt (Milliseconds (BackoffFor rnd conv (cfgRetry (oCfg w1)) n)))] w1)"
    have "silent ?v w1" by simp
    from held_silent [OF this] w1 have "held_generating i ?v" by blast
    then have "held_generating i (snd (envBackoff env n ?v))"
      using assms(1) unfolding env_keeps_def by blast
    with True c show ?thesis
      by (auto simp: wait_for_retry_def Let_def case_prod_beta held_retry split: if_splits)
  next
    case False
    then show ?thesis using c w1 by (simp add: wait_for_retry_def)
  qed
  obtain err rt w3 where d: "envRun env n (newRuntime i) (setRunCancel i w2) = (err, rt, w3)"
    by (cases "envRun env n (newRuntime i) (setRunCancel i w2)")
  have "held_generating i (setRunCancel i w2)"
    using w2 by (simp add: held_generating_def setRunCancel_def)
  then have "held_generating i (snd (snd (envRun env n (newRuntime i) (setRunCancel i w2))))"
    using assms(1) unfolding env_keeps_def by blast
  then have w3: "held_generating i w3" using d by simp
  define w5 where "w5 = clearRunCancel i (cancelActiveRun i (envDecided env n w3))"
  define w4 where "w4 = envFlushed env n (snd (flush rt w5))"
  have w4: "held_generating i w4"
  proof -
    have "held_generating i (envDecided env n w3)" using w3 assms(1) by (simp add: env_keeps_def)
    then have "held_generating i w5"
      by (simp add: w5_def held_generating_def clearRunCancel_def cancelActiveRun_def)
    then have "held_generating i (snd (flush rt w5))" using held_same_run [OF same_run_flush] by blast
    then show ?thesis using assms(1) by (simp add: env_keeps_def w4_def)
  qed
  have cl: "(if T then claimFinalization i w3 else (False, w3)) = (False, w3)" for T
    by (simp add: held_claim [OF w3])
  have "held_generating i (snd (after_run env i req n m err rt w3))
      \<and> (\<forall>e c. fst (after_run env i req n m err rt w3) = Break e c \<longrightarrow> \<not> c)"
    unfolding after_run_def Let_def cl prod.case w5_def [symmetric] w4_def [symmetric]
    using w4 by (simp split: option.split)
  then show ?thesis
    using assms(3) w1 w2 d
    by (cases s1; cases s2)
      (auto simp: run_attempt_def b c cancel_if_claimed_def held_claim)
qed

lemma run_loop_held:
  assumes "env_keeps (held_generating i) env" and "held_generating i w"
    and "run_loop rnd conv env i req m n a lastErr w = (ex, w')"
  shows "held_generating i w' \<and> (\<forall>e c. ex = LBreak e (Some c) \<longrightarrow> \<not> c)"
  using assms(2,3)
proof (induction n arbitrary: a w lastErr)
  case (Suc n)
  obtain r w1 where r: "run_attempt rnd conv env i req a m w = (r, w1)"
    by (cases "run_attempt rnd conv env i req a m w")
  note A = run_attempt_held [OF assms(1) Suc.prems(1) r]
  show ?case
  proof (cases r)
    case (Retry e)
    then have "run_loop rnd conv env i req m n (a + 1) (Some e) w1 = (ex, w')"
      using Suc.prems(2) r by simp
    with Suc.IH A show ?thesis by blast
  qed (use A Suc.prems(2) r in auto)
qed auto

lemma runJob_held:
  assumes "ms_jobs (oStore w) i = Some j" and "i \<in> oFinalizing w" and "i \<notin> oCancelled w"
    and "env_keeps (held_generating i) env"
  shows "held_generating i (runJob rnd conv env \<lparr>wiJobID = i, wiReq = req\<rparr> w)
    \<and> i \<notin> oRunCancels (runJob rnd conv env \<lparr>wiJobID = i, wiReq = req\<rparr> w)"
proof -
  let ?w1 = "start_run i w"
  let ?m = "if rMaxAttempts req \<le> 0 then rpMaxAttempts (cfgRetry (oCfg ?w1)) else rMaxAttempts req"
  note st = start_run_running [OF assms(1,3) refl]
  have h1: "held_generating i ?w1"
    using st(1,2) assms(2) by (auto simp: held_generating_def running_def job_status_def)
  obtain ex v where loop: "run_loop rnd conv env i req ?m (nat ?m) 1 None ?w1 = (ex, v)"
    by (cases "run_loop rnd conv env i req ?m (nat ?m) 1 None ?w1")
  note L = run_loop_held [OF assms(4) h1 loop]
  have "held_generating i (finish_loop i req ex v)"
    using L by (auto simp: finish_loop_def held_claim Let_def split: loop_exit.split option.split)
  moreover have "run_body rnd conv env i req w = finish_loop i req ex v"
    using assms(3) loop by (simp add: run_body_def isCancelled_def Let_def del: if_split)
  ultimately show ?thesis
    by (simp add: runJob_def held_generating_def release_inflight_def clearRunState_def)
qed


text \<open>
  a run that does not own the finalization writes no verdict. When another path (the
  reaper, a cancellation) holds the claim on a job before its worker takes it, and nobody gives the
  claim back or changes the job, then whatever the closure returns and whether or not the
  shutdown interrupts the waits, the run leaves the job Generating, with the claim still held.
\<close>

theorem run_without_the_claim_writes_no_verdict:
  assumes "ms_jobs (oStore w) i = Some j" and "i \<in> oFinalizing w" and "i \<notin> oCancelled w"
    and "env_keeps (held_generating i) env"
  shows "job_status (oStore (runJob rnd conv env \<lparr>wiJobID = i, wiReq = req\<rparr> w)) i = Some StatusGenerating
    \<and> i \<in> oFinalizing (runJob rnd conv env \<lparr>wiJobID = i, wiReq = req\<rparr> w)"
  using runJob_held [OF assms, of rnd conv req] by (simp add: held_generating_def)

theorem run_without_the_claim_writes_no_verdict_witness:
  "job_status (oStore (runJob Fin (\<lambda>_. 0) (demo_env (\<lambda>_. None)) \<lparr>wiJobID = ''a'', wiReq = demo_req\<rparr>
     ((demo_orch demo_store)\<lparr>oFinalizing := {''a''}\<rparr>))) ''a'' = Some StatusGenerating"
  using run_without_the_claim_writes_no_verdict [of "(demo_orch demo_store)\<lparr>oFinalizing := {''a''}\<rparr>" "''a''"
      demo_job "demo_env (\<lambda>_. None)"]
  by (simp add: env_keeps_def demo_env_def)

section \<open>A job reaped while it waits\<close>

lemma reap_marks:
  "oCancelled (reapStaleJobs ks w) = oCancelled w"
  "oRunCancels (reapStaleJobs ks w) = oRunCancels w"
proof -
  have "oCancelled (reap_one now j v) = oCancelled v \<and> oRunCancels (reap_one now j v) = oRunCancels v" for now j v
    by (simp add: reap_one_def claimFinalization_def fail_claimed_def on_store_pair cancelActiveRun_def
        releaseFinalization_def release_inflight_def on_job_failed_def on_stale_job_def Let_def
        split: option.split)
  then have "oCancelled (fold (reap_one now) js v) = oCancelled v
      \<and> oRunCancels (fold (reap_one now) js v) = oRunCancels v" for now js v
    by (induction js arbitrary: v) simp_all
  then show "oCancelled (reapStaleJobs ks w) = oCancelled w" "oRunCancels (reapStaleJobs ks w) = oRunCancels w"
    by (simp_all add: reapStaleJobs_def case_prod_beta)
qed

text \<open>
  C23: a job reaped in the queue comes back to life and cannot end any more. Its work item stays
  queued when the reaper fails a stale pending job; the worker that takes it later sets it
  Generating again, which the store allows, but the reaper still holds the claim, so the run ends
  without a verdict. From then on the reaper passes over the job and \<open>Cancel\<close> is refused: it stays
  active.
\<close>

theorem reaped_in_the_queue_stays_generating:
  assumes "wf_store (oStore w)" and "enumerates (ms_jobs (oStore w)) ks"
    and "ms_jobs (oStore w) i = Some j" and "jStatus j = StatusPending"
    and "reap_due (oClock w (oTick w)) j w" and "i \<notin> oFinalizing w" and "i \<notin> oCancelled w"
    and "env_keeps (held_generating i) env"
    and "w' = runJob rnd conv env \<lparr>wiJobID = i, wiReq = req\<rparr> (reapStaleJobs ks w)"
  shows "job_status (oStore (reapStaleJobs ks w)) i = Some StatusFailed
    \<and> job_status (oStore w') i = Some StatusGenerating
    \<and> (\<forall>now job. jID job \<noteq> i \<or> reap_one now job w' = w')
    \<and> fst (Cancel i w') \<noteq> None \<and> oStore (snd (Cancel i w')) = oStore w'"
proof -
  let ?r = "reapStaleJobs ks w"
  have r: "?r = fold (reap_one (oClock w (oTick w))) (ListActive ks no_filter (oStore w)) (snd (read_clock w))"
    by (simp add: reapStaleJobs_def read_clock_def)
  have v: "oStore (snd (read_clock w)) = oStore w" "oFinalizing (snd (read_clock w)) = oFinalizing w"
    "oDraining (snd (read_clock w)) = oDraining w" "oProcessID (snd (read_clock w)) = oProcessID w"
    by simp_all
  note P = reaper.pass_over_snapshot [where now = "oClock w (oTick w)", OF assms(1,2) v, folded r]
  have act: "IsActive (jStatus j)" using assms(4) by (simp add: IsActive_def)
  obtain j' where j': "ms_jobs (oStore ?r) i = Some j'" "jStatus j' = StatusFailed"
    using P(2) [OF assms(3) act assms(5,6)] by (auto simp: failed_as_def)
  have claimed: "i \<in> oFinalizing ?r" using P(4) assms(3,5) act by auto
  have nc: "i \<notin> oCancelled ?r" using assms(7) by (simp add: reap_marks)
  have h: "held_generating i w'" "i \<notin> oRunCancels w'"
    using runJob_held [OF j'(1) claimed nc assms(8), of rnd conv req] by (simp_all add: assms(9))
  then obtain j2 where j2: "ms_jobs (oStore w') i = Some j2" "jStatus j2 = StatusGenerating" "i \<in> oFinalizing w'"
    by (auto simp: held_generating_def job_status_def)
  have "reap_one now job w' = w'" if "jID job = i" for now job
    using j2(3) that by (simp add: reap_one_def claimFinalization_def Let_def)
  moreover have "fst (Cancel i w') \<noteq> None \<and> oStore (snd (Cancel i w')) = oStore w'"
    using j2 h(2) by (simp add: Cancel_def GetByID_def claimFinalization_def Let_def IsTerminal_def)
  ultimately show ?thesis
    using j' j2 by (auto simp: job_status_def)
qed

theorem reaped_in_the_queue_stays_generating_witness:
  "job_status (oStore (runJob Fin (\<lambda>_. 0) (demo_env (\<lambda>_. None)) \<lparr>wiJobID = ''a'', wiReq = demo_req\<rparr>
     (reapStaleJobs [''a''] (demo_orch demo_store)))) ''a'' = Some StatusGenerating"
proof -
  have wf: "wf_store (oStore (demo_orch demo_store))"
    by (simp add: wf_store_def wf_job_def clamp01_def)
  have ks: "enumerates (ms_jobs (oStore (demo_orch demo_store))) [''a'']" by simp
  have j: "ms_jobs (oStore (demo_orch demo_store)) ''a'' = Some demo_job" "jStatus demo_job = StatusPending"
    by simp_all
  have due: "reap_due (oClock (demo_orch demo_store) (oTick (demo_orch demo_store))) demo_job (demo_orch demo_store)"
    by (simp add: reap_due_def) code_simp
  have free: "''a'' \<notin> oFinalizing (demo_orch demo_store)" "''a'' \<notin> oCancelled (demo_orch demo_store)"
    by simp_all
  have env: "env_keeps (held_generating ''a'') (demo_env (\<lambda>_. None))"
    by (simp add: env_keeps_def demo_env_def)
  from reaped_in_the_queue_stays_generating [OF wf ks j due free env refl, of Fin "\<lambda>_. 0" demo_req]
  show ?thesis by blast
qed

section \<open>A cancellation in the wrong moment\<close>

text \<open>
  When the closure fails with a retryable error and \<open>Cancel\<close> comes after the run looked at the
  cancel mark to decide on its claim but before it gave up its cancel function, \<open>Cancel\<close> reports
  success, yet the run stops without owning the finalization: the job stays Generating, with no
  claim, no mark and its dedupe key free.
\<close>

definition cancel_in_the_window :: run_env where
  "cancel_in_the_window = (demo_env (\<lambda>_. Some (Errorf ''connection refused'')))
     \<lparr>envDecided := (\<lambda>n w. snd (Cancel ''a'' w))\<rparr>"

theorem cancel_in_the_window_is_lost:
  "fst (Cancel ''a'' (setRunCancel ''a'' (start_run ''a'' (demo_orch demo_store)))) = None
   \<and> (let w' = runJob Fin (\<lambda>_. 0) cancel_in_the_window \<lparr>wiJobID = ''a'', wiReq = demo_req\<rparr>
                 (demo_orch demo_store)
      in job_status (oStore w') ''a'' = Some StatusGenerating \<and> ''a'' \<notin> oFinalizing w'
         \<and> ''a'' \<notin> oCancelled w' \<and> registry_peek ''k'' (oInflight w') = ([], False))"
  by code_simp

end
