(* ===== verification/LLM_Protocol.thy ===== *)
theory LLM_Protocol
  imports LLM_Run
begin

text \<open>
  The finalization protocol of \<^verbatim>\<open>internal/llm/orchestrator/orchestrator.go\<close> as a transition
  system: once a job is running, its run, the reaper and a cancellation compete for
  \<^verbatim>\<open>claimFinalization\<close>, and every other goroutine may do whatever does not decide the job's
  status. One step is one critical section: a claim, or the store writes made under it.
\<close>

datatype path = Runner | Reaper | Canceller

datatype pc = Working | Holding | HalfWritten | Ended JobStatus | Yielded

record proto =
  ptOrch :: orch
  ptAt :: "path \<Rightarrow> pc"

definition bystander :: "string \<Rightarrow> orch \<Rightarrow> orch \<Rightarrow> bool" where
  "bystander i w w' \<longleftrightarrow> job_status (oStore w') i = job_status (oStore w) i
     \<and> (i \<in> oFinalizing w' \<longleftrightarrow> i \<in> oFinalizing w)"

inductive proto_step :: "string \<Rightarrow> EnqueueRequest \<Rightarrow> proto \<Rightarrow> proto \<Rightarrow> bool"
  for i :: string and req :: EnqueueRequest where
  claim:
    "ptAt p a = Working \<Longrightarrow> claimFinalization i (ptOrch p) = (True, w) \<Longrightarrow>
     proto_step i req p \<lparr>ptOrch = w, ptAt = (ptAt p)(a := Holding)\<rparr>"
| yield:
    "ptAt p a = Working \<Longrightarrow> claimFinalization i (ptOrch p) = (False, w) \<Longrightarrow>
     proto_step i req p \<lparr>ptOrch = w, ptAt = (ptAt p)(a := Yielded)\<rparr>"
| run_ready:
    "ptAt p Runner = Holding \<Longrightarrow> proto_step i req p
       \<lparr>ptOrch = finalizeReady i req (ptOrch p), ptAt = (ptAt p)(Runner := Ended StatusReady)\<rparr>"
| run_failed:
    "ptAt p Runner = Holding \<Longrightarrow> proto_step i req p
       \<lparr>ptOrch = finalizeFailed i req err (ptOrch p), ptAt = (ptAt p)(Runner := Ended StatusFailed)\<rparr>"
| cancelled:
    "ptAt p a = Holding \<Longrightarrow> a \<noteq> Reaper \<Longrightarrow> proto_step i req p
       \<lparr>ptOrch = finalizeCancelled i (ptOrch p), ptAt = (ptAt p)(a := Ended StatusCancelled)\<rparr>"
| reap_status:
    "ptAt p Reaper = Holding \<Longrightarrow>
     on_store (\<lambda>now. SetStatus now i StatusFailed) (ptOrch p) = (None, w) \<Longrightarrow>
     proto_step i req p \<lparr>ptOrch = w, ptAt = (ptAt p)(Reaper := HalfWritten)\<rparr>"
| reap_error:
    "ptAt p Reaper = HalfWritten \<Longrightarrow>
     on_store (\<lambda>now. SetError now i code msg) (ptOrch p) = (None, w) \<Longrightarrow>
     proto_step i req p \<lparr>ptOrch = w, ptAt = (ptAt p)(Reaper := Ended StatusFailed)\<rparr>"
| reap_release:
    "ptAt p Reaper = Holding \<Longrightarrow>
     on_store (\<lambda>now. SetStatus now i StatusFailed) (ptOrch p) = (Some e, w) \<Longrightarrow>
     proto_step i req p \<lparr>ptOrch = releaseFinalization i w, ptAt = (ptAt p)(Reaper := Working)\<rparr>"
| reap_release_late:
    "ptAt p Reaper = HalfWritten \<Longrightarrow>
     on_store (\<lambda>now. SetError now i code msg) (ptOrch p) = (Some e, w) \<Longrightarrow>
     proto_step i req p \<lparr>ptOrch = releaseFinalization i w, ptAt = (ptAt p)(Reaper := Working)\<rparr>"
| others:
    "bystander i (ptOrch p) w \<Longrightarrow> proto_step i req p (p\<lparr>ptOrch := w\<rparr>)"

inductive_cases proto_stepE: "proto_step i req p q"

definition owns :: "proto \<Rightarrow> path \<Rightarrow> bool" where
  "owns p a \<longleftrightarrow> ptAt p a \<noteq> Working \<and> ptAt p a \<noteq> Yielded"

fun decided :: "pc \<Rightarrow> JobStatus option" where
  "decided HalfWritten = Some StatusFailed"
| "decided (Ended st) = Some st"
| "decided _ = None"

definition proto_inv :: "string \<Rightarrow> proto \<Rightarrow> bool" where
  "proto_inv i p \<longleftrightarrow>
     (i \<in> oFinalizing (ptOrch p) \<longleftrightarrow> (\<exists>a. owns p a))
   \<and> (\<forall>a b. owns p a \<longrightarrow> owns p b \<longrightarrow> a = b)
   \<and> (\<forall>a st. decided (ptAt p a) = Some st \<longrightarrow>
        IsTerminal st \<and> job_status (oStore (ptOrch p)) i = Some st)
   \<and> ((\<forall>a. decided (ptAt p a) = None) \<longrightarrow>
        (\<exists>st. job_status (oStore (ptOrch p)) i = Some st \<and> \<not> IsTerminal st))"

lemma undecided_bystander: "\<not> owns p a \<Longrightarrow> decided (ptAt p a) = None"
  by (auto simp: owns_def)

text \<open>The step of an owner that decides the status.\<close>

lemma proto_inv_decide:
  assumes "proto_inv i p" and "owns p a" and "decided (ptAt p a) = None" and "decided c = Some st"
    and "IsTerminal st" and "job_status (oStore w) i = Some st"
    and "oFinalizing w = oFinalizing (ptOrch p)"
  shows "proto_inv i \<lparr>ptOrch = w, ptAt = (ptAt p)(a := c)\<rparr>"
proof -
  have o: "owns \<lparr>ptOrch = w, ptAt = (ptAt p)(a := c)\<rparr> b \<longleftrightarrow> owns p b" for b
    using assms(2,4) by (auto simp: owns_def)
  have d: "decided (ptAt p b) = None" for b
  proof (cases "owns p b")
    case True
    then have "b = a" using assms(1,2) by (auto simp: proto_inv_def)
    then show ?thesis using assms(3) by simp
  next
    case False
    then show ?thesis by (auto simp: owns_def)
  qed
  show ?thesis
    using assms d by (auto simp: proto_inv_def o split: if_splits)
qed

lemma undecided_status:
  assumes "proto_inv i p" and "ptAt p a = Holding"
  obtains st where "job_status (oStore (ptOrch p)) i = Some st" and "\<not> IsTerminal st"
    and "owns p a" and "decided (ptAt p a) = None"
proof -
  have o: "owns p a" using assms(2) by (simp add: owns_def)
  have "decided (ptAt p b) = None" for b
  proof (cases "owns p b")
    case True
    then have "b = a" using assms(1) o by (auto simp: proto_inv_def)
    then show ?thesis using assms(2) by simp
  next
    case False
    then show ?thesis by (auto simp: owns_def)
  qed
  with assms o show thesis using that by (auto simp: proto_inv_def)
qed

lemma terminal_statuses [simp]:
  "IsTerminal StatusReady" "IsTerminal StatusFailed" "IsTerminal StatusCancelled"
  by (simp_all add: IsTerminal_def)

lemma proto_inv_step:
  assumes "proto_step i req p q" and "proto_inv i p"
  shows "proto_inv i q"
  using assms(1)
proof cases
  case (claim a w)
  then have w: "w = (ptOrch p)\<lparr>oFinalizing := insert i (oFinalizing (ptOrch p))\<rparr>"
    and n: "i \<notin> oFinalizing (ptOrch p)" by (auto simp: claimFinalization_def split: if_splits)
  from n assms(2) have no: "\<not> owns p b" for b by (auto simp: proto_inv_def)
  then have nd: "decided (ptAt p b) = None" for b by (rule undecided_bystander)
  have o: "owns q b \<longleftrightarrow> b = a" for b using no by (auto simp: claim(1) owns_def)
  have d: "decided (ptAt q b) = None" for b using nd by (simp add: claim(1))
  show ?thesis
    using assms(2) nd by (simp add: proto_inv_def o d) (simp add: claim(1) w)
next
  case (yield a w)
  then have "w = ptOrch p" by (auto simp: claimFinalization_def split: if_splits)
  moreover have "owns q b \<longleftrightarrow> owns p b" for b using yield by (auto simp: owns_def)
  moreover have "decided (ptAt q b) = decided (ptAt p b)" for b using yield by auto
  ultimately show ?thesis using assms(2) by (simp add: proto_inv_def yield(1))
next
  case run_ready
  obtain st where st: "job_status (oStore (ptOrch p)) i = Some st" "\<not> IsTerminal st"
    and o: "owns p Runner"
    and d: "decided (ptAt p Runner) = None"
    using assms(2) run_ready(2) by (rule undecided_status)
  show ?thesis
    unfolding run_ready(1)
    by (rule proto_inv_decide [OF assms(2) o d, where st = StatusReady])
      (simp_all add: st finalizer_status same_coreD [OF finalize_core(1)])
next
  case (run_failed err)
  obtain st where st: "job_status (oStore (ptOrch p)) i = Some st" "\<not> IsTerminal st"
    and o: "owns p Runner"
    and d: "decided (ptAt p Runner) = None"
    using assms(2) run_failed(2) by (rule undecided_status)
  show ?thesis
    unfolding run_failed(1)
    by (rule proto_inv_decide [OF assms(2) o d, where st = StatusFailed])
      (simp_all add: st finalizer_status same_coreD [OF finalize_core(3)])
next
  case (cancelled a)
  obtain st where st: "job_status (oStore (ptOrch p)) i = Some st" "\<not> IsTerminal st"
    and o: "owns p a"
    and d: "decided (ptAt p a) = None"
    using assms(2) cancelled(2) by (rule undecided_status)
  show ?thesis
    unfolding cancelled(1)
    by (rule proto_inv_decide [OF assms(2) o d, where st = StatusCancelled])
      (simp_all add: st finalizer_status same_coreD [OF finalize_core(2)])
next
  case (reap_status w)
  then have w: "w = snd (on_store (\<lambda>now. SetStatus now i StatusFailed) (ptOrch p))" by simp
  obtain st where st: "job_status (oStore (ptOrch p)) i = Some st" "\<not> IsTerminal st"
    and o: "owns p Reaper"
    and d: "decided (ptAt p Reaper) = None"
    using assms(2) reap_status(2) by (rule undecided_status)
  show ?thesis
    unfolding reap_status(1)
    by (rule proto_inv_decide [OF assms(2) o d, where st = StatusFailed])
      (simp_all add: st w on_store_snd status_SetStatus)
next
  case (reap_error code msg w)
  then have w: "w = snd (on_store (\<lambda>now. SetError now i code msg) (ptOrch p))" by simp
  have st: "job_status (oStore (ptOrch p)) i = Some StatusFailed"
    using assms(2) reap_error(2) unfolding proto_inv_def by (metis decided.simps(1))
  have "job_status (oStore w) i = Some StatusFailed" "oFinalizing w = oFinalizing (ptOrch p)"
    using st by (simp_all add: w on_store_snd status_SetError)
  moreover have "owns q b \<longleftrightarrow> owns p b" for b using reap_error by (auto simp: owns_def)
  moreover have "decided (ptAt q b) = decided (ptAt p b)" for b using reap_error by auto
  ultimately show ?thesis using assms(2) st by (simp add: proto_inv_def reap_error(1))
next
  case (reap_release e w)
  from undecided_status [OF assms(2) reap_release(2)] obtain st where
    st: "job_status (oStore (ptOrch p)) i = Some st" "\<not> IsTerminal st" by blast
  then have "ms_jobs (oStore (ptOrch p)) i \<noteq> None" by (auto simp: job_status_def)
  then have False
    using reap_release(3) by (auto simp: on_store_pair SetStatus_def on_job_error)
  then show ?thesis ..
next
  case (reap_release_late code msg e w)
  have "job_status (oStore (ptOrch p)) i = Some StatusFailed"
    using assms(2) reap_release_late(2) unfolding proto_inv_def by (metis decided.simps(1))
  then have "ms_jobs (oStore (ptOrch p)) i \<noteq> None" by (auto simp: job_status_def)
  then have False
    using reap_release_late(3) by (auto simp: on_store_pair SetError_def on_job_error)
  then show ?thesis ..
next
  case (others w)
  then show ?thesis using assms(2) by (simp add: proto_inv_def owns_def bystander_def)
qed

definition proto_start :: "orch \<Rightarrow> proto" where
  "proto_start w = \<lparr>ptOrch = w, ptAt = (\<lambda>_. Working)\<rparr>"

text \<open>
  C1: one path decides how a running job ends. From a job that is Generating and unclaimed, in
  every interleaving of its run, the reaper and a cancellation: at most one of them ever owns the
  finalization; the stored status is terminal exactly when the owner has written, and then it is
  the status that the owner wrote; the paths that lost the claim wrote nothing.
\<close>

theorem one_path_decides:
  assumes "job_status (oStore w) i = Some StatusGenerating" and "i \<notin> oFinalizing w"
    and "(proto_step i req)\<^sup>*\<^sup>* (proto_start w) p"
  shows "(\<forall>a b. owns p a \<and> owns p b \<longrightarrow> a = b)
    \<and> (\<forall>a st. ptAt p a = Ended st \<longrightarrow> job_status (oStore (ptOrch p)) i = Some st)
    \<and> (\<exists>st. job_status (oStore (ptOrch p)) i = Some st
         \<and> (IsTerminal st \<longleftrightarrow> (\<exists>a. decided (ptAt p a) = Some st)))"
proof -
  have "proto_inv i (proto_start w)"
    using assms(1,2) by (simp add: proto_inv_def proto_start_def owns_def IsTerminal_def)
  with assms(3) have inv: "proto_inv i p"
    by (induction rule: rtranclp_induct) (blast intro: proto_inv_step)+
  have "\<exists>st. job_status (oStore (ptOrch p)) i = Some st
         \<and> (IsTerminal st \<longleftrightarrow> (\<exists>a. decided (ptAt p a) = Some st))"
  proof (cases "\<exists>a st. decided (ptAt p a) = Some st")
    case True
    then show ?thesis using inv unfolding proto_inv_def by blast
  next
    case False
    then have "\<forall>a. decided (ptAt p a) = None" by auto
    then show ?thesis using inv False unfolding proto_inv_def by blast
  qed
  then show ?thesis
    using inv unfolding proto_inv_def by (metis decided.simps(2))
qed

theorem one_path_decides_witness:
  "\<exists>p. (proto_step ''a'' demo_req)\<^sup>*\<^sup>* (proto_start (start_run ''a'' (demo_orch demo_store))) p
     \<and> ptAt p Canceller = Ended StatusCancelled \<and> ptAt p Runner = Yielded
     \<and> job_status (oStore (ptOrch p)) ''a'' = Some StatusCancelled"
proof -
  let ?w = "start_run ''a'' (demo_orch demo_store)"
  have "running ''a'' (jRetryCount demo_job) (cfgRetry (oCfg (demo_orch demo_store))) ?w"
    "oFinalizing ?w = oFinalizing (demo_orch demo_store)"
    by (rule start_run_running; simp)+
  then have w: "job_status (oStore ?w) ''a'' = Some StatusGenerating" "''a'' \<notin> oFinalizing ?w"
    by (auto simp: running_def job_status_def)
  let ?v = "?w\<lparr>oFinalizing := insert ''a'' (oFinalizing ?w)\<rparr>"
  let ?p1 = "\<lparr>ptOrch = ?v, ptAt = (ptAt (proto_start ?w))(Canceller := Holding)\<rparr>"
  let ?p2 = "\<lparr>ptOrch = ?v, ptAt = (ptAt ?p1)(Runner := Yielded)\<rparr>"
  let ?p3 = "\<lparr>ptOrch = finalizeCancelled ''a'' (ptOrch ?p2), ptAt = (ptAt ?p2)(Canceller := Ended StatusCancelled)\<rparr>"
  have "proto_step ''a'' demo_req (proto_start ?w) ?p1"
    by (rule claim) (use w in \<open>simp_all add: proto_start_def claimFinalization_def\<close>)
  moreover have "proto_step ''a'' demo_req ?p1 ?p2"
    by (rule yield) (simp_all add: proto_start_def claimFinalization_def)
  moreover have "proto_step ''a'' demo_req ?p2 ?p3"
    by (rule cancelled) simp_all
  ultimately have steps: "(proto_step ''a'' demo_req)\<^sup>*\<^sup>* (proto_start ?w) ?p3"
    by (meson converse_rtranclp_into_rtranclp rtranclp.rtrancl_refl)
  have ended: "ptAt ?p3 Canceller = Ended StatusCancelled" "ptAt ?p3 Runner = Yielded" by simp_all
  from one_path_decides [OF w steps] ended
  have "job_status (oStore (ptOrch ?p3)) ''a'' = Some StatusCancelled" by blast
  with steps ended show ?thesis by blast
qed

end
