(* ===== verification/LLM_Enqueue.thy ===== *)
theory LLM_Enqueue
  imports LLM_Orchestrator
begin

text \<open>
  \<^verbatim>\<open>Enqueue\<close> as the steps between which other goroutines run: each step is one access under a lock of
  the store, of the in-flight registry or of a queue (the announcement of a new job, an event and a log
  line, touches neither jobs nor registry and is one step). Any number of calls are in progress, each
  with the uuid it will give its job; meanwhile other parts of the orchestrator write the jobs that
  exist and release keys. A call enters after validation and the check of the provider, which read
  no shared state.
\<close>

section \<open>A call in progress\<close>

datatype enqueue_pc =
    EqLookup EnqueueRequest
  | EqAttach string EnqueueRequest
  | EqFetch string EnqueueRequest
  | EqMark Job EnqueueRequest
  | EqClaim nat EnqueueRequest
  | EqInspect nat string EnqueueRequest
  | EqJoin string
  | EqJoined string
  | EqDrop nat EnqueueRequest
  | EqAdmit EnqueueRequest
  | EqPaused EnqueueRequest
  | EqCreate EnqueueRequest
  | EqAborted go_error EnqueueRequest
  | EqAnnounce Job EnqueueRequest
  | EqHandOff Job EnqueueRequest
  | EqShutdown Job EnqueueRequest
  | EqFail Job
  | EqReturn "go_error + Job option"

text \<open>
  \<open>ks\<close> is the order in which the lookup ranges over the jobs, \<open>jobID\<close> the uuid of the call and \<open>send\<close>
  the choice of the \<^verbatim>\<open>select\<close> when the queue has room and the orchestrator is shutting down.
\<close>

fun enqueue_step :: "string list \<Rightarrow> string \<Rightarrow> bool \<Rightarrow> enqueue_pc \<Rightarrow> orch \<Rightarrow> enqueue_pc \<times> orch" where
  "enqueue_step ks jobID send (EqLookup req) w =
     (case GetActiveByTargetKey ks (rTargetKey req) (oStore w) of
        Some found \<Rightarrow> (EqAttach (jID found) req, w)
      | None \<Rightarrow> (EqClaim 2 req, w))"
| "enqueue_step ks jobID send (EqAttach i req) w = (EqFetch i req, snd (on_store (\<lambda>now. IncrementAttachedRequests now i) w))"
| "enqueue_step ks jobID send (EqFetch i req) w =
     (case GetByID i (oStore w) of
        Some existing \<Rightarrow> (EqMark existing req, w)
      | None \<Rightarrow> (EqReturn (Inl (Errorf ''invalid memory address or nil pointer dereference'')), w))"
| "enqueue_step ks jobID send (EqMark existing req) w =
     (EqReturn (Inr (Some existing)), w\<lparr>oInflight := snd (registry_claim (rTargetKey req) (jID existing) (oInflight w))\<rparr>)"
| "enqueue_step ks jobID send (EqClaim 0 req) w = (EqAdmit req, w)"
| "enqueue_step ks jobID send (EqClaim (Suc n) req) w =
     (case registry_claim (rTargetKey req) jobID (oInflight w) of ((winner, ok), reg) \<Rightarrow>
        if ok then (EqAdmit req, w\<lparr>oInflight := reg\<rparr>) else (EqInspect n winner req, w\<lparr>oInflight := reg\<rparr>))"
| "enqueue_step ks jobID send (EqInspect n winner req) w =
     (case GetByID winner (oStore w) of
        Some existing \<Rightarrow> if \<not> isTerminalJob existing then (EqJoin winner, w) else (EqDrop n req, w)
      | None \<Rightarrow> (EqDrop n req, w))"
| "enqueue_step ks jobID send (EqJoin winner) w = (EqJoined winner, snd (on_store (\<lambda>now. IncrementAttachedRequests now winner) w))"
| "enqueue_step ks jobID send (EqJoined winner) w = (EqReturn (Inr (GetByID winner (oStore w))), w)"
| "enqueue_step ks jobID send (EqDrop n req) w = (EqClaim n req, release_inflight (rTargetKey req) w)"
| "enqueue_step ks jobID send (EqAdmit req) w = (if oIntakePaused w then (EqPaused req, w) else (EqCreate req, w))"
| "enqueue_step ks jobID send (EqPaused req) w =
     (EqReturn (Inl (Errorf ''llm queue intake is paused'')), release_inflight (rTargetKey req) w)"
| "enqueue_step ks jobID send (EqCreate req) w =
     (let (job, w1) = new_job jobID req w;
          (r, w2) = on_store (\<lambda>now. Create now (Some job)) w1
      in (case r of Inl e \<Rightarrow> (EqAborted e req, w2) | Inr job' \<Rightarrow> (EqAnnounce job' req, w2)))"
| "enqueue_step ks jobID send (EqAborted e req) w =
     (EqReturn (Inl (Wrapf ''persist job: '' e [])), release_inflight (rTargetKey req) w)"
| "enqueue_step ks jobID send (EqAnnounce job req) w =
     (EqHandOff job req, snd (AppendJobLog (jID job) LogLevelInfo ''queued'' ''job_created'' ''Job created and enqueued''
        [(''target_key'', PString (jTargetKey job)), (''subsystem'', PString (subsystem_string (jSubsystem job))),
         (''job_type'', PString (jJobType job)), (''artifact_id'', PString (jArtifactID job))]
        (publish \<lparr>evKind = EventCreated, evJob = job\<rparr> w)))"
| "enqueue_step ks jobID send (EqHandOff job req) w =
     (if int (length (queueFor (rPriority req) w)) < cfgQueueCapacity (oCfg w) \<and> (send \<or> \<not> oStopped w)
      then (EqReturn (Inr (Some job)), push_queue (rPriority req) \<lparr>wiJobID = jID job, wiReq = req\<rparr> w)
      else if oStopped w then (EqShutdown job req, w)
      else (EqHandOff job req, w))"
| "enqueue_step ks jobID send (EqShutdown job req) w = (EqFail job, release_inflight (rTargetKey req) w)"
| "enqueue_step ks jobID send (EqFail job) w =
     (EqReturn (Inl (Errorf ''orchestrator shutting down'')),
      snd (on_store (\<lambda>now. SetError now (jID job) ''ORCHESTRATOR_SHUTDOWN'' ''orchestrator is shutting down'') w))"
| "enqueue_step ks jobID send (EqReturn r) w = (EqReturn r, w)"

section \<open>A call that nothing disturbs\<close>

fun enqueue_run :: "nat \<Rightarrow> string list \<Rightarrow> string \<Rightarrow> bool \<Rightarrow> enqueue_pc \<Rightarrow> orch \<Rightarrow> enqueue_pc \<times> orch" where
  "enqueue_run 0 ks jobID send pc w = (pc, w)"
| "enqueue_run (Suc n) ks jobID send pc w = (case enqueue_step ks jobID send pc w of (pc', w') \<Rightarrow> enqueue_run n ks jobID send pc' w')"

fun pc_of :: "enqueue_phase \<Rightarrow> enqueue_pc" where
  "pc_of (Returned r) = EqReturn r"
| "pc_of (HandOff job req) = EqHandOff job req"

lemma enqueue_run_add:
  "enqueue_run (m + n) ks i send pc w = (case enqueue_run m ks i send pc w of (pc', w') \<Rightarrow> enqueue_run n ks i send pc' w')"
  by (induction m arbitrary: pc w) (simp_all split: prod.split)

lemma enqueue_run_return [simp]: "enqueue_run n ks i send (EqReturn r) w = (EqReturn r, w)"
  by (induction n) simp_all

lemma enqueue_run_parked:
  assumes "enqueue_step ks i send (EqHandOff job req) w = (EqHandOff job req, w)"
  shows "enqueue_run n ks i send (EqHandOff job req) w = (EqHandOff job req, w)"
  using assms by (induction n) simp_all

lemma run_handoff:
  "enqueue_run (n + 3) ks i send (EqHandOff job req) w = (case Enqueue_handoff send job req w of (ph, w') \<Rightarrow> (pc_of ph, w'))"
proof (cases "enqueue_step ks i send (EqHandOff job req) w = (EqHandOff job req, w)")
  case True
  then show ?thesis
    using enqueue_run_parked [OF True] by (auto simp: Enqueue_handoff_def Let_def split: if_splits)
next
  case False
  then show ?thesis
    by (auto simp: Enqueue_handoff_def Let_def numeral_3_eq_3 split: if_splits)
qed

lemma run_create:
  "enqueue_run (Suc (Suc m)) ks i send (EqCreate req) w
     = (case Enqueue_create i req w of
          (Returned r, w') \<Rightarrow> (EqReturn r, w')
        | (HandOff job req', w') \<Rightarrow> enqueue_run m ks i send (EqHandOff job req') w')"
  by (simp add: Enqueue_create_def case_prod_beta Let_def split: sum.split)

lemma claim_reaches:
  "\<exists>k \<le> 3 * n + 1. enqueue_run k ks i send (EqClaim n req) w
     = (case claim_loop n (rTargetKey req) i w of
          (Some job, w') \<Rightarrow> (EqReturn (Inr job), w')
        | (None, w') \<Rightarrow> (EqAdmit req, w'))"
proof (induction n arbitrary: w)
  case 0
  show ?case by (intro exI [of _ 1]) simp
next
  case (Suc n)
  obtain winner ok reg where c: "registry_claim (rTargetKey req) i (oInflight w) = ((winner, ok), reg)"
    by (metis surj_pair)
  let ?w1 = "w\<lparr>oInflight := reg\<rparr>"
  consider "ok" | j where "\<not> ok" "GetByID winner (oStore w) = Some j" "\<not> isTerminalJob j"
    | "\<not> ok" "\<And>j. GetByID winner (oStore w) = Some j \<Longrightarrow> isTerminalJob j" by blast
  then show ?case
  proof cases
    case 1
    then show ?thesis using c by (intro exI [of _ 1]) simp
  next
    case 2
    then show ?thesis using c by (intro exI [of _ 4]) (simp add: eval_nat_numeral Let_def)
  next
    case 3
    obtain k where "k \<le> 3 * n + 1" and k: "enqueue_run k ks i send (EqClaim n req) (release_inflight (rTargetKey req) ?w1)
       = (case claim_loop n (rTargetKey req) i (release_inflight (rTargetKey req) ?w1) of
            (Some job, w') \<Rightarrow> (EqReturn (Inr job), w') | (None, w') \<Rightarrow> (EqAdmit req, w'))"
      using Suc.IH by blast
    then show ?thesis using 3 c
      by (intro exI [of _ "Suc (Suc (Suc k))"]) (auto simp: Let_def split: option.split)
  qed
qed

lemma run_admit:
  "enqueue_run (n + 6) ks i send (EqAdmit req) w
     = (case (if oIntakePaused w
              then (Returned (Inl (Errorf ''llm queue intake is paused'')), release_inflight (rTargetKey req) w)
              else Enqueue_create i req w) of
          (Returned r, w') \<Rightarrow> (EqReturn r, w')
        | (HandOff job req', w') \<Rightarrow> enqueue_run (n + 3) ks i send (EqHandOff job req') w')"
proof -
  have n: "n + 6 = Suc (Suc (Suc (n + 3)))" by simp
  have step: "enqueue_run (Suc m) ks i send (EqAdmit req) w
      = enqueue_run m ks i send (if oIntakePaused w then EqPaused req else EqCreate req) w" for m
    by simp
  have paused: "enqueue_run (Suc m) ks i send (EqPaused req) w
      = (EqReturn (Inl (Errorf ''llm queue intake is paused'')), release_inflight (rTargetKey req) w)" for m
    by simp
  show ?thesis
    unfolding n step
    by (cases "oIntakePaused w") (simp_all only: if_True if_False run_create paused, simp_all)
qed

lemma run_fuel:
  assumes "k \<le> m" and "enqueue_run k ks i send pc w = (pc', w')"
  shows "enqueue_run (m + n) ks i send pc w = enqueue_run (m - k + n) ks i send pc' w'"
proof -
  have "m + n = k + (m - k + n)" using assms(1) by simp
  then show ?thesis using assms(2) by (simp only: enqueue_run_add) simp
qed

text \<open>
  Fourteen accesses are enough for every undisturbed call, and they are exactly \<open>Enqueue\<close>. What is
  proved of \<open>Enqueue\<close> holds of a call during which no other goroutine runs.
\<close>

lemma undisturbed_enqueue:
  assumes "Validate rp = (None, Some req)" and "\<not> (isLLMBackedEnqueue req \<and> TrimSpace (rLLMProvider req) = [])"
  shows "enqueue_run 14 ks i send (EqLookup req) w
     = (case Enqueue ks i send rp w of (ph, w') \<Rightarrow> (pc_of ph, w'))"
proof (cases "GetActiveByTargetKey ks (rTargetKey req) (oStore w)")
  case (Some found)
  then show ?thesis using assms
    by (auto simp: Enqueue_def Enqueue_prepare_def eval_nat_numeral Let_def split: option.split)
next
  case None
  have run: "enqueue_run 14 ks i send (EqLookup req) w = enqueue_run (7 + 6) ks i send (EqClaim 2 req) w"
    using None by (simp add: eval_nat_numeral)
  obtain res w1 where cl: "claim_loop 2 (rTargetKey req) i w = (res, w1)" by (cases "claim_loop 2 (rTargetKey req) i w")
  obtain k where k: "k \<le> 7" and reach: "enqueue_run k ks i send (EqClaim 2 req) w
     = (case res of Some job \<Rightarrow> (EqReturn (Inr job), w1) | None \<Rightarrow> (EqAdmit req, w1))"
    using claim_reaches [of 2 ks i send req w] cl by auto
  show ?thesis
  proof (cases res)
    case (Some job)
    then show ?thesis
      using run_fuel [OF k, of ks i send "EqClaim 2 req" w "EqReturn (Inr job)" w1 6] reach None assms cl
      by (simp add: run Enqueue_def Enqueue_prepare_def)
  next
    case res: None
    have "enqueue_run 14 ks i send (EqLookup req) w = enqueue_run (7 - k + 6) ks i send (EqAdmit req) w1"
      using run_fuel [OF k, of ks i send "EqClaim 2 req" w "EqAdmit req" w1 6] reach res run by simp
    then show ?thesis
      using None assms cl res
      by (auto simp: run_admit run_handoff Enqueue_def Enqueue_prepare_def
          split: prod.split enqueue_phase.split)
  qed
qed

section \<open>Calls in progress beside each other\<close>

record enqueues =
  esOrch :: orch
  esCalls :: "nat \<rightharpoonup> string \<times> enqueue_pc"

datatype enqueue_label = StartCall nat | StepCall nat | ReleaseKey string | Elsewhere

definition fresh_uuid :: "string \<Rightarrow> enqueues \<Rightarrow> bool" where
  "fresh_uuid i s \<longleftrightarrow> i \<noteq> [] \<and> ms_jobs (oStore (esOrch s)) i = None
     \<and> (\<forall>t pc. esCalls s t \<noteq> Some (i, pc))"

text \<open>
  One step of one goroutine. A call starts with a uuid of its own; a call in progress makes one
  access; the end of a run or a cancellation releases a key; anything else that happens in the
  orchestrator writes jobs that exist and leaves the registry alone.
\<close>

inductive enqueues_step :: "enqueues \<Rightarrow> enqueue_label \<Rightarrow> enqueues \<Rightarrow> bool" where
  start_call:
    "esCalls s t = None \<Longrightarrow> fresh_uuid i s \<Longrightarrow>
     enqueues_step s (StartCall t) (s\<lparr>esCalls := (esCalls s)(t \<mapsto> (i, EqLookup req))\<rparr>)"
| step_call:
    "esCalls s t = Some (i, pc) \<Longrightarrow> enumerates (ms_jobs (oStore (esOrch s))) ks \<Longrightarrow>
     enqueue_step ks i send pc (esOrch s) = (pc', w) \<Longrightarrow>
     enqueues_step s (StepCall t) \<lparr>esOrch = w, esCalls = (esCalls s)(t \<mapsto> (i, pc'))\<rparr>"
| release_key:
    "enqueues_step s (ReleaseKey key) (s\<lparr>esOrch := release_inflight key (esOrch s)\<rparr>)"
| elsewhere:
    "dom (ms_jobs (oStore w)) = dom (ms_jobs (oStore (esOrch s))) \<Longrightarrow> oInflight w = oInflight (esOrch s) \<Longrightarrow>
     enqueues_step s Elsewhere (s\<lparr>esOrch := w\<rparr>)"

inductive_cases enqueues_stepE: "enqueues_step s l s'"

text \<open>A call between its claim and its \<^verbatim>\<open>Create\<close>, and one between its lookup and its claim.\<close>

fun window :: "enqueue_pc \<Rightarrow> string option" where
  "window (EqAdmit req) = Some (rTargetKey req)"
| "window (EqCreate req) = Some (rTargetKey req)"
| "window _ = None"

fun claiming :: "enqueue_pc \<Rightarrow> string option" where
  "claiming (EqClaim n req) = Some (rTargetKey req)"
| "claiming (EqInspect n winner req) = Some (rTargetKey req)"
| "claiming (EqDrop n req) = Some (rTargetKey req)"
| "claiming _ = None"

fun uncreated :: "enqueue_pc \<Rightarrow> bool" where
  "uncreated (EqLookup req) = True"
| "uncreated pc = (window pc \<noteq> None \<or> claiming pc \<noteq> None)"

text \<open>
  A claim of a key is live when its holder is an active job with that key, or a call that is about to
  create one. A step is \<open>racing\<close> when it drops a live claim, admits a call without a claim, or
  brings a finished job back to life.
\<close>

definition holder :: "enqueues \<Rightarrow> string \<Rightarrow> string option" where
  "holder s key = registry_holder (oInflight (esOrch s)) key"

definition live_claim :: "enqueues \<Rightarrow> string \<Rightarrow> bool" where
  "live_claim s key \<longleftrightarrow> (\<exists>i. holder s key = Some i
     \<and> (active_key (oStore (esOrch s)) i = Some key
        \<or> (\<exists>t pc. esCalls s t = Some (i, pc) \<and> window pc = Some key)))"

fun drops :: "enqueue_pc \<Rightarrow> string option" where
  "drops (EqDrop n req) = Some (rTargetKey req)"
| "drops (EqPaused req) = Some (rTargetKey req)"
| "drops (EqAborted e req) = Some (rTargetKey req)"
| "drops (EqShutdown job req) = Some (rTargetKey req)"
| "drops _ = None"

fun unclaimed :: "enqueue_pc \<Rightarrow> bool" where
  "unclaimed (EqClaim 0 req) = True"
| "unclaimed _ = False"

fun racing :: "enqueues \<Rightarrow> enqueue_label \<Rightarrow> enqueues \<Rightarrow> bool" where
  "racing s (StartCall t) s' = False"
| "racing s (StepCall t) s' = (case esCalls s t of None \<Rightarrow> False
     | Some (i, pc) \<Rightarrow> unclaimed pc \<or> (\<exists>key. drops pc = Some key \<and> live_claim s key))"
| "racing s (ReleaseKey key) s' = live_claim s key"
| "racing s Elsewhere s' = (\<exists>i key. active_key (oStore (esOrch s')) i = Some key
     \<and> active_key (oStore (esOrch s)) i \<noteq> Some key)"

definition calm_step :: "enqueues \<Rightarrow> enqueues \<Rightarrow> bool" where
  "calm_step s s' \<longleftrightarrow> (\<exists>l. enqueues_step s l s' \<and> \<not> racing s l s')"

section \<open>The invariant of the claims\<close>

definition call_ok :: "orch \<Rightarrow> string \<Rightarrow> enqueue_pc \<Rightarrow> bool" where
  "call_ok w i pc \<longleftrightarrow>
     i \<noteq> [] \<and> (uncreated pc \<longrightarrow> ms_jobs (oStore w) i = None)
   \<and> (\<forall>key. window pc = Some key \<longrightarrow> registry_holder (oInflight w) key = Some i
        \<and> (\<forall>j. active_key (oStore w) j \<noteq> Some key))
   \<and> (\<forall>key j. claiming pc = Some key \<longrightarrow> active_key (oStore w) j = Some key
        \<longrightarrow> registry_holder (oInflight w) key = Some j)"

definition enqueues_inv :: "enqueues \<Rightarrow> bool" where
  "enqueues_inv s \<longleftrightarrow> unique_active (oStore (esOrch s))
     \<and> (\<forall>t u i pc pc'. esCalls s t = Some (i, pc) \<longrightarrow> esCalls s u = Some (i, pc') \<longrightarrow> t = u)
     \<and> (\<forall>t i pc. esCalls s t = Some (i, pc) \<longrightarrow> call_ok (esOrch s) i pc)"

text \<open>
  What a call knows survives a step that creates and revives nothing and changes the holder of a key
  only by claiming a free one or by dropping one that is not live.
\<close>

definition steady :: "orch \<Rightarrow> orch \<Rightarrow> bool" where
  "steady w w' \<longleftrightarrow> (\<forall>i key. active_key (oStore w') i = Some key \<longrightarrow> active_key (oStore w) i = Some key)
     \<and> (\<forall>i. ms_jobs (oStore w) i = None \<longrightarrow> ms_jobs (oStore w') i = None)"

lemma steadyD:
  assumes "steady w w'"
  shows "active_key (oStore w') i = Some key \<Longrightarrow> active_key (oStore w) i = Some key"
    and "ms_jobs (oStore w) i = None \<Longrightarrow> ms_jobs (oStore w') i = None"
  using assms by (auto simp: steady_def)

lemma steady_refl [simp]: "steady w w"
  by (simp add: steady_def)

lemma steady_same_jobs: "ms_jobs (oStore w') = ms_jobs (oStore w) \<Longrightarrow> steady w w'"
  by (simp add: steady_def active_key_def)

lemma call_ok_stable:
  assumes ok: "call_ok w i pc" and "steady w w'"
    and reg: "\<And>key. registry_holder (oInflight w') key = registry_holder (oInflight w) key
      \<or> registry_holder (oInflight w) key = None
      \<or> (registry_holder (oInflight w') key = None
          \<and> (\<forall>j. registry_holder (oInflight w) key = Some j \<longrightarrow> active_key (oStore w) j \<noteq> Some key)
          \<and> window pc \<noteq> Some key)"
  shows "call_ok w' i pc"
proof -
  note t = steadyD [OF assms(2)]
  have win: "registry_holder (oInflight w') key = Some i" "active_key (oStore w') j \<noteq> Some key"
    if "window pc = Some key" for key j
    using ok that reg [of key] t(1) [of j key] by (auto simp: call_ok_def)
  have cl: "registry_holder (oInflight w') key = Some j"
    if "claiming pc = Some key" "active_key (oStore w') j = Some key" for key j
  proof -
    have a: "active_key (oStore w) j = Some key" by (rule t(1)) (rule that(2))
    then have "registry_holder (oInflight w) key = Some j"
      using ok that(1) by (auto simp: call_ok_def)
    with a reg [of key] show ?thesis by auto
  qed
  show ?thesis
    using ok t(2) [of i] win cl by (auto simp: call_ok_def)
qed

lemma live_claimD:
  assumes "\<not> live_claim s key" and "enqueues_inv s"
  shows "registry_holder (oInflight (esOrch s)) key = Some j \<Longrightarrow> active_key (oStore (esOrch s)) j \<noteq> Some key"
    and "esCalls s t = Some (i, pc) \<Longrightarrow> window pc \<noteq> Some key"
proof -
  show "registry_holder (oInflight (esOrch s)) key = Some j \<Longrightarrow> active_key (oStore (esOrch s)) j \<noteq> Some key"
    using assms(1) by (auto simp: live_claim_def holder_def)
  show "window pc \<noteq> Some key" if call: "esCalls s t = Some (i, pc)"
  proof
    assume win: "window pc = Some key"
    have "call_ok (esOrch s) i pc" using assms(2) call by (simp add: enqueues_inv_def)
    with win have "holder s key = Some i" by (simp add: call_ok_def holder_def)
    with assms(1) call win show False unfolding live_claim_def by blast
  qed
qed

lemma holder_release:
  "registry_holder (oInflight (release_inflight k w)) key
     = (if key = k \<and> k \<noteq> [] then None else registry_holder (oInflight w) key)"
  by (simp add: release_inflight_def registry_holder_eq registry_release_def)

lemma release_sel [simp]: "oStore (release_inflight k w) = oStore w"
  by (simp add: release_inflight_def)

lemma holder_claim:
  "registry_holder (snd (registry_claim k i r)) key
     = (if key = k \<and> registry_holder r k = None \<and> i \<noteq> [] then Some i else registry_holder r key)"
  by (auto simp: registry_holder_eq registry_claim_def split: option.split)

lemma claim_won: "snd (fst (registry_claim k i r)) \<longleftrightarrow> registry_holder r k = None"
  by (auto simp: registry_holder_eq registry_claim_def split: option.split)

section \<open>Every calm step keeps the invariant\<close>

text \<open>A step of a call that creates no job: what is left to check is where the call itself has got to.\<close>

lemma step_keeps_inv:
  assumes inv: "enqueues_inv s" and at: "esCalls s t = Some (i, pc)" and "steady (esOrch s) w"
    and reg: "\<And>key. registry_holder (oInflight w) key = registry_holder (oInflight (esOrch s)) key
      \<or> registry_holder (oInflight (esOrch s)) key = None
      \<or> (registry_holder (oInflight w) key = None \<and> \<not> live_claim s key)"
    and own: "call_ok w i pc'"
  shows "enqueues_inv \<lparr>esOrch = w, esCalls = (esCalls s)(t \<mapsto> (i, pc'))\<rparr>"
proof -
  have "unique_active (oStore w)"
    using inv steadyD(1) [OF assms(3)] unique_active_mono unfolding enqueues_inv_def by blast
  moreover have "call_ok w j q" if "esCalls s u = Some (j, q)" for u j q
  proof (rule call_ok_stable)
    show "call_ok (esOrch s) j q" using inv that by (auto simp: enqueues_inv_def)
    show "steady (esOrch s) w" by fact
    show "registry_holder (oInflight w) key = registry_holder (oInflight (esOrch s)) key
        \<or> registry_holder (oInflight (esOrch s)) key = None
        \<or> (registry_holder (oInflight w) key = None
            \<and> (\<forall>j. registry_holder (oInflight (esOrch s)) key = Some j \<longrightarrow> active_key (oStore (esOrch s)) j \<noteq> Some key)
            \<and> window q \<noteq> Some key)" for key
      using reg [of key] live_claimD [OF _ inv] that by blast
  qed
  ultimately show ?thesis
    using inv at own by (auto simp: enqueues_inv_def)
qed

lemma no_new_jobs:
  "ms_jobs s i = None \<Longrightarrow> ms_jobs (snd (IncrementAttachedRequests now k s)) i = None"
  "ms_jobs s i = None \<Longrightarrow> ms_jobs (snd (SetError now k c m s)) i = None"
  by (auto simp: IncrementAttachedRequests_def SetError_def on_job_jobs)

lemma steady_increment [simp]: "steady w (snd (on_store (\<lambda>now. IncrementAttachedRequests now k) w))"
  by (simp add: steady_def on_store_snd no_new_jobs)

lemma steady_fail [simp]: "steady w (snd (on_store (\<lambda>now. SetError now k c m) w))"
  by (auto simp: steady_def on_store_snd no_new_jobs intro: active_key_SetError)

lemma on_store_inflight [simp]: "oInflight (snd (on_store f w)) = oInflight w"
  by (simp add: on_store_snd)

lemma call_ok_idle:
  "i \<noteq> [] \<Longrightarrow> \<not> uncreated pc \<Longrightarrow> window pc = None \<Longrightarrow> claiming pc = None \<Longrightarrow> call_ok w i pc"
  by (simp add: call_ok_def)

lemma claim_keeps_or_fills:
  "registry_holder (snd (registry_claim k v r)) key = registry_holder r key \<or> registry_holder r key = None"
  by (simp add: holder_claim)

lemma silent_steady: "silent v w \<Longrightarrow> steady w v"
  by (rule steady_same_jobs) (rule silent_jobs)

text \<open>The step that creates: the call holds the key and no job with it is active.\<close>

lemma create_keeps_inv:
  assumes inv: "enqueues_inv s" and at: "esCalls s t = Some (i, EqCreate req)"
    and st: "enqueue_step ks i send (EqCreate req) (esOrch s) = (pc', w)"
  shows "enqueues_inv \<lparr>esOrch = w, esCalls = (esCalls s)(t \<mapsto> (i, pc'))\<rparr>"
proof -
  let ?w = "esOrch s"
  let ?key = "rTargetKey req"
  have ok: "call_ok ?w i (EqCreate req)" using inv at by (auto simp: enqueues_inv_def)
  then have id: "i \<noteq> []" "ms_jobs (oStore ?w) i = None" and hold: "registry_holder (oInflight ?w) ?key = Some i"
    and none: "active_key (oStore ?w) j \<noteq> Some ?key" for j by (auto simp: call_ok_def)
  obtain j0 w1 where nj: "new_job i req ?w = (j0, w1)" by (cases "new_job i req ?w")
  with new_job_sel [of i req ?w] have sel: "jID j0 = i" "jTargetKey j0 = ?key" "w1 = ?w\<lparr>oTick := Suc (Suc (oTick ?w))\<rparr>"
    by auto
  let ?job = "fill_defaults (oClock w1 (oTick w1)) j0"
  have "fst (on_store (\<lambda>now. Create now (Some j0)) w1) = Inr ?job"
    and jobs: "ms_jobs (oStore (snd (on_store (\<lambda>now. Create now (Some j0)) w1))) = (ms_jobs (oStore ?w))(i \<mapsto> ?job)"
    using id sel by (simp_all add: on_store_fst on_store_snd Create_def Let_def)
  then have pc': "pc' = EqAnnounce ?job req" and w: "w = snd (on_store (\<lambda>now. Create now (Some j0)) w1)"
    using st nj by (auto simp: case_prod_beta)
  have reg: "oInflight w = oInflight ?w" using w sel by simp
  have act: "active_key (oStore w) k = (if k = i then (if IsActive (jStatus ?job) then Some ?key else None)
      else active_key (oStore ?w) k)" for k
    using jobs sel(2) by (simp add: active_key_def w)
  have "unique_active (oStore w)"
    using inv none by (auto simp: enqueues_inv_def unique_active_def act split: if_splits)
  moreover have "call_ok w j q" if call: "esCalls s u = Some (j, q)" and "u \<noteq> t" for u j q
  proof -
    have okj: "call_ok ?w j q" using inv call by (auto simp: enqueues_inv_def)
    have "j \<noteq> i" using inv call at \<open>u \<noteq> t\<close> by (auto simp: enqueues_inv_def)
    then have "window q \<noteq> Some ?key" using okj hold by (auto simp: call_ok_def)
    moreover have "uncreated q \<longrightarrow> ms_jobs (oStore w) j = None"
      using okj \<open>j \<noteq> i\<close> jobs by (simp add: call_ok_def w)
    ultimately show ?thesis
      using okj hold none by (auto simp: call_ok_def reg act split: if_splits)
  qed
  moreover have "call_ok w i pc'" by (rule call_ok_idle) (simp_all add: pc' id)
  ultimately show ?thesis
    using inv at by (auto simp: enqueues_inv_def)
qed

lemma access_keeps_inv:
  assumes inv: "enqueues_inv s" and at: "esCalls s t = Some (i, pc)"
    and ks: "enumerates (ms_jobs (oStore (esOrch s))) ks"
    and st: "enqueue_step ks i send pc (esOrch s) = (pc', w)"
    and claimed: "\<not> unclaimed pc" and calm: "\<And>key. drops pc = Some key \<Longrightarrow> \<not> live_claim s key"
  shows "enqueues_inv \<lparr>esOrch = w, esCalls = (esCalls s)(t \<mapsto> (i, pc'))\<rparr>"
proof -
  let ?w = "esOrch s"
  have ok: "call_ok ?w i pc" using inv at by (auto simp: enqueues_inv_def)
  then have id: "i \<noteq> []" by (simp add: call_ok_def)
  note keeps = step_keeps_inv [OF inv at]
  have drop: "enqueues_inv \<lparr>esOrch = w, esCalls = (esCalls s)(t \<mapsto> (i, pc'))\<rparr>"
    if "drops pc = Some key" "w = release_inflight key ?w" "call_ok w i pc'" for key
    using calm [OF that(1)] by (intro keeps that(3)) (simp_all add: that(2) steady_same_jobs holder_release)
  show ?thesis
  proof (cases pc)
    case (EqLookup req)
    show ?thesis
    proof (cases "GetActiveByTargetKey ks (rTargetKey req) (oStore ?w)")
      case None
      then have "w = ?w" "pc' = EqClaim 2 req" using st EqLookup by simp_all
      moreover have "active_key (oStore ?w) j \<noteq> Some (rTargetKey req)" for j
        by (rule GetActiveByTargetKey_None_active [OF ks None])
      ultimately show ?thesis
        using ok EqLookup by (intro keeps) (auto simp: call_ok_def)
    next
      case (Some found)
      then show ?thesis using st EqLookup id by (intro keeps call_ok_idle) auto
    qed
  next
    case (EqAttach k req)
    then show ?thesis using st id by (intro keeps call_ok_idle) auto
  next
    case (EqFetch k req)
    then show ?thesis using st id by (intro keeps call_ok_idle) (auto split: option.splits)
  next
    case (EqMark existing req)
    have w: "w = ?w\<lparr>oInflight := snd (registry_claim (rTargetKey req) (jID existing) (oInflight ?w))\<rparr>"
      and pc': "pc' = EqReturn (Inr (Some existing))" using st EqMark by auto
    show ?thesis
    proof (rule keeps)
      show "steady ?w w" by (simp add: w steady_same_jobs)
      show "call_ok w i pc'" using id pc' by (intro call_ok_idle) simp_all
      show "registry_holder (oInflight w) key = registry_holder (oInflight ?w) key
          \<or> registry_holder (oInflight ?w) key = None
          \<or> (registry_holder (oInflight w) key = None \<and> \<not> live_claim s key)" for key
        using claim_keeps_or_fills [of "rTargetKey req" "jID existing" "oInflight ?w" key] by (auto simp: w)
    qed
  next
    case (EqClaim n req)
    then obtain m where n: "n = Suc m" using claimed by (cases n) auto
    obtain winner won reg where c: "registry_claim (rTargetKey req) i (oInflight ?w) = ((winner, won), reg)"
      by (metis surj_pair)
    show ?thesis
    proof (cases won)
      case True
      then have free: "registry_holder (oInflight ?w) (rTargetKey req) = None"
        using claim_won [of "rTargetKey req" i "oInflight ?w"] c by simp
      have w: "w = ?w\<lparr>oInflight := reg\<rparr>" "pc' = EqAdmit req" using st EqClaim n c True by auto
      have held: "registry_holder reg key = (if key = rTargetKey req then Some i else registry_holder (oInflight ?w) key)" for key
        using holder_claim [of "rTargetKey req" i "oInflight ?w" key] c free id by simp
      have "active_key (oStore ?w) j \<noteq> Some (rTargetKey req)" for j
        using ok free EqClaim by (auto simp: call_ok_def)
      then show ?thesis
        using ok w EqClaim free by (intro keeps) (auto simp: call_ok_def held steady_same_jobs)
    next
      case False
      then have "reg = oInflight ?w" using c by (auto simp: registry_claim_def split: option.splits if_splits)
      then show ?thesis
        using ok st EqClaim n c False by (intro keeps) (auto simp: call_ok_def)
    qed
  next
    case (EqInspect n winner req)
    then consider "w = ?w" "pc' = EqDrop n req" | "w = ?w" "pc' = EqJoin winner"
      using st by (auto split: option.splits if_splits)
    then show ?thesis
    proof cases
      case 1
      then show ?thesis using ok EqInspect by (intro keeps) (auto simp: call_ok_def)
    next
      case 2
      then show ?thesis using id by (intro keeps call_ok_idle) simp_all
    qed
  next
    case (EqJoin winner)
    then show ?thesis using st id by (intro keeps call_ok_idle) auto
  next
    case (EqJoined winner)
    then show ?thesis using st id by (intro keeps call_ok_idle) auto
  next
    case (EqDrop n req)
    then have calm': "\<not> live_claim s (rTargetKey req)" using calm by simp
    have w: "w = release_inflight (rTargetKey req) ?w" "pc' = EqClaim n req" using st EqDrop by auto
    have held: "registry_holder (oInflight ?w) (rTargetKey req) = Some j"
      if "active_key (oStore ?w) j = Some (rTargetKey req)" for j
      using ok EqDrop that by (simp add: call_ok_def)
    have none: "active_key (oStore ?w) j \<noteq> Some (rTargetKey req)" for j
      using held [of j] live_claimD(1) [OF calm' inv, of j] by blast
    have "ms_jobs (oStore ?w) i = None" using ok EqDrop by (simp add: call_ok_def)
    with none id have "call_ok w i pc'" by (simp add: call_ok_def w)
    then show ?thesis using drop w EqDrop by simp
  next
    case (EqAdmit req)
    then have w: "w = ?w" and "pc' = EqPaused req \<or> pc' = EqCreate req"
      using st by (auto split: if_splits)
    then have "call_ok w i pc'" using ok EqAdmit by (auto simp: call_ok_def)
    then show ?thesis by (intro keeps) (simp_all add: w)
  next
    case (EqPaused req)
    then show ?thesis using st id by (intro drop call_ok_idle) auto
  next
    case (EqCreate req)
    then show ?thesis using create_keeps_inv [OF inv] at st by blast
  next
    case (EqAborted e req)
    then show ?thesis using st id by (intro drop call_ok_idle) auto
  next
    case (EqAnnounce job req)
    then have w: "silent w ?w" "pc' = EqHandOff job req" using st by auto
    then show ?thesis
      using id same_coreD(1) [OF silent_core [OF w(1)]] by (intro keeps call_ok_idle) (simp_all add: silent_steady)
  next
    case (EqHandOff job req)
    have "ms_jobs (oStore w) = ms_jobs (oStore ?w)" "oInflight w = oInflight ?w"
      "\<not> uncreated pc'" "window pc' = None" "claiming pc' = None"
      using st EqHandOff by (auto simp: push_queue_def split: if_splits JobPriority.splits)
    then show ?thesis using id by (intro keeps call_ok_idle steady_same_jobs) simp_all
  next
    case (EqShutdown job req)
    then show ?thesis using st id by (intro drop call_ok_idle) auto
  next
    case (EqFail job)
    then show ?thesis using st id by (intro keeps call_ok_idle) auto
  next
    case (EqReturn r)
    then show ?thesis using st id by (intro keeps call_ok_idle) auto
  qed
qed

lemma calm_step_inv:
  assumes "calm_step s s'" and inv: "enqueues_inv s"
  shows "enqueues_inv s'"
proof -
  obtain l where step: "enqueues_step s l s'" and calm: "\<not> racing s l s'"
    using assms(1) by (auto simp: calm_step_def)
  from step show ?thesis
  proof cases
    case (start_call t i req)
    then show ?thesis
      using inv by (auto simp: enqueues_inv_def fresh_uuid_def call_ok_def)
  next
    case (step_call t i pc ks send pc' w)
    then show ?thesis
      using access_keeps_inv [OF inv step_call(3,4,5)] calm by auto
  next
    case (release_key key)
    have quiet: "\<not> live_claim s key" using calm release_key by simp
    have "call_ok (release_inflight key (esOrch s)) i pc" if call: "esCalls s t = Some (i, pc)" for t i pc
    proof (rule call_ok_stable)
      show "call_ok (esOrch s) i pc" using inv call by (auto simp: enqueues_inv_def)
    next
      show "steady (esOrch s) (release_inflight key (esOrch s))" by (simp add: steady_same_jobs)
    qed (use live_claimD [OF quiet inv] call in \<open>auto simp: holder_release\<close>)
    then show ?thesis using inv by (auto simp: enqueues_inv_def release_key)
  next
    case (elsewhere w)
    have steady: "steady (esOrch s) w"
      using calm elsewhere by (auto simp: steady_def simp flip: domIff)
    have "call_ok w i pc" if call: "esCalls s t = Some (i, pc)" for t i pc
    proof (rule call_ok_stable [OF _ steady])
      show "call_ok (esOrch s) i pc" using inv call by (auto simp: enqueues_inv_def)
    qed (simp add: elsewhere)
    moreover have "unique_active (oStore w)"
      using inv steadyD(1) [OF steady] unique_active_mono unfolding enqueues_inv_def by blast
    ultimately show ?thesis using inv by (auto simp: enqueues_inv_def elsewhere)
  qed
qed

definition no_calls :: "orch \<Rightarrow> enqueues" where
  "no_calls w = \<lparr>esOrch = w, esCalls = Map.empty\<rparr>"

lemma calm_reachable_inv:
  assumes "unique_active (oStore w)" and "calm_step\<^sup>*\<^sup>* (no_calls w) s"
  shows "enqueues_inv s"
  using assms(2)
proof (induction rule: rtranclp_induct)
  case base
  show ?case using assms(1) by (simp add: enqueues_inv_def no_calls_def)
next
  case (step s s')
  then show ?case using calm_step_inv by blast
qed

section \<open>Two calls for one key\<close>

definition both :: "orch \<Rightarrow> string \<Rightarrow> enqueue_pc \<Rightarrow> string \<Rightarrow> enqueue_pc \<Rightarrow> enqueues" where
  "both w a p b q = \<lparr>esOrch = w, esCalls = [0 \<mapsto> (a, p), 1 \<mapsto> (b, q)]\<rparr>"

lemma both_sel [simp]:
  "esOrch (both w a p b q) = w" "esCalls (both w a p b q) 0 = Some (a, p)"
  "esCalls (both w a p b q) 1 = Some (b, q)" "esCalls (both w a p b q) (Suc 0) = Some (b, q)"
  by (simp_all add: both_def)

lemma both_first:
  assumes "enqueue_step ks a True p w = (p', w')" and "enumerates (ms_jobs (oStore w)) ks"
  shows "enqueues_step (both w a p b q) (StepCall 0) (both w' a p' b q)"
proof -
  have "both w' a p' b q = \<lparr>esOrch = w', esCalls = (esCalls (both w a p b q))(0 \<mapsto> (a, p'))\<rparr>"
    by (simp add: both_def fun_upd_twist)
  then show ?thesis using step_call [of "both w a p b q" 0 a p ks True p' w'] assms by simp
qed

lemma both_second:
  assumes "enqueue_step ks b True q w = (q', w')" and "enumerates (ms_jobs (oStore w)) ks"
  shows "enqueues_step (both w a p b q) (StepCall 1) (both w' a p b q')"
proof -
  have "both w' a p b q' = \<lparr>esOrch = w', esCalls = (esCalls (both w a p b q))(1 \<mapsto> (b, q'))\<rparr>"
    by (simp add: both_def)
  then show ?thesis using step_call [of "both w a p b q" 1 b q ks True q' w'] assms by simp
qed

lemma start_both:
  assumes "a \<noteq> b" "a \<noteq> []" "b \<noteq> []" "ms_jobs (oStore w) a = None" "ms_jobs (oStore w) b = None"
  shows "enqueues_step (no_calls w) (StartCall 0) \<lparr>esOrch = w, esCalls = [0 \<mapsto> (a, EqLookup req)]\<rparr>"
    and "enqueues_step \<lparr>esOrch = w, esCalls = [0 \<mapsto> (a, EqLookup req)]\<rparr> (StartCall 1)
           (both w a (EqLookup req) b (EqLookup req))"
proof -
  show "enqueues_step (no_calls w) (StartCall 0) \<lparr>esOrch = w, esCalls = [0 \<mapsto> (a, EqLookup req)]\<rparr>"
    using start_call [of "no_calls w" 0 a req] assms by (simp add: no_calls_def fresh_uuid_def)
  show "enqueues_step \<lparr>esOrch = w, esCalls = [0 \<mapsto> (a, EqLookup req)]\<rparr> (StartCall 1)
      (both w a (EqLookup req) b (EqLookup req))"
    using start_call [of "\<lparr>esOrch = w, esCalls = [0 \<mapsto> (a, EqLookup req)]\<rparr>" 1 b req] assms
    by (simp add: both_def fresh_uuid_def)
qed

lemma create_access:
  assumes "i \<noteq> []" and "ms_jobs (oStore w) i = None"
  obtains job w' where "enqueue_step ks i send (EqCreate req) w = (EqAnnounce job req, w')"
    and "ms_jobs (oStore w') = (ms_jobs (oStore w))(i \<mapsto> job)" and "jTargetKey job = rTargetKey req"
    and "jStatus job = StatusPending" and "oInflight w' = oInflight w"
proof -
  obtain j0 w1 where nj: "new_job i req w = (j0, w1)" by (cases "new_job i req w")
  with new_job_sel [of i req w] have sel: "jID j0 = i" "jTargetKey j0 = rTargetKey req" "jStatus j0 = StatusPending"
    "w1 = w\<lparr>oTick := Suc (Suc (oTick w))\<rparr>" by auto
  let ?now = "oClock w1 (oTick w1)"
  have "Create ?now (Some j0) (oStore w)
      = (Inr (fill_defaults ?now j0), (oStore w)\<lparr>ms_jobs := (ms_jobs (oStore w))(i \<mapsto> fill_defaults ?now j0)\<rparr>)"
    using assms sel by (simp add: Create_def Let_def)
  then show thesis
    using sel nj
    by (intro that [of "fill_defaults ?now j0" "snd (on_store (\<lambda>now. Create now (Some j0)) w1)"])
      (simp_all add: on_store_pair)
qed

lemma enumerates_insert: "enumerates m ks \<Longrightarrow> m k = None \<Longrightarrow> enumerates (m(k \<mapsto> v)) (k # ks)"
  by (auto simp: enumerates_def)

text \<open>
  The race of the claim loop. Whenever a key is free and the intake open, two concurrent calls for it
  can both create a job: the second loses the claim to the first, finds no job under the winner's id
  because the first has not stored it yet, takes the claim for stale, drops it and claims the key.
\<close>

theorem concurrent_enqueues_can_duplicate:
  assumes ks: "enumerates (ms_jobs (oStore w)) ks" and key: "rTargetKey (req :: EnqueueRequest) \<noteq> []"
    and none: "GetActiveByTargetKey ks (rTargetKey req) (oStore w) = None"
    and free: "registry_holder (oInflight w) (rTargetKey req) = None" and opened: "\<not> oIntakePaused w"
    and fresh: "a \<noteq> b" "a \<noteq> []" "b \<noteq> []" "ms_jobs (oStore w) a = None" "ms_jobs (oStore w) b = None"
  shows "\<exists>s. (\<lambda>s s'. \<exists>l. enqueues_step s l s')\<^sup>*\<^sup>* (no_calls w) s
    \<and> active_key (oStore (esOrch s)) a = Some (rTargetKey req)
    \<and> active_key (oStore (esOrch s)) b = Some (rTargetKey req)"
proof -
  let ?step = "\<lambda>s s'. \<exists>l. enqueues_step s l s'"
  let ?k = "rTargetKey req"
  have go1: "?step\<^sup>*\<^sup>* (no_calls w) (both v' a p' b q)"
    if "?step\<^sup>*\<^sup>* (no_calls w) (both v a p b q)" "enqueue_step js a True p v = (p', v')"
      "enumerates (ms_jobs (oStore v)) js" for v v' p p' q js
    by (rule rtranclp.rtrancl_into_rtrancl [OF that(1)], rule exI, rule both_first [OF that(2,3)])
  have go2: "?step\<^sup>*\<^sup>* (no_calls w) (both v' a p b q')"
    if "?step\<^sup>*\<^sup>* (no_calls w) (both v a p b q)" "enqueue_step js b True q v = (q', v')"
      "enumerates (ms_jobs (oStore v)) js" for v v' p q q' js
    by (rule rtranclp.rtrancl_into_rtrancl [OF that(1)], rule exI, rule both_second [OF that(2,3)])
  have at0: "?step\<^sup>*\<^sup>* (no_calls w) (both w a (EqLookup req) b (EqLookup req))"
    by (rule rtranclp.rtrancl_into_rtrancl [OF rtranclp.rtrancl_into_rtrancl [OF rtranclp.rtrancl_refl]],
        rule exI, rule start_both(1) [OF fresh], rule exI, rule start_both(2) [OF fresh])
  have at1: "?step\<^sup>*\<^sup>* (no_calls w) (both w a (EqClaim 2 req) b (EqLookup req))"
    by (rule go1 [OF at0 _ ks]) (simp add: none)
  have at2: "?step\<^sup>*\<^sup>* (no_calls w) (both w a (EqClaim 2 req) b (EqClaim 2 req))"
    by (rule go2 [OF at1 _ ks]) (simp add: none)
  let ?r1 = "(oInflight w)(?k \<mapsto> a)"
  let ?w1 = "w\<lparr>oInflight := ?r1\<rparr>"
  have c1: "registry_claim ?k a (oInflight w) = ((a, True), ?r1)"
    using free by (auto simp: registry_claim_def registry_holder_eq split: option.splits if_splits)
  have at3: "?step\<^sup>*\<^sup>* (no_calls w) (both ?w1 a (EqAdmit req) b (EqClaim 2 req))"
    by (rule go1 [OF at2 _ ks]) (simp add: c1 eval_nat_numeral)
  have ks1: "enumerates (ms_jobs (oStore ?w1)) ks" using ks by simp
  have at4: "?step\<^sup>*\<^sup>* (no_calls w) (both ?w1 a (EqCreate req) b (EqClaim 2 req))"
    by (rule go1 [OF at3 _ ks1]) (simp add: opened)
  have c2: "registry_claim ?k b ?r1 = ((a, False), ?r1)"
    using fresh by (simp add: registry_claim_def)
  have at5: "?step\<^sup>*\<^sup>* (no_calls w) (both ?w1 a (EqCreate req) b (EqInspect 1 a req))"
    by (rule go2 [OF at4 _ ks1]) (simp add: c2 eval_nat_numeral)
  have at6: "?step\<^sup>*\<^sup>* (no_calls w) (both ?w1 a (EqCreate req) b (EqDrop 1 req))"
    by (rule go2 [OF at5 _ ks1]) (simp add: GetByID_def fresh)
  let ?w2 = "release_inflight ?k ?w1"
  have ks2: "enumerates (ms_jobs (oStore ?w2)) ks" using ks by simp
  have at7: "?step\<^sup>*\<^sup>* (no_calls w) (both ?w2 a (EqCreate req) b (EqClaim 1 req))"
    by (rule go2 [OF at6 _ ks1]) simp
  obtain r where c3: "registry_claim ?k b (oInflight ?w2) = ((b, True), r)"
    using key by (simp add: release_inflight_def registry_claim_def)
  let ?w3 = "?w2\<lparr>oInflight := r\<rparr>"
  have ks3: "enumerates (ms_jobs (oStore ?w3)) ks" using ks by simp
  have at8: "?step\<^sup>*\<^sup>* (no_calls w) (both ?w3 a (EqCreate req) b (EqAdmit req))"
    by (rule go2 [OF at7 _ ks2]) (simp add: c3 eval_nat_numeral)
  have "\<not> oIntakePaused ?w3" using opened by (simp add: release_inflight_def)
  then have at9: "?step\<^sup>*\<^sup>* (no_calls w) (both ?w3 a (EqCreate req) b (EqCreate req))"
    by (intro go2 [OF at8 _ ks3]) simp
  obtain jb w4 where jb: "enqueue_step ks b True (EqCreate req) ?w3 = (EqAnnounce jb req, w4)"
    "ms_jobs (oStore w4) = (ms_jobs (oStore ?w3))(b \<mapsto> jb)" "jTargetKey jb = ?k" "jStatus jb = StatusPending"
    by (rule create_access [of b ?w3 ks True req]) (use fresh in simp_all)
  have at10: "?step\<^sup>*\<^sup>* (no_calls w) (both w4 a (EqCreate req) b (EqAnnounce jb req))"
    by (rule go2 [OF at9 jb(1) ks3])
  have ks4: "enumerates (ms_jobs (oStore w4)) (b # ks)"
    using enumerates_insert [OF ks, of b jb] fresh jb(2) by simp
  have free4: "ms_jobs (oStore w4) a = None" using fresh jb(2) by simp
  obtain ja w5 where ja: "enqueue_step (b # ks) a True (EqCreate req) w4 = (EqAnnounce ja req, w5)"
    "ms_jobs (oStore w5) = (ms_jobs (oStore w4))(a \<mapsto> ja)" "jTargetKey ja = ?k" "jStatus ja = StatusPending"
    by (rule create_access [OF fresh(2) free4])
  have at11: "?step\<^sup>*\<^sup>* (no_calls w) (both w5 a (EqAnnounce ja req) b (EqAnnounce jb req))"
    by (rule go1 [OF at10 ja(1) ks4])
  show ?thesis
    using at11 ja(2,3,4) jb(2,3,4) fresh
    by (intro exI [of _ "both w5 a (EqAnnounce ja req) b (EqAnnounce jb req)"]) (simp add: active_key_def IsActive_def)
qed

text \<open>
  C3: duplicate jobs come only from races. However many calls of \<^verbatim>\<open>Enqueue\<close> are interleaved, access by
  access, with each other and with the rest of the orchestrator: if no step drops the claim of a call
  about to create its job or of an active job, none admits a call without a claim, and no finished
  job comes back to life, then no two active jobs ever share a target key, at most one call per key is
  between its claim and its \<^verbatim>\<open>Create\<close>, and that call holds the key, with no active job under it.
  (\<open>concurrent_enqueues_can_duplicate\<close> shows that the code does make such a step.)
\<close>

theorem duplicates_come_only_from_races:
  assumes "unique_active (oStore w)" and "calm_step\<^sup>*\<^sup>* (no_calls w) s"
  shows "unique_active (oStore (esOrch s))
    \<and> (\<forall>t i pc key. esCalls s t = Some (i, pc) \<and> window pc = Some key \<longrightarrow>
         holder s key = Some i \<and> (\<forall>j. active_key (oStore (esOrch s)) j \<noteq> Some key)
       \<and> (\<forall>u k q. esCalls s u = Some (k, q) \<and> window q = Some key \<longrightarrow> u = t))"
proof -
  have inv: "enqueues_inv s" by (rule calm_reachable_inv [OF assms])
  then have win: "holder s key = Some i" "active_key (oStore (esOrch s)) j \<noteq> Some key"
    if "esCalls s t = Some (i, pc)" "window pc = Some key" for t i pc key j
    using that by (auto simp: enqueues_inv_def call_ok_def holder_def)
  have "u = t" if "esCalls s t = Some (i, pc)" "window pc = Some key"
    "esCalls s u = Some (k, q)" "window q = Some key" for t i pc key u k q
  proof -
    have "k = i" using win(1) [OF that(1,2)] win(1) [OF that(3,4)] by simp
    then show ?thesis using inv that(1,3) unfolding enqueues_inv_def by blast
  qed
  then show ?thesis using inv win by (auto simp: enqueues_inv_def)
qed

text \<open>The second of two calls for a key attaches to the job of the first.\<close>

lemma calm_first:
  assumes "enqueue_step ks a True p w = (p', w')" and "enumerates (ms_jobs (oStore w)) ks"
    and "\<not> unclaimed p" "drops p = None"
  shows "calm_step (both w a p b q) (both w' a p' b q)"
  using both_first [OF assms(1,2), of b q] assms(3,4)
  by (auto simp: calm_step_def intro!: exI [of _ "StepCall 0"])

lemma calm_second:
  assumes "enqueue_step ks b True q w = (q', w')" and "enumerates (ms_jobs (oStore w)) ks"
    and "\<not> unclaimed q" "drops q = None"
  shows "calm_step (both w a p b q) (both w' a p b q')"
  using both_second [OF assms(1,2), of a p] assms(3,4)
  by (auto simp: calm_step_def intro!: exI [of _ "StepCall 1"])

theorem duplicates_come_only_from_races_witness:
  "\<exists>s. calm_step\<^sup>*\<^sup>* (no_calls (demo_orch NewMemStore)) s \<and> unique_active (oStore (esOrch s))
     \<and> active_key (oStore (esOrch s)) ''a'' = Some ''k'' \<and> esCalls s 1 = Some (''b'', EqJoin ''a'')"
proof -
  let ?w = "demo_orch NewMemStore" and ?r = "demo_req"
  have store: "ms_jobs NewMemStore = Map.empty" by (simp add: NewMemStore_def)
  have fresh: "''a'' \<noteq> ''b''" "''a'' \<noteq> []" "''b'' \<noteq> []" "ms_jobs (oStore ?w) ''a'' = None" "ms_jobs (oStore ?w) ''b'' = None"
    by (simp_all add: store)
  have ks: "enumerates (ms_jobs (oStore ?w)) []" by (simp add: store enumerates_def)
  have none: "GetActiveByTargetKey [] ''k'' NewMemStore = None" by (simp add: GetActiveByTargetKey_def range_vals_def)
  note into = rtranclp.rtrancl_into_rtrancl [where r = calm_step]
  have "calm_step (no_calls ?w) \<lparr>esOrch = ?w, esCalls = [0 \<mapsto> (''a'', EqLookup ?r)]\<rparr>"
    using start_both(1) [OF fresh] by (auto simp: calm_step_def intro!: exI [of _ "StartCall 0"])
  moreover have "calm_step \<lparr>esOrch = ?w, esCalls = [0 \<mapsto> (''a'', EqLookup ?r)]\<rparr>
      (both ?w ''a'' (EqLookup ?r) ''b'' (EqLookup ?r))"
    using start_both(2) [OF fresh] by (auto simp: calm_step_def intro!: exI [of _ "StartCall 1"])
  ultimately have at0: "calm_step\<^sup>*\<^sup>* (no_calls ?w) (both ?w ''a'' (EqLookup ?r) ''b'' (EqLookup ?r))" by simp
  have at1: "calm_step\<^sup>*\<^sup>* (no_calls ?w) (both ?w ''a'' (EqClaim 2 ?r) ''b'' (EqLookup ?r))"
    by (rule into [OF at0], rule calm_first [OF _ ks]) (simp_all add: none)
  have at2: "calm_step\<^sup>*\<^sup>* (no_calls ?w) (both ?w ''a'' (EqClaim 2 ?r) ''b'' (EqClaim 2 ?r))"
    by (rule into [OF at1], rule calm_second [OF _ ks]) (simp_all add: none)
  let ?w1 = "?w\<lparr>oInflight := [''k'' \<mapsto> ''a'']\<rparr>"
  have at3: "calm_step\<^sup>*\<^sup>* (no_calls ?w) (both ?w1 ''a'' (EqAdmit ?r) ''b'' (EqClaim 2 ?r))"
    by (rule into [OF at2], rule calm_first [OF _ ks]) (simp_all add: eval_nat_numeral registry_claim_def)
  have ks1: "enumerates (ms_jobs (oStore ?w1)) []" using ks by simp
  have at4: "calm_step\<^sup>*\<^sup>* (no_calls ?w) (both ?w1 ''a'' (EqCreate ?r) ''b'' (EqClaim 2 ?r))"
    by (rule into [OF at3], rule calm_first [OF _ ks1]) simp_all
  obtain job w2 where job: "enqueue_step [] ''a'' True (EqCreate ?r) ?w1 = (EqAnnounce job ?r, w2)"
    "ms_jobs (oStore w2) = (ms_jobs (oStore ?w1))(''a'' \<mapsto> job)" "jTargetKey job = ''k''"
    "jStatus job = StatusPending" "oInflight w2 = oInflight ?w1"
    by (rule create_access [of "''a''" ?w1 "[]" True ?r]) (simp_all add: store)
  have at5: "calm_step\<^sup>*\<^sup>* (no_calls ?w) (both w2 ''a'' (EqAnnounce job ?r) ''b'' (EqClaim 2 ?r))"
    by (rule into [OF at4], rule calm_first [OF job(1) ks1]) simp_all
  have ks2: "enumerates (ms_jobs (oStore w2)) [''a'']" using job(2) by (simp add: store enumerates_def)
  have c2: "registry_claim ''k'' ''b'' (oInflight w2) = ((''a'', False), oInflight w2)"
    using job(5) by (simp add: registry_claim_def)
  have at6: "calm_step\<^sup>*\<^sup>* (no_calls ?w) (both w2 ''a'' (EqAnnounce job ?r) ''b'' (EqInspect 1 ''a'' ?r))"
    by (rule into [OF at5], rule calm_second [OF _ ks2]) (simp_all add: eval_nat_numeral c2)
  have at7: "calm_step\<^sup>*\<^sup>* (no_calls ?w) (both w2 ''a'' (EqAnnounce job ?r) ''b'' (EqJoin ''a''))"
    by (rule into [OF at6], rule calm_second [OF _ ks2])
      (use job in \<open>simp_all add: GetByID_def isTerminalJob_def\<close>)
  have "unique_active (oStore ?w)" by (simp add: unique_active_def active_key_def store)
  from duplicates_come_only_from_races [OF this at7] at7 job(2,3,4) show ?thesis
    by (intro exI [of _ "both w2 ''a'' (EqAnnounce job ?r) ''b'' (EqJoin ''a'')"])
      (simp add: active_key_def IsActive_def)
qed

end
