(* ===== verification/LLM_Pool.thy ===== *)
theory LLM_Pool
  imports LLM_Lifecycle
begin

text \<open>
  The worker pool of \<^verbatim>\<open>internal/llm/orchestrator/orchestrator.go\<close> as a transition system: the
  goroutines of \<^verbatim>\<open>worker\<close> and the callers of \<^verbatim>\<open>ReconfigureMaxConcurrency\<close> interleave; the steps
  are the critical sections under \<^verbatim>\<open>workerMu\<close>. A worker is at the top of its loop, busy (in
  \<^verbatim>\<open>dequeue\<close> or \<^verbatim>\<open>runJob\<close>), or leaving: it has left the loop and still owes the deferred
  decrement of \<^verbatim>\<open>activeWorkers\<close>. The system covers the time before the shutdown, after which every
  worker leaves; the other methods do not touch the counters.
\<close>

record pool =
  plOrch :: orch
  plTop :: nat
  plBusy :: nat
  plLeaving :: nat

inductive pool_step :: "pool \<Rightarrow> pool \<Rightarrow> bool" where
  reconfigure:
    "ReconfigureMaxConcurrency m (plOrch p) = (r, w) \<Longrightarrow>
     pool_step p (p\<lparr>plOrch := w, plTop := plTop p + nat (oActiveWorkers w - oActiveWorkers (plOrch p))\<rparr>)"
| retire:
    "plTop p = Suc n \<Longrightarrow> shouldWorkerRetire (plOrch p) = (True, w) \<Longrightarrow>
     pool_step p (p\<lparr>plOrch := w, plTop := n, plLeaving := Suc (plLeaving p)\<rparr>)"
| go_on:
    "plTop p = Suc n \<Longrightarrow> shouldWorkerRetire (plOrch p) = (False, w) \<Longrightarrow>
     pool_step p (p\<lparr>plOrch := w, plTop := n, plBusy := Suc (plBusy p)\<rparr>)"
| finish:
    "plBusy p = Suc n \<Longrightarrow> \<not> oStopped (plOrch p) \<Longrightarrow>
     pool_step p (p\<lparr>plBusy := n, plTop := Suc (plTop p)\<rparr>)"
| leave:
    "plLeaving p = Suc n \<Longrightarrow>
     pool_step p (p\<lparr>plOrch := worker_exit (plOrch p), plLeaving := n\<rparr>)"

inductive_cases pool_stepE: "pool_step p q"

definition pool_start :: "string list \<Rightarrow> MemStore \<Rightarrow> Config \<Rightarrow> string \<Rightarrow> (nat \<Rightarrow> time) \<Rightarrow> pool" where
  "pool_start ks s cfg pid clock = (let w = New_orchestrator ks s cfg pid clock
     in \<lparr>plOrch = w, plTop = nat (oActiveWorkers w), plBusy = 0, plLeaving = 0\<rparr>)"

definition pool_inv :: "pool \<Rightarrow> bool" where
  "pool_inv p \<longleftrightarrow> 0 < oConfiguredWorkers (plOrch p)
     \<and> cfgMaxConcurrency (oCfg (plOrch p)) = oConfiguredWorkers (plOrch p)
     \<and> 0 \<le> oRetiringWorkers (plOrch p)
     \<and> oActiveWorkers (plOrch p) = int (plTop p + plBusy p + plLeaving p)
     \<and> oActiveWorkers (plOrch p) = oConfiguredWorkers (plOrch p) + oRetiringWorkers (plOrch p)
          + int (plLeaving p)"

lemma start_workers [simp]:
  "oActiveWorkers ((startWorkerLocked ^^ n) w) = oActiveWorkers w + int n"
  "oConfiguredWorkers ((startWorkerLocked ^^ n) w) = oConfiguredWorkers w"
  "oRetiringWorkers ((startWorkerLocked ^^ n) w) = oRetiringWorkers w"
  "oCfg ((startWorkerLocked ^^ n) w) = oCfg w"
  by (induction n) (simp_all add: startWorkerLocked_def)

lemma reconfigure_effect:
  fixes m :: int
  assumes "0 < oConfiguredWorkers w"
  defines "w' \<equiv> snd (ReconfigureMaxConcurrency m w)"
  shows "oConfiguredWorkers w' = (if m \<le> 0 then 1 else m)"
    and "cfgMaxConcurrency (oCfg w) = oConfiguredWorkers w \<Longrightarrow>
      cfgMaxConcurrency (oCfg w') = oConfiguredWorkers w'"
    and "oActiveWorkers w' - oRetiringWorkers w' - oConfiguredWorkers w' =
      oActiveWorkers w - oRetiringWorkers w - oConfiguredWorkers w"
    and "oActiveWorkers w \<le> oActiveWorkers w'" "oRetiringWorkers w \<le> oRetiringWorkers w'"
  using assms(1) by (simp_all add: w'_def ReconfigureMaxConcurrency_def Let_def)

lemma pool_inv_step:
  assumes "pool_step p q" and "pool_inv p"
  shows "pool_inv q"
  using assms
proof cases
  case (reconfigure m r w)
  have w: "w = snd (ReconfigureMaxConcurrency m (plOrch p))" using reconfigure by simp
  have pos: "0 < oConfiguredWorkers (plOrch p)" using assms(2) by (simp add: pool_inv_def)
  note eff = reconfigure_effect [OF pos, of m, folded w]
  show ?thesis
    using assms(2) eff by (auto simp: reconfigure pool_inv_def)
qed (auto simp: pool_inv_def shouldWorkerRetire_def worker_exit_def split: if_splits)

lemma pool_inv_steps: "pool_step\<^sup>*\<^sup>* p q \<Longrightarrow> pool_inv p \<Longrightarrow> pool_inv q"
  by (induction rule: rtranclp_induct) (blast intro: pool_inv_step)+

lemma reconcile_counts:
  "oActiveWorkers (reconcileZombieJobs ks w) = oActiveWorkers w"
  "oConfiguredWorkers (reconcileZombieJobs ks w) = oConfiguredWorkers w"
  "oRetiringWorkers (reconcileZombieJobs ks w) = oRetiringWorkers w"
  "oCfg (reconcileZombieJobs ks w) = oCfg w"
proof -
  have "oActiveWorkers (reconcile_one now j v) = oActiveWorkers v
    \<and> oConfiguredWorkers (reconcile_one now j v) = oConfiguredWorkers v
    \<and> oRetiringWorkers (reconcile_one now j v) = oRetiringWorkers v
    \<and> oCfg (reconcile_one now j v) = oCfg v" for now j v
    by (simp add: reconcile_one_def claimFinalization_def fail_claimed_def on_store_pair
        releaseFinalization_def release_inflight_def on_job_failed_def split: option.split)
  then have "oActiveWorkers (fold (reconcile_one now) js v) = oActiveWorkers v
    \<and> oConfiguredWorkers (fold (reconcile_one now) js v) = oConfiguredWorkers v
    \<and> oRetiringWorkers (fold (reconcile_one now) js v) = oRetiringWorkers v
    \<and> oCfg (fold (reconcile_one now) js v) = oCfg v" for now js v
    by (induction js arbitrary: v) simp_all
  then show "oActiveWorkers (reconcileZombieJobs ks w) = oActiveWorkers w"
    "oConfiguredWorkers (reconcileZombieJobs ks w) = oConfiguredWorkers w"
    "oRetiringWorkers (reconcileZombieJobs ks w) = oRetiringWorkers w"
    "oCfg (reconcileZombieJobs ks w) = oCfg w"
    by (simp_all add: reconcileZombieJobs_def case_prod_beta)
qed

lemma pool_inv_start:
  assumes "\<not> cfgDisableWorkers cfg"
  shows "pool_inv (pool_start ks s cfg pid clock)"
proof -
  have flags: "\<not> cfgDisableWorkers (withDefaults cfg)" "0 < cfgMaxConcurrency (withDefaults cfg)"
    using assms by (simp_all add: withDefaults_def Let_def)
  then show ?thesis
    by (simp add: pool_inv_def pool_start_def New_orchestrator_def Let_def fresh_orch_def reconcile_counts)
qed

text \<open>
  the size of the worker pool. From a constructor that starts its workers and under any
  interleaving of resizes with the steps of the workers, the live goroutines are exactly
  \<open>activeWorkers\<close>, and they exceed the configured number by those still to retire plus those
  already leaving. So no interleaving retires too many: at least the configured number of
  workers keeps working, and it is exactly that number once the retirements are done.
\<close>

theorem worker_pool_converges:
  assumes "\<not> cfgDisableWorkers cfg" and "pool_step\<^sup>*\<^sup>* (pool_start ks s cfg pid clock) p"
  shows "oActiveWorkers (plOrch p) = int (plTop p + plBusy p + plLeaving p)
    \<and> int (plTop p + plBusy p) = oConfiguredWorkers (plOrch p) + oRetiringWorkers (plOrch p)
    \<and> 0 \<le> oRetiringWorkers (plOrch p)
    \<and> fst (shouldWorkerRetire (plOrch p)) = (0 < oRetiringWorkers (plOrch p))"
  using pool_inv_steps [OF assms(2) pool_inv_start [OF assms(1)]]
  by (auto simp: pool_inv_def shouldWorkerRetire_def)

theorem worker_pool_converges_witness:
  "\<exists>p. pool_step\<^sup>*\<^sup>* (pool_start [] NewMemStore demo_cfg ''p'' (\<lambda>n. 1)) p
     \<and> oConfiguredWorkers (plOrch p) = 1 \<and> oRetiringWorkers (plOrch p) = 2
     \<and> plTop p + plBusy p = 3"
proof -
  let ?p0 = "pool_start [] NewMemStore demo_cfg ''p'' (\<lambda>n. 1)"
  let ?w = "snd (ReconfigureMaxConcurrency 1 (plOrch ?p0))"
  let ?p1 = "?p0\<lparr>plOrch := ?w, plTop := plTop ?p0 + nat (oActiveWorkers ?w - oActiveWorkers (plOrch ?p0))\<rparr>"
  have "pool_step ?p0 ?p1" by (rule reconfigure [OF prod.collapse [symmetric]])
  then have steps: "pool_step\<^sup>*\<^sup>* ?p0 ?p1" by (rule r_into_rtranclp)
  have dis: "\<not> cfgDisableWorkers demo_cfg" by (simp add: demo_cfg_def)
  have w: "oConfiguredWorkers ?w = 1" "oRetiringWorkers ?w = 2"
    by (simp_all add: pool_start_def New_orchestrator_def Let_def reconcile_counts fresh_orch_def
        withDefaults_def demo_cfg_def ReconfigureMaxConcurrency_def duration_units DefaultRetryPolicy_def)
  have p1: "oConfiguredWorkers (plOrch ?p1) = 1" "oRetiringWorkers (plOrch ?p1) = 2"
    using w by simp_all
  have "int (plTop ?p1 + plBusy ?p1) = oConfiguredWorkers (plOrch ?p1) + oRetiringWorkers (plOrch ?p1)"
    using worker_pool_converges [OF dis steps] by blast
  then have "plTop ?p1 + plBusy ?p1 = 3" unfolding p1 by linarith
  with steps p1 show ?thesis by blast
qed

end
