(* ===== verification/LLM_Logs.thy ===== *)
theory LLM_Logs
  imports LLM_Lifecycle
begin

text \<open>
  The structured job log: the sequence numbers that \<^verbatim>\<open>AppendJobLog\<close>
  (\<^verbatim>\<open>internal/llm/orchestrator/orchestrator.go\<close>) hands out and what a client sees that polls
  \<^verbatim>\<open>ListJobLogs\<close> with the last sequence number it knows.
\<close>

section \<open>The two critical sections of \<^verbatim>\<open>AppendJobLog\<close>\<close>

text \<open>
  \<^verbatim>\<open>AppendJobLog\<close> takes the sequence number under \<^verbatim>\<open>logMu\<close> and appends under the lock of the
  store, so two writers can interleave between the two.
\<close>

definition reserve_log ::
  "string \<Rightarrow> JobLogLevel \<Rightarrow> string \<Rightarrow> string \<Rightarrow> string \<Rightarrow> payload \<Rightarrow> orch
   \<Rightarrow> (go_error + JobLogEntry) \<times> orch" where
  "reserve_log jobID level phase event message payload w =
     (if TrimSpace jobID = [] then (Inl (Errorf ''job id is required''), w)
      else (case GetByID jobID (oStore w) of None \<Rightarrow> (Inl (job_not_found jobID), w)
        | Some job \<Rightarrow>
           (let (t, w1) = read_clock w;
                sequence = next_log_sequence t (oLastLogSequence w1 jobID)
            in (Inr \<lparr>lID = [], lJobID = jID job, lRepoID = jRepoID job,
                  lArtifactID = jArtifactID job, lSubsystem = jSubsystem job,
                  lJobType = jJobType job, lLLMProvider = jLLMProvider job, lLevel = level,
                  lPhase = phase, lEvent = event, lMessage = message, lPayload = payload,
                  lSequence = sequence, lCreatedAt = zero_time\<rparr>,
                w1\<lparr>oLastLogSequence := (oLastLogSequence w1)(jobID \<mapsto> sequence)\<rparr>))))"

definition commit_log :: "go_error + JobLogEntry \<Rightarrow> orch \<Rightarrow> go_error option \<times> orch" where
  "commit_log r w = (case r of Inl e \<Rightarrow> (Some e, w)
     | Inr entry \<Rightarrow> (case on_store (\<lambda>now. AppendLog now (Some entry)) w of
           (Inl e, w1) \<Rightarrow> (Some e, w1)
         | (Inr stored, w1) \<Rightarrow> (None, publishLog stored w1)))"

lemma AppendJobLog_phases:
  "AppendJobLog i lv ph ev m pl w = (case reserve_log i lv ph ev m pl w of (r, w1) \<Rightarrow> commit_log r w1)"
  by (simp add: AppendJobLog_def reserve_log_def commit_log_def read_clock_def Let_def case_prod_beta
      split: option.split sum.split)

section \<open>Sequence numbers\<close>

definition log_inv :: "orch \<Rightarrow> bool" where
  "log_inv w \<longleftrightarrow> (\<forall>i. sorted_wrt (<) (map lSequence (log_rows (oStore w) i)) \<and>
     (\<forall>r\<in>set (log_rows (oStore w) i). 0 < lSequence r \<and>
        (\<exists>l. oLastLogSequence w i = Some l \<and> lSequence r \<le> l)))"

text \<open>Numbers and clock stay below \<open>b\<close>: no wrap-around.\<close>

definition log_below :: "int \<Rightarrow> orch \<Rightarrow> bool" where
  "log_below b w \<longleftrightarrow> (\<forall>i l. oLastLogSequence w i = Some l \<longrightarrow> 0 < l \<and> l < b)
     \<and> (\<forall>n. UnixNano (oClock w n) < b)"

lemma next_log_sequence_above:
  assumes "\<forall>l. prev = Some l \<longrightarrow> 0 < l \<and> l < b" and "UnixNano t < b" and "0 < b" and "b < 2 ^ 63"
  shows "0 < next_log_sequence t prev" and "next_log_sequence t prev < b + 1"
    and "prev = Some l \<Longrightarrow> l < next_log_sequence t prev"
proof -
  have w: "wrap64 (x + 1) = x + 1" if "0 \<le> x" "x < b" for x
    using that assms(4) by (intro wrap64_id) auto
  have l: "wrap64 (l + 1) = l + 1 \<and> 0 < l \<and> l < b" if "prev = Some l" for l
    using assms(1) that w [of l] by auto
  have z: "wrap64 1 = 1" using w [of 0] assms(3) by simp
  show "0 < next_log_sequence t prev" "next_log_sequence t prev < b + 1"
    "prev = Some l \<Longrightarrow> l < next_log_sequence t prev"
    using l z assms(2,3) by (auto simp: next_log_sequence_def Let_def split: option.splits)
qed

lemma AppendLog_accepts:
  assumes "lJobID e \<noteq> []" and "ms_jobs s (lJobID e) \<noteq> None"
  obtains r s' where "AppendLog now (Some e) s = (Inr r, s')"
  using assms by (simp add: AppendLog_def Let_def)

text \<open>What one call appends: nothing, or one row to its own job.\<close>

lemma AppendJobLog_cases:
  assumes "\<forall>k j. ms_jobs (oStore w) k = Some j \<longrightarrow> jID j = k"
  obtains (refused) e where "AppendJobLog i lv ph ev m pl w = (Some e, w)"
  | (appended) r w' where "AppendJobLog i lv ph ev m pl w = (None, w')"
      and "log_rows (oStore w') = (log_rows (oStore w))(i := log_rows (oStore w) i @ [r])"
      and "lSequence r = next_log_sequence (oClock w (oTick w)) (oLastLogSequence w i)"
      and "oLastLogSequence w' = (oLastLogSequence w)(i \<mapsto> lSequence r)"
      and "oClock w' = oClock w" and "ms_jobs (oStore w') = ms_jobs (oStore w)"
proof (cases "TrimSpace i = [] \<or> ms_jobs (oStore w) i = None")
  case True
  then have "AppendJobLog i lv ph ev m pl w = (Some (if TrimSpace i = []
      then Errorf ''job id is required'' else job_not_found i), w)"
    by (auto simp: AppendJobLog_def GetByID_def)
  then show thesis by (rule refused)
next
  case False
  then obtain job where job: "ms_jobs (oStore w) i = Some job" and i: "TrimSpace i \<noteq> []" by auto
  with assms have id: "jID job = i" by auto
  let ?seq = "next_log_sequence (oClock w (oTick w)) (oLastLogSequence w i)"
  let ?e = "\<lparr>lID = [], lJobID = jID job, lRepoID = jRepoID job,
    lArtifactID = jArtifactID job, lSubsystem = jSubsystem job,
    lJobType = jJobType job, lLLMProvider = jLLMProvider job, lLevel = lv,
    lPhase = ph, lEvent = ev, lMessage = m, lPayload = pl,
    lSequence = ?seq, lCreatedAt = zero_time\<rparr>"
  obtain r s' where al: "AppendLog (oClock w (Suc (oTick w))) (Some ?e) (oStore w) = (Inr r, s')"
  proof (rule AppendLog_accepts [of ?e "oStore w" "oClock w (Suc (oTick w))"])
    show "lJobID ?e \<noteq> []" using TrimSpace_nonempty [OF i] by (simp add: id)
    show "ms_jobs (oStore w) (lJobID ?e) \<noteq> None" by (simp add: id job)
  qed
  let ?w' = "publishLog r (w\<lparr>oLastLogSequence := (oLastLogSequence w)(i \<mapsto> ?seq),
     oStore := s', oTick := Suc (Suc (oTick w))\<rparr>)"
  have run: "AppendJobLog i lv ph ev m pl w = (None, ?w')"
    using i job al by (simp add: AppendJobLog_def GetByID_def read_clock_def on_store_def Let_def)
  have seq: "lSequence r = ?seq" using AppendLog_rows(2) [OF al] by simp
  show thesis
  proof (rule appended [OF run])
    show "log_rows (oStore ?w') = (log_rows (oStore w))(i := log_rows (oStore w) i @ [r])"
      using AppendLog_rows(1) [OF al] AppendLog_rows(3) [OF al] id
      by (auto simp: fun_eq_iff publishLog_def)
    show "ms_jobs (oStore ?w') = ms_jobs (oStore w)"
      using AppendLog_jobs [of "oClock w (Suc (oTick w))" "Some ?e" "oStore w"]
      by (simp add: al publishLog_def)
  qed (simp_all add: seq publishLog_def)
qed

text \<open>The relation that one call keeps, and that a sequence of calls composes.\<close>

definition log_extends :: "orch \<Rightarrow> orch \<Rightarrow> bool" where
  "log_extends w w' \<longleftrightarrow> ms_jobs (oStore w') = ms_jobs (oStore w)
     \<and> (\<forall>k. \<exists>rs. log_rows (oStore w') k = log_rows (oStore w) k @ rs)"

lemma log_extends_trans: "log_extends u v \<Longrightarrow> log_extends v w \<Longrightarrow> log_extends u w"
  unfolding log_extends_def by (metis append.assoc)

lemma log_inv_append:
  assumes "\<forall>k j. ms_jobs (oStore w) k = Some j \<longrightarrow> jID j = k"
    and "log_inv w" and "log_below b w" and "0 < b" and "b < 2 ^ 63"
  shows "log_inv (snd (AppendJobLog i lv ph ev m pl w)) \<and> log_below (b + 1) (snd (AppendJobLog i lv ph ev m pl w))
    \<and> log_extends w (snd (AppendJobLog i lv ph ev m pl w))"
proof (cases rule: AppendJobLog_cases [OF assms(1), where i = i and lv = lv and ph = ph and ev = ev
      and m = m and pl = pl, case_names refused appended])
  case (refused e)
  with assms(2,3) show ?thesis
    by (auto simp: log_below_def log_extends_def less_imp_le)
next
  case (appended r v)
  have last: "\<forall>l. oLastLogSequence w i = Some l \<longrightarrow> 0 < l \<and> l < b" "UnixNano (oClock w (oTick w)) < b"
    using assms(3) by (auto simp: log_below_def)
  note n = next_log_sequence_above [OF last assms(4,5), folded appended(3)]
  have above: "lSequence q < lSequence r" if "q \<in> set (log_rows (oStore w) i)" for q
  proof -
    from assms(2) that obtain l where l: "oLastLogSequence w i = Some l" "lSequence q \<le> l"
      unfolding log_inv_def by blast
    from le_less_trans [OF l(2) n(3) [OF l(1)]] show ?thesis .
  qed
  have "log_inv v" unfolding log_inv_def
  proof (intro allI conjI ballI)
    fix k
    show "sorted_wrt (<) (map lSequence (log_rows (oStore v) k))"
      using assms(2) above by (auto simp: appended(2) log_inv_def sorted_wrt_append)
    fix q assume q: "q \<in> set (log_rows (oStore v) k)"
    then show "0 < lSequence q"
      using assms(2) n(1) by (auto simp: appended(2) log_inv_def split: if_splits)
    show "\<exists>l. oLastLogSequence v k = Some l \<and> lSequence q \<le> l"
      using assms(2) q above by (auto simp: appended(2,4) log_inv_def less_imp_le split: if_splits)
  qed
  moreover have "log_below (b + 1) v"
    using assms(3) n(1,2) unfolding log_below_def appended(4,5)
    by (auto simp: less_imp_le split: if_splits)
  moreover have "log_extends w v" by (auto simp: log_extends_def appended(2,6))
  ultimately show ?thesis by (simp add: appended(1))
qed

type_synonym log_call = "string \<times> JobLogLevel \<times> string \<times> string \<times> string \<times> payload"

definition append_call :: "log_call \<Rightarrow> orch \<Rightarrow> orch" where
  "append_call c w = (case c of (i, lv, ph, ev, m, pl) \<Rightarrow> snd (AppendJobLog i lv ph ev m pl w))"

lemma log_inv_calls:
  assumes "\<forall>k j. ms_jobs (oStore w) k = Some j \<longrightarrow> jID j = k"
    and "log_inv w" and "log_below b w" and "0 < b" and "b + int (length cs) < 2 ^ 63"
  shows "log_inv (fold append_call cs w) \<and> log_extends w (fold append_call cs w)"
  using assms
proof (induction cs arbitrary: w b)
  case Nil
  then show ?case by (simp add: log_extends_def)
next
  case (Cons c cs)
  obtain i lv ph ev m pl where c: "c = (i, lv, ph, ev, m, pl)" by (cases c)
  have "b < 2 ^ 63" using Cons.prems(5) by simp
  note one = log_inv_append [OF Cons.prems(1-4) this, of i lv ph ev m pl]
  let ?w1 = "append_call c w"
  have w1: "log_inv ?w1" "log_below (b + 1) ?w1" "log_extends w ?w1"
    using one by (simp_all add: append_call_def c)
  have "log_inv (fold append_call cs ?w1) \<and> log_extends ?w1 (fold append_call cs ?w1)"
  proof (rule Cons.IH)
    show "\<forall>k j. ms_jobs (oStore ?w1) k = Some j \<longrightarrow> jID j = k"
      using w1(3) Cons.prems(1) by (simp add: log_extends_def)
    show "b + 1 + int (length cs) < 2 ^ 63" using Cons.prems(5) by simp
    show "0 < b + 1" using Cons.prems(4) by simp
  qed (rule w1)+
  then show ?case using w1(3) by (auto intro: log_extends_trans)
qed

section \<open>Listing\<close>

lemma sort_strict:
  fixes f g :: "'a \<Rightarrow> int"
  assumes "sorted_wrt (<) (map f xs)"
  shows "sort_key f (sort_key g xs) = xs"
proof (rule map_sorted_distinct_set_unique)
  have s: "sorted (map f xs)" "distinct (map f xs)" using assms by (simp_all add: strict_sorted_iff)
  show "sorted (map f xs)" "distinct (map f xs)" by (rule s)+
  show "sorted (map f (sort_key f (sort_key g xs)))" by simp
  show "inj_on f (set (sort_key f (sort_key g xs)) \<union> set xs)"
    using s(2) by (simp add: distinct_map)
  show "distinct (map f (sort_key f (sort_key g xs)))"
    using s(2) by (simp add: distinct_map)
qed simp

definition cursor :: "JobLogEntry list \<Rightarrow> int" where
  "cursor rows = (if rows = [] then 0 else lSequence (last rows))"

lemma ListLogs_after_cursor:
  assumes "log_inv w" and "log_rows (oStore w) i = old @ new"
  shows "ListLogs i \<lparr>lfLimit = 0, lfAfterSequence = cursor old\<rparr> (oStore w) = new"
proof -
  have sorted: "sorted_wrt (<) (map lSequence (old @ new))"
    and pos: "\<forall>r\<in>set (old @ new). 0 < lSequence r"
    using assms(1) unfolding log_inv_def assms(2) [symmetric] by blast+
  have old: "\<forall>r\<in>set old. 0 < cursor old \<and> lSequence r \<le> cursor old"
  proof (cases old rule: rev_cases)
    case (snoc ys y)
    with sorted pos show ?thesis by (auto simp: cursor_def sorted_wrt_append less_imp_le)
  qed simp
  have new: "\<forall>r\<in>set new. cursor old < lSequence r"
    using sorted pos by (auto simp: cursor_def sorted_wrt_append)
  have "filter (\<lambda>r. \<not> (0 < cursor old \<and> lSequence r \<le> cursor old)) (old @ new) = new"
    using old new by (auto simp: filter_empty_conv filter_id_conv)
  moreover have "sorted_wrt (<) (map lSequence new)"
    using sorted by (simp add: sorted_wrt_append)
  ultimately show ?thesis
    using sort_strict [of lSequence new lCreatedAt] by (simp add: ListLogs_def assms(2) Let_def)
qed

text \<open>
  a poller misses no line. Whatever log calls are made, one after the other, a client that
  then lists a job's log with the sequence number of the last line it had gets exactly the
  lines appended since, in order, even when the clock stands still or runs backwards. The
  bound says that the sequence numbers do not reach the end of the int64 range.
\<close>

theorem polling_sees_every_new_line:
  assumes "\<forall>k j. ms_jobs (oStore w) k = Some j \<longrightarrow> jID j = k"
    and "log_inv w" and "log_below b w" and "0 < b" and "b + int (length calls) < 2 ^ 63"
  defines "w' \<equiv> fold append_call calls w"
  shows "log_rows (oStore w') i = log_rows (oStore w) i @
    ListLogs i \<lparr>lfLimit = 0, lfAfterSequence = cursor (log_rows (oStore w) i)\<rparr> (oStore w')"
proof -
  note inv = log_inv_calls [OF assms(1-5), folded w'_def]
  then obtain rs where rs: "log_rows (oStore w') i = log_rows (oStore w) i @ rs"
    by (auto simp: log_extends_def)
  with ListLogs_after_cursor [OF _ rs] inv show ?thesis by simp
qed

theorem polling_sees_every_new_line_witness:
  "log_rows (oStore (fold append_call [(''a'', LogLevelInfo, ''p'', ''e'', ''m'', [])]
       ((demo_orch demo_store)\<lparr>oClock := \<lambda>_. 63900000000 * Second\<rparr>))) ''a''
   = ListLogs ''a'' \<lparr>lfLimit = 0, lfAfterSequence = 0\<rparr>
       (oStore (fold append_call [(''a'', LogLevelInfo, ''p'', ''e'', ''m'', [])]
          ((demo_orch demo_store)\<lparr>oClock := \<lambda>_. 63900000000 * Second\<rparr>)))"
proof -
  let ?w = "(demo_orch demo_store)\<lparr>oClock := \<lambda>_. 63900000000 * Second\<rparr>"
  let ?c = "[(''a'', LogLevelInfo, ''p'', ''e'', ''m'', [])]"
  have ids: "\<forall>k j. ms_jobs (oStore ?w) k = Some j \<longrightarrow> jID j = k" by (auto split: if_splits)
  have inv: "log_inv ?w" by (simp add: log_inv_def log_rows_def)
  have t: "UnixNano (63900000000 * Second) < 2 ^ 62" by code_simp
  have below: "log_below (2 ^ 62) ?w" using t by (simp add: log_below_def)
  have "(0::int) < 2 ^ 62" and "(2::int) ^ 62 + int (length ?c) < 2 ^ 63" by simp_all
  from polling_sees_every_new_line [OF ids inv below this, of "''a''"]
  show ?thesis by (simp add: cursor_def log_rows_def)
qed


section \<open>Concurrent writers\<close>

text \<open>
  The order of the numbers is not the order of the appends: when the writer that took the
  smaller number appends last, a client that polls in between has already moved its cursor past
  that line and is never shown it. (Here the log of one job: the lines listed by a first poll, all
  the lines in the end, and what a second poll with the first one's cursor returns.)
\<close>

definition swapped_writers :: "orch \<Rightarrow> string list \<times> string list \<times> string list" where
  "swapped_writers w =
     (let (r1, w1) = reserve_log ''a'' LogLevelInfo ''p'' ''first'' ''m'' [] w;
          (r2, w2) = reserve_log ''a'' LogLevelInfo ''p'' ''second'' ''m'' [] w1;
          w3 = snd (commit_log r2 w2);
          w4 = snd (commit_log r1 w3);
          polled = (\<lambda>c v. map lEvent (ListLogs ''a'' \<lparr>lfLimit = 0, lfAfterSequence = c\<rparr> (oStore v)))
      in (polled 0 w3, polled 0 w4, polled (cursor (log_rows (oStore w3) ''a'')) w4))"

theorem swapped_log_writers_hide_a_line:
  "swapped_writers (demo_orch demo_store) = ([''second''], [''first'', ''second''], [])"
  by code_simp

end
