(* ===== verification/Trash_Store.thy ===== *)
theory Trash_Store
  imports Go_Prelude "HOL-Library.Multiset"
begin

text \<open>
  The recycle bin: the data of \<^verbatim>\<open>internal/trash/types.go\<close> and its reference store
  \<^verbatim>\<open>internal/trash/memstore.go\<close>, which the production store must match.

  \<^item> The table is a map from type and id to a row. A Go pointer to a row is its key; the
    loops that collect rows and then change them collect keys.
  \<^item> \<^verbatim>\<open>uuid.NewString\<close> reads the next string of an arbitrary stream in the state; the clock
    reading is an argument.
  \<^item> The loops over the map take the order of their visit as an argument. For the recursive
    \<^verbatim>\<open>cascadeFrom\<close> it is a function of the parent id, so that every call has its own order.
  \<^item> The errors are values of \<open>trash_error\<close>, one constructor per error of the code, with
    what its text interpolates.
\<close>

section \<open>Data\<close>

datatype TrashableType = TypeRequirement | TypeRequirementLink | TypeKnowledgeArtifact
  | TypeOther string

fun Valid :: "TrashableType \<Rightarrow> bool" where
  "Valid (TypeOther _) = False"
| "Valid _ = True"

definition TombstoneKeyPrefix :: string where
  "TombstoneKeyPrefix = ''::trashed::''"

record Entry =
  teID :: string
  teType :: TrashableType
  teRepositoryID :: string
  teLabel :: string
  teOriginalKey :: string
  teDeletedAt :: time
  teDeletedBy :: string
  teDeletedReason :: string
  teTrashBatchID :: string
  teCanRestore :: bool
  teRestoreConflict :: "string option"

record TrashFilter =
  tfRepositoryID :: string
  tfTypes :: "TrashableType list"
  tfSearch :: string
  tfLimit :: int
  tfOffset :: int

record MoveOptions =
  moUserID :: string
  moReason :: string

datatype RestoreConflictResolution = RestoreCancel | RestoreRename | RestoreOther string

record RestoreOptions =
  roUserID :: string
  roResolve :: RestoreConflictResolution
  roNewKey :: string

record RestoreResult =
  rrRestoredID :: string
  rrBatchSize :: nat
  rrRenamed :: bool
  rrNewKey :: string

datatype trash_error =
    InvalidType TrashableType
  | RowNotFound TrashableType string
  | AlreadyInTrash TrashableType string
  | NotInTrash TrashableType string
  | RenameRequiresNewKey
  | ConflictError string string string
  | RefuseLiveRow TrashableType string
  | RetentionNotPositive

record RegisterOptions =
  rgType :: TrashableType
  rgID :: string
  rgRepositoryID :: string
  rgNaturalKey :: string
  rgLabel :: string
  rgParentID :: string

record memEntity =
  tType :: TrashableType
  tID :: string
  tRepositoryID :: string
  tKey :: string
  tOriginalKey :: string
  tLabel :: string
  tParentID :: string
  tDeletedAt :: "time option"
  tDeletedBy :: string
  tDeletedReason :: string
  tRestoredAt :: "time option"
  tRestoredBy :: string
  tTrashBatchID :: string

type_synonym entityKey = "TrashableType \<times> string"

record TrashStore =
  tsEntities :: "entityKey \<rightharpoonup> memEntity"
  tsUUID :: "nat \<Rightarrow> string"
  tsDrawn :: nat

definition uuid_NewString :: "TrashStore \<Rightarrow> string \<times> TrashStore" where
  "uuid_NewString s = (tsUUID s (tsDrawn s), s\<lparr>tsDrawn := Suc (tsDrawn s)\<rparr>)"

definition NewTrashStore :: "(nat \<Rightarrow> string) \<Rightarrow> TrashStore" where
  "NewTrashStore uuids = \<lparr>tsEntities = Map.empty, tsUUID = uuids, tsDrawn = 0\<rparr>"

definition put_row :: "entityKey \<Rightarrow> memEntity \<Rightarrow> TrashStore \<Rightarrow> TrashStore" where
  "put_row k e s = s\<lparr>tsEntities := (tsEntities s)(k \<mapsto> e)\<rparr>"

definition Register :: "RegisterOptions \<Rightarrow> TrashStore \<Rightarrow> TrashStore" where
  "Register opts s = put_row (rgType opts, rgID opts)
     \<lparr>tType = rgType opts, tID = rgID opts, tRepositoryID = rgRepositoryID opts,
      tKey = rgNaturalKey opts, tOriginalKey = [], tLabel = rgLabel opts,
      tParentID = rgParentID opts, tDeletedAt = None, tDeletedBy = [], tDeletedReason = [],
      tRestoredAt = None, tRestoredBy = [], tTrashBatchID = []\<rparr> s"

definition IsTrashed :: "TrashableType \<Rightarrow> string \<Rightarrow> TrashStore \<Rightarrow> bool" where
  "IsTrashed t i s = (case tsEntities s (t, i) of None \<Rightarrow> False | Some e \<Rightarrow> tDeletedAt e \<noteq> None)"

definition LookupKey :: "TrashableType \<Rightarrow> string \<Rightarrow> TrashStore \<Rightarrow> string \<times> bool" where
  "LookupKey t i s = (case tsEntities s (t, i) of None \<Rightarrow> ([], False) | Some e \<Rightarrow> (tKey e, True))"

section \<open>Key conflicts and entries\<close>

definition keyIsTaken ::
  "entityKey list \<Rightarrow> TrashableType \<Rightarrow> string \<Rightarrow> string \<Rightarrow> string \<Rightarrow> TrashStore \<Rightarrow> bool" where
  "keyIsTaken ks t repoID key excludeID s \<longleftrightarrow>
     list_ex (\<lambda>e. tType e = t \<and> tRepositoryID e = repoID \<and> tID e \<noteq> excludeID
                  \<and> tDeletedAt e = None \<and> tKey e = key) (range_vals (tsEntities s) ks)"

definition toEntry :: "entityKey list \<Rightarrow> memEntity \<Rightarrow> TrashStore \<Rightarrow> Entry" where
  "toEntry ks e s =
     (let entry = \<lparr>teID = tID e, teType = tType e, teRepositoryID = tRepositoryID e,
            teLabel = tLabel e, teOriginalKey = tOriginalKey e,
            teDeletedAt = (case tDeletedAt e of None \<Rightarrow> zero_time | Some t \<Rightarrow> t),
            teDeletedBy = tDeletedBy e, teDeletedReason = tDeletedReason e,
            teTrashBatchID = tTrashBatchID e, teCanRestore = True, teRestoreConflict = None\<rparr>
      in if tOriginalKey e \<noteq> [] \<and> keyIsTaken ks (tType e) (tRepositoryID e) (tOriginalKey e) (tID e) s
         then entry\<lparr>teCanRestore := False, teRestoreConflict := Some (tOriginalKey e)\<rparr> else entry)"

section \<open>Moving to the trash\<close>

definition tombstone ::
  "entityKey \<Rightarrow> time \<Rightarrow> string \<Rightarrow> string \<Rightarrow> string \<Rightarrow> TrashStore \<Rightarrow> TrashStore" where
  "tombstone k now user reason batchID s = (case tsEntities s k of None \<Rightarrow> s
     | Some e \<Rightarrow>
        (let e1 = e\<lparr>tDeletedAt := Some now, tDeletedBy := user, tDeletedReason := reason,
                    tTrashBatchID := batchID, tRestoredAt := None, tRestoredBy := []\<rparr>
         in if tKey e1 \<noteq> []
            then (let (u, s1) = uuid_NewString s
                  in put_row k (e1\<lparr>tOriginalKey := tKey e1,
                                   tKey := tKey e1 @ TombstoneKeyPrefix @ take 8 u\<rparr>) s1)
            else put_row k e1 s))"

definition live_child :: "string \<Rightarrow> TrashStore \<Rightarrow> entityKey \<Rightarrow> bool" where
  "live_child parentID s k \<longleftrightarrow> (case tsEntities s k of None \<Rightarrow> False
     | Some c \<Rightarrow> tParentID c = parentID \<and> tDeletedAt c = None)"

text \<open>
  The recursion of \<^verbatim>\<open>cascadeFrom\<close>, with a bound \<open>n\<close> on its depth; a row per level turns from live to
  trashed, so the number of rows is enough (\<open>cascade_fuel\<close> below).
\<close>

fun cascadeFrom ::
  "nat \<Rightarrow> (string \<Rightarrow> entityKey list) \<Rightarrow> string \<Rightarrow> time \<Rightarrow> string \<Rightarrow> string \<Rightarrow> string
   \<Rightarrow> TrashStore \<Rightarrow> TrashStore" where
  "cascadeFrom 0 ord parentID now user reason batchID s = s"
| "cascadeFrom (Suc n) ord parentID now user reason batchID s =
     fold (\<lambda>k v. cascadeFrom n ord (snd k) now user reason batchID
                   (tombstone k now user reason batchID v))
       (filter (live_child parentID s) (ord parentID)) s"

definition MoveToTrash ::
  "(string \<Rightarrow> entityKey list) \<Rightarrow> time \<Rightarrow> TrashableType \<Rightarrow> string \<Rightarrow> MoveOptions \<Rightarrow> TrashStore
   \<Rightarrow> (trash_error + Entry) \<times> TrashStore" where
  "MoveToTrash ord now t i opts s =
     (if \<not> Valid t then (Inl (InvalidType t), s)
      else (case tsEntities s (t, i) of None \<Rightarrow> (Inl (RowNotFound t i), s)
        | Some e \<Rightarrow>
           if tDeletedAt e \<noteq> None then (Inl (AlreadyInTrash t i), s)
           else
             (let (batchID, s1) = uuid_NewString s;
                  s2 = tombstone (t, i) now (moUserID opts) (moReason opts) batchID s1;
                  s3 = cascadeFrom (length (ord i)) ord i now (moUserID opts) (moReason opts) batchID s2
              in (case tsEntities s3 (t, i) of None \<Rightarrow> (Inl (RowNotFound t i), s3)
                  | Some e' \<Rightarrow> (Inr (toEntry (ord i) e' s3), s3)))))"

section \<open>Restoring\<close>

definition entitiesInBatch :: "entityKey list \<Rightarrow> string \<Rightarrow> TrashStore \<Rightarrow> entityKey list" where
  "entitiesInBatch ks batchID s =
     filter (\<lambda>k. case tsEntities s k of None \<Rightarrow> False | Some e \<Rightarrow> tTrashBatchID e = batchID) ks"

definition restore_row :: "string \<Rightarrow> string \<Rightarrow> time \<Rightarrow> string \<Rightarrow> memEntity \<Rightarrow> memEntity" where
  "restore_row i desiredKey now user row =
     (let r1 = (if tID row = i then row\<lparr>tKey := desiredKey\<rparr>
                else if tOriginalKey row \<noteq> [] then row\<lparr>tKey := tOriginalKey row\<rparr> else row)
      in r1\<lparr>tOriginalKey := [], tDeletedAt := None, tDeletedReason := [], tTrashBatchID := [],
            tRestoredAt := Some now, tRestoredBy := user\<rparr>)"

definition restore_key ::
  "entityKey list \<Rightarrow> memEntity \<Rightarrow> string \<Rightarrow> RestoreOptions \<Rightarrow> TrashStore
   \<Rightarrow> trash_error + (string \<times> bool)" where
  "restore_key ks e i opts s =
     (if tOriginalKey e \<noteq> [] \<and> keyIsTaken ks (tType e) (tRepositoryID e) (tOriginalKey e) (tID e) s
      then (case roResolve opts of
          RestoreRename \<Rightarrow>
            if TrimSpace (roNewKey opts) = [] then Inl RenameRequiresNewKey
            else if keyIsTaken ks (tType e) (tRepositoryID e) (roNewKey opts) (tID e) s
            then Inl (ConflictError i (tOriginalKey e) (roNewKey opts))
            else Inr (roNewKey opts, True)
        | _ \<Rightarrow> Inl (ConflictError i (tOriginalKey e) (tOriginalKey e)))
      else Inr (tOriginalKey e, False))"

definition RestoreFromTrash ::
  "entityKey list \<Rightarrow> time \<Rightarrow> TrashableType \<Rightarrow> string \<Rightarrow> RestoreOptions \<Rightarrow> TrashStore
   \<Rightarrow> (trash_error + RestoreResult) \<times> TrashStore" where
  "RestoreFromTrash ks now t i opts s =
     (if \<not> Valid t then (Inl (InvalidType t), s)
      else (case tsEntities s (t, i) of None \<Rightarrow> (Inl (RowNotFound t i), s)
        | Some e \<Rightarrow>
           if tDeletedAt e = None then (Inl (NotInTrash t i), s)
           else (case restore_key ks e i opts s of
               Inl err \<Rightarrow> (Inl err, s)
             | Inr (desiredKey, renamed) \<Rightarrow>
                 (let rows = entitiesInBatch ks (tTrashBatchID e) s;
                      s1 = fold (\<lambda>k v. case tsEntities v k of None \<Rightarrow> v
                             | Some row \<Rightarrow> put_row k (restore_row (tID e) desiredKey now (roUserID opts) row) v)
                             rows s
                  in (Inr \<lparr>rrRestoredID = tID e, rrBatchSize = length rows, rrRenamed = renamed,
                          rrNewKey = (if renamed then desiredKey else [])\<rparr>, s1)))))"

section \<open>Deleting, listing, sweeping\<close>

definition PermanentlyDelete ::
  "TrashableType \<Rightarrow> string \<Rightarrow> TrashStore \<Rightarrow> trash_error option \<times> TrashStore" where
  "PermanentlyDelete t i s =
     (if \<not> Valid t then (Some (InvalidType t), s)
      else (case tsEntities s (t, i) of None \<Rightarrow> (Some (RowNotFound t i), s)
        | Some e \<Rightarrow>
           if tDeletedAt e = None then (Some (RefuseLiveRow t i), s)
           else (None, s\<lparr>tsEntities := (tsEntities s)((t, i) := None)\<rparr>)))"

definition trash_Get ::
  "entityKey list \<Rightarrow> TrashableType \<Rightarrow> string \<Rightarrow> TrashStore \<Rightarrow> trash_error + Entry option" where
  "trash_Get ks t i s =
     (if \<not> Valid t then Inl (InvalidType t)
      else (case tsEntities s (t, i) of None \<Rightarrow> Inr None
        | Some e \<Rightarrow> if tDeletedAt e = None then Inr None else Inr (Some (toEntry ks e s))))"

definition matchesSearch :: "memEntity \<Rightarrow> string \<Rightarrow> bool" where
  "matchesSearch e q \<longleftrightarrow> (let needle = ToLower q
     in Contains (ToLower (tLabel e)) needle \<or> Contains (ToLower (tOriginalKey e)) needle
        \<or> Contains (ToLower (tID e)) needle)"

text \<open>
  The insertion sort: the next element sinks from the end of the sorted prefix past the entries
  that were deleted before it. The prefix is kept reversed.
\<close>

fun sink :: "Entry \<Rightarrow> Entry list \<Rightarrow> Entry list" where
  "sink x [] = [x]"
| "sink x (y # ys) = (if After (teDeletedAt x) (teDeletedAt y) then y # sink x ys else x # y # ys)"

definition sortByDeletedAtDesc :: "Entry list \<Rightarrow> Entry list" where
  "sortByDeletedAtDesc entries = rev (fold sink entries [])"

definition trash_keeps :: "TrashFilter \<Rightarrow> memEntity \<Rightarrow> bool" where
  "trash_keeps flt e \<longleftrightarrow> tDeletedAt e \<noteq> None
     \<and> (tfRepositoryID flt = [] \<or> tRepositoryID e = tfRepositoryID flt)
     \<and> (tfTypes flt = [] \<or> tType e \<in> set (tfTypes flt))
     \<and> (tfSearch flt = [] \<or> matchesSearch e (tfSearch flt))"

definition trash_List :: "entityKey list \<Rightarrow> TrashFilter \<Rightarrow> TrashStore \<Rightarrow> Entry list \<times> nat" where
  "trash_List ks flt s =
     (let entries = map (\<lambda>e. toEntry ks e s) (filter (trash_keeps flt) (range_vals (tsEntities s) ks));
          total = length entries;
          sorted = sortByDeletedAtDesc entries;
          offset = (if tfOffset flt < 0 then 0 else tfOffset flt);
          limit = (if tfLimit flt \<le> 0 then 50 else tfLimit flt)
      in if int total \<le> offset then ([], total)
         else (take (nat limit) (drop (nat offset) sorted), total))"

definition expired :: "time \<Rightarrow> memEntity \<Rightarrow> bool" where
  "expired threshold e \<longleftrightarrow> (case tDeletedAt e of None \<Rightarrow> False | Some t \<Rightarrow> \<not> After t threshold)"

definition SweepExpired ::
  "entityKey list \<Rightarrow> time \<Rightarrow> duration \<Rightarrow> int \<Rightarrow> TrashStore \<Rightarrow> (trash_error + nat) \<times> TrashStore" where
  "SweepExpired ks now retention maxBatch s =
     (if retention \<le> 0 then (Inl RetentionNotPositive, s)
      else
        (let due = filter (\<lambda>k. case tsEntities s k of None \<Rightarrow> False
                     | Some e \<Rightarrow> expired (now - retention) e) ks;
             toRemove = (if 0 < maxBatch then take (nat maxBatch) due else due)
         in (Inr (length toRemove),
             s\<lparr>tsEntities := (\<lambda>k. if k \<in> set toRemove then None else tsEntities s k)\<rparr>)))"

section \<open>The subtree that a move takes along\<close>

definition live :: "TrashStore \<Rightarrow> entityKey \<Rightarrow> bool" where
  "live s k \<longleftrightarrow> (\<exists>e. tsEntities s k = Some e \<and> tDeletedAt e = None)"

definition unique_ids :: "TrashStore \<Rightarrow> bool" where
  "unique_ids s \<longleftrightarrow> (\<forall>k k'. k \<in> dom (tsEntities s) \<longrightarrow> k' \<in> dom (tsEntities s) \<longrightarrow> snd k = snd k' \<longrightarrow> k = k')"

text \<open>The rows below id \<open>p\<close>, and a row with the rows below it, along live rows.\<close>

inductive_set below :: "TrashStore \<Rightarrow> string \<Rightarrow> entityKey set" for s p where
  child: "live_child p s k \<Longrightarrow> k \<in> below s p"
| deeper: "k \<in> below s p \<Longrightarrow> live_child (snd k) s k' \<Longrightarrow> k' \<in> below s p"

inductive_set subtree :: "TrashStore \<Rightarrow> entityKey \<Rightarrow> entityKey set" for s k0 where
  root: "k0 \<in> subtree s k0"
| under: "k \<in> subtree s k0 \<Longrightarrow> live_child (snd k) s k' \<Longrightarrow> k' \<in> subtree s k0"

definition tomb_row :: "time \<Rightarrow> string \<Rightarrow> string \<Rightarrow> string \<Rightarrow> string \<Rightarrow> memEntity \<Rightarrow> memEntity" where
  "tomb_row now user reason batchID u e =
     (let e1 = e\<lparr>tDeletedAt := Some now, tDeletedBy := user, tDeletedReason := reason,
                 tTrashBatchID := batchID, tRestoredAt := None, tRestoredBy := []\<rparr>
      in if tKey e \<noteq> []
         then e1\<lparr>tOriginalKey := tKey e, tKey := tKey e @ TombstoneKeyPrefix @ take 8 u\<rparr> else e1)"

lemma tomb_row_sel [simp]:
  "tDeletedAt (tomb_row now user reason b u e) = Some now"
  "tTrashBatchID (tomb_row now user reason b u e) = b"
  "tParentID (tomb_row now user reason b u e) = tParentID e"
  "tType (tomb_row now user reason b u e) = tType e" "tID (tomb_row now user reason b u e) = tID e"
  "tRepositoryID (tomb_row now user reason b u e) = tRepositoryID e"
  "tLabel (tomb_row now user reason b u e) = tLabel e"
  "tOriginalKey (tomb_row now user reason b u e) = (if tKey e \<noteq> [] then tKey e else tOriginalKey e)"
  by (simp_all add: tomb_row_def Let_def)

lemma tombstone_entities:
  assumes "tsEntities s k = Some e"
  shows "tsEntities (tombstone k now user reason b s) =
      (tsEntities s)(k \<mapsto> tomb_row now user reason b (tsUUID s (tsDrawn s)) e)"
  using assms by (simp add: tombstone_def tomb_row_def uuid_NewString_def put_row_def Let_def)

text \<open>\<open>X\<close> is what turned from live to trashed between \<open>s\<close> and \<open>s'\<close>, each row once.\<close>

definition cascaded :: "time \<Rightarrow> string \<Rightarrow> string \<Rightarrow> string \<Rightarrow> TrashStore \<Rightarrow> TrashStore \<Rightarrow> entityKey set \<Rightarrow> bool" where
  "cascaded now user reason b s s' X \<longleftrightarrow>
     (\<forall>k\<in>X. \<exists>e u. tsEntities s k = Some e \<and> tDeletedAt e = None
        \<and> tsEntities s' k = Some (tomb_row now user reason b u e))
   \<and> (\<forall>k. k \<notin> X \<longrightarrow> tsEntities s' k = tsEntities s k)"

lemma cascaded_refl: "cascaded now user reason b s s {}"
  by (simp add: cascaded_def)

lemma cascadedD:
  assumes "cascaded now user reason b s s' X"
  shows "k \<notin> X \<Longrightarrow> tsEntities s' k = tsEntities s k"
    and "k \<in> X \<Longrightarrow> \<exists>e u. tsEntities s k = Some e \<and> tDeletedAt e = None
        \<and> tsEntities s' k = Some (tomb_row now user reason b u e)"
  using assms unfolding cascaded_def by blast+

lemma cascaded_live:
  assumes "cascaded now user reason b s s' X"
  shows "live s' k \<longleftrightarrow> live s k \<and> k \<notin> X"
proof (cases "k \<in> X")
  case True
  from cascadedD(2) [OF assms True] True show ?thesis by (auto simp: live_def)
next
  case False
  from cascadedD(1) [OF assms False] False show ?thesis by (simp add: live_def)
qed

lemma cascaded_sub: "cascaded now user reason b s s' X \<Longrightarrow> k \<in> X \<Longrightarrow> live s k"
  by (auto simp: cascaded_def live_def)

lemma cascaded_dom: "cascaded now user reason b s s' X \<Longrightarrow> dom (tsEntities s') = dom (tsEntities s)"
proof (rule set_eqI)
  fix k
  assume c: "cascaded now user reason b s s' X"
  show "k \<in> dom (tsEntities s') \<longleftrightarrow> k \<in> dom (tsEntities s)"
    using cascadedD [OF c, of k] by (cases "k \<in> X") (auto simp: dom_def)
qed

lemma cascaded_trans:
  assumes "cascaded now user reason b s s1 X" and "cascaded now user reason b s1 s2 Y"
  shows "cascaded now user reason b s s2 (X \<union> Y)"
proof -
  have "k \<notin> X" if "k \<in> Y" for k
    using cascaded_sub [OF assms(2) that] cascaded_live [OF assms(1)] by simp
  then show ?thesis using assms unfolding cascaded_def by (metis Un_iff)
qed

lemma cascaded_tombstone:
  assumes "live s k"
  shows "cascaded now user reason b s (tombstone k now user reason b s) {k}"
  using assms by (auto simp: cascaded_def live_def tombstone_entities)

lemma live_child_live: "live_child p s k \<Longrightarrow> live s k"
  by (auto simp: live_child_def live_def split: option.splits)

lemma live_child_cascaded:
  assumes "cascaded now user reason b s s' X"
  shows "live_child p s' k \<longleftrightarrow> live_child p s k \<and> k \<notin> X"
proof (cases "k \<in> X")
  case True
  from cascadedD(2) [OF assms True] True show ?thesis by (auto simp: live_child_def)
next
  case False
  from cascadedD(1) [OF assms False] False show ?thesis by (simp add: live_child_def)
qed

lemma live_child_parent: "live_child p s k \<Longrightarrow> live_child q s k \<Longrightarrow> p = q"
  by (auto simp: live_child_def split: option.splits)

lemma below_live: "k \<in> below s p \<Longrightarrow> live s k"
  by (induction rule: below.induct) (auto dest: live_child_live)

lemma below_cascaded: "cascaded now user reason b s s' X \<Longrightarrow> k \<in> below s' p \<Longrightarrow> k \<in> below s p"
proof -
  assume c: "cascaded now user reason b s s' X" and "k \<in> below s' p"
  from this(2) show "k \<in> below s p"
    by (induction rule: below.induct) (simp_all add: live_child_cascaded [OF c] below.intros)
qed

text \<open>A row below \<open>q\<close> whose parent is \<open>p\<close>: \<open>p\<close> is \<open>q\<close> or the id of a live row.\<close>

lemma below_parent:
  assumes "k \<in> below s q" and "live_child p s k"
  shows "p = q \<or> (\<exists>x. live s x \<and> snd x = p)"
  using assms(1)
proof (cases rule: below.cases)
  case child
  then show ?thesis using live_child_parent [OF assms(2)] by blast
next
  case (deeper x)
  then have "p = snd x" "live s x" using live_child_parent [OF assms(2)] below_live by blast+
  then show ?thesis by blast
qed

definition order_ok :: "(string \<Rightarrow> entityKey list) \<Rightarrow> TrashStore \<Rightarrow> bool" where
  "order_ok ord s \<longleftrightarrow> (\<forall>p. enumerates (tsEntities s) (ord p))"

lemma finite_live: "order_ok ord s \<Longrightarrow> finite {k. live s k}"
  by (rule finite_subset [of _ "set (ord [])"])
    (auto simp: order_ok_def enumerates_def live_def dom_def set_eq_iff)

definition queue_done ::
  "string \<Rightarrow> entityKey list \<Rightarrow> TrashStore \<Rightarrow> entityKey set \<Rightarrow> bool" where
  "queue_done p q s X \<longleftrightarrow> set q \<subseteq> X \<and> X \<subseteq> below s p
     \<and> (\<forall>x\<in>X. \<forall>y. live_child (snd x) s y \<longrightarrow> y \<in> X)"

lemma cascade_queue:
  assumes IH: "\<And>p v. order_ok ord v \<Longrightarrow> unique_ids v \<Longrightarrow> \<forall>k. live v k \<longrightarrow> snd k \<noteq> p \<Longrightarrow>
      card {k. live v k} \<le> n \<Longrightarrow>
      cascaded now user reason b v (cascadeFrom n ord p now user reason b v) (below v p)"
    and "order_ok ord v" and "unique_ids v" and "\<forall>k. live v k \<longrightarrow> snd k \<noteq> p"
    and "card {k. live v k} \<le> Suc n" and "distinct q" and "\<forall>k\<in>set q. live_child p v k"
  shows "\<exists>X. cascaded now user reason b v
      (fold (\<lambda>k v. cascadeFrom n ord (snd k) now user reason b (tombstone k now user reason b v)) q v) X
    \<and> queue_done p q v X"
  using assms(2-)
proof (induction q arbitrary: v)
  case Nil
  then show ?case by (intro exI [of _ "{}"]) (simp add: cascaded_refl queue_done_def)
next
  case (Cons k q)
  let ?c = "cascaded now user reason b"
  have k: "live_child p v k" "live v k" using Cons.prems(6) by (auto dest: live_child_live)
  define v1 where "v1 = tombstone k now user reason b v"
  have c1: "?c v v1 {k}" unfolding v1_def using k(2) by (rule cascaded_tombstone)
  have fin: "finite {k. live v k}" using Cons.prems(1) by (rule finite_live)
  have "{k'. live v1 k'} = {k'. live v k'} - {k}" using cascaded_live [OF c1] by auto
  then have card1: "card {k'. live v1 k'} \<le> n" using Cons.prems(4) k(2) fin by simp
  have ord1: "order_ok ord v1" and u1: "unique_ids v1"
    using Cons.prems(1,2) cascaded_dom [OF c1] by (auto simp: order_ok_def enumerates_def unique_ids_def)
  have no1: "\<forall>x. live v1 x \<longrightarrow> snd x \<noteq> snd k"
  proof (intro allI impI notI)
    fix x assume "live v1 x" "snd x = snd k"
    then have "live v x" "x \<noteq> k" using cascaded_live [OF c1] by auto
    then have "x \<in> dom (tsEntities v)" "k \<in> dom (tsEntities v)"
      using k(2) by (auto simp: live_def)
    then show False
      using Cons.prems(2) \<open>snd x = snd k\<close> \<open>x \<noteq> k\<close> unfolding unique_ids_def by blast
  qed
  define v2 where "v2 = cascadeFrom n ord (snd k) now user reason b v1"
  have c2: "?c v1 v2 (below v1 (snd k))"
    unfolding v2_def using ord1 u1 no1 card1 by (rule IH)
  have c12: "?c v v2 ({k} \<union> below v1 (snd k))" using c1 c2 by (rule cascaded_trans)
  have ord2: "order_ok ord v2" and u2: "unique_ids v2"
    using Cons.prems(1,2) cascaded_dom [OF c12] by (auto simp: order_ok_def enumerates_def unique_ids_def)
  have no2: "\<forall>x. live v2 x \<longrightarrow> snd x \<noteq> p"
    using Cons.prems(3) cascaded_live [OF c12] by blast
  have "{k'. live v2 k'} \<subseteq> {k'. live v k'}" using cascaded_live [OF c12] by auto
  then have card2: "card {k'. live v2 k'} \<le> Suc n"
    using card_mono [OF fin] Cons.prems(4) by (meson le_trans)
  have rest: "\<forall>k'\<in>set q. live_child p v2 k'"
  proof
    fix k' assume k': "k' \<in> set q"
    then have lc: "live_child p v k'" and ne: "k' \<noteq> k" using Cons.prems(5,6) by auto
    have "k' \<notin> below v1 (snd k)"
    proof
      assume b: "k' \<in> below v1 (snd k)"
      have "live_child p v1 k'" using lc ne live_child_cascaded [OF c1] by blast
      from below_parent [OF b this] have "p = snd k \<or> (\<exists>x. live v1 x \<and> snd x = p)" .
      then show False using Cons.prems(3) k(2) cascaded_live [OF c1] by blast
    qed
    with lc ne show "live_child p v2 k'" using live_child_cascaded [OF c12] by blast
  qed
  from Cons.IH [OF ord2 u2 no2 card2 _ rest] Cons.prems(5) obtain X where
    X: "?c v2 (fold (\<lambda>k v. cascadeFrom n ord (snd k) now user reason b (tombstone k now user reason b v)) q v2) X"
      "queue_done p q v2 X" by auto
  let ?Y = "{k} \<union> below v1 (snd k) \<union> X"
  have "?c v (fold (\<lambda>k v. cascadeFrom n ord (snd k) now user reason b (tombstone k now user reason b v)) (k # q) v) ?Y"
    using cascaded_trans [OF c12 X(1)] by (simp add: v1_def v2_def)
  moreover have "queue_done p (k # q) v ?Y"
    unfolding queue_done_def
  proof (intro conjI ballI allI impI)
    show "set (k # q) \<subseteq> ?Y" using X(2) by (auto simp: queue_done_def)
    have kb: "k \<in> below v p" using k(1) by (rule below.child)
    have "x \<in> below v p" if "x \<in> below v1 (snd k)" for x
      using that
    proof (induction rule: below.induct)
      case (child x)
      then show ?case using kb live_child_cascaded [OF c1] by (blast intro: below.deeper)
    next
      case (deeper x y)
      then show ?case using live_child_cascaded [OF c1] by (blast intro: below.deeper)
    qed
    then show "?Y \<subseteq> below v p"
      using kb X(2) below_cascaded [OF c12] by (auto simp: queue_done_def)
    fix x y assume x: "x \<in> ?Y" and y: "live_child (snd x) v y"
    show "y \<in> ?Y"
    proof (cases "y \<in> {k} \<union> below v1 (snd k)")
      case False
      then have y2: "live_child (snd x) v2 y" and y1: "live_child (snd x) v1 y"
        using y live_child_cascaded [OF c12] live_child_cascaded [OF c1] by auto
      from x consider "x = k" | "x \<in> below v1 (snd k)" | "x \<in> X" by blast
      then show ?thesis
      proof cases
        case 1
        then show ?thesis using y1 by (blast intro: below.child)
      next
        case 2
        then show ?thesis using y1 by (blast intro: below.deeper)
      next
        case 3
        then show ?thesis using X(2) y2 unfolding queue_done_def by blast
      qed
    qed blast
  qed
  ultimately show ?case by blast
qed

lemma cascade_fuel:
  assumes "order_ok ord s" and "unique_ids s" and "\<forall>k. live s k \<longrightarrow> snd k \<noteq> p"
    and "card {k. live s k} \<le> n"
  shows "cascaded now user reason b s (cascadeFrom n ord p now user reason b s) (below s p)"
  using assms
proof (induction n arbitrary: p s)
  case 0
  then have "{k. live s k} = {}" using finite_live [OF 0(1)] by simp
  then have "below s p = {}" using below_live by blast
  then show ?case by (simp add: cascaded_refl)
next
  case (Suc n)
  let ?q = "filter (live_child p s) (ord p)"
  have "distinct (ord p)" and "set (ord p) = dom (tsEntities s)"
    using Suc.prems(1) unfolding order_ok_def enumerates_def by blast+
  then have d: "distinct ?q" and all: "live_child p s k \<longleftrightarrow> k \<in> set ?q" for k
    using live_child_live [of p s k] by (auto simp: live_def)
  have q: "\<forall>k\<in>set ?q. live_child p s k" by simp
  from cascade_queue [OF Suc.IH Suc.prems d q] obtain X
    where X: "cascaded now user reason b s (cascadeFrom (Suc n) ord p now user reason b s) X"
    "queue_done p ?q s X" by (auto simp only: cascadeFrom.simps)
  have "below s p \<subseteq> X"
  proof
    fix k assume "k \<in> below s p"
    then show "k \<in> X"
    proof (induction rule: below.induct)
      case (child k)
      then show ?case using X(2) all unfolding queue_done_def by blast
    next
      case (deeper k k')
      then show ?case using X(2) unfolding queue_done_def by blast
    qed
  qed
  then have "X = below s p" using X(2) unfolding queue_done_def by blast
  with X(1) show ?case by simp
qed

section \<open>Moving\<close>

text \<open>
  What the operations keep of a table: rows are filed under their type and id, and a live row
  carries no trace of the trash.
\<close>

definition trash_wf :: "TrashStore \<Rightarrow> bool" where
  "trash_wf s \<longleftrightarrow> (\<forall>k e. tsEntities s k = Some e \<longrightarrow> k = (tType e, tID e)
     \<and> (tDeletedAt e = None \<longrightarrow> tOriginalKey e = [] \<and> tTrashBatchID e = []))"

lemma subtree_below:
  assumes "cascaded now user reason b s s2 {k0}"
  shows "subtree s k0 = insert k0 (below s2 (snd k0))"
proof
  show "subtree s k0 \<subseteq> insert k0 (below s2 (snd k0))"
  proof
    fix k assume "k \<in> subtree s k0"
    then show "k \<in> insert k0 (below s2 (snd k0))"
    proof (induction rule: subtree.induct)
      case (under k k')
      show ?case
      proof (cases "k' = k0")
        case False
        then have "live_child (snd k) s2 k'" using under.hyps(2) live_child_cascaded [OF assms] by simp
        then show ?thesis using under.IH by (auto intro: below.intros)
      qed simp
    qed simp
  qed
  have "k \<in> subtree s k0" if "k \<in> below s2 (snd k0)" for k
    using that
  proof (induction rule: below.induct)
    case (child k)
    then show ?case using live_child_cascaded [OF assms] by (blast intro: subtree.intros)
  next
    case (deeper k k')
    then show ?case using live_child_cascaded [OF assms] by (blast intro: subtree.intros)
  qed
  then show "insert k0 (below s2 (snd k0)) \<subseteq> subtree s k0" by (auto intro: subtree.root)
qed

lemma card_live_bound:
  assumes "order_ok ord s" and "live s k" and "cascaded now user reason b s s2 {k}"
  shows "card {x. live s2 x} \<le> length (ord p)"
proof -
  have "distinct (ord p)" "set (ord p) = dom (tsEntities s)"
    using assms(1) unfolding order_ok_def enumerates_def by blast+
  then have "length (ord p) = card (dom (tsEntities s))" by (metis distinct_card)
  moreover have "finite (dom (tsEntities s))" using \<open>set (ord p) = _\<close> by (metis finite_set)
  moreover have "{x. live s2 x} \<subseteq> dom (tsEntities s)"
    using cascaded_live [OF assms(3)] by (auto simp: live_def)
  ultimately show ?thesis by (metis card_mono)
qed

text \<open>A successful move: the subtree of the row turns, once each, and the rest is untouched.\<close>

lemma MoveToTrash_effect:
  assumes "Valid t" and "live s (t, i)" and "unique_ids s" and "order_ok ord s"
  obtains entry s' where "MoveToTrash ord now t i opts s = (Inr entry, s')"
    and "cascaded now (moUserID opts) (moReason opts) (tsUUID s (tsDrawn s)) s s' (subtree s (t, i))"
    and "\<exists>e'. tsEntities s' (t, i) = Some e' \<and> entry = toEntry (ord i) e' s'"
proof -
  let ?b = "tsUUID s (tsDrawn s)"
  let ?c = "cascaded now (moUserID opts) (moReason opts) ?b"
  define s1 where "s1 = s\<lparr>tsDrawn := Suc (tsDrawn s)\<rparr>"
  define s2 where "s2 = tombstone (t, i) now (moUserID opts) (moReason opts) ?b s1"
  define s3 where "s3 = cascadeFrom (length (ord i)) ord i now (moUserID opts) (moReason opts) ?b s2"
  have e1: "tsEntities s1 = tsEntities s" by (simp add: s1_def)
  have l1: "live s1 k = live s k" for k by (simp add: live_def e1)
  have lc1: "live_child p s1 k = live_child p s k" for p k by (simp add: live_child_def e1)
  have "?c s1 s2 {(t, i)}" unfolding s2_def using assms(2) l1 by (intro cascaded_tombstone) simp
  then have c2: "?c s s2 {(t, i)}" by (simp add: cascaded_def e1)
  have ord2: "order_ok ord s2" and u2: "unique_ids s2"
    using assms(3,4) cascaded_dom [OF c2] by (auto simp: order_ok_def enumerates_def unique_ids_def)
  have "snd k \<noteq> i" if "live s2 k" for k
  proof
    assume i: "snd k = i"
    have k: "live s k" "k \<noteq> (t, i)" using that cascaded_live [OF c2] by auto
    then have "k \<in> dom (tsEntities s)" "(t, i) \<in> dom (tsEntities s)" using assms(2) by (auto simp: live_def)
    then show False using assms(3) i k(2) unfolding unique_ids_def by (metis snd_conv)
  qed
  then have c3: "?c s2 s3 (below s2 i)"
    unfolding s3_def using ord2 u2 card_live_bound [OF assms(4,2) c2] by (intro cascade_fuel) auto
  have c: "?c s s3 (subtree s (t, i))"
    using cascaded_trans [OF c2 c3] subtree_below [OF c2] by simp
  obtain e where e: "tsEntities s (t, i) = Some e" "tDeletedAt e = None" using assms(2) by (auto simp: live_def)
  obtain e' where e': "tsEntities s3 (t, i) = Some e'"
    using cascadedD(2) [OF c subtree.root] by blast
  have "MoveToTrash ord now t i opts s = (Inr (toEntry (ord i) e' s3), s3)"
    using assms(1) e e' by (simp add: MoveToTrash_def uuid_NewString_def Let_def s1_def [symmetric]
        s2_def [symmetric] s3_def [symmetric])
  then show thesis using c e' by (intro that) auto
qed

section \<open>Restoring\<close>

lemma restore_rows:
  assumes "distinct rows"
  shows "tsEntities (fold (\<lambda>k v. case tsEntities v k of None \<Rightarrow> v | Some row \<Rightarrow> put_row k (f row) v) rows s) k
    = (if k \<in> set rows then map_option f (tsEntities s k) else tsEntities s k)"
  using assms
proof (induction rows arbitrary: s)
  case (Cons x xs)
  let ?s1 = "case tsEntities s x of None \<Rightarrow> s | Some row \<Rightarrow> put_row x (f row) s"
  have "tsEntities ?s1 = (\<lambda>y. if y = x then map_option f (tsEntities s x) else tsEntities s y)"
    by (auto simp: put_row_def fun_eq_iff split: option.split)
  with Cons show ?case by auto
qed simp

lemma RestoreFromTrash_effect:
  assumes "Valid t" and "tsEntities s (t, i) = Some e" and "tDeletedAt e \<noteq> None"
    and "restore_key ks e i opts s = Inr (key, renamed)" and "enumerates (tsEntities s) ks"
  obtains s' where "RestoreFromTrash ks now t i opts s =
      (Inr \<lparr>rrRestoredID = tID e, rrBatchSize = card {k. \<exists>r. tsEntities s k = Some r \<and> tTrashBatchID r = tTrashBatchID e},
         rrRenamed = renamed, rrNewKey = (if renamed then key else [])\<rparr>, s')"
    and "\<forall>k. tsEntities s' k = map_option (\<lambda>r. if tTrashBatchID r = tTrashBatchID e
           then restore_row (tID e) key now (roUserID opts) r else r) (tsEntities s k)"
proof -
  let ?rows = "entitiesInBatch ks (tTrashBatchID e) s"
  have d: "distinct ?rows" and mem: "k \<in> set ?rows \<longleftrightarrow>
      (\<exists>r. tsEntities s k = Some r \<and> tTrashBatchID r = tTrashBatchID e)" for k
    using assms(5) by (auto simp: entitiesInBatch_def enumerates_def dom_def split: option.splits)
  have len: "length ?rows = card {k. \<exists>r. tsEntities s k = Some r \<and> tTrashBatchID r = tTrashBatchID e}"
  proof -
    have "set ?rows = {k. \<exists>r. tsEntities s k = Some r \<and> tTrashBatchID r = tTrashBatchID e}"
      using mem by blast
    with distinct_card [OF d] show ?thesis by simp
  qed
  define s' where "s' = fold (\<lambda>k v. case tsEntities v k of None \<Rightarrow> v
                             | Some row \<Rightarrow> put_row k (restore_row (tID e) key now (roUserID opts) row) v)
                             ?rows s"
  have "RestoreFromTrash ks now t i opts s =
      (Inr \<lparr>rrRestoredID = tID e, rrBatchSize = length ?rows, rrRenamed = renamed,
         rrNewKey = (if renamed then key else [])\<rparr>, s')"
    using assms(1-4) by (simp add: RestoreFromTrash_def s'_def Let_def)
  moreover have "tsEntities s' k = map_option (\<lambda>r. if tTrashBatchID r = tTrashBatchID e
           then restore_row (tID e) key now (roUserID opts) r else r) (tsEntities s k)" for k
    unfolding s'_def restore_rows [OF d] mem by (cases "tsEntities s k") auto
  ultimately show thesis using that len by simp
qed

lemma restore_row_sel [simp]:
  "tDeletedAt (restore_row i key now user r) = None" "tOriginalKey (restore_row i key now user r) = []"
  "tTrashBatchID (restore_row i key now user r) = []" "tType (restore_row i key now user r) = tType r"
  "tID (restore_row i key now user r) = tID r" "tParentID (restore_row i key now user r) = tParentID r"
  "tRepositoryID (restore_row i key now user r) = tRepositoryID r"
  "tLabel (restore_row i key now user r) = tLabel r"
  "tKey (restore_row i key now user r) = (if tID r = i then key
     else if tOriginalKey r \<noteq> [] then tOriginalKey r else tKey r)"
  by (simp_all add: restore_row_def Let_def)

text \<open>What the rest of the program sees of a row.\<close>

definition row_view :: "memEntity \<Rightarrow> string \<times> string \<times> string \<times> string \<times> bool" where
  "row_view e = (tKey e, tLabel e, tParentID e, tRepositoryID e, tDeletedAt e = None)"

definition table_view :: "TrashStore \<Rightarrow> entityKey \<Rightarrow> (string \<times> string \<times> string \<times> string \<times> bool) option" where
  "table_view s k = map_option row_view (tsEntities s k)"

text \<open>No two live rows of a type in a repository have the same non-empty natural key.\<close>

definition keys_unique :: "TrashStore \<Rightarrow> bool" where
  "keys_unique s \<longleftrightarrow> (\<forall>k k' e e'. tsEntities s k = Some e \<longrightarrow> tsEntities s k' = Some e' \<longrightarrow>
     tDeletedAt e = None \<longrightarrow> tDeletedAt e' = None \<longrightarrow> tType e = tType e' \<longrightarrow>
     tRepositoryID e = tRepositoryID e' \<longrightarrow> tKey e = tKey e' \<longrightarrow> tKey e \<noteq> [] \<longrightarrow> k = k')"

lemma keyIsTaken_iff:
  assumes "enumerates (tsEntities s) ks"
  shows "keyIsTaken ks t repo key i s \<longleftrightarrow> (\<exists>k e. tsEntities s k = Some e \<and> tType e = t
     \<and> tRepositoryID e = repo \<and> tID e \<noteq> i \<and> tDeletedAt e = None \<and> tKey e = key)"
  using set_range_vals_enum [OF assms] by (auto simp: keyIsTaken_def list_ex_iff ran_def)

section \<open>What a client may rely on\<close>

lemma trash_wfD:
  assumes "trash_wf s" and "tsEntities s k = Some e"
  shows "k = (tType e, tID e)" and "tDeletedAt e = None \<Longrightarrow> tOriginalKey e = [] \<and> tTrashBatchID e = []"
  using assms unfolding trash_wf_def by blast+

text \<open>
  C30: Moving a live row to the trash turns exactly the rows of its subtree (the row, and the live
  rows reachable from it over live parent links), each once, and all under one new batch id:
  every one of them becomes its tombstone, and every other row of the table is as before.
\<close>

lemma move_trashes_exactly_the_subtree:
  assumes "Valid t" and "live s (t, i)" and "unique_ids s" and "order_ok ord s"
  shows "\<exists>entry s'. MoveToTrash ord now t i opts s = (Inr entry, s')
     \<and> teID entry = tID (the (tsEntities s (t, i)))
     \<and> teTrashBatchID entry = tsUUID s (tsDrawn s)
     \<and> (\<forall>k\<in>subtree s (t, i). \<exists>e u. tsEntities s k = Some e \<and> tDeletedAt e = None
          \<and> tsEntities s' k
             = Some (tomb_row now (moUserID opts) (moReason opts) (tsUUID s (tsDrawn s)) u e))
     \<and> (\<forall>k. k \<notin> subtree s (t, i) \<longrightarrow> tsEntities s' k = tsEntities s k)"
proof -
  obtain entry s' where m: "MoveToTrash ord now t i opts s = (Inr entry, s')"
    and c: "cascaded now (moUserID opts) (moReason opts) (tsUUID s (tsDrawn s)) s s' (subtree s (t, i))"
    and e: "\<exists>e'. tsEntities s' (t, i) = Some e' \<and> entry = toEntry (ord i) e' s'"
    using MoveToTrash_effect [OF assms] .
  from cascadedD(2) [OF c subtree.root] obtain r u where
    r: "tsEntities s (t, i) = Some r"
    "tsEntities s' (t, i) = Some (tomb_row now (moUserID opts) (moReason opts) (tsUUID s (tsDrawn s)) u r)"
    by blast
  with e have "teID entry = tID r \<and> teTrashBatchID entry = tsUUID s (tsDrawn s)"
    by (auto simp: toEntry_def Let_def)
  with m c r show ?thesis unfolding cascaded_def by auto
qed

text \<open>A table of three: a requirement, its link, and an unrelated artifact.\<close>

definition demo_bin :: TrashStore where
  "demo_bin = Register \<lparr>rgType = TypeKnowledgeArtifact, rgID = ''c'', rgRepositoryID = ''r'',
       rgNaturalKey = ''k'', rgLabel = [], rgParentID = []\<rparr>
    (Register \<lparr>rgType = TypeRequirementLink, rgID = ''b'', rgRepositoryID = ''r'',
       rgNaturalKey = [], rgLabel = [], rgParentID = ''a''\<rparr>
    (Register \<lparr>rgType = TypeRequirement, rgID = ''a'', rgRepositoryID = ''r'',
       rgNaturalKey = ''k'', rgLabel = [], rgParentID = []\<rparr> (NewTrashStore (\<lambda>n. replicate (Suc n) CHR ''u''))))"

definition demo_keys :: "entityKey list" where
  "demo_keys = [(TypeKnowledgeArtifact, ''c''), (TypeRequirementLink, ''b''), (TypeRequirement, ''a'')]"

lemma demo_bin_facts:
  "live demo_bin (TypeRequirement, ''a'')" "unique_ids demo_bin" "order_ok (\<lambda>_. demo_keys) demo_bin"
  "enumerates (tsEntities demo_bin) demo_keys" "trash_wf demo_bin" "keys_unique demo_bin"
  "\<forall>k e. tsEntities demo_bin k = Some e \<longrightarrow> tTrashBatchID e \<noteq> tsUUID demo_bin (tsDrawn demo_bin)"
  by (auto simp: demo_bin_def demo_keys_def Register_def put_row_def NewTrashStore_def live_def
      unique_ids_def order_ok_def enumerates_def trash_wf_def keys_unique_def split: if_splits)

lemma move_trashes_exactly_the_subtree_witness:
  "\<exists>entry s'. MoveToTrash (\<lambda>_. demo_keys) 7 TypeRequirement ''a''
      \<lparr>moUserID = ''me'', moReason = []\<rparr> demo_bin = (Inr entry, s') \<and> teTrashBatchID entry = ''u''"
proof -
  have "tsUUID demo_bin (tsDrawn demo_bin) = ''u''"
    by (simp add: demo_bin_def Register_def put_row_def NewTrashStore_def)
  moreover have "Valid TypeRequirement" by simp
  ultimately show ?thesis
    using move_trashes_exactly_the_subtree [OF _ demo_bin_facts(1-3),
        of 7 "\<lparr>moUserID = ''me'', moReason = []\<rparr>"]
    by metis
qed

text \<open>
  C29: Moving a row to the trash and restoring it brings the table back as its readers see it
  (keys, labels, parents, repositories and which rows are live), for any orders in which the two
  operations visit the rows and whatever the caller asks about conflicts; the restore reports as
  many rows as the move took along.
\<close>

lemma restore_undoes_move:
  assumes "Valid t" and "live s (t, i)" and "unique_ids s" and "order_ok ord s"
    and "enumerates (tsEntities s) ks" and "trash_wf s" and "keys_unique s"
    and "\<forall>k e. tsEntities s k = Some e \<longrightarrow> tTrashBatchID e \<noteq> tsUUID s (tsDrawn s)"
  shows "\<exists>res. fst (RestoreFromTrash ks later t i ropts (snd (MoveToTrash ord now t i mopts s))) = Inr res
      \<and> rrBatchSize res = card (subtree s (t, i)) \<and> \<not> rrRenamed res
      \<and> table_view (snd (RestoreFromTrash ks later t i ropts (snd (MoveToTrash ord now t i mopts s))))
        = table_view s"
proof -
  let ?b = "tsUUID s (tsDrawn s)"
  let ?X = "subtree s (t, i)"
  let ?tomb = "tomb_row now (moUserID mopts) (moReason mopts) ?b"
  obtain entry s' where m: "MoveToTrash ord now t i mopts s = (Inr entry, s')"
    and c: "cascaded now (moUserID mopts) (moReason mopts) ?b s s' ?X"
    using MoveToTrash_effect [OF assms(1-4)] .
  from cascadedD(2) [OF c subtree.root] obtain r u where
    r: "tsEntities s (t, i) = Some r" "tDeletedAt r = None" "tsEntities s' (t, i) = Some (?tomb u r)" by blast
  have rt: "tType r = t" "tID r = i" "tOriginalKey r = []" using assms(6) r unfolding trash_wf_def by auto
  have ks': "enumerates (tsEntities s') ks" using assms(5) cascaded_dom [OF c] by (simp add: enumerates_def)
  have batch: "tTrashBatchID x = ?b \<longleftrightarrow> k \<in> ?X" if "tsEntities s' k = Some x" for k x
    using that cascadedD [OF c, of k] assms(8) [rule_format, of k x] by (cases "k \<in> ?X") auto
  have "\<not> keyIsTaken ks t (tRepositoryID r) (tKey r) i s'" if "tKey r \<noteq> []"
  proof
    assume "keyIsTaken ks t (tRepositoryID r) (tKey r) i s'"
    then obtain k e where e: "tsEntities s' k = Some e" "tType e = t" "tRepositoryID e = tRepositoryID r"
      "tID e \<noteq> i" "tDeletedAt e = None" "tKey e = tKey r"
      unfolding keyIsTaken_iff [OF ks'] by blast
    have "k \<notin> ?X" using e(1,5) cascadedD(2) [OF c, of k] by auto
    then have "tsEntities s k = Some e" using e(1) cascadedD(1) [OF c] by simp
    then have "k = (t, i)" using assms(7) r e that rt unfolding keys_unique_def by metis
    then show False using e(4) \<open>tsEntities s k = Some e\<close> r rt by simp
  qed
  then have rk: "restore_key ks (?tomb u r) i ropts s' = Inr (tKey r, False)"
    using rt by (auto simp: restore_key_def)
  obtain s'' where res: "RestoreFromTrash ks later t i ropts s' =
      (Inr \<lparr>rrRestoredID = tID (?tomb u r), rrBatchSize = card {k. \<exists>x. tsEntities s' k = Some x
          \<and> tTrashBatchID x = tTrashBatchID (?tomb u r)},
         rrRenamed = False, rrNewKey = (if False then tKey r else [])\<rparr>, s'')"
    and rows: "\<forall>k. tsEntities s'' k = map_option (\<lambda>x. if tTrashBatchID x = tTrashBatchID (?tomb u r)
           then restore_row (tID (?tomb u r)) (tKey r) later (roUserID ropts) x else x) (tsEntities s' k)"
    using RestoreFromTrash_effect [OF assms(1) r(3) _ rk ks'] by auto
  have "{k. \<exists>x. tsEntities s' k = Some x \<and> tTrashBatchID x = ?b} = ?X"
    using batch cascadedD(2) [OF c] by blast
  then have size: "card {k. \<exists>x. tsEntities s' k = Some x \<and> tTrashBatchID x = tTrashBatchID (?tomb u r)}
      = card ?X" by simp
  have view: "table_view s'' k = table_view s k" for k
  proof (cases "k \<in> ?X")
    case True
    then obtain e v where e: "tsEntities s k = Some e" "tDeletedAt e = None" "tsEntities s' k = Some (?tomb v e)"
      using cascadedD(2) [OF c] by blast
    have "tOriginalKey e = []" "k = (tType e, tID e)" using trash_wfD [OF assms(6) e(1)] e(2) by blast+
    moreover have "tKey e = tKey r" if "tID e = i"
    proof -
      have "k = (t, i)" using that assms(3) e(1) r(1) \<open>k = (tType e, tID e)\<close> unfolding unique_ids_def dom_def
        by (metis (mono_tags, lifting) mem_Collect_eq option.distinct(1) snd_conv)
      then show ?thesis using e(1) r(1) by simp
    qed
    ultimately show ?thesis
      using e rt rows [rule_format, of k] by (auto simp: table_view_def row_view_def tomb_row_def Let_def)
  next
    case False
    then have "tsEntities s'' k = tsEntities s' k" using rows [rule_format, of k] batch [of k] by (cases "tsEntities s' k") auto
    then show ?thesis using cascadedD(1) [OF c False] by (simp add: table_view_def)
  qed
  then have "table_view s'' = table_view s" by (rule ext)
  with m res size show ?thesis by simp
qed

lemma restore_undoes_move_witness:
  "table_view (snd (RestoreFromTrash demo_keys 9 TypeRequirement ''a''
        \<lparr>roUserID = ''me'', roResolve = RestoreCancel, roNewKey = []\<rparr>
      (snd (MoveToTrash (\<lambda>_. demo_keys) 7 TypeRequirement ''a''
        \<lparr>moUserID = ''me'', moReason = []\<rparr> demo_bin)))) = table_view demo_bin"
proof -
  have "Valid TypeRequirement" by simp
  from restore_undoes_move [OF this demo_bin_facts] show ?thesis by blast
qed

text \<open>The original key of a trashed row is held by another live row, and there is no way around it.\<close>

definition key_held :: "entityKey list \<Rightarrow> memEntity \<Rightarrow> TrashStore \<Rightarrow> bool" where
  "key_held ks e s \<longleftrightarrow> tOriginalKey e \<noteq> [] \<and> keyIsTaken ks (tType e) (tRepositoryID e) (tOriginalKey e) (tID e) s"

definition restore_refused :: "entityKey list \<Rightarrow> memEntity \<Rightarrow> RestoreOptions \<Rightarrow> TrashStore \<Rightarrow> bool" where
  "restore_refused ks e opts s \<longleftrightarrow> key_held ks e s
     \<and> (roResolve opts \<noteq> RestoreRename \<or> TrimSpace (roNewKey opts) = []
        \<or> keyIsTaken ks (tType e) (tRepositoryID e) (roNewKey opts) (tID e) s)"

lemma restore_key_cases:
  obtains (refused) err where "restore_refused ks e opts s" and "restore_key ks e i opts s = Inl err"
  | (granted) "\<not> restore_refused ks e opts s"
    and "restore_key ks e i opts s = Inr (if key_held ks e s then roNewKey opts else tOriginalKey e, key_held ks e s)"
    and "(if key_held ks e s then roNewKey opts else tOriginalKey e) = []
       \<or> \<not> keyIsTaken ks (tType e) (tRepositoryID e) (if key_held ks e s then roNewKey opts else tOriginalKey e) (tID e) s"
proof (cases "restore_refused ks e opts s")
  case True
  then have "\<exists>err. restore_key ks e i opts s = Inl err"
    by (auto simp: restore_refused_def key_held_def restore_key_def split: RestoreConflictResolution.split)
  with True show thesis using refused by blast
next
  case False
  then show thesis
    by (intro granted) (auto simp: restore_refused_def key_held_def restore_key_def)
qed

text \<open>
  C31: a restore of a trashed row is refused, leaving the store as it was, exactly when another live
  row of its type and repository holds its original key and the caller did not ask to rename it to a
  non-blank key that no live row holds. Otherwise the row is live afterwards, under its original key
  or, only when that is held, under the new key, and any other live row of its type and repository
  that then has this key was restored with it, as part of the same batch.
  (\<open>restore_of_a_batch_can_duplicate_keys\<close>: a batch can indeed bring such a row back.)
\<close>

lemma restore_takes_no_live_key:
  assumes "enumerates (tsEntities s) ks" and "trash_wf s"
    and "tsEntities s (t, i) = Some e" and "tDeletedAt e \<noteq> None" and "Valid t"
  shows "if restore_refused ks e opts s then \<exists>err. RestoreFromTrash ks now t i opts s = (Inl err, s)
    else \<exists>res s' e'. RestoreFromTrash ks now t i opts s = (Inr res, s')
      \<and> tsEntities s' (t, i) = Some e' \<and> tDeletedAt e' = None \<and> rrRenamed res = key_held ks e s
      \<and> tKey e' = (if key_held ks e s then roNewKey opts else tOriginalKey e)
      \<and> (\<forall>k r. k \<noteq> (t, i) \<and> tsEntities s' k = Some r \<and> tDeletedAt r = None \<and> tType r = t
           \<and> tRepositoryID r = tRepositoryID e \<and> tKey r = tKey e' \<and> tKey e' \<noteq> []
           \<longrightarrow> (\<exists>r0. tsEntities s k = Some r0 \<and> tTrashBatchID r0 = tTrashBatchID e))"
proof -
  have ti: "tType e = t" "tID e = i" using assms(2,3) unfolding trash_wf_def by auto
  let ?key = "if key_held ks e s then roNewKey opts else tOriginalKey e"
  show ?thesis
  proof (cases rule: restore_key_cases [of ks e opts s i])
    case (refused err)
    then show ?thesis using assms by (auto simp: RestoreFromTrash_def)
  next
    case granted
    obtain res s' where res: "RestoreFromTrash ks now t i opts s = (Inr res, s')" "rrRenamed res = key_held ks e s"
      and rows: "\<forall>k. tsEntities s' k = map_option (\<lambda>r. if tTrashBatchID r = tTrashBatchID e
           then restore_row (tID e) ?key now (roUserID opts) r else r) (tsEntities s k)"
      by (rule RestoreFromTrash_effect [OF assms(5,3,4) granted(2) assms(1), of now]) simp
    let ?e' = "restore_row (tID e) ?key now (roUserID opts) e"
    have at: "tsEntities s' (t, i) = Some ?e'" using rows assms(3) by simp
    have e': "tDeletedAt ?e' = None" "tKey ?e' = ?key" by (simp_all add: restore_row_def Let_def)
    have batch: "\<exists>r0. tsEntities s k = Some r0 \<and> tTrashBatchID r0 = tTrashBatchID e"
      if r: "k \<noteq> (t, i)" "tsEntities s' k = Some r" "tDeletedAt r = None" "tType r = t"
        "tRepositoryID r = tRepositoryID e" "tKey r = ?key" "?key \<noteq> []" for k r
    proof (rule ccontr)
      assume other: "\<not> ?thesis"
      obtain r0 where r0: "tsEntities s k = Some r0"
        using rows [rule_format, of k] r(2) by (cases "tsEntities s k") simp_all
      moreover have "tTrashBatchID r0 \<noteq> tTrashBatchID e" using other r0 by blast
      ultimately have live: "tsEntities s k = Some r" using rows [rule_format, of k] r(2) by simp
      then have "tID r \<noteq> i" using assms(2) r(1,4) unfolding trash_wf_def by (cases k) auto
      moreover have "r \<in> set (range_vals (tsEntities s) ks)"
        using live set_range_vals_enum [OF assms(1)] by (auto intro: ranI)
      ultimately have "keyIsTaken ks t (tRepositoryID e) ?key i s"
        unfolding keyIsTaken_def list_ex_iff using r(3-6) by blast
      then show False using granted(3) r(7) ti by simp
    qed
    have others: "\<exists>r0. tsEntities s k = Some r0 \<and> tTrashBatchID r0 = tTrashBatchID e"
      if "k \<noteq> (t, i) \<and> tsEntities s' k = Some r \<and> tDeletedAt r = None \<and> tType r = t
         \<and> tRepositoryID r = tRepositoryID e \<and> tKey r = tKey ?e' \<and> tKey ?e' \<noteq> []" for k r
      using that unfolding e'(2) by (elim conjE) (rule batch)
    show ?thesis
      unfolding if_not_P [OF granted(1)]
      by (rule exI [of _ res], rule exI [of _ s'], rule exI [of _ ?e'], intro conjI allI impI)
        (fact res | fact at | fact e' | erule others)+
  qed
qed

lemma restore_takes_no_live_key_witness:
  "case RestoreFromTrash [(TypeRequirement, ''a'')] 9 TypeRequirement ''a''
      \<lparr>roUserID = ''me'', roResolve = RestoreCancel, roNewKey = []\<rparr>
      (put_row (TypeRequirement, ''a'') \<lparr>tType = TypeRequirement, tID = ''a'', tRepositoryID = ''r'',
         tKey = ''k~'', tOriginalKey = ''k'', tLabel = [], tParentID = [], tDeletedAt = Some 3,
         tDeletedBy = [], tDeletedReason = [], tRestoredAt = None, tRestoredBy = [], tTrashBatchID = ''u''\<rparr>
         (NewTrashStore (\<lambda>_. ''v''))) of
    (Inl err, s') \<Rightarrow> False
  | (Inr res, s') \<Rightarrow> \<not> rrRenamed res \<and> LookupKey TypeRequirement ''a'' s' = (''k'', True)"
proof -
  let ?e = "\<lparr>tType = TypeRequirement, tID = ''a'', tRepositoryID = ''r'',
         tKey = ''k~'', tOriginalKey = ''k'', tLabel = [], tParentID = [], tDeletedAt = Some 3,
         tDeletedBy = [], tDeletedReason = [], tRestoredAt = None, tRestoredBy = [], tTrashBatchID = ''u''\<rparr>"
  let ?s = "put_row (TypeRequirement, ''a'') ?e (NewTrashStore (\<lambda>_. ''v''))"
  let ?o = "\<lparr>roUserID = ''me'', roResolve = RestoreCancel, roNewKey = []\<rparr>"
  have "enumerates (tsEntities ?s) [(TypeRequirement, ''a'')]" "trash_wf ?s"
    "tsEntities ?s (TypeRequirement, ''a'') = Some ?e" "tDeletedAt ?e \<noteq> None" "Valid TypeRequirement"
    by (auto simp: enumerates_def trash_wf_def put_row_def NewTrashStore_def)
  note restored = restore_takes_no_live_key [OF this, where now = 9 and opts = ?o]
  have "\<not> key_held [(TypeRequirement, ''a'')] ?e ?s"
    by (simp add: key_held_def keyIsTaken_def range_vals_def put_row_def NewTrashStore_def)
  then show ?thesis
    using restored by (auto simp: restore_refused_def LookupKey_def)
qed

definition dup_row :: "string \<Rightarrow> string \<Rightarrow> string \<Rightarrow> RegisterOptions" where
  "dup_row i key par = \<lparr>rgType = TypeKnowledgeArtifact, rgID = i, rgRepositoryID = ''r'', rgNaturalKey = key,
     rgLabel = [], rgParentID = par\<rparr>"

definition dup_history :: "TrashStore \<Rightarrow> TrashStore" where
  "dup_history s =
     (let s1 = Register (dup_row ''c'' ''k'' ''p'') (Register (dup_row ''p'' [] []) s);
          ks1 = [(TypeKnowledgeArtifact, ''p''), (TypeKnowledgeArtifact, ''c'')];
          s2 = snd (MoveToTrash (\<lambda>_. ks1) 1 TypeKnowledgeArtifact ''p'' \<lparr>moUserID = [], moReason = []\<rparr> s1);
          s3 = Register (dup_row ''d'' ''k'' []) s2
      in snd (RestoreFromTrash ((TypeKnowledgeArtifact, ''d'') # ks1) 2 TypeKnowledgeArtifact ''p''
           \<lparr>roUserID = [], roResolve = RestoreCancel, roNewKey = []\<rparr> s3))"

text \<open>
  The check covers only the row that the restore names. The other rows of its batch get their
  original keys back unchecked: after a move of \<^verbatim>\<open>p\<close> with its child \<^verbatim>\<open>c\<close>, a new row with the key
  of \<^verbatim>\<open>c\<close>, and a restore of \<^verbatim>\<open>p\<close>, the child and the new row are both live under that key.
\<close>

lemma restore_of_a_batch_can_duplicate_keys:
  "\<exists>s s'. keys_unique s \<and> s' = dup_history s \<and> \<not> keys_unique s'
     \<and> LookupKey TypeKnowledgeArtifact ''c'' s' = (''k'', True)
     \<and> LookupKey TypeKnowledgeArtifact ''d'' s' = (''k'', True)
     \<and> \<not> IsTrashed TypeKnowledgeArtifact ''c'' s' \<and> \<not> IsTrashed TypeKnowledgeArtifact ''d'' s'"
proof -
  let ?s = "NewTrashStore (\<lambda>_. ''u'')"
  let ?c = "(TypeKnowledgeArtifact, ''c'')" and ?d = "(TypeKnowledgeArtifact, ''d'')"
  have "keys_unique ?s" by (simp add: keys_unique_def NewTrashStore_def)
  moreover have keys: "LookupKey TypeKnowledgeArtifact ''c'' (dup_history ?s) = (''k'', True)"
    "LookupKey TypeKnowledgeArtifact ''d'' (dup_history ?s) = (''k'', True)"
    "\<not> IsTrashed TypeKnowledgeArtifact ''c'' (dup_history ?s)"
    "\<not> IsTrashed TypeKnowledgeArtifact ''d'' (dup_history ?s)"
    by code_simp+
  moreover have "\<not> keys_unique (dup_history ?s)"
  proof -
    have "map_option (\<lambda>e. (tType e, tRepositoryID e, tKey e, tDeletedAt e)) (tsEntities (dup_history ?s) ?c)
        = Some (TypeKnowledgeArtifact, ''r'', ''k'', None)"
      "map_option (\<lambda>e. (tType e, tRepositoryID e, tKey e, tDeletedAt e)) (tsEntities (dup_history ?s) ?d)
        = Some (TypeKnowledgeArtifact, ''r'', ''k'', None)"
      by code_simp+
    then show ?thesis unfolding keys_unique_def by fastforce
  qed
  ultimately show ?thesis by blast
qed

section \<open>Retention\<close>

lemma SweepExpired_effect:
  fixes now :: time
  assumes "0 < retention" and "enumerates (tsEntities s) ks"
  defines "due \<equiv> {k. \<exists>e. tsEntities s k = Some e \<and> expired (now - retention) e}"
  obtains s' R where "SweepExpired ks now retention maxBatch s = (Inr (card R), s')"
    and "R \<subseteq> due" and "card R = (if 0 < maxBatch then min (nat maxBatch) (card due) else card due)"
    and "tsEntities s' = tsEntities s |` (- R)"
proof -
  let ?due = "filter (\<lambda>k. case tsEntities s k of None \<Rightarrow> False | Some e \<Rightarrow> expired (now - retention) e) ks"
  define R where "R = (if 0 < maxBatch then take (nat maxBatch) ?due else ?due)"
  have d: "distinct ?due" and sd: "set ?due = due"
    using assms(2) by (auto simp: enumerates_def due_def split: option.splits)
  have "distinct R" using d by (simp add: R_def)
  then have "card (set R) = length R" by (rule distinct_card)
  moreover have "length ?due = card due" using distinct_card [OF d] sd by simp
  ultimately have card: "card (set R) = (if 0 < maxBatch then min (nat maxBatch) (card due) else card due)"
    by (simp add: R_def min.commute)
  have sub: "set R \<subseteq> due" unfolding sd [symmetric] R_def by (auto dest: in_set_takeD)
  define s' where "s' = s\<lparr>tsEntities := (\<lambda>k. if k \<in> set R then None else tsEntities s k)\<rparr>"
  have "SweepExpired ks now retention maxBatch s = (Inr (card (set R)), s')"
    using assms(1) \<open>card (set R) = length R\<close>
    by (simp add: SweepExpired_def s'_def Let_def R_def [symmetric])
  moreover have "tsEntities s' = tsEntities s |` (- set R)"
    by (auto simp: s'_def restrict_map_def)
  ultimately show thesis using card sub by (intro that)
qed

text \<open>
  C32: A sweep removes only rows that were in the trash for at least the retention period, never
  a live one, changes no other row, and reports how many it removed: all of them when the batch
  is unbounded, and otherwise as many as the batch allows. A second unbounded sweep at the same
  instant finds nothing.
\<close>

lemma sweep_removes_only_expired_trash:
  assumes "0 < retention" and "enumerates (tsEntities s) ks" and "enumerates (tsEntities s') ks'"
    and "SweepExpired ks now retention maxBatch s = (Inr n, s')"
  shows "(\<forall>k. tsEntities s' k = tsEntities s k
       \<or> tsEntities s' k = None \<and> (\<exists>e d. tsEntities s k = Some e \<and> tDeletedAt e = Some d \<and> d + retention \<le> now))
     \<and> n = card {k. tsEntities s k \<noteq> None \<and> tsEntities s' k = None}
     \<and> (0 < maxBatch \<longrightarrow> int n \<le> maxBatch)
     \<and> (maxBatch \<le> 0 \<longrightarrow> fst (SweepExpired ks' now retention maxBatch s') = Inr 0
          \<and> (\<forall>k e d. tsEntities s' k = Some e \<longrightarrow> tDeletedAt e = Some d \<longrightarrow> now < d + retention))"
proof -
  let ?due = "\<lambda>s. {k. \<exists>e. tsEntities s k = Some e \<and> expired (now - retention) e}"
  obtain s1 R where e: "SweepExpired ks now retention maxBatch s = (Inr (card R), s1)"
    and R1: "R \<subseteq> ?due s" and R2: "card R = (if 0 < maxBatch then min (nat maxBatch) (card (?due s)) else card (?due s))"
    and R3: "tsEntities s1 = tsEntities s |` (- R)"
    using SweepExpired_effect [OF assms(1,2), of now maxBatch] .
  have "n = card R" "s1 = s'" using e assms(4) by simp_all
  with R1 R2 R3 have R: "n = card R" "R \<subseteq> ?due s"
    "card R = (if 0 < maxBatch then min (nat maxBatch) (card (?due s)) else card (?due s))"
      "tsEntities s' = tsEntities s |` (- R)" by simp_all
  have exp: "\<exists>d. tDeletedAt e = Some d \<and> d + retention \<le> now" if "expired (now - retention) e" for e
    using that by (auto simp: expired_def After_def split: option.splits)
  have "R = {k. tsEntities s k \<noteq> None \<and> tsEntities s' k = None}"
    using R(2) by (auto simp: R(4) restrict_map_def split: if_splits)
  moreover have "tsEntities s' k = tsEntities s k
       \<or> tsEntities s' k = None \<and> (\<exists>e d. tsEntities s k = Some e \<and> tDeletedAt e = Some d \<and> d + retention \<le> now)" for k
    using R(2) exp unfolding R(4) restrict_map_def by (cases "k \<in> R") auto
  moreover have "int n \<le> maxBatch" if "0 < maxBatch" using R(1,3) that by simp
  moreover have "?due s' = {}" if "maxBatch \<le> 0"
  proof -
    have "finite (set ks)" "?due s \<subseteq> set ks" using assms(2) unfolding enumerates_def by (blast, auto)
    then have fin: "finite (?due s)" by (rule rev_finite_subset)
    have "card R = card (?due s)" using R(3) that by simp
    from card_subset_eq [OF fin R(2) this] have "R = ?due s" .
    then show ?thesis unfolding R(4) restrict_map_def by (auto split: if_splits)
  qed
  moreover have "fst (SweepExpired ks' now retention maxBatch s') = Inr 0
          \<and> (\<forall>k e d. tsEntities s' k = Some e \<longrightarrow> tDeletedAt e = Some d \<longrightarrow> now < d + retention)" 
    if "maxBatch \<le> 0" "?due s' = {}"
  proof -
    obtain s'' R' where "SweepExpired ks' now retention maxBatch s' = (Inr (card R'), s'')"
      and "R' \<subseteq> ?due s'" and "card R' = (if 0 < maxBatch then min (nat maxBatch) (card (?due s')) else card (?due s'))"
      and "tsEntities s'' = tsEntities s' |` (- R')"
      using SweepExpired_effect [OF assms(1,3), of now maxBatch] .
    moreover have "now < d + retention" if "tsEntities s' k = Some e" "tDeletedAt e = Some d" for k e d
    proof -
      have "\<not> expired (now - retention) e" using \<open>?due s' = {}\<close> that(1) by blast
      then show ?thesis using that(2) by (simp add: expired_def After_def)
    qed
    ultimately show ?thesis using that(2) by auto
  qed
  ultimately show ?thesis using R(1) by blast
qed

lemma sweep_removes_only_expired_trash_witness:
  "\<exists>s s'. SweepExpired [(TypeRequirement, ''a'')] 100 30 0 s = (Inr 1, s')
     \<and> card {k. tsEntities s k \<noteq> None \<and> tsEntities s' k = None} = 1"
proof -
  let ?e = "\<lparr>tType = TypeRequirement, tID = ''a'', tRepositoryID = ''r'',
         tKey = ''k~'', tOriginalKey = ''k'', tLabel = [], tParentID = [], tDeletedAt = Some 3,
         tDeletedBy = [], tDeletedReason = [], tRestoredAt = None, tRestoredBy = [], tTrashBatchID = ''u''\<rparr>"
  let ?s = "put_row (TypeRequirement, ''a'') ?e (NewTrashStore (\<lambda>_. ''v''))"
  let ?s' = "NewTrashStore (\<lambda>_. ''v'')"
  have hyps: "(0 :: int) < 30" "enumerates (tsEntities ?s) [(TypeRequirement, ''a'')]" "enumerates (tsEntities ?s') []"
    by (auto simp: enumerates_def put_row_def NewTrashStore_def)
  have run: "SweepExpired [(TypeRequirement, ''a'')] 100 30 0 ?s = (Inr (Suc 0), ?s')"
    by (auto simp: SweepExpired_def expired_def After_def put_row_def NewTrashStore_def)
  from sweep_removes_only_expired_trash [OF hyps run]
  have "Suc 0 = card {k. tsEntities ?s k \<noteq> None \<and> tsEntities ?s' k = None}" by (elim conjE)
  with run show ?thesis by (intro exI [of _ ?s] exI [of _ ?s']) simp
qed


section \<open>Listing\<close>

lemma sink_rev:
  assumes "sorted_wrt (\<lambda>a b. teDeletedAt b \<le> teDeletedAt a) ys"
  shows "rev (sink x (rev ys)) = takeWhile (\<lambda>y. teDeletedAt x \<le> teDeletedAt y) ys
     @ x # dropWhile (\<lambda>y. teDeletedAt x \<le> teDeletedAt y) ys"
  using assms
proof (induction ys rule: rev_induct)
  case (snoc y ys)
  show ?case
  proof (cases "After (teDeletedAt x) (teDeletedAt y)")
    case True
    then show ?thesis using snoc by (auto simp: sorted_wrt_append After_def takeWhile_append dropWhile_append)
  next
    case False
    then have "\<forall>z\<in>set (ys @ [y]). teDeletedAt x \<le> teDeletedAt z"
      using snoc.prems by (fastforce simp: sorted_wrt_append After_def)
    then have "takeWhile (\<lambda>y. teDeletedAt x \<le> teDeletedAt y) (ys @ [y]) = ys @ [y]"
      "dropWhile (\<lambda>y. teDeletedAt x \<le> teDeletedAt y) (ys @ [y]) = []"
      by (simp_all only: takeWhile_eq_all_conv dropWhile_eq_Nil_conv)
    then show ?thesis using False by simp
  qed
qed simp

lemma sink_sorted:
  assumes "sorted_wrt (\<lambda>a b. teDeletedAt b \<le> teDeletedAt a) ys"
  shows "sorted_wrt (\<lambda>a b. teDeletedAt b \<le> teDeletedAt a) (rev (sink x (rev ys)))"
proof -
  let ?P = "\<lambda>y. teDeletedAt x \<le> teDeletedAt y"
  have "teDeletedAt z \<le> teDeletedAt x" if z: "z \<in> set (dropWhile ?P ys)" for z
  proof (cases "dropWhile ?P ys")
    case (Cons h hs)
    then have "\<not> ?P h" using hd_dropWhile [of ?P ys] by simp
    moreover have "sorted_wrt (\<lambda>a b. teDeletedAt b \<le> teDeletedAt a) (h # hs)"
      using assms Cons by (metis sorted_wrt_append takeWhile_dropWhile_id)
    ultimately show ?thesis using z Cons by auto
  next
    case Nil
    then show ?thesis using z by (metis empty_iff list.set(1))
  qed
  moreover have "sorted_wrt (\<lambda>a b. teDeletedAt b \<le> teDeletedAt a) (takeWhile ?P ys @ dropWhile ?P ys)"
    using assms by simp
  ultimately show ?thesis
    unfolding sink_rev [OF assms] sorted_wrt_append by (auto dest: set_takeWhileD)
qed

lemma sink_filter:
  assumes "sorted_wrt (\<lambda>a b. teDeletedAt b \<le> teDeletedAt a) ys"
  shows "filter (\<lambda>e. teDeletedAt e = d) (rev (sink x (rev ys)))
     = filter (\<lambda>e. teDeletedAt e = d) (ys @ [x])"
proof (cases "teDeletedAt x = d")
  case True
  let ?P = "\<lambda>y. teDeletedAt x \<le> teDeletedAt y"
  have "filter (\<lambda>e. teDeletedAt e = d) (dropWhile ?P ys) = []"
  proof (cases "dropWhile ?P ys")
    case (Cons h hs)
    then have "\<not> ?P h" using hd_dropWhile [of ?P ys] by simp
    moreover have "sorted_wrt (\<lambda>a b. teDeletedAt b \<le> teDeletedAt a) (h # hs)"
      using assms Cons by (metis sorted_wrt_append takeWhile_dropWhile_id)
    ultimately show ?thesis using Cons True by (auto simp: filter_empty_conv)
  next
    case Nil
    then show ?thesis by (metis filter.simps(1))
  qed
  moreover have "filter (\<lambda>e. teDeletedAt e = d) ys = filter (\<lambda>e. teDeletedAt e = d) (takeWhile ?P ys)
      @ filter (\<lambda>e. teDeletedAt e = d) (dropWhile ?P ys)"
    by (metis filter_append takeWhile_dropWhile_id)
  ultimately show ?thesis using True by (simp add: sink_rev [OF assms])
next
  case False
  have "filter (\<lambda>e. teDeletedAt e = d) ys = filter (\<lambda>e. teDeletedAt e = d) (takeWhile P ys)
      @ filter (\<lambda>e. teDeletedAt e = d) (dropWhile P ys)" for P
    by (metis filter_append takeWhile_dropWhile_id)
  with False show ?thesis by (simp add: sink_rev [OF assms])
qed

lemma sinks:
  assumes "sorted_wrt (\<lambda>a b. teDeletedAt b \<le> teDeletedAt a) ys"
  shows "sorted_wrt (\<lambda>a b. teDeletedAt b \<le> teDeletedAt a) (rev (fold sink xs (rev ys)))
     \<and> filter (\<lambda>e. teDeletedAt e = d) (rev (fold sink xs (rev ys)))
       = filter (\<lambda>e. teDeletedAt e = d) (ys @ xs)
     \<and> mset (rev (fold sink xs (rev ys))) = mset (ys @ xs)"
  using assms
proof (induction xs arbitrary: ys)
  case (Cons x xs)
  let ?ys = "rev (sink x (rev ys))"
  have "mset (takeWhile P ys) + mset (dropWhile P ys) = mset ys" for P
    by (metis mset_append takeWhile_dropWhile_id)
  then have "mset ?ys = mset (ys @ [x])"
    unfolding sink_rev [OF Cons.prems] by simp
  then show ?case
    using Cons.IH [OF sink_sorted [OF Cons.prems], of x] sink_filter [OF Cons.prems, of d x] by simp
qed simp

text \<open>
  The hand-written sort of the listing is the stable sort by time of deletion, most recent
  first: entries deleted at the same instant keep their order.
\<close>

lemma insertion_sort_is_stable_sort:
  "sortByDeletedAtDesc entries = sort_key (\<lambda>e. - teDeletedAt e) entries"
proof (rule sym, rule properties_for_sort_key)
  note s = sinks [of "[]" entries, simplified, folded sortByDeletedAtDesc_def]
  show "mset (sortByDeletedAtDesc entries) = mset entries" using s by (simp add: sortByDeletedAtDesc_def)
  show "sorted (map (\<lambda>e. - teDeletedAt e) (sortByDeletedAtDesc entries))"
    using s by (simp add: sorted_wrt_map)
  show "filter (\<lambda>y. - teDeletedAt x = - teDeletedAt y) (sortByDeletedAtDesc entries)
      = filter (\<lambda>y. - teDeletedAt x = - teDeletedAt y) entries" if "x \<in> set (sortByDeletedAtDesc entries)" for x
    using s [of "teDeletedAt x"] by (simp add: eq_commute)
qed

section \<open>An invariant of every history\<close>

datatype trash_op =
    OpRegister RegisterOptions
  | OpMove "string \<Rightarrow> entityKey list" time TrashableType string MoveOptions
  | OpRestore "entityKey list" time TrashableType string RestoreOptions
  | OpPurge TrashableType string
  | OpSweep "entityKey list" time duration int

fun trash_step :: "trash_op \<Rightarrow> TrashStore \<Rightarrow> TrashStore" where
  "trash_step (OpRegister opts) s = Register opts s"
| "trash_step (OpMove ord now t i opts) s = snd (MoveToTrash ord now t i opts s)"
| "trash_step (OpRestore ks now t i opts) s = snd (RestoreFromTrash ks now t i opts s)"
| "trash_step (OpPurge t i) s = snd (PermanentlyDelete t i s)"
| "trash_step (OpSweep ks now retention maxBatch) s = snd (SweepExpired ks now retention maxBatch s)"

lemma trash_wf_tombstone [inv_intros]: "trash_wf s \<Longrightarrow> trash_wf (tombstone k now user reason b s)"
  by (cases "tsEntities s k") (auto simp: trash_wf_def tombstone_def uuid_NewString_def put_row_def Let_def)

lemma trash_wf_cascade [inv_intros]: "trash_wf s \<Longrightarrow> trash_wf (cascadeFrom n ord p now user reason b s)"
proof (induction n arbitrary: p s)
  case (Suc n)
  have "trash_wf (fold (\<lambda>k v. cascadeFrom n ord (snd k) now user reason b
                   (tombstone k now user reason b v)) q v)" if "trash_wf v" for q v
    using that by (induction q arbitrary: v) (auto intro: Suc.IH trash_wf_tombstone)
  with Suc.prems show ?case by simp
qed simp

lemma trash_wf_drawn [simp]: "trash_wf (s\<lparr>tsDrawn := n\<rparr>) = trash_wf s"
  by (simp add: trash_wf_def)

lemma trash_wf_Move [inv_intros]: "trash_wf s \<Longrightarrow> trash_wf (snd (MoveToTrash ord now t i opts s))"
  by (auto simp: MoveToTrash_def uuid_NewString_def Let_def trash_wf_tombstone trash_wf_cascade
      split: option.splits)

lemma trash_wf_restore_row:
  "trash_wf s \<Longrightarrow> trash_wf (case tsEntities s k of None \<Rightarrow> s
      | Some row \<Rightarrow> put_row k (restore_row i key now user row) s)"
  by (cases "tsEntities s k") (auto simp: trash_wf_def put_row_def)

lemma trash_wf_Restore [inv_intros]:
  assumes "trash_wf s"
  shows "trash_wf (snd (RestoreFromTrash ks now t i opts s))"
proof -
  have "trash_wf (fold (\<lambda>k v. case tsEntities v k of None \<Rightarrow> v
      | Some row \<Rightarrow> put_row k (restore_row j key now user row) v) rows s)" for rows j key user
    using assms by (induction rows arbitrary: s) (auto intro: trash_wf_restore_row)
  with assms show ?thesis
    by (auto simp: RestoreFromTrash_def Let_def split: option.splits sum.splits)
qed

lemma trash_wf_step [inv_intros]: "trash_wf s \<Longrightarrow> trash_wf (trash_step op s)"
proof (induction op s rule: trash_step.induct)
  case (4 t i s)
  then show ?case by (auto simp: PermanentlyDelete_def trash_wf_def split: option.splits)
next
  case (5 ks now retention maxBatch s)
  then show ?case by (auto simp: SweepExpired_def trash_wf_def Let_def)
qed (simp_all add: trash_wf_Move trash_wf_Restore, simp add: Register_def put_row_def trash_wf_def)

text \<open>
  After any history of the store, whatever the orders in which its loops visit the rows, every
  row is filed under its own type and id, and a live row carries no original key and no batch id.
\<close>

lemma trash_history_well_formed:
  "trash_wf (fold trash_step ops (NewTrashStore uuids))"
proof -
  have "trash_wf (fold trash_step ops s)" if "trash_wf s" for s
    using that by (induction ops arbitrary: s) (simp_all add: trash_wf_step)
  moreover have "trash_wf (NewTrashStore uuids)" by (simp add: trash_wf_def NewTrashStore_def)
  ultimately show ?thesis .
qed

end
