(* ===== verification/Cache_Memory.thy ===== *)
theory Cache_Memory
  imports Go_Prelude
begin

text \<open>
  The in-memory cache of \<^verbatim>\<open>internal/db/redis.go\<close>, and the interface through which its clients
  use \<^verbatim>\<open>SetIfAbsent\<close> as an advisory lock with an expiry (locale \<open>lease\<close>).

  \<^item> The table is a map from key to entry. \<^verbatim>\<open>SetIfAbsent\<close> reads the clock twice, once to look at
    the old entry and once for the expiry of the new one; both readings are arguments.
  \<^item> The Redis cache of the same file only calls the Redis client and is not modelled.
\<close>

record cacheEntry =
  ceValue :: string
  ceExpiresAt :: time

type_synonym InMemoryCache = "string \<rightharpoonup> cacheEntry"

definition NewInMemoryCache :: InMemoryCache where
  "NewInMemoryCache = Map.empty"

definition cache_Get :: "time \<Rightarrow> string \<Rightarrow> InMemoryCache \<Rightarrow> string" where
  "cache_Get now key c = (case c key of None \<Rightarrow> []
     | Some e \<Rightarrow> if \<not> IsZero (ceExpiresAt e) \<and> After now (ceExpiresAt e) then [] else ceValue e)"

definition expiry :: "time \<Rightarrow> duration \<Rightarrow> time" where
  "expiry now ttl = (if 0 < ttl then now + ttl else zero_time)"

definition cache_Set :: "time \<Rightarrow> string \<Rightarrow> string \<Rightarrow> duration \<Rightarrow> InMemoryCache \<Rightarrow> InMemoryCache" where
  "cache_Set now key val ttl c = c(key \<mapsto> \<lparr>ceValue = val, ceExpiresAt = expiry now ttl\<rparr>)"

definition cache_Delete :: "string \<Rightarrow> InMemoryCache \<Rightarrow> InMemoryCache" where
  "cache_Delete key c = c(key := None)"

definition cache_holds :: "InMemoryCache \<Rightarrow> string \<Rightarrow> time \<Rightarrow> bool" where
  "cache_holds c key now \<longleftrightarrow> (case c key of None \<Rightarrow> False
     | Some e \<Rightarrow> IsZero (ceExpiresAt e) \<or> Before now (ceExpiresAt e))"

definition SetIfAbsent ::
  "time \<Rightarrow> time \<Rightarrow> string \<Rightarrow> string \<Rightarrow> duration \<Rightarrow> InMemoryCache \<Rightarrow> (go_error + bool) \<times> InMemoryCache" where
  "SetIfAbsent now1 now2 key val ttl c =
     (if cache_holds c key now1 then (Inr False, c)
      else (Inr True, c(key \<mapsto> \<lparr>ceValue = val, ceExpiresAt = expiry now2 ttl\<rparr>)))"

section \<open>The lock that \<^verbatim>\<open>SetIfAbsent\<close> provides\<close>

text \<open>
  \<open>held c k t\<close>: nobody can take \<open>k\<close> at time \<open>t\<close>. Taking a free key holds it, for everybody and
  the holder alike, until \<open>ttl\<close> after the second reading of the clock, and not longer.
\<close>

locale lease =
  fixes take_key :: "time \<Rightarrow> time \<Rightarrow> string \<Rightarrow> string \<Rightarrow> duration \<Rightarrow> 'c \<Rightarrow> (go_error + bool) \<times> 'c"
    and held :: "'c \<Rightarrow> string \<Rightarrow> time \<Rightarrow> bool"
  assumes take_held: "held c k t \<Longrightarrow> take_key t u k v ttl c = (Inr False, c)"
    and take_free: "\<not> held c k t \<Longrightarrow> 0 \<le> u \<Longrightarrow> 0 < ttl \<Longrightarrow>
      \<exists>c'. take_key t u k v ttl c = (Inr True, c') \<and> (\<forall>x. held c' k x \<longleftrightarrow> x < u + ttl)"

interpretation mem_cache: lease SetIfAbsent cache_holds
  by unfold_locales
    (auto simp: SetIfAbsent_def cache_holds_def expiry_def IsZero_def zero_time_def Before_def)

end
