(* ===== verification/Trash_Worker.thy ===== *)
theory Trash_Worker
  imports Trash_Store Cache_Memory
begin

text \<open>
  The retention worker of \<^verbatim>\<open>internal/trash/worker.go\<close>: its configuration, one tick with the leader
  election over the cache, and the ticks of several replicas.

  \<^item> \<^verbatim>\<open>SetIfAbsent\<close> of the cache is an argument of the tick; the laws a client may use of it are the
    locale \<open>lease\<close> of \<open>Cache_Memory\<close>, which the in-memory cache satisfies.
  \<^item> The firings of the ticker are a list of instants. The worker ends when its context does, which
    is the end of the list. Log lines are left out, and so is a worker without a store, which
    returns at once.
\<close>

section \<open>Configuration\<close>

record WorkerConfig =
  wcRetentionDays :: int
  wcSweepInterval :: duration
  wcMaxBatchSize :: int

definition WorkerNormalize :: "WorkerConfig \<Rightarrow> WorkerConfig" where
  "WorkerNormalize c =
     \<lparr>wcRetentionDays = (if wcRetentionDays c \<le> 0 then 30 else wcRetentionDays c),
      wcSweepInterval = (if wcSweepInterval c \<le> 0 then 6 * Hour else wcSweepInterval c),
      wcMaxBatchSize = (if wcMaxBatchSize c \<le> 0 then 500 else wcMaxBatchSize c)\<rparr>"

text \<open>The loop of \<^verbatim>\<open>itoa\<close> that puts the digits of a positive number before \<open>buf\<close>.\<close>

function itoa_digits :: "int \<Rightarrow> string \<Rightarrow> string" where
  "itoa_digits n buf = (if 0 < n then itoa_digits (n div 10) (digit_char (nat (n mod 10)) # buf) else buf)"
  by pat_completeness auto
termination by (relation "measure (\<lambda>(n, _). nat n)") auto

declare itoa_digits.simps [simp del]

definition itoa :: "int \<Rightarrow> string" where
  "itoa n = (if n = 0 then ''0''
     else (let buf = itoa_digits (if n < 0 then wrap64 (- n) else n) []
           in if n < 0 then CHR ''-'' # buf else buf))"

record Worker =
  wkCfg :: WorkerConfig
  wkLockID :: string

definition NewWorker :: "string \<Rightarrow> int \<Rightarrow> WorkerConfig \<Rightarrow> Worker" where
  "NewWorker host pid cfg = \<lparr>wkCfg = WorkerNormalize cfg, wkLockID = host @ ''/'' @ itoa pid\<rparr>"

section \<open>A tick\<close>

record 'c worker_env =
  weCache :: "'c option"
  weStore :: TrashStore
  wePurgesTotal :: int

text \<open>When a tick looks at the lock, sets its expiry and sweeps, and the order of the sweep.\<close>

record tick_event =
  evLook :: time
  evTake :: time
  evSweep :: time
  evOrder :: "entityKey list"

datatype tick_outcome =
    ElectionFailed go_error
  | NotLeader
  | SweepFailed trash_error
  | Swept nat

definition retention_of :: "WorkerConfig \<Rightarrow> duration" where
  "retention_of cfg = wrap64 (wrap64 (wcRetentionDays cfg * 24) * Hour)"

definition lock_ttl :: "WorkerConfig \<Rightarrow> duration" where
  "lock_ttl cfg = wrap64 (wcSweepInterval cfg + Minute)"

definition sweep_store :: "Worker \<Rightarrow> tick_event \<Rightarrow> 'c worker_env \<Rightarrow> tick_outcome \<times> 'c worker_env" where
  "sweep_store w ev env =
     (let (res, st) = SweepExpired (evOrder ev) (evSweep ev) (retention_of (wkCfg w))
                        (wcMaxBatchSize (wkCfg w)) (weStore env)
      in case res of
          Inl e \<Rightarrow> (SweepFailed e, env\<lparr>weStore := st\<rparr>)
        | Inr purged \<Rightarrow> (Swept purged, env\<lparr>weStore := st, wePurgesTotal :=
             (if 0 < purged then wrap64 (wePurgesTotal env + int purged) else wePurgesTotal env)\<rparr>))"

definition tick ::
  "(time \<Rightarrow> time \<Rightarrow> string \<Rightarrow> string \<Rightarrow> duration \<Rightarrow> 'c \<Rightarrow> (go_error + bool) \<times> 'c)
   \<Rightarrow> Worker \<Rightarrow> tick_event \<Rightarrow> 'c worker_env \<Rightarrow> tick_outcome \<times> 'c worker_env" where
  "tick set_if_absent w ev env = (case weCache env of
      None \<Rightarrow> sweep_store w ev env
    | Some c \<Rightarrow>
        (let (got, c') = set_if_absent (evLook ev) (evTake ev) ''trash:sweep:lock'' (wkLockID w)
                           (lock_ttl (wkCfg w)) c;
             env' = env\<lparr>weCache := Some c'\<rparr>
         in case got of
             Inl e \<Rightarrow> (ElectionFailed e, env')
           | Inr False \<Rightarrow> (NotLeader, env')
           | Inr True \<Rightarrow> sweep_store w ev env'))"

text \<open>
  The ticks of one or more replicas on the same store and cache, in the order of time. The loop
  of \<^verbatim>\<open>Run\<close> ticks at boot and then at every firing of its ticker.
\<close>

fun run_ticks ::
  "(time \<Rightarrow> time \<Rightarrow> string \<Rightarrow> string \<Rightarrow> duration \<Rightarrow> 'c \<Rightarrow> (go_error + bool) \<times> 'c)
   \<Rightarrow> (Worker \<times> tick_event) list \<Rightarrow> 'c worker_env \<Rightarrow> tick_outcome list \<times> 'c worker_env" where
  "run_ticks sia [] env = ([], env)"
| "run_ticks sia ((w, ev) # evs) env =
     (let (r, env1) = tick sia w ev env; (rs, env2) = run_ticks sia evs env1 in (r # rs, env2))"

definition worker_Run ::
  "(time \<Rightarrow> time \<Rightarrow> string \<Rightarrow> string \<Rightarrow> duration \<Rightarrow> 'c \<Rightarrow> (go_error + bool) \<times> 'c)
   \<Rightarrow> Worker \<Rightarrow> tick_event \<Rightarrow> tick_event list \<Rightarrow> 'c worker_env \<Rightarrow> tick_outcome list \<times> 'c worker_env" where
  "worker_Run sia w boot firings env = run_ticks sia (map (Pair w) (boot # firings)) env"

section \<open>The text of a process id\<close>

lemma itoa_digits_nat_str: "0 < n \<Longrightarrow> itoa_digits n buf = nat_str (nat n) @ buf"
proof (induction n buf rule: itoa_digits.induct)
  case (1 n buf)
  show ?case
  proof (cases "n < 10")
    case True
    then have "n div 10 = 0" "n mod 10 = n" using 1(2) by simp_all
    then show ?thesis
      using 1(2) True by (simp add: itoa_digits.simps [of n] itoa_digits.simps [of 0] nat_str.simps [of "nat n"])
  next
    case False
    then have "0 < n div 10" by linarith
    with 1 have "itoa_digits n buf = nat_str (nat (n div 10)) @ digit_char (nat (n mod 10)) # buf"
      by (simp add: itoa_digits.simps [of n])
    moreover have "nat (n div 10) = nat n div 10" "nat (n mod 10) = nat n mod 10"
      using 1(2) by (simp_all add: nat_div_distrib nat_mod_distrib)
    ultimately show ?thesis using False by (simp add: nat_str.simps [of "nat n"])
  qed
qed

lemma digit_char_0: "digit_char 0 = CHR ''0''"
  by code_simp

lemma itoa_decimal:
  "- (2 ^ 63) < n \<Longrightarrow> n < 2 ^ 63 \<Longrightarrow>
     itoa n = (if n < 0 then CHR ''-'' # nat_str (nat (- n)) else nat_str (nat n))"
  by (auto simp: itoa_def itoa_digits_nat_str wrap64_id Let_def nat_str.simps [of 0] digit_char_0)

section \<open>Leader election\<close>

definition swept :: "tick_outcome \<Rightarrow> bool" where
  "swept r \<longleftrightarrow> (case r of SweepFailed _ \<Rightarrow> True | Swept _ \<Rightarrow> True | _ \<Rightarrow> False)"

lemma swept_sweep_store [simp]: "swept (fst (sweep_store w ev env))"
  by (auto simp: sweep_store_def swept_def Let_def split: prod.splits sum.splits)

lemma sweep_store_cache [simp]: "weCache (snd (sweep_store w ev env)) = weCache env"
  by (auto simp: sweep_store_def Let_def split: prod.splits sum.splits)

lemma length_run_ticks [simp]: "length (fst (run_ticks sia evs env)) = length evs"
  by (induction sia evs env rule: run_ticks.induct) (auto simp: Let_def split: prod.splits)

context lease
begin

lemma tick_held:
  assumes "weCache env = Some c" and "held c ''trash:sweep:lock'' (evLook ev)"
  shows "tick take_key w ev env = (NotLeader, env)"
  using assms take_held [OF assms(2)] by (simp add: tick_def)

lemma tick_free:
  assumes "weCache env = Some c" and "\<not> held c ''trash:sweep:lock'' (evLook ev)"
    and "0 \<le> evTake ev" and "0 < lock_ttl (wkCfg w)"
  obtains c' r env' where "tick take_key w ev env = (r, env')" and "swept r" and "weCache env' = Some c'"
    and "\<forall>x. held c' ''trash:sweep:lock'' x \<longleftrightarrow> x < evTake ev + lock_ttl (wkCfg w)"
proof -
  from take_free [OF assms(2-4), of "wkLockID w"] obtain c' where
    c': "take_key (evLook ev) (evTake ev) ''trash:sweep:lock'' (wkLockID w) (lock_ttl (wkCfg w)) c = (Inr True, c')"
      "\<forall>x. held c' ''trash:sweep:lock'' x \<longleftrightarrow> x < evTake ev + lock_ttl (wkCfg w)" by blast
  let ?env = "env\<lparr>weCache := Some c'\<rparr>"
  have "tick take_key w ev env = sweep_store w ev ?env" using assms(1) c'(1) by (simp add: tick_def)
  then show thesis
    using c'(2) by (intro that [of "fst (sweep_store w ev ?env)" "snd (sweep_store w ev ?env)" c']) simp_all
qed

lemma ticks_held:
  assumes "weCache env = Some c" and "\<forall>x<d. held c ''trash:sweep:lock'' x"
    and "\<forall>k\<le>j. evLook (snd (evs ! k)) < d" and "j < length evs"
  shows "fst (run_ticks take_key evs env) ! j = NotLeader"
  using assms(3,4)
proof (induction evs arbitrary: j)
  case (Cons e evs)
  obtain w ev where e: "e = (w, ev)" by (cases e)
  have "held c ''trash:sweep:lock'' (evLook ev)" using Cons.prems(1) assms(2) e by force
  then have t: "tick take_key w ev env = (NotLeader, env)" using tick_held assms(1) by blast
  show ?case
  proof (cases j)
    case 0
    then show ?thesis using e t by (simp split: prod.split)
  next
    case (Suc i)
    have "\<forall>k\<le>i. evLook (snd (evs ! k)) < d" using Cons.prems(1) Suc by auto
    then show ?thesis using Cons.IH [of i] Cons.prems(2) e t Suc by (auto split: prod.split)
  qed
qed simp

lemma sweeps_apart:
  assumes "weCache env = Some c" and "i < j" and "j < length evs"
    and "sorted (map (\<lambda>e. evLook (snd e)) evs)"
    and "\<forall>e\<in>set evs. 0 \<le> evTake (snd e) \<and> 0 < lock_ttl (wkCfg (fst e))"
    and "swept (fst (run_ticks take_key evs env) ! i)" and "swept (fst (run_ticks take_key evs env) ! j)"
  shows "evTake (snd (evs ! i)) + lock_ttl (wkCfg (fst (evs ! i))) \<le> evLook (snd (evs ! j))"
  using assms
proof (induction evs arbitrary: i j env c)
  case (Cons e evs)
  obtain w ev where e: "e = (w, ev)" by (cases e)
  obtain j' where j: "j = Suc j'" using Cons.prems(2) by (cases j) auto
  define env' where "env' = snd (tick take_key w ev env)"
  have run: "fst (run_ticks take_key (e # evs) env) = fst (tick take_key w ev env) # fst (run_ticks take_key evs env')"
    by (simp add: e env'_def split: prod.split)
  have sorted: "sorted (map (\<lambda>e. evLook (snd e)) evs)" using Cons.prems(4) by simp
  have le: "evLook (snd (evs ! k)) \<le> evLook (snd (evs ! j'))" if "k \<le> j'" for k
    using sorted_nth_mono [OF sorted that] Cons.prems(3) that j by simp
  have cache: "\<exists>c'. weCache env' = Some c'"
    and zero: "i = 0 \<Longrightarrow> ?case"
  proof -
    show "\<exists>c'. weCache env' = Some c'"
    proof (cases "held c ''trash:sweep:lock'' (evLook ev)")
      case True
      then show ?thesis using tick_held [OF Cons.prems(1) True] Cons.prems(1) by (simp add: env'_def)
    next
      case False
      have "0 \<le> evTake ev" "0 < lock_ttl (wkCfg w)" using Cons.prems(5) e by simp_all
      then obtain c' r env1 where "tick take_key w ev env = (r, env1)" and "swept r" and "weCache env1 = Some c'"
        and "\<forall>x. held c' ''trash:sweep:lock'' x \<longleftrightarrow> x < evTake ev + lock_ttl (wkCfg w)"
        by (rule tick_free [OF Cons.prems(1) False])
      then show ?thesis by (simp add: env'_def)
    qed
    assume i: "i = 0"
    have free: "\<not> held c ''trash:sweep:lock'' (evLook ev)"
    proof
      assume "held c ''trash:sweep:lock'' (evLook ev)"
      from tick_held [OF Cons.prems(1) this] Cons.prems(6) run i show False by (simp add: swept_def)
    qed
    have "0 \<le> evTake ev" "0 < lock_ttl (wkCfg w)" using Cons.prems(5) e by simp_all
    then obtain c' r env1 where t: "tick take_key w ev env = (r, env1)" and "swept r" and c': "weCache env1 = Some c'"
      and h: "\<forall>x. held c' ''trash:sweep:lock'' x \<longleftrightarrow> x < evTake ev + lock_ttl (wkCfg w)"
      by (rule tick_free [OF Cons.prems(1) free])
    show ?case
    proof (rule ccontr)
      assume "\<not> ?thesis"
      then have "evLook (snd (evs ! j')) < evTake ev + lock_ttl (wkCfg w)" using i j e by simp
      then have "\<forall>k\<le>j'. evLook (snd (evs ! k)) < evTake ev + lock_ttl (wkCfg w)" using le by force
      from ticks_held [OF _ _ this, of env' c'] c' h t Cons.prems(3) j
      have "fst (run_ticks take_key evs env') ! j' = NotLeader" by (simp add: env'_def)
      then show False using Cons.prems(7) run j by (simp add: swept_def)
    qed
  qed
  show ?case
  proof (cases i)
    case (Suc i')
    from cache obtain c' where "weCache env' = Some c'" by blast
    from Cons.IH [OF this, of i' j'] Cons.prems(2-7) sorted run Suc j show ?thesis by simp
  qed (use zero in simp)
qed simp

text \<open>The ticks of one worker, one sweep interval apart.\<close>

lemma every_other_tick:
  assumes "weCache env = Some c" and "\<not> held c ''trash:sweep:lock'' t0" and "0 \<le> t0"
    and "lock_ttl (wkCfg w) = d + Minute" and "Minute \<le> d" and "k < n"
    and "\<forall>k<n. evLook (f k) = t0 + int k * d \<and> evTake (f k) = t0 + int k * d"
  shows "swept (fst (run_ticks take_key (map (\<lambda>k. (w, f k)) [0..<n]) env) ! k) \<longleftrightarrow> even k"
  using assms
proof (induction k arbitrary: n env c t0 f rule: less_induct)
  case (less k)
  note ttl = less.prems(4)
  let ?lock = "''trash:sweep:lock''"
  have "0 < Minute" by (simp add: duration_units)
  with less.prems(5) have pos: "0 < d" "0 < d + Minute" by simp_all
  have f0: "evLook (f 0) = t0" "evTake (f 0) = t0" using less.prems(6,7) by (auto dest: spec [of _ 0])
  obtain r c' env1 where t: "tick take_key w (f 0) env = (r, env1)" and r: "swept r" and c': "weCache env1 = Some c'"
    and h: "\<forall>x. held c' ?lock x \<longleftrightarrow> x < evTake (f 0) + lock_ttl (wkCfg w)"
    using tick_free [OF less.prems(1), of "f 0" w] less.prems(2,3) f0 ttl pos by metis
  obtain m where n: "n = Suc m" using less.prems(6) by (cases n) auto
  have split1: "map (\<lambda>k. (w, f k)) [0..<Suc m] = (w, f 0) # map (\<lambda>k. (w, f (Suc k))) [0..<m]" for f m
    by (simp add: upt_conv_Cons map_Suc_upt [symmetric] comp_def del: upt_Suc)
  show ?case
  proof (cases k)
    case 0
    then show ?thesis using t r n by (simp add: split1 split: prod.split del: upt_Suc)
  next
    case (Suc k1)
    then obtain m2 where m: "m = Suc m2" using less.prems(6) n by (cases m) auto
    have f1: "evLook (f 1) = t0 + d" using less.prems(7) n m by (auto dest: spec [of _ 1])
    have "held c' ?lock (evLook (f 1))" using h f0 f1 ttl pos \<open>0 < Minute\<close> by simp
    then have t1: "tick take_key w (f 1) env1 = (NotLeader, env1)" using tick_held [OF c'] by blast
    have run: "fst (run_ticks take_key (map (\<lambda>k. (w, f k)) [0..<n]) env)
        = r # NotLeader # fst (run_ticks take_key (map (\<lambda>k. (w, f (Suc (Suc k)))) [0..<m2]) env1)"
      using t t1 by (simp add: n m split1 split: prod.split del: upt_Suc)
    show ?thesis
    proof (cases k1)
      case 0
      then show ?thesis using run Suc by (simp add: swept_def)
    next
      case (Suc k2)
      have k: "k = Suc (Suc k2)" using Suc \<open>k = Suc k1\<close> by simp
      have free: "\<not> held c' ?lock (t0 + 2 * d)" using h f0 ttl less.prems(5) by simp
      have fs: "\<forall>i<m2. evLook (f (Suc (Suc i))) = t0 + 2 * d + int i * d
          \<and> evTake (f (Suc (Suc i))) = t0 + 2 * d + int i * d"
        using less.prems(7) n m by (auto simp: algebra_simps)
      have "swept (fst (run_ticks take_key (map (\<lambda>i. (w, f (Suc (Suc i)))) [0..<m2]) env1) ! k2) \<longleftrightarrow> even k2"
        using less.IH [OF _ c' free _ ttl less.prems(5) _ fs, of k2] k less.prems(3,6) n m pos by simp
      then show ?thesis using run k by simp
    qed
  qed
qed

end

lemma lock_ttl_exact:
  "0 < wcSweepInterval cfg \<Longrightarrow> wcSweepInterval cfg < 2 ^ 63 - Minute \<Longrightarrow>
     lock_ttl cfg = wcSweepInterval cfg + Minute"
  by (simp add: lock_ttl_def duration_units wrap64_id)

text \<open>
  C33: replicas that share the in-memory cache do not sweep close together: whatever the replicas
  and the order of their ticks, when one takes the lock after another one swept, it does so at least
  the sweep interval and a minute of the earlier one later. A replica sweeps some time after it took the
  lock; if that delay never exceeds a bound, the sweeps themselves are this far apart less the bound.
\<close>

lemma sweeps_at_least_a_lease_apart:
  assumes "weCache env = Some c" and "i < j" and "j < length evs"
    and "sorted (map (\<lambda>e. evLook (snd e)) evs)"
    and "\<forall>e\<in>set evs. 0 \<le> evTake (snd e) \<and> 0 < wcSweepInterval (wkCfg (fst e))
           \<and> wcSweepInterval (wkCfg (fst e)) < 2 ^ 63 - Minute"
    and instants: "\<forall>e\<in>set evs. evLook (snd e) \<le> evTake (snd e) \<and> evTake (snd e) \<le> evSweep (snd e)
           \<and> evSweep (snd e) \<le> evTake (snd e) + delay"
    and "swept (fst (run_ticks SetIfAbsent evs env) ! i)"
    and "swept (fst (run_ticks SetIfAbsent evs env) ! j)"
  shows "evTake (snd (evs ! i)) + wcSweepInterval (wkCfg (fst (evs ! i))) + Minute \<le> evTake (snd (evs ! j))
    \<and> evSweep (snd (evs ! i)) + wcSweepInterval (wkCfg (fst (evs ! i))) + Minute - delay \<le> evSweep (snd (evs ! j))"
proof -
  have ttl: "lock_ttl (wkCfg (fst e)) = wcSweepInterval (wkCfg (fst e)) + Minute" if "e \<in> set evs" for e
    using assms(5) that by (intro lock_ttl_exact) auto
  moreover have "0 < Minute" by (simp add: duration_units)
  ultimately have "\<forall>e\<in>set evs. 0 \<le> evTake (snd e) \<and> 0 < lock_ttl (wkCfg (fst e))"
    using assms(5) by (auto intro!: add_pos_pos)
  from mem_cache.sweeps_apart [OF assms(1-4) this assms(7,8)]
  have "evTake (snd (evs ! i)) + wcSweepInterval (wkCfg (fst (evs ! i))) + Minute \<le> evLook (snd (evs ! j))"
    using ttl [of "evs ! i"] assms(2,3) by simp
  moreover have "evs ! i \<in> set evs" "evs ! j \<in> set evs" using assms(2,3) by simp_all
  note bspec [OF instants this(1)] bspec [OF instants this(2)]
  ultimately show ?thesis by linarith
qed

definition demo_event :: "time \<Rightarrow> tick_event" where
  "demo_event t = \<lparr>evLook = t, evTake = t, evSweep = t, evOrder = []\<rparr>"

definition demo_env :: "InMemoryCache worker_env" where
  "demo_env = \<lparr>weCache = Some NewInMemoryCache, weStore = NewTrashStore (\<lambda>_. []), wePurgesTotal = 0\<rparr>"

definition demo_worker :: "string \<Rightarrow> Worker" where
  "demo_worker host = NewWorker host 7 \<lparr>wcRetentionDays = 0, wcSweepInterval = 0, wcMaxBatchSize = 0\<rparr>"

lemma demo_outcomes:
  "fst (run_ticks SetIfAbsent [(demo_worker ''a'', demo_event 5), (demo_worker ''b'', demo_event (5 + 6 * Hour)),
      (demo_worker ''a'', demo_event (5 + 12 * Hour))] demo_env) = [Swept 0, NotLeader, Swept 0]"
  by code_simp

lemma sweeps_at_least_a_lease_apart_witness:
  "evSweep (demo_event 5) + 6 * Hour + Minute \<le> evSweep (demo_event (5 + 12 * Hour))"
proof -
  let ?evs = "[(demo_worker ''a'', demo_event 5), (demo_worker ''b'', demo_event (5 + 6 * Hour)),
      (demo_worker ''a'', demo_event (5 + 12 * Hour))]"
  have cfg: "wcSweepInterval (wkCfg (demo_worker h)) = 6 * Hour" for h
    by (simp add: demo_worker_def NewWorker_def WorkerNormalize_def)
  have "weCache demo_env = Some NewInMemoryCache" by (simp add: demo_env_def)
  moreover have "sorted (map (\<lambda>e. evLook (snd e)) ?evs)" by (simp add: demo_event_def duration_units)
  moreover have "\<forall>e\<in>set ?evs. 0 \<le> evTake (snd e) \<and> 0 < wcSweepInterval (wkCfg (fst e))
      \<and> wcSweepInterval (wkCfg (fst e)) < 2 ^ 63 - Minute"
    using cfg by (simp add: demo_event_def duration_units)
  moreover have "swept (fst (run_ticks SetIfAbsent ?evs demo_env) ! 0)"
    "swept (fst (run_ticks SetIfAbsent ?evs demo_env) ! 2)"
    unfolding demo_outcomes by (simp_all add: swept_def)
  ultimately show ?thesis
    using sweeps_at_least_a_lease_apart [of demo_env NewInMemoryCache 0 2 ?evs 0] cfg by (simp add: demo_event_def)
qed

text \<open>
  C34: The lock is taken for a minute more than the interval, and its holder does not renew it: a
  lone replica whose clock runs exactly, on a cache where the lock is free, sweeps on its first
  tick and then on every other one only.
\<close>

lemma lone_worker_sweeps_every_other_tick:
  assumes "weCache env = Some c" and "\<not> cache_holds c ''trash:sweep:lock'' t0" and "0 \<le> t0"
    and "Minute \<le> wcSweepInterval (wkCfg w)" and "wcSweepInterval (wkCfg w) < 2 ^ 63 - Minute"
    and "k < n"
    and "\<forall>k<n. evLook (f k) = t0 + int k * wcSweepInterval (wkCfg w)
           \<and> evTake (f k) = t0 + int k * wcSweepInterval (wkCfg w)"
  shows "swept (fst (run_ticks SetIfAbsent (map (\<lambda>k. (w, f k)) [0..<n]) env) ! k) \<longleftrightarrow> even k"
proof -
  have "0 < Minute" by (simp add: duration_units)
  then have "lock_ttl (wkCfg w) = wcSweepInterval (wkCfg w) + Minute"
    using assms(4,5) by (intro lock_ttl_exact) simp_all
  from mem_cache.every_other_tick [OF assms(1-3) this assms(4,6,7)] show ?thesis .
qed

lemma lone_worker_sweeps_every_other_tick_witness:
  "map (\<lambda>k. swept (fst (run_ticks SetIfAbsent (map (\<lambda>k. (demo_worker ''a'', demo_event (5 + int k * (6 * Hour)))) [0..<4])
      demo_env) ! k)) [0..<4] = [True, False, True, False]"
proof -
  have cfg: "wcSweepInterval (wkCfg (demo_worker h)) = 6 * Hour" for h
    by (simp add: demo_worker_def NewWorker_def WorkerNormalize_def)
  have "weCache demo_env = Some NewInMemoryCache" by (simp add: demo_env_def)
  moreover have "\<not> cache_holds NewInMemoryCache ''trash:sweep:lock'' 5"
    by (simp add: cache_holds_def NewInMemoryCache_def)
  moreover have "Minute \<le> wcSweepInterval (wkCfg (demo_worker ''a''))"
    "wcSweepInterval (wkCfg (demo_worker ''a'')) < 2 ^ 63 - Minute"
    unfolding cfg by (simp_all add: duration_units)
  ultimately have "swept (fst (run_ticks SetIfAbsent (map (\<lambda>k. (demo_worker ''a'', demo_event (5 + int k * (6 * Hour)))) [0..<4])
      demo_env) ! k) \<longleftrightarrow> even k" if "k < 4" for k
    using lone_worker_sweeps_every_other_tick [of demo_env NewInMemoryCache 5 "demo_worker ''a''" k 4
        "\<lambda>k. demo_event (5 + int k * (6 * Hour))"] that cfg by (simp add: demo_event_def)
  then show ?thesis by (simp add: upt_rec [of _ 4])
qed

text \<open>
  With a retention period that the configuration check accepts (1 to 365 days) no arithmetic
  of the worker overflows, a sweep cannot fail, and a tick that sweeps removes nothing that was
  trashed less than that many days ago.
\<close>

lemma retention_exact:
  assumes "1 \<le> wcRetentionDays (wkCfg w)" and "wcRetentionDays (wkCfg w) \<le> 365"
    and "enumerates (tsEntities (weStore env)) (evOrder ev)"
  shows "retention_of (wkCfg w) = wcRetentionDays (wkCfg w) * (24 * Hour)
    \<and> (\<exists>n env'. sweep_store w ev env = (Swept n, env')
        \<and> (\<forall>k e d. tsEntities (weStore env) k = Some e \<longrightarrow> tsEntities (weStore env') k = None \<longrightarrow>
             tDeletedAt e = Some d \<longrightarrow> d + wcRetentionDays (wkCfg w) * (24 * Hour) \<le> evSweep ev)
        \<and> (\<forall>k e. tsEntities (weStore env) k = Some e \<longrightarrow> tDeletedAt e = None \<longrightarrow>
             tsEntities (weStore env') k = Some e))"
proof -
  have ret: "retention_of (wkCfg w) = wcRetentionDays (wkCfg w) * (24 * Hour)"
    using assms(1,2) by (simp add: retention_of_def duration_units wrap64_id)
  then have pos: "0 < retention_of (wkCfg w)" using assms(1) by (simp add: duration_units)
  obtain s' R where s': "SweepExpired (evOrder ev) (evSweep ev) (retention_of (wkCfg w)) (wcMaxBatchSize (wkCfg w))
      (weStore env) = (Inr (card R), s')"
    and sub: "R \<subseteq> {k. \<exists>e. tsEntities (weStore env) k = Some e \<and> expired (evSweep ev - retention_of (wkCfg w)) e}"
    and "card R = (if 0 < wcMaxBatchSize (wkCfg w) then min (nat (wcMaxBatchSize (wkCfg w)))
        (card {k. \<exists>e. tsEntities (weStore env) k = Some e \<and> expired (evSweep ev - retention_of (wkCfg w)) e})
      else card {k. \<exists>e. tsEntities (weStore env) k = Some e \<and> expired (evSweep ev - retention_of (wkCfg w)) e})"
    and rows: "tsEntities s' = tsEntities (weStore env) |` (- R)"
    using SweepExpired_effect [OF pos assms(3)] .
  obtain env' where "sweep_store w ev env = (Swept (card R), env')" "weStore env' = s'"
    by (simp add: sweep_store_def s')
  moreover have "d + wcRetentionDays (wkCfg w) * (24 * Hour) \<le> evSweep ev"
    if "tsEntities (weStore env) k = Some e" "tsEntities s' k = None" "tDeletedAt e = Some d" for k e d
  proof -
    have "k \<in> R" using that(1,2) rows by (auto simp: restrict_map_def split: if_splits)
    with sub that(1,3) show ?thesis by (auto simp: expired_def After_def ret)
  qed
  moreover have "tsEntities s' k = Some e"
    if "tsEntities (weStore env) k = Some e" "tDeletedAt e = None" for k e
  proof -
    have "k \<notin> R" using that sub by (auto simp: expired_def)
    with that(1) rows show ?thesis by (simp add: restrict_map_def)
  qed
  ultimately show ?thesis using ret by blast
qed

lemma retention_exact_witness:
  "retention_of (wkCfg (demo_worker ''a'')) = 30 * (24 * Hour)"
proof -
  have cfg: "wcRetentionDays (wkCfg (demo_worker ''a'')) = 30"
    by (simp add: demo_worker_def NewWorker_def WorkerNormalize_def)
  then have "1 \<le> wcRetentionDays (wkCfg (demo_worker ''a''))" "wcRetentionDays (wkCfg (demo_worker ''a'')) \<le> 365"
    by simp_all
  moreover have "enumerates (tsEntities (weStore demo_env)) (evOrder (demo_event 5))"
    by (simp add: demo_env_def demo_event_def NewTrashStore_def)
  ultimately show ?thesis using retention_exact [of "demo_worker ''a''" demo_env "demo_event 5"] cfg by metis
qed

end
