(* ===== verification/Go_Strings.thy ===== *)
theory Go_Strings
  imports Go_Prelude
begin

text \<open>
  More of Go's package \<^verbatim>\<open>strings\<close>: what the knowledge packages cut, trim and replace with. Strings
  are lists of bytes, as in \<open>Go_Prelude\<close>.
\<close>

definition TrimPrefix :: "string \<Rightarrow> string \<Rightarrow> string" where
  "TrimPrefix s p = (if HasPrefix s p then drop (length p) s else s)"

definition HasSuffix :: "string \<Rightarrow> string \<Rightarrow> bool" where
  "HasSuffix s p = HasPrefix (rev s) (rev p)"

definition TrimSuffix :: "string \<Rightarrow> string \<Rightarrow> string" where
  "TrimSuffix s p = (if HasSuffix s p then take (length s - length p) s else s)"

text \<open>\<^verbatim>\<open>strings.Cut\<close> at a separator: before, after, found.\<close>

fun Cut :: "string \<Rightarrow> string \<Rightarrow> string \<times> string \<times> bool" where
  "Cut s sep = (if HasPrefix s sep then ([], drop (length sep) s, True)
     else (case s of [] \<Rightarrow> ([], [], False)
       | c # cs \<Rightarrow> (case Cut cs sep of (a, b, found) \<Rightarrow> if found then (c # a, b, True) else (s, [], False))))"

declare Cut.simps [simp del]

text \<open>\<^verbatim>\<open>s[:strings.LastIndex(s, c)]\<close> for a single byte that occurs in \<open>s\<close>.\<close>

definition before_last :: "char \<Rightarrow> string \<Rightarrow> string" where
  "before_last c s = rev (tl (dropWhile (\<lambda>x. x \<noteq> c) (rev s)))"

text \<open>\<^verbatim>\<open>strings.Trim\<close> with a cutset of one byte.\<close>

definition TrimChar :: "string \<Rightarrow> char \<Rightarrow> string" where
  "TrimChar s c = rev (dropWhile (\<lambda>x. x = c) (rev (dropWhile (\<lambda>x. x = c) s)))"

text \<open>\<^verbatim>\<open>strings.ReplaceAll\<close> of a non-empty text, from the left and without overlaps.\<close>

function ReplaceAll :: "string \<Rightarrow> string \<Rightarrow> string \<Rightarrow> string" where
  "ReplaceAll s old new = (case s of [] \<Rightarrow> []
     | c # cs \<Rightarrow> if old \<noteq> [] \<and> HasPrefix s old then new @ ReplaceAll (drop (length old) s) old new
                else c # ReplaceAll cs old new)"
  by pat_completeness auto
termination by (relation "measure (\<lambda>(s, _, _). length s)") auto

declare ReplaceAll.simps [simp del]

text \<open>\<^verbatim>\<open>strings.Join\<close>.\<close>

fun Join :: "string list \<Rightarrow> string \<Rightarrow> string" where
  "Join [] sep = []"
| "Join [x] sep = x"
| "Join (x # y # xs) sep = x @ sep @ Join (y # xs) sep"

text \<open>\<^verbatim>\<open>strconv.Itoa\<close>.\<close>

definition Itoa :: "int \<Rightarrow> string" where
  "Itoa i = (if i < 0 then ''-'' @ nat_str (nat (- i)) else nat_str (nat i))"

section \<open>Lemmas\<close>

lemma HasSuffix_iff: "HasSuffix s p \<longleftrightarrow> (\<exists>t. s = t @ p)"
proof -
  have "(\<exists>t. rev s = rev p @ t) \<longleftrightarrow> (\<exists>t. s = t @ p)"
    by (metis append_self_conv rev_append rev_rev_ident)
  then show ?thesis by (simp add: HasSuffix_def HasPrefix_iff)
qed

lemma TrimPrefix_append [simp]: "TrimPrefix (p @ s) p = s"
  by (simp add: TrimPrefix_def HasPrefix_iff)

lemma TrimPrefix_cases: "s = p @ TrimPrefix s p \<or> TrimPrefix s p = s \<and> \<not> HasPrefix s p"
  by (auto simp: TrimPrefix_def HasPrefix_iff)

lemma TrimSuffix_cases: "s = TrimSuffix s p @ p \<or> TrimSuffix s p = s \<and> \<not> HasSuffix s p"
  by (auto simp: TrimSuffix_def HasSuffix_iff)

lemma TrimSpace_no_space: "\<forall>c\<in>set s. \<not> is_space c \<Longrightarrow> TrimSpace s = s"
proof -
  assume a: "\<forall>c\<in>set s. \<not> is_space c"
  then have "dropWhile is_space s = s" by (cases s) auto
  moreover have "dropWhile is_space (rev s) = rev s" using a by (cases "rev s") (auto simp: rev_eq_Cons_iff)
  ultimately show ?thesis by (simp add: TrimSpace_def)
qed

lemma dropWhile_rev_idem: "dropWhile P (rev (dropWhile P (rev (dropWhile P xs)))) = rev (dropWhile P (rev (dropWhile P xs)))"
proof (cases "dropWhile P xs")
  case (Cons y ys)
  then have y: "\<not> P y" using hd_dropWhile [of P xs] by simp
  have "dropWhile P (rev ys @ [y]) = dropWhile P (rev ys) @ [y]"
    using y by (cases "\<forall>z\<in>set ys. P z") (auto simp: dropWhile_append)
  then show ?thesis using Cons y by simp
next
  case Nil
  then show ?thesis by (simp only: list.simps rev.simps dropWhile.simps)
qed

lemma TrimSpace_idem [simp]: "TrimSpace (TrimSpace s) = TrimSpace s"
  by (simp add: TrimSpace_def dropWhile_rev_idem)

lemma ends_TrimChar: "TrimChar s c \<noteq> [] \<Longrightarrow> hd (TrimChar s c) \<noteq> c \<and> last (TrimChar s c) \<noteq> c"
proof -
  assume ne: "TrimChar s c \<noteq> []"
  let ?m = "dropWhile (\<lambda>x. x = c) (rev (dropWhile (\<lambda>x. x = c) s))"
  have m: "?m \<noteq> []" using ne by (simp add: TrimChar_def)
  then have "hd ?m \<noteq> c" using hd_dropWhile [of "\<lambda>x. x = c"] by blast
  then have l: "last (TrimChar s c) \<noteq> c" using m by (simp add: TrimChar_def last_rev)
  have "dropWhile (\<lambda>x. x = c) (TrimChar s c) = TrimChar s c"
    unfolding TrimChar_def by (rule dropWhile_rev_idem)
  then have "hd (TrimChar s c) \<noteq> c" using ne hd_dropWhile [of "\<lambda>x. x = c" "TrimChar s c"] by simp
  with l show ?thesis by blast
qed

lemma TrimChar_infix: "\<exists>a b. s = a @ TrimChar s c @ b"
proof -
  let ?t = "dropWhile (\<lambda>x. x = c) s"
  have "s = takeWhile (\<lambda>x. x = c) s @ ?t" by simp
  moreover have "?t = rev (dropWhile (\<lambda>x. x = c) (rev ?t)) @ rev (takeWhile (\<lambda>x. x = c) (rev ?t))"
    by (metis rev_append rev_rev_ident takeWhile_dropWhile_id)
  ultimately show ?thesis unfolding TrimChar_def by metis
qed

lemma ReplaceAll_Nil [simp]: "ReplaceAll [] old new = []"
  by (simp add: ReplaceAll.simps)

lemma ReplaceAll_Cons:
  "ReplaceAll (c # cs) old new =
     (if old \<noteq> [] \<and> HasPrefix (c # cs) old then new @ ReplaceAll (drop (length old) (c # cs)) old new
      else c # ReplaceAll cs old new)"
  by (simp add: ReplaceAll.simps [of "c # cs"])

lemma length_ReplaceAll_le:
  "length new \<le> length old \<Longrightarrow> length (ReplaceAll s old new) \<le> length s"
proof (induction s old new rule: ReplaceAll.induct)
  case (1 s old new)
  show ?case
  proof (cases s)
    case (Cons c cs)
    show ?thesis
    proof (cases "old \<noteq> [] \<and> HasPrefix s old")
      case True
      then have "length old \<le> length s" by (auto simp: HasPrefix_iff)
      then show ?thesis using 1(1) [OF Cons True 1(3)] True Cons 1(3)
        by (simp add: ReplaceAll_Cons)
    next
      case False
      then show ?thesis using 1(2) [OF Cons False 1(3)] Cons by (auto simp: ReplaceAll_Cons)
    qed
  qed simp
qed

lemma length_ReplaceAll_less:
  "length new < length old \<Longrightarrow> Contains s old \<Longrightarrow> length (ReplaceAll s old new) < length s"
proof (induction s old new rule: ReplaceAll.induct)
  case (1 s old new)
  then have ne: "old \<noteq> []" by auto
  show ?case
  proof (cases s)
    case Nil
    then show ?thesis using 1(4) ne by simp
  next
    case (Cons c cs)
    show ?thesis
    proof (cases "HasPrefix s old")
      case True
      then have "length old \<le> length s" by (auto simp: HasPrefix_iff)
      moreover have "length (ReplaceAll (drop (length old) s) old new) \<le> length s - length old"
        using length_ReplaceAll_le [of new old "drop (length old) s"] 1(3) by simp
      ultimately show ?thesis using True ne 1(3) Cons by (simp add: ReplaceAll_Cons)
    next
      case False
      then have "Contains cs old" using 1(4) Cons by simp
      then show ?thesis using 1(2) [OF Cons _ 1(3)] False Cons by (simp add: ReplaceAll_Cons)
    qed
  qed
qed

end
