(* ===== verification/Knowledge_Model.thy ===== *)
theory Knowledge_Model
  imports Go_Strings
begin

text \<open>
  The data of the knowledge package (\<^verbatim>\<open>internal/knowledge/models.go\<close>) with its pure functions, and
  the revision and section-key helpers of \<^verbatim>\<open>internal/knowledge/understanding.go\<close>.

  \<^item> The named string types whose values the code compares, lower-cases or concatenates (scope
    types, audiences, depths, generation modes, artifact types, source types) are strings with
    named constants, as in Go. The two life cycles are datatypes with a constructor for any
    other text.
  \<^item> A \<^verbatim>\<open>*ArtifactScope\<close> is an option. A nil slice and an empty one are both \<open>[]\<close>.
\<close>

section \<open>Named strings\<close>

type_synonym ArtifactType = string
type_synonym Audience = string
type_synonym Depth = string
type_synonym ScopeType = string
type_synonym GenerationMode = string
type_synonym EvidenceSourceType = string

definition ScopeRepository :: ScopeType where "ScopeRepository = ''repository''"
definition ScopeModule :: ScopeType where "ScopeModule = ''module''"
definition ScopeFile :: ScopeType where "ScopeFile = ''file''"
definition ScopeSymbol :: ScopeType where "ScopeSymbol = ''symbol''"
definition ScopeRequirement :: ScopeType where "ScopeRequirement = ''requirement''"

lemmas scope_types = ScopeRepository_def ScopeModule_def ScopeFile_def ScopeSymbol_def ScopeRequirement_def

definition AudienceBeginner :: Audience where "AudienceBeginner = ''beginner''"
definition AudienceDeveloper :: Audience where "AudienceDeveloper = ''developer''"

definition IsOSSAudience :: "Audience \<Rightarrow> bool" where
  "IsOSSAudience a \<longleftrightarrow> a = AudienceBeginner \<or> a = AudienceDeveloper"

definition DepthSummary :: Depth where "DepthSummary = ''summary''"
definition DepthMedium :: Depth where "DepthMedium = ''medium''"
definition DepthDeep :: Depth where "DepthDeep = ''deep''"

definition ValidDepths :: "Depth list" where
  "ValidDepths = [DepthSummary, DepthMedium, DepthDeep]"

definition IsValidDepth :: "Depth \<Rightarrow> bool" where
  "IsValidDepth d \<longleftrightarrow> d = DepthSummary \<or> d = DepthMedium \<or> d = DepthDeep"

definition GenerationModeClassic :: GenerationMode where
  "GenerationModeClassic = ''classic''"
definition GenerationModeUnderstandingFirst :: GenerationMode where
  "GenerationModeUnderstandingFirst = ''understanding_first''"

definition NormalizeGenerationMode :: "GenerationMode \<Rightarrow> GenerationMode" where
  "NormalizeGenerationMode mode =
     (if ToLower (TrimSpace mode) = GenerationModeClassic then GenerationModeClassic
      else GenerationModeUnderstandingFirst)"

definition EvidenceRepository :: EvidenceSourceType where "EvidenceRepository = ''repository''"
definition EvidenceSymbol :: EvidenceSourceType where "EvidenceSymbol = ''symbol''"
definition EvidenceCommit :: EvidenceSourceType where "EvidenceCommit = ''commit''"

section \<open>Scopes\<close>

record ArtifactScope =
  scType :: ScopeType
  scPath :: string
  scModulePath :: string
  scFilePath :: string
  scSymbolName :: string

definition normalizeScopePath :: "ScopeType \<Rightarrow> string \<Rightarrow> string" where
  "normalizeScopePath scopeType scopePath =
     (let p = TrimSuffix (TrimPrefix (TrimSpace scopePath) ''/'') ''/''
      in if scopeType = ScopeRepository then [] else p)"

definition splitSymbolScopePath :: "string \<Rightarrow> string \<times> string" where
  "splitSymbolScopePath scopePath = (case Cut scopePath ''#'' of (filePath, symbolName, found) \<Rightarrow>
     if found then (filePath, symbolName)
     else (case Cut scopePath '':'' of (filePath, symbolName, found) \<Rightarrow>
       if found \<and> \<not> Contains symbolName ''/'' \<and> \<not> Contains symbolName ''.'' then (filePath, symbolName)
       else (scopePath, [])))"

definition modulePathForFile :: "string \<Rightarrow> string" where
  "modulePathForFile filePath = (let f = TrimSpace filePath
     in if f = [] then [] else if CHR ''/'' \<notin> set f then [] else before_last CHR ''/'' f)"

definition scope_Normalize :: "ArtifactScope \<Rightarrow> ArtifactScope" where
  "scope_Normalize s =
     (let t = (if scType s = [] then ScopeRepository else scType s);
          p = normalizeScopePath t (scPath s);
          out = s\<lparr>scType := t, scPath := p\<rparr>
      in if t = ScopeRepository
         then out\<lparr>scPath := [], scModulePath := [], scFilePath := [], scSymbolName := []\<rparr>
         else if t = ScopeModule then out\<lparr>scModulePath := p, scFilePath := [], scSymbolName := []\<rparr>
         else if t = ScopeFile
         then out\<lparr>scFilePath := p, scModulePath := modulePathForFile p, scSymbolName := []\<rparr>
         else if t = ScopeSymbol
         then (case splitSymbolScopePath p of (f, n) \<Rightarrow>
                 out\<lparr>scFilePath := f, scSymbolName := n, scModulePath := modulePathForFile f\<rparr>)
         else if t = ScopeRequirement then out\<lparr>scModulePath := [], scFilePath := [], scSymbolName := []\<rparr>
         else out)"

definition ScopeKey :: "ArtifactScope \<Rightarrow> string" where
  "ScopeKey s = (let norm = scope_Normalize s
     in if scType norm = ScopeRepository then ''repository:'' else scType norm @ '':'' @ scPath norm)"

record ArtifactKey =
  akRepositoryID :: string
  akType :: ArtifactType
  akAudience :: Audience
  akDepth :: Depth
  akScope :: ArtifactScope

definition Normalized :: "ArtifactKey \<Rightarrow> ArtifactKey" where
  "Normalized k =
     (let sc = scope_Normalize (akScope k)
      in k\<lparr>akAudience := ToLower (akAudience k), akDepth := ToLower (akDepth k),
           akScope := (if scType sc = [] then sc\<lparr>scType := ScopeRepository\<rparr> else sc)\<rparr>)"

definition key_ScopeKey :: "ArtifactKey \<Rightarrow> string" where
  "key_ScopeKey k = ScopeKey (akScope (Normalized k))"

datatype key_error =
    RepositoryIDRequired
  | ArtifactTypeRequired
  | ScopePathRequired ScopeType
  | InvalidScopeType ScopeType

definition key_Validate :: "ArtifactKey \<Rightarrow> key_error option" where
  "key_Validate k =
     (let norm = Normalized k; t = scType (akScope norm)
      in if akRepositoryID norm = [] then Some RepositoryIDRequired
         else if akType norm = [] then Some ArtifactTypeRequired
         else if t = ScopeRepository then None
         else if t = ScopeModule \<or> t = ScopeFile \<or> t = ScopeSymbol \<or> t = ScopeRequirement
         then (if scPath (akScope norm) = [] then Some (ScopePathRequired t) else None)
         else Some (InvalidScopeType t))"

section \<open>Artifacts, sections, evidence\<close>

datatype ArtifactStatus = ArtPending | ArtGenerating | ArtReady | ArtFailed | ArtStale | ArtOther string

record SourceRevision =
  srCommitSHA :: string
  srBranch :: string
  srContentFingerprint :: string
  srDocsFingerprint :: string

record SourceRef =
  rfSourceType :: EvidenceSourceType
  rfSourceID :: string

record Evidence =
  kvID :: string
  kvSectionID :: string
  kvSourceType :: EvidenceSourceType
  kvSourceID :: string
  kvFilePath :: string
  kvLineStart :: int
  kvLineEnd :: int
  kvRationale :: string
  kvMetadata :: "string \<rightharpoonup> string"

record Section =
  seID :: string
  seArtifactID :: string
  seSectionKey :: string
  seTitle :: string
  seContent :: string
  seSummary :: string
  seMetadata :: string
  seConfidence :: string
  seInferred :: bool
  seOrderIndex :: int
  seRefinementStatus :: string
  seEvidence :: "Evidence list"

record Artifact =
  arID :: string
  arRepositoryID :: string
  arType :: ArtifactType
  arAudience :: Audience
  arDepth :: Depth
  arGenerationMode :: GenerationMode
  arScope :: "ArtifactScope option"
  arStatus :: ArtifactStatus
  arProgress :: float64
  arProgressPhase :: string
  arProgressMessage :: string
  arErrorCode :: string
  arErrorMessage :: string
  arSourceRevision :: SourceRevision
  arUnderstandingID :: string
  arUnderstandingRevisionFP :: string
  arRendererVersion :: string
  arStale :: bool
  arStaleReasonJSON :: string
  arStaleReportID :: string
  arGeneratedAt :: time
  arCreatedAt :: time
  arUpdatedAt :: time
  arSections :: "Section list"

section \<open>Repository understanding\<close>

datatype RepositoryUnderstandingStage =
    BuildingTree | FirstPassReady | NeedsRefresh | Deepening | UnderstandingReady
  | UnderstandingFailed | StageOther string

definition AllRepositoryUnderstandingStages :: "RepositoryUnderstandingStage list" where
  "AllRepositoryUnderstandingStages =
     [BuildingTree, FirstPassReady, NeedsRefresh, Deepening, UnderstandingReady, UnderstandingFailed]"

definition IsRunning :: "RepositoryUnderstandingStage \<Rightarrow> bool" where
  "IsRunning s \<longleftrightarrow> s = BuildingTree \<or> s = Deepening"

record RepositoryUnderstanding =
  ruID :: string
  ruRepositoryID :: string
  ruScope :: "ArtifactScope option"
  ruCorpusID :: string
  ruRevisionFP :: string
  ruStrategy :: string
  ruStage :: RepositoryUnderstandingStage
  ruTreeStatus :: string
  ruCachedNodes :: int
  ruTotalNodes :: int
  ruModelUsed :: string
  ruMetadata :: string
  ruErrorCode :: string
  ruErrorMessage :: string
  ruProgress :: float64
  ruProgressPhase :: string
  ruProgressMessage :: string
  ruCreatedAt :: time
  ruUpdatedAt :: time

record RefinementUnit =
  ftID :: string
  ftArtifactID :: string
  ftSectionKey :: string
  ftSectionTitle :: string
  ftRefinementType :: string
  ftStatus :: string
  ftAttemptCount :: int
  ftUnderstandingID :: string
  ftEvidenceRevisionFP :: string
  ftRendererVersion :: string
  ftLastError :: string
  ftMetadata :: string
  ftCreatedAt :: time
  ftUpdatedAt :: time

record ArtifactDependency =
  adID :: string
  adArtifactID :: string
  adDependencyType :: string
  adTargetID :: string
  adTargetRevisionFP :: string
  adMetadata :: string
  adCreatedAt :: time

section \<open>Revisions and section keys\<close>

definition RevisionFingerprint :: "SourceRevision \<Rightarrow> string" where
  "RevisionFingerprint r =
     (if TrimSpace (srCommitSHA r) \<noteq> [] then TrimSpace (srCommitSHA r)
      else if TrimSpace (srContentFingerprint r) \<noteq> [] then TrimSpace (srContentFingerprint r)
      else TrimSpace (srDocsFingerprint r))"

definition RendererVersionForArtifact :: "ArtifactType \<Rightarrow> string" where
  "RendererVersionForArtifact t =
     (if t = ''cliff_notes'' then ''cliff_notes:v2''
      else if t = ''architecture_diagram'' then ''architecture_diagram:v1''
      else if t = ''learning_path'' then ''learning_path:v1''
      else if t = ''code_tour'' then ''code_tour:v1''
      else if t = ''workflow_story'' then ''workflow_story:v1''
      else ''artifact:v1'')"

definition ArtifactRefreshAvailable :: "Artifact option \<Rightarrow> RepositoryUnderstanding option \<Rightarrow> bool" where
  "ArtifactRefreshAvailable a u = (case (a, u) of
      (Some a, Some u) \<Rightarrow>
        if TrimSpace (arRendererVersion a) \<noteq> [] \<and> arRendererVersion a \<noteq> RendererVersionForArtifact (arType a)
        then True
        else if arUnderstandingRevisionFP a = [] \<or> ruRevisionFP u = [] then False
        else arUnderstandingRevisionFP a \<noteq> ruRevisionFP u
    | _ \<Rightarrow> False)"

text \<open>
  The loop that replaces double underscores until there is none; every round makes the text shorter.
\<close>

function collapse_underscores :: "string \<Rightarrow> string" where
  "collapse_underscores key =
     (if Contains key ''__'' then collapse_underscores (ReplaceAll key ''__'' ''_'') else key)"
  by pat_completeness auto
termination by (relation "measure length") (auto intro: length_ReplaceAll_less)

declare collapse_underscores.simps [simp del]

definition underscore_char :: "char \<Rightarrow> char" where
  "underscore_char c = (if c = CHR '' '' \<or> c = CHR ''-'' \<or> c = CHR ''/'' then CHR ''_'' else c)"

definition SectionKeyForTitle :: "string \<Rightarrow> string" where
  "SectionKeyForTitle title =
     (let key = ReplaceAll (TrimSpace (ToLower title)) ''&'' ''and'';
          key' = List.map underscore_char key
      in TrimChar (collapse_underscores key') CHR ''_'')"

section \<open>What the normal forms are good for\<close>

lemma NormalizeGenerationMode_idem [simp]:
  "NormalizeGenerationMode (NormalizeGenerationMode m) = NormalizeGenerationMode m"
proof -
  have "NormalizeGenerationMode GenerationModeClassic = GenerationModeClassic"
    "NormalizeGenerationMode GenerationModeUnderstandingFirst = GenerationModeUnderstandingFirst"
    by code_simp+
  then show ?thesis by (simp add: NormalizeGenerationMode_def split: if_splits)
qed

lemma scope_Normalize_type: "scType (scope_Normalize s) = (if scType s = [] then ScopeRepository else scType s)"
  by (simp add: scope_Normalize_def Let_def split: prod.split)

lemma scope_Normalize_path:
  "scPath (scope_Normalize s) = normalizeScopePath (if scType s = [] then ScopeRepository else scType s) (scPath s)"
  by (simp add: scope_Normalize_def Let_def normalizeScopePath_def split: prod.split)

lemma ScopeRepository_ne [simp]: "ScopeRepository \<noteq> []"
  by (simp add: ScopeRepository_def)

lemma key_ScopeKey_alt: "key_ScopeKey k = ScopeKey (scope_Normalize (akScope k))"
  by (simp add: key_ScopeKey_def Normalized_def Let_def scope_Normalize_type)

lemma Normalized_sel [simp]:
  "akRepositoryID (Normalized k) = akRepositoryID k" "akType (Normalized k) = akType k"
  "akAudience (Normalized k) = ToLower (akAudience k)" "akDepth (Normalized k) = ToLower (akDepth k)"
  "akScope (Normalized k) = scope_Normalize (akScope k)"
  by (simp_all add: Normalized_def Let_def scope_Normalize_type)

text \<open>A path without white space and without an empty component is normalized in one step.\<close>

definition plain_path :: "string \<Rightarrow> bool" where
  "plain_path p \<longleftrightarrow> (\<forall>c\<in>set p. \<not> is_space c) \<and> \<not> Contains p ''//''"

lemma TrimPrefix_slash_stable:
  assumes "\<not> Contains p ''//''"
  shows "TrimPrefix (TrimPrefix p ''/'') ''/'' = TrimPrefix p ''/''"
    and "\<not> HasPrefix (TrimPrefix p ''/'') ''/''"
proof -
  show a: "\<not> HasPrefix (TrimPrefix p ''/'') ''/''"
  proof
    assume "HasPrefix (TrimPrefix p ''/'') ''/''"
    moreover from this have "p = ''/'' @ TrimPrefix p ''/''" using TrimPrefix_cases [of p "''/''"] by auto
    ultimately obtain t where "p = ''//'' @ t" by (auto simp: HasPrefix_iff)
    then have "Contains p ''//''" using Contains_append [of "[]" "''//''" t] by simp
    then show False using assms by simp
  qed
  then show "TrimPrefix (TrimPrefix p ''/'') ''/'' = TrimPrefix p ''/''" by (simp add: TrimPrefix_def)
qed

lemma normalizeScopePath_stable:
  assumes "plain_path p"
  shows "normalizeScopePath t (normalizeScopePath t p) = normalizeScopePath t p"
proof -
  define a where "a = TrimPrefix p ''/''"
  define b where "b = TrimSuffix a ''/''"
  have ns: "\<forall>c\<in>set p. \<not> is_space c" and nd: "\<not> Contains p ''//''" using assms by (auto simp: plain_path_def)
  have a: "p = a \<or> p = ''/'' @ a" using TrimPrefix_cases [of p "''/''"] a_def by auto
  have b: "a = b \<or> a = b @ ''/''" using TrimSuffix_cases [of a "''/''"] b_def by auto
  have na: "\<not> HasPrefix a ''/''" using TrimPrefix_slash_stable [OF nd] by (simp add: a_def)
  have pa: "\<exists>l. p = l @ a" using a by auto
  have "\<not> HasSuffix b ''/''"
  proof
    assume "HasSuffix b ''/''"
    then obtain c where c: "b = c @ ''/''" by (auto simp: HasSuffix_iff)
    from b show False
    proof
      assume "a = b"
      then show False using \<open>HasSuffix b ''/''\<close> b_def TrimSuffix_cases [of a "''/''"] by auto
    next
      assume "a = b @ ''/''"
      with pa c obtain l where "p = (l @ c) @ ''//'' @ []" by auto
      then have "Contains p ''//''" using Contains_append by metis
      with nd show False by simp
    qed
  qed
  then have sb: "TrimSuffix b ''/'' = b" by (simp add: TrimSuffix_def)
  have "\<not> HasPrefix b ''/''" using na b by (cases b) auto
  then have pb: "TrimPrefix b ''/'' = b" by (simp add: TrimPrefix_def)
  have sp: "TrimSpace p = p" using ns by (rule TrimSpace_no_space)
  have "set b \<subseteq> set p" using a b by auto
  then have tb: "TrimSpace b = b" using ns by (intro TrimSpace_no_space) auto
  have np: "normalizeScopePath t p = (if t = ScopeRepository then [] else b)"
    by (simp only: normalizeScopePath_def sp Let_def a_def b_def)
  show ?thesis
  proof (cases "t = ScopeRepository")
    case True
    then show ?thesis by (simp add: normalizeScopePath_def)
  next
    case False
    have "normalizeScopePath t b = b" using False by (simp only: normalizeScopePath_def tb pb sb Let_def if_False)
    then show ?thesis using np False by simp
  qed
qed

lemma scope_Normalize_again:
  assumes "normalizeScopePath (scType (scope_Normalize r)) (scPath (scope_Normalize r)) = scPath (scope_Normalize r)"
  shows "scope_Normalize (scope_Normalize r) = scope_Normalize r"
proof -
  define q where "q = scope_Normalize r"
  define t where "t = scType q"
  have t: "t \<noteq> []" by (simp add: t_def q_def scope_Normalize_type)
  have p: "normalizeScopePath t (scPath q) = scPath q" using assms by (simp add: t_def q_def)
  have "t = ScopeRepository \<Longrightarrow> q\<lparr>scPath := [], scModulePath := [], scFilePath := [], scSymbolName := []\<rparr> = q"
    and "t = ScopeModule \<Longrightarrow> q\<lparr>scModulePath := scPath q, scFilePath := [], scSymbolName := []\<rparr> = q"
    and "t = ScopeFile \<Longrightarrow> q\<lparr>scFilePath := scPath q, scModulePath := modulePathForFile (scPath q), scSymbolName := []\<rparr> = q"
    and "t = ScopeSymbol \<Longrightarrow> (case splitSymbolScopePath (scPath q) of (f, n) \<Rightarrow>
        q\<lparr>scFilePath := f, scSymbolName := n, scModulePath := modulePathForFile f\<rparr>) = q"
    and "t = ScopeRequirement \<Longrightarrow> q\<lparr>scModulePath := [], scFilePath := [], scSymbolName := []\<rparr> = q"
    by (simp_all add: t_def q_def scope_Normalize_def Let_def scope_types split: prod.splits if_splits)
  moreover have out: "q\<lparr>scType := t, scPath := scPath q\<rparr> = q" by (simp add: t_def)
  have "scope_Normalize q =
     (if t = ScopeRepository then q\<lparr>scPath := [], scModulePath := [], scFilePath := [], scSymbolName := []\<rparr>
      else if t = ScopeModule then q\<lparr>scModulePath := scPath q, scFilePath := [], scSymbolName := []\<rparr>
      else if t = ScopeFile
      then q\<lparr>scFilePath := scPath q, scModulePath := modulePathForFile (scPath q), scSymbolName := []\<rparr>
      else if t = ScopeSymbol then (case splitSymbolScopePath (scPath q) of (f, n) \<Rightarrow>
        q\<lparr>scFilePath := f, scSymbolName := n, scModulePath := modulePathForFile f\<rparr>)
      else if t = ScopeRequirement then q\<lparr>scModulePath := [], scFilePath := [], scSymbolName := []\<rparr>
      else q)"
    by (simp only: scope_Normalize_def [of q] Let_def t_def [symmetric] t if_False p out)
  ultimately have "scope_Normalize q = q" by presburger
  then show ?thesis by (simp add: q_def)
qed

lemma scope_Normalize_idem:
  assumes "plain_path (scPath r)"
  shows "scope_Normalize (scope_Normalize r) = scope_Normalize r"
  using normalizeScopePath_stable [OF assms]
  by (intro scope_Normalize_again) (simp add: scope_Normalize_type scope_Normalize_path)

lemma plain_path_Nil [simp]: "plain_path []"
  by (simp add: plain_path_def)

section \<open>Section keys are canonical\<close>

lemma collapse_underscores_done: "\<not> Contains (collapse_underscores s) ''__''"
proof (induction s rule: collapse_underscores.induct)
  case (1 key)
  then show ?case by (cases "Contains key ''__''") (simp_all add: collapse_underscores.simps [of key])
qed

lemma set_ReplaceAll: "set (ReplaceAll s old new) \<subseteq> set s \<union> set new"
proof (induction s old new rule: ReplaceAll.induct)
  case (1 s old new)
  show ?case
  proof (cases s)
    case (Cons c cs)
    show ?thesis
    proof (cases "old \<noteq> [] \<and> HasPrefix s old")
      case True
      then show ?thesis using 1(1) [OF Cons True] set_drop_subset [of "length old" s]
        by (auto simp: Cons ReplaceAll_Cons)
    next
      case False
      then show ?thesis using 1(2) [OF Cons False] by (auto simp: Cons ReplaceAll_Cons)
    qed
  qed simp
qed

lemma set_collapse_underscores: "set (collapse_underscores s) \<subseteq> set s \<union> {CHR ''_''}"
proof (induction s rule: collapse_underscores.induct)
  case (1 key)
  then show ?case using set_ReplaceAll [of key "''__''" "''_''"]
    by (cases "Contains key ''__''") (auto simp: collapse_underscores.simps [of key])
qed

lemma ReplaceAll_char_gone: "c \<notin> set new \<Longrightarrow> c \<notin> set (ReplaceAll s [c] new)"
proof (induction s)
  case (Cons d s)
  then show ?case by (cases "c = d") (auto simp: ReplaceAll_Cons)
qed simp

lemma ToLower_no_upper: "c \<in> set (ToLower s) \<Longrightarrow> lower_char c = c"
  by (auto simp: ToLower_def)

lemma set_TrimSpace: "set (TrimSpace s) \<subseteq> set s"
  unfolding TrimSpace_def by (metis set_dropWhileD set_rev subsetI)

text \<open>
  Whatever the title, the loop of \<^verbatim>\<open>SectionKeyForTitle\<close> ends and the key it returns is
  canonical: it holds no double underscore, neither begins nor ends with one, and has no blank,
  hyphen, slash, ampersand or capital letter.
\<close>

lemma section_key_canonical:
  "\<not> Contains (SectionKeyForTitle title) ''__''
   \<and> (SectionKeyForTitle title = []
      \<or> hd (SectionKeyForTitle title) \<noteq> CHR ''_'' \<and> last (SectionKeyForTitle title) \<noteq> CHR ''_'')
   \<and> set (SectionKeyForTitle title) \<inter> {CHR '' '', CHR ''-'', CHR ''/'', CHR ''&''} = {}
   \<and> ToLower (SectionKeyForTitle title) = SectionKeyForTitle title"
proof -
  define k1 where "k1 = ReplaceAll (TrimSpace (ToLower title)) ''&'' ''and''"
  define k2 where "k2 = List.map underscore_char k1"
  define k3 where "k3 = collapse_underscores k2"
  have k: "SectionKeyForTitle title = TrimChar k3 CHR ''_''"
    by (simp add: SectionKeyForTitle_def k1_def k2_def k3_def)
  obtain a b where ab: "k3 = a @ TrimChar k3 CHR ''_'' @ b" using TrimChar_infix by blast
  have no_dbl: "\<not> Contains (TrimChar k3 CHR ''_'') ''__''"
  proof
    assume "Contains (TrimChar k3 CHR ''_'') ''__''"
    then obtain x y where "TrimChar k3 CHR ''_'' = x @ ''__'' @ y" by (auto simp: Contains_iff)
    with ab have "k3 = (a @ x) @ ''__'' @ (y @ b)" by simp
    then have "Contains k3 ''__''" using Contains_append by metis
    then show False using collapse_underscores_done by (simp add: k3_def)
  qed
  have amp: "CHR ''&'' \<notin> set k1" unfolding k1_def by (rule ReplaceAll_char_gone) simp
  have low1: "lower_char c = c" if "c \<in> set k1" for c
  proof -
    have "set k1 \<subseteq> set (ToLower title) \<union> set ''and''"
      unfolding k1_def using set_ReplaceAll set_TrimSpace by (meson Un_mono order.trans subset_refl)
    moreover have "lower_char c = c" if "c \<in> set ''and''" for c using that by (auto simp: lower_char_def)
    ultimately show ?thesis using \<open>c \<in> set k1\<close> ToLower_no_upper by blast
  qed
  have "lower_char CHR ''_'' = CHR ''_''" by (simp add: lower_char_def)
  then have c2: "c \<notin> {CHR '' '', CHR ''-'', CHR ''/'', CHR ''&''} \<and> lower_char c = c" if "c \<in> set k2" for c
    using that amp low1 by (auto simp: k2_def underscore_char_def)
  have c3: "c \<notin> {CHR '' '', CHR ''-'', CHR ''/'', CHR ''&''} \<and> lower_char c = c" if "c \<in> set k3" for c
  proof -
    from that set_collapse_underscores [of k2] have "c \<in> set k2 \<or> c = CHR ''_''" by (auto simp: k3_def)
    then show ?thesis using c2 \<open>lower_char CHR ''_'' = CHR ''_''\<close> by auto
  qed
  have sub: "set (TrimChar k3 CHR ''_'') \<subseteq> set k3" using ab by (metis Un_iff set_append subsetI)
  then have "ToLower (TrimChar k3 CHR ''_'') = TrimChar k3 CHR ''_''"
    using c3 by (auto simp: ToLower_def intro!: map_idI)
  then show ?thesis unfolding k using no_dbl c3 sub ends_TrimChar [of k3 "CHR ''_''"] by blast
qed

end
