(* ===== verification/Knowledge_Store.thy ===== *)
theory Knowledge_Store
  imports Knowledge_Model
begin

text \<open>
  The in-memory knowledge store, \<^verbatim>\<open>internal/knowledge/memstore.go\<close>: every method of it, each one
  transformation of the store since each runs under its lock.

  \<^item> Six Go maps, one field each. Reading a missing key of a map of slices gives the empty slice
    (\<open>slice_at\<close>). The identifiers of \<^verbatim>\<open>uuid.New\<close> are the next strings of an arbitrary stream.
  \<^item> Loops over a map take the order \<open>ks\<close> of their visit; readings of the clock are arguments.
    \<^verbatim>\<open>sort.Slice\<close> is a stable sort of a list whose order before is arbitrary.
  \<^item> The returned records are values. In the code \<^verbatim>\<open>StoreKnowledgeArtifact\<close> and
    \<^verbatim>\<open>StoreRepositoryUnderstanding\<close> return the very pointer they put into the map; the model covers
    callers that do not write through it.
\<close>

section \<open>State and small reads\<close>

record KnowledgeMem =
  kmArtifacts :: "string \<rightharpoonup> Artifact"
  kmSections :: "string \<rightharpoonup> Section list"
  kmEvidence :: "string \<rightharpoonup> Evidence list"
  kmUnderstandings :: "string \<rightharpoonup> RepositoryUnderstanding"
  kmDependencies :: "string \<rightharpoonup> ArtifactDependency list"
  kmRefinements :: "string \<rightharpoonup> RefinementUnit list"
  kmUUID :: "nat \<Rightarrow> string"
  kmDrawn :: nat

definition NewKnowledgeMem :: "(nat \<Rightarrow> string) \<Rightarrow> KnowledgeMem" where
  "NewKnowledgeMem uuids = \<lparr>kmArtifacts = Map.empty, kmSections = Map.empty, kmEvidence = Map.empty,
     kmUnderstandings = Map.empty, kmDependencies = Map.empty, kmRefinements = Map.empty,
     kmUUID = uuids, kmDrawn = 0\<rparr>"

datatype knowledge_error = ArtifactNotFound string | UnderstandingNotFound string

definition km_NewString :: "KnowledgeMem \<Rightarrow> string \<times> KnowledgeMem" where
  "km_NewString s = (kmUUID s (kmDrawn s), s\<lparr>kmDrawn := Suc (kmDrawn s)\<rparr>)"

text \<open>The identifier a record comes with, or a new one when it has none.\<close>

definition id_or_new :: "string \<Rightarrow> KnowledgeMem \<Rightarrow> string \<times> KnowledgeMem" where
  "id_or_new i s = (if i = [] then km_NewString s else (i, s))"

definition loadSectionsLocked :: "string \<Rightarrow> KnowledgeMem \<Rightarrow> Section list" where
  "loadSectionsLocked artifactID s =
     map (\<lambda>sec. sec\<lparr>seEvidence := slice_at (kmEvidence s) (seID sec)\<rparr>)
       (sort_key seOrderIndex (slice_at (kmSections s) artifactID))"

definition repository_scope :: ArtifactScope where
  "repository_scope = \<lparr>scType = ScopeRepository, scPath = [], scModulePath = [], scFilePath = [], scSymbolName = []\<rparr>"

definition artifactScopeKey :: "ArtifactScope option \<Rightarrow> string" where
  "artifactScopeKey scope = (case scope of
      None \<Rightarrow> ScopeKey repository_scope
    | Some sc \<Rightarrow> ScopeKey sc)"

definition scope_target :: "ArtifactScope option \<Rightarrow> ArtifactScope" where
  "scope_target scope = (case scope of None \<Rightarrow> repository_scope | Some sc \<Rightarrow> scope_Normalize sc)"

definition findUnderstandingLocked ::
  "string list \<Rightarrow> string \<Rightarrow> ArtifactScope option \<Rightarrow> KnowledgeMem \<Rightarrow> RepositoryUnderstanding option" where
  "findUnderstandingLocked ks repoID scope s =
     List.find (\<lambda>u. ruRepositoryID u = repoID \<and> ScopeKey (scope_target (ruScope u)) = ScopeKey (scope_target scope))
       (range_vals (kmUnderstandings s) ks)"

section \<open>Artifacts\<close>

definition StoreKnowledgeArtifact :: "time \<Rightarrow> Artifact \<Rightarrow> KnowledgeMem \<Rightarrow> Artifact \<times> KnowledgeMem" where
  "StoreKnowledgeArtifact now artifact s =
     (let (i, s1) = id_or_new (arID artifact) s;
          stored = artifact\<lparr>arID := i, arScope := map_option scope_Normalize (arScope artifact),
                     arCreatedAt := now, arUpdatedAt := now\<rparr>
      in (stored, s1\<lparr>kmArtifacts := (kmArtifacts s1)(i \<mapsto> stored)\<rparr>))"

definition claim_matches :: "ArtifactKey \<Rightarrow> GenerationMode \<Rightarrow> Artifact \<Rightarrow> bool" where
  "claim_matches key mode a \<longleftrightarrow>
     arRepositoryID a = akRepositoryID key \<and> arType a = akType key \<and> arAudience a = akAudience key
     \<and> arDepth a = akDepth key \<and> artifactScopeKey (arScope a) = key_ScopeKey key
     \<and> (mode = [] \<or> NormalizeGenerationMode (arGenerationMode a) = NormalizeGenerationMode mode)"

definition newest_match ::
  "string list \<Rightarrow> ArtifactKey \<Rightarrow> GenerationMode \<Rightarrow> KnowledgeMem \<Rightarrow> Artifact option" where
  "newest_match ks key mode s =
     pick_best (\<lambda>a b. After (arCreatedAt a) (arCreatedAt b)) None
       (filter (claim_matches (Normalized key) mode) (range_vals (kmArtifacts s) ks))"

definition with_sections :: "KnowledgeMem \<Rightarrow> Artifact \<Rightarrow> Artifact" where
  "with_sections s a = a\<lparr>arSections := loadSectionsLocked (arID a) s\<rparr>"

definition claimed_artifact ::
  "string \<Rightarrow> time \<Rightarrow> ArtifactKey \<Rightarrow> SourceRevision \<Rightarrow> GenerationMode \<Rightarrow> Artifact" where
  "claimed_artifact i now key rv mode =
     \<lparr>arID = i, arRepositoryID = akRepositoryID key, arType = akType key, arAudience = akAudience key,
      arDepth = akDepth key, arGenerationMode = NormalizeGenerationMode mode,
      arScope = Some (scope_Normalize (akScope key)), arStatus = ArtGenerating, arProgress = Fin 0,
      arProgressPhase = [], arProgressMessage = [], arErrorCode = [], arErrorMessage = [],
      arSourceRevision = rv, arUnderstandingID = [], arUnderstandingRevisionFP = [], arRendererVersion = [],
      arStale = False, arStaleReasonJSON = [], arStaleReportID = [], arGeneratedAt = zero_time,
      arCreatedAt = now, arUpdatedAt = now, arSections = []\<rparr>"

definition ClaimArtifactWithMode ::
  "string list \<Rightarrow> time \<Rightarrow> ArtifactKey \<Rightarrow> SourceRevision \<Rightarrow> GenerationMode \<Rightarrow> KnowledgeMem
   \<Rightarrow> (Artifact \<times> bool) \<times> KnowledgeMem" where
  "ClaimArtifactWithMode ks now key rv mode s = (case newest_match ks key mode s of
      Some matched \<Rightarrow> ((with_sections s matched, False), s)
    | None \<Rightarrow>
        (let (i, s1) = km_NewString s; artifact = claimed_artifact i now (Normalized key) rv mode
         in ((artifact, True), s1\<lparr>kmArtifacts := (kmArtifacts s1)(i \<mapsto> artifact)\<rparr>)))"

definition ClaimArtifact ::
  "string list \<Rightarrow> time \<Rightarrow> ArtifactKey \<Rightarrow> SourceRevision \<Rightarrow> KnowledgeMem \<Rightarrow> (Artifact \<times> bool) \<times> KnowledgeMem" where
  "ClaimArtifact ks now key rv s = ClaimArtifactWithMode ks now key rv [] s"

definition GetKnowledgeArtifact :: "string \<Rightarrow> KnowledgeMem \<Rightarrow> Artifact option" where
  "GetKnowledgeArtifact i s =
     map_option (\<lambda>a. a\<lparr>arSections := loadSectionsLocked i s\<rparr>) (kmArtifacts s i)"

definition GetArtifactByKeyAndMode ::
  "string list \<Rightarrow> ArtifactKey \<Rightarrow> GenerationMode \<Rightarrow> KnowledgeMem \<Rightarrow> Artifact option" where
  "GetArtifactByKeyAndMode ks key mode s = map_option (with_sections s) (newest_match ks key mode s)"

definition GetArtifactByKey :: "string list \<Rightarrow> ArtifactKey \<Rightarrow> KnowledgeMem \<Rightarrow> Artifact option" where
  "GetArtifactByKey ks key s = GetArtifactByKeyAndMode ks key [] s"

definition GetKnowledgeArtifacts :: "string list \<Rightarrow> string \<Rightarrow> KnowledgeMem \<Rightarrow> Artifact list" where
  "GetKnowledgeArtifacts ks repoID s =
     map (with_sections s) (filter (\<lambda>a. arRepositoryID a = repoID) (range_vals (kmArtifacts s) ks))"

definition on_artifact ::
  "string \<Rightarrow> (Artifact \<Rightarrow> Artifact) \<Rightarrow> KnowledgeMem \<Rightarrow> knowledge_error option \<times> KnowledgeMem" where
  "on_artifact i f s = (case kmArtifacts s i of
      None \<Rightarrow> (Some (ArtifactNotFound i), s)
    | Some a \<Rightarrow> (None, s\<lparr>kmArtifacts := (kmArtifacts s)(i \<mapsto> f a)\<rparr>))"

definition status_update :: "ArtifactStatus \<Rightarrow> time \<Rightarrow> time \<Rightarrow> Artifact \<Rightarrow> Artifact" where
  "status_update status now1 now2 a =
     (let a1 = a\<lparr>arStatus := status\<rparr>;
          a2 = (if status \<noteq> ArtFailed then a1\<lparr>arErrorCode := [], arErrorMessage := []\<rparr> else a1);
          a3 = a2\<lparr>arUpdatedAt := now1\<rparr>
      in if status = ArtReady then a3\<lparr>arProgress := Fin 1, arGeneratedAt := now2\<rparr> else a3)"

definition UpdateKnowledgeArtifactStatus ::
  "string \<Rightarrow> ArtifactStatus \<Rightarrow> time \<Rightarrow> time \<Rightarrow> KnowledgeMem \<Rightarrow> knowledge_error option \<times> KnowledgeMem" where
  "UpdateKnowledgeArtifactStatus i status now1 now2 s = on_artifact i (status_update status now1 now2) s"

definition SetArtifactFailed ::
  "string \<Rightarrow> string \<Rightarrow> string \<Rightarrow> time \<Rightarrow> KnowledgeMem \<Rightarrow> knowledge_error option \<times> KnowledgeMem" where
  "SetArtifactFailed i code msg now s =
     on_artifact i (\<lambda>a. if arStatus a \<noteq> ArtPending \<and> arStatus a \<noteq> ArtGenerating then a
        else a\<lparr>arStatus := ArtFailed, arErrorCode := code, arErrorMessage := msg, arUpdatedAt := now\<rparr>) s"

definition UpdateKnowledgeArtifactProgressWithPhase ::
  "string \<Rightarrow> float64 \<Rightarrow> string \<Rightarrow> string \<Rightarrow> time \<Rightarrow> KnowledgeMem \<Rightarrow> knowledge_error option \<times> KnowledgeMem" where
  "UpdateKnowledgeArtifactProgressWithPhase i progress phase msg now s =
     on_artifact i (\<lambda>a. if arStatus a = ArtReady \<or> arStatus a = ArtFailed then a
        else a\<lparr>arProgress := progress,
               arProgressPhase := (if phase \<noteq> [] then phase else arProgressPhase a),
               arProgressMessage := (if msg \<noteq> [] then msg else arProgressMessage a), arUpdatedAt := now\<rparr>) s"

definition UpdateKnowledgeArtifactProgress ::
  "string \<Rightarrow> float64 \<Rightarrow> time \<Rightarrow> KnowledgeMem \<Rightarrow> knowledge_error option \<times> KnowledgeMem" where
  "UpdateKnowledgeArtifactProgress i progress now s =
     UpdateKnowledgeArtifactProgressWithPhase i progress [] [] now s"

definition MarkKnowledgeArtifactStale ::
  "string \<Rightarrow> bool \<Rightarrow> time \<Rightarrow> KnowledgeMem \<Rightarrow> knowledge_error option \<times> KnowledgeMem" where
  "MarkKnowledgeArtifactStale i stale now s =
     on_artifact i (\<lambda>a. (if stale then a\<lparr>arStale := True\<rparr>
        else a\<lparr>arStale := False, arStaleReasonJSON := [], arStaleReportID := []\<rparr>)\<lparr>arUpdatedAt := now\<rparr>) s"

definition MarkKnowledgeArtifactStaleWithReason ::
  "string \<Rightarrow> string \<Rightarrow> string \<Rightarrow> time \<Rightarrow> KnowledgeMem \<Rightarrow> knowledge_error option \<times> KnowledgeMem" where
  "MarkKnowledgeArtifactStaleWithReason i reasonJSON reportID now s =
     on_artifact i (\<lambda>a. a\<lparr>arStale := True, arStaleReasonJSON := reasonJSON, arStaleReportID := reportID,
        arUpdatedAt := now\<rparr>) s"

definition AttachArtifactUnderstanding ::
  "string \<Rightarrow> string \<Rightarrow> string \<Rightarrow> time \<Rightarrow> KnowledgeMem \<Rightarrow> knowledge_error option \<times> KnowledgeMem" where
  "AttachArtifactUnderstanding i understandingID revisionFP now s =
     on_artifact i (\<lambda>a. a\<lparr>arUnderstandingID := understandingID, arUnderstandingRevisionFP := revisionFP,
        arUpdatedAt := now\<rparr>) s"

section \<open>Artifacts by what they cite\<close>

definition source_key :: "EvidenceSourceType \<Rightarrow> string \<Rightarrow> string" where
  "source_key t i = t @ [CHR 0x00] @ i"

definition artifact_evidence :: "string \<Rightarrow> KnowledgeMem \<Rightarrow> Evidence list" where
  "artifact_evidence artifactID s =
     concat (map (\<lambda>sec. slice_at (kmEvidence s) (seID sec)) (slice_at (kmSections s) artifactID))"

definition artifactMatchesSourceLocked :: "string \<Rightarrow> string set \<Rightarrow> KnowledgeMem \<Rightarrow> bool" where
  "artifactMatchesSourceLocked artifactID wanted s =
     list_ex (\<lambda>ev. source_key (kvSourceType ev) (kvSourceID ev) \<in> wanted) (artifact_evidence artifactID s)"

definition artifactMatchesFileLocked :: "string \<Rightarrow> string set \<Rightarrow> KnowledgeMem \<Rightarrow> bool" where
  "artifactMatchesFileLocked artifactID wanted s =
     list_ex (\<lambda>ev. kvFilePath ev \<noteq> [] \<and> kvFilePath ev \<in> wanted) (artifact_evidence artifactID s)"

text \<open>The loop that collects matching artifacts of a repository, each id once.\<close>

fun collect_artifacts :: "string \<Rightarrow> (string \<Rightarrow> bool) \<Rightarrow> string list \<Rightarrow> Artifact list \<Rightarrow> KnowledgeMem \<Rightarrow> Artifact list" where
  "collect_artifacts repoID matches seen [] s = []"
| "collect_artifacts repoID matches seen (a # as) s =
     (if arRepositoryID a \<noteq> repoID \<or> arID a \<in> set seen \<or> \<not> matches (arID a)
      then collect_artifacts repoID matches seen as s
      else with_sections s a # collect_artifacts repoID matches (arID a # seen) as s)"

definition GetArtifactsForSources ::
  "string list \<Rightarrow> string \<Rightarrow> SourceRef list \<Rightarrow> KnowledgeMem \<Rightarrow> Artifact list" where
  "GetArtifactsForSources ks repoID sources s =
     (let wanted = set (map (\<lambda>r. source_key (rfSourceType r) (rfSourceID r))
                       (filter (\<lambda>r. rfSourceID r \<noteq> []) sources))
      in if wanted = {} then []
         else collect_artifacts repoID (\<lambda>i. artifactMatchesSourceLocked i wanted s) []
                (range_vals (kmArtifacts s) ks) s)"

definition GetArtifactsForFiles ::
  "string list \<Rightarrow> string \<Rightarrow> string list \<Rightarrow> KnowledgeMem \<Rightarrow> Artifact list" where
  "GetArtifactsForFiles ks repoID filePaths s =
     (let wanted = set (filter (\<lambda>p. p \<noteq> []) filePaths)
      in if wanted = {} then []
         else collect_artifacts repoID (\<lambda>i. artifactMatchesFileLocked i wanted s) []
                (range_vals (kmArtifacts s) ks) s)"

section \<open>Understandings\<close>

definition idle_progress :: "RepositoryUnderstanding \<Rightarrow> RepositoryUnderstanding" where
  "idle_progress u = u\<lparr>ruProgress := Fin 0, ruProgressPhase := [], ruProgressMessage := []\<rparr>"

definition StoreRepositoryUnderstanding ::
  "string list \<Rightarrow> time \<Rightarrow> RepositoryUnderstanding \<Rightarrow> KnowledgeMem
   \<Rightarrow> RepositoryUnderstanding \<times> KnowledgeMem" where
  "StoreRepositoryUnderstanding ks now u s =
     (let (i, s1) = id_or_new (ruID u) s;
          u1 = u\<lparr>ruID := i, ruScope := map_option scope_Normalize (ruScope u)\<rparr>;
          u2 = (case findUnderstandingLocked ks (ruRepositoryID u1) (ruScope u1) s1 of
                  Some existing \<Rightarrow> u1\<lparr>ruID := ruID existing, ruCreatedAt := ruCreatedAt existing\<rparr>
                | None \<Rightarrow> if IsZero (ruCreatedAt u1) then u1\<lparr>ruCreatedAt := now\<rparr> else u1);
          u3 = u2\<lparr>ruUpdatedAt := now\<rparr>;
          stored = (if \<not> IsRunning (ruStage u3) then idle_progress u3 else u3)
      in (stored, s1\<lparr>kmUnderstandings := (kmUnderstandings s1)(ruID stored \<mapsto> stored)\<rparr>))"

definition GetRepositoryUnderstanding ::
  "string list \<Rightarrow> string \<Rightarrow> ArtifactScope \<Rightarrow> KnowledgeMem \<Rightarrow> RepositoryUnderstanding option" where
  "GetRepositoryUnderstanding ks repoID scope s = findUnderstandingLocked ks repoID (Some scope) s"

definition GetRepositoryUnderstandings ::
  "string list \<Rightarrow> string \<Rightarrow> KnowledgeMem \<Rightarrow> RepositoryUnderstanding list" where
  "GetRepositoryUnderstandings ks repoID s =
     sort_key (\<lambda>u. - ruUpdatedAt u)
       (filter (\<lambda>u. ruRepositoryID u = repoID) (range_vals (kmUnderstandings s) ks))"

definition needs_refresh :: "string \<Rightarrow> time \<Rightarrow> RepositoryUnderstanding \<Rightarrow> RepositoryUnderstanding" where
  "needs_refresh repoID now u =
     (if ruRepositoryID u = repoID
         \<and> (ruStage u = UnderstandingReady \<or> ruStage u = FirstPassReady \<or> ruStage u = UnderstandingFailed)
      then (idle_progress u)\<lparr>ruStage := NeedsRefresh, ruErrorCode := [], ruErrorMessage := [], ruUpdatedAt := now\<rparr>
      else u)"

definition MarkRepositoryUnderstandingNeedsRefresh :: "string \<Rightarrow> time \<Rightarrow> KnowledgeMem \<Rightarrow> KnowledgeMem" where
  "MarkRepositoryUnderstandingNeedsRefresh repoID now s =
     s\<lparr>kmUnderstandings := (\<lambda>k. map_option (needs_refresh repoID now) (kmUnderstandings s k))\<rparr>"

definition MarkRepositoryUnderstandingFailed ::
  "string \<Rightarrow> string \<Rightarrow> string \<Rightarrow> time \<Rightarrow> KnowledgeMem \<Rightarrow> KnowledgeMem" where
  "MarkRepositoryUnderstandingFailed i code msg now s = (case kmUnderstandings s i of None \<Rightarrow> s
     | Some u \<Rightarrow> if \<not> IsRunning (ruStage u) then s
         else s\<lparr>kmUnderstandings := (kmUnderstandings s)(i \<mapsto> (idle_progress u)\<lparr>ruStage := UnderstandingFailed,
                  ruErrorCode := code, ruErrorMessage := msg, ruUpdatedAt := now\<rparr>)\<rparr>)"

definition UpdateRepositoryUnderstandingProgress ::
  "string \<Rightarrow> float64 \<Rightarrow> string \<Rightarrow> string \<Rightarrow> time \<Rightarrow> KnowledgeMem \<Rightarrow> knowledge_error option \<times> KnowledgeMem" where
  "UpdateRepositoryUnderstandingProgress i progress phase msg now s = (case kmUnderstandings s i of
      None \<Rightarrow> (Some (UnderstandingNotFound i), s)
    | Some u \<Rightarrow> if \<not> IsRunning (ruStage u) then (None, s)
        else (None, s\<lparr>kmUnderstandings := (kmUnderstandings s)(i \<mapsto> u\<lparr>ruProgress := progress,
                ruProgressPhase := (if phase \<noteq> [] then phase else ruProgressPhase u),
                ruProgressMessage := (if msg \<noteq> [] then msg else ruProgressMessage u),
                ruUpdatedAt := now\<rparr>)\<rparr>))"

section \<open>Sections and evidence\<close>

definition drop_evidence :: "string \<Rightarrow> KnowledgeMem \<Rightarrow> KnowledgeMem" where
  "drop_evidence artifactID s =
     fold (\<lambda>sec v. v\<lparr>kmEvidence := (kmEvidence v)(seID sec := None)\<rparr>) (slice_at (kmSections s) artifactID) s"

definition DeleteKnowledgeArtifact :: "string \<Rightarrow> KnowledgeMem \<Rightarrow> knowledge_error option \<times> KnowledgeMem" where
  "DeleteKnowledgeArtifact i s = (case kmArtifacts s i of
      None \<Rightarrow> (Some (ArtifactNotFound i), s)
    | Some _ \<Rightarrow>
        (let s1 = drop_evidence i s
         in (None, s1\<lparr>kmSections := (kmSections s1)(i := None), kmRefinements := (kmRefinements s1)(i := None),
                      kmArtifacts := (kmArtifacts s1)(i := None)\<rparr>)))"

fun fill_sections :: "string \<Rightarrow> nat \<Rightarrow> Section list \<Rightarrow> KnowledgeMem \<Rightarrow> Section list \<times> KnowledgeMem" where
  "fill_sections artifactID n [] s = ([], s)"
| "fill_sections artifactID n (sec # secs) s =
     (let (i, s1) = id_or_new (seID sec) s;
          sec' = sec\<lparr>seID := i, seArtifactID := artifactID, seOrderIndex := int n,
                   seSectionKey := (if seSectionKey sec = [] then SectionKeyForTitle (seTitle sec) else seSectionKey sec),
                   seRefinementStatus := (if seRefinementStatus sec = [] then ''light'' else seRefinementStatus sec)\<rparr>;
          (rest, s2) = fill_sections artifactID (Suc n) secs s1
      in (sec' # rest, s2))"

fun fill_evidence :: "string \<Rightarrow> Evidence list \<Rightarrow> KnowledgeMem \<Rightarrow> Evidence list \<times> KnowledgeMem" where
  "fill_evidence sectionID [] s = ([], s)"
| "fill_evidence sectionID (ev # evs) s =
     (let (i, s1) = km_NewString s; (rest, s2) = fill_evidence sectionID evs s1
      in (ev\<lparr>kvID := i, kvSectionID := sectionID\<rparr> # rest, s2))"

definition StoreKnowledgeEvidence :: "string \<Rightarrow> Evidence list \<Rightarrow> KnowledgeMem \<Rightarrow> KnowledgeMem" where
  "StoreKnowledgeEvidence sectionID evidence s =
     (let (stored, s1) = fill_evidence sectionID evidence s
      in s1\<lparr>kmEvidence := (kmEvidence s1)(sectionID \<mapsto> stored)\<rparr>)"

definition GetKnowledgeEvidence :: "string \<Rightarrow> KnowledgeMem \<Rightarrow> Evidence list" where
  "GetKnowledgeEvidence sectionID s = slice_at (kmEvidence s) sectionID"

definition StoreKnowledgeSections :: "string \<Rightarrow> Section list \<Rightarrow> KnowledgeMem \<Rightarrow> KnowledgeMem" where
  "StoreKnowledgeSections artifactID sections s =
     (let (stored, s1) = fill_sections artifactID 0 sections (drop_evidence artifactID s)
      in s1\<lparr>kmSections := (kmSections s1)(artifactID \<mapsto> stored)\<rparr>)"

definition GetKnowledgeSections :: "string \<Rightarrow> KnowledgeMem \<Rightarrow> Section list" where
  "GetKnowledgeSections artifactID s = loadSectionsLocked artifactID s"

definition store_own_evidence :: "Section \<Rightarrow> KnowledgeMem \<Rightarrow> KnowledgeMem" where
  "store_own_evidence sec s =
     (if seEvidence sec = [] then s\<lparr>kmEvidence := (kmEvidence s)(seID sec := None)\<rparr>
      else StoreKnowledgeEvidence (seID sec) (seEvidence sec) s)"

definition SupersedeArtifact ::
  "string \<Rightarrow> Section list \<Rightarrow> time \<Rightarrow> KnowledgeMem \<Rightarrow> knowledge_error option \<times> KnowledgeMem" where
  "SupersedeArtifact i sections now s = (case kmArtifacts s i of
      None \<Rightarrow> (Some (ArtifactNotFound i), s)
    | Some a \<Rightarrow>
        (let (stored, s1) = fill_sections i 0 sections (drop_evidence i s);
             s2 = s1\<lparr>kmSections := (kmSections s1)(i \<mapsto> stored)\<rparr>;
             s3 = fold store_own_evidence stored s2
         in on_artifact i (\<lambda>a. a\<lparr>arStatus := ArtReady, arProgress := Fin 1, arGeneratedAt := now,
              arUpdatedAt := now\<rparr>) s3))"

section \<open>Refinement units and dependencies\<close>

definition refinementKey :: "string \<Rightarrow> string \<Rightarrow> string" where
  "refinementKey sectionKey refinementType = sectionKey @ [CHR 0x00] @ refinementType"

definition unit_key :: "RefinementUnit \<Rightarrow> string" where
  "unit_key u = refinementKey (ftSectionKey u) (ftRefinementType u)"

definition unit_index :: "RefinementUnit list \<Rightarrow> string \<rightharpoonup> nat" where
  "unit_index units = fold (\<lambda>(i, u) m. m(unit_key u \<mapsto> i)) (zip [0..<length units] units) Map.empty"

fun merge_units ::
  "string \<Rightarrow> time \<Rightarrow> RefinementUnit list \<Rightarrow> RefinementUnit list \<Rightarrow> (string \<rightharpoonup> nat) \<Rightarrow> KnowledgeMem
   \<Rightarrow> RefinementUnit list \<times> KnowledgeMem" where
  "merge_units artifactID now [] existing index s = (existing, s)"
| "merge_units artifactID now (u # us) existing index s =
     (let (i, s1) = id_or_new (ftID u) s;
          u1 = u\<lparr>ftID := i, ftArtifactID := artifactID,
                 ftCreatedAt := (if IsZero (ftCreatedAt u) then now else ftCreatedAt u),
                 ftUpdatedAt := (if IsZero (ftUpdatedAt u) then now else ftUpdatedAt u)\<rparr>
      in (case index (unit_key u1) of
          Some idx \<Rightarrow>
            (let created = (if IsZero (ftCreatedAt (existing ! idx)) then ftCreatedAt u1
                            else ftCreatedAt (existing ! idx))
             in merge_units artifactID now us (existing[idx := u1\<lparr>ftCreatedAt := created\<rparr>]) index s1)
        | None \<Rightarrow> merge_units artifactID now us (existing @ [u1]) (index(unit_key u1 \<mapsto> length existing)) s1))"

definition StoreRefinementUnits ::
  "string \<Rightarrow> RefinementUnit list \<Rightarrow> time \<Rightarrow> KnowledgeMem \<Rightarrow> knowledge_error option \<times> KnowledgeMem" where
  "StoreRefinementUnits artifactID units now s = (case kmArtifacts s artifactID of
      None \<Rightarrow> (Some (ArtifactNotFound artifactID), s)
    | Some _ \<Rightarrow>
        (let existing = slice_at (kmRefinements s) artifactID;
             (merged, s1) = merge_units artifactID now units existing (unit_index existing) s
         in (None, s1\<lparr>kmRefinements := (kmRefinements s1)(artifactID \<mapsto> merged)\<rparr>)))"

definition GetRefinementUnits :: "string \<Rightarrow> KnowledgeMem \<Rightarrow> RefinementUnit list" where
  "GetRefinementUnits artifactID s = slice_at (kmRefinements s) artifactID"

fun fill_dependencies ::
  "string \<Rightarrow> time \<Rightarrow> ArtifactDependency list \<Rightarrow> KnowledgeMem \<Rightarrow> ArtifactDependency list \<times> KnowledgeMem" where
  "fill_dependencies artifactID now [] s = ([], s)"
| "fill_dependencies artifactID now (d # ds) s =
     (let (i, s1) = id_or_new (adID d) s;
          d1 = d\<lparr>adID := i, adArtifactID := artifactID,
                 adCreatedAt := (if IsZero (adCreatedAt d) then now else adCreatedAt d)\<rparr>;
          (rest, s2) = fill_dependencies artifactID now ds s1
      in (d1 # rest, s2))"

definition StoreArtifactDependencies ::
  "string \<Rightarrow> ArtifactDependency list \<Rightarrow> time \<Rightarrow> KnowledgeMem \<Rightarrow> knowledge_error option \<times> KnowledgeMem" where
  "StoreArtifactDependencies artifactID deps now s = (case kmArtifacts s artifactID of
      None \<Rightarrow> (Some (ArtifactNotFound artifactID), s)
    | Some _ \<Rightarrow>
        (let (stored, s1) = fill_dependencies artifactID now deps s
         in (None, s1\<lparr>kmDependencies := (kmDependencies s1)(artifactID \<mapsto> stored)\<rparr>)))"

definition GetArtifactDependencies :: "string \<Rightarrow> KnowledgeMem \<Rightarrow> ArtifactDependency list" where
  "GetArtifactDependencies artifactID s = slice_at (kmDependencies s) artifactID"

section \<open>What the operations leave alone\<close>

lemma km_NewString_frame [simp]:
  "kmArtifacts (snd (km_NewString s)) = kmArtifacts s" "kmSections (snd (km_NewString s)) = kmSections s"
  "kmEvidence (snd (km_NewString s)) = kmEvidence s" "kmUUID (snd (km_NewString s)) = kmUUID s"
  "kmUnderstandings (snd (km_NewString s)) = kmUnderstandings s"
  "kmDependencies (snd (km_NewString s)) = kmDependencies s"
  "kmRefinements (snd (km_NewString s)) = kmRefinements s"
  by (simp_all add: km_NewString_def)

lemma id_or_new_frame [simp]:
  "kmArtifacts (snd (id_or_new i s)) = kmArtifacts s" "kmSections (snd (id_or_new i s)) = kmSections s"
  "kmEvidence (snd (id_or_new i s)) = kmEvidence s" "kmUUID (snd (id_or_new i s)) = kmUUID s"
  "kmUnderstandings (snd (id_or_new i s)) = kmUnderstandings s"
  "kmDependencies (snd (id_or_new i s)) = kmDependencies s"
  "kmRefinements (snd (id_or_new i s)) = kmRefinements s"
  by (simp_all add: id_or_new_def)

definition same_maps :: "KnowledgeMem \<Rightarrow> KnowledgeMem \<Rightarrow> bool" where
  "same_maps s s' \<longleftrightarrow> kmArtifacts s' = kmArtifacts s \<and> kmSections s' = kmSections s
     \<and> kmEvidence s' = kmEvidence s \<and> kmUUID s' = kmUUID s \<and> kmUnderstandings s' = kmUnderstandings s
     \<and> kmDependencies s' = kmDependencies s \<and> kmRefinements s' = kmRefinements s"

lemma same_maps_fill_sections: "same_maps s (snd (fill_sections i n secs s))"
proof (induction i n secs s rule: fill_sections.induct)
  case (2 i n sec secs s)
  obtain j s1 where j: "id_or_new (seID sec) s = (j, s1)" by fastforce
  then have "same_maps s s1" using id_or_new_frame [of "seID sec" s] by (simp add: same_maps_def)
  moreover have "same_maps s1 (snd (fill_sections i (Suc n) secs s1))" using 2 j by simp
  ultimately show ?case using j by (simp add: same_maps_def Let_def split_beta)
qed (simp add: same_maps_def)

lemma same_maps_fill_evidence: "same_maps s (snd (fill_evidence i evs s))"
proof (induction i evs s rule: fill_evidence.induct)
  case (2 i ev evs s)
  obtain j s1 where j: "km_NewString s = (j, s1)" by fastforce
  then have "same_maps s s1" using km_NewString_frame [of s] by (simp add: same_maps_def)
  moreover have "same_maps s1 (snd (fill_evidence i evs s1))" using 2 j by simp
  ultimately show ?case using j by (simp add: same_maps_def Let_def split_beta)
qed (simp add: same_maps_def)

lemma same_maps_fill_dependencies: "same_maps s (snd (fill_dependencies i now ds s))"
proof (induction i now ds s rule: fill_dependencies.induct)
  case (2 i now d ds s)
  obtain j s1 where j: "id_or_new (adID d) s = (j, s1)" by fastforce
  then have "same_maps s s1" using id_or_new_frame [of "adID d" s] by (simp add: same_maps_def)
  moreover have "same_maps s1 (snd (fill_dependencies i now ds s1))" using 2 j by simp
  ultimately show ?case using j by (simp add: same_maps_def Let_def split_beta)
qed (simp add: same_maps_def)

lemma same_maps_trans: "same_maps s s1 \<Longrightarrow> same_maps s1 s2 \<Longrightarrow> same_maps s s2"
  by (simp add: same_maps_def)

lemma same_maps_merge_units: "same_maps s (snd (merge_units i now us existing index s))"
proof (induction us arbitrary: existing index s)
  case (Cons u us)
  obtain j s1 where j: "id_or_new (ftID u) s = (j, s1)" by fastforce
  then have "same_maps s s1" using id_or_new_frame [of "ftID u" s] by (simp add: same_maps_def)
  then have "same_maps s (snd (merge_units i now us e x s1))" for e x
    using Cons.IH same_maps_trans by blast
  with j show ?case by (simp add: Let_def split: option.split)
qed (simp add: same_maps_def)

lemmas same_maps_fills = same_maps_fill_sections [unfolded same_maps_def]
  same_maps_fill_evidence [unfolded same_maps_def] same_maps_fill_dependencies [unfolded same_maps_def]
  same_maps_merge_units [unfolded same_maps_def]

lemma fills_frame [simp]:
  "kmArtifacts (snd (fill_sections i n secs s)) = kmArtifacts s"
  "kmSections (snd (fill_sections i n secs s)) = kmSections s"
  "kmEvidence (snd (fill_sections i n secs s)) = kmEvidence s"
  "kmUnderstandings (snd (fill_sections i n secs s)) = kmUnderstandings s"
  "kmUUID (snd (fill_sections i n secs s)) = kmUUID s"
  "kmArtifacts (snd (fill_evidence i evs s)) = kmArtifacts s"
  "kmSections (snd (fill_evidence i evs s)) = kmSections s"
  "kmEvidence (snd (fill_evidence i evs s)) = kmEvidence s"
  "kmUnderstandings (snd (fill_evidence i evs s)) = kmUnderstandings s"
  "kmArtifacts (snd (fill_dependencies i now ds s)) = kmArtifacts s"
  "kmUnderstandings (snd (fill_dependencies i now ds s)) = kmUnderstandings s"
  "kmArtifacts (snd (merge_units i now us existing index s)) = kmArtifacts s"
  "kmUnderstandings (snd (merge_units i now us existing index s)) = kmUnderstandings s"
  using same_maps_fills by simp_all

lemma drop_evidence_alt:
  "drop_evidence i s = s\<lparr>kmEvidence := (kmEvidence s) |` (- (seID ` set (slice_at (kmSections s) i)))\<rparr>"
proof -
  have "fold (\<lambda>sec v. v\<lparr>kmEvidence := (kmEvidence v)(seID sec := None)\<rparr>) secs v
      = v\<lparr>kmEvidence := (kmEvidence v) |` (- (seID ` set secs))\<rparr>" for secs v
  proof (induction secs arbitrary: v)
    case (Cons sec secs)
    have "(kmEvidence v)(seID sec := None) |` (- (seID ` set secs))
        = (kmEvidence v) |` (- (seID ` set (sec # secs)))"
      by (auto simp: restrict_map_def)
    then show ?case by (simp only: fold_simps comp_apply Cons.IH) (simp del: list.set fun_upd_apply)
  qed (simp add: restrict_map_def)
  then show ?thesis by (simp add: drop_evidence_def)
qed

lemma drop_evidence_frame [simp]:
  "kmArtifacts (drop_evidence i s) = kmArtifacts s" "kmSections (drop_evidence i s) = kmSections s"
  "kmUnderstandings (drop_evidence i s) = kmUnderstandings s" "kmUUID (drop_evidence i s) = kmUUID s"
  "kmDependencies (drop_evidence i s) = kmDependencies s" "kmRefinements (drop_evidence i s) = kmRefinements s"
  by (simp_all add: drop_evidence_alt)

lemma store_own_evidence_frame [simp]:
  "kmArtifacts (store_own_evidence sec s) = kmArtifacts s"
  "kmSections (store_own_evidence sec s) = kmSections s"
  "kmUnderstandings (store_own_evidence sec s) = kmUnderstandings s"
  using fills_frame(6,7,9) [of "seID sec" "seEvidence sec" s]
  by (simp_all add: store_own_evidence_def StoreKnowledgeEvidence_def Let_def split_beta)

lemma fold_own_evidence_frame [simp]:
  "kmArtifacts (fold store_own_evidence secs s) = kmArtifacts s"
  "kmSections (fold store_own_evidence secs s) = kmSections s"
  "kmUnderstandings (fold store_own_evidence secs s) = kmUnderstandings s"
  by (induction secs arbitrary: s) simp_all

section \<open>Histories\<close>

datatype know_op =
    KStoreArtifact time Artifact
  | KClaim "string list" time ArtifactKey SourceRevision GenerationMode
  | KStatus string ArtifactStatus time time
  | KFailed string string string time
  | KProgress string float64 string string time
  | KStale string bool time
  | KStaleReason string string string time
  | KAttach string string string time
  | KStoreUnderstanding "string list" time RepositoryUnderstanding
  | KNeedsRefresh string time
  | KUFailed string string string time
  | KUProgress string float64 string string time
  | KDelete string
  | KSupersede string "Section list" time
  | KSections string "Section list"
  | KEvidence string "Evidence list"
  | KRefine string "RefinementUnit list" time
  | KDeps string "ArtifactDependency list" time

fun know_step :: "know_op \<Rightarrow> KnowledgeMem \<Rightarrow> KnowledgeMem" where
  "know_step (KStoreArtifact now a) s = snd (StoreKnowledgeArtifact now a s)"
| "know_step (KClaim ks now key rv mode) s = snd (ClaimArtifactWithMode ks now key rv mode s)"
| "know_step (KStatus i st t1 t2) s = snd (UpdateKnowledgeArtifactStatus i st t1 t2 s)"
| "know_step (KFailed i code msg now) s = snd (SetArtifactFailed i code msg now s)"
| "know_step (KProgress i p ph msg now) s = snd (UpdateKnowledgeArtifactProgressWithPhase i p ph msg now s)"
| "know_step (KStale i b now) s = snd (MarkKnowledgeArtifactStale i b now s)"
| "know_step (KStaleReason i j r now) s = snd (MarkKnowledgeArtifactStaleWithReason i j r now s)"
| "know_step (KAttach i u r now) s = snd (AttachArtifactUnderstanding i u r now s)"
| "know_step (KStoreUnderstanding ks now u) s = snd (StoreRepositoryUnderstanding ks now u s)"
| "know_step (KNeedsRefresh r now) s = MarkRepositoryUnderstandingNeedsRefresh r now s"
| "know_step (KUFailed i code msg now) s = MarkRepositoryUnderstandingFailed i code msg now s"
| "know_step (KUProgress i p ph msg now) s = snd (UpdateRepositoryUnderstandingProgress i p ph msg now s)"
| "know_step (KDelete i) s = snd (DeleteKnowledgeArtifact i s)"
| "know_step (KSupersede i secs now) s = snd (SupersedeArtifact i secs now s)"
| "know_step (KSections i secs) s = StoreKnowledgeSections i secs s"
| "know_step (KEvidence i evs) s = StoreKnowledgeEvidence i evs s"
| "know_step (KRefine i us now) s = snd (StoreRefinementUnits i us now s)"
| "know_step (KDeps i ds now) s = snd (StoreArtifactDependencies i ds now s)"

text \<open>Every loop over a map visits the keys the map has at that time.\<close>

fun order_fits :: "know_op \<Rightarrow> KnowledgeMem \<Rightarrow> bool" where
  "order_fits (KClaim ks _ _ _ _) s = enumerates (kmArtifacts s) ks"
| "order_fits (KStoreUnderstanding ks _ _) s = enumerates (kmUnderstandings s) ks"
| "order_fits _ s = True"

fun history_ok :: "know_op list \<Rightarrow> KnowledgeMem \<Rightarrow> bool" where
  "history_ok [] s = True"
| "history_ok (op # ops) s = (order_fits op s \<and> history_ok ops (know_step op s))"

lemma history_invariant:
  assumes "\<And>op s. op \<in> set ops \<Longrightarrow> order_fits op s \<Longrightarrow> I s \<Longrightarrow> I (know_step op s)"
    and "history_ok ops s" and "I s"
  shows "I (fold know_step ops s)"
  using assms by (induction ops arbitrary: s) auto

section \<open>Understandings stay well formed\<close>

definition understanding_key :: "RepositoryUnderstanding \<Rightarrow> string \<times> string" where
  "understanding_key u = (ruRepositoryID u, ScopeKey (scope_target (ruScope u)))"

definition understandings_wf :: "KnowledgeMem \<Rightarrow> bool" where
  "understandings_wf s \<longleftrightarrow>
     (\<forall>k u. kmUnderstandings s k = Some u \<longrightarrow> k = ruID u
        \<and> (\<not> IsRunning (ruStage u) \<longrightarrow>
             ruProgress u = Fin 0 \<and> ruProgressPhase u = [] \<and> ruProgressMessage u = []))
   \<and> (\<forall>k k' u u'. kmUnderstandings s k = Some u \<longrightarrow> kmUnderstandings s k' = Some u' \<longrightarrow>
        understanding_key u = understanding_key u' \<longrightarrow> k = k')"

lemma idle_iff: "idle_progress u = u \<longleftrightarrow>
    ruProgress u = Fin 0 \<and> ruProgressPhase u = [] \<and> ruProgressMessage u = []"
  by (cases u) (auto simp: idle_progress_def)

lemma understandings_wfD:
  assumes "understandings_wf s" and "kmUnderstandings s k = Some u"
  shows "ruID u = k" and "\<not> IsRunning (ruStage u) \<Longrightarrow> idle_progress u = u"
    and "kmUnderstandings s k' = Some u' \<Longrightarrow> understanding_key u' = understanding_key u \<Longrightarrow> k' = k"
  using assms unfolding understandings_wf_def idle_iff by blast+

text \<open>A write to one row that keeps the invariant's part for that row keeps the invariant.\<close>

lemma understandings_wf_upd:
  assumes "understandings_wf s" and "kmUnderstandings s' = (kmUnderstandings s)(k \<mapsto> v)" and "ruID v = k"
    and "\<not> IsRunning (ruStage v) \<Longrightarrow> idle_progress v = v"
    and "\<forall>k' u. kmUnderstandings s k' = Some u \<longrightarrow> understanding_key u = understanding_key v \<longrightarrow> k' = k"
  shows "understandings_wf s'"
proof -
  have idle: "\<not> IsRunning (ruStage v) \<longrightarrow>
      ruProgress v = Fin 0 \<and> ruProgressPhase v = [] \<and> ruProgressMessage v = []"
    using assms(4) by (simp add: idle_iff)
  have look: "kmUnderstandings s' x = (if x = k then Some v else kmUnderstandings s x)" for x
    by (simp add: assms(2))
  have other: "y = k" if "kmUnderstandings s' y = Some w" "understanding_key w = understanding_key v" for y w
  proof (rule ccontr)
    assume "y \<noteq> k"
    then have "kmUnderstandings s y = Some w" using that(1) by (simp add: look)
    with assms(5) that(2) \<open>y \<noteq> k\<close> show False by blast
  qed
  have at_k: "w = v" if "kmUnderstandings s' k = Some w" for w
    using that by (simp add: look)
  have "x = x'" if m: "kmUnderstandings s' x = Some u" "kmUnderstandings s' x' = Some u'"
    and key: "understanding_key u = understanding_key u'" for x x' u u'
  proof (cases "x = k \<or> x' = k")
    case True
    then show ?thesis using other at_k m key by metis
  next
    case False
    then have "kmUnderstandings s x = Some u" "kmUnderstandings s x' = Some u'" using m by (simp_all add: look)
    then show ?thesis using understandings_wfD(3) [OF assms(1)] key by blast
  qed
  moreover have "x = ruID u \<and> (\<not> IsRunning (ruStage u) \<longrightarrow>
      ruProgress u = Fin 0 \<and> ruProgressPhase u = [] \<and> ruProgressMessage u = [])"
    if "kmUnderstandings s' x = Some u" for x u
  proof (cases "x = k")
    case True
    then have "u = v" using that at_k by blast
    then show ?thesis using True idle assms(3) by blast
  next
    case False
    then have "kmUnderstandings s x = Some u" using that by (simp add: look)
    from understandings_wfD(1,2) [OF assms(1) this] show ?thesis unfolding idle_iff by blast
  qed
  ultimately show ?thesis unfolding understandings_wf_def by blast
qed

lemma understandings_wf_row:
  assumes "understandings_wf s" and "kmUnderstandings s i = Some u" and "ruID v = ruID u"
    and "understanding_key v = understanding_key u" and "\<not> IsRunning (ruStage v) \<Longrightarrow> idle_progress v = v"
  shows "understandings_wf (s\<lparr>kmUnderstandings := (kmUnderstandings s)(i \<mapsto> v)\<rparr>)"
proof (rule understandings_wf_upd [OF assms(1) _ _ assms(5)])
  show "ruID v = i" using assms(3) understandings_wfD(1) [OF assms(1,2)] by simp
  show "\<forall>k' w. kmUnderstandings s k' = Some w \<longrightarrow> understanding_key w = understanding_key v \<longrightarrow> k' = i"
    using understandings_wfD(3) [OF assms(1,2)] assms(4) by metis
qed simp_all

lemma idle_progress_sel [simp]:
  "ruID (idle_progress u) = ruID u" "ruStage (idle_progress u) = ruStage u"
  "ruRepositoryID (idle_progress u) = ruRepositoryID u" "ruScope (idle_progress u) = ruScope u"
  "idle_progress (idle_progress u) = idle_progress u"
  "understanding_key (idle_progress u) = understanding_key u"
  by (simp_all add: idle_progress_def understanding_key_def)

lemma findUnderstanding_Some:
  assumes "findUnderstandingLocked ks repo scope s = Some u" and "enumerates (kmUnderstandings s) ks"
  shows "\<exists>k. kmUnderstandings s k = Some u"
    and "understanding_key u = (repo, ScopeKey (scope_target scope))"
proof -
  from assms(1) have u: "u \<in> set (range_vals (kmUnderstandings s) ks)"
    "ruRepositoryID u = repo \<and> ScopeKey (scope_target (ruScope u)) = ScopeKey (scope_target scope)"
    unfolding findUnderstandingLocked_def find_Some_iff by (metis nth_mem, blast)
  from u(1) show "\<exists>k. kmUnderstandings s k = Some u" by (auto simp: set_range_vals)
  from u(2) show "understanding_key u = (repo, ScopeKey (scope_target scope))"
    by (simp add: understanding_key_def)
qed

lemma findUnderstanding_None:
  assumes "findUnderstandingLocked ks repo scope s = None" and "enumerates (kmUnderstandings s) ks"
    and "kmUnderstandings s k = Some u"
  shows "understanding_key u \<noteq> (repo, ScopeKey (scope_target scope))"
proof -
  have "u \<in> set (range_vals (kmUnderstandings s) ks)"
    using assms(2,3) by (auto simp: set_range_vals enumerates_def)
  with assms(1) show ?thesis
    unfolding findUnderstandingLocked_def find_None_iff understanding_key_def by auto
qed

lemma StoreRepositoryUnderstanding_effect:
  assumes "understandings_wf s" and "enumerates (kmUnderstandings s) ks"
  obtains v s' where "StoreRepositoryUnderstanding ks now u s = (v, s')"
    and "kmUnderstandings s' = (kmUnderstandings s)(ruID v \<mapsto> v)"
    and "understanding_key v = (ruRepositoryID u, ScopeKey (scope_target (map_option scope_Normalize (ruScope u))))"
    and "\<not> IsRunning (ruStage v) \<longrightarrow> idle_progress v = v"
    and "\<forall>k' w. kmUnderstandings s k' = Some w \<longrightarrow> understanding_key w = understanding_key v \<longrightarrow> k' = ruID v"
    and "ruStage v = ruStage u" and "ruUpdatedAt v = now" and "ruRevisionFP v = ruRevisionFP u"
    and "kmArtifacts s' = kmArtifacts s"
proof -
  obtain i s1 where i: "id_or_new (ruID u) s = (i, s1)" by fastforce
  have s1: "kmUnderstandings s1 = kmUnderstandings s" "kmArtifacts s1 = kmArtifacts s"
    using id_or_new_frame [of "ruID u" s] i by simp_all
  define u1 where "u1 = u\<lparr>ruID := i, ruScope := map_option scope_Normalize (ruScope u)\<rparr>"
  define found where "found = findUnderstandingLocked ks (ruRepositoryID u1) (ruScope u1) s1"
  have found_s: "found = findUnderstandingLocked ks (ruRepositoryID u1) (ruScope u1) s"
    by (simp add: found_def findUnderstandingLocked_def s1)
  define u2 where "u2 = (case found of
                  Some existing \<Rightarrow> u1\<lparr>ruID := ruID existing, ruCreatedAt := ruCreatedAt existing\<rparr>
                | None \<Rightarrow> if IsZero (ruCreatedAt u1) then u1\<lparr>ruCreatedAt := now\<rparr> else u1)"
  define u3 where "u3 = u2\<lparr>ruUpdatedAt := now\<rparr>"
  define v where "v = (if \<not> IsRunning (ruStage u3) then idle_progress u3 else u3)"
  have run: "StoreRepositoryUnderstanding ks now u s
      = (v, s1\<lparr>kmUnderstandings := (kmUnderstandings s1)(ruID v \<mapsto> v)\<rparr>)"
    by (simp only: StoreRepositoryUnderstanding_def i Let_def prod.case u1_def [symmetric] found_def [symmetric]
        u2_def [symmetric] u3_def [symmetric] v_def [symmetric])
  have sel: "ruRepositoryID v = ruRepositoryID u1" "ruScope v = ruScope u1" "ruStage v = ruStage u"
    "ruID v = (case found of Some e \<Rightarrow> ruID e | None \<Rightarrow> i)" "ruUpdatedAt v = now" "ruRevisionFP v = ruRevisionFP u"
    by (auto simp: v_def u3_def u2_def u1_def idle_progress_def split: option.split)
  have key: "understanding_key v = (ruRepositoryID u1, ScopeKey (scope_target (ruScope u1)))"
    by (simp add: understanding_key_def sel)
  have "k' = ruID v" if "kmUnderstandings s k' = Some w" "understanding_key w = understanding_key v" for k' w
  proof (cases found)
    case None
    from findUnderstanding_None [OF None [unfolded found_s] assms(2) that(1)] that(2) key show ?thesis by simp
  next
    case (Some e)
    from findUnderstanding_Some [OF Some [unfolded found_s] assms(2)] obtain k where
      "kmUnderstandings s k = Some e" "understanding_key e = understanding_key v" using key by auto
    with understandings_wfD [OF assms(1)] that sel(4) Some show ?thesis by (metis option.simps(5))
  qed
  moreover have "\<not> IsRunning (ruStage v) \<longrightarrow> idle_progress v = v" by (auto simp: v_def)
  ultimately show thesis
    by (intro that [OF run]) (use key sel(3,5,6) s1 in \<open>simp_all add: u1_def\<close>)
qed

lemma understandings_wf_same:
  "kmUnderstandings s' = kmUnderstandings s \<Longrightarrow> understandings_wf s' = understandings_wf s"
  by (simp add: understandings_wf_def)

lemma on_artifact_understandings [simp]:
  "kmUnderstandings (snd (on_artifact i f s)) = kmUnderstandings s"
  by (simp add: on_artifact_def split: option.split)

lemmas artifact_ops = UpdateKnowledgeArtifactStatus_def SetArtifactFailed_def
  UpdateKnowledgeArtifactProgressWithPhase_def MarkKnowledgeArtifactStale_def
  MarkKnowledgeArtifactStaleWithReason_def AttachArtifactUnderstanding_def

lemma understandings_frame:
  assumes "case op of KStoreUnderstanding _ _ _ \<Rightarrow> False | KNeedsRefresh _ _ \<Rightarrow> False
    | KUFailed _ _ _ _ \<Rightarrow> False | KUProgress _ _ _ _ _ \<Rightarrow> False | _ \<Rightarrow> True"
  shows "kmUnderstandings (know_step op s) = kmUnderstandings s"
  using assms
  by (cases op) (auto simp: artifact_ops StoreKnowledgeArtifact_def ClaimArtifactWithMode_def Let_def
      DeleteKnowledgeArtifact_def SupersedeArtifact_def StoreKnowledgeSections_def StoreKnowledgeEvidence_def
      StoreRefinementUnits_def StoreArtifactDependencies_def split_beta split: option.split)

lemma understandings_wf_step [inv_intros]:
  assumes "order_fits op s" and "understandings_wf s"
  shows "understandings_wf (know_step op s)"
proof (cases op)
  case (KStoreUnderstanding ks now u)
  then have "enumerates (kmUnderstandings s) ks" using assms(1) by simp
  then show ?thesis
  proof (rule StoreRepositoryUnderstanding_effect [OF assms(2), where now = now and u = u])
    fix v s'
    assume v: "StoreRepositoryUnderstanding ks now u s = (v, s')"
      "kmUnderstandings s' = (kmUnderstandings s)(ruID v \<mapsto> v)" "\<not> IsRunning (ruStage v) \<longrightarrow> idle_progress v = v"
      "\<forall>k' w. kmUnderstandings s k' = Some w \<longrightarrow> understanding_key w = understanding_key v \<longrightarrow> k' = ruID v"
    from v(3) have "understandings_wf s'" by (intro understandings_wf_upd [OF assms(2) v(2) refl _ v(4)]) blast
    then show ?thesis using KStoreUnderstanding v(1) by simp
  qed
next
  case (KNeedsRefresh repo now)
  have "ruID (needs_refresh repo now u) = ruID u" "understanding_key (needs_refresh repo now u) = understanding_key u"
    "(\<not> IsRunning (ruStage u) \<longrightarrow> idle_progress u = u) \<longrightarrow> \<not> IsRunning (ruStage (needs_refresh repo now u)) \<longrightarrow>
       ruProgress (needs_refresh repo now u) = Fin 0 \<and> ruProgressPhase (needs_refresh repo now u) = []
       \<and> ruProgressMessage (needs_refresh repo now u) = []" for u
    unfolding idle_iff by (auto simp: needs_refresh_def idle_progress_def understanding_key_def)
  note refreshed = this
  have look: "kmUnderstandings (know_step op s) k = map_option (needs_refresh repo now) (kmUnderstandings s k)" for k
    unfolding KNeedsRefresh by (simp add: MarkRepositoryUnderstandingNeedsRefresh_def)
  have "k = k'" if "kmUnderstandings (know_step op s) k = Some u" "kmUnderstandings (know_step op s) k' = Some u'"
    "understanding_key u = understanding_key u'" for k k' u u'
  proof -
    from that(1,2) obtain w w' where w: "kmUnderstandings s k = Some w" "u = needs_refresh repo now w"
      "kmUnderstandings s k' = Some w'" "u' = needs_refresh repo now w'" unfolding look by blast
    then have "understanding_key w = understanding_key w'" using that(3) refreshed(2) by metis
    from understandings_wfD(3) [OF assms(2) w(3) w(1) this] show ?thesis .
  qed
  moreover have "k = ruID u \<and> (\<not> IsRunning (ruStage u) \<longrightarrow>
      ruProgress u = Fin 0 \<and> ruProgressPhase u = [] \<and> ruProgressMessage u = [])"
    if "kmUnderstandings (know_step op s) k = Some u" for k u
  proof -
    from that obtain w where w: "kmUnderstandings s k = Some w" "u = needs_refresh repo now w"
      unfolding look by blast
    then show ?thesis using understandings_wfD(1,2) [OF assms(2) w(1)] refreshed(1) [of w] refreshed(3) by metis
  qed
  ultimately show ?thesis unfolding understandings_wf_def by blast
next
  case (KUFailed i code msg now)
  show ?thesis
  proof (cases "kmUnderstandings s i")
    case (Some u)
    have "understandings_wf (s\<lparr>kmUnderstandings := (kmUnderstandings s)(i \<mapsto> (idle_progress u)\<lparr>ruStage := UnderstandingFailed,
                  ruErrorCode := code, ruErrorMessage := msg, ruUpdatedAt := now\<rparr>)\<rparr>)"
      by (rule understandings_wf_row [OF assms(2) Some]) (simp_all add: idle_progress_def understanding_key_def)
    with Some assms(2) KUFailed show ?thesis by (simp add: MarkRepositoryUnderstandingFailed_def)
  qed (use KUFailed assms(2) in \<open>simp add: MarkRepositoryUnderstandingFailed_def\<close>)
next
  case (KUProgress i p ph msg now)
  show ?thesis
  proof (cases "kmUnderstandings s i")
    case (Some u)
    have "understandings_wf (s\<lparr>kmUnderstandings := (kmUnderstandings s)(i \<mapsto> u\<lparr>ruProgress := p,
                ruProgressPhase := (if ph \<noteq> [] then ph else ruProgressPhase u),
                ruProgressMessage := (if msg \<noteq> [] then msg else ruProgressMessage u),
                ruUpdatedAt := now\<rparr>)\<rparr>)" if "IsRunning (ruStage u)"
      using that
      by (intro understandings_wf_row [OF assms(2) Some]) (simp_all add: understanding_key_def)
    with Some assms(2) KUProgress show ?thesis by (simp add: UpdateRepositoryUnderstandingProgress_def)
  qed (use KUProgress assms(2) in \<open>simp add: UpdateRepositoryUnderstandingProgress_def\<close>)
qed (use assms(2) understandings_wf_same [OF understandings_frame [of op s]] in \<open>simp_all del: know_step.simps\<close>)


text \<open>
  C38: In every history of the store the understandings stay well formed: each is filed under its
  id, at most one exists per repository and scope, and one whose stage is not a running one shows
  no progress, phase or message, however late a progress report arrives.
\<close>

lemma understandings_stay_well_formed:
  assumes "history_ok ops (NewKnowledgeMem uuids)"
  shows "understandings_wf (fold know_step ops (NewKnowledgeMem uuids))"
  using _ assms
proof (rule history_invariant)
  show "understandings_wf (NewKnowledgeMem uuids)" by (simp add: understandings_wf_def NewKnowledgeMem_def)
qed (rule understandings_wf_step)

definition demo_understanding :: RepositoryUnderstanding where
  "demo_understanding = \<lparr>ruID = [], ruRepositoryID = ''r'', ruScope = None, ruCorpusID = [], ruRevisionFP = ''f'',
     ruStrategy = [], ruStage = BuildingTree, ruTreeStatus = [], ruCachedNodes = 0, ruTotalNodes = 0,
     ruModelUsed = [], ruMetadata = [], ruErrorCode = [], ruErrorMessage = [], ruProgress = Fin 0,
     ruProgressPhase = [], ruProgressMessage = [], ruCreatedAt = 0, ruUpdatedAt = 0\<rparr>"

lemma understandings_stay_well_formed_witness:
  "understandings_wf (fold know_step
     [KStoreUnderstanding [] 1 demo_understanding, KUProgress ''u'' (Fin 1) ''p'' ''m'' 2, KUFailed ''u'' ''E'' [] 3]
     (NewKnowledgeMem (\<lambda>_. ''u'')))"
  by (rule understandings_stay_well_formed) (simp add: NewKnowledgeMem_def)

end
