(* ===== verification/Knowledge_Claims.thy ===== *)
theory Knowledge_Claims
  imports Knowledge_Store
begin

text \<open>
  Claims on the knowledge store: \<^verbatim>\<open>ClaimArtifactWithMode\<close> deduplicates by key and mode over every
  history, finds again what it created, and late job callbacks cannot touch a finished artifact.
\<close>

section \<open>Claims\<close>

definition claim_key :: "Artifact \<Rightarrow> string \<times> string \<times> string \<times> string \<times> string \<times> string" where
  "claim_key a = (arRepositoryID a, arType a, arAudience a, arDepth a, artifactScopeKey (arScope a),
     NormalizeGenerationMode (arGenerationMode a))"

definition claim_of :: "KnowledgeMem \<Rightarrow> string \<rightharpoonup> string \<times> string \<times> string \<times> string \<times> string \<times> string \<times> string" where
  "claim_of s k = map_option (\<lambda>a. (arID a, claim_key a)) (kmArtifacts s k)"

definition claims_unique :: "KnowledgeMem \<Rightarrow> bool" where
  "claims_unique s \<longleftrightarrow> (\<forall>k a. kmArtifacts s k = Some a \<longrightarrow> k = arID a)
     \<and> (\<forall>k k' a a'. kmArtifacts s k = Some a \<longrightarrow> kmArtifacts s k' = Some a' \<longrightarrow>
          claim_key a = claim_key a' \<longrightarrow> k = k')"

lemma claim_of_Some:
  "claim_of s k = Some (i, c) \<longleftrightarrow> (\<exists>a. kmArtifacts s k = Some a \<and> i = arID a \<and> c = claim_key a)"
  by (auto simp: claim_of_def)

lemma claims_unique_alt:
  "claims_unique s \<longleftrightarrow> (\<forall>k i c. claim_of s k = Some (i, c) \<longrightarrow> k = i)
     \<and> (\<forall>k k' i i' c. claim_of s k = Some (i, c) \<longrightarrow> claim_of s k' = Some (i', c) \<longrightarrow> k = k')"
  unfolding claims_unique_def claim_of_Some by blast

lemma claims_unique_sub:
  assumes "claims_unique s" and "\<And>k. claim_of s' k = claim_of s k \<or> claim_of s' k = None"
  shows "claims_unique s'"
proof -
  have sub: "claim_of s k = Some p" if "claim_of s' k = Some p" for k p
    using assms(2) [of k] that by simp
  show ?thesis using assms(1) sub unfolding claims_unique_alt by blast
qed

lemma claim_of_on_artifact:
  assumes "\<And>a. arID (f a) = arID a \<and> claim_key (f a) = claim_key a"
  shows "claim_of (snd (on_artifact i f s)) = claim_of s"
  using assms by (auto simp: on_artifact_def claim_of_def fun_eq_iff split: option.split)

lemma claim_of_same: "kmArtifacts s' = kmArtifacts s \<Longrightarrow> claim_of s' = claim_of s"
  by (simp add: claim_of_def fun_eq_iff)

definition is_new_artifact :: "know_op \<Rightarrow> bool" where
  "is_new_artifact op \<longleftrightarrow> (case op of KStoreArtifact _ _ \<Rightarrow> True | KClaim _ _ _ _ _ \<Rightarrow> True | _ \<Rightarrow> False)"

lemma claim_of_on_artifact_ops:
  "claim_of (snd (UpdateKnowledgeArtifactStatus i st t1 t2 s)) = claim_of s"
  "claim_of (snd (SetArtifactFailed i code msg now s)) = claim_of s"
  "claim_of (snd (UpdateKnowledgeArtifactProgressWithPhase i p ph msg now s)) = claim_of s"
  "claim_of (snd (MarkKnowledgeArtifactStale i stale now s)) = claim_of s"
  "claim_of (snd (MarkKnowledgeArtifactStaleWithReason i j r now s)) = claim_of s"
  "claim_of (snd (AttachArtifactUnderstanding i u fp now s)) = claim_of s"
  unfolding artifact_ops
  by (rule claim_of_on_artifact; simp add: claim_key_def status_update_def Let_def)+

lemma artifacts_frame:
  "kmArtifacts (snd (StoreRepositoryUnderstanding ks now u s)) = kmArtifacts s"
  "kmArtifacts (MarkRepositoryUnderstandingNeedsRefresh r now s) = kmArtifacts s"
  "kmArtifacts (MarkRepositoryUnderstandingFailed i code msg now s) = kmArtifacts s"
  "kmArtifacts (snd (UpdateRepositoryUnderstandingProgress i p ph msg now s)) = kmArtifacts s"
  "kmArtifacts (StoreKnowledgeSections i secs s) = kmArtifacts s"
  "kmArtifacts (StoreKnowledgeEvidence i evs s) = kmArtifacts s"
  "kmArtifacts (snd (StoreRefinementUnits i us now s)) = kmArtifacts s"
  "kmArtifacts (snd (StoreArtifactDependencies i ds now s)) = kmArtifacts s"
  by (simp_all add: StoreRepositoryUnderstanding_def MarkRepositoryUnderstandingNeedsRefresh_def
      MarkRepositoryUnderstandingFailed_def UpdateRepositoryUnderstandingProgress_def
      StoreKnowledgeSections_def StoreKnowledgeEvidence_def StoreRefinementUnits_def
      StoreArtifactDependencies_def Let_def split_beta split: option.split)

lemma SupersedeArtifact_as_write:
  assumes "kmArtifacts s i = Some a"
  obtains s3 where "snd (SupersedeArtifact i secs now s) = snd (on_artifact i (\<lambda>a. a\<lparr>arStatus := ArtReady,
      arProgress := Fin 1, arGeneratedAt := now, arUpdatedAt := now\<rparr>) s3)"
    and "kmArtifacts s3 = kmArtifacts s"
proof -
  let ?p = "fill_sections i 0 secs (drop_evidence i s)"
  let ?s3 = "fold store_own_evidence (fst ?p) ((snd ?p)\<lparr>kmSections := (kmSections (snd ?p))(i \<mapsto> fst ?p)\<rparr>)"
  have "snd (SupersedeArtifact i secs now s) = snd (on_artifact i (\<lambda>a. a\<lparr>arStatus := ArtReady,
      arProgress := Fin 1, arGeneratedAt := now, arUpdatedAt := now\<rparr>) ?s3)"
    using assms by (simp add: SupersedeArtifact_def Let_def split_beta)
  then show thesis by (rule that) simp
qed

lemma claim_of_frame:
  assumes "\<not> is_new_artifact op"
  shows "claim_of (know_step op s) k = claim_of s k \<or> claim_of (know_step op s) k = None \<and> op = KDelete k"
proof (cases op)
  case (KDelete i)
  then show ?thesis
    by (auto simp: DeleteKnowledgeArtifact_def claim_of_def Let_def split: option.split)
next
  case (KSupersede i secs now)
  show ?thesis
  proof (cases "kmArtifacts s i")
    case (Some a)
    then obtain s3 where "snd (SupersedeArtifact i secs now s) = snd (on_artifact i (\<lambda>a. a\<lparr>arStatus := ArtReady,
      arProgress := Fin 1, arGeneratedAt := now, arUpdatedAt := now\<rparr>) s3)"
      and "kmArtifacts s3 = kmArtifacts s"
      by (rule SupersedeArtifact_as_write [where secs = secs and now = now])
    then show ?thesis using claim_of_same [of s3 s] KSupersede by (simp add: claim_of_on_artifact claim_key_def)
  qed (simp add: KSupersede SupersedeArtifact_def)
qed (use assms in \<open>simp_all add: is_new_artifact_def claim_of_on_artifact_ops claim_of_same [OF artifacts_frame(1)]
      claim_of_same [OF artifacts_frame(2)] claim_of_same [OF artifacts_frame(3)] claim_of_same [OF artifacts_frame(4)]
      claim_of_same [OF artifacts_frame(5)] claim_of_same [OF artifacts_frame(6)] claim_of_same [OF artifacts_frame(7)]
      claim_of_same [OF artifacts_frame(8)]\<close>)

lemma claim_of_step:
  "\<not> is_new_artifact op \<Longrightarrow> claim_of (know_step op s) k = claim_of s k \<or> claim_of (know_step op s) k = None"
  using claim_of_frame [of op s k] by argo

text \<open>Whether an artifact answers a claim is read off its key.\<close>

definition answers :: "ArtifactKey \<Rightarrow> GenerationMode \<Rightarrow> string \<times> string \<times> string \<times> string \<times> string \<times> string \<Rightarrow> bool" where
  "answers key mode c \<longleftrightarrow> (case c of (repo, t, aud, dep, scp, m) \<Rightarrow>
     repo = akRepositoryID key \<and> t = akType key \<and> aud = ToLower (akAudience key) \<and> dep = ToLower (akDepth key)
     \<and> scp = key_ScopeKey (Normalized key) \<and> (mode = [] \<or> m = NormalizeGenerationMode mode))"

lemma claim_matches_answers: "claim_matches (Normalized key) mode a \<longleftrightarrow> answers key mode (claim_key a)"
  by (simp add: claim_matches_def answers_def claim_key_def)

lemma answers_claimed:
  "answers key mode (claim_key (claimed_artifact i now (Normalized key) rv mode))"
  by (simp add: answers_def claim_key_def claimed_artifact_def artifactScopeKey_def key_ScopeKey_alt)

lemma newest_match_Some:
  assumes "newest_match ks key mode s = Some a"
  shows "\<exists>k. kmArtifacts s k = Some a" and "answers key mode (claim_key a)"
proof -
  from assms have "a \<in> set (filter (claim_matches (Normalized key) mode) (range_vals (kmArtifacts s) ks))"
    unfolding newest_match_def by (auto dest: pick_best_in)
  then show "\<exists>k. kmArtifacts s k = Some a" and "answers key mode (claim_key a)"
    by (auto simp: set_range_vals claim_matches_answers)
qed

lemma newest_match_None:
  assumes "newest_match ks key mode s = None" and "enumerates (kmArtifacts s) ks" and "kmArtifacts s k = Some a"
  shows "\<not> answers key mode (claim_key a)"
proof -
  have "a \<in> set (range_vals (kmArtifacts s) ks)" using assms(2,3) by (auto simp: set_range_vals enumerates_def)
  then show ?thesis
    using assms(1) by (auto simp: newest_match_def filter_empty_conv claim_matches_answers)
qed

lemma Claim_created:
  assumes "newest_match ks key mode s = None"
  obtains a where "ClaimArtifactWithMode ks now key rv mode s =
      ((a, True), s\<lparr>kmDrawn := Suc (kmDrawn s), kmArtifacts := (kmArtifacts s)(arID a \<mapsto> a)\<rparr>)"
    and "arID a = kmUUID s (kmDrawn s)" and "answers key mode (claim_key a)" and "arStatus a = ArtGenerating"
    and "snd (snd (snd (snd (snd (claim_key a))))) = NormalizeGenerationMode mode"
proof -
  let ?a = "claimed_artifact (kmUUID s (kmDrawn s)) now (Normalized key) rv mode"
  have "arID ?a = kmUUID s (kmDrawn s)" "arStatus ?a = ArtGenerating"
    "snd (snd (snd (snd (snd (claim_key ?a))))) = NormalizeGenerationMode mode"
    by (simp_all add: claimed_artifact_def claim_key_def)
  moreover from this have "ClaimArtifactWithMode ks now key rv mode s =
      ((?a, True), s\<lparr>kmDrawn := Suc (kmDrawn s), kmArtifacts := (kmArtifacts s)(arID ?a \<mapsto> ?a)\<rparr>)"
    using assms by (simp add: ClaimArtifactWithMode_def km_NewString_def Let_def)
  ultimately show thesis using answers_claimed by (intro that)
qed

lemma Claim_artifacts:
  assumes "newest_match ks key mode s = None"
  shows "kmArtifacts (snd (ClaimArtifactWithMode ks now key rv mode s)) = (kmArtifacts s)
      (kmUUID s (kmDrawn s) \<mapsto> claimed_artifact (kmUUID s (kmDrawn s)) now (Normalized key) rv mode)"
    and "fst (ClaimArtifactWithMode ks now key rv mode s)
      = (claimed_artifact (kmUUID s (kmDrawn s)) now (Normalized key) rv mode, True)"
  using assms by (simp_all add: ClaimArtifactWithMode_def km_NewString_def Let_def)

lemma claims_unique_claim:
  assumes "claims_unique s" and "enumerates (kmArtifacts s) ks"
  shows "claims_unique (snd (ClaimArtifactWithMode ks now key rv mode s))"
proof (cases "newest_match ks key mode s")
  case None
  then show ?thesis
  proof (rule Claim_created [where now = now and rv = rv])
    fix a
    assume run: "ClaimArtifactWithMode ks now key rv mode s =
      ((a, True), s\<lparr>kmDrawn := Suc (kmDrawn s), kmArtifacts := (kmArtifacts s)(arID a \<mapsto> a)\<rparr>)"
      and a: "answers key mode (claim_key a)"
    define s' where "s' = snd (ClaimArtifactWithMode ks now key rv mode s)"
    have look: "claim_of s' k = (if k = arID a then Some (arID a, claim_key a) else claim_of s k)" for k
      by (simp add: s'_def run claim_of_def)
    have fresh: "c \<noteq> claim_key a" if "claim_of s k = Some (i, c)" for k i c
    proof -
      from that obtain b where "kmArtifacts s k = Some b" "c = claim_key b" unfolding claim_of_Some by blast
      with newest_match_None [OF None assms(2)] a show ?thesis by metis
    qed
    have "claims_unique s'"
    proof -
      have old: "claim_of s k = Some (i, c)" if "claim_of s' k = Some (i, c)" "k \<noteq> arID a" for k i c
        using that by (simp add: look)
      have new: "i = arID a \<and> c = claim_key a" if "claim_of s' (arID a) = Some (i, c)" for i c
        using that by (simp add: look)
      have "k = i" if "claim_of s' k = Some (i, c)" for k i c
        using that old new assms(1) unfolding claims_unique_alt by metis
      moreover have "k = k'" if "claim_of s' k = Some (i, c)" "claim_of s' k' = Some (i', c)" for k k' i i' c
        using that old new fresh assms(1) unfolding claims_unique_alt by metis
      ultimately show ?thesis unfolding claims_unique_alt by blast
    qed
    then show ?thesis by (simp add: s'_def)
  qed
qed (simp add: ClaimArtifactWithMode_def assms)

text \<open>
  C36: As long as artifacts come into being only by claims, no history of the store makes two
  artifacts for the same repository, type, audience, depth, scope and generation mode, whatever
  the identifiers and in whatever order the claims visit the table.
\<close>

lemma claims_never_duplicate:
  assumes "history_ok ops (NewKnowledgeMem uuids)" and "\<forall>op\<in>set ops. \<not> (\<exists>now a. op = KStoreArtifact now a)"
  shows "claims_unique (fold know_step ops (NewKnowledgeMem uuids))"
  using _ assms(1)
proof (rule history_invariant)
  show "claims_unique (NewKnowledgeMem uuids)" by (simp add: claims_unique_def NewKnowledgeMem_def)
next
  fix op s
  assume op: "op \<in> set ops" "order_fits op s" "claims_unique s"
  show "claims_unique (know_step op s)"
  proof (cases "is_new_artifact op")
    case True
    with assms(2) op(1) obtain ks now key rv mode where "op = KClaim ks now key rv mode"
      by (cases op) (auto simp: is_new_artifact_def)
    moreover from this op(2) have "enumerates (kmArtifacts s) ks" by simp
    ultimately show ?thesis using claims_unique_claim [OF op(3)] by simp
  next
    case False
    then show ?thesis by (intro claims_unique_sub [OF op(3)] claim_of_step)
  qed
qed

definition demo_key :: ArtifactKey where
  "demo_key = \<lparr>akRepositoryID = ''r'', akType = ''cliff_notes'', akAudience = ''Developer'', akDepth = ''medium'',
     akScope = \<lparr>scType = ScopeModule, scPath = ''/a/'', scModulePath = [], scFilePath = [], scSymbolName = []\<rparr>\<rparr>"

definition demo_revision :: SourceRevision where
  "demo_revision = \<lparr>srCommitSHA = [], srBranch = [], srContentFingerprint = [], srDocsFingerprint = []\<rparr>"

lemma claims_never_duplicate_witness:
  "claims_unique (fold know_step
     [KClaim [] 1 demo_key demo_revision ''classic'', KClaim [''u''] 2 demo_key demo_revision [], KDelete ''u'']
     (NewKnowledgeMem (\<lambda>_. ''u'')))"
proof (rule claims_never_duplicate)
  have "newest_match [] demo_key ''classic'' (NewKnowledgeMem (\<lambda>_. ''u'')) = None" by (simp add: newest_match_def)
  from Claim_artifacts(1) [OF this, of 1 demo_revision]
  have "kmArtifacts (know_step (KClaim [] 1 demo_key demo_revision ''classic'') (NewKnowledgeMem (\<lambda>_. ''u'')))
      = [''u'' \<mapsto> claimed_artifact ''u'' 1 (Normalized demo_key) demo_revision ''classic'']"
    by (simp add: NewKnowledgeMem_def)
  then show "history_ok [KClaim [] 1 demo_key demo_revision ''classic'', KClaim [''u''] 2 demo_key demo_revision [], KDelete ''u'']
     (NewKnowledgeMem (\<lambda>_. ''u''))"
    by (simp only: history_ok.simps order_fits.simps) (simp add: NewKnowledgeMem_def enumerates_def)
qed simp

text \<open>
  A claim that creates an artifact is found again: after any operations that neither delete
  it nor create others, the same claim returns the same artifact, says that it did not create
  it, and leaves the store alone.
\<close>

lemma claim_is_found_again:
  assumes "enumerates (kmArtifacts s) ks" and "\<forall>k a. kmArtifacts s k = Some a \<longrightarrow> k = arID a"
    and "fst (ClaimArtifactWithMode ks now key rv mode s) = (a, True)"
    and "\<forall>op\<in>set ops. \<not> is_new_artifact op \<and> op \<noteq> KDelete (arID a)"
    and "s2 = fold know_step ops (snd (ClaimArtifactWithMode ks now key rv mode s))"
    and "enumerates (kmArtifacts s2) ks2"
  shows "\<exists>a2. ClaimArtifactWithMode ks2 now2 key rv2 mode s2 = ((a2, False), s2) \<and> arID a2 = arID a"
proof -
  have none: "newest_match ks key mode s = None"
    using assms(3) by (cases "newest_match ks key mode s") (simp_all add: ClaimArtifactWithMode_def)
  obtain a1 where run: "ClaimArtifactWithMode ks now key rv mode s =
      ((a1, True), s\<lparr>kmDrawn := Suc (kmDrawn s), kmArtifacts := (kmArtifacts s)(arID a1 \<mapsto> a1)\<rparr>)"
    and ans: "answers key mode (claim_key a1)"
    using Claim_created [OF none] by metis
  have a1: "a1 = a" using assms(3) run by simp
  define s1 where "s1 = snd (ClaimArtifactWithMode ks now key rv mode s)"
  have look: "claim_of s1 k = (if k = arID a then Some (arID a, claim_key a) else claim_of s k)" for k
    by (simp add: s1_def run a1 claim_of_def)
  have at1: "claim_of s1 (arID a) = Some (arID a, claim_key a)" by (simp add: look)
  have other1: "i = arID a" if hit: "claim_of s1 k = Some (i, c)" "answers key mode c" for k i c
  proof (cases "k = arID a")
    case False
    then have "claim_of s k = Some (i, c)" using hit(1) by (simp add: look)
    then obtain b where "kmArtifacts s k = Some b" "c = claim_key b" unfolding claim_of_Some by blast
    then show ?thesis using newest_match_None [OF none assms(1)] hit(2) by blast
  qed (use hit(1) in \<open>simp add: look\<close>)
  have "claim_of (fold know_step ops s') (arID a) = claim_of s' (arID a)
      \<and> (\<forall>k. claim_of (fold know_step ops s') k = claim_of s' k \<or> claim_of (fold know_step ops s') k = None)" for s'
    using assms(4)
  proof (induction ops arbitrary: s')
    case (Cons op ops)
    have op: "\<not> is_new_artifact op" "op \<noteq> KDelete (arID a)" using Cons.prems by auto
    then have "claim_of (know_step op s') (arID a) = claim_of s' (arID a)"
      using claim_of_frame [OF op(1), of s' "arID a"] by argo
    moreover have "\<forall>k. claim_of (know_step op s') k = claim_of s' k \<or> claim_of (know_step op s') k = None"
      by (intro allI claim_of_step op(1))
    moreover have "\<forall>op\<in>set ops. \<not> is_new_artifact op \<and> op \<noteq> KDelete (arID a)" using Cons.prems by simp
    ultimately show ?case using Cons.IH [of "know_step op s'"] by (metis fold_simps(2))
  qed simp
  from this [of s1] have at2: "claim_of s2 (arID a) = Some (arID a, claim_key a)"
    and other2: "\<forall>k i c. claim_of s2 k = Some (i, c) \<longrightarrow> answers key mode c \<longrightarrow> i = arID a"
    using at1 other1 unfolding assms(5) s1_def [symmetric] by (simp, metis option.distinct(1))
  obtain w where w: "kmArtifacts s2 (arID a) = Some w" "claim_key w = claim_key a"
    using at2 unfolding claim_of_Some by auto
  have "newest_match ks2 key mode s2 \<noteq> None"
    using newest_match_None [OF _ assms(6) w(1), of key mode] ans w(2) a1 by auto
  then obtain m where m: "newest_match ks2 key mode s2 = Some m" by blast
  from newest_match_Some(1) [OF m] obtain k where "claim_of s2 k = Some (arID m, claim_key m)"
    unfolding claim_of_Some by blast
  with newest_match_Some(2) [OF m] other2 have "arID m = arID a" by blast
  with m show ?thesis by (simp add: ClaimArtifactWithMode_def with_sections_def)
qed

lemma claim_is_found_again_witness:
  "\<exists>a a2 s. fst (ClaimArtifactWithMode [] 1 demo_key demo_revision ''classic'' (NewKnowledgeMem (\<lambda>_. ''u''))) = (a, True)
     \<and> ClaimArtifactWithMode [''u''] 5 demo_key demo_revision ''classic'' s = ((a2, False), s) \<and> arID a2 = arID a"
proof -
  let ?s = "NewKnowledgeMem (\<lambda>_. ''u'')" and ?a = "claimed_artifact ''u'' 1 (Normalized demo_key) demo_revision ''classic''"
  let ?c = "ClaimArtifactWithMode [] 1 demo_key demo_revision ''classic'' ?s"
  let ?s2 = "fold know_step [KFailed ''u'' ''E'' [] 3] (snd ?c)"
  have "newest_match [] demo_key ''classic'' ?s = None" by (simp add: newest_match_def)
  from Claim_artifacts [OF this, of 1 demo_revision]
  have c: "fst ?c = (?a, True)" "kmArtifacts (snd ?c) = [''u'' \<mapsto> ?a]"
    by (simp_all add: NewKnowledgeMem_def)
  have "enumerates (kmArtifacts ?s) []" "\<forall>k a. kmArtifacts ?s k = Some a \<longrightarrow> k = arID a"
    by (simp_all add: NewKnowledgeMem_def)
  moreover have "\<forall>op\<in>set [KFailed ''u'' ''E'' [] 3]. \<not> is_new_artifact op \<and> op \<noteq> KDelete (arID ?a)"
    by (simp add: is_new_artifact_def)
  moreover have "enumerates (kmArtifacts ?s2) [''u'']"
    by (simp add: SetArtifactFailed_def on_artifact_def c(2) enumerates_def)
  ultimately have "\<exists>a2. ClaimArtifactWithMode [''u''] 5 demo_key demo_revision ''classic'' ?s2 = ((a2, False), ?s2)
      \<and> arID a2 = arID ?a"
    using claim_is_found_again [OF _ _ c(1) _ refl] by blast
  with c(1) show ?thesis by blast
qed

section \<open>Late callbacks\<close>

text \<open>
  An artifact that has reached ready or failed is out of reach of the job that made it: any
  number of late failure callbacks and progress reports for it, with whatever content, leaves
  the whole store as it was.
\<close>

lemma finished_artifact_ignores_late_callbacks:
  assumes "kmArtifacts s i = Some a" and "arStatus a = ArtReady \<or> arStatus a = ArtFailed"
    and "\<forall>op\<in>set ops. (\<exists>code msg now. op = KFailed i code msg now)
           \<or> (\<exists>p ph msg now. op = KProgress i p ph msg now)"
  shows "fold know_step ops s = s"
  using assms(3)
proof (induction ops)
  case (Cons op ops)
  have "s\<lparr>kmArtifacts := (kmArtifacts s)(i \<mapsto> a)\<rparr> = s" using assms(1) by (simp add: map_upd_triv)
  then have "know_step op s = s"
    using Cons.prems assms(1,2)
    by (auto simp: SetArtifactFailed_def UpdateKnowledgeArtifactProgressWithPhase_def on_artifact_def)
  with Cons show ?case by simp
qed simp

lemma finished_artifact_ignores_late_callbacks_witness:
  "\<exists>s. kmArtifacts s ''u'' \<noteq> None
     \<and> fold know_step [KFailed ''u'' ''E'' [] 3, KProgress ''u'' (Fin 0) ''p'' ''m'' 4] s = s"
proof -
  let ?a = "(claimed_artifact ''u'' 1 (Normalized demo_key) demo_revision [])\<lparr>arStatus := ArtReady\<rparr>"
  let ?s = "(NewKnowledgeMem (\<lambda>_. ''u''))\<lparr>kmArtifacts := [''u'' \<mapsto> ?a]\<rparr>"
  have "kmArtifacts ?s ''u'' = Some ?a" "arStatus ?a = ArtReady \<or> arStatus ?a = ArtFailed" by simp_all
  moreover have "\<forall>op\<in>set [KFailed ''u'' ''E'' [] 3, KProgress ''u'' (Fin 0) ''p'' ''m'' 4].
      (\<exists>code msg now. op = KFailed ''u'' code msg now) \<or> (\<exists>p ph msg now. op = KProgress ''u'' p ph msg now)"
    by simp
  ultimately have "fold know_step [KFailed ''u'' ''E'' [] 3, KProgress ''u'' (Fin 0) ''p'' ''m'' 4] ?s = ?s"
    by (rule finished_artifact_ignores_late_callbacks)
  then show ?thesis by (intro exI [of _ ?s]) (simp del: fold_simps)
qed

end
