(* ===== verification/Knowledge_Content.thy ===== *)
theory Knowledge_Content
  imports Knowledge_Claims
begin

text \<open>
  What the knowledge store gives back: sections with their evidence after a supersede, what a delete
  leaves behind, refinement units as a table that merges by key, and the lookup of an
  understanding by repository and scope.
\<close>

section \<open>Sections\<close>

lemma fill_sections_nth:
  assumes "\<forall>sec\<in>set secs. seID sec = []" and "j < length secs"
  shows "fst (fill_sections i n secs s) ! j = (secs ! j)\<lparr>seID := kmUUID s (kmDrawn s + j), seArtifactID := i,
      seOrderIndex := int (n + j),
      seSectionKey := (if seSectionKey (secs ! j) = [] then SectionKeyForTitle (seTitle (secs ! j)) else seSectionKey (secs ! j)),
      seRefinementStatus := (if seRefinementStatus (secs ! j) = [] then ''light'' else seRefinementStatus (secs ! j))\<rparr>"
  using assms
proof (induction secs arbitrary: j n s)
  case (Cons sec secs)
  define s1 where "s1 = s\<lparr>kmDrawn := Suc (kmDrawn s)\<rparr>"
  have new: "id_or_new (seID sec) s = (kmUUID s (kmDrawn s), s1)"
    using Cons.prems(1) by (simp add: id_or_new_def km_NewString_def s1_def)
  have run: "fst (fill_sections i n (sec # secs) s) ! j = (if j = 0 then sec\<lparr>seID := kmUUID s (kmDrawn s), seArtifactID := i,
      seOrderIndex := int n,
      seSectionKey := (if seSectionKey sec = [] then SectionKeyForTitle (seTitle sec) else seSectionKey sec),
      seRefinementStatus := (if seRefinementStatus sec = [] then ''light'' else seRefinementStatus sec)\<rparr>
     else fst (fill_sections i (Suc n) secs s1) ! (j - 1))"
    unfolding fill_sections.simps new Let_def split_beta by (cases j) simp_all
  show ?case
  proof (cases j)
    case 0
    then show ?thesis unfolding run by simp
  next
    case (Suc k)
    have d: "kmUUID s1 = kmUUID s" "kmDrawn s1 = Suc (kmDrawn s)" by (simp_all add: s1_def)
    have "k < length secs" "\<forall>sec\<in>set secs. seID sec = []" using Cons.prems Suc by simp_all
    from Cons.IH [OF this(2,1), of "Suc n" s1] show ?thesis unfolding run d by (simp add: Suc)
  qed
qed simp

lemma length_fill_sections [simp]: "length (fst (fill_sections i n secs s)) = length secs"
  by (induction secs arbitrary: n s) (simp_all add: Let_def split_beta)

lemma fill_evidence_view:
  "map (\<lambda>e. e\<lparr>kvID := [], kvSectionID := []\<rparr>) (fst (fill_evidence i evs s))
     = map (\<lambda>e. e\<lparr>kvID := [], kvSectionID := []\<rparr>) evs
   \<and> (\<forall>e\<in>set (fst (fill_evidence i evs s)). kvSectionID e = i)"
  by (induction evs arbitrary: s) (simp_all add: Let_def split_beta)

lemma store_own_evidence_at:
  "kmEvidence (store_own_evidence sec s) k = (if k = seID sec
     then (if seEvidence sec = [] then None else Some (fst (fill_evidence (seID sec) (seEvidence sec) s)))
     else kmEvidence s k)"
  by (simp add: store_own_evidence_def StoreKnowledgeEvidence_def Let_def split_beta)

lemma fold_own_evidence_other:
  "k \<notin> seID ` set secs \<Longrightarrow> kmEvidence (fold store_own_evidence secs s) k = kmEvidence s k"
  by (induction secs arbitrary: s) (simp_all add: store_own_evidence_at)

lemma fold_own_evidence_at:
  assumes "distinct (map seID secs)" and "sec \<in> set secs"
  shows "map (\<lambda>e. e\<lparr>kvID := [], kvSectionID := []\<rparr>) (slice_at (kmEvidence (fold store_own_evidence secs s)) (seID sec))
      = map (\<lambda>e. e\<lparr>kvID := [], kvSectionID := []\<rparr>) (seEvidence sec)
    \<and> (\<forall>e\<in>set (slice_at (kmEvidence (fold store_own_evidence secs s)) (seID sec)). kvSectionID e = seID sec)"
  using assms
proof (induction secs arbitrary: s)
  case (Cons x secs)
  show ?case
  proof (cases "sec = x")
    case True
    then have "seID sec \<notin> seID ` set secs" using Cons.prems(1) by auto
    then have "kmEvidence (fold store_own_evidence (x # secs) s) (seID sec)
        = kmEvidence (store_own_evidence x s) (seID sec)"
      by (simp add: fold_own_evidence_other)
    then show ?thesis using True fill_evidence_view [of "seID sec" "seEvidence sec" s]
      by (simp add: store_own_evidence_at slice_at_def)
  next
    case False
    then show ?thesis using Cons by simp
  qed
qed simp

lemma sort_by_position: "sort_key f xs = xs" if "\<And>j. j < length xs \<Longrightarrow> f (xs ! j) = int j"
proof -
  have "sorted (map f xs)" using that by (simp add: sorted_iff_nth_mono)
  then show ?thesis by (rule sort_key_id_if_sorted)
qed

text \<open>
  Superseding an artifact replaces its sections for good: the artifact is ready, and reading its
  sections gives exactly the new ones, in the given order and numbered by it, filed under the
  artifact, each with its own evidence (under new evidence ids).
\<close>

lemma superseded_sections_are_read_back:
  assumes "kmArtifacts s i = Some a" and "\<forall>sec\<in>set secs. seID sec = []" and "inj (kmUUID s)"
    and "s' = snd (SupersedeArtifact i secs now s)"
  shows "(\<exists>a'. kmArtifacts s' i = Some a' \<and> arStatus a' = ArtReady \<and> arProgress a' = Fin 1)
    \<and> length (GetKnowledgeSections i s') = length secs
    \<and> (\<forall>j<length secs.
         seTitle (GetKnowledgeSections i s' ! j) = seTitle (secs ! j)
         \<and> seContent (GetKnowledgeSections i s' ! j) = seContent (secs ! j)
         \<and> seOrderIndex (GetKnowledgeSections i s' ! j) = int j
         \<and> seArtifactID (GetKnowledgeSections i s' ! j) = i
         \<and> map (\<lambda>e. e\<lparr>kvID := [], kvSectionID := []\<rparr>) (seEvidence (GetKnowledgeSections i s' ! j))
            = map (\<lambda>e. e\<lparr>kvID := [], kvSectionID := []\<rparr>) (seEvidence (secs ! j))
         \<and> (\<forall>e\<in>set (seEvidence (GetKnowledgeSections i s' ! j)).
              kvSectionID e = seID (GetKnowledgeSections i s' ! j)))"
proof -
  let ?p = "fill_sections i 0 secs (drop_evidence i s)"
  define st where "st = fst ?p"
  define s3 where "s3 = fold store_own_evidence st ((snd ?p)\<lparr>kmSections := (kmSections (snd ?p))(i \<mapsto> st)\<rparr>)"
  have s': "s' = s3\<lparr>kmArtifacts := (kmArtifacts s3)(i \<mapsto> a\<lparr>arStatus := ArtReady, arProgress := Fin 1,
      arGeneratedAt := now, arUpdatedAt := now\<rparr>)\<rparr>"
    using assms(1) unfolding assms(4)
    by (simp add: SupersedeArtifact_def Let_def split_beta on_artifact_def s3_def st_def)
  have len: "length st = length secs" by (simp add: st_def)
  have st: "st ! j = (secs ! j)\<lparr>seID := kmUUID s (kmDrawn (drop_evidence i s) + j), seArtifactID := i,
      seOrderIndex := int j,
      seSectionKey := (if seSectionKey (secs ! j) = [] then SectionKeyForTitle (seTitle (secs ! j)) else seSectionKey (secs ! j)),
      seRefinementStatus := (if seRefinementStatus (secs ! j) = [] then ''light'' else seRefinementStatus (secs ! j))\<rparr>"
    if "j < length secs" for j
    using fill_sections_nth [OF assms(2) that, of i 0 "drop_evidence i s"] by (simp add: st_def)
  have "distinct (map seID st)"
    using assms(3) len st by (auto simp: distinct_conv_nth dest: injD)
  note own = fold_own_evidence_at [OF this]
  have "kmSections s' i = Some st" by (simp add: s' s3_def)
  moreover have "sort_key seOrderIndex st = st" using st len by (intro sort_by_position) simp
  ultimately have get: "GetKnowledgeSections i s' = map (\<lambda>sec. sec\<lparr>seEvidence := slice_at (kmEvidence s3) (seID sec)\<rparr>) st"
    by (simp add: GetKnowledgeSections_def loadSectionsLocked_def slice_at_def s')
  have "GetKnowledgeSections i s' ! j = (st ! j)\<lparr>seEvidence := slice_at (kmEvidence s3) (seID (st ! j))\<rparr>"
    and "map (\<lambda>e. e\<lparr>kvID := [], kvSectionID := []\<rparr>) (slice_at (kmEvidence s3) (seID (st ! j)))
            = map (\<lambda>e. e\<lparr>kvID := [], kvSectionID := []\<rparr>) (seEvidence (st ! j))"
    and "\<forall>e\<in>set (slice_at (kmEvidence s3) (seID (st ! j))). kvSectionID e = seID (st ! j)"
    if "j < length secs" for j
    using that len get own [of "st ! j"] by (simp_all add: s3_def)
  then show ?thesis using st len get by (simp add: s')
qed

definition demo_section :: Section where
  "demo_section = \<lparr>seID = [], seArtifactID = [], seSectionKey = [], seTitle = ''T'', seContent = ''C'', seSummary = [],
     seMetadata = [], seConfidence = [], seInferred = False, seOrderIndex = 0, seRefinementStatus = [],
     seEvidence = [\<lparr>kvID = [], kvSectionID = [], kvSourceType = ''file'', kvSourceID = [], kvFilePath = ''p'',
       kvLineStart = 1, kvLineEnd = 2, kvRationale = [], kvMetadata = Map.empty\<rparr>]\<rparr>"

definition demo_store :: KnowledgeMem where
  "demo_store = (NewKnowledgeMem (\<lambda>n. replicate (Suc n) CHR ''u''))
     \<lparr>kmArtifacts := [''u'' \<mapsto> claimed_artifact ''u'' 1 (Normalized demo_key) demo_revision []]\<rparr>"

lemma superseded_sections_are_read_back_witness:
  "seTitle (GetKnowledgeSections ''u'' (snd (SupersedeArtifact ''u'' [demo_section, demo_section] 5 demo_store)) ! 1) = ''T''"
proof -
  have "kmArtifacts demo_store ''u'' = Some (claimed_artifact ''u'' 1 (Normalized demo_key) demo_revision [])"
    "\<forall>sec\<in>set [demo_section, demo_section]. seID sec = []"
    by (simp_all add: demo_store_def demo_section_def)
  moreover have "inj (kmUUID demo_store)"
    by (rule injI) (metis demo_store_def NewKnowledgeMem_def KnowledgeMem.select_convs(7) KnowledgeMem.simps(9)
        KnowledgeMem.update_convs(1) length_replicate nat.inject)
  ultimately have "\<forall>j<length [demo_section, demo_section].
      seTitle (GetKnowledgeSections ''u'' (snd (SupersedeArtifact ''u'' [demo_section, demo_section] 5 demo_store)) ! j)
      = seTitle ([demo_section, demo_section] ! j)"
    using superseded_sections_are_read_back [OF _ _ _ refl] by blast
  then show ?thesis by (auto simp: demo_section_def dest: spec [of _ 1])
qed

text \<open>
  A superseded artifact is ready, but unlike \<^verbatim>\<open>UpdateKnowledgeArtifactStatus\<close> with the ready
  status, \<^verbatim>\<open>SupersedeArtifact\<close> keeps the error code and message of an earlier failure on it.
\<close>

lemma supersede_keeps_the_old_error:
  assumes "kmArtifacts s i = Some a"
  shows "\<exists>a1 a2. kmArtifacts (snd (SupersedeArtifact i secs now s)) i = Some a1
      \<and> arStatus a1 = ArtReady \<and> arErrorCode a1 = arErrorCode a \<and> arErrorMessage a1 = arErrorMessage a
      \<and> kmArtifacts (snd (UpdateKnowledgeArtifactStatus i ArtReady now now s)) i = Some a2
      \<and> arStatus a2 = ArtReady \<and> arErrorCode a2 = [] \<and> arErrorMessage a2 = []"
proof -
  obtain s3 where s3: "snd (SupersedeArtifact i secs now s) = snd (on_artifact i (\<lambda>a. a\<lparr>arStatus := ArtReady,
      arProgress := Fin 1, arGeneratedAt := now, arUpdatedAt := now\<rparr>) s3)" "kmArtifacts s3 = kmArtifacts s"
    using SupersedeArtifact_as_write [OF assms, of secs now] by metis
  then show ?thesis using assms
    by (simp add: UpdateKnowledgeArtifactStatus_def on_artifact_def status_update_def Let_def)
qed

lemma supersede_keeps_the_old_error_witness:
  "\<exists>a. kmArtifacts (snd (SupersedeArtifact ''u'' [] 5 (snd (SetArtifactFailed ''u'' ''E'' ''msg'' 3 demo_store)))) ''u'' = Some a
     \<and> arStatus a = ArtReady \<and> arErrorCode a = ''E''"
proof -
  have "\<exists>a. kmArtifacts (snd (SetArtifactFailed ''u'' ''E'' ''msg'' 3 demo_store)) ''u'' = Some a \<and> arErrorCode a = ''E''"
    by (simp add: SetArtifactFailed_def on_artifact_def demo_store_def claimed_artifact_def)
  then show ?thesis using supersede_keeps_the_old_error by metis
qed

section \<open>Deleting\<close>

text \<open>
  Deleting an artifact forgets the artifact, its sections, their evidence and its refinement
  units, and touches nothing of another artifact except evidence filed under the same section
  ids; but the dependencies recorded for it stay, and are there again for an artifact stored
  later under the same id.
\<close>

lemma delete_forgets_all_but_dependencies:
  assumes "kmArtifacts s i = Some a" and "s' = snd (DeleteKnowledgeArtifact i s)"
  shows "GetKnowledgeArtifact i s' = None \<and> GetKnowledgeSections i s' = [] \<and> GetRefinementUnits i s' = []
    \<and> (\<forall>sec\<in>set (slice_at (kmSections s) i). GetKnowledgeEvidence (seID sec) s' = [])
    \<and> GetArtifactDependencies i s' = GetArtifactDependencies i s
    \<and> (\<forall>k. k \<noteq> i \<longrightarrow> kmArtifacts s' k = kmArtifacts s k \<and> kmSections s' k = kmSections s k
         \<and> GetRefinementUnits k s' = GetRefinementUnits k s
         \<and> GetArtifactDependencies k s' = GetArtifactDependencies k s)
    \<and> (\<forall>k. k \<notin> seID ` set (slice_at (kmSections s) i) \<longrightarrow> GetKnowledgeEvidence k s' = GetKnowledgeEvidence k s)"
proof -
  have s': "s' = s\<lparr>kmEvidence := (kmEvidence s) |` (- (seID ` set (slice_at (kmSections s) i))),
      kmSections := (kmSections s)(i := None), kmRefinements := (kmRefinements s)(i := None),
      kmArtifacts := (kmArtifacts s)(i := None)\<rparr>"
    using assms by (simp add: DeleteKnowledgeArtifact_def Let_def drop_evidence_alt)
  show ?thesis unfolding s'
    by (auto simp: GetKnowledgeArtifact_def GetKnowledgeSections_def loadSectionsLocked_def GetRefinementUnits_def
        GetKnowledgeEvidence_def GetArtifactDependencies_def slice_at_def restrict_map_def)
qed

lemma delete_forgets_all_but_dependencies_witness:
  "GetKnowledgeArtifact ''u'' (snd (DeleteKnowledgeArtifact ''u'' demo_store)) = None"
proof -
  have "kmArtifacts demo_store ''u'' = Some (claimed_artifact ''u'' 1 (Normalized demo_key) demo_revision [])"
    by (simp add: demo_store_def)
  from delete_forgets_all_but_dependencies [OF this refl] show ?thesis by blast
qed

section \<open>Refinement units as a table\<close>

definition unit_body :: "RefinementUnit \<Rightarrow> RefinementUnit" where
  "unit_body u = u\<lparr>ftID := [], ftArtifactID := [], ftCreatedAt := 0, ftUpdatedAt := 0\<rparr>"

definition unit_table :: "RefinementUnit list \<Rightarrow> string \<rightharpoonup> RefinementUnit" where
  "unit_table us = map_of (map (\<lambda>u. (unit_key u, unit_body u)) us)"

definition index_ok :: "RefinementUnit list \<Rightarrow> (string \<rightharpoonup> nat) \<Rightarrow> bool" where
  "index_ok us index \<longleftrightarrow> distinct (map unit_key us)
     \<and> (\<forall>k j. index k = Some j \<longleftrightarrow> j < length us \<and> unit_key (us ! j) = k)"

lemma unit_index_ok:
  assumes "distinct (map unit_key us)"
  shows "index_ok us (unit_index us)"
proof -
  have "fold (\<lambda>(i, u) m. m(unit_key u \<mapsto> i)) (zip [0..<n] (take n us)) Map.empty k = Some j
      \<longleftrightarrow> j < n \<and> unit_key (us ! j) = k" if "n \<le> length us" for n k j
    using that
  proof (induction n)
    case (Suc n)
    have split: "zip [0..<Suc n] (take (Suc n) us) = zip [0..<n] (take n us) @ [(n, us ! n)]"
      using Suc.prems by (simp add: take_Suc_conv_app_nth)
    have "unit_key (us ! n) \<noteq> unit_key (us ! j) \<and> unit_key (us ! j) \<noteq> unit_key (us ! n)" if "j < n" for j
      using assms Suc.prems that by (auto simp: distinct_conv_nth)
    then show ?case using Suc unfolding split by (auto simp: less_Suc_eq)
  qed simp
  from this [of "length us"] show ?thesis using assms by (simp add: index_ok_def unit_index_def)
qed

lemma unit_table_nth:
  assumes "distinct (map unit_key us)" and "j < length us"
  shows "unit_table us (unit_key (us ! j)) = Some (unit_body (us ! j))"
proof -
  have "distinct (map fst (map (\<lambda>u. (unit_key u, unit_body u)) us))" using assms(1) by (simp add: comp_def)
  then show ?thesis unfolding unit_table_def using assms(2) by (intro map_of_is_SomeI) auto
qed

lemma unit_table_eqI:
  assumes "distinct (map unit_key us)" and "\<And>k. k \<notin> unit_key ` set us \<Longrightarrow> t k = None"
    and "\<And>j. j < length us \<Longrightarrow> t (unit_key (us ! j)) = Some (unit_body (us ! j))"
  shows "unit_table us = t"
proof
  fix k
  show "unit_table us k = t k"
  proof (cases "k \<in> unit_key ` set us")
    case True
    then obtain j where "j < length us" "k = unit_key (us ! j)" by (auto simp: in_set_conv_nth)
    then show ?thesis using unit_table_nth [OF assms(1)] assms(3) by simp
  next
    case False
    then have "unit_table us k = None" by (auto simp: unit_table_def map_of_eq_None_iff image_image)
    then show ?thesis using assms(2) [OF False] by simp
  qed
qed

lemma merge_units_table:
  assumes "index_ok existing index"
  shows "distinct (map unit_key (fst (merge_units i now us existing index s)))
    \<and> unit_table (fst (merge_units i now us existing index s))
      = fold (\<lambda>u t. t(unit_key u \<mapsto> unit_body u)) us (unit_table existing)
    \<and> (\<forall>j<length existing. unit_key (fst (merge_units i now us existing index s) ! j) = unit_key (existing ! j)
         \<and> j < length (fst (merge_units i now us existing index s))
         \<and> (\<not> IsZero (ftCreatedAt (existing ! j)) \<longrightarrow>
              ftCreatedAt (fst (merge_units i now us existing index s) ! j) = ftCreatedAt (existing ! j)))"
  using assms
proof (induction us arbitrary: existing index s)
  case Nil
  then show ?case by (simp add: index_ok_def)
next
  case (Cons u us)
  obtain x s1 where x: "id_or_new (ftID u) s = (x, s1)" by fastforce
  define u1 where "u1 = u\<lparr>ftID := x, ftArtifactID := i,
                 ftCreatedAt := (if IsZero (ftCreatedAt u) then now else ftCreatedAt u),
                 ftUpdatedAt := (if IsZero (ftUpdatedAt u) then now else ftUpdatedAt u)\<rparr>"
  have k1: "unit_key u1 = unit_key u" and b1: "unit_body u1 = unit_body u"
    by (simp_all add: u1_def unit_key_def unit_body_def)
  have d: "distinct (map unit_key existing)"
    and ix: "\<And>k j. index k = Some j \<longleftrightarrow> j < length existing \<and> unit_key (existing ! j) = k"
    using Cons.prems by (simp_all add: index_ok_def)
  show ?case
  proof (cases "index (unit_key u)")
    case None
    define ex where "ex = existing @ [u1]"
    define idx where "idx = index(unit_key u \<mapsto> length existing)"
    have step: "merge_units i now (u # us) existing index s = merge_units i now us ex idx s1"
      using None by (simp add: x Let_def u1_def [symmetric] k1 ex_def idx_def)
    have new: "unit_key u \<notin> unit_key ` set existing"
      using None ix by (metis (no_types, lifting) imageE in_set_conv_nth option.distinct(1))
    have ne: "unit_key (existing ! j) \<noteq> unit_key u" if "j < length existing" for j
      using new that by (metis image_eqI nth_mem)
    then have "index_ok ex idx"
      using d new ix k1 unfolding index_ok_def ex_def idx_def by (auto simp: nth_append less_Suc_eq)
    note IH = Cons.IH [OF this, of s1]
    have "unit_table ex = (unit_table existing)(unit_key u \<mapsto> unit_body u)"
      using d new k1 b1 unit_table_nth [OF d] ne
      by (intro unit_table_eqI)
        (auto simp: ex_def nth_append less_Suc_eq unit_table_def map_of_eq_None_iff image_image)
    with IH show ?thesis unfolding step by (simp add: ex_def nth_append)
  next
    case (Some n)
    then have n: "n < length existing" "unit_key (existing ! n) = unit_key u" using ix by simp_all
    define u2 where "u2 = u1\<lparr>ftCreatedAt := (if IsZero (ftCreatedAt (existing ! n)) then ftCreatedAt u1
                            else ftCreatedAt (existing ! n))\<rparr>"
    define ex where "ex = existing[n := u2]"
    have step: "merge_units i now (u # us) existing index s = merge_units i now us ex index s1"
      using Some by (simp add: x Let_def u1_def [symmetric] k1 ex_def u2_def)
    have k2: "unit_key u2 = unit_key u" "unit_body u2 = unit_body u"
      using k1 b1 by (simp_all add: u2_def unit_key_def unit_body_def)
    have uin: "unit_key u \<in> unit_key ` set existing" using n by (metis image_eqI nth_mem)
    have keys: "map unit_key ex = map unit_key existing"
      using n k2 by (simp add: ex_def map_update list_update_same_conv)
    have key_nth: "unit_key (ex ! j) = unit_key (existing ! j)" if "j < length existing" for j
      using keys that by (metis ex_def length_list_update nth_map)
    have "index_ok ex index"
      using d ix key_nth unfolding index_ok_def keys by (auto simp: ex_def)
    note IH = Cons.IH [OF this, of s1]
    have "unit_table ex = (unit_table existing)(unit_key u \<mapsto> unit_body u)"
    proof (rule unit_table_eqI)
      show "distinct (map unit_key ex)" using keys d by simp
    next
      fix k assume "k \<notin> unit_key ` set ex"
      then have "k \<notin> unit_key ` set existing" using keys by (metis image_set)
      then show "((unit_table existing)(unit_key u \<mapsto> unit_body u)) k = None"
        using uin by (auto simp: unit_table_def map_of_eq_None_iff image_image)
    next
      fix j assume "j < length ex"
      then have j: "j < length existing" by (simp add: ex_def)
      have "j = n" if "unit_key (existing ! j) = unit_key u"
        using that n j d by (metis distinct_conv_nth length_map nth_map)
      then show "((unit_table existing)(unit_key u \<mapsto> unit_body u)) (unit_key (ex ! j)) = Some (unit_body (ex ! j))"
        using j n k2 unit_table_nth [OF d j] key_nth [OF j] by (auto simp: ex_def nth_list_update)
    qed
    moreover have "ftCreatedAt (ex ! j) = ftCreatedAt (existing ! j)"
      if "j < length existing" "\<not> IsZero (ftCreatedAt (existing ! j))" for j
      using that n by (cases "j = n") (simp_all add: ex_def u2_def)
    ultimately show ?thesis using IH key_nth unfolding step by (auto simp: ex_def)
  qed
qed

text \<open>
  The refinement units of an artifact behave as one table from section key and refinement type
  to unit: storing units updates the table by them one after the other, so the last one for a
  key wins, there is never a second unit for a key, and a unit keeps the time of its creation.
\<close>

lemma refinement_units_are_a_table:
  assumes "kmArtifacts s i = Some a" and "distinct (map unit_key (GetRefinementUnits i s))"
    and "s' = snd (StoreRefinementUnits i us now s)"
  shows "distinct (map unit_key (GetRefinementUnits i s'))
    \<and> unit_table (GetRefinementUnits i s')
      = fold (\<lambda>u t. t(unit_key u \<mapsto> unit_body u)) us (unit_table (GetRefinementUnits i s))
    \<and> (\<forall>j<length (GetRefinementUnits i s). \<not> IsZero (ftCreatedAt (GetRefinementUnits i s ! j)) \<longrightarrow>
         ftCreatedAt (GetRefinementUnits i s' ! j) = ftCreatedAt (GetRefinementUnits i s ! j))"
proof -
  have "GetRefinementUnits i s' = fst (merge_units i now us (GetRefinementUnits i s) (unit_index (GetRefinementUnits i s)) s)"
    using assms(1) unfolding assms(3)
    by (simp add: StoreRefinementUnits_def GetRefinementUnits_def Let_def split_beta slice_at_def [of "_(_ \<mapsto> _)"])
  with merge_units_table [OF unit_index_ok [OF assms(2)], of i now us s] show ?thesis by simp
qed

lemma refinement_units_are_a_table_witness:
  "\<exists>s u. length (GetRefinementUnits ''u'' s) = 0
     \<and> distinct (map unit_key (GetRefinementUnits ''u'' (snd (StoreRefinementUnits ''u'' [u, u] 5 s))))"
proof -
  let ?u = "\<lparr>ftID = [], ftArtifactID = [], ftSectionKey = ''k'', ftSectionTitle = [], ftRefinementType = ''deep'',
      ftStatus = ''queued'', ftAttemptCount = 0, ftUnderstandingID = [], ftEvidenceRevisionFP = [],
      ftRendererVersion = [], ftLastError = [], ftMetadata = [], ftCreatedAt = 0, ftUpdatedAt = 0\<rparr>"
  have a: "kmArtifacts demo_store ''u'' = Some (claimed_artifact ''u'' 1 (Normalized demo_key) demo_revision [])"
    by (simp add: demo_store_def)
  have e: "GetRefinementUnits ''u'' demo_store = []"
    by (simp add: demo_store_def GetRefinementUnits_def NewKnowledgeMem_def slice_at_def)
  then have "distinct (map unit_key (GetRefinementUnits ''u'' demo_store))" by simp
  from refinement_units_are_a_table [OF a this refl, of "[?u, ?u]" 5, THEN conjunct1] show ?thesis
    by (intro exI [of _ demo_store] exI [of _ ?u] conjI) (simp only: e list.size)
qed

section \<open>Finding an understanding again\<close>

text \<open>
  An understanding that was stored for a repository and a scope is what a lookup with that
  repository and scope returns, provided that the path of the scope has no white space and no
  empty component; the scope is normalized once when it is stored and twice when it is compared.
\<close>

lemma stored_understanding_is_found:
  assumes "understandings_wf s" and "enumerates (kmUnderstandings s) ks" and "ruScope u = Some sc"
    and "plain_path (scPath sc)"
    and "s' = snd (StoreRepositoryUnderstanding ks now u s)" and "enumerates (kmUnderstandings s') ks'"
  shows "GetRepositoryUnderstanding ks' (ruRepositoryID u) sc s'
    = Some (fst (StoreRepositoryUnderstanding ks now u s))"
proof (rule StoreRepositoryUnderstanding_effect [OF assms(1,2), where now = now and u = u])
  fix v s''
  assume run: "StoreRepositoryUnderstanding ks now u s = (v, s'')"
    and upd: "kmUnderstandings s'' = (kmUnderstandings s)(ruID v \<mapsto> v)"
    and key: "understanding_key v = (ruRepositoryID u, ScopeKey (scope_target (map_option scope_Normalize (ruScope u))))"
    and only: "\<forall>k' w. kmUnderstandings s k' = Some w \<longrightarrow> understanding_key w = understanding_key v \<longrightarrow> k' = ruID v"
  have s': "s' = s''" using run assms(5) by simp
  have kv: "understanding_key v = (ruRepositoryID u, ScopeKey (scope_target (Some sc)))"
    using key assms(3) scope_Normalize_idem [OF assms(4)] by (simp add: scope_target_def)
  have at: "kmUnderstandings s' (ruID v) = Some v" by (simp add: s' upd)
  obtain w where w: "findUnderstandingLocked ks' (ruRepositoryID u) (Some sc) s' = Some w"
    using findUnderstanding_None [OF _ assms(6) at] kv by fastforce
  from findUnderstanding_Some [OF w assms(6)] obtain k where k: "kmUnderstandings s' k = Some w"
    "understanding_key w = understanding_key v" using kv by auto
  have "w = v"
  proof (cases "k = ruID v")
    case True
    then show ?thesis using k(1) at by simp
  next
    case False
    then have "kmUnderstandings s k = Some w" using k(1) by (simp add: s' upd)
    then show ?thesis using only k(2) False by blast
  qed
  with w run show ?thesis by (simp add: GetRepositoryUnderstanding_def)
qed

definition demo_scope :: "string \<Rightarrow> ArtifactScope" where
  "demo_scope p = \<lparr>scType = ScopeModule, scPath = p, scModulePath = [], scFilePath = [], scSymbolName = []\<rparr>"

lemma stored_understanding_is_found_witness:
  "\<exists>ks'. GetRepositoryUnderstanding ks' ''r'' (demo_scope ''/a/'')
       (snd (StoreRepositoryUnderstanding [] 1 (demo_understanding\<lparr>ruScope := Some (demo_scope ''/a/'')\<rparr>) (NewKnowledgeMem (\<lambda>_. ''u''))))
     = Some (fst (StoreRepositoryUnderstanding [] 1 (demo_understanding\<lparr>ruScope := Some (demo_scope ''/a/'')\<rparr>) (NewKnowledgeMem (\<lambda>_. ''u''))))"
proof -
  let ?s = "NewKnowledgeMem (\<lambda>_. ''u'')" and ?u = "demo_understanding\<lparr>ruScope := Some (demo_scope ''/a/'')\<rparr>"
  let ?s' = "snd (StoreRepositoryUnderstanding [] 1 ?u ?s)"
  have wf: "understandings_wf ?s" "enumerates (kmUnderstandings ?s) []"
    by (simp_all add: understandings_wf_def NewKnowledgeMem_def)
  have plain: "ruScope ?u = Some (demo_scope ''/a/'')" "plain_path (scPath (demo_scope ''/a/''))"
    by (simp_all add: demo_scope_def plain_path_def is_space_def)
  obtain v s' where "StoreRepositoryUnderstanding [] 1 ?u ?s = (v, s')"
    and "kmUnderstandings s' = (kmUnderstandings ?s)(ruID v \<mapsto> v)"
    by (rule StoreRepositoryUnderstanding_effect [OF wf, where now = 1 and u = ?u])
  then have "enumerates (kmUnderstandings ?s') [ruID v]" by (simp add: enumerates_def NewKnowledgeMem_def)
  from stored_understanding_is_found [OF wf plain refl this] show ?thesis
    by (auto simp: demo_understanding_def)
qed

text \<open>Three slashes before the path are enough to lose an understanding.\<close>

lemma slashes_lose_an_understanding:
  "GetRepositoryUnderstanding [''u''] ''r'' (demo_scope ''///a'')
     (snd (StoreRepositoryUnderstanding [] 1 (demo_understanding\<lparr>ruScope := Some (demo_scope ''///a'')\<rparr>)
       (NewKnowledgeMem (\<lambda>_. ''u'')))) = None"
  by code_simp

end
