(* ===== verification/Graph_Model.thy ===== *)
theory Graph_Model
  imports Go_Strings
begin

text \<open>
  The data of the code graph: what the indexer delivers
  (\<^verbatim>\<open>internal/indexer/types.go\<close>) and what the in-memory graph store keeps
  (\<^verbatim>\<open>internal/graph/store.go\<close>, \<^verbatim>\<open>iface.go\<close>, \<^verbatim>\<open>impact.go\<close>).

  \<^item> Field names carry a prefix for their record. Kinds and relation types are strings with named
    constants, as in the code; other strings are legal values there.
  \<^item> Scores and confidences are \<open>float64\<close> as comparison sees it. A pointer that may be nil is an
    option. Stored records are values: the code stores the pointer it is handed, and the model
    covers callers that do not write through it afterwards.
\<close>

section \<open>What the indexer delivers\<close>

type_synonym SymbolKind = string
type_synonym RelationType = string

abbreviation SymbolFunction :: SymbolKind where "SymbolFunction \<equiv> ''function''"
abbreviation SymbolMethod :: SymbolKind where "SymbolMethod \<equiv> ''method''"
abbreviation SymbolClass :: SymbolKind where "SymbolClass \<equiv> ''class''"
abbreviation SymbolStruct :: SymbolKind where "SymbolStruct \<equiv> ''struct''"
abbreviation SymbolInterface :: SymbolKind where "SymbolInterface \<equiv> ''interface''"
abbreviation SymbolEnum :: SymbolKind where "SymbolEnum \<equiv> ''enum''"
abbreviation SymbolTrait :: SymbolKind where "SymbolTrait \<equiv> ''trait''"

abbreviation RelationCalls :: RelationType where "RelationCalls \<equiv> ''calls''"
abbreviation RelationTests :: RelationType where "RelationTests \<equiv> ''tests''"

record Symbol =
  syID :: string
  syName :: string
  syQualifiedName :: string
  syKind :: SymbolKind
  syLanguage :: string
  syFilePath :: string
  syStartLine :: int
  syEndLine :: int
  syStartCol :: int
  syEndCol :: int
  sySignature :: string
  syDocComment :: string
  syReceiver :: string
  syIsTest :: bool

record Import =
  imPath :: string
  imFilePath :: string
  imLine :: int

record Relation =
  rlSourceID :: string
  rlTargetID :: string
  rlType :: RelationType

record CallSite =
  csCallerID :: string
  csCalleeName :: string
  csFilePath :: string
  csLine :: int

record FileResult =
  frPath :: string
  frLanguage :: string
  frLineCount :: int
  frContentHash :: string
  frSymbols :: "Symbol list"
  frImports :: "Import list"
  frCalls :: "CallSite list"
  frErrors :: "string list"
  frAIScore :: float64
  frAISignals :: "string list"
  frGrailsRole :: string

record Module =
  mdID :: string
  mdName :: string
  mdPath :: string
  mdFileCount :: int

record IndexResult =
  ixRepoName :: string
  ixRepoPath :: string
  ixBranch :: string
  ixFiles :: "FileResult list"
  ixTotalFiles :: int
  ixTotalSymbols :: int
  ixTotalRelations :: int
  ixRelations :: "Relation list"
  ixModules :: "Module list"
  ixErrors :: "string list"

section \<open>What the graph store keeps\<close>

record Repository =
  grID :: string
  grName :: string
  grPath :: string
  grClonePath :: string
  grRemoteURL :: string
  grCommitSHA :: string
  grPreviousCommitSHA :: string
  grBranch :: string
  grGenerationModeDefault :: string
  grStatus :: string
  grFileCount :: int
  grFunctionCount :: int
  grClassCount :: int
  grLastIndexedAt :: time
  grCreatedAt :: time
  grIndexError :: string
  grAuthToken :: string
  grUnderstandingScoreVal :: "float64 option"
  grUnderstandingScoreAt :: "time option"

record RepositoryMeta =
  meClonePath :: string
  meRemoteURL :: string
  meCommitSHA :: string
  meBranch :: string
  meAuthToken :: string
  meGenerationModeDefault :: string

record File =
  gfID :: string
  gfRepoID :: string
  gfPath :: string
  gfLanguage :: string
  gfLineCount :: int
  gfContentHash :: string
  gfAIScore :: float64
  gfAISignals :: "string list"
  gfGrailsRole :: string

record StoredSymbol =
  ssID :: string
  ssRepoID :: string
  ssFileID :: string
  ssName :: string
  ssQualifiedName :: string
  ssKind :: string
  ssLanguage :: string
  ssFilePath :: string
  ssStartLine :: int
  ssEndLine :: int
  ssSignature :: string
  ssDocComment :: string
  ssIsTest :: bool

record StoredModule =
  smID :: string
  smRepoID :: string
  smName :: string
  smPath :: string
  smFileCount :: int

record StoredImport =
  siFileID :: string
  siPath :: string
  siLine :: int

record StoredPackageDependencies =
  pdRepoID :: string
  pdPackage :: string
  pdImports :: "string list"
  pdImportedBy :: "string list"
  pdUpdatedAt :: time

record StoredLink =
  slID :: string
  slRepoID :: string
  slRequirementID :: string
  slSymbolID :: string
  slConfidence :: float64
  slSource :: string
  slLinkType :: string
  slRationale :: string
  slVerified :: bool
  slVerifiedBy :: string
  slRejected :: bool
  slCreatedAt :: time

record StoredRequirement =
  rqID :: string
  rqRepoID :: string
  rqExternalID :: string
  rqTitle :: string
  rqDescription :: string
  rqSource :: string
  rqPriority :: string
  rqTags :: "string list"
  rqAcceptanceCriteria :: "string list"
  rqCreatedAt :: time
  rqUpdatedAt :: time

text \<open>A patch: a nil field is left as it is.\<close>

record RequirementUpdate =
  upExternalID :: "string option"
  upTitle :: "string option"
  upDescription :: "string option"
  upPriority :: "string option"
  upSource :: "string option"
  upTags :: "string list option"
  upAcceptanceCriteria :: "string list option"

record DiscoveredRequirement =
  drID :: string
  drRepoID :: string
  drSource :: string
  drSourceFile :: string
  drSourceLine :: int
  drSourceFiles :: "string list"
  drText :: string
  drRawText :: string
  drGroupKey :: string
  drLanguage :: string
  drKeywords :: "string list"
  drConfidence :: string
  drStatus :: string
  drLLMRefined :: bool
  drPromotedTo :: string
  drDismissedBy :: string
  drDismissedReason :: string
  drCreatedAt :: time
  drDismissedAt :: time
  drPromotedAt :: time

record LLMUsageRecord =
  luID :: string
  luRepoID :: string
  luUserID :: string
  luProvider :: string
  luModel :: string
  luOperation :: string
  luInputTokens :: int
  luOutputTokens :: int
  luCreatedAt :: time

text \<open>The vector of an embedding and the score of a review are stored and handed back unread.\<close>

record EmbeddingRecord =
  emID :: string
  emTargetID :: string
  emTargetType :: string
  emVector :: "float64 list"
  emDimension :: int
  emModel :: string
  emTextHash :: string
  emCreatedAt :: time

record ReviewFinding =
  fdSeverity :: string
  fdCategory :: string
  fdMessage :: string
  fdLine :: int
  fdSuggestion :: string

record ReviewResultRecord =
  rvID :: string
  rvRepoID :: string
  rvTargetID :: string
  rvTemplate :: string
  rvFindings :: "ReviewFinding list"
  rvScore :: "float64 option"
  rvCreatedBy :: string
  rvCreatedAt :: time

record CallEdge =
  ceCallerID :: string
  ceCalleeID :: string

record SearchResult =
  srType :: string
  srName :: string
  srFilePath :: string
  srLine :: int
  srSnippet :: string
  srKind :: string

section \<open>Impact reports\<close>

record ImpactFileDiff =
  idPath :: string
  idOldPath :: string
  idStatus :: string
  idAdditions :: int
  idDeletions :: int

record ImpactSymbolChange =
  icSymbolID :: string
  icName :: string
  icKind :: string
  icFilePath :: string
  icChangeType :: string
  icOldSignature :: string
  icNewSignature :: string

record AffectedLink =
  alLinkID :: string
  alRequirementID :: string
  alSymbolID :: string
  alImpact :: string
  alConfidence :: float64

record AffectedRequirement =
  aqRequirementID :: string
  aqExternalID :: string
  aqTitle :: string
  aqAffectedLinks :: int
  aqTotalLinks :: int

record StaleArtifactReason =
  saArtifactID :: string
  saSymbols :: "string list"
  saFiles :: "string list"
  saBlanket :: bool
  saReportID :: string

record ImpactReport =
  irID :: string
  irRepositoryID :: string
  irOldCommitSHA :: string
  irNewCommitSHA :: string
  irFilesChanged :: "ImpactFileDiff list"
  irSymbolsAdded :: "ImpactSymbolChange list"
  irSymbolsModified :: "ImpactSymbolChange list"
  irSymbolsRemoved :: "ImpactSymbolChange list"
  irAffectedLinks :: "AffectedLink list"
  irAffectedRequirements :: "AffectedRequirement list"
  irStaleArtifacts :: "string list"
  irStaleArtifactReasons :: "StaleArtifactReason list"
  irComputedAt :: time

section \<open>The state of the store\<close>

text \<open>
  The fields of \<^verbatim>\<open>Store\<close>, then the supply of fresh identifiers: \<^verbatim>\<open>uuid.New\<close> hands out the
  strings of an arbitrary stream one after the other.
\<close>

record GraphStore =
  gsRepos :: "string \<rightharpoonup> Repository"
  gsFiles :: "string \<rightharpoonup> File"
  gsSymbols :: "string \<rightharpoonup> StoredSymbol"
  gsModules :: "string \<rightharpoonup> StoredModule"
  gsRequirements :: "string \<rightharpoonup> StoredRequirement"
  gsLinks :: "string \<rightharpoonup> StoredLink"
  gsImports :: "StoredImport list"
  gsCallGraph :: "string \<rightharpoonup> string list"
  gsReverseCallGraph :: "string \<rightharpoonup> string list"
  gsTestedBy :: "string \<rightharpoonup> string list"
  gsRepoFiles :: "string \<rightharpoonup> string list"
  gsRepoSymbols :: "string \<rightharpoonup> string list"
  gsRepoModules :: "string \<rightharpoonup> string list"
  gsRepoRequirements :: "string \<rightharpoonup> string list"
  gsRepoLinks :: "string \<rightharpoonup> string list"
  gsReqLinks :: "string \<rightharpoonup> string list"
  gsSymLinks :: "string \<rightharpoonup> string list"
  gsFileSymbols :: "string \<rightharpoonup> string list"
  gsLLMUsage :: "LLMUsageRecord list"
  gsEmbeddings :: "string \<rightharpoonup> EmbeddingRecord"
  gsReviewResults :: "string \<rightharpoonup> ReviewResultRecord"
  gsImpactReports :: "string \<rightharpoonup> ImpactReport list"
  gsDiscovered :: "string \<rightharpoonup> DiscoveredRequirement"
  gsRepoDiscovered :: "string \<rightharpoonup> string list"
  gsPackageDeps :: "string \<rightharpoonup> StoredPackageDependencies"
  gsUUID :: "nat \<Rightarrow> string"
  gsDrawn :: nat

definition NewGraphStore :: "(nat \<Rightarrow> string) \<Rightarrow> GraphStore" where
  "NewGraphStore uuids = \<lparr>gsRepos = Map.empty, gsFiles = Map.empty, gsSymbols = Map.empty,
     gsModules = Map.empty, gsRequirements = Map.empty, gsLinks = Map.empty, gsImports = [],
     gsCallGraph = Map.empty, gsReverseCallGraph = Map.empty, gsTestedBy = Map.empty,
     gsRepoFiles = Map.empty, gsRepoSymbols = Map.empty, gsRepoModules = Map.empty,
     gsRepoRequirements = Map.empty, gsRepoLinks = Map.empty, gsReqLinks = Map.empty,
     gsSymLinks = Map.empty, gsFileSymbols = Map.empty, gsLLMUsage = [], gsEmbeddings = Map.empty,
     gsReviewResults = Map.empty, gsImpactReports = Map.empty, gsDiscovered = Map.empty,
     gsRepoDiscovered = Map.empty, gsPackageDeps = Map.empty, gsUUID = uuids, gsDrawn = 0\<rparr>"

definition graph_NewString :: "GraphStore \<Rightarrow> string \<times> GraphStore" where
  "graph_NewString s = (gsUUID s (gsDrawn s), s\<lparr>gsDrawn := Suc (gsDrawn s)\<rparr>)"

definition removeFromSlice :: "string list \<Rightarrow> string \<Rightarrow> string list" where
  "removeFromSlice xs val = filter (\<lambda>v. v \<noteq> val) xs"

fun sliceContains :: "string list \<Rightarrow> string \<Rightarrow> bool" where
  "sliceContains [] target = False"
| "sliceContains (s # xs) target = (s = target \<or> sliceContains xs target)"

text \<open>\<^verbatim>\<open>m[k] = removeFromSlice(m[k], x)\<close>: the key is there afterwards, perhaps with a nil slice.\<close>

definition pull_at :: "string \<Rightarrow> string \<Rightarrow> (string \<rightharpoonup> string list) \<Rightarrow> string \<rightharpoonup> string list" where
  "pull_at k x m = m(k \<mapsto> removeFromSlice (slice_at m k) x)"

text \<open>
  \<^verbatim>\<open>if offset >= total { return nil }; all = all[offset:]; if limit > 0 && limit < len(all) { ... }\<close>
  for an offset that is not negative.
\<close>

definition page :: "int \<Rightarrow> int \<Rightarrow> 'a list \<Rightarrow> 'a list" where
  "page limit offset xs =
     (if int (length xs) \<le> offset then []
      else (let rest = drop (nat offset) xs
            in if 0 < limit \<and> limit < int (length rest) then take (nat limit) rest else rest))"

end
