(* ===== verification/Knowledge_Freshness.thy ===== *)
theory Knowledge_Freshness
  imports Knowledge_Content Graph_Model "HOL-Library.List_Lexorder" "HOL-Library.Char_ord"
begin

text \<open>
  Selective invalidation, \<^verbatim>\<open>internal/knowledge/freshness.go\<close>, over the in-memory store: which
  artifacts a reindex makes stale, with the reason that is stored and returned for each.

  \<^item> The three reads of the store and the blanket sweep take the orders in which they visit its
    artifacts; every write reads the clock (\<open>clock\<close>, by the id of the artifact written).
  \<^item> The reason is written as \<^verbatim>\<open>json.Marshal\<close> writes it, on ASCII text; reading it back
    (\<^verbatim>\<open>DecodeStaleReason\<close>) is not modelled. Log output and the nil store are left out.
\<close>

section \<open>Reasons and their text\<close>

definition hex_digit :: "nat \<Rightarrow> char" where
  "hex_digit d = (if d < 10 then char_of (48 + d) else char_of (87 + d))"

text \<open>
  \<^verbatim>\<open>json.Marshal\<close> of a string: quotes, backslashes, control characters and the three characters
  that HTML reserves are escaped.
\<close>

definition json_char :: "char \<Rightarrow> string" where
  "json_char c =
     (let n = (of_char c :: nat)
      in if n = 34 \<or> n = 92 then [CHR 0x5C, c]
         else if n = 8 then [CHR 0x5C, CHR ''b''] else if n = 12 then [CHR 0x5C, CHR ''f'']
         else if n = 10 then [CHR 0x5C, CHR ''n''] else if n = 13 then [CHR 0x5C, CHR ''r'']
         else if n = 9 then [CHR 0x5C, CHR ''t'']
         else if n < 32 \<or> n = 60 \<or> n = 62 \<or> n = 38
         then [CHR 0x5C, CHR ''u'', CHR ''0'', CHR ''0'', hex_digit (n div 16), hex_digit (n mod 16)]
         else [c])"

definition json_string :: "string \<Rightarrow> string" where
  "json_string s = CHR 0x22 # concat (map json_char s) @ [CHR 0x22]"

definition json_strings :: "string list \<Rightarrow> string" where
  "json_strings xs = ''['' @ Join (map json_string xs) '','' @ '']''"

definition json_member :: "string \<Rightarrow> string \<Rightarrow> string" where
  "json_member name val = json_string name @ '':'' @ val"

text \<open>The reason as JSON; members marked \<^verbatim>\<open>omitempty\<close> are left out when empty.\<close>

definition mustMarshalReason :: "StaleArtifactReason \<Rightarrow> string" where
  "mustMarshalReason r = ''{'' @ Join
     ([json_member ''artifact_id'' (json_string (saArtifactID r))]
      @ (if saSymbols r = [] then [] else [json_member ''symbols'' (json_strings (saSymbols r))])
      @ (if saFiles r = [] then [] else [json_member ''files'' (json_strings (saFiles r))])
      @ (if saBlanket r then [json_member ''blanket'' ''true''] else [])
      @ (if saReportID r = [] then [] else [json_member ''report_id'' (json_string (saReportID r))])) '','' @ ''}''"

section \<open>Choosing what is stale\<close>

text \<open>The non-empty strings of a list, each at its first place.\<close>

fun dedupe_loop :: "string list \<Rightarrow> string list \<Rightarrow> string list" where
  "dedupe_loop seen [] = []"
| "dedupe_loop seen (v # vs) =
     (if v = [] \<or> v \<in> set seen then dedupe_loop seen vs else v # dedupe_loop (v # seen) vs)"

definition dedupeNonEmpty :: "string list \<Rightarrow> string list" where
  "dedupeNonEmpty xs = dedupe_loop [] xs"

definition cited :: "Artifact \<Rightarrow> Evidence list" where
  "cited a = concat (map seEvidence (arSections a))"

definition evidenceShape :: "Artifact \<Rightarrow> nat \<times> bool" where
  "evidenceShape a =
     (let count = length (cited a);
          allRepoScoped = list_all (\<lambda>ev. kvSourceType ev = EvidenceRepository \<or> kvSourceType ev = EvidenceCommit) (cited a)
      in if count = 0 then (0, False) else (count, allRepoScoped))"

definition matchingSymbolIDs :: "Artifact \<Rightarrow> string list \<Rightarrow> string list" where
  "matchingSymbolIDs a changedSymbols =
     (let want = set (filter (\<lambda>i. i \<noteq> []) changedSymbols)
      in dedupe_loop [] (filter (\<lambda>i. i \<in> want)
           (map kvSourceID (filter (\<lambda>ev. kvSourceType ev = EvidenceSymbol \<and> kvSourceID ev \<noteq> []) (cited a)))))"

definition matchingFilePaths :: "Artifact \<Rightarrow> string list \<Rightarrow> string list" where
  "matchingFilePaths a changedFiles =
     (let want = set (filter (\<lambda>p. p \<noteq> []) changedFiles)
      in dedupe_loop [] (filter (\<lambda>p. p \<in> want)
           (map kvFilePath (filter (\<lambda>ev. kvFilePath ev \<noteq> []) (cited a)))))"

definition blanket_reason :: "Artifact \<Rightarrow> string \<Rightarrow> StaleArtifactReason" where
  "blanket_reason a reportID =
     \<lparr>saArtifactID = arID a, saSymbols = [], saFiles = [], saBlanket = True, saReportID = reportID\<rparr>"

definition reason_for :: "(string \<rightharpoonup> StaleArtifactReason) \<Rightarrow> string \<Rightarrow> string \<Rightarrow> StaleArtifactReason" where
  "reason_for directly i reportID = (case directly i of Some r \<Rightarrow> r
     | None \<Rightarrow> \<lparr>saArtifactID = i, saSymbols = [], saFiles = [], saBlanket = False, saReportID = reportID\<rparr>)"

definition chooseReason ::
  "Artifact \<Rightarrow> (string \<rightharpoonup> StaleArtifactReason) \<Rightarrow> string \<Rightarrow> StaleArtifactReason option" where
  "chooseReason a directly reportID = (case directly (arID a) of
      Some direct \<Rightarrow> Some direct
    | None \<Rightarrow> (case evidenceShape a of (evidenceCount, allRepoScoped) \<Rightarrow>
        if evidenceCount = 0 then Some (blanket_reason a reportID)
        else if allRepoScoped then Some (blanket_reason a reportID) else None))"

text \<open>
  The loop over the candidates, which were read before it: each stale one is written with its
  reason; \<open>clock\<close> is the time read for the write of an artifact.
\<close>

fun mark_candidates ::
  "(Artifact \<Rightarrow> StaleArtifactReason option) \<Rightarrow> (string \<Rightarrow> time) \<Rightarrow> string \<Rightarrow> Artifact list \<Rightarrow> KnowledgeMem
   \<Rightarrow> StaleArtifactReason list \<times> KnowledgeMem" where
  "mark_candidates decide clock reportID [] s = ([], s)"
| "mark_candidates decide clock reportID (a # as) s =
     (if arStatus a \<noteq> ArtReady \<or> arStale a then mark_candidates decide clock reportID as s
      else (case decide a of
          None \<Rightarrow> mark_candidates decide clock reportID as s
        | Some reason \<Rightarrow>
            (case MarkKnowledgeArtifactStaleWithReason (arID a) (mustMarshalReason reason) reportID (clock (arID a)) s of
                (Some _, s1) \<Rightarrow> mark_candidates decide clock reportID as s1
              | (None, s1) \<Rightarrow>
                  (let (rest, s2) = mark_candidates decide clock reportID as s1 in (reason # rest, s2)))))"

definition blanketStaleAll ::
  "string list \<Rightarrow> (string \<Rightarrow> time) \<Rightarrow> string \<Rightarrow> string \<Rightarrow> KnowledgeMem \<Rightarrow> StaleArtifactReason list \<times> KnowledgeMem" where
  "blanketStaleAll ks clock repoID reportID s =
     (let (reasons, s1) = mark_candidates (\<lambda>a. Some (blanket_reason a reportID)) clock reportID
                            (GetKnowledgeArtifacts ks repoID s) s
      in (sort_key saArtifactID reasons, s1))"

definition direct_symbols ::
  "string list \<Rightarrow> string \<Rightarrow> Artifact list \<Rightarrow> (string \<rightharpoonup> StaleArtifactReason) \<Rightarrow> string \<rightharpoonup> StaleArtifactReason" where
  "direct_symbols changed reportID as directly =
     fold (\<lambda>a d. let r = reason_for d (arID a) reportID
                 in d(arID a \<mapsto> r\<lparr>saSymbols := saSymbols r @ matchingSymbolIDs a changed\<rparr>)) as directly"

definition direct_files ::
  "string list \<Rightarrow> string \<Rightarrow> Artifact list \<Rightarrow> (string \<rightharpoonup> StaleArtifactReason) \<Rightarrow> string \<rightharpoonup> StaleArtifactReason" where
  "direct_files changed reportID as directly =
     fold (\<lambda>a d. let r = reason_for d (arID a) reportID
                 in d(arID a \<mapsto> r\<lparr>saFiles := saFiles r @ matchingFilePaths a changed\<rparr>)) as directly"

definition dedupe_reason :: "StaleArtifactReason \<Rightarrow> StaleArtifactReason" where
  "dedupe_reason r = r\<lparr>saSymbols := dedupeNonEmpty (saSymbols r), saFiles := dedupeNonEmpty (saFiles r)\<rparr>"

text \<open>\<open>ks1\<close> to \<open>ks3\<close> are the orders in which the three reads of the store visit its artifacts.\<close>

definition direct_hits ::
  "string list \<Rightarrow> string list \<Rightarrow> string \<Rightarrow> string list \<Rightarrow> string list \<Rightarrow> string \<Rightarrow> KnowledgeMem
   \<Rightarrow> string \<rightharpoonup> StaleArtifactReason" where
  "direct_hits ks1 ks2 repoID symbols files reportID s =
     (let sources = map (\<lambda>i. \<lparr>rfSourceType = EvidenceSymbol, rfSourceID = i\<rparr>) symbols;
          d1 = (if sources = [] then Map.empty
                else direct_symbols symbols reportID (GetArtifactsForSources ks1 repoID sources s) Map.empty);
          d2 = (if files = [] then d1
                else direct_files files reportID (GetArtifactsForFiles ks2 repoID files s) d1)
      in (\<lambda>k. map_option dedupe_reason (d2 k)))"

definition MarkStaleForImpact ::
  "string list \<Rightarrow> string list \<Rightarrow> string list \<Rightarrow> time \<Rightarrow> (string \<Rightarrow> time) \<Rightarrow> string \<Rightarrow> string list \<Rightarrow> string list
   \<Rightarrow> string \<Rightarrow> int \<Rightarrow> KnowledgeMem \<Rightarrow> StaleArtifactReason list \<times> KnowledgeMem" where
  "MarkStaleForImpact ks1 ks2 ks3 now clock repoID symbolsChanged filesChanged reportID maxChanges s =
     (let symbols = dedupeNonEmpty symbolsChanged;
          files = dedupeNonEmpty filesChanged;
          s1 = MarkRepositoryUnderstandingNeedsRefresh repoID now s
      in if symbols = [] \<and> files = [] then ([], s1)
         else if 0 < maxChanges \<and> maxChanges < int (length symbols + length files)
         then blanketStaleAll ks3 clock repoID reportID s1
         else
           (let directly = direct_hits ks1 ks2 repoID symbols files reportID s1;
                (reasons, s2) = mark_candidates (\<lambda>a. chooseReason a directly reportID) clock reportID
                                  (GetKnowledgeArtifacts ks3 repoID s1) s1
            in (sort_key saArtifactID reasons, s2)))"

definition MarkAllStale :: "string list \<Rightarrow> time \<Rightarrow> (string \<Rightarrow> time) \<Rightarrow> string \<Rightarrow> KnowledgeMem \<Rightarrow> KnowledgeMem" where
  "MarkAllStale ks now clock repoID s =
     MarkRepositoryUnderstandingNeedsRefresh repoID now
       (fold (\<lambda>a v. if arStatus a = ArtReady \<and> \<not> arStale a
                    then snd (MarkKnowledgeArtifactStale (arID a) True (clock (arID a)) v) else v)
         (GetKnowledgeArtifacts ks repoID s) s)"

section \<open>Which artifacts a change makes stale\<close>

lemma set_dedupe_loop: "set (dedupe_loop seen xs) = set xs - {[]} - set seen"
  by (induction seen xs rule: dedupe_loop.induct) auto

lemma set_dedupeNonEmpty [simp]: "set (dedupeNonEmpty xs) = set xs - {[]}"
  by (simp add: dedupeNonEmpty_def set_dedupe_loop)

lemma dedupeNonEmpty_Nil_iff: "dedupeNonEmpty xs = [] \<longleftrightarrow> set xs \<subseteq> {[]}"
  by (metis Diff_eq_empty_iff set_dedupeNonEmpty set_empty)

lemma set_cited_with_sections: "set (cited (with_sections s a)) = set (artifact_evidence (arID a) s)"
  by (simp add: cited_def with_sections_def loadSectionsLocked_def artifact_evidence_def image_Union image_image)

text \<open>Every artifact is filed under its id, and no source type contains the separator of \<open>source_key\<close>.\<close>

definition store_clean :: "KnowledgeMem \<Rightarrow> bool" where
  "store_clean s \<longleftrightarrow> (\<forall>k a. kmArtifacts s k = Some a \<longrightarrow> arID a = k)
     \<and> (\<forall>k ev. ev \<in> set (slice_at (kmEvidence s) k) \<longrightarrow> CHR 0x00 \<notin> set (kvSourceType ev))"

lemma source_key_inj:
  assumes "CHR 0x00 \<notin> set t" and "CHR 0x00 \<notin> set t'"
  shows "source_key t i = source_key t' i' \<longleftrightarrow> t = t' \<and> i = i'"
proof
  assume eq: "source_key t i = source_key t' i'"
  have "takeWhile (\<lambda>c. c \<noteq> CHR 0x00) (source_key u j) = u" if "CHR 0x00 \<notin> set u" for u j
    using that unfolding source_key_def by (subst takeWhile_append2) auto
  with eq assms have "t = t'" by metis
  then show "t = t' \<and> i = i'" using eq by (simp add: source_key_def)
qed simp

lemma collect_artifacts_ids:
  "arID ` set (collect_artifacts repo P seen as s)
     = {i. i \<notin> set seen \<and> P i \<and> (\<exists>a\<in>set as. arID a = i \<and> arRepositoryID a = repo)}"
  by (induction repo P seen as s rule: collect_artifacts.induct) (auto simp: with_sections_def)

definition cites_symbol :: "string set \<Rightarrow> Evidence list \<Rightarrow> bool" where
  "cites_symbol S evs \<longleftrightarrow> (\<exists>ev\<in>set evs. kvSourceType ev = EvidenceSymbol \<and> kvSourceID ev \<in> S)"

definition cites_file :: "string set \<Rightarrow> Evidence list \<Rightarrow> bool" where
  "cites_file F evs \<longleftrightarrow> (\<exists>ev\<in>set evs. kvFilePath ev \<in> F)"

definition whole_repo_only :: "Evidence list \<Rightarrow> bool" where
  "whole_repo_only evs \<longleftrightarrow> (\<forall>ev\<in>set evs. kvSourceType ev = EvidenceRepository \<or> kvSourceType ev = EvidenceCommit)"

lemma artifact_of_id:
  assumes "store_clean s" and "enumerates (kmArtifacts s) ks"
  shows "(\<exists>a\<in>set (range_vals (kmArtifacts s) ks). arID a = i \<and> arRepositoryID a = repo)
     \<longleftrightarrow> (\<exists>a. kmArtifacts s i = Some a \<and> arRepositoryID a = repo)"
  using assms unfolding store_clean_def set_range_vals enumerates_def by (auto simp: dom_def)

lemma artifact_evidence_clean:
  assumes "store_clean s" and "ev \<in> set (artifact_evidence i s)"
  shows "CHR 0x00 \<notin> set (kvSourceType ev)"
  using assms by (auto simp: store_clean_def artifact_evidence_def)

lemma matches_sources_iff:
  assumes "store_clean s" and "[] \<notin> set symbols"
  shows "artifactMatchesSourceLocked i
      (set (map (\<lambda>r. source_key (rfSourceType r) (rfSourceID r))
        (filter (\<lambda>r. rfSourceID r \<noteq> []) (map (\<lambda>i. \<lparr>rfSourceType = EvidenceSymbol, rfSourceID = i\<rparr>) symbols)))) s
    \<longleftrightarrow> cites_symbol (set symbols) (artifact_evidence i s)"
proof -
  have "CHR 0x00 \<notin> set EvidenceSymbol" by (simp add: EvidenceSymbol_def)
  then have "source_key (kvSourceType ev) (kvSourceID ev) = source_key EvidenceSymbol j
      \<longleftrightarrow> kvSourceType ev = EvidenceSymbol \<and> kvSourceID ev = j" if "ev \<in> set (artifact_evidence i s)" for ev j
    using source_key_inj artifact_evidence_clean [OF assms(1) that] by blast
  moreover have "set (map (\<lambda>r. source_key (rfSourceType r) (rfSourceID r))
        (filter (\<lambda>r. rfSourceID r \<noteq> []) (map (\<lambda>i. \<lparr>rfSourceType = EvidenceSymbol, rfSourceID = i\<rparr>) symbols)))
      = source_key EvidenceSymbol ` set symbols"
  proof -
    have "filter (\<lambda>r. rfSourceID r \<noteq> []) (map (\<lambda>i. \<lparr>rfSourceType = EvidenceSymbol, rfSourceID = i\<rparr>) symbols)
        = map (\<lambda>i. \<lparr>rfSourceType = EvidenceSymbol, rfSourceID = i\<rparr>) symbols"
      using assms(2) by (induction symbols) auto
    then show ?thesis by (simp add: image_image)
  qed
  ultimately show ?thesis
    by (auto simp: artifactMatchesSourceLocked_def list_ex_iff cites_symbol_def)
qed

lemma dom_direct_symbols: "dom (direct_symbols ch rp as d) = dom d \<union> arID ` set as"
  by (induction as arbitrary: d) (auto simp: direct_symbols_def Let_def)

lemma dom_direct_files: "dom (direct_files ch rp as d) = dom d \<union> arID ` set as"
  by (induction as arbitrary: d) (auto simp: direct_files_def Let_def)

lemma direct_hits_iff:
  assumes "store_clean s" and "enumerates (kmArtifacts s) ks1" and "enumerates (kmArtifacts s) ks2"
    and "[] \<notin> set symbols" and "[] \<notin> set files" and "kmArtifacts s i = Some a"
  shows "direct_hits ks1 ks2 repo symbols files reportID s i \<noteq> None \<longleftrightarrow> arRepositoryID a = repo
    \<and> (cites_symbol (set symbols) (artifact_evidence i s) \<or> cites_file (set files) (artifact_evidence i s))"
proof -
  let ?sources = "map (\<lambda>i. \<lparr>rfSourceType = EvidenceSymbol, rfSourceID = i\<rparr>) symbols"
  have here: "(\<exists>x. kmArtifacts s i = Some x \<and> arRepositoryID x = repo) \<longleftrightarrow> arRepositoryID a = repo"
    using assms(6) by simp
  have src: "i \<in> arID ` set (GetArtifactsForSources ks1 repo ?sources s)
      \<longleftrightarrow> arRepositoryID a = repo \<and> cites_symbol (set symbols) (artifact_evidence i s)"
  proof (cases "symbols = []")
    case True
    then show ?thesis by (simp add: GetArtifactsForSources_def cites_symbol_def)
  next
    case False
    then have ne: "set (map (\<lambda>r. source_key (rfSourceType r) (rfSourceID r)) (filter (\<lambda>r. rfSourceID r \<noteq> []) ?sources)) \<noteq> {}"
      using assms(4) by (cases symbols) auto
    show ?thesis
      unfolding GetArtifactsForSources_def Let_def if_not_P [OF ne] collect_artifacts_ids mem_Collect_eq
        artifact_of_id [OF assms(1,2)] here matches_sources_iff [OF assms(1,4)] by auto
  qed
  have fil: "i \<in> arID ` set (GetArtifactsForFiles ks2 repo files s)
      \<longleftrightarrow> arRepositoryID a = repo \<and> cites_file (set files) (artifact_evidence i s)"
  proof -
    have "set (filter (\<lambda>p. p \<noteq> []) files) = set files" using assms(5) by auto
    moreover have "artifactMatchesFileLocked i (set files) s \<longleftrightarrow> cites_file (set files) (artifact_evidence i s)"
      unfolding artifactMatchesFileLocked_def list_ex_iff cites_file_def using assms(5) by metis
    ultimately show ?thesis
      unfolding GetArtifactsForFiles_def Let_def
      by (auto simp: collect_artifacts_ids artifact_of_id [OF assms(1,3)] here cites_file_def
          simp del: set_filter)
  qed
  have "direct_hits ks1 ks2 repo symbols files reportID s i \<noteq> None
      \<longleftrightarrow> i \<in> arID ` set (GetArtifactsForSources ks1 repo ?sources s) \<or> i \<in> arID ` set (GetArtifactsForFiles ks2 repo files s)"
  proof -
    have "i \<in> dom d1 \<union> arID ` set (GetArtifactsForFiles ks2 repo files s)
      \<longleftrightarrow> i \<in> dom (if files = [] then d1 else direct_files files reportID (GetArtifactsForFiles ks2 repo files s) d1)" for d1
      by (simp add: dom_direct_files) (simp add: GetArtifactsForFiles_def)
    moreover have "i \<in> arID ` set (GetArtifactsForSources ks1 repo ?sources s)
      \<longleftrightarrow> i \<in> dom (if ?sources = [] then Map.empty
          else direct_symbols symbols reportID (GetArtifactsForSources ks1 repo ?sources s) Map.empty)"
      by (simp add: dom_direct_symbols) (simp add: GetArtifactsForSources_def)
    ultimately show ?thesis unfolding direct_hits_def Let_def by (simp add: domIff)
  qed
  with src fil show ?thesis by blast
qed


lemma mark_candidates_effect:
  assumes "distinct (map arID cands)"
    and "\<forall>a\<in>set cands. \<exists>b. kmArtifacts s (arID a) = Some b \<and> b\<lparr>arSections := arSections a\<rparr> = a"
  shows "kmArtifacts (snd (mark_candidates decide clock reportID cands s)) k =
      (case kmArtifacts s k of None \<Rightarrow> None | Some b \<Rightarrow>
         (case List.find (\<lambda>a. arID a = k) cands of None \<Rightarrow> Some b
          | Some a \<Rightarrow> if arStatus a \<noteq> ArtReady \<or> arStale a then Some b
              else (case decide a of None \<Rightarrow> Some b
                | Some r \<Rightarrow> Some (b\<lparr>arStale := True, arStaleReasonJSON := mustMarshalReason r,
                    arStaleReportID := reportID, arUpdatedAt := clock k\<rparr>))))
    \<and> fst (mark_candidates decide clock reportID cands s) =
      map (\<lambda>a. the (decide a)) (filter (\<lambda>a. arStatus a = ArtReady \<and> \<not> arStale a \<and> decide a \<noteq> None) cands)"
  using assms
proof (induction cands arbitrary: s)
  case Nil
  then show ?case by (simp split: option.split)
next
  case (Cons a as)
  obtain b where b: "kmArtifacts s (arID a) = Some b" using Cons.prems(2) by auto
  define upd where "upd r = b\<lparr>arStale := True, arStaleReasonJSON := mustMarshalReason r,
                    arStaleReportID := reportID, arUpdatedAt := clock (arID a)\<rparr>" for r
  define s1 where "s1 r = s\<lparr>kmArtifacts := (kmArtifacts s)(arID a \<mapsto> upd r)\<rparr>" for r
  have step: "mark_candidates decide clock reportID (a # as) s =
     (if arStatus a \<noteq> ArtReady \<or> arStale a then mark_candidates decide clock reportID as s
      else (case decide a of None \<Rightarrow> mark_candidates decide clock reportID as s
        | Some r \<Rightarrow> (r # fst (mark_candidates decide clock reportID as (s1 r)),
                     snd (mark_candidates decide clock reportID as (s1 r)))))"
    by (simp add: MarkKnowledgeArtifactStaleWithReason_def on_artifact_def b s1_def upd_def Let_def split_beta
        split: option.split)
  have d: "distinct (map arID as)" "arID a \<notin> arID ` set as" using Cons.prems(1) by simp_all
  have there: "\<forall>x\<in>set as. \<exists>y. kmArtifacts s (arID x) = Some y \<and> y\<lparr>arSections := arSections x\<rparr> = x"
    using Cons.prems(2) by simp
  have there1: "\<forall>x\<in>set as. \<exists>y. kmArtifacts (s1 r) (arID x) = Some y \<and> y\<lparr>arSections := arSections x\<rparr> = x" for r
  proof
    fix x assume x: "x \<in> set as"
    have "arID x \<noteq> arID a"
    proof
      assume "arID x = arID a"
      with imageI [OF x, of arID] have "arID a \<in> arID ` set as" by simp
      with d(2) show False by contradiction
    qed
    then show "\<exists>y. kmArtifacts (s1 r) (arID x) = Some y \<and> y\<lparr>arSections := arSections x\<rparr> = x"
      using there x by (simp add: s1_def)
  qed
  have none: "List.find (\<lambda>x. arID x = arID a) as = None"
    unfolding find_None_iff
  proof
    assume "\<exists>x. x \<in> set as \<and> arID x = arID a"
    then obtain x where "x \<in> set as" "arID x = arID a" by blast
    then have "arID a \<in> arID ` set as" by (intro image_eqI [of _ _ x]) simp_all
    with d(2) show False by contradiction
  qed
  note IH = Cons.IH [OF d(1) there] and IH1 = Cons.IH [OF d(1) there1]
  show ?case
  proof (cases "arStatus a = ArtReady \<and> \<not> arStale a")
    case False
    then show ?thesis using IH b none unfolding step
        by (cases "kmArtifacts s k"; cases "arID a = k") auto
  next
    case True
    show ?thesis
    proof (cases "decide a")
      case None
      then show ?thesis using IH b none True unfolding step
        by (cases "kmArtifacts s k"; cases "arID a = k") auto
    next
      case (Some r)
      have "kmArtifacts (s1 r) k = (if k = arID a then Some (upd r) else kmArtifacts s k)" by (simp add: s1_def)
      then show ?thesis using IH1 [of r] b none True Some unfolding step upd_def
        by (cases "kmArtifacts s k"; cases "arID a = k") auto
    qed
  qed
qed

text \<open>
  Which artifacts a reindex with the given changes makes stale: none when nothing changed, every
  ready and fresh one of the repository when too much did, and otherwise the ready and fresh ones
  that cite a changed symbol or file or cite nothing finer than the whole repository.
\<close>

definition ready_and_fresh :: "string \<Rightarrow> Artifact \<Rightarrow> bool" where
  "ready_and_fresh repo a \<longleftrightarrow> arRepositoryID a = repo \<and> arStatus a = ArtReady \<and> \<not> arStale a"

definition becomes_stale :: "string list \<Rightarrow> string list \<Rightarrow> int \<Rightarrow> Evidence list \<Rightarrow> bool" where
  "becomes_stale symbols files maxChanges evs \<longleftrightarrow>
     (let S = dedupeNonEmpty symbols; F = dedupeNonEmpty files
      in (S \<noteq> [] \<or> F \<noteq> [])
         \<and> (0 < maxChanges \<and> maxChanges < int (length S + length F)
            \<or> cites_symbol (set S) evs \<or> cites_file (set F) evs \<or> whole_repo_only evs))"

lemma chooseReason_iff:
  "chooseReason (with_sections s a) directly reportID \<noteq> None \<longleftrightarrow>
     directly (arID a) \<noteq> None \<or> whole_repo_only (artifact_evidence (arID a) s)"
proof -
  have len: "length (cited (with_sections s a)) = 0 \<longleftrightarrow> artifact_evidence (arID a) s = []"
    using set_cited_with_sections [of s a] by (metis length_0_conv set_empty)
  have all: "list_all P (cited (with_sections s a)) \<longleftrightarrow> (\<forall>ev\<in>set (artifact_evidence (arID a) s). P ev)" for P
    by (simp add: list_all_iff set_cited_with_sections)
  show ?thesis
    unfolding chooseReason_def evidenceShape_def Let_def all whole_repo_only_def
    using len by (auto simp: with_sections_def split: option.split)
qed

lemma candidates_ok:
  assumes "store_clean s" and "enumerates (kmArtifacts s) ks"
  shows "distinct (map arID (GetKnowledgeArtifacts ks repo s))"
    and "\<forall>a\<in>set (GetKnowledgeArtifacts ks repo s). \<exists>b. kmArtifacts s (arID a) = Some b \<and> b\<lparr>arSections := arSections a\<rparr> = a"
    and "List.find (\<lambda>a. arID a = k) (GetKnowledgeArtifacts ks repo s) =
       (case kmArtifacts s k of None \<Rightarrow> None
        | Some b \<Rightarrow> if arRepositoryID b = repo then Some (with_sections s b) else None)"
proof -
  have id: "arID a = k" if "kmArtifacts s k = Some a" for k a using assms(1) that by (simp add: store_clean_def)
  have ids: "map arID (range_vals (kmArtifacts s) ks) = ks" if "set ks \<subseteq> dom (kmArtifacts s)" for ks
    using that id by (induction ks) (auto split: option.split)
  have ks: "distinct ks" "set ks = dom (kmArtifacts s)" using assms(2) by (simp_all add: enumerates_def)
  have "map arID (range_vals (kmArtifacts s) ks) = ks" using ids ks(2) by simp
  then have dv: "distinct (map arID (range_vals (kmArtifacts s) ks))" using ks(1) by simp
  have "map arID (GetKnowledgeArtifacts ks repo s)
      = map arID (filter (\<lambda>a. arRepositoryID a = repo) (range_vals (kmArtifacts s) ks))"
    by (simp add: GetKnowledgeArtifacts_def with_sections_def comp_def)
  with dv show d: "distinct (map arID (GetKnowledgeArtifacts ks repo s))" by (simp add: distinct_map_filter)
  have mem: "a \<in> set (GetKnowledgeArtifacts ks repo s) \<longleftrightarrow>
      (\<exists>b. kmArtifacts s (arID b) = Some b \<and> arRepositoryID b = repo \<and> a = with_sections s b)" for a
    using id ks(2) by (auto simp: GetKnowledgeArtifacts_def set_range_vals)
  show "\<forall>a\<in>set (GetKnowledgeArtifacts ks repo s). \<exists>b. kmArtifacts s (arID a) = Some b \<and> b\<lparr>arSections := arSections a\<rparr> = a"
  proof
    fix a assume "a \<in> set (GetKnowledgeArtifacts ks repo s)"
    then obtain b where "kmArtifacts s (arID b) = Some b" "a = with_sections s b" using mem by blast
    then show "\<exists>b. kmArtifacts s (arID a) = Some b \<and> b\<lparr>arSections := arSections a\<rparr> = a"
      by (auto simp: with_sections_def)
  qed
  have find: "List.find (\<lambda>a. arID a = k) xs = Some x" if "distinct (map arID xs)" "x \<in> set xs" "arID x = k" for xs x
    using that by (induction xs) auto
  show "List.find (\<lambda>a. arID a = k) (GetKnowledgeArtifacts ks repo s) =
       (case kmArtifacts s k of None \<Rightarrow> None
        | Some b \<Rightarrow> if arRepositoryID b = repo then Some (with_sections s b) else None)"
  proof (cases "\<exists>b. kmArtifacts s k = Some b \<and> arRepositoryID b = repo")
    case True
    then obtain b where b: "kmArtifacts s k = Some b" "arRepositoryID b = repo" by blast
    then have "with_sections s b \<in> set (GetKnowledgeArtifacts ks repo s)" using id mem by auto
    moreover have "arID (with_sections s b) = k" using id b(1) by (simp add: with_sections_def)
    ultimately show ?thesis using find [OF d] b by simp
  next
    case False
    then have "List.find (\<lambda>a. arID a = k) (GetKnowledgeArtifacts ks repo s) = None"
      unfolding find_None_iff mem by (auto simp: with_sections_def)
    with False show ?thesis by (auto split: option.split)
  qed
qed


lemma direct_symbols_Cons:
  "direct_symbols ch rp (a # as) d = direct_symbols ch rp as (d(arID a \<mapsto> (reason_for d (arID a) rp)\<lparr>saSymbols :=
        saSymbols (reason_for d (arID a) rp) @ matchingSymbolIDs a ch\<rparr>))"
  by (simp add: direct_symbols_def Let_def del: fun_upd_apply)

lemma direct_files_Cons:
  "direct_files ch rp (a # as) d = direct_files ch rp as (d(arID a \<mapsto> (reason_for d (arID a) rp)\<lparr>saFiles :=
        saFiles (reason_for d (arID a) rp) @ matchingFilePaths a ch\<rparr>))"
  by (simp add: direct_files_def Let_def del: fun_upd_apply)

lemma direct_hits_id:
  assumes "direct_hits ks1 ks2 repo symbols files reportID s i = Some r"
  shows "saArtifactID r = i"
proof -
  let ?ok = "\<lambda>d. \<forall>k r. d k = Some r \<longrightarrow> saArtifactID r = k"
  have rf: "saArtifactID (reason_for d j reportID) = j" if "?ok d" for d j
    using that by (simp add: reason_for_def split: option.split)
  have ok_s: "?ok (direct_symbols ch reportID as d)" if "?ok d" for ch as d
    using that
  proof (induction as arbitrary: d)
    case (Cons a as)
    have "?ok (d(arID a \<mapsto> (reason_for d (arID a) reportID)\<lparr>saSymbols :=
        saSymbols (reason_for d (arID a) reportID) @ matchingSymbolIDs a ch\<rparr>))"
      using Cons.prems rf [OF Cons.prems] by simp
    from Cons.IH [OF this] show ?case by (simp only: direct_symbols_Cons)
  qed (simp add: direct_symbols_def)
  have ok_f: "?ok (direct_files ch reportID as d)" if "?ok d" for ch as d
    using that
  proof (induction as arbitrary: d)
    case (Cons a as)
    have "?ok (d(arID a \<mapsto> (reason_for d (arID a) reportID)\<lparr>saFiles :=
        saFiles (reason_for d (arID a) reportID) @ matchingFilePaths a ch\<rparr>))"
      using Cons.prems rf [OF Cons.prems] by simp
    from Cons.IH [OF this] show ?case by (simp only: direct_files_Cons)
  qed (simp add: direct_files_def)
  show ?thesis
  proof -
    define d1 where "d1 = (if map (\<lambda>i. \<lparr>rfSourceType = EvidenceSymbol, rfSourceID = i\<rparr>) symbols = [] then Map.empty
      else direct_symbols symbols reportID (GetArtifactsForSources ks1 repo
        (map (\<lambda>i. \<lparr>rfSourceType = EvidenceSymbol, rfSourceID = i\<rparr>) symbols) s) Map.empty)"
    define d2 where "d2 = (if files = [] then d1 else direct_files files reportID (GetArtifactsForFiles ks2 repo files s) d1)"
    have "map_option dedupe_reason (d2 i) = Some r"
      using assms unfolding d2_def d1_def direct_hits_def Let_def .
    then obtain r0 where "d2 i = Some r0" "r = dedupe_reason r0" by auto
    have "?ok d1"
    proof (cases "symbols = []")
      case False
      have "?ok Map.empty" by simp
      from ok_s [OF this] False show ?thesis unfolding d1_def by simp
    qed (simp add: d1_def)
    note ok1 = this
    have "?ok d2"
    proof (cases "files = []")
      case True
      then have "d2 = d1" by (simp add: d2_def)
      with ok1 show ?thesis by blast
    next
      case False
      then have "d2 = direct_files files reportID (GetArtifactsForFiles ks2 repo files s) d1" by (simp add: d2_def)
      with ok_f [OF ok1] show ?thesis by blast
    qed
    with \<open>d2 i = Some r0\<close> have "saArtifactID r0 = i" by blast
    with \<open>r = dedupe_reason r0\<close> show ?thesis by (simp add: dedupe_reason_def)
  qed
qed

text \<open>The reasons name different artifacts when the candidates do.\<close>

lemma mark_candidates_distinct:
  assumes "distinct (map arID cands)"
    and "\<And>a r. a \<in> set cands \<Longrightarrow> decide a = Some r \<Longrightarrow> saArtifactID r = arID a"
  shows "distinct (map saArtifactID (fst (mark_candidates decide clock reportID cands s)))
    \<and> saArtifactID ` set (fst (mark_candidates decide clock reportID cands s)) \<subseteq> arID ` set cands"
  using assms
proof (induction cands arbitrary: s)
  case (Cons a cands)
  have d: "distinct (map arID cands)" and new: "arID a \<notin> arID ` set cands" using Cons.prems(1) by auto
  have IH: "distinct (map saArtifactID (fst (mark_candidates decide clock reportID cands t)))"
    "saArtifactID ` set (fst (mark_candidates decide clock reportID cands t)) \<subseteq> arID ` set cands" for t
    using Cons.IH [OF d Cons.prems(2)] by auto
  have first: "saArtifactID r = arID a" if "decide a = Some r" for r using Cons.prems(2) [of a r] that by simp
  have skip: "?case" if "mark_candidates decide clock reportID (a # cands) s = mark_candidates decide clock reportID cands t" for t
    unfolding that using IH [of t] by auto
  show ?case
  proof (cases "arStatus a \<noteq> ArtReady \<or> arStale a")
    case True
    then show ?thesis by (intro skip [of s]) simp
  next
    case ready: False
    show ?thesis
    proof (cases "decide a")
      case None
      then show ?thesis using ready by (intro skip [of s]) simp
    next
      case (Some r)
      obtain e t where m: "MarkKnowledgeArtifactStaleWithReason (arID a) (mustMarshalReason r) reportID (clock (arID a)) s = (e, t)"
        by fastforce
      show ?thesis
      proof (cases e)
        case None
        then have "mark_candidates decide clock reportID (a # cands) s
            = (r # fst (mark_candidates decide clock reportID cands t), snd (mark_candidates decide clock reportID cands t))"
          using ready Some m by (simp add: case_prod_beta)
        then show ?thesis using IH [of t] new first [OF Some] by auto
      next
        case (Some x)
        then show ?thesis using ready \<open>decide a = Some r\<close> m by (intro skip [of t]) simp
      qed
    qed
  qed
qed simp

lemma distinct_map_sort_key: "distinct (map f (sort_key f xs)) \<longleftrightarrow> distinct (map f xs)"
  by (simp add: distinct_map)

text \<open>Both ways to mark, at once: a choice that depends on the id and the evidence only.\<close>

lemma mark_all_candidates:
  assumes "store_clean s" and "enumerates (kmArtifacts s) ks"
    and "\<And>a. kmArtifacts s (arID a) = Some a \<Longrightarrow> arRepositoryID a = repo \<Longrightarrow>
      (decide (with_sections s a) \<noteq> None \<longleftrightarrow> P (artifact_evidence (arID a) s))
      \<and> (\<forall>r. decide (with_sections s a) = Some r \<longrightarrow> saArtifactID r = arID a)"
  shows "\<forall>k a. kmArtifacts s k = Some a \<longrightarrow>
      (if ready_and_fresh repo a \<and> P (artifact_evidence k s)
       then \<exists>r\<in>set (fst (mark_candidates decide clock reportID (GetKnowledgeArtifacts ks repo s) s)).
              saArtifactID r = k \<and>
              kmArtifacts (snd (mark_candidates decide clock reportID (GetKnowledgeArtifacts ks repo s) s)) k
                = Some (a\<lparr>arStale := True, arStaleReasonJSON := mustMarshalReason r,
                          arStaleReportID := reportID, arUpdatedAt := clock k\<rparr>)
       else kmArtifacts (snd (mark_candidates decide clock reportID (GetKnowledgeArtifacts ks repo s) s)) k = Some a)"
    and "saArtifactID ` set (fst (mark_candidates decide clock reportID (GetKnowledgeArtifacts ks repo s) s))
      = {k. \<exists>a. kmArtifacts s k = Some a \<and> ready_and_fresh repo a \<and> P (artifact_evidence k s)}"
    and "distinct (map saArtifactID (fst (mark_candidates decide clock reportID (GetKnowledgeArtifacts ks repo s) s)))"
proof -
  let ?cands = "GetKnowledgeArtifacts ks repo s"
  let ?m = "mark_candidates decide clock reportID ?cands s"
  have id: "arID a = k" if "kmArtifacts s k = Some a" for k a using assms(1) that by (simp add: store_clean_def)
  note eff = mark_candidates_effect [OF candidates_ok(1,2) [OF assms(1,2), of repo], where decide = decide
      and clock = clock and reportID = reportID]
  have sel: "arStatus (with_sections s a) = arStatus a" "arStale (with_sections s a) = arStale a"
    "arID (with_sections s a) = arID a" "arRepositoryID (with_sections s a) = arRepositoryID a" for a
    by (simp_all add: with_sections_def)
  have mem: "x \<in> set ?cands \<longleftrightarrow> (\<exists>a. kmArtifacts s (arID a) = Some a \<and> arRepositoryID a = repo \<and> x = with_sections s a)" for x
    using assms(2) id by (auto simp: GetKnowledgeArtifacts_def set_range_vals enumerates_def)
  have "saArtifactID r = arID x" if x: "x \<in> set ?cands" "decide x = Some r" for x r
  proof -
    obtain a where a: "kmArtifacts s (arID a) = Some a" "arRepositoryID a = repo" "x = with_sections s a"
      using x(1) mem by blast
    show ?thesis using assms(3) [OF a(1,2)] x(2) unfolding a(3) sel by blast
  qed
  with mark_candidates_distinct [OF candidates_ok(1) [OF assms(1,2), of repo]]
  show "distinct (map saArtifactID (fst ?m))" by blast
  have reasons: "r \<in> set (fst ?m) \<longleftrightarrow> (\<exists>a. kmArtifacts s (arID a) = Some a \<and> ready_and_fresh repo a
      \<and> decide (with_sections s a) = Some r)" for r
    using eff [THEN conjunct2] mem by (force simp: ready_and_fresh_def sel)
  have choice: "\<exists>r. decide (with_sections s a) = Some r \<and> saArtifactID r = k"
    if a: "kmArtifacts s k = Some a" "ready_and_fresh repo a" "P (artifact_evidence k s)" for k a
  proof -
    have k: "arID a = k" by (rule id [OF a(1)])
    have "arRepositoryID a = repo" using a(2) by (simp add: ready_and_fresh_def)
    from assms(3) [of a, unfolded k, OF a(1) this] a(3) show ?thesis
      by (cases "decide (with_sections s a)") simp_all
  qed
  have no_choice: "decide (with_sections s a) = None"
    if a: "kmArtifacts s k = Some a" "arRepositoryID a = repo" "\<not> P (artifact_evidence k s)" for k a
  proof -
    have k: "arID a = k" by (rule id [OF a(1)])
    from assms(3) [of a, unfolded k, OF a(1,2)] a(3) show ?thesis by simp
  qed
  show "saArtifactID ` set (fst ?m)
      = {k. \<exists>a. kmArtifacts s k = Some a \<and> ready_and_fresh repo a \<and> P (artifact_evidence k s)}"
  proof (intro set_eqI iffI)
    fix k assume "k \<in> saArtifactID ` set (fst ?m)"
    then obtain a r where "kmArtifacts s (arID a) = Some a" "ready_and_fresh repo a" "decide (with_sections s a) = Some r"
      "k = saArtifactID r" using reasons by blast
    moreover from this have "k = arID a" "P (artifact_evidence (arID a) s)"
      using assms(3) [of a] by (auto simp: ready_and_fresh_def)
    ultimately show "k \<in> {k. \<exists>a. kmArtifacts s k = Some a \<and> ready_and_fresh repo a \<and> P (artifact_evidence k s)}"
      by auto
  next
    fix k assume "k \<in> {k. \<exists>a. kmArtifacts s k = Some a \<and> ready_and_fresh repo a \<and> P (artifact_evidence k s)}"
    then obtain a where a: "kmArtifacts s k = Some a" "ready_and_fresh repo a" "P (artifact_evidence k s)" by blast
    moreover have "k = arID a" using id a(1) by simp
    moreover obtain r where "decide (with_sections s a) = Some r" and "saArtifactID r = k" using choice [OF a] by blast
    ultimately have "r \<in> set (fst ?m)" unfolding reasons by (intro exI [of _ a]) simp
    then show "k \<in> saArtifactID ` set (fst ?m)" by (rule rev_image_eqI) (simp add: \<open>saArtifactID r = k\<close>)
  qed
  show "\<forall>k a. kmArtifacts s k = Some a \<longrightarrow>
      (if ready_and_fresh repo a \<and> P (artifact_evidence k s)
       then \<exists>r\<in>set (fst ?m). saArtifactID r = k \<and> kmArtifacts (snd ?m) k
                = Some (a\<lparr>arStale := True, arStaleReasonJSON := mustMarshalReason r,
                          arStaleReportID := reportID, arUpdatedAt := clock k\<rparr>)
       else kmArtifacts (snd ?m) k = Some a)"
  proof (intro allI impI)
    fix k a assume a: "kmArtifacts s k = Some a"
    have k: "arID a = k" using id a by simp
    have at: "kmArtifacts (snd ?m) k = (if arRepositoryID a \<noteq> repo then Some a
        else if arStatus a \<noteq> ArtReady \<or> arStale a then Some a
        else (case decide (with_sections s a) of None \<Rightarrow> Some a
          | Some r \<Rightarrow> Some (a\<lparr>arStale := True, arStaleReasonJSON := mustMarshalReason r,
                    arStaleReportID := reportID, arUpdatedAt := clock k\<rparr>)))"
      using eff [THEN conjunct1, of k] a by (simp add: candidates_ok(3) [OF assms(1,2)] sel)
    show "if ready_and_fresh repo a \<and> P (artifact_evidence k s)
       then \<exists>r\<in>set (fst ?m). saArtifactID r = k \<and> kmArtifacts (snd ?m) k
                = Some (a\<lparr>arStale := True, arStaleReasonJSON := mustMarshalReason r,
                          arStaleReportID := reportID, arUpdatedAt := clock k\<rparr>)
       else kmArtifacts (snd ?m) k = Some a"
    proof (cases "ready_and_fresh repo a \<and> P (artifact_evidence k s)")
      case True
      then obtain r where r: "decide (with_sections s a) = Some r" "saArtifactID r = k" using choice [OF a] by blast
      have "r \<in> set (fst ?m)" unfolding reasons using a k True r by (intro exI [of _ a]) simp
      moreover have "kmArtifacts (snd ?m) k = Some (a\<lparr>arStale := True, arStaleReasonJSON := mustMarshalReason r,
                          arStaleReportID := reportID, arUpdatedAt := clock k\<rparr>)"
        using True at r(1) by (simp add: ready_and_fresh_def)
      ultimately show ?thesis using True r(2) by auto
    next
      case False
      then show ?thesis using at no_choice [OF a] by (auto simp: ready_and_fresh_def)
    qed
  qed
qed

text \<open>
  C35: A reindex makes stale exactly the ready and fresh artifacts of its repository that its changes
  concern (\<open>becomes_stale\<close>): those that cite a changed symbol or file, those without any finer
  provenance than the whole repository, and all of them when the change set is too large. Each
  is stored with a returned reason that names it; every other artifact is as before; and the
  reasons returned are one for each artifact that was marked, in order of id.
\<close>

lemma impact_marks_exactly_the_stale:
  assumes "store_clean s" and "enumerates (kmArtifacts s) ks1" and "enumerates (kmArtifacts s) ks2"
    and "enumerates (kmArtifacts s) ks3"
    and "MarkStaleForImpact ks1 ks2 ks3 now clock repo symbols files reportID maxChanges s = (reasons, s')"
  shows "(\<forall>k a. kmArtifacts s k = Some a \<longrightarrow>
      (if ready_and_fresh repo a \<and> becomes_stale symbols files maxChanges (artifact_evidence k s)
       then \<exists>r\<in>set reasons. saArtifactID r = k \<and> kmArtifacts s' k = Some (a\<lparr>arStale := True,
              arStaleReasonJSON := mustMarshalReason r, arStaleReportID := reportID, arUpdatedAt := clock k\<rparr>)
       else kmArtifacts s' k = Some a))
    \<and> saArtifactID ` set reasons = {k. \<exists>a. kmArtifacts s k = Some a \<and> ready_and_fresh repo a
         \<and> becomes_stale symbols files maxChanges (artifact_evidence k s)}
    \<and> sorted (map saArtifactID reasons) \<and> distinct (map saArtifactID reasons)"
proof -
  let ?S = "dedupeNonEmpty symbols" and ?F = "dedupeNonEmpty files"
  define s1 where "s1 = MarkRepositoryUnderstandingNeedsRefresh repo now s"
  have same: "kmArtifacts s1 = kmArtifacts s" "kmSections s1 = kmSections s" "kmEvidence s1 = kmEvidence s"
    by (simp_all add: s1_def MarkRepositoryUnderstandingNeedsRefresh_def)
  have clean: "store_clean s1" and ev: "artifact_evidence k s1 = artifact_evidence k s" for k
    using assms(1) by (simp_all add: store_clean_def artifact_evidence_def same)
  have ks: "enumerates (kmArtifacts s1) ks1" "enumerates (kmArtifacts s1) ks2" "enumerates (kmArtifacts s1) ks3"
    using assms(2-4) by (simp_all add: same)
  consider "?S = [] \<and> ?F = []"
    | "?S \<noteq> [] \<or> ?F \<noteq> []" "0 < maxChanges \<and> maxChanges < int (length ?S + length ?F)"
    | "?S \<noteq> [] \<or> ?F \<noteq> []" "\<not> (0 < maxChanges \<and> maxChanges < int (length ?S + length ?F))" by blast
  then show ?thesis
  proof cases
    case 1
    then have "reasons = []" "s' = s1" using assms(5) by (simp_all add: MarkStaleForImpact_def Let_def s1_def)
    with 1 show ?thesis by (simp add: becomes_stale_def same)
  next
    case 2
    let ?m = "mark_candidates (\<lambda>a. Some (blanket_reason a reportID)) clock reportID (GetKnowledgeArtifacts ks3 repo s1) s1"
    have "MarkStaleForImpact ks1 ks2 ks3 now clock repo symbols files reportID maxChanges s
        = (sort_key saArtifactID (fst ?m), snd ?m)"
      using 2 unfolding MarkStaleForImpact_def Let_def s1_def [symmetric]
      by (auto simp: blanketStaleAll_def split_beta)
    with assms(5) have r: "reasons = sort_key saArtifactID (fst ?m)" "s' = snd ?m" by simp_all
    have P: "becomes_stale symbols files maxChanges evs \<longleftrightarrow> True" for evs
      using 2 by (simp add: becomes_stale_def)
    have "(Some (blanket_reason (with_sections s1 a) reportID) \<noteq> None \<longleftrightarrow> True)
      \<and> (\<forall>r. Some (blanket_reason (with_sections s1 a) reportID) = Some r \<longrightarrow> saArtifactID r = arID a)" for a
      by (simp add: blanket_reason_def with_sections_def)
    note m = mark_all_candidates [OF clean ks(3), where P = "\<lambda>_. True", OF this,
        where repo = repo and clock = clock and reportID = reportID, unfolded same ev]
    show ?thesis unfolding r set_sort P distinct_map_sort_key by (intro conjI m sorted_sort_key)
  next
    case 3
    let ?d = "direct_hits ks1 ks2 repo ?S ?F reportID s1"
    let ?m = "mark_candidates (\<lambda>a. chooseReason a ?d reportID) clock reportID (GetKnowledgeArtifacts ks3 repo s1) s1"
    have "MarkStaleForImpact ks1 ks2 ks3 now clock repo symbols files reportID maxChanges s
        = (sort_key saArtifactID (fst ?m), snd ?m)"
      using 3 unfolding MarkStaleForImpact_def Let_def s1_def [symmetric] by (auto simp: split_beta)
    with assms(5) have r: "reasons = sort_key saArtifactID (fst ?m)" "s' = snd ?m" by simp_all
    have P: "becomes_stale symbols files maxChanges evs \<longleftrightarrow>
        cites_symbol (set ?S) evs \<or> cites_file (set ?F) evs \<or> whole_repo_only evs" for evs
      using 3 unfolding becomes_stale_def Let_def by blast
    have "[] \<notin> set ?S" "[] \<notin> set ?F" by simp_all
    note hits = direct_hits_iff [OF clean ks(1,2) this]
    have "(chooseReason (with_sections s1 a) ?d reportID \<noteq> None \<longleftrightarrow>
          becomes_stale symbols files maxChanges (artifact_evidence (arID a) s1))
      \<and> (\<forall>r. chooseReason (with_sections s1 a) ?d reportID = Some r \<longrightarrow> saArtifactID r = arID a)"
      if "kmArtifacts s1 (arID a) = Some a" "arRepositoryID a = repo" for a
    proof
      show "chooseReason (with_sections s1 a) ?d reportID \<noteq> None \<longleftrightarrow>
          becomes_stale symbols files maxChanges (artifact_evidence (arID a) s1)"
        unfolding chooseReason_iff P using hits [OF that(1), of repo reportID] that(2) by blast
      show "\<forall>r. chooseReason (with_sections s1 a) ?d reportID = Some r \<longrightarrow> saArtifactID r = arID a"
      proof (intro allI impI)
        fix r assume r: "chooseReason (with_sections s1 a) ?d reportID = Some r"
        show "saArtifactID r = arID a"
        proof (cases "?d (arID a)")
          case None
          then have "r = blanket_reason (with_sections s1 a) reportID"
            using r by (auto simp: chooseReason_def with_sections_def split: if_splits prod.splits)
          then show ?thesis by (simp add: blanket_reason_def with_sections_def)
        next
          case (Some r0)
          then have "r = r0" using r by (simp add: chooseReason_def with_sections_def)
          with Some show ?thesis using direct_hits_id by blast
        qed
      qed
    qed
    note m = mark_all_candidates [OF clean ks(3), where P = "becomes_stale symbols files maxChanges", OF this,
        where clock = clock and reportID = reportID, unfolded same ev]
    show ?thesis unfolding r set_sort distinct_map_sort_key by (intro conjI m sorted_sort_key)
  qed
qed


definition ready_artifact :: Artifact where
  "ready_artifact = (claimed_artifact ''u'' 1 (Normalized demo_key) demo_revision [])\<lparr>arStatus := ArtReady\<rparr>"

lemma impact_marks_exactly_the_stale_witness:
  "\<exists>s r. kmArtifacts s ''u'' = Some ready_artifact \<and> saArtifactID r = ''u''
     \<and> kmArtifacts (snd (MarkStaleForImpact [''u''] [''u''] [''u''] 1 (\<lambda>_. 2) ''r'' [''sym''] [] ''rep'' 0 s)) ''u''
       = Some (ready_artifact\<lparr>arStale := True, arStaleReasonJSON := mustMarshalReason r,
           arStaleReportID := ''rep'', arUpdatedAt := 2\<rparr>)"
proof -
  let ?s = "(NewKnowledgeMem (\<lambda>_. ''u''))\<lparr>kmArtifacts := [''u'' \<mapsto> ready_artifact]\<rparr>"
  obtain reasons s' where run: "MarkStaleForImpact [''u''] [''u''] [''u''] 1 (\<lambda>_. 2) ''r'' [''sym''] [] ''rep'' 0 ?s = (reasons, s')"
    by fastforce
  have clean: "store_clean ?s"
    by (simp add: store_clean_def NewKnowledgeMem_def slice_at_def ready_artifact_def claimed_artifact_def)
  have ks: "enumerates (kmArtifacts ?s) [''u'']" by (simp add: enumerates_def)
  have at: "kmArtifacts ?s ''u'' = Some ready_artifact" by simp
  have "ready_and_fresh ''r'' ready_artifact"
    by (simp add: ready_and_fresh_def ready_artifact_def claimed_artifact_def demo_key_def)
  moreover have "artifact_evidence ''u'' ?s = []"
    by (simp add: artifact_evidence_def NewKnowledgeMem_def slice_at_def)
  moreover have "becomes_stale [''sym''] [] 0 []"
    by (simp add: becomes_stale_def whole_repo_only_def dedupeNonEmpty_def)
  ultimately have "\<exists>r\<in>set reasons. saArtifactID r = ''u'' \<and> kmArtifacts s' ''u'' = Some (ready_artifact\<lparr>arStale := True,
      arStaleReasonJSON := mustMarshalReason r, arStaleReportID := ''rep'', arUpdatedAt := 2\<rparr>)"
    using impact_marks_exactly_the_stale [OF clean ks ks ks run, THEN conjunct1, rule_format, OF at] by simp
  with run at show ?thesis by (metis snd_conv)
qed

end
