(* ===== verification/Graph_Index.thy ===== *)
theory Graph_Index
  imports Graph_Model
begin

text \<open>
  How index results enter and leave the graph store: \<^verbatim>\<open>StoreIndexResult\<close>,
  \<^verbatim>\<open>ReplaceIndexResult\<close>, \<^verbatim>\<open>MergeIndexResult\<close> and \<^verbatim>\<open>RemoveRepository\<close> of
  \<^verbatim>\<open>internal/graph/store.go\<close>, and the reads of files, symbols, modules and edges.

  \<^item> The three writers share the loop over the files of a result (\<open>insert_file\<close>,
    \<open>insert_symbol\<close>), which the code repeats in each of them; \<open>idMap\<close> is its map of indexer ids
    to stored ids. Counting functions and classes is split off into \<open>count_kinds\<close>.
  \<^item> \<^verbatim>\<open>for path := range affectedSet\<close> visits the paths in an unspecified order, which the merge
    takes as an argument. The loop over \<^verbatim>\<open>testedByGraph\<close> writes only the key it visits, so it is
    given pointwise.
  \<^item> Each method holds the store lock, so it is one transformation. The clock is an argument.
\<close>

section \<open>Writing the files, symbols and modules of a result\<close>

type_synonym id_map = "string \<rightharpoonup> string"

definition stored_file :: "string \<Rightarrow> string \<Rightarrow> FileResult \<Rightarrow> File" where
  "stored_file repoID fileID fr =
     \<lparr>gfID = fileID, gfRepoID = repoID, gfPath = frPath fr, gfLanguage = frLanguage fr,
      gfLineCount = frLineCount fr, gfContentHash = frContentHash fr, gfAIScore = frAIScore fr,
      gfAISignals = frAISignals fr, gfGrailsRole = frGrailsRole fr\<rparr>"

definition stored_symbol :: "string \<Rightarrow> string \<Rightarrow> string \<Rightarrow> Symbol \<Rightarrow> StoredSymbol" where
  "stored_symbol repoID fileID symID y =
     \<lparr>ssID = symID, ssRepoID = repoID, ssFileID = fileID, ssName = syName y,
      ssQualifiedName = syQualifiedName y, ssKind = syKind y, ssLanguage = syLanguage y,
      ssFilePath = syFilePath y, ssStartLine = syStartLine y, ssEndLine = syEndLine y,
      ssSignature = sySignature y, ssDocComment = syDocComment y, ssIsTest = syIsTest y\<rparr>"

definition insert_symbol ::
  "string \<Rightarrow> string \<Rightarrow> Symbol \<Rightarrow> id_map \<times> GraphStore \<Rightarrow> id_map \<times> GraphStore" where
  "insert_symbol repoID fileID y st =
     (case st of (idMap, s) \<Rightarrow>
        (let (symID, s1) = graph_NewString s
         in (idMap(syID y \<mapsto> symID),
             s1\<lparr>gsSymbols := (gsSymbols s1)(symID \<mapsto> stored_symbol repoID fileID symID y),
                gsRepoSymbols := push_at repoID symID (gsRepoSymbols s1),
                gsFileSymbols := push_at fileID symID (gsFileSymbols s1)\<rparr>)))"

definition insert_file :: "string \<Rightarrow> FileResult \<Rightarrow> id_map \<times> GraphStore \<Rightarrow> id_map \<times> GraphStore" where
  "insert_file repoID fr st =
     (case st of (idMap, s) \<Rightarrow>
        (let (fileID, s1) = graph_NewString s;
             s2 = s1\<lparr>gsFiles := (gsFiles s1)(fileID \<mapsto> stored_file repoID fileID fr),
                     gsRepoFiles := push_at repoID fileID (gsRepoFiles s1)\<rparr>;
             (idMap', s3) = fold (insert_symbol repoID fileID) (frSymbols fr) (idMap, s2)
         in (idMap',
             s3\<lparr>gsImports := gsImports s3
                  @ map (\<lambda>imp. \<lparr>siFileID = fileID, siPath = imPath imp, siLine = imLine imp\<rparr>) (frImports fr)\<rparr>)))"

definition is_function_kind :: "SymbolKind \<Rightarrow> bool" where
  "is_function_kind k \<longleftrightarrow> k \<in> {SymbolFunction, SymbolMethod}"

definition is_class_kind :: "SymbolKind \<Rightarrow> bool" where
  "is_class_kind k \<longleftrightarrow> k \<in> {SymbolClass, SymbolStruct, SymbolInterface, SymbolEnum, SymbolTrait}"

definition count_kinds :: "SymbolKind list \<Rightarrow> int \<times> int" where
  "count_kinds ks = (int (length (filter is_function_kind ks)), int (length (filter is_class_kind ks)))"

definition result_symbols :: "IndexResult \<Rightarrow> Symbol list" where
  "result_symbols result = concat (map frSymbols (ixFiles result))"

definition insert_module :: "string \<Rightarrow> Module \<Rightarrow> GraphStore \<Rightarrow> GraphStore" where
  "insert_module repoID m s =
     (let (modID, s1) = graph_NewString s
      in s1\<lparr>gsModules := (gsModules s1)(modID \<mapsto> \<lparr>smID = modID, smRepoID = repoID, smName = mdName m,
                smPath = mdPath m, smFileCount = mdFileCount m\<rparr>),
            gsRepoModules := push_at repoID modID (gsRepoModules s1)\<rparr>)"

text \<open>A relation whose ends are not both in \<open>idMap\<close> (or are mapped to the empty id) is dropped.\<close>

definition id_at :: "id_map \<Rightarrow> string \<Rightarrow> string" where
  "id_at idMap i = (case idMap i of None \<Rightarrow> [] | Some j \<Rightarrow> j)"

definition add_call :: "string \<Rightarrow> string \<Rightarrow> GraphStore \<Rightarrow> GraphStore" where
  "add_call sourceID targetID s =
     s\<lparr>gsCallGraph := push_at sourceID targetID (gsCallGraph s),
       gsReverseCallGraph := push_at targetID sourceID (gsReverseCallGraph s)\<rparr>"

definition insert_relation :: "id_map \<Rightarrow> Relation \<Rightarrow> GraphStore \<Rightarrow> GraphStore" where
  "insert_relation idMap rel s =
     (let sourceID = id_at idMap (rlSourceID rel); targetID = id_at idMap (rlTargetID rel)
      in if sourceID = [] \<or> targetID = [] then s
         else if rlType rel = RelationCalls then add_call sourceID targetID s
         else if rlType rel = RelationTests
         then s\<lparr>gsTestedBy := push_at targetID sourceID (gsTestedBy s)\<rparr>
         else s)"

section \<open>Storing and replacing an index result\<close>

definition CreateRepository :: "time \<Rightarrow> string \<Rightarrow> string \<Rightarrow> GraphStore \<Rightarrow> Repository \<times> GraphStore" where
  "CreateRepository now name path s =
     (let (i, s1) = graph_NewString s;
          repo = \<lparr>grID = i, grName = name, grPath = path, grClonePath = [], grRemoteURL = [],
                  grCommitSHA = [], grPreviousCommitSHA = [], grBranch = [], grGenerationModeDefault = [],
                  grStatus = ''pending'', grFileCount = 0, grFunctionCount = 0, grClassCount = 0,
                  grLastIndexedAt = zero_time, grCreatedAt = now, grIndexError = [], grAuthToken = [],
                  grUnderstandingScoreVal = None, grUnderstandingScoreAt = None\<rparr>
      in (repo, s1\<lparr>gsRepos := (gsRepos s1)(i \<mapsto> repo)\<rparr>))"

definition indexed_repository :: "string \<Rightarrow> time \<Rightarrow> IndexResult \<Rightarrow> Repository" where
  "indexed_repository repoID now result =
     (let (funcCount, classCount) = count_kinds (map syKind (result_symbols result))
      in \<lparr>grID = repoID, grName = ixRepoName result, grPath = ixRepoPath result, grClonePath = [],
          grRemoteURL = [], grCommitSHA = [], grPreviousCommitSHA = [], grBranch = [],
          grGenerationModeDefault = [], grStatus = ''ready'', grFileCount = ixTotalFiles result,
          grFunctionCount = funcCount, grClassCount = classCount, grLastIndexedAt = now,
          grCreatedAt = now, grIndexError = [], grAuthToken = [], grUnderstandingScoreVal = None,
          grUnderstandingScoreAt = None\<rparr>)"

definition insert_result :: "string \<Rightarrow> IndexResult \<Rightarrow> GraphStore \<Rightarrow> GraphStore" where
  "insert_result repoID result s =
     (let (idMap, s1) = fold (insert_file repoID) (ixFiles result) (Map.empty, s);
          s2 = fold (insert_relation idMap) (ixRelations result) s1
      in fold (insert_module repoID) (ixModules result) s2)"

definition StoreIndexResult :: "time \<Rightarrow> IndexResult \<Rightarrow> GraphStore \<Rightarrow> Repository \<times> GraphStore" where
  "StoreIndexResult now result s =
     (let (repoID, s1) = graph_NewString s;
          s2 = insert_result repoID result s1;
          repo = indexed_repository repoID now result
      in (repo, s2\<lparr>gsRepos := (gsRepos s2)(repoID \<mapsto> repo)\<rparr>))"

text \<open>The edges of one symbol, in both directions, and the symbol.\<close>

definition drop_calls :: "string \<Rightarrow> GraphStore \<Rightarrow> GraphStore" where
  "drop_calls symID s =
     (let s1 = fold (\<lambda>calleeID s. s\<lparr>gsReverseCallGraph := pull_at calleeID symID (gsReverseCallGraph s)\<rparr>)
                 (slice_at (gsCallGraph s) symID) s;
          s2 = s1\<lparr>gsCallGraph := (gsCallGraph s1)(symID := None)\<rparr>;
          s3 = fold (\<lambda>callerID s. s\<lparr>gsCallGraph := pull_at callerID symID (gsCallGraph s)\<rparr>)
                 (slice_at (gsReverseCallGraph s2) symID) s2
      in s3\<lparr>gsReverseCallGraph := (gsReverseCallGraph s3)(symID := None)\<rparr>)"

definition drop_symbol :: "string \<Rightarrow> GraphStore \<Rightarrow> GraphStore" where
  "drop_symbol symID s =
     (let s1 = drop_calls symID s in s1\<lparr>gsSymbols := (gsSymbols s1)(symID := None)\<rparr>)"

definition drop_index_rows :: "string \<Rightarrow> GraphStore \<Rightarrow> GraphStore" where
  "drop_index_rows repoID s =
     (let s1 = fold drop_symbol (slice_at (gsRepoSymbols s) repoID) s;
          s2 = s1\<lparr>gsRepoSymbols := (gsRepoSymbols s1)(repoID := None)\<rparr>;
          s3 = fold (\<lambda>fileID s. s\<lparr>gsFiles := (gsFiles s)(fileID := None),
                                 gsFileSymbols := (gsFileSymbols s)(fileID := None)\<rparr>)
                 (slice_at (gsRepoFiles s2) repoID) s2;
          s4 = s3\<lparr>gsRepoFiles := (gsRepoFiles s3)(repoID := None)\<rparr>;
          s5 = fold (\<lambda>modID s. s\<lparr>gsModules := (gsModules s)(modID := None)\<rparr>)
                 (slice_at (gsRepoModules s4) repoID) s4
      in s5\<lparr>gsRepoModules := (gsRepoModules s5)(repoID := None)\<rparr>)"

definition ReplaceIndexResult ::
  "time \<Rightarrow> string \<Rightarrow> IndexResult \<Rightarrow> GraphStore \<Rightarrow> (go_error + Repository) \<times> GraphStore" where
  "ReplaceIndexResult now repoID result s = (case gsRepos s repoID of
      None \<Rightarrow> (Inl (Errorf (''repository not found: '' @ repoID)), s)
    | Some repo \<Rightarrow>
        (let s1 = drop_index_rows repoID s;
             oldFileIDs = set (slice_at (gsRepoFiles s1) repoID);
             s2 = s1\<lparr>gsImports := filter (\<lambda>imp. siFileID imp \<notin> oldFileIDs) (gsImports s1)\<rparr>;
             s3 = insert_result repoID result s2;
             (funcCount, classCount) = count_kinds (map syKind (result_symbols result));
             repo' = repo\<lparr>grFileCount := ixTotalFiles result, grFunctionCount := funcCount,
                         grClassCount := classCount, grLastIndexedAt := now, grStatus := ''ready'',
                         grIndexError := []\<rparr>
         in (Inr repo', s3\<lparr>gsRepos := (gsRepos s3)(repoID \<mapsto> repo')\<rparr>)))"

section \<open>Merging a result into the files it affects\<close>

definition storeSymbolLookupKey :: "string \<Rightarrow> string \<Rightarrow> string \<Rightarrow> int \<Rightarrow> string" where
  "storeSymbolLookupKey filePath qualifiedName kind startLine =
     filePath @ [CHR 0x00] @ qualifiedName @ [CHR 0x00] @ kind @ [CHR 0x00] @ Itoa startLine"

definition existing_by_path :: "string \<Rightarrow> GraphStore \<Rightarrow> string \<rightharpoonup> File" where
  "existing_by_path repoID s =
     fold (\<lambda>f m. m(gfPath f \<mapsto> f)) (range_vals (gsFiles s) (slice_at (gsRepoFiles s) repoID)) Map.empty"

definition carry_forward :: "string \<Rightarrow> string set \<Rightarrow> GraphStore \<Rightarrow> id_map" where
  "carry_forward repoID affected s =
     fold (\<lambda>sid m. case gsSymbols s sid of None \<Rightarrow> m
         | Some ss \<Rightarrow> if ssFilePath ss \<in> affected then m
             else m(storeSymbolLookupKey (ssFilePath ss) (ssQualifiedName ss) (ssKind ss) (ssStartLine ss) \<mapsto> sid))
       (slice_at (gsRepoSymbols s) repoID) Map.empty"

definition drop_tests :: "string \<Rightarrow> GraphStore \<Rightarrow> GraphStore" where
  "drop_tests sid s =
     (let m = (gsTestedBy s)(sid := None)
      in s\<lparr>gsTestedBy := (\<lambda>tgt. case m tgt of None \<Rightarrow> None
           | Some testers \<Rightarrow>
               (let filtered = removeFromSlice testers sid
                in if length filtered \<noteq> length testers
                   then (if filtered = [] then None else Some filtered) else Some testers))\<rparr>)"

definition drop_link :: "string \<Rightarrow> string \<Rightarrow> GraphStore \<Rightarrow> GraphStore" where
  "drop_link repoID lid s =
     (let s1 = (case gsLinks s lid of None \<Rightarrow> s
          | Some l \<Rightarrow> s\<lparr>gsReqLinks := pull_at (slRequirementID l) lid (gsReqLinks s),
                         gsLinks := (gsLinks s)(lid := None)\<rparr>)
      in s1\<lparr>gsRepoLinks := pull_at repoID lid (gsRepoLinks s1)\<rparr>)"

definition drop_links :: "string \<Rightarrow> string \<Rightarrow> GraphStore \<Rightarrow> GraphStore" where
  "drop_links repoID sid s =
     (let s1 = fold (drop_link repoID) (slice_at (gsSymLinks s) sid) s
      in s1\<lparr>gsSymLinks := (gsSymLinks s1)(sid := None)\<rparr>)"

definition drop_merged_symbol :: "string \<Rightarrow> string \<Rightarrow> GraphStore \<Rightarrow> GraphStore" where
  "drop_merged_symbol repoID sid s =
     (let s1 = drop_links repoID sid (drop_tests sid (drop_calls sid s))
      in s1\<lparr>gsSymbols := (gsSymbols s1)(sid := None),
            gsRepoSymbols := pull_at repoID sid (gsRepoSymbols s1)\<rparr>)"

definition drop_file :: "string \<Rightarrow> File \<Rightarrow> GraphStore \<Rightarrow> GraphStore" where
  "drop_file repoID f s =
     (let s1 = fold (drop_merged_symbol repoID) (slice_at (gsFileSymbols s) (gfID f)) s
      in s1\<lparr>gsFileSymbols := (gsFileSymbols s1)(gfID f := None),
            gsImports := filter (\<lambda>imp. siFileID imp \<noteq> gfID f) (gsImports s1),
            gsFiles := (gsFiles s1)(gfID f := None),
            gsRepoFiles := pull_at repoID (gfID f) (gsRepoFiles s1)\<rparr>)"

definition drop_path :: "string \<Rightarrow> (string \<rightharpoonup> File) \<Rightarrow> string \<Rightarrow> GraphStore \<Rightarrow> GraphStore" where
  "drop_path repoID existing path s = (case existing path of None \<Rightarrow> s | Some f \<Rightarrow> drop_file repoID f s)"

definition result_tuples :: "IndexResult \<Rightarrow> id_map" where
  "result_tuples result =
     fold (\<lambda>y m. m(syID y \<mapsto> storeSymbolLookupKey (syFilePath y) (syQualifiedName y) (syKind y) (syStartLine y)))
       (result_symbols result) Map.empty"

definition resolveSymID :: "id_map \<Rightarrow> id_map \<Rightarrow> id_map \<Rightarrow> string \<Rightarrow> string option" where
  "resolveSymID idMap tuples carried resultID = (case idMap resultID of
      Some newID \<Rightarrow> Some newID
    | None \<Rightarrow> (case tuples resultID of None \<Rightarrow> None | Some tuple \<Rightarrow> carried tuple))"

definition merge_call :: "string \<Rightarrow> string \<Rightarrow> GraphStore \<Rightarrow> GraphStore" where
  "merge_call sourceID targetID s =
     (let s1 = (if sliceContains (slice_at (gsCallGraph s) sourceID) targetID then s
                else s\<lparr>gsCallGraph := push_at sourceID targetID (gsCallGraph s)\<rparr>)
      in if sliceContains (slice_at (gsReverseCallGraph s1) targetID) sourceID then s1
         else s1\<lparr>gsReverseCallGraph := push_at targetID sourceID (gsReverseCallGraph s1)\<rparr>)"

definition merge_relation :: "(string \<Rightarrow> string option) \<Rightarrow> Relation \<Rightarrow> GraphStore \<Rightarrow> GraphStore" where
  "merge_relation resolve rel s = (case (resolve (rlSourceID rel), resolve (rlTargetID rel)) of
      (Some sourceID, Some targetID) \<Rightarrow>
        if rlType rel = RelationCalls then merge_call sourceID targetID s
        else if rlType rel = RelationTests
        then (if sliceContains (slice_at (gsTestedBy s) targetID) sourceID then s
              else s\<lparr>gsTestedBy := push_at targetID sourceID (gsTestedBy s)\<rparr>)
        else s
    | _ \<Rightarrow> s)"

definition replace_modules :: "string \<Rightarrow> Module list \<Rightarrow> GraphStore \<Rightarrow> GraphStore" where
  "replace_modules repoID mods s =
     (let s1 = fold (\<lambda>modID s. s\<lparr>gsModules := (gsModules s)(modID := None)\<rparr>)
                 (slice_at (gsRepoModules s) repoID) s;
          s2 = s1\<lparr>gsRepoModules := (gsRepoModules s1)(repoID := None)\<rparr>
      in fold (insert_module repoID) mods s2)"

definition merged_repository :: "string \<Rightarrow> time \<Rightarrow> IndexResult \<Rightarrow> Repository \<Rightarrow> GraphStore \<Rightarrow> Repository" where
  "merged_repository repoID now result repo s =
     (let (funcCount, classCount) =
            count_kinds (map ssKind (range_vals (gsSymbols s) (slice_at (gsRepoSymbols s) repoID)))
      in repo\<lparr>grFileCount := int (length (slice_at (gsRepoFiles s) repoID)),
              grFunctionCount := funcCount, grClassCount := classCount, grLastIndexedAt := now,
              grStatus := ''ready'', grIndexError := [],
              grBranch := (if ixBranch result \<noteq> [] then ixBranch result else grBranch repo)\<rparr>)"

definition MergeIndexResult ::
  "string list \<Rightarrow> time \<Rightarrow> string \<Rightarrow> string list \<Rightarrow> IndexResult option \<Rightarrow> GraphStore
   \<Rightarrow> (go_error + Repository) \<times> GraphStore" where
  "MergeIndexResult ps now repoID affectedPaths resultp s = (case resultp of
      None \<Rightarrow> (Inl (Errorf ''nil IndexResult''), s)
    | Some result \<Rightarrow> (case gsRepos s repoID of
        None \<Rightarrow> (Inl (Errorf (''repository not found: '' @ repoID)), s)
      | Some repo \<Rightarrow>
          (let affected = set affectedPaths;
               carried = carry_forward repoID affected s;
               s1 = fold (drop_path repoID (existing_by_path repoID s)) ps s;
               (idMap, s2) = fold (insert_file repoID)
                   (filter (\<lambda>fr. frPath fr \<in> affected) (ixFiles result)) (Map.empty, s1);
               resolve = resolveSymID idMap (result_tuples result) carried;
               s3 = fold (merge_relation resolve) (ixRelations result) s2;
               s4 = replace_modules repoID (ixModules result) s3;
               repo' = merged_repository repoID now result repo s4
           in (Inr repo', s4\<lparr>gsRepos := (gsRepos s4)(repoID \<mapsto> repo')\<rparr>))))"

section \<open>Removing a repository\<close>

definition drop_repo_link :: "string \<Rightarrow> GraphStore \<Rightarrow> GraphStore" where
  "drop_repo_link linkID s =
     (let s1 = (case gsLinks s linkID of None \<Rightarrow> s
          | Some link \<Rightarrow> s\<lparr>gsSymLinks := pull_at (slSymbolID link) linkID (gsSymLinks s)\<rparr>)
      in s1\<lparr>gsLinks := (gsLinks s1)(linkID := None)\<rparr>)"

definition RemoveRepository :: "string \<Rightarrow> GraphStore \<Rightarrow> bool \<times> GraphStore" where
  "RemoveRepository i s =
     (if gsRepos s i = None then (False, s)
      else (let s1 = drop_index_rows i s;
                s2 = fold (\<lambda>reqID s. s\<lparr>gsRequirements := (gsRequirements s)(reqID := None),
                                      gsReqLinks := (gsReqLinks s)(reqID := None)\<rparr>)
                       (slice_at (gsRepoRequirements s1) i) s1;
                s3 = s2\<lparr>gsRepoRequirements := (gsRepoRequirements s2)(i := None)\<rparr>;
                s4 = fold drop_repo_link (slice_at (gsRepoLinks s3) i) s3;
                s5 = s4\<lparr>gsRepoLinks := (gsRepoLinks s4)(i := None)\<rparr>
            in (True, s5\<lparr>gsRepos := (gsRepos s5)(i := None)\<rparr>)))"

section \<open>Repositories\<close>

definition keep_unless_given :: "string \<Rightarrow> string \<Rightarrow> string" where
  "keep_unless_given new old = (if new \<noteq> [] then new else old)"

definition UpdateRepositoryMeta :: "string \<Rightarrow> RepositoryMeta \<Rightarrow> GraphStore \<Rightarrow> GraphStore" where
  "UpdateRepositoryMeta i meta s = (case gsRepos s i of
      None \<Rightarrow> s
    | Some repo \<Rightarrow> s\<lparr>gsRepos := (gsRepos s)(i \<mapsto> repo\<lparr>
          grClonePath := keep_unless_given (meClonePath meta) (grClonePath repo),
          grRemoteURL := keep_unless_given (meRemoteURL meta) (grRemoteURL repo),
          grCommitSHA := keep_unless_given (meCommitSHA meta) (grCommitSHA repo),
          grBranch := keep_unless_given (meBranch meta) (grBranch repo),
          grAuthToken := keep_unless_given (meAuthToken meta) (grAuthToken repo),
          grGenerationModeDefault := keep_unless_given (meGenerationModeDefault meta) (grGenerationModeDefault repo)\<rparr>)\<rparr>)"

definition SetRepositoryError :: "string \<Rightarrow> go_error \<Rightarrow> GraphStore \<Rightarrow> GraphStore" where
  "SetRepositoryError i err s = (case gsRepos s i of
      None \<Rightarrow> s
    | Some repo \<Rightarrow> s\<lparr>gsRepos := (gsRepos s)(i \<mapsto> repo\<lparr>grStatus := ''error'', grIndexError := err_text err\<rparr>)\<rparr>)"

definition CacheUnderstandingScore :: "time \<Rightarrow> string \<Rightarrow> float64 \<Rightarrow> GraphStore \<Rightarrow> GraphStore" where
  "CacheUnderstandingScore now i overall s = (case gsRepos s i of
      None \<Rightarrow> s
    | Some repo \<Rightarrow> s\<lparr>gsRepos := (gsRepos s)(i \<mapsto> repo\<lparr>grUnderstandingScoreVal := Some overall,
                                                   grUnderstandingScoreAt := Some now\<rparr>)\<rparr>)"

definition ListRepositories :: "string list \<Rightarrow> GraphStore \<Rightarrow> Repository list" where
  "ListRepositories ks s = range_vals (gsRepos s) ks"

definition GetRepository :: "string \<Rightarrow> GraphStore \<Rightarrow> Repository option" where
  "GetRepository i s = gsRepos s i"

definition GetRepositoryByPath :: "string list \<Rightarrow> string \<Rightarrow> GraphStore \<Rightarrow> Repository option" where
  "GetRepositoryByPath ks path s = List.find (\<lambda>r. grPath r = path) (range_vals (gsRepos s) ks)"

section \<open>Reads of files, symbols, modules and edges\<close>

definition GetFiles :: "string \<Rightarrow> GraphStore \<Rightarrow> File list" where
  "GetFiles repoID s = range_vals (gsFiles s) (slice_at (gsRepoFiles s) repoID)"

definition GetFilesPaginated ::
  "string \<Rightarrow> string option \<Rightarrow> int \<Rightarrow> int \<Rightarrow> GraphStore \<Rightarrow> File list \<times> int" where
  "GetFilesPaginated repoID pathPrefix limit offset s =
     (let every = filter (\<lambda>f. case pathPrefix of None \<Rightarrow> True | Some p \<Rightarrow> p = [] \<or> HasPrefix (gfPath f) p)
                    (GetFiles repoID s)
      in (page limit offset every, int (length every)))"

text \<open>The symbols of a repository in the order of the store, before filtering and sorting.\<close>

definition repo_symbols :: "string \<Rightarrow> GraphStore \<Rightarrow> StoredSymbol list" where
  "repo_symbols repoID s = range_vals (gsSymbols s) (slice_at (gsRepoSymbols s) repoID)"

definition name_matches :: "string \<Rightarrow> StoredSymbol \<Rightarrow> bool" where
  "name_matches q y \<longleftrightarrow> Contains (ToLower (ssName y)) q \<or> Contains (ToLower (ssQualifiedName y)) q"

definition symbol_kept :: "string option \<Rightarrow> string option \<Rightarrow> StoredSymbol \<Rightarrow> bool" where
  "symbol_kept query kind y \<longleftrightarrow>
     (case kind of None \<Rightarrow> True | Some k \<Rightarrow> ssKind y = k)
     \<and> (case query of None \<Rightarrow> True | Some q \<Rightarrow> q = [] \<or> name_matches (ToLower q) y)"

text \<open>
  \<^verbatim>\<open>sort.Slice\<close> by file path, then name: \<open>arrange\<close> is what the sort makes of the list, a sorted
  permutation of it.
\<close>

definition GetSymbols ::
  "(StoredSymbol list \<Rightarrow> StoredSymbol list) \<Rightarrow> string \<Rightarrow> string option \<Rightarrow> string option \<Rightarrow> int \<Rightarrow> int \<Rightarrow> GraphStore
   \<Rightarrow> StoredSymbol list \<times> int" where
  "GetSymbols arrange repoID query kind limit offset s =
     (let every = arrange (filter (symbol_kept query kind) (repo_symbols repoID s))
      in (page limit offset every, int (length every)))"

definition GetFileSymbols :: "string \<Rightarrow> GraphStore \<Rightarrow> StoredSymbol list" where
  "GetFileSymbols fileID s = range_vals (gsSymbols s) (slice_at (gsFileSymbols s) fileID)"

definition GetModules :: "string \<Rightarrow> GraphStore \<Rightarrow> StoredModule list" where
  "GetModules repoID s = range_vals (gsModules s) (slice_at (gsRepoModules s) repoID)"

definition GetSymbol :: "string \<Rightarrow> GraphStore \<Rightarrow> StoredSymbol option" where
  "GetSymbol i s = gsSymbols s i"

definition GetSymbolsByIDs :: "string list \<Rightarrow> GraphStore \<Rightarrow> string \<rightharpoonup> StoredSymbol" where
  "GetSymbolsByIDs ids s = (\<lambda>i. if i \<in> set ids then gsSymbols s i else None)"

definition GetSymbolsByFile :: "string \<Rightarrow> string \<Rightarrow> GraphStore \<Rightarrow> StoredSymbol list" where
  "GetSymbolsByFile repoID filePath s = filter (\<lambda>y. ssFilePath y = filePath) (repo_symbols repoID s)"

definition GetCallers :: "string \<Rightarrow> GraphStore \<Rightarrow> string list" where
  "GetCallers symbolID s = slice_at (gsReverseCallGraph s) symbolID"

definition GetCallees :: "string \<Rightarrow> GraphStore \<Rightarrow> string list" where
  "GetCallees symbolID s = slice_at (gsCallGraph s) symbolID"

definition GetTestsForSymbolPersisted :: "string \<Rightarrow> GraphStore \<Rightarrow> string list" where
  "GetTestsForSymbolPersisted symbolID s = slice_at (gsTestedBy s) symbolID"

definition GetCallEdges :: "string list \<Rightarrow> string \<Rightarrow> GraphStore \<Rightarrow> CallEdge list" where
  "GetCallEdges ks repoID s =
     concat (map (\<lambda>callerID. map (\<lambda>calleeID. \<lparr>ceCallerID = callerID, ceCalleeID = calleeID\<rparr>)
                                (slice_at (gsCallGraph s) callerID))
       (filter (\<lambda>callerID. case gsSymbols s callerID of None \<Rightarrow> False | Some y \<Rightarrow> ssRepoID y = repoID) ks))"

definition GetImports :: "string \<Rightarrow> GraphStore \<Rightarrow> StoredImport list" where
  "GetImports repoID s =
     filter (\<lambda>imp. siFileID imp \<in> set (slice_at (gsRepoFiles s) repoID)) (gsImports s)"

section \<open>Searching names and paths\<close>

text \<open>Both loops check the limit only after a row, so the second one may add a row beyond it.\<close>

fun search_rows :: "('a \<Rightarrow> SearchResult option) \<Rightarrow> int \<Rightarrow> 'a list \<Rightarrow> SearchResult list \<Rightarrow> SearchResult list" where
  "search_rows hit limit [] results = results"
| "search_rows hit limit (x # xs) results =
     (let results' = (case hit x of None \<Rightarrow> results | Some r \<Rightarrow> results @ [r])
      in if 0 < limit \<and> limit \<le> int (length results') then results'
         else search_rows hit limit xs results')"

definition symbol_hit :: "string \<Rightarrow> StoredSymbol \<Rightarrow> SearchResult option" where
  "symbol_hit q y =
     (if name_matches q y
      then Some \<lparr>srType = ''symbol'', srName = ssName y, srFilePath = ssFilePath y, srLine = ssStartLine y,
                 srSnippet = ssSignature y, srKind = ssKind y\<rparr> else None)"

definition file_hit :: "string \<Rightarrow> File \<Rightarrow> SearchResult option" where
  "file_hit q f =
     (if Contains (ToLower (gfPath f)) q
      then Some \<lparr>srType = ''file'', srName = gfPath f, srFilePath = gfPath f, srLine = 0,
                 srSnippet = [], srKind = []\<rparr> else None)"

definition SearchContent :: "string \<Rightarrow> string \<Rightarrow> int \<Rightarrow> GraphStore \<Rightarrow> SearchResult list" where
  "SearchContent repoID query limit s =
     (let q = ToLower query
      in search_rows (file_hit q) limit (GetFiles repoID s)
           (search_rows (symbol_hit q) limit (repo_symbols repoID s) []))"

end
