(* ===== verification/Graph_Links.thy ===== *)
theory Graph_Links
  imports Graph_Index "HOL-Library.List_Lexorder" "HOL-Library.Char_ord"
begin

text \<open>
  The rest of the in-memory graph store (\<^verbatim>\<open>internal/graph/store.go\<close>): requirements, the links
  between requirements and symbols, discovered requirements, usage records, embeddings, reviews, impact
  reports, coverage counts and package dependencies.

  \<^item> The records that are handed in are stored with the id, repository and time the store gives them.
  \<^item> Where the code ranges over a map, the order is an argument (a list of the keys).
\<close>

section \<open>Links\<close>

definition put_link :: "StoredLink \<Rightarrow> GraphStore \<Rightarrow> GraphStore" where
  "put_link link s =
     s\<lparr>gsLinks := (gsLinks s)(slID link \<mapsto> link),
       gsRepoLinks := push_at (slRepoID link) (slID link) (gsRepoLinks s),
       gsReqLinks := push_at (slRequirementID link) (slID link) (gsReqLinks s),
       gsSymLinks := push_at (slSymbolID link) (slID link) (gsSymLinks s)\<rparr>"

definition StoreLink :: "time \<Rightarrow> string \<Rightarrow> StoredLink \<Rightarrow> GraphStore \<Rightarrow> StoredLink \<times> GraphStore" where
  "StoreLink now repoID link s =
     (let (i, s1) = graph_NewString s;
          link' = link\<lparr>slID := i, slRepoID := repoID, slCreatedAt := now\<rparr>
      in (link', put_link link' s1))"

definition StoreLinks :: "time \<Rightarrow> string \<Rightarrow> StoredLink list \<Rightarrow> GraphStore \<Rightarrow> int \<times> GraphStore" where
  "StoreLinks now repoID links s =
     (int (length links), fold (\<lambda>link s. snd (StoreLink now repoID link s)) links s)"

definition GetLink :: "string \<Rightarrow> GraphStore \<Rightarrow> StoredLink option" where
  "GetLink i s = gsLinks s i"

definition live_links :: "bool \<Rightarrow> string list \<Rightarrow> GraphStore \<Rightarrow> StoredLink list" where
  "live_links includeRejected ids s =
     filter (\<lambda>link. includeRejected \<or> \<not> slRejected link) (range_vals (gsLinks s) ids)"

definition GetLinksForRequirement :: "string \<Rightarrow> bool \<Rightarrow> GraphStore \<Rightarrow> StoredLink list" where
  "GetLinksForRequirement reqID includeRejected s = live_links includeRejected (slice_at (gsReqLinks s) reqID) s"

definition GetLinksForSymbol :: "string \<Rightarrow> bool \<Rightarrow> GraphStore \<Rightarrow> StoredLink list" where
  "GetLinksForSymbol symID includeRejected s = live_links includeRejected (slice_at (gsSymLinks s) symID) s"

definition GetLinksForRepo :: "string \<Rightarrow> GraphStore \<Rightarrow> StoredLink list" where
  "GetLinksForRepo repoID s = live_links False (slice_at (gsRepoLinks s) repoID) s"

definition in_lines :: "int \<Rightarrow> int \<Rightarrow> StoredSymbol \<Rightarrow> bool" where
  "in_lines startLine endLine y \<longleftrightarrow>
     \<not> (0 < startLine \<and> ssEndLine y < startLine) \<and> \<not> (0 < endLine \<and> endLine < ssStartLine y)"

definition GetLinksForFile :: "string \<Rightarrow> int \<Rightarrow> int \<Rightarrow> float64 \<Rightarrow> GraphStore \<Rightarrow> StoredLink list" where
  "GetLinksForFile fileID startLine endLine minConfidence s =
     concat (map (\<lambda>symID. case gsSymbols s symID of None \<Rightarrow> []
         | Some y \<Rightarrow> if in_lines startLine endLine y
             then filter (\<lambda>link. \<not> float_less (slConfidence link) minConfidence)
                    (live_links False (slice_at (gsSymLinks s) symID) s)
             else [])
       (slice_at (gsFileSymbols s) fileID))"

definition verified_link :: "bool \<Rightarrow> string \<Rightarrow> StoredLink \<Rightarrow> StoredLink" where
  "verified_link verified verifiedBy link =
     (if verified then link\<lparr>slVerified := True, slRejected := False, slConfidence := Fin 1, slVerifiedBy := verifiedBy\<rparr>
      else link\<lparr>slRejected := True, slVerified := False, slVerifiedBy := verifiedBy\<rparr>)"

definition VerifyLink :: "string \<Rightarrow> bool \<Rightarrow> string \<Rightarrow> GraphStore \<Rightarrow> StoredLink option \<times> GraphStore" where
  "VerifyLink linkID verified verifiedBy s = (case gsLinks s linkID of
      None \<Rightarrow> (None, s)
    | Some link \<Rightarrow>
        (let link' = verified_link verified verifiedBy link
         in (Some link', s\<lparr>gsLinks := (gsLinks s)(linkID \<mapsto> link')\<rparr>)))"

section \<open>Requirements\<close>

definition StoreRequirement :: "time \<Rightarrow> string \<Rightarrow> StoredRequirement \<Rightarrow> GraphStore \<Rightarrow> GraphStore" where
  "StoreRequirement now repoID req s =
     (let (i, s1) = graph_NewString s
      in s1\<lparr>gsRequirements := (gsRequirements s1)(i \<mapsto>
              req\<lparr>rqID := i, rqRepoID := repoID, rqCreatedAt := now, rqUpdatedAt := now\<rparr>),
            gsRepoRequirements := push_at repoID i (gsRepoRequirements s1)\<rparr>)"

definition StoreRequirements :: "(nat \<Rightarrow> time) \<Rightarrow> string \<Rightarrow> StoredRequirement list \<Rightarrow> GraphStore \<Rightarrow> int \<times> GraphStore" where
  "StoreRequirements clock repoID reqs s =
     (int (length reqs), fold (\<lambda>(n, req). StoreRequirement (clock n) repoID req) (zip [0..<length reqs] reqs) s)"

text \<open>\<open>None\<close> is the panic of slicing at a negative offset.\<close>

definition GetRequirements :: "string \<Rightarrow> int \<Rightarrow> int \<Rightarrow> GraphStore \<Rightarrow> (StoredRequirement list \<times> int) option" where
  "GetRequirements repoID limit offset s =
     (let reqIDs = slice_at (gsRepoRequirements s) repoID;
          total = int (length reqIDs)
      in if total \<le> offset then Some ([], total)
         else if offset < 0 then None
         else (let last = (if offset + limit < total \<and> 0 < limit then offset + limit else total)
               in Some (range_vals (gsRequirements s) (drop (nat offset) (take (nat last) reqIDs)), total)))"

definition GetRequirement :: "string \<Rightarrow> GraphStore \<Rightarrow> StoredRequirement option" where
  "GetRequirement i s = gsRequirements s i"

definition GetRequirementsByIDs :: "string list \<Rightarrow> GraphStore \<Rightarrow> string \<rightharpoonup> StoredRequirement" where
  "GetRequirementsByIDs ids s = (\<lambda>i. if i \<in> set ids then gsRequirements s i else None)"

definition GetRequirementByExternalID :: "string \<Rightarrow> string \<Rightarrow> GraphStore \<Rightarrow> StoredRequirement option" where
  "GetRequirementByExternalID repoID externalID s =
     List.find (\<lambda>r. rqExternalID r = externalID)
       (range_vals (gsRequirements s) (slice_at (gsRepoRequirements s) repoID))"

definition apply_update :: "time \<Rightarrow> RequirementUpdate \<Rightarrow> StoredRequirement \<Rightarrow> StoredRequirement" where
  "apply_update now patch req =
     (let keep = (\<lambda>new old. case new of None \<Rightarrow> old | Some v \<Rightarrow> v)
      in req\<lparr>rqTitle := keep (upTitle patch) (rqTitle req),
             rqDescription := keep (upDescription patch) (rqDescription req),
             rqPriority := keep (upPriority patch) (rqPriority req),
             rqSource := keep (upSource patch) (rqSource req),
             rqTags := (case upTags patch of None \<Rightarrow> rqTags req | Some v \<Rightarrow> v),
             rqAcceptanceCriteria := (case upAcceptanceCriteria patch of None \<Rightarrow> rqAcceptanceCriteria req | Some v \<Rightarrow> v),
             rqUpdatedAt := now\<rparr>)"

text \<open>
  An external id that another requirement of the repository has refuses the whole update; the search for
  it ranges over all requirements (\<open>ks\<close> are their ids).
\<close>

definition UpdateRequirementFields ::
  "string list \<Rightarrow> time \<Rightarrow> string \<Rightarrow> RequirementUpdate \<Rightarrow> GraphStore \<Rightarrow> StoredRequirement option \<times> GraphStore" where
  "UpdateRequirementFields ks now i patch s = (case gsRequirements s i of
      None \<Rightarrow> (None, s)
    | Some req \<Rightarrow>
        (let renamed = (case upExternalID patch of None \<Rightarrow> None
               | Some e \<Rightarrow> if e \<noteq> [] \<and> e \<noteq> rqExternalID req then Some e else None);
             taken = (\<lambda>e. list_ex (\<lambda>j. case gsRequirements s j of None \<Rightarrow> False
                 | Some other \<Rightarrow> j \<noteq> i \<and> rqRepoID other = rqRepoID req \<and> rqExternalID other = e) ks)
         in if (case renamed of None \<Rightarrow> False | Some e \<Rightarrow> taken e) then (None, s)
            else (let req' = apply_update now patch
                        (case renamed of None \<Rightarrow> req | Some e \<Rightarrow> req\<lparr>rqExternalID := e\<rparr>)
                  in (Some req', s\<lparr>gsRequirements := (gsRequirements s)(i \<mapsto> req')\<rparr>))))"

section \<open>Discovered requirements\<close>

definition StoreDiscoveredRequirement :: "time \<Rightarrow> string \<Rightarrow> DiscoveredRequirement \<Rightarrow> GraphStore \<Rightarrow> GraphStore" where
  "StoreDiscoveredRequirement now repoID req s =
     (let (i, s1) = graph_NewString s;
          req' = req\<lparr>drID := i, drRepoID := repoID,
                     drCreatedAt := (if IsZero (drCreatedAt req) then now else drCreatedAt req),
                     drStatus := (if drStatus req = [] then ''discovered'' else drStatus req)\<rparr>
      in s1\<lparr>gsDiscovered := (gsDiscovered s1)(i \<mapsto> req'),
            gsRepoDiscovered := push_at repoID i (gsRepoDiscovered s1)\<rparr>)"

definition StoreDiscoveredRequirements ::
  "time \<Rightarrow> string \<Rightarrow> DiscoveredRequirement list \<Rightarrow> GraphStore \<Rightarrow> int \<times> GraphStore" where
  "StoreDiscoveredRequirements now repoID reqs s =
     (int (length reqs), fold (StoreDiscoveredRequirement now repoID) reqs s)"

definition confidenceRank :: "string \<Rightarrow> nat" where
  "confidenceRank c = (if c = ''high'' then 3 else if c = ''medium'' then 2 else if c = ''low'' then 1 else 0)"

definition discovered_before :: "DiscoveredRequirement \<Rightarrow> DiscoveredRequirement \<Rightarrow> bool" where
  "discovered_before x y \<longleftrightarrow>
     (if confidenceRank (drConfidence x) \<noteq> confidenceRank (drConfidence y)
      then confidenceRank (drConfidence y) < confidenceRank (drConfidence x)
      else After (drCreatedAt x) (drCreatedAt y))"

text \<open>\<open>arrange\<close> is what \<^verbatim>\<open>sort.Slice\<close> makes of the list.\<close>

definition GetDiscoveredRequirements ::
  "(DiscoveredRequirement list \<Rightarrow> DiscoveredRequirement list) \<Rightarrow> string \<Rightarrow> string option \<Rightarrow> string option
   \<Rightarrow> int \<Rightarrow> int \<Rightarrow> GraphStore \<Rightarrow> DiscoveredRequirement list \<times> int" where
  "GetDiscoveredRequirements arrange repoID status confidence limit offset s =
     (let filtered = arrange (filter (\<lambda>req. (case status of None \<Rightarrow> True | Some st \<Rightarrow> drStatus req = st)
                \<and> (case confidence of None \<Rightarrow> True | Some c \<Rightarrow> drConfidence req = c))
            (range_vals (gsDiscovered s) (slice_at (gsRepoDiscovered s) repoID)))
      in (page limit offset filtered, int (length filtered)))"

definition GetDiscoveredRequirement :: "string \<Rightarrow> GraphStore \<Rightarrow> DiscoveredRequirement option" where
  "GetDiscoveredRequirement i s = gsDiscovered s i"

definition PromoteDiscoveredRequirement ::
  "time \<Rightarrow> string \<Rightarrow> string \<Rightarrow> GraphStore \<Rightarrow> DiscoveredRequirement option \<times> GraphStore" where
  "PromoteDiscoveredRequirement now i requirementID s = (case gsDiscovered s i of
      None \<Rightarrow> (None, s)
    | Some req \<Rightarrow>
        (let req' = req\<lparr>drStatus := ''promoted'', drPromotedTo := requirementID, drPromotedAt := now\<rparr>
         in (Some req', s\<lparr>gsDiscovered := (gsDiscovered s)(i \<mapsto> req')\<rparr>)))"

definition DismissDiscoveredRequirement ::
  "time \<Rightarrow> string \<Rightarrow> string \<Rightarrow> string \<Rightarrow> GraphStore \<Rightarrow> DiscoveredRequirement option \<times> GraphStore" where
  "DismissDiscoveredRequirement now i dismissedBy reason s = (case gsDiscovered s i of
      None \<Rightarrow> (None, s)
    | Some req \<Rightarrow>
        (let req' = req\<lparr>drStatus := ''dismissed'', drDismissedBy := dismissedBy, drDismissedReason := reason,
                        drDismissedAt := now\<rparr>
         in (Some req', s\<lparr>gsDiscovered := (gsDiscovered s)(i \<mapsto> req')\<rparr>)))"

definition still_open :: "(string \<rightharpoonup> DiscoveredRequirement) \<Rightarrow> string \<Rightarrow> bool" where
  "still_open m i = (case m i of None \<Rightarrow> False | Some req \<Rightarrow> drStatus req = ''discovered'')"

fun delete_discovered :: "string list \<Rightarrow> (string \<rightharpoonup> DiscoveredRequirement) \<Rightarrow> int \<times> string list \<times> (string \<rightharpoonup> DiscoveredRequirement)" where
  "delete_discovered [] m = (0, [], m)"
| "delete_discovered (i # ids) m =
     (if still_open m i
      then (case delete_discovered ids (m(i := None)) of (deleted, remaining, m') \<Rightarrow> (deleted + 1, remaining, m'))
      else (case delete_discovered ids m of (deleted, remaining, m') \<Rightarrow> (deleted, i # remaining, m')))"

definition DeleteDiscoveredRequirementsByRepo :: "string \<Rightarrow> GraphStore \<Rightarrow> int \<times> GraphStore" where
  "DeleteDiscoveredRequirementsByRepo repoID s =
     (case delete_discovered (slice_at (gsRepoDiscovered s) repoID) (gsDiscovered s) of
        (deleted, remaining, m) \<Rightarrow>
          (deleted, s\<lparr>gsDiscovered := m, gsRepoDiscovered := (gsRepoDiscovered s)(repoID \<mapsto> remaining)\<rparr>))"

section \<open>Usage, embeddings, reviews and impact reports\<close>

definition StoreLLMUsage :: "time \<Rightarrow> LLMUsageRecord \<Rightarrow> GraphStore \<Rightarrow> GraphStore" where
  "StoreLLMUsage now r s =
     (let (i, s1) = graph_NewString s
      in s1\<lparr>gsLLMUsage := gsLLMUsage s1 @ [r\<lparr>luID := i, luCreatedAt := now\<rparr>]\<rparr>)"

fun usage_rows :: "string \<Rightarrow> int \<Rightarrow> LLMUsageRecord list \<Rightarrow> LLMUsageRecord list \<Rightarrow> LLMUsageRecord list" where
  "usage_rows repoID limit [] results = results"
| "usage_rows repoID limit (r # rs) results =
     (if repoID \<noteq> [] \<and> luRepoID r \<noteq> repoID then usage_rows repoID limit rs results
      else (let results' = results @ [r]
            in if 0 < limit \<and> limit \<le> int (length results') then results'
               else usage_rows repoID limit rs results'))"

definition GetLLMUsage :: "string \<Rightarrow> int \<Rightarrow> GraphStore \<Rightarrow> LLMUsageRecord list" where
  "GetLLMUsage repoID limit s = usage_rows repoID limit (rev (gsLLMUsage s)) []"

definition StoreEmbedding :: "time \<Rightarrow> EmbeddingRecord \<Rightarrow> GraphStore \<Rightarrow> GraphStore" where
  "StoreEmbedding now r s =
     (let (i, s1) = graph_NewString s
      in s1\<lparr>gsEmbeddings := (gsEmbeddings s1)(emTargetID r \<mapsto> r\<lparr>emID := i, emCreatedAt := now\<rparr>)\<rparr>)"

definition GetEmbedding :: "string \<Rightarrow> GraphStore \<Rightarrow> EmbeddingRecord option" where
  "GetEmbedding targetID s = gsEmbeddings s targetID"

definition StoreReviewResult :: "time \<Rightarrow> ReviewResultRecord \<Rightarrow> GraphStore \<Rightarrow> GraphStore" where
  "StoreReviewResult now r s =
     (let (i, s1) = graph_NewString s
      in s1\<lparr>gsReviewResults := (gsReviewResults s1)(i \<mapsto> r\<lparr>rvID := i, rvCreatedAt := now\<rparr>)\<rparr>)"

definition GetReviewResults :: "string list \<Rightarrow> string \<Rightarrow> GraphStore \<Rightarrow> ReviewResultRecord list" where
  "GetReviewResults ks targetID s = filter (\<lambda>r. rvTargetID r = targetID) (range_vals (gsReviewResults s) ks)"

definition GetReviewResultsForRepo :: "string list \<Rightarrow> string \<Rightarrow> GraphStore \<Rightarrow> ReviewResultRecord list" where
  "GetReviewResultsForRepo ks repoID s = filter (\<lambda>r. rvRepoID r = repoID) (range_vals (gsReviewResults s) ks)"

definition StoreImpactReport :: "string \<Rightarrow> ImpactReport \<Rightarrow> GraphStore \<Rightarrow> GraphStore" where
  "StoreImpactReport repoID report s = s\<lparr>gsImpactReports := push_at repoID report (gsImpactReports s)\<rparr>"

definition GetLatestImpactReport :: "string \<Rightarrow> GraphStore \<Rightarrow> ImpactReport option" where
  "GetLatestImpactReport repoID s =
     (let reports = slice_at (gsImpactReports s) repoID in if reports = [] then None else Some (last reports))"

definition GetImpactReports :: "string \<Rightarrow> int \<Rightarrow> GraphStore \<Rightarrow> ImpactReport list \<times> int" where
  "GetImpactReports repoID limit s =
     (let reports = slice_at (gsImpactReports s) repoID;
          total = int (length reports)
      in if total = 0 then ([], 0)
         else (let n = (if limit \<le> 0 \<or> total < limit then total else limit)
               in (map (\<lambda>i. reports ! (length reports - 1 - i)) [0..<nat n], total)))"

section \<open>Package dependencies\<close>

text \<open>The directory of a path: what comes before the last slash, or \<^verbatim>\<open>"."\<close>.\<close>

definition package_of :: "string \<Rightarrow> string" where
  "package_of path = (if CHR ''/'' \<in> set path then before_last (CHR ''/'') path else ''.'')"

definition import_edge :: "string \<Rightarrow> GraphStore \<Rightarrow> StoredImport \<Rightarrow> (string \<times> string) list" where
  "import_edge repoID s imp =
     (if siFileID imp \<notin> set (slice_at (gsRepoFiles s) repoID) then []
      else (case gsFiles s (siFileID imp) of
           None \<Rightarrow> []
         | Some f \<Rightarrow> (let fromPkg = package_of (gfPath f); toPkg = siPath imp
                      in if fromPkg = toPkg \<or> toPkg = [] then [] else [(fromPkg, toPkg)])))"

definition import_edges :: "string \<Rightarrow> GraphStore \<Rightarrow> (string \<times> string) list" where
  "import_edges repoID s = concat (map (import_edge repoID s) (gsImports s))"

text \<open>\<^verbatim>\<open>sort.Strings\<close> of the keys of a set: its elements in order, once each.\<close>

definition edges_from :: "(string \<times> string) list \<Rightarrow> string \<Rightarrow> string list" where
  "edges_from edges pkg = sort (remdups (map snd (filter (\<lambda>e. fst e = pkg) edges)))"

definition edges_to :: "(string \<times> string) list \<Rightarrow> string \<Rightarrow> string list" where
  "edges_to edges pkg = sort (remdups (map fst (filter (\<lambda>e. snd e = pkg) edges)))"

definition RecomputePackageDependencies :: "time \<Rightarrow> string \<Rightarrow> GraphStore \<Rightarrow> GraphStore" where
  "RecomputePackageDependencies now repoID s =
     (let kept = (\<lambda>key. if HasPrefix key (repoID @ '':'') then None else gsPackageDeps s key);
          edges = import_edges repoID s;
          allPkgs = remdups (map fst edges @ map snd edges)
      in s\<lparr>gsPackageDeps := fold (\<lambda>pkg m. m(repoID @ '':'' @ pkg \<mapsto>
              \<lparr>pdRepoID = repoID, pdPackage = pkg, pdImports = edges_from edges pkg,
               pdImportedBy = edges_to edges pkg, pdUpdatedAt = now\<rparr>)) allPkgs kept\<rparr>)"

definition GetPackageDependencies :: "string list \<Rightarrow> string \<Rightarrow> GraphStore \<Rightarrow> StoredPackageDependencies list" where
  "GetPackageDependencies ks repoID s =
     range_vals (gsPackageDeps s) (filter (\<lambda>key. HasPrefix key (repoID @ '':'')) ks)"

section \<open>Coverage counts\<close>

text \<open>
  \<^verbatim>\<open>unicode.IsUpper\<close> of the first rune: decided here when it is an ASCII byte, left to \<open>wide\<close> when it
  is a longer rune.
\<close>

definition starts_upper :: "(string \<Rightarrow> bool) \<Rightarrow> string \<Rightarrow> bool" where
  "starts_upper wide name = (case name of [] \<Rightarrow> False
     | c # cs \<Rightarrow> if CHR ''A'' \<le> c \<and> c \<le> CHR ''Z'' then True else if c < CHR 0x80 then False else wide name)"

definition public_kinds :: "string list" where
  "public_kinds = [''function'', ''method'', ''class'', ''struct'', ''interface'', ''enum'', ''type'', ''trait'']"

definition IsPublicSymbol :: "(string \<Rightarrow> bool) \<Rightarrow> StoredSymbol \<Rightarrow> bool" where
  "IsPublicSymbol wide y \<longleftrightarrow> \<not> ssIsTest y \<and> ssKind y \<in> set public_kinds
     \<and> (let lang = ToLower (ssLanguage y)
        in if lang = ''go'' then starts_upper wide (ssName y)
           else if lang = ''python'' then \<not> HasPrefix (ssName y) ''_''
           else if lang = ''typescript'' \<or> lang = ''javascript'' then True
           else if lang = ''java'' then (let sig = ToLower (ssSignature y) in Contains sig ''public'' \<or> Contains sig ''protected'')
           else if lang = ''rust'' then HasPrefix (TrimSpace (ssSignature y)) ''pub ''
           else True)"

definition GetPublicSymbolDocCoverage :: "(string \<Rightarrow> bool) \<Rightarrow> string \<Rightarrow> GraphStore \<Rightarrow> int \<times> int" where
  "GetPublicSymbolDocCoverage wide repoID s =
     (let public = filter (IsPublicSymbol wide) (repo_symbols repoID s)
      in (int (length (filter (\<lambda>y. TrimSpace (ssDocComment y) \<noteq> []) public)), int (length public)))"

definition GetTestSymbolRatio :: "string \<Rightarrow> GraphStore \<Rightarrow> int \<times> int" where
  "GetTestSymbolRatio repoID s =
     (let syms = repo_symbols repoID s in (int (length (filter ssIsTest syms)), int (length syms)))"

definition GetAICodeFileRatio :: "string \<Rightarrow> GraphStore \<Rightarrow> int \<times> int" where
  "GetAICodeFileRatio repoID s =
     (let files = GetFiles repoID s
      in (int (length (filter (\<lambda>f. float_less (Fin (1 / 2)) (gfAIScore f)) files)), int (length files)))"

section \<open>The understanding score\<close>

text \<open>
  The score in exact arithmetic: the code computes it in \<^verbatim>\<open>float64\<close>, whose rounding is left out.
  \<open>freshness\<close> is the answer of the knowledge store, when there is one.
\<close>

record UnderstandingScore =
  usOverall :: rat
  usTraceabilityCoverage :: rat
  usDocumentationCoverage :: rat
  usReviewCoverage :: rat
  usTestCoverage :: rat
  usKnowledgeFreshness :: rat
  usAICodeRatio :: rat
  usComputedAt :: time

definition percent :: "int \<times> int \<Rightarrow> rat" where
  "percent p = (case p of (part, whole) \<Rightarrow> if 0 < whole then of_int part / of_int whole * 100 else 0)"

definition linked_requirements :: "string \<Rightarrow> GraphStore \<Rightarrow> string list" where
  "linked_requirements repoID s = remdups (map slRequirementID (GetLinksForRepo repoID s))"

text \<open>The files that a review names, directly or by one of their symbols.\<close>

definition reviewed_files :: "string list \<Rightarrow> string \<Rightarrow> GraphStore \<Rightarrow> string list" where
  "reviewed_files ks repoID s =
     remdups (concat (map (\<lambda>target.
         if target \<in> set (map gfID (GetFiles repoID s)) then [target]
         else (case GetSymbol target s of None \<Rightarrow> [] | Some y \<Rightarrow> [ssFileID y]))
       (map rvTargetID (GetReviewResultsForRepo ks repoID s))))"

definition test_coverage :: "int \<times> int \<Rightarrow> rat" where
  "test_coverage p = (case p of (tests, every) \<Rightarrow>
     if 0 < every \<and> 0 < every - tests then min 100 (of_int tests / of_int (every - tests) * 100) else 0)"

definition ComputeUnderstandingScore ::
  "(string \<Rightarrow> bool) \<Rightarrow> string list \<Rightarrow> time \<Rightarrow> (int \<times> int) option \<Rightarrow> string \<Rightarrow> GraphStore \<Rightarrow> UnderstandingScore" where
  "ComputeUnderstandingScore wide ks now freshness repoID s =
     (let reqTotal = snd (the (GetRequirements repoID 0 0 s));
          traceability = percent (int (length (linked_requirements repoID s)), reqTotal);
          documentation = percent (GetPublicSymbolDocCoverage wide repoID s);
          review = percent (int (length (reviewed_files ks repoID s)), int (length (GetFiles repoID s)));
          test = test_coverage (GetTestSymbolRatio repoID s);
          fresh = (case freshness of None \<Rightarrow> 0 | Some p \<Rightarrow> percent p)
      in \<lparr>usOverall = traceability * (25 / 100) + documentation * (25 / 100) + review * (20 / 100)
                        + test * (15 / 100) + fresh * (15 / 100),
          usTraceabilityCoverage = traceability, usDocumentationCoverage = documentation,
          usReviewCoverage = review, usTestCoverage = test, usKnowledgeFreshness = fresh,
          usAICodeRatio = percent (GetAICodeFileRatio repoID s), usComputedAt = now\<rparr>)"

end
