(* ===== verification/Graph_Impact.thy ===== *)
theory Graph_Impact
  imports Graph_Links Go_Strings
begin

text \<open>
  Change impact (\<^verbatim>\<open>internal/graph/impact.go\<close>), simulated changes (\<^verbatim>\<open>simulation.go\<close>) and likely execution
  paths (\<^verbatim>\<open>execution_path.go\<close>). Orders of ranging over maps and of unstable sorts are arguments.
\<close>

section \<open>Affected links and requirements\<close>

definition filterChanges :: "ImpactSymbolChange list \<Rightarrow> string \<Rightarrow> ImpactSymbolChange list" where
  "filterChanges changes changeType = filter (\<lambda>c. icChangeType c = changeType) changes"

type_synonym impact_sets = "(string \<rightharpoonup> AffectedLink) \<times> (string \<rightharpoonup> AffectedRequirement)"

text \<open>One live link of a changed symbol: recorded once, and counted for its requirement.\<close>

definition impact_link :: "GraphStore \<Rightarrow> string \<Rightarrow> StoredLink \<Rightarrow> impact_sets \<Rightarrow> impact_sets" where
  "impact_link s impact link sets = (case sets of (affectedLinkSet, affectedReqMap) \<Rightarrow>
     if affectedLinkSet (slID link) \<noteq> None then (affectedLinkSet, affectedReqMap)
     else (let links' = affectedLinkSet(slID link \<mapsto>
                 \<lparr>alLinkID = slID link, alRequirementID = slRequirementID link, alSymbolID = slSymbolID link,
                  alImpact = impact, alConfidence = slConfidence link\<rparr>);
               reqs' = (if affectedReqMap (slRequirementID link) = None
                 then (case GetRequirement (slRequirementID link) s of
                     None \<Rightarrow> affectedReqMap
                   | Some req \<Rightarrow> affectedReqMap(slRequirementID link \<mapsto>
                       \<lparr>aqRequirementID = rqID req, aqExternalID = rqExternalID req, aqTitle = rqTitle req,
                        aqAffectedLinks = 0, aqTotalLinks = int (length (GetLinksForRequirement (rqID req) False s))\<rparr>))
                 else affectedReqMap)
           in (links', case reqs' (slRequirementID link) of
                 None \<Rightarrow> reqs'
               | Some ar \<Rightarrow> reqs'(slRequirementID link \<mapsto> ar\<lparr>aqAffectedLinks := aqAffectedLinks ar + 1\<rparr>))))"

definition impact_change :: "GraphStore \<Rightarrow> ImpactSymbolChange \<Rightarrow> impact_sets \<Rightarrow> impact_sets" where
  "impact_change s sc sets =
     (if icChangeType sc \<noteq> ''modified'' \<and> icChangeType sc \<noteq> ''removed'' then sets
      else if icSymbolID sc = [] then sets
      else (let impact = (if icChangeType sc = ''removed'' then ''symbol_removed'' else ''symbol_modified'')
            in fold (impact_link s impact) (GetLinksForSymbol (icSymbolID sc) False s) sets))"

definition impact_sets_of :: "GraphStore \<Rightarrow> ImpactSymbolChange list \<Rightarrow> impact_sets" where
  "impact_sets_of s symbolChanges = fold (impact_change s) symbolChanges (Map.empty, Map.empty)"

text \<open>
  \<open>ls\<close> and \<open>rs\<close> are the orders in which the two maps are collected; \<open>millis\<close> and \<open>now\<close> are the two readings
  of the clock.
\<close>

definition ComputeImpact ::
  "string list \<Rightarrow> string list \<Rightarrow> int \<Rightarrow> time \<Rightarrow> string \<Rightarrow> ImpactFileDiff list \<Rightarrow> ImpactSymbolChange list \<Rightarrow> GraphStore
   \<Rightarrow> ImpactReport" where
  "ComputeImpact ls rs millis now repoID fileDiffs symbolChanges s =
     (case impact_sets_of s symbolChanges of (affectedLinkSet, affectedReqMap) \<Rightarrow>
        \<lparr>irID = ''impact-'' @ repoID @ ''-'' @ Itoa millis, irRepositoryID = repoID, irOldCommitSHA = [], irNewCommitSHA = [],
         irFilesChanged = fileDiffs, irSymbolsAdded = filterChanges symbolChanges ''added'',
         irSymbolsModified = filterChanges symbolChanges ''modified'', irSymbolsRemoved = filterChanges symbolChanges ''removed'',
         irAffectedLinks = range_vals affectedLinkSet ls, irAffectedRequirements = range_vals affectedReqMap rs,
         irStaleArtifacts = [], irStaleArtifactReasons = [], irComputedAt = now\<rparr>)"

section \<open>The difference of two symbol sets\<close>

type_synonym symbolKey = "string \<times> string \<times> string"

definition symbolKey_of :: "StoredSymbol \<Rightarrow> symbolKey" where
  "symbolKey_of y = (ssFilePath y, ssName y, ssKind y)"

definition symbols_by_key :: "string set \<Rightarrow> StoredSymbol list \<Rightarrow> symbolKey \<rightharpoonup> StoredSymbol" where
  "symbols_by_key changedFiles syms =
     fold (\<lambda>y m. if ssFilePath y \<in> changedFiles then m(symbolKey_of y \<mapsto> y) else m) syms Map.empty"

definition change_of :: "string \<Rightarrow> StoredSymbol \<Rightarrow> string \<Rightarrow> string \<Rightarrow> ImpactSymbolChange" where
  "change_of changeType y old new = \<lparr>icSymbolID = ssID y, icName = ssName y, icKind = ssKind y, icFilePath = ssFilePath y,
     icChangeType = changeType, icOldSignature = old, icNewSignature = new\<rparr>"

definition diff_new :: "(symbolKey \<rightharpoonup> StoredSymbol) \<Rightarrow> (symbolKey \<rightharpoonup> StoredSymbol) \<Rightarrow> symbolKey \<Rightarrow> ImpactSymbolChange list" where
  "diff_new oldByKey newByKey key = (case newByKey key of
      None \<Rightarrow> []
    | Some newSym \<Rightarrow> (case oldByKey key of
          None \<Rightarrow> [change_of ''added'' newSym [] (ssSignature newSym)]
        | Some oldSym \<Rightarrow>
            if ssSignature oldSym \<noteq> ssSignature newSym \<or> ssStartLine oldSym \<noteq> ssStartLine newSym
               \<or> ssEndLine oldSym \<noteq> ssEndLine newSym
            then [change_of ''modified'' newSym (ssSignature oldSym) (ssSignature newSym)] else []))"

definition diff_old :: "(symbolKey \<rightharpoonup> StoredSymbol) \<Rightarrow> (symbolKey \<rightharpoonup> StoredSymbol) \<Rightarrow> symbolKey \<Rightarrow> ImpactSymbolChange list" where
  "diff_old oldByKey newByKey key = (case oldByKey key of
      None \<Rightarrow> []
    | Some oldSym \<Rightarrow> (case newByKey key of
          None \<Rightarrow> [change_of ''removed'' oldSym (ssSignature oldSym) []]
        | Some _ \<Rightarrow> []))"

text \<open>\<open>kn\<close> and \<open>ko\<close> are the orders in which the maps of new and of old symbols are ranged over.\<close>

definition DiffSymbols ::
  "symbolKey list \<Rightarrow> symbolKey list \<Rightarrow> StoredSymbol list \<Rightarrow> StoredSymbol list \<Rightarrow> string set \<Rightarrow> ImpactSymbolChange list" where
  "DiffSymbols kn ko oldSymbols newSymbols changedFiles =
     (let oldByKey = symbols_by_key changedFiles oldSymbols;
          newByKey = symbols_by_key changedFiles newSymbols
      in concat (map (diff_new oldByKey newByKey) kn) @ concat (map (diff_old oldByKey newByKey) ko))"

section \<open>Simulated changes\<close>

text \<open>The fields of a match that the code reads.\<close>

record SimulatedSymbolMatch =
  mtSymbolId :: string
  mtName :: string
  mtKind :: string
  mtFilePath :: string

definition match_change :: "SimulatedSymbolMatch \<Rightarrow> ImpactSymbolChange" where
  "match_change r = \<lparr>icSymbolID = mtSymbolId r, icName = mtName r, icKind = mtKind r, icFilePath = mtFilePath r,
     icChangeType = ''modified'', icOldSignature = [], icNewSignature = []\<rparr>"

text \<open>\<open>fs\<close> is the order in which the set of the files is ranged over.\<close>

definition BuildSimulatedChanges ::
  "string list \<Rightarrow> SimulatedSymbolMatch list \<Rightarrow> ImpactFileDiff list \<times> ImpactSymbolChange list" where
  "BuildSimulatedChanges fs resolved =
     (map (\<lambda>path. \<lparr>idPath = path, idOldPath = [], idStatus = ''modified'', idAdditions = 0, idDeletions = 0\<rparr>)
        (filter (\<lambda>path. path \<in> mtFilePath ` set resolved) fs),
      map match_change resolved)"

type_synonym expansion = "string set \<times> ImpactSymbolChange list \<times> string list"

definition expand_caller :: "GraphStore \<Rightarrow> string \<Rightarrow> expansion \<Rightarrow> expansion" where
  "expand_caller s callerID x = (case x of (seen, expanded, next_ids) \<Rightarrow>
     if callerID \<in> seen then (seen, expanded, next_ids)
     else (case GetSymbol callerID s of
         None \<Rightarrow> (insert callerID seen, expanded, next_ids)
       | Some y \<Rightarrow> (insert callerID seen, expanded @ [change_of ''modified'' y [] []], next_ids @ [callerID])))"

definition expand_level :: "GraphStore \<Rightarrow> string list \<Rightarrow> expansion \<Rightarrow> expansion" where
  "expand_level s frontier x = fold (\<lambda>symID. fold (expand_caller s) (GetCallers symID s)) frontier x"

fun expand_loop :: "nat \<Rightarrow> GraphStore \<Rightarrow> string set \<Rightarrow> ImpactSymbolChange list \<Rightarrow> string list \<Rightarrow> ImpactSymbolChange list" where
  "expand_loop 0 s seen expanded frontier = expanded"
| "expand_loop (Suc depth) s seen expanded frontier =
     (if frontier = [] then expanded
      else (case expand_level s frontier (seen, expanded, []) of
          (seen', expanded', next_ids) \<Rightarrow> expand_loop depth s seen' expanded' next_ids))"

definition ExpandViaCallGraph :: "SimulatedSymbolMatch list \<Rightarrow> int \<Rightarrow> GraphStore \<Rightarrow> ImpactSymbolChange list" where
  "ExpandViaCallGraph resolved maxDepth s =
     expand_loop (nat (min maxDepth 4)) s (set (map mtSymbolId resolved)) (map match_change resolved) (map mtSymbolId resolved)"

section \<open>Likely execution paths\<close>

record ExecutionNode =
  xnSymbolID :: string
  xnSymbolName :: string
  xnFilePath :: string
  xnStartLine :: int
  xnEndLine :: int
  xnObserved :: bool
  xnReason :: string

definition executionNodeFromSymbol :: "StoredSymbol \<Rightarrow> bool \<Rightarrow> string \<Rightarrow> ExecutionNode" where
  "executionNodeFromSymbol y observed reason = \<lparr>xnSymbolID = ssID y, xnSymbolName = ssName y, xnFilePath = ssFilePath y,
     xnStartLine = ssStartLine y, xnEndLine = ssEndLine y, xnObserved = observed, xnReason = reason\<rparr>"

text \<open>A candidate: its id, score and symbol.\<close>

type_synonym scored = "string \<times> int \<times> StoredSymbol"

definition neighbor_score :: "(string \<rightharpoonup> StoredSymbol) \<Rightarrow> (string \<Rightarrow> int) \<Rightarrow> string \<Rightarrow> string \<Rightarrow> StoredSymbol \<Rightarrow> int" where
  "neighbor_score byID fanOut currentID i y =
     (case byID currentID of None \<Rightarrow> 0 | Some current \<Rightarrow> if ssFilePath y \<noteq> ssFilePath current then 2 else 0)
     + (if 0 < fanOut i then min (fanOut i) 3 else 0)
     + (if ssDocComment y \<noteq> [] then 1 else 0)"

definition neighbor_candidates ::
  "string list \<Rightarrow> (string \<rightharpoonup> StoredSymbol) \<Rightarrow> (string \<Rightarrow> int) \<Rightarrow> string \<Rightarrow> string set \<Rightarrow> scored list" where
  "neighbor_candidates candidateIDs byID fanOut currentID visited =
     concat (map (\<lambda>i. if i \<in> visited then []
         else (case byID i of None \<Rightarrow> []
               | Some y \<Rightarrow> if ssIsTest y then [] else [(i, neighbor_score byID fanOut currentID i y, y)])) candidateIDs)"

text \<open>The order of the sort; which of several equal candidates comes first is the choice of \<^verbatim>\<open>sort.Slice\<close>.\<close>

definition neighbor_before :: "scored \<Rightarrow> scored \<Rightarrow> bool" where
  "neighbor_before a b = (case (a, b) of ((_, m, x), (_, n, y)) \<Rightarrow>
     if m = n then (if ssFilePath x = ssFilePath y then ssName x < ssName y else ssFilePath x < ssFilePath y) else n < m)"

definition selectPrimaryNeighbor ::
  "(scored list \<Rightarrow> scored list) \<Rightarrow> string list \<Rightarrow> (string \<rightharpoonup> StoredSymbol) \<Rightarrow> (string \<Rightarrow> int) \<Rightarrow> string \<Rightarrow> string set \<Rightarrow> string" where
  "selectPrimaryNeighbor arrange candidateIDs byID fanOut currentID visited =
     (case arrange (neighbor_candidates candidateIDs byID fanOut currentID visited) of
        [] \<Rightarrow> []
      | (i, _) # _ \<Rightarrow> i)"

text \<open>One chain of neighbours: at most \<open>depth\<close> steps, each to an unvisited one.\<close>

fun trace_chain ::
  "nat \<Rightarrow> (scored list \<Rightarrow> scored list) \<Rightarrow> (string \<Rightarrow> string list) \<Rightarrow> (string \<rightharpoonup> StoredSymbol) \<Rightarrow> (string \<Rightarrow> int) \<Rightarrow> string
   \<Rightarrow> string set \<Rightarrow> string \<Rightarrow> ExecutionNode list" where
  "trace_chain 0 arrange neighbors byID fanOut reason visited currentID = []"
| "trace_chain (Suc depth) arrange neighbors byID fanOut reason visited currentID =
     (let nextID = selectPrimaryNeighbor arrange (neighbors currentID) byID fanOut currentID visited
      in if nextID = [] then []
         else (case byID nextID of
             None \<Rightarrow> []
           | Some y \<Rightarrow> executionNodeFromSymbol y True reason
               # trace_chain depth arrange neighbors byID fanOut reason (insert nextID visited) nextID))"

definition traceCallerChain ::
  "(scored list \<Rightarrow> scored list) \<Rightarrow> (string \<rightharpoonup> StoredSymbol) \<Rightarrow> (string \<Rightarrow> int) \<Rightarrow> string \<Rightarrow> nat \<Rightarrow> GraphStore \<Rightarrow> ExecutionNode list" where
  "traceCallerChain arrange byID fanOut symbolID maxDepth s =
     trace_chain maxDepth arrange (\<lambda>i. GetCallers i s) byID fanOut ''Calls the next step'' {symbolID} symbolID"

text \<open>
  \<open>ks\<close> is the order in which the call graph is ranged over, \<open>sorted_by\<close> the order of the listed symbols. The
  code allocates room for \<^verbatim>\<open>maxDepth+2\<close> nodes up front, which panics for a depth beyond the address space;
  the model is of the depths for which the allocation succeeds.
\<close>

definition TraceLikelyExecutionPath ::
  "(scored list \<Rightarrow> scored list) \<Rightarrow> (StoredSymbol list \<Rightarrow> StoredSymbol list) \<Rightarrow> string list \<Rightarrow> string \<Rightarrow> string \<Rightarrow> int \<Rightarrow> GraphStore
   \<Rightarrow> ExecutionNode list" where
  "TraceLikelyExecutionPath arrange sorted_by ks repoID symbolID maxDepth0 s =
     (let maxDepth = (if maxDepth0 \<le> 0 then 6 else maxDepth0);
          byID = fold (\<lambda>y m. m(ssID y \<mapsto> y)) (fst (GetSymbols sorted_by repoID None None 0 0 s)) Map.empty;
          fanOut = fold (\<lambda>e m. m(ceCallerID e := m (ceCallerID e) + 1)) (GetCallEdges ks repoID s) (\<lambda>_. 0)
      in case byID symbolID of
          None \<Rightarrow> []
        | Some current \<Rightarrow>
            rev (traceCallerChain arrange byID fanOut (ssID current) 4 s)
            @ [executionNodeFromSymbol current True ''Selected code step'']
            @ trace_chain (nat maxDepth) arrange (\<lambda>i. GetCallees i s) byID fanOut ''Called by the previous step''
                {ssID current} (ssID current))"

end
