(* ===== verification/Graph_Tables.thy ===== *)
theory Graph_Tables
  imports Graph_Index
begin

text \<open>
  Maps of slices, and tables with a secondary index: generic lemmas about the two ways in which the
  graph store keeps its rows (\<^verbatim>\<open>map[string]*Row\<close> by id and \<^verbatim>\<open>map[string][]string\<close> by owner).
\<close>

section \<open>Maps of slices\<close>

lemma slice_at_simps [simp]:
  "slice_at Map.empty k = []"
  "slice_at (m(k := None)) k' = (if k' = k then [] else slice_at m k')"
  "slice_at (m(k \<mapsto> xs)) k' = (if k' = k then xs else slice_at m k')"
  by (simp_all add: slice_at_def)

lemma slice_at_push [simp]: "slice_at (push_at k x m) k' = (if k' = k then slice_at m k @ [x] else slice_at m k')"
  by (simp add: push_at_def)

lemma slice_at_pull [simp]:
  "slice_at (pull_at k x m) k' = (if k' = k then filter (\<lambda>v. v \<noteq> x) (slice_at m k) else slice_at m k')"
  by (simp add: pull_at_def removeFromSlice_def)

lemma slice_at_restrict [simp]: "slice_at (m |` D) k = (if k \<in> D then slice_at m k else [])"
  by (simp add: slice_at_def restrict_map_def)

text \<open>Appending several values: \<open>push_at\<close> over a list.\<close>

definition append_at :: "'k \<Rightarrow> 'v list \<Rightarrow> ('k \<rightharpoonup> 'v list) \<Rightarrow> 'k \<rightharpoonup> 'v list" where
  "append_at k xs m = (if xs = [] then m else m(k \<mapsto> slice_at m k @ xs))"

lemma append_at_Nil [simp]: "append_at k [] m = m"
  by (simp add: append_at_def)

lemma append_at_Cons: "append_at k (x # xs) m = append_at k xs (push_at k x m)"
  by (simp add: append_at_def push_at_def)

lemma append_at_append [simp]: "append_at k ys (append_at k xs m) = append_at k (xs @ ys) m"
  by (simp add: append_at_def)

lemma slice_at_append [simp]: "slice_at (append_at k xs m) k' = (if k' = k then slice_at m k @ xs else slice_at m k')"
  by (simp add: append_at_def)

lemma fold_delete: "fold (\<lambda>k m. m(k := None)) ks m = m |` (- set ks)"
  by (induction ks arbitrary: m) (auto simp: restrict_map_def fun_eq_iff)

lemma sliceContains_iff [simp]: "sliceContains xs x \<longleftrightarrow> x \<in> set xs"
  by (induction xs) auto

lemma range_vals_append [simp]: "range_vals m (ks @ ks') = range_vals m ks @ range_vals m ks'"
  by (induction ks) (auto split: option.splits)

lemma range_vals_cong: "(\<And>k. k \<in> set ks \<Longrightarrow> m k = m' k) \<Longrightarrow> range_vals m ks = range_vals m' ks"
  by (induction ks) (auto split: option.splits)

lemma range_vals_all: "(\<And>k. k \<in> set ks \<Longrightarrow> m k = Some (f k)) \<Longrightarrow> range_vals m ks = map f ks"
  by (induction ks) (auto split: option.splits)

lemma range_vals_filter:
  assumes "\<And>k v. k \<in> set ks \<Longrightarrow> m k = Some v \<Longrightarrow> P k = Q v"
  shows "range_vals m (filter P ks) = filter Q (range_vals m ks)"
  using assms by (induction ks) (auto split: option.splits)

section \<open>Tables with a secondary index\<close>

text \<open>
  The store keeps rows by id (\<open>rows\<close>) and, beside them, slices of ids by owner (\<open>index\<close>).
  \<open>indexed\<close> says that they agree: the slice of an owner lists, each once, the ids of its rows.
\<close>

definition indexed :: "('i \<rightharpoonup> 'v) \<Rightarrow> ('k \<rightharpoonup> 'i list) \<Rightarrow> ('v \<Rightarrow> 'k) \<Rightarrow> bool" where
  "indexed rows index owner \<longleftrightarrow>
     (\<forall>k. distinct (slice_at index k))
     \<and> (\<forall>k i. i \<in> set (slice_at index k) \<longleftrightarrow> (\<exists>v. rows i = Some v \<and> owner v = k))"

lemma indexed_iff:
  "indexed rows index owner \<Longrightarrow> i \<in> set (slice_at index k) \<longleftrightarrow> (\<exists>v. rows i = Some v \<and> owner v = k)"
  by (simp add: indexed_def)

lemma indexed_distinct: "indexed rows index owner \<Longrightarrow> distinct (slice_at index k)"
  by (simp add: indexed_def)

lemma indexed_row: "indexed rows index owner \<Longrightarrow> rows i = Some v \<Longrightarrow> i \<in> set (slice_at index (owner v))"
  by (auto simp: indexed_def)

lemma indexed_empty [simp]: "indexed Map.empty Map.empty owner"
  by (simp add: indexed_def)

lemma indexed_eqI:
  assumes "indexed rows index owner" and "\<And>k. slice_at index' k = slice_at index k"
  shows "indexed rows index' owner"
  using assms by (simp add: indexed_def)

lemma indexed_push:
  assumes "indexed rows index owner" and "rows i = None"
  shows "indexed (rows(i \<mapsto> v)) (push_at (owner v) i index) owner"
  using assms by (auto simp: indexed_def)

lemma indexed_restrict:
  assumes "indexed rows index owner" and "\<And>k. slice_at index' k = filter (\<lambda>i. i \<notin> D) (slice_at index k)"
  shows "indexed (rows |` (- D)) index' owner"
  using assms by (auto simp: indexed_def restrict_map_def)

lemma indexed_drop_owner:
  assumes "indexed rows index owner"
  shows "indexed (rows |` (- set (slice_at index k))) (index(k := None)) owner"
proof (rule indexed_restrict [OF assms])
  fix k'
  show "slice_at (index(k := None)) k' = filter (\<lambda>i. i \<notin> set (slice_at index k)) (slice_at index k')"
    using assms by (auto simp: indexed_def intro!: filter_True [symmetric])
qed

lemma indexed_update:
  assumes "indexed rows index owner" and "rows i = Some v" and "owner v' = owner v"
  shows "indexed (rows(i \<mapsto> v')) index owner"
  using assms by (auto simp: indexed_def)

lemma set_indexed_vals:
  "indexed rows index owner \<Longrightarrow> set (range_vals rows (slice_at index k)) = {v. owner v = k \<and> v \<in> ran rows}"
  by (auto simp: set_range_vals indexed_def ran_def)

text \<open>Filling a table with several rows of fresh, different ids.\<close>

lemma indexed_append:
  assumes "indexed rows index owner" and "distinct is" and "set is \<inter> dom rows = {}"
    and "\<And>i v. new i = Some v \<Longrightarrow> owner v = k" and "dom new = set is"
  shows "indexed (rows ++ new) (append_at k is index) owner"
proof -
  have fresh: "i \<notin> set is" if "rows i = Some v" for i v using assms(3) that by auto
  have new: "new i = None" if "i \<notin> set is" for i using assms(5) that by auto
  have old: "i \<notin> set is" if "i \<in> set (slice_at index k')" for i k'
    using assms(1) that fresh by (auto simp: indexed_def)
  show ?thesis
    unfolding indexed_def
  proof (intro conjI allI)
    fix k'
    show "distinct (slice_at (append_at k is index) k')"
      using assms(1,2) old by (auto simp: indexed_def)
  next
    fix k' i
    show "(i \<in> set (slice_at (append_at k is index) k')) = (\<exists>v. (rows ++ new) i = Some v \<and> owner v = k')"
    proof (cases "i \<in> set is")
      case True
      then obtain v where "new i = Some v" using assms(5) by auto
      then show ?thesis using True old assms(4) by auto
    next
      case False
      then show ?thesis using assms(1) new by (auto simp: indexed_def map_add_def)
    qed
  qed
qed

lemma range_vals_ids:
  assumes "\<And>i y. m i = Some y \<Longrightarrow> f y = i" and "distinct ks"
  shows "distinct (map f (range_vals m ks))"
proof -
  have "\<forall>i y. m i = Some y \<longrightarrow> f y = i" using assms(1) by blast
  then have "set (map f (range_vals m ks)) \<subseteq> set ks" for ks by (induction ks) (auto split: option.splits)
  then show ?thesis using assms by (induction ks) (auto split: option.split)
qed

end
