(* ===== verification/Graph_Rows.thy ===== *)
theory Graph_Rows
  imports Graph_Tables
begin

text \<open>
  What the loops of the index writers do, in closed form: which ids the files and symbols of a result
  get, and the store after they are inserted.
\<close>

section \<open>What the loops over a result do\<close>

text \<open>
  Fresh ids are drawn in order, so the ids a result gets are known beforehand: \<open>number_rows\<close>
  gives each file of the result its id and each of its symbols its own.
\<close>

type_synonym row = "string \<times> FileResult \<times> (string \<times> Symbol) list"

abbreviation ids_from :: "(nat \<Rightarrow> string) \<Rightarrow> nat \<Rightarrow> nat \<Rightarrow> string list" where
  "ids_from u n k \<equiv> map u [n..<n + k]"

fun number_rows :: "(nat \<Rightarrow> string) \<Rightarrow> nat \<Rightarrow> FileResult list \<Rightarrow> row list" where
  "number_rows u n [] = []"
| "number_rows u n (fr # frs) =
     (u n, fr, zip (ids_from u (Suc n) (length (frSymbols fr))) (frSymbols fr))
     # number_rows u (Suc n + length (frSymbols fr)) frs"

definition row_ids :: "row list \<Rightarrow> string list" where
  "row_ids rows = concat (map (\<lambda>(i, fr, ys). i # map fst ys) rows)"

definition sym_rows :: "row list \<Rightarrow> (string \<times> string \<times> Symbol) list" where
  "sym_rows rows = concat (map (\<lambda>(i, fr, ys). map (\<lambda>(j, y). (j, i, y)) ys) rows)"

definition file_entries :: "string \<Rightarrow> row list \<Rightarrow> (string \<times> File) list" where
  "file_entries r rows = map (\<lambda>(i, fr, ys). (i, stored_file r i fr)) rows"

definition sym_entries :: "string \<Rightarrow> row list \<Rightarrow> (string \<times> StoredSymbol) list" where
  "sym_entries r rows = map (\<lambda>(j, i, y). (j, stored_symbol r i j y)) (sym_rows rows)"

definition id_entries :: "row list \<Rightarrow> (string \<times> string) list" where
  "id_entries rows = map (\<lambda>(j, i, y). (syID y, j)) (sym_rows rows)"

definition import_entries :: "row list \<Rightarrow> StoredImport list" where
  "import_entries rows = concat (map (\<lambda>(i, fr, ys).
     map (\<lambda>imp. \<lparr>siFileID = i, siPath = imPath imp, siLine = imLine imp\<rparr>) (frImports fr)) rows)"

lemma rows_simps [simp]:
  "row_ids [] = []" "row_ids ((i, fr, ys) # rows) = i # map fst ys @ row_ids rows"
  "sym_rows [] = []" "sym_rows ((i, fr, ys) # rows) = map (\<lambda>(j, y). (j, i, y)) ys @ sym_rows rows"
  "file_entries r [] = []" "file_entries r ((i, fr, ys) # rows) = (i, stored_file r i fr) # file_entries r rows"
  "import_entries [] = []"
  by (simp_all add: row_ids_def sym_rows_def file_entries_def import_entries_def)

lemma fold_map_update: "fold (\<lambda>(k, v) m. m(k \<mapsto> v)) kvs m = m ++ map_of (rev kvs)"
  by (induction kvs arbitrary: m) auto

definition grow :: "string \<Rightarrow> string \<Rightarrow> (string \<times> Symbol) list \<Rightarrow> GraphStore \<Rightarrow> GraphStore" where
  "grow r i ys s = s\<lparr>gsSymbols := gsSymbols s ++ map_of (rev (map (\<lambda>(j, y). (j, stored_symbol r i j y)) ys)),
       gsRepoSymbols := append_at r (map fst ys) (gsRepoSymbols s),
       gsFileSymbols := append_at i (map fst ys) (gsFileSymbols s),
       gsDrawn := gsDrawn s + length ys\<rparr>"

lemma fold_insert_symbol:
  "fold (insert_symbol r i) syms (m, s) =
     (let ys = zip (ids_from (gsUUID s) (gsDrawn s) (length syms)) syms
      in (m ++ map_of (rev (map (\<lambda>(j, y). (syID y, j)) ys)), grow r i ys s))"
proof (induction syms arbitrary: m s)
  case Nil
  then show ?case by (simp add: grow_def)
next
  case (Cons y syms)
  define s1 where "s1 = s\<lparr>gsDrawn := Suc (gsDrawn s),
      gsSymbols := (gsSymbols s)(gsUUID s (gsDrawn s) \<mapsto> stored_symbol r i (gsUUID s (gsDrawn s)) y),
      gsRepoSymbols := push_at r (gsUUID s (gsDrawn s)) (gsRepoSymbols s),
      gsFileSymbols := push_at i (gsUUID s (gsDrawn s)) (gsFileSymbols s)\<rparr>"
  have step: "insert_symbol r i y (m, s) = (m(syID y \<mapsto> gsUUID s (gsDrawn s)), s1)"
    by (simp add: insert_symbol_def graph_NewString_def s1_def)
  have len: "length (zip (ids_from (gsUUID s) (gsDrawn s) (length (y # syms))) (y # syms)) = Suc (length syms)"
    by simp
  have ids: "ids_from (gsUUID s) (gsDrawn s) (length (y # syms))
      = gsUUID s (gsDrawn s) # ids_from (gsUUID s1) (gsDrawn s1) (length syms)"
    by (simp add: s1_def upt_conv_Cons del: upt_Suc)
  show ?case
    unfolding fold_simps step Cons.IH ids zip_Cons_Cons Let_def
    by (simp add: grow_def s1_def append_at_Cons)
qed

definition with_rows :: "string \<Rightarrow> row list \<Rightarrow> GraphStore \<Rightarrow> GraphStore" where
  "with_rows r rows s = s\<lparr>gsFiles := gsFiles s ++ map_of (rev (file_entries r rows)),
       gsSymbols := gsSymbols s ++ map_of (rev (sym_entries r rows)),
       gsImports := gsImports s @ import_entries rows,
       gsRepoFiles := append_at r (map fst rows) (gsRepoFiles s),
       gsRepoSymbols := append_at r (map fst (sym_rows rows)) (gsRepoSymbols s),
       gsFileSymbols := fold (\<lambda>(i, fr, ys). append_at i (map fst ys)) rows (gsFileSymbols s),
       gsDrawn := gsDrawn s + length (row_ids rows)\<rparr>"

lemma insert_file_row:
  "insert_file r fr (m, s) =
     (let rows = number_rows (gsUUID s) (gsDrawn s) [fr]
      in (m ++ map_of (rev (id_entries rows)), with_rows r rows s))"
  by (cases s) (simp add: insert_file_def graph_NewString_def fold_insert_symbol Let_def with_rows_def grow_def
      id_entries_def sym_entries_def import_entries_def append_at_Cons comp_def case_prod_beta' file_entries_def
      rev_map [symmetric] del: upt_Suc)

lemma rows_append:
  "row_ids (xs @ ys) = row_ids xs @ row_ids ys" "sym_rows (xs @ ys) = sym_rows xs @ sym_rows ys"
  "file_entries r (xs @ ys) = file_entries r xs @ file_entries r ys"
  "sym_entries r (xs @ ys) = sym_entries r xs @ sym_entries r ys"
  "id_entries (xs @ ys) = id_entries xs @ id_entries ys"
  "import_entries (xs @ ys) = import_entries xs @ import_entries ys"
  by (simp_all add: row_ids_def sym_rows_def file_entries_def sym_entries_def id_entries_def import_entries_def)

lemma with_rows_append: "with_rows r ys (with_rows r xs s) = with_rows r (xs @ ys) s"
  by (simp add: with_rows_def rows_append)

lemma with_rows_sel [simp]:
  "gsUUID (with_rows r rows s) = gsUUID s"
  "gsDrawn (with_rows r rows s) = gsDrawn s + length (row_ids rows)"
  by (simp_all add: with_rows_def)

lemma fold_insert_file:
  "fold (insert_file r) frs (m, s) =
     (let rows = number_rows (gsUUID s) (gsDrawn s) frs
      in (m ++ map_of (rev (id_entries rows)), with_rows r rows s))"
proof (induction frs arbitrary: m s)
  case Nil
  then show ?case
    by (simp add: with_rows_def id_entries_def sym_entries_def import_entries_def file_entries_def)
next
  case (Cons fr frs)
  let ?one = "number_rows (gsUUID s) (gsDrawn s) [fr]"
  have n: "gsDrawn (with_rows r ?one s) = Suc (gsDrawn s) + length (frSymbols fr)" by (simp del: upt_Suc)
  have rows: "number_rows (gsUUID s) (gsDrawn s) (fr # frs)
      = ?one @ number_rows (gsUUID s) (gsDrawn (with_rows r ?one s)) frs"
    unfolding n by (simp del: upt_Suc)
  show ?case
    unfolding fold_simps insert_file_row Let_def Cons.IH with_rows_append rows
    by (simp only: with_rows_sel rows_append rev_append map_of_append map_add_assoc)
qed

text \<open>The ids of the rows are drawn one after the other.\<close>

lemma row_ids_number:
  "row_ids (number_rows u n frs) = ids_from u n (length (row_ids (number_rows u n frs)))"
proof (induction frs arbitrary: n)
  case (Cons fr frs)
  let ?k = "length (frSymbols fr)"
  let ?rest = "number_rows u (Suc n + ?k) frs"
  have "row_ids (number_rows u n (fr # frs)) = u n # ids_from u (Suc n) ?k @ row_ids ?rest" by (simp del: upt_Suc)
  also have "\<dots> = u n # ids_from u (Suc n) ?k @ ids_from u (Suc n + ?k) (length (row_ids ?rest))"
    using Cons.IH by metis
  also have "\<dots> = u n # map u ([Suc n..<Suc n + ?k] @ [Suc n + ?k..<Suc n + ?k + length (row_ids ?rest)])"
    by (simp del: upt_Suc)
  also have "\<dots> = u n # map u [Suc n..<Suc n + (?k + length (row_ids ?rest))]"
    by (simp only: upt_add_eq_append [of "Suc n" "Suc n + ?k", symmetric] le_add1 add.assoc [symmetric])
  also have "\<dots> = ids_from u n (Suc (?k + length (row_ids ?rest)))"
    by (simp add: upt_conv_Cons del: upt_Suc)
  finally show ?case by (simp del: upt_Suc)
qed simp

lemma fst_number_rows [simp]: "map (fst \<circ> snd) (number_rows u n frs) = frs"
  by (induction frs arbitrary: n) auto

lemma number_rows_symbols: "(i, fr, ys) \<in> set (number_rows u n frs) \<Longrightarrow> map snd ys = frSymbols fr"
  by (induction frs arbitrary: n) (auto simp del: upt_Suc)

end
