(* ===== verification/Graph_Wf.thy ===== *)
theory Graph_Wf
  imports Graph_Rows
begin

text \<open>
  The invariant of the code graph, and what dropping symbols, files and whole repositories from it
  does.
\<close>

section \<open>The invariant of the graph\<close>

abbreviation callees :: "GraphStore \<Rightarrow> string \<Rightarrow> string list" where
  "callees s a \<equiv> slice_at (gsCallGraph s) a"

abbreviation callers :: "GraphStore \<Rightarrow> string \<Rightarrow> string list" where
  "callers s a \<equiv> slice_at (gsReverseCallGraph s) a"

text \<open>The reverse call graph is the call graph read backwards, edge for edge.\<close>

definition mirrored :: "GraphStore \<Rightarrow> bool" where
  "mirrored s \<longleftrightarrow> (\<forall>a b. count_list (callees s a) b = count_list (callers s b) a)"

definition same_repo :: "GraphStore \<Rightarrow> string \<Rightarrow> string \<Rightarrow> bool" where
  "same_repo s a b \<longleftrightarrow> (\<exists>x y. gsSymbols s a = Some x \<and> gsSymbols s b = Some y \<and> ssRepoID x = ssRepoID y)"

text \<open>
  Rows and indexes agree; every row carries its id; a symbol is listed under a file of its own
  repository, and carries its path; a call edge joins two symbols of one repository.
\<close>

definition rows_ok :: "string set \<Rightarrow> GraphStore \<Rightarrow> bool" where
  "rows_ok R s \<longleftrightarrow>
     indexed (gsFiles s) (gsRepoFiles s) gfRepoID
     \<and> indexed (gsSymbols s) (gsRepoSymbols s) ssRepoID
     \<and> indexed (gsSymbols s) (gsFileSymbols s) ssFileID
     \<and> indexed (gsModules s) (gsRepoModules s) smRepoID
     \<and> (\<forall>i f. gsFiles s i = Some f \<longrightarrow> gfID f = i \<and> gfRepoID f \<in> R)
     \<and> (\<forall>i y. gsSymbols s i = Some y \<longrightarrow> ssID y = i
          \<and> (\<exists>f. gsFiles s (ssFileID y) = Some f \<and> gfRepoID f = ssRepoID y \<and> gfPath f = ssFilePath y))
     \<and> (\<forall>i m. gsModules s i = Some m \<longrightarrow> smID m = i \<and> smRepoID m \<in> R)
     \<and> (\<forall>a b. b \<in> set (callees s a) \<longrightarrow> same_repo s a b)
     \<and> mirrored s"

definition uuid_ok :: "GraphStore \<Rightarrow> bool" where
  "uuid_ok s \<longleftrightarrow> inj (gsUUID s) \<and> (\<forall>n. gsUUID s n \<noteq> [])"

definition drawn :: "GraphStore \<Rightarrow> string set" where
  "drawn s = gsUUID s ` {..<gsDrawn s}"

definition graph_wf :: "GraphStore \<Rightarrow> bool" where
  "graph_wf s \<longleftrightarrow> rows_ok (dom (gsRepos s)) s \<and> uuid_ok s
     \<and> (\<forall>i r. gsRepos s i = Some r \<longrightarrow> grID r = i)
     \<and> dom (gsRepos s) \<union> dom (gsFiles s) \<union> dom (gsSymbols s) \<union> dom (gsModules s) \<subseteq> drawn s"

lemma rows_okD:
  assumes "rows_ok R s"
  shows "indexed (gsFiles s) (gsRepoFiles s) gfRepoID" "indexed (gsSymbols s) (gsRepoSymbols s) ssRepoID"
    "indexed (gsSymbols s) (gsFileSymbols s) ssFileID" "indexed (gsModules s) (gsRepoModules s) smRepoID" "mirrored s"
  using assms by (simp_all add: rows_ok_def)

lemma rows_ok_file: "rows_ok R s \<Longrightarrow> gsFiles s i = Some f \<Longrightarrow> gfID f = i \<and> gfRepoID f \<in> R"
  by (simp add: rows_ok_def)

lemma rows_ok_symbol:
  "rows_ok R s \<Longrightarrow> gsSymbols s i = Some y \<Longrightarrow> ssID y = i
     \<and> (\<exists>f. gsFiles s (ssFileID y) = Some f \<and> gfRepoID f = ssRepoID y \<and> gfPath f = ssFilePath y)"
  by (simp add: rows_ok_def)

lemma rows_ok_call: "rows_ok R s \<Longrightarrow> b \<in> set (callees s a) \<Longrightarrow> same_repo s a b"
  by (simp add: rows_ok_def)

lemma mirrored_set: "mirrored s \<Longrightarrow> b \<in> set (callees s a) \<longleftrightarrow> a \<in> set (callers s b)"
  by (metis count_list_0_iff mirrored_def)

lemma count_list_filter: "count_list (filter P xs) x = (if P x then count_list xs x else 0)"
  by (induction xs) auto

section \<open>Dropping symbols and files\<close>

text \<open>
  \<open>s'\<close> is \<open>s\<close> without the symbols \<open>D\<close> and the files \<open>F\<close>, as far as rows, indexes and call edges go.
\<close>

definition dropped :: "string set \<Rightarrow> string set \<Rightarrow> GraphStore \<Rightarrow> GraphStore \<Rightarrow> bool" where
  "dropped D F s s' \<longleftrightarrow>
     gsSymbols s' = gsSymbols s |` (- D) \<and> gsFiles s' = gsFiles s |` (- F)
     \<and> (\<forall>a. callees s' a = (if a \<in> D then [] else filter (\<lambda>b. b \<notin> D) (callees s a)))
     \<and> (\<forall>a. callers s' a = (if a \<in> D then [] else filter (\<lambda>b. b \<notin> D) (callers s a)))
     \<and> (\<forall>k. slice_at (gsRepoSymbols s') k = filter (\<lambda>i. i \<notin> D) (slice_at (gsRepoSymbols s) k))
     \<and> (\<forall>k. slice_at (gsFileSymbols s') k = filter (\<lambda>i. i \<notin> D) (slice_at (gsFileSymbols s) k))
     \<and> (\<forall>k. slice_at (gsRepoFiles s') k = filter (\<lambda>i. i \<notin> F) (slice_at (gsRepoFiles s) k))"

lemma filter_both: "filter P (filter Q xs) = filter (\<lambda>x. Q x \<and> P x) xs"
  by simp

lemma dropped_refl: "dropped {} {} s s"
  by (simp add: dropped_def restrict_map_def)

lemma dropped_trans:
  assumes "dropped D F s s'" and "dropped D' F' s' s''"
  shows "dropped (D \<union> D') (F \<union> F') s s''"
  using assms by (auto simp: dropped_def restrict_map_def fun_eq_iff intro!: filter_cong)

lemma dropped_mirrored:
  assumes "mirrored s" and "dropped D F s s'"
  shows "mirrored s'"
  using assms by (auto simp: mirrored_def dropped_def count_list_filter)

lemma rows_ok_dropped:
  assumes ok: "rows_ok R s" and d: "dropped D F s s'"
    and orphan: "\<And>i y. gsSymbols s i = Some y \<Longrightarrow> ssFileID y \<in> F \<Longrightarrow> i \<in> D"
    and mods: "gsModules s' = gsModules s" "gsRepoModules s' = gsRepoModules s"
  shows "rows_ok R s'"
proof -
  have "indexed (gsFiles s') (gsRepoFiles s') gfRepoID"
    and "indexed (gsSymbols s') (gsRepoSymbols s') ssRepoID"
    and "indexed (gsSymbols s') (gsFileSymbols s') ssFileID"
    using ok d by (auto simp: rows_ok_def dropped_def intro!: indexed_restrict)
  moreover have "mirrored s'" using ok d dropped_mirrored by (auto simp: rows_ok_def)
  moreover have "same_repo s' a b" if "b \<in> set (callees s' a)" for a b
    using ok d that by (auto simp: rows_ok_def dropped_def same_repo_def split: if_splits)
  moreover have "ssID y = i \<and> (\<exists>f. gsFiles s' (ssFileID y) = Some f \<and> gfRepoID f = ssRepoID y \<and> gfPath f = ssFilePath y)"
    if "gsSymbols s' i = Some y" for i y
  proof -
    have "gsSymbols s i = Some y" "i \<notin> D" using that d by (auto simp: dropped_def restrict_map_def split: if_splits)
    then show ?thesis using ok d orphan [of i y] by (auto simp: rows_ok_def dropped_def restrict_map_def)
  qed
  ultimately show ?thesis
    using ok d mods unfolding rows_ok_def by (auto simp: dropped_def restrict_map_def split: if_splits)
qed

text \<open>The edges of one symbol.\<close>

lemma fold_pull_reverse:
  "fold (\<lambda>b s. s\<lparr>gsReverseCallGraph := pull_at b x (gsReverseCallGraph s)\<rparr>) bs s
     = s\<lparr>gsReverseCallGraph := fold (\<lambda>b. pull_at b x) bs (gsReverseCallGraph s)\<rparr>"
  by (induction bs arbitrary: s) simp_all

lemma fold_pull_calls:
  "fold (\<lambda>b s. s\<lparr>gsCallGraph := pull_at b x (gsCallGraph s)\<rparr>) bs s
     = s\<lparr>gsCallGraph := fold (\<lambda>b. pull_at b x) bs (gsCallGraph s)\<rparr>"
  by (induction bs arbitrary: s) simp_all

lemma slice_at_fold_pull:
  "slice_at (fold (\<lambda>b. pull_at b x) bs m) k
     = (if k \<in> set bs then filter (\<lambda>v. v \<noteq> x) (slice_at m k) else slice_at m k)"
  by (induction bs arbitrary: m) auto

lemma drop_calls_effect:
  assumes "mirrored s"
  shows "\<exists>g r. drop_calls x s = s\<lparr>gsCallGraph := g, gsReverseCallGraph := r\<rparr>
    \<and> (\<forall>a. slice_at g a = (if a = x then [] else filter (\<lambda>b. b \<noteq> x) (callees s a)))
    \<and> (\<forall>a. slice_at r a = (if a = x then [] else filter (\<lambda>b. b \<noteq> x) (callers s a)))"
proof -
  define r1 where "r1 = fold (\<lambda>b. pull_at b x) (callees s x) (gsReverseCallGraph s)"
  have r1: "slice_at r1 b = filter (\<lambda>v. v \<noteq> x) (callers s b)" for b
  proof (cases "b \<in> set (callees s x)")
    case False
    then have "x \<notin> set (callers s b)" using mirrored_set [OF assms] by blast
    then have "filter (\<lambda>v. v \<noteq> x) (callers s b) = callers s b" by (auto intro: filter_True)
    then show ?thesis using False by (simp add: r1_def slice_at_fold_pull)
  qed (simp add: r1_def slice_at_fold_pull)
  define g where "g = fold (\<lambda>b. pull_at b x) (slice_at r1 x) ((gsCallGraph s)(x := None))"
  have g: "slice_at g a = (if a = x then [] else filter (\<lambda>b. b \<noteq> x) (callees s a))" for a
  proof (cases "a = x \<or> a \<in> set (callers s x)")
    case True
    then show ?thesis using r1 by (auto simp: g_def slice_at_fold_pull)
  next
    case False
    then have "x \<notin> set (callees s a)" using mirrored_set [OF assms] by blast
    then have "filter (\<lambda>v. v \<noteq> x) (callees s a) = callees s a" by (auto intro: filter_True)
    then show ?thesis using False r1 by (auto simp: g_def slice_at_fold_pull)
  qed
  have "drop_calls x s = s\<lparr>gsCallGraph := g, gsReverseCallGraph := r1(x := None)\<rparr>"
    by (simp add: drop_calls_def Let_def fold_pull_reverse fold_pull_calls g_def r1_def)
  then show ?thesis using g r1 by (intro exI [of _ g] exI [of _ "r1(x := None)"]) simp
qed

lemma restrict_delete: "m(k := None) |` (- D) = m |` (- insert k D)"
  by (auto simp: restrict_map_def fun_eq_iff)

lemma fold_drop_symbol:
  assumes "mirrored s"
  shows "\<exists>g r. fold drop_symbol xs s = s\<lparr>gsSymbols := gsSymbols s |` (- set xs), gsCallGraph := g, gsReverseCallGraph := r\<rparr>
    \<and> (\<forall>a. slice_at g a = (if a \<in> set xs then [] else filter (\<lambda>b. b \<notin> set xs) (callees s a)))
    \<and> (\<forall>a. slice_at r a = (if a \<in> set xs then [] else filter (\<lambda>b. b \<notin> set xs) (callers s a)))"
  using assms
proof (induction xs arbitrary: s)
  case Nil
  then show ?case by (intro exI [of _ "gsCallGraph s"] exI [of _ "gsReverseCallGraph s"]) (simp add: restrict_map_def)
next
  case (Cons x xs)
  obtain g r where e: "drop_calls x s = s\<lparr>gsCallGraph := g, gsReverseCallGraph := r\<rparr>"
    and g: "\<forall>a. slice_at g a = (if a = x then [] else filter (\<lambda>b. b \<noteq> x) (callees s a))"
    and r: "\<forall>a. slice_at r a = (if a = x then [] else filter (\<lambda>b. b \<noteq> x) (callers s a))"
    using drop_calls_effect [OF Cons.prems] by blast
  define s1 where "s1 = drop_symbol x s"
  have s1: "s1 = s\<lparr>gsSymbols := (gsSymbols s)(x := None), gsCallGraph := g, gsReverseCallGraph := r\<rparr>"
    by (simp add: s1_def drop_symbol_def e)
  have "mirrored s1" using Cons.prems g r by (simp add: mirrored_def s1 count_list_filter)
  then obtain g' r' where e': "fold drop_symbol xs s1 = s1\<lparr>gsSymbols := gsSymbols s1 |` (- set xs), gsCallGraph := g', gsReverseCallGraph := r'\<rparr>"
    and g': "\<forall>a. slice_at g' a = (if a \<in> set xs then [] else filter (\<lambda>b. b \<notin> set xs) (callees s1 a))"
    and r': "\<forall>a. slice_at r' a = (if a \<in> set xs then [] else filter (\<lambda>b. b \<notin> set xs) (callers s1 a))"
    using Cons.IH by blast
  have m: "((gsSymbols s)(x := None)) |` (- set xs) = gsSymbols s |` (- set (x # xs))"
    by (auto simp: restrict_map_def fun_eq_iff)
  have "fold drop_symbol (x # xs) s = fold drop_symbol xs s1" by (simp add: s1_def)
  also have "\<dots> = s\<lparr>gsSymbols := gsSymbols s |` (- set (x # xs)), gsCallGraph := g', gsReverseCallGraph := r'\<rparr>"
    unfolding e' using m by (simp add: s1)
  finally show ?case
    using g r g' r' by (intro exI [of _ g'] exI [of _ r']) (auto simp: s1 conj_commute)
qed

lemma fold_on_modules:
  "fold (\<lambda>i s. s\<lparr>gsModules := u i (gsModules s)\<rparr>) is s = s\<lparr>gsModules := fold u is (gsModules s)\<rparr>"
  by (induction "is" arbitrary: s) simp_all

lemma fold_on_files:
  "fold (\<lambda>i s. s\<lparr>gsFiles := u i (gsFiles s), gsFileSymbols := v i (gsFileSymbols s)\<rparr>) is s
     = s\<lparr>gsFiles := fold u is (gsFiles s), gsFileSymbols := fold v is (gsFileSymbols s)\<rparr>"
  by (induction "is" arbitrary: s) simp_all

lemmas fold_drop_modules = fold_on_modules [where u = "\<lambda>i m. m(i := None)", unfolded fold_delete]
lemmas fold_drop_files =
  fold_on_files [where u = "\<lambda>i m. m(i := None)" and v = "\<lambda>i m. m(i := None)", unfolded fold_delete]

text \<open>All rows of one repository: what \<^verbatim>\<open>ReplaceIndexResult\<close> and \<^verbatim>\<open>RemoveRepository\<close> begin with.\<close>

lemma drop_index_rows_effect:
  assumes ok: "rows_ok R s"
  shows "\<exists>g r s1. dropped (set (slice_at (gsRepoSymbols s) k)) (set (slice_at (gsRepoFiles s) k)) s s1
    \<and> s1 = s\<lparr>gsSymbols := gsSymbols s1, gsFiles := gsFiles s1, gsCallGraph := g, gsReverseCallGraph := r,
             gsRepoSymbols := (gsRepoSymbols s)(k := None), gsFileSymbols := gsFileSymbols s1,
             gsRepoFiles := (gsRepoFiles s)(k := None)\<rparr>
    \<and> drop_index_rows k s = s1\<lparr>gsModules := gsModules s |` (- set (slice_at (gsRepoModules s) k)),
                             gsRepoModules := (gsRepoModules s)(k := None)\<rparr>"
proof -
  let ?D = "set (slice_at (gsRepoSymbols s) k)"
  let ?F = "set (slice_at (gsRepoFiles s) k)"
  have m: "mirrored s" using ok by (simp add: rows_ok_def)
  obtain g r where e: "fold drop_symbol (slice_at (gsRepoSymbols s) k) s
      = s\<lparr>gsSymbols := gsSymbols s |` (- ?D), gsCallGraph := g, gsReverseCallGraph := r\<rparr>"
    and g: "\<forall>a. slice_at g a = (if a \<in> ?D then [] else filter (\<lambda>b. b \<notin> ?D) (callees s a))"
    and r: "\<forall>a. slice_at r a = (if a \<in> ?D then [] else filter (\<lambda>b. b \<notin> ?D) (callers s a))"
    using fold_drop_symbol [OF m] by blast
  define s1 where "s1 = s\<lparr>gsSymbols := gsSymbols s |` (- ?D), gsFiles := gsFiles s |` (- ?F), gsCallGraph := g,
      gsReverseCallGraph := r, gsRepoSymbols := (gsRepoSymbols s)(k := None),
      gsFileSymbols := gsFileSymbols s |` (- ?F), gsRepoFiles := (gsRepoFiles s)(k := None)\<rparr>"
  have run: "drop_index_rows k s = s1\<lparr>gsModules := gsModules s |` (- set (slice_at (gsRepoModules s) k)),
      gsRepoModules := (gsRepoModules s)(k := None)\<rparr>"
    by (simp add: drop_index_rows_def e fold_drop_files fold_drop_modules Let_def s1_def)
  have sy: "indexed (gsSymbols s) (gsRepoSymbols s) ssRepoID" "indexed (gsSymbols s) (gsFileSymbols s) ssFileID"
    and fi: "indexed (gsFiles s) (gsRepoFiles s) gfRepoID"
    and own: "\<And>i y. gsSymbols s i = Some y \<Longrightarrow> \<exists>f. gsFiles s (ssFileID y) = Some f \<and> gfRepoID f = ssRepoID y"
    using ok unfolding rows_ok_def by blast+
  have a: "filter (\<lambda>i. i \<notin> ?D) (slice_at (gsRepoSymbols s) k') = (if k' = k then [] else slice_at (gsRepoSymbols s) k')" for k'
    using sy(1) by (auto simp: indexed_def intro!: filter_True)
  have b: "filter (\<lambda>i. i \<notin> ?F) (slice_at (gsRepoFiles s) k') = (if k' = k then [] else slice_at (gsRepoFiles s) k')" for k'
    using fi by (auto simp: indexed_def intro!: filter_True)
  have c: "filter (\<lambda>i. i \<notin> ?D) (slice_at (gsFileSymbols s) f) = (if f \<in> ?F then [] else slice_at (gsFileSymbols s) f)" for f
  proof -
    have "i \<in> ?D \<longleftrightarrow> f \<in> ?F" if "i \<in> set (slice_at (gsFileSymbols s) f)" for i
      using that own by (fastforce simp: indexed_iff [OF sy(1)] indexed_iff [OF sy(2)] indexed_iff [OF fi])
    then show ?thesis by (auto intro!: filter_True)
  qed
  have "dropped ?D ?F s s1"
    unfolding dropped_def using g r a b c by (simp add: s1_def)
  with run show ?thesis
    by (intro exI [of _ g] exI [of _ r] exI [of _ s1]) (simp add: s1_def)
qed

lemma rows_ok_drop_index_rows:
  assumes ok: "rows_ok R s"
  shows "rows_ok R (drop_index_rows k s)"
proof -
  obtain g r s1 where d: "dropped (set (slice_at (gsRepoSymbols s) k)) (set (slice_at (gsRepoFiles s) k)) s s1"
    and s1: "s1 = s\<lparr>gsSymbols := gsSymbols s1, gsFiles := gsFiles s1, gsCallGraph := g, gsReverseCallGraph := r,
             gsRepoSymbols := (gsRepoSymbols s)(k := None), gsFileSymbols := gsFileSymbols s1,
             gsRepoFiles := (gsRepoFiles s)(k := None)\<rparr>"
    and run: "drop_index_rows k s = s1\<lparr>gsModules := gsModules s |` (- set (slice_at (gsRepoModules s) k)),
                             gsRepoModules := (gsRepoModules s)(k := None)\<rparr>"
    using drop_index_rows_effect [OF ok, of k] by blast
  have "gsModules s1 = gsModules s" "gsRepoModules s1 = gsRepoModules s"
    by (subst s1, simp)+
  then have "rows_ok R s1"
    using rows_ok_dropped [OF ok d] ok by (fastforce simp: rows_ok_def indexed_def)
  moreover have "indexed (gsModules s |` (- set (slice_at (gsRepoModules s) k))) ((gsRepoModules s)(k := None)) smRepoID"
    using ok indexed_drop_owner by (auto simp: rows_ok_def)
  ultimately show ?thesis
    using ok unfolding run rows_ok_def mirrored_def same_repo_def
    by (auto simp: restrict_map_def split: if_splits)
qed

end
