(* ===== verification/Graph_Insert.thy ===== *)
theory Graph_Insert
  imports Graph_Wf
begin

text \<open>
  What inserting the rows, relations and modules of a result does to the invariant, and what dropping
  the rows of a file leaves alone; storing a result keeps the store well formed.
\<close>

text \<open>Symbols carry the path of the file they are listed under, as the parser sets it.\<close>

definition paths_agree :: "FileResult list \<Rightarrow> bool" where
  "paths_agree frs \<longleftrightarrow> (\<forall>fr\<in>set frs. \<forall>y\<in>set (frSymbols fr). syFilePath y = frPath fr)"

lemma map_of_symbols:
  "map_of (rev (map (\<lambda>(j, y). (j, stored_symbol r i j y)) ys)) j = Some v
     \<Longrightarrow> \<exists>y. (j, y) \<in> set ys \<and> v = stored_symbol r i j y"
  by (drule map_of_SomeD) auto

lemma stored_sel [simp]:
  "gfID (stored_file r i fr) = i" "gfRepoID (stored_file r i fr) = r" "gfPath (stored_file r i fr) = frPath fr"
  "ssID (stored_symbol r i j y) = j" "ssRepoID (stored_symbol r i j y) = r" "ssFileID (stored_symbol r i j y) = i"
  "ssFilePath (stored_symbol r i j y) = syFilePath y"
  by (simp_all add: stored_file_def stored_symbol_def)

lemma with_row_eq:
  "with_rows r [(i, fr, ys)] s = s\<lparr>gsFiles := (gsFiles s)(i \<mapsto> stored_file r i fr),
     gsSymbols := gsSymbols s ++ map_of (rev (map (\<lambda>(j, y). (j, stored_symbol r i j y)) ys)),
     gsImports := gsImports s @ import_entries [(i, fr, ys)],
     gsRepoFiles := push_at r i (gsRepoFiles s),
     gsRepoSymbols := append_at r (map fst ys) (gsRepoSymbols s),
     gsFileSymbols := append_at i (map fst ys) (gsFileSymbols s),
     gsDrawn := gsDrawn s + Suc (length ys)\<rparr>"
  by (simp add: with_rows_def sym_entries_def append_at_Cons comp_def case_prod_beta')

lemma rows_ok_with_row:
  assumes ok: "rows_ok R s" and r: "r \<in> R" and i: "gsFiles s i = None"
    and js: "distinct (map fst ys)" "set (map fst ys) \<inter> dom (gsSymbols s) = {}"
    and path: "\<forall>y\<in>set (map snd ys). syFilePath y = frPath fr"
  shows "rows_ok R (with_rows r [(i, fr, ys)] s)"
proof -
  define new where "new = map_of (rev (map (\<lambda>(j, y). (j, stored_symbol r i j y)) ys))"
  define s' where "s' = with_rows r [(i, fr, ys)] s"
  have sel: "gsFiles s' = (gsFiles s)(i \<mapsto> stored_file r i fr)" "gsSymbols s' = gsSymbols s ++ new"
    "gsRepoFiles s' = push_at r i (gsRepoFiles s)" "gsRepoSymbols s' = append_at r (map fst ys) (gsRepoSymbols s)"
    "gsFileSymbols s' = append_at i (map fst ys) (gsFileSymbols s)" "gsModules s' = gsModules s"
    "gsRepoModules s' = gsRepoModules s" "gsCallGraph s' = gsCallGraph s" "gsReverseCallGraph s' = gsReverseCallGraph s"
    by (simp_all add: s'_def with_row_eq new_def)
  have new: "\<exists>y. (j, y) \<in> set ys \<and> v = stored_symbol r i j y" if "new j = Some v" for j v
    using map_of_symbols that unfolding new_def by blast
  have dom: "dom new = set (map fst ys)" by (force simp: new_def dom_map_of_conv_image_fst)
  have fresh: "new j = None" if "gsSymbols s j = Some v" for j v using that js(2) dom by blast
  have keep: "gsSymbols s' j = Some v" if "gsSymbols s j = Some v" for j v
    using that fresh [OF that] by (simp add: sel map_add_def)
  have "indexed (gsFiles s') (gsRepoFiles s') gfRepoID"
    using indexed_push [of "gsFiles s" "gsRepoFiles s" gfRepoID i "stored_file r i fr"] ok i by (simp add: sel rows_ok_def)
  moreover have "indexed (gsSymbols s') (gsRepoSymbols s') ssRepoID" "indexed (gsSymbols s') (gsFileSymbols s') ssFileID"
    unfolding sel by (rule indexed_append; use ok js dom new in \<open>fastforce simp: rows_ok_def\<close>)+
  moreover have "ssID y = j \<and> (\<exists>f. gsFiles s' (ssFileID y) = Some f \<and> gfRepoID f = ssRepoID y \<and> gfPath f = ssFilePath y)"
    if y: "gsSymbols s' j = Some y" for j y
  proof (cases "new j")
    case None
    then have "gsSymbols s j = Some y" using y by (simp add: sel map_add_def)
    then have "ssID y = j \<and> (\<exists>f. gsFiles s (ssFileID y) = Some f \<and> gfRepoID f = ssRepoID y \<and> gfPath f = ssFilePath y)"
      using ok by (simp add: rows_ok_def)
    then show ?thesis using i by (auto simp: sel)
  next
    case (Some v)
    then obtain z where "(j, z) \<in> set ys" "y = stored_symbol r i j z" using new y by (auto simp: sel map_add_def)
    then show ?thesis using path by (force simp: sel)
  qed
  moreover have "same_repo s' a b" if "b \<in> set (callees s' a)" for a b
    using ok that keep unfolding rows_ok_def same_repo_def sel by blast
  ultimately show ?thesis
    using ok r unfolding s'_def [symmetric] rows_ok_def mirrored_def sel by auto
qed

lemma rows_ok_with_rows:
  assumes "rows_ok R s" and "r \<in> R" and "distinct (row_ids rows)"
    and "set (row_ids rows) \<inter> (dom (gsFiles s) \<union> dom (gsSymbols s)) = {}"
    and "\<forall>(i, fr, ys)\<in>set rows. \<forall>y\<in>set (map snd ys). syFilePath y = frPath fr"
  shows "rows_ok R (with_rows r rows s)"
  using assms
proof (induction rows arbitrary: s)
  case Nil
  then show ?case by (simp add: with_rows_def sym_entries_def)
next
  case (Cons row rows)
  obtain i fr ys where row: "row = (i, fr, ys)" by (cases row)
  let ?s = "with_rows r [(i, fr, ys)] s"
  have "rows_ok R ?s" using Cons.prems by (intro rows_ok_with_row) (auto simp: row)
  moreover have "dom (gsFiles ?s) \<union> dom (gsSymbols ?s) \<subseteq> dom (gsFiles s) \<union> dom (gsSymbols s) \<union> {i} \<union> set (map fst ys)"
    by (force simp: with_row_eq dest!: map_of_SomeD)
  moreover have "i \<notin> set (row_ids rows)" "set (map fst ys) \<inter> set (row_ids rows) = {}"
      "set (row_ids rows) \<inter> (dom (gsFiles s) \<union> dom (gsSymbols s)) = {}"
    using Cons.prems(3,4) by (auto simp: row)
  ultimately have "set (row_ids rows) \<inter> (dom (gsFiles ?s) \<union> dom (gsSymbols ?s)) = {}" by blast
  with \<open>rows_ok R ?s\<close> have "rows_ok R (with_rows r rows ?s)"
    using Cons.prems by (intro Cons.IH) (auto simp: row)
  then show ?case by (simp add: with_rows_append row)
qed

section \<open>Relations and modules\<close>

lemma rows_ok_add_call:
  assumes "rows_ok R s" and "same_repo s a b"
  shows "rows_ok R (add_call a b s)"
proof -
  have "mirrored (add_call a b s)" using assms(1) by (simp add: rows_ok_def mirrored_def add_call_def)
  moreover have "same_repo (add_call a b s) = same_repo s" by (simp add: same_repo_def add_call_def fun_eq_iff)
  ultimately show ?thesis
    using assms by (auto simp: rows_ok_def add_call_def split: if_splits)
qed

lemma same_repo_of:
  "gsSymbols s a = Some x \<Longrightarrow> gsSymbols s b = Some y \<Longrightarrow> ssRepoID x = r \<Longrightarrow> ssRepoID y = r \<Longrightarrow> same_repo s a b"
  by (auto simp: same_repo_def)

lemma rows_ok_tested: "rows_ok R (s\<lparr>gsTestedBy := t\<rparr>) = rows_ok R s"
  by (simp add: rows_ok_def mirrored_def same_repo_def)

lemma rows_ok_insert_relations:
  assumes "rows_ok R s" and "\<forall>i j. idMap i = Some j \<longrightarrow> (\<exists>y. gsSymbols s j = Some y \<and> ssRepoID y = r)"
  shows "rows_ok R (fold (insert_relation idMap) rels s)
    \<and> gsSymbols (fold (insert_relation idMap) rels s) = gsSymbols s"
  using assms
proof (induction rels arbitrary: s)
  case (Cons rel rels)
  have at: "\<exists>y. gsSymbols s (id_at idMap i) = Some y \<and> ssRepoID y = r" if "id_at idMap i \<noteq> []" for i
    using that Cons.prems(2) by (auto simp: id_at_def split: option.splits)
  have "rows_ok R (insert_relation idMap rel s)"
    using Cons.prems(1) at [of "rlSourceID rel"] at [of "rlTargetID rel"]
    by (auto simp: insert_relation_def Let_def rows_ok_tested intro!: rows_ok_add_call intro: same_repo_of)
  moreover have "gsSymbols (insert_relation idMap rel s) = gsSymbols s"
    by (simp add: insert_relation_def Let_def add_call_def)
  ultimately show ?case using Cons.IH [of "insert_relation idMap rel s"] Cons.prems(2) by simp
qed simp

definition module_rows :: "string \<Rightarrow> (string \<times> Module) list \<Rightarrow> (string \<times> StoredModule) list" where
  "module_rows r ms = map (\<lambda>(i, m). (i, \<lparr>smID = i, smRepoID = r, smName = mdName m, smPath = mdPath m,
     smFileCount = mdFileCount m\<rparr>)) ms"

lemma fold_insert_module:
  "fold (insert_module r) mods s =
     (let ms = zip (ids_from (gsUUID s) (gsDrawn s) (length mods)) mods
      in s\<lparr>gsModules := gsModules s ++ map_of (rev (module_rows r ms)),
           gsRepoModules := append_at r (map fst ms) (gsRepoModules s),
           gsDrawn := gsDrawn s + length mods\<rparr>)"
proof (induction mods arbitrary: s)
  case Nil
  then show ?case by (simp add: module_rows_def)
next
  case (Cons m mods)
  define s1 where "s1 = insert_module r m s"
  have ids: "ids_from (gsUUID s) (gsDrawn s) (length (m # mods))
      = gsUUID s (gsDrawn s) # ids_from (gsUUID s1) (gsDrawn s1) (length mods)"
    by (simp add: s1_def insert_module_def graph_NewString_def upt_conv_Cons del: upt_Suc)
  show ?case
    unfolding fold_simps s1_def [symmetric] Cons.IH ids zip_Cons_Cons Let_def
    by (simp add: s1_def insert_module_def graph_NewString_def append_at_Cons module_rows_def Let_def)
qed

lemma rows_ok_insert_modules:
  assumes ok: "rows_ok R s" and r: "r \<in> R" and u: "uuid_ok s" and d: "dom (gsModules s) \<subseteq> drawn s"
  shows "rows_ok R (fold (insert_module r) mods s)"
proof -
  define ids where "ids = ids_from (gsUUID s) (gsDrawn s) (length mods)"
  define new where "new = map_of (rev (module_rows r (zip ids mods)))"
  have len: "length ids = length mods" by (simp add: ids_def)
  have run: "fold (insert_module r) mods s = s\<lparr>gsModules := gsModules s ++ new,
      gsRepoModules := append_at r ids (gsRepoModules s), gsDrawn := gsDrawn s + length mods\<rparr>"
    by (simp add: fold_insert_module Let_def new_def ids_def)
  have fst: "map fst (module_rows r (zip ids mods)) = ids"
    using len by (simp add: module_rows_def comp_def case_prod_beta')
  have new: "smID m = i \<and> smRepoID m = r" if "new i = Some m" for i m
    using map_of_SomeD [OF that [unfolded new_def]] by (auto simp: module_rows_def)
  have dom: "dom new = set ids" unfolding new_def dom_map_of_conv_image_fst using arg_cong [OF fst, of set] by simp
  have dist: "distinct ids" using u by (simp add: ids_def distinct_map uuid_ok_def inj_on_def)
  have fresh: "set ids \<inter> dom (gsModules s) = {}"
    using u d by (fastforce simp: ids_def uuid_ok_def drawn_def inj_on_def)
  have "indexed (gsModules s ++ new) (append_at r ids (gsRepoModules s)) smRepoID"
    by (rule indexed_append) (use ok dist fresh new dom in \<open>auto simp: rows_ok_def\<close>)
  moreover have "smID m = i \<and> smRepoID m \<in> R" if "(gsModules s ++ new) i = Some m" for i m
    using that new r ok by (auto simp: rows_ok_def map_add_Some_iff)
  ultimately show ?thesis using ok unfolding run rows_ok_def mirrored_def same_repo_def by auto
qed

section \<open>Dropping the affected files of a merge\<close>

definition frame :: "GraphStore \<Rightarrow> GraphStore \<Rightarrow> bool" where
  "frame s s' \<longleftrightarrow> gsModules s' = gsModules s \<and> gsRepoModules s' = gsRepoModules s
     \<and> gsRepos s' = gsRepos s \<and> gsUUID s' = gsUUID s \<and> gsDrawn s' = gsDrawn s"

definition files_kept :: "GraphStore \<Rightarrow> GraphStore \<Rightarrow> bool" where
  "files_kept s s' \<longleftrightarrow> gsFiles s' = gsFiles s \<and> gsRepoFiles s' = gsRepoFiles s
     \<and> gsFileSymbols s' = gsFileSymbols s \<and> gsImports s' = gsImports s \<and> frame s s'"

text \<open>Symbols and call edges without \<open>D\<close>, in one repository's list of symbols.\<close>

definition symbols_dropped :: "string \<Rightarrow> string set \<Rightarrow> GraphStore \<Rightarrow> GraphStore \<Rightarrow> bool" where
  "symbols_dropped r D s s' \<longleftrightarrow> gsSymbols s' = gsSymbols s |` (- D)
     \<and> (\<forall>k. slice_at (gsRepoSymbols s') k =
          (if k = r then filter (\<lambda>i. i \<notin> D) (slice_at (gsRepoSymbols s) r) else slice_at (gsRepoSymbols s) k))
     \<and> (\<forall>a. callees s' a = (if a \<in> D then [] else filter (\<lambda>b. b \<notin> D) (callees s a)))
     \<and> (\<forall>a. callers s' a = (if a \<in> D then [] else filter (\<lambda>b. b \<notin> D) (callers s a)))"

lemma drop_link_keeps:
  "files_kept s (drop_link r x s) \<and> gsSymbols (drop_link r x s) = gsSymbols s
   \<and> gsRepoSymbols (drop_link r x s) = gsRepoSymbols s \<and> gsCallGraph (drop_link r x s) = gsCallGraph s
   \<and> gsReverseCallGraph (drop_link r x s) = gsReverseCallGraph s"
  by (cases "gsLinks s x") (simp_all add: drop_link_def files_kept_def frame_def)

lemma files_kept_trans: "files_kept s s' \<Longrightarrow> files_kept s' s'' \<Longrightarrow> files_kept s s''"
  by (simp add: files_kept_def frame_def)

lemma fold_drop_link:
  "files_kept s (fold (drop_link r) ls s) \<and> gsSymbols (fold (drop_link r) ls s) = gsSymbols s
   \<and> gsRepoSymbols (fold (drop_link r) ls s) = gsRepoSymbols s \<and> gsCallGraph (fold (drop_link r) ls s) = gsCallGraph s
   \<and> gsReverseCallGraph (fold (drop_link r) ls s) = gsReverseCallGraph s"
proof (induction ls arbitrary: s)
  case Nil
  show ?case by (simp add: files_kept_def frame_def)
next
  case (Cons x ls)
  show ?case using Cons.IH [of "drop_link r x s"] drop_link_keeps [of s r x] files_kept_trans by auto
qed

lemma drop_merged_symbol_effect:
  assumes "mirrored s"
  shows "files_kept s (drop_merged_symbol r x s) \<and> symbols_dropped r {x} s (drop_merged_symbol r x s)"
proof -
  obtain g rv where e: "drop_calls x s = s\<lparr>gsCallGraph := g, gsReverseCallGraph := rv\<rparr>"
    and g: "\<forall>a. slice_at g a = (if a = x then [] else filter (\<lambda>b. b \<noteq> x) (callees s a))"
    and rv: "\<forall>a. slice_at rv a = (if a = x then [] else filter (\<lambda>b. b \<noteq> x) (callers s a))"
    using drop_calls_effect [OF assms] by blast
  define s1 where "s1 = drop_links r x (drop_tests x (drop_calls x s))"
  have s1: "files_kept s s1 \<and> gsSymbols s1 = gsSymbols s \<and> gsRepoSymbols s1 = gsRepoSymbols s
      \<and> gsCallGraph s1 = g \<and> gsReverseCallGraph s1 = rv"
    using fold_drop_link [of "drop_tests x (drop_calls x s)"]
    by (simp add: s1_def drop_links_def Let_def files_kept_def frame_def) (simp add: e drop_tests_def Let_def)
  have r1: "m |` (- {x}) = m(x := None)" for m :: "string \<rightharpoonup> 'x" by (auto simp: restrict_map_def)
  have "drop_merged_symbol r x s = s1\<lparr>gsSymbols := (gsSymbols s1)(x := None), gsRepoSymbols := pull_at r x (gsRepoSymbols s1)\<rparr>"
    by (simp add: drop_merged_symbol_def s1_def Let_def)
  then show ?thesis using s1 g rv by (simp add: files_kept_def frame_def symbols_dropped_def r1)
qed

lemma symbols_dropped_trans:
  assumes "symbols_dropped r D s s'" and "symbols_dropped r D' s' s''"
  shows "symbols_dropped r (D \<union> D') s s''"
  using assms by (auto simp: symbols_dropped_def restrict_map_def fun_eq_iff intro!: filter_cong)

lemma symbols_dropped_mirrored: "mirrored s \<Longrightarrow> symbols_dropped r D s s' \<Longrightarrow> mirrored s'"
  by (simp add: mirrored_def symbols_dropped_def count_list_filter)

lemma fold_drop_merged_symbol:
  assumes "mirrored s"
  shows "files_kept s (fold (drop_merged_symbol r) xs s) \<and> symbols_dropped r (set xs) s (fold (drop_merged_symbol r) xs s)"
  using assms
proof (induction xs arbitrary: s)
  case Nil
  show ?case by (simp add: files_kept_def frame_def symbols_dropped_def restrict_map_def)
next
  case (Cons x xs)
  let ?s = "drop_merged_symbol r x s"
  have 1: "files_kept s ?s" "symbols_dropped r {x} s ?s" using drop_merged_symbol_effect [OF Cons.prems] by auto
  then have "mirrored ?s" using Cons.prems symbols_dropped_mirrored by blast
  from Cons.IH [OF this] have 2: "files_kept ?s (fold (drop_merged_symbol r) xs ?s)"
    "symbols_dropped r (set xs) ?s (fold (drop_merged_symbol r) xs ?s)" by auto
  show ?case using files_kept_trans [OF 1(1) 2(1)] symbols_dropped_trans [OF 1(2) 2(2)] by simp
qed

lemma frame_trans: "frame s s' \<Longrightarrow> frame s' s'' \<Longrightarrow> frame s s''"
  by (simp add: frame_def)

lemma drop_file_effect:
  assumes ok: "rows_ok R s" and f: "gsFiles s (gfID f) = Some f" "gfRepoID f = r"
  shows "dropped (set (slice_at (gsFileSymbols s) (gfID f))) {gfID f} s (drop_file r f s)
    \<and> frame s (drop_file r f s) \<and> gsImports (drop_file r f s) = filter (\<lambda>imp. siFileID imp \<noteq> gfID f) (gsImports s)"
proof -
  let ?D = "set (slice_at (gsFileSymbols s) (gfID f))"
  have m: "mirrored s" using ok by (simp add: rows_ok_def)
  define s1 where "s1 = fold (drop_merged_symbol r) (slice_at (gsFileSymbols s) (gfID f)) s"
  have s1: "files_kept s s1" "symbols_dropped r ?D s s1" using fold_drop_merged_symbol [OF m] by (simp_all add: s1_def)
  have sy: "indexed (gsSymbols s) (gsRepoSymbols s) ssRepoID" "indexed (gsSymbols s) (gsFileSymbols s) ssFileID"
    and fi: "indexed (gsFiles s) (gsRepoFiles s) gfRepoID"
    and own: "\<And>i y. gsSymbols s i = Some y \<Longrightarrow> \<exists>f. gsFiles s (ssFileID y) = Some f \<and> gfRepoID f = ssRepoID y"
    using ok unfolding rows_ok_def by blast+
  have inD: "i \<in> ?D \<longleftrightarrow> (\<exists>y. gsSymbols s i = Some y \<and> ssFileID y = gfID f)" for i by (rule indexed_iff [OF sy(2)])
  have a: "filter (\<lambda>i. i \<notin> ?D) (slice_at (gsRepoSymbols s) k) = slice_at (gsRepoSymbols s) k" if "k \<noteq> r" for k
    using that own f by (intro filter_True) (fastforce simp: inD indexed_iff [OF sy(1)])
  have b: "filter (\<lambda>i. i \<noteq> gfID f) (slice_at (gsRepoFiles s) k) = slice_at (gsRepoFiles s) k" if "k \<noteq> r" for k
    using that f by (intro filter_True) (auto simp: indexed_iff [OF fi])
  have c: "filter (\<lambda>i. i \<notin> ?D) (slice_at (gsFileSymbols s) k) = (if k = gfID f then [] else slice_at (gsFileSymbols s) k)" for k
    using f by (auto simp: inD indexed_iff [OF sy(2)] intro!: filter_True)
  have r1: "m |` (- {i}) = m(i := None)" for m :: "string \<rightharpoonup> 'x" and i by (auto simp: restrict_map_def)
  show ?thesis
    unfolding drop_file_def s1_def [symmetric] Let_def
    using s1 a b c by (simp add: dropped_def frame_def files_kept_def symbols_dropped_def r1)
qed

definition drop_set :: "string list \<Rightarrow> (string \<rightharpoonup> File) \<Rightarrow> File set" where
  "drop_set ps existing = {f. \<exists>p\<in>set ps. existing p = Some f}"

text \<open>
  The loop over the affected paths, for a map \<open>existing\<close> of paths to files of the repository: the
  files of those paths go, with exactly the symbols listed under them.
\<close>

lemma fold_drop_path:
  assumes "rows_ok R s" and "distinct ps"
    and "\<forall>p f. existing p = Some f \<longrightarrow> gfRepoID f = r \<and> gfPath f = p"
    and "\<forall>p\<in>set ps. \<forall>f. existing p = Some f \<longrightarrow> gsFiles s (gfID f) = Some f"
    and "s' = fold (drop_path r existing) ps s"
  shows "dropped (\<Union>f\<in>drop_set ps existing. set (slice_at (gsFileSymbols s) (gfID f))) (gfID ` drop_set ps existing) s s'
    \<and> frame s s' \<and> rows_ok R s'
    \<and> gsImports s' = filter (\<lambda>imp. siFileID imp \<notin> gfID ` drop_set ps existing) (gsImports s)"
  using assms
proof (induction ps arbitrary: s)
  case Nil
  then show ?case by (simp add: drop_set_def dropped_refl frame_def)
next
  case (Cons p ps)
  show ?case
  proof (cases "existing p")
    case None
    then have "drop_set (p # ps) existing = drop_set ps existing" by (auto simp: drop_set_def)
    then show ?thesis using Cons.IH [of s] Cons.prems None by (simp add: drop_path_def)
  next
    case (Some f)
    define s1 where "s1 = drop_file r f s"
    have set: "drop_set (p # ps) existing = insert f (drop_set ps existing)" using Some by (auto simp: drop_set_def)
    have f: "gsFiles s (gfID f) = Some f" "gfRepoID f = r" "gfPath f = p" using Cons.prems(3,4) Some by auto
    have d: "dropped (set (slice_at (gsFileSymbols s) (gfID f))) {gfID f} s s1" and fr: "frame s s1"
      and im: "gsImports s1 = filter (\<lambda>imp. siFileID imp \<noteq> gfID f) (gsImports s)"
      using drop_file_effect [OF Cons.prems(1) f(1,2)] by (simp_all add: s1_def)
    have sy: "indexed (gsSymbols s) (gsFileSymbols s) ssFileID" using Cons.prems(1) by (simp add: rows_ok_def)
    have "i \<in> set (slice_at (gsFileSymbols s) (gfID f))" if "gsSymbols s i = Some y" "ssFileID y \<in> {gfID f}" for i y
      using that indexed_row [OF sy, of i y] by simp
    then have ok: "rows_ok R s1"
      by (rule rows_ok_dropped [OF Cons.prems(1) d]) (use fr in \<open>simp_all add: frame_def\<close>)
    have ids: "gfID f' \<noteq> gfID f \<and> gsFiles s1 (gfID f') = Some f'" if "p' \<in> set ps" "existing p' = Some f'" for p' f'
    proof -
      have "gsFiles s (gfID f') = Some f'" "gfPath f' = p'" "p' \<noteq> p"
        using Cons.prems(4) [rule_format, of p' f'] Cons.prems(3) [rule_format, of p' f'] Cons.prems(2) that by simp_all metis
      then have "gfID f' \<noteq> gfID f" using f(1,3) by (metis option.inject)
      with \<open>gsFiles s (gfID f') = Some f'\<close> show ?thesis using d by (simp add: dropped_def restrict_map_def)
    qed
    have keep: "slice_at (gsFileSymbols s1) (gfID f') = slice_at (gsFileSymbols s) (gfID f')" if "f' \<in> drop_set ps existing" for f'
    proof -
      have "gfID f' \<noteq> gfID f" using that ids by (auto simp: drop_set_def)
      then have "\<forall>i\<in>set (slice_at (gsFileSymbols s) (gfID f')). i \<notin> set (slice_at (gsFileSymbols s) (gfID f))"
        by (auto simp: indexed_iff [OF sy])
      then show ?thesis using d by (simp add: dropped_def)
    qed
    have "drop_path r existing p s = s1" using Some by (simp add: drop_path_def s1_def)
    then have run: "s' = fold (drop_path r existing) ps s1" using Cons.prems(5) by simp
    have ih: "dropped (\<Union>f\<in>drop_set ps existing. set (slice_at (gsFileSymbols s1) (gfID f))) (gfID ` drop_set ps existing) s1 s'
      \<and> frame s1 s' \<and> rows_ok R s' \<and> gsImports s' = filter (\<lambda>imp. siFileID imp \<notin> gfID ` drop_set ps existing) (gsImports s1)"
      using Cons.prems ids by (intro Cons.IH [OF ok _ _ _ run]) auto
    have "dropped (\<Union>f\<in>drop_set ps existing. set (slice_at (gsFileSymbols s) (gfID f))) (gfID ` drop_set ps existing) s1 s'"
      using ih keep by simp
    from dropped_trans [OF d this] show ?thesis
      using ih frame_trans [OF fr] im by (simp add: set insert_def [symmetric] conj_commute)
  qed
qed

section \<open>Fresh ids\<close>

definition supplied :: "GraphStore \<Rightarrow> bool" where
  "supplied s \<longleftrightarrow> uuid_ok s
     \<and> dom (gsRepos s) \<union> dom (gsFiles s) \<union> dom (gsSymbols s) \<union> dom (gsModules s) \<subseteq> drawn s"

lemma graph_wf_alt:
  "graph_wf s \<longleftrightarrow> rows_ok (dom (gsRepos s)) s \<and> supplied s \<and> (\<forall>i r. gsRepos s i = Some r \<longrightarrow> grID r = i)"
  by (auto simp: graph_wf_def supplied_def)

lemma ids_from_fresh:
  assumes "uuid_ok s"
  shows "distinct (ids_from (gsUUID s) (gsDrawn s) k)" and "set (ids_from (gsUUID s) (gsDrawn s) k) \<inter> drawn s = {}"
proof -
  have i: "gsUUID s m = gsUUID s n \<longleftrightarrow> m = n" for m n using assms by (simp add: uuid_ok_def inj_eq)
  show "distinct (ids_from (gsUUID s) (gsDrawn s) k)" by (simp add: distinct_map inj_on_def i)
  show "set (ids_from (gsUUID s) (gsDrawn s) k) \<inter> drawn s = {}" by (auto simp: drawn_def i)
qed

lemma drawn_more: "drawn (s\<lparr>gsDrawn := gsDrawn s + k\<rparr>) = drawn s \<union> set (ids_from (gsUUID s) (gsDrawn s) k)"
proof -
  have "{..<gsDrawn s + k} = {..<gsDrawn s} \<union> {gsDrawn s..<gsDrawn s + k}" by auto
  then show ?thesis by (auto simp: drawn_def image_Un)
qed

lemma drawn_cong: "gsUUID s' = gsUUID s \<Longrightarrow> gsDrawn s' = gsDrawn s + k
    \<Longrightarrow> drawn s' = drawn s \<union> set (ids_from (gsUUID s) (gsDrawn s) k)"
  using drawn_more [of s k] by (simp add: drawn_def)

lemma next_id_fresh: "uuid_ok s \<Longrightarrow> gsUUID s (gsDrawn s) \<notin> drawn s"
  by (auto simp: uuid_ok_def drawn_def inj_eq)

lemma sym_rows_ids: "set (map fst (sym_rows rows)) \<subseteq> set (row_ids rows)"
proof (induction rows)
  case (Cons row rows)
  then show ?case by (cases row) force
qed simp

lemma sym_row_keys [simp]: "fst \<circ> (\<lambda>(j, y). (j, i, y)) = fst"
  by auto

lemma distinct_sym_rows: "distinct (row_ids rows) \<Longrightarrow> distinct (map fst (sym_rows rows))"
proof (induction rows)
  case (Cons row rows)
  obtain i fr ys where row: "row = (i, fr, ys)" by (cases row)
  have "distinct (map fst (sym_rows rows))" using Cons by (simp add: row)
  moreover have "map fst (sym_rows (row # rows)) = map fst ys @ map fst (sym_rows rows)"
    by (simp add: row)
  ultimately show ?case using Cons.prems sym_rows_ids [of rows] by (auto simp: row simp del: list.set_map)
qed simp

lemma map_of_rev_distinct: "distinct (map fst kvs) \<Longrightarrow> (k, v) \<in> set kvs \<Longrightarrow> map_of (rev kvs) k = Some v"
  by (rule map_of_is_SomeI) (simp_all only: rev_map [symmetric] distinct_rev set_rev)

lemma with_rows_symbol:
  assumes "distinct (row_ids rows)" and "(j, i, y) \<in> set (sym_rows rows)"
  shows "gsSymbols (with_rows r rows s) j = Some (stored_symbol r i j y)"
proof -
  have "distinct (map fst (sym_entries r rows))"
    using distinct_sym_rows [OF assms(1)] by (simp add: sym_entries_def comp_def case_prod_beta')
  moreover have "(j, stored_symbol r i j y) \<in> set (sym_entries r rows)"
    using assms(2) by (force simp: sym_entries_def)
  ultimately have "map_of (rev (sym_entries r rows)) j = Some (stored_symbol r i j y)" by (rule map_of_rev_distinct)
  then show ?thesis by (simp add: with_rows_def)
qed

lemma with_rows_dom:
  "dom (gsFiles (with_rows r rows s)) \<union> dom (gsSymbols (with_rows r rows s))
     \<subseteq> dom (gsFiles s) \<union> dom (gsSymbols s) \<union> set (row_ids rows)"
proof -
  have "fst ` set (file_entries r rows) \<subseteq> set (row_ids rows)"
    by (induction rows) (force simp: file_entries_def)+
  moreover have "fst ` set (sym_entries r rows) \<subseteq> set (row_ids rows)"
    by (induction rows) (force simp: sym_entries_def)+
  ultimately show ?thesis by (auto simp: with_rows_def dom_map_of_conv_image_fst)
qed

text \<open>The files of a result, in any store that has drawn its ids.\<close>

lemma insert_files_ok:
  assumes ok: "rows_ok R s" and sup: "supplied s" and r: "r \<in> R" and p: "paths_agree frs"
    and run: "fold (insert_file r) frs (Map.empty, s) = (idMap, s')"
  shows "rows_ok R s' \<and> supplied s' \<and> gsRepos s' = gsRepos s
    \<and> (\<forall>i j. idMap i = Some j \<longrightarrow> (\<exists>y. gsSymbols s' j = Some y \<and> ssRepoID y = r))
    \<and> (\<forall>i y. gsSymbols s i = Some y \<longrightarrow> gsSymbols s' i = Some y)"
proof -
  define rows where "rows = number_rows (gsUUID s) (gsDrawn s) frs"
  have m: "idMap = map_of (rev (id_entries rows))" and s': "s' = with_rows r rows s"
    using run by (simp_all add: fold_insert_file Let_def rows_def)
  have u: "uuid_ok s" and d: "dom (gsRepos s) \<union> dom (gsFiles s) \<union> dom (gsSymbols s) \<union> dom (gsModules s) \<subseteq> drawn s"
    using sup by (simp_all add: supplied_def)
  have ids: "row_ids rows = ids_from (gsUUID s) (gsDrawn s) (length (row_ids rows))"
    unfolding rows_def by (rule row_ids_number)
  have dist: "distinct (row_ids rows)" and new: "set (row_ids rows) \<inter> drawn s = {}"
    using ids_from_fresh [OF u, of "length (row_ids rows)"] ids by simp_all
  have path: "\<forall>(i, fr, ys)\<in>set rows. \<forall>y\<in>set (map snd ys). syFilePath y = frPath fr"
  proof safe
    fix i fr ys y assume 1: "(i, fr, ys) \<in> set rows" and 2: "y \<in> set (map snd ys)"
    have "set frs = (fst \<circ> snd) ` set rows" unfolding rows_def by (metis list.set_map fst_number_rows)
    then have "fr \<in> set frs" using 1 by force
    moreover have "map snd ys = frSymbols fr" using 1 number_rows_symbols unfolding rows_def by blast
    ultimately show "syFilePath y = frPath fr" using p 2 by (auto simp: paths_agree_def)
  qed
  have "set (row_ids rows) \<inter> (dom (gsFiles s) \<union> dom (gsSymbols s)) = {}" using new d by blast
  then have "rows_ok R s'" unfolding s' using rows_ok_with_rows ok r dist path by blast
  moreover have "drawn s' = drawn s \<union> set (row_ids rows)"
    using drawn_cong [of s' s "length (row_ids rows)"] ids by (simp add: s')
  then have "supplied s'"
  proof -
    have "gsUUID s' = gsUUID s" "gsRepos s' = gsRepos s" "gsModules s' = gsModules s" by (simp_all add: s' with_rows_def)
    then show ?thesis
      using with_rows_dom [of r rows s] d u \<open>drawn s' = drawn s \<union> set (row_ids rows)\<close>
      unfolding supplied_def s' [symmetric] uuid_ok_def by simp blast
  qed
  moreover have "\<exists>y. gsSymbols s' j = Some y \<and> ssRepoID y = r" if "idMap i = Some j" for i j
  proof -
    have "(i, j) \<in> set (id_entries rows)" using map_of_SomeD [OF that [unfolded m]] by simp
    then obtain f y where "(j, f, y) \<in> set (sym_rows rows)" by (auto simp: id_entries_def)
    then show ?thesis using with_rows_symbol [OF dist] by (auto simp: s')
  qed
  moreover have "gsSymbols s' i = Some y" if y: "gsSymbols s i = Some y" for i y
  proof -
    have "i \<notin> set (row_ids rows)" using y d new by blast
    then have "map_of (rev (sym_entries r rows)) i = None"
      by (force simp: map_of_eq_None_iff sym_entries_def sym_rows_def row_ids_def)
    then show ?thesis using y by (simp add: s' with_rows_def map_add_def)
  qed
  ultimately show ?thesis by (simp add: s' with_rows_def)
qed

lemma insert_relations_frame:
  "frame s (fold (insert_relation idMap) rels s) \<and> gsFiles (fold (insert_relation idMap) rels s) = gsFiles s"
proof (induction rels arbitrary: s)
  case (Cons rel rels)
  have "frame s (insert_relation idMap rel s) \<and> gsFiles (insert_relation idMap rel s) = gsFiles s"
    by (simp add: insert_relation_def Let_def add_call_def frame_def)
  then show ?case using Cons.IH [of "insert_relation idMap rel s"] frame_trans by auto
qed (simp add: frame_def)

lemma insert_modules_supplied:
  assumes "supplied s"
  shows "supplied (fold (insert_module r) mods s)"
proof -
  define ids where "ids = ids_from (gsUUID s) (gsDrawn s) (length mods)"
  define s' where "s' = fold (insert_module r) mods s"
  have s': "gsRepos s' = gsRepos s" "gsFiles s' = gsFiles s" "gsSymbols s' = gsSymbols s" "gsUUID s' = gsUUID s"
    "gsDrawn s' = gsDrawn s + length mods" "gsModules s' = gsModules s ++ map_of (rev (module_rows r (zip ids mods)))"
    by (simp_all add: s'_def fold_insert_module Let_def ids_def)
  have "dom (gsModules s') \<subseteq> dom (gsModules s) \<union> set ids"
    by (auto simp: s' module_rows_def dom_map_of_conv_image_fst dest: set_zip_leftD)
  then show ?thesis
    using assms drawn_cong [OF s'(4,5)]
    unfolding supplied_def s'_def [symmetric] uuid_ok_def s'(1-4) ids_def by blast
qed

lemma supplied_frame: "supplied s \<Longrightarrow> frame s s' \<Longrightarrow> gsFiles s' = gsFiles s \<Longrightarrow> gsSymbols s' = gsSymbols s \<Longrightarrow> supplied s'"
  by (simp add: supplied_def frame_def uuid_ok_def drawn_def)

lemma insert_result_ok:
  assumes ok: "rows_ok R s" and sup: "supplied s" and r: "r \<in> R" and p: "paths_agree (ixFiles result)"
  shows "rows_ok R (insert_result r result s) \<and> supplied (insert_result r result s)
    \<and> gsRepos (insert_result r result s) = gsRepos s"
proof -
  obtain idMap s1 where run: "fold (insert_file r) (ixFiles result) (Map.empty, s) = (idMap, s1)" by fastforce
  define s2 where "s2 = fold (insert_relation idMap) (ixRelations result) s1"
  have 1: "rows_ok R s1" "supplied s1" "gsRepos s1 = gsRepos s"
    "\<forall>i j. idMap i = Some j \<longrightarrow> (\<exists>y. gsSymbols s1 j = Some y \<and> ssRepoID y = r)"
    using insert_files_ok [OF ok sup r p run] by blast+
  have 2: "rows_ok R s2" "gsSymbols s2 = gsSymbols s1"
    using rows_ok_insert_relations [OF 1(1,4)] by (simp_all add: s2_def)
  have fr: "frame s1 s2" "gsFiles s2 = gsFiles s1" using insert_relations_frame by (simp_all add: s2_def)
  have sup2: "supplied s2" using supplied_frame [OF 1(2) fr 2(2)] .
  have "gsRepos (fold (insert_module r) ms t) = gsRepos t" for ms t by (simp add: fold_insert_module Let_def)
  then show ?thesis
    using rows_ok_insert_modules [OF 2(1) r] insert_modules_supplied [OF sup2] sup2 1(3) fr(1)
    unfolding insert_result_def run s2_def by (simp add: frame_def) (simp add: supplied_def)
qed

end
