(* ===== verification/Graph_Merge.thy ===== *)
theory Graph_Merge
  imports Graph_Insert
begin

text \<open>
  The invariant kept by replacing and merging results and by removing a repository; the stages of a merge.
\<close>

section \<open>Every writer keeps the invariant\<close>

lemma rows_ok_mono: "rows_ok R s \<Longrightarrow> R \<subseteq> R' \<Longrightarrow> rows_ok R' s"
  unfolding rows_ok_def by blast

lemma rows_ok_repos: "rows_ok R (s\<lparr>gsRepos := x\<rparr>) = rows_ok R s"
  by (simp add: rows_ok_def mirrored_def same_repo_def)

lemma StoreIndexResult_wf:
  assumes wf: "graph_wf s" and p: "paths_agree (ixFiles result)"
  shows "graph_wf (snd (StoreIndexResult now result s))"
proof -
  define i where "i = gsUUID s (gsDrawn s)"
  define s1 where "s1 = s\<lparr>gsDrawn := Suc (gsDrawn s)\<rparr>"
  define s2 where "s2 = insert_result i result s1"
  have ok: "rows_ok (dom (gsRepos s)) s" and sup: "supplied s" and id: "\<forall>i r. gsRepos s i = Some r \<longrightarrow> grID r = i"
    using wf by (simp_all add: graph_wf_alt)
  have more: "drawn s1 = insert i (drawn s)" by (simp add: s1_def i_def drawn_def lessThan_Suc)
  have "rows_ok (insert i (dom (gsRepos s))) s" using rows_ok_mono [OF ok] by blast
  then have ok1: "rows_ok (insert i (dom (gsRepos s))) s1"
    by (simp add: s1_def rows_ok_def mirrored_def same_repo_def)
  have sup1: "supplied s1" using sup more unfolding supplied_def by (simp add: s1_def uuid_ok_def) blast
  have 2: "rows_ok (insert i (dom (gsRepos s))) s2" "supplied s2" "gsRepos s2 = gsRepos s1"
    using insert_result_ok [OF ok1 sup1 _ p, of i] by (simp_all add: s2_def)
  have "drawn s1 \<subseteq> drawn s2"
  proof -
    obtain m t where t: "fold (insert_file i) (ixFiles result) (Map.empty, s1) = (m, t)" by fastforce
    have "gsUUID t = gsUUID s1" "gsDrawn s1 \<le> gsDrawn t"
      using t by (auto simp: fold_insert_file Let_def with_rows_def)
    then show ?thesis
      using insert_relations_frame [of t m "ixRelations result"]
      by (auto simp: s2_def insert_result_def t fold_insert_module Let_def frame_def drawn_def)
  qed
  then have "i \<in> drawn s2" using more by blast
  then have "supplied (s2\<lparr>gsRepos := (gsRepos s2)(i \<mapsto> r)\<rparr>)" for r
    using 2(2) by (auto simp: supplied_def uuid_ok_def drawn_def)
  then show ?thesis
    using 2 id by (simp add: StoreIndexResult_def graph_NewString_def Let_def graph_wf_alt rows_ok_repos
        s1_def [symmetric] i_def [symmetric] s2_def [symmetric] indexed_repository_def split_beta)
      (simp add: s1_def)
qed

lemma drop_index_rows_frame:
  assumes ok: "rows_ok R s" and sup: "supplied s"
  shows "supplied (drop_index_rows k s) \<and> gsRepos (drop_index_rows k s) = gsRepos s"
proof -
  obtain g r s1 where d: "dropped (set (slice_at (gsRepoSymbols s) k)) (set (slice_at (gsRepoFiles s) k)) s s1"
    and s1: "s1 = s\<lparr>gsSymbols := gsSymbols s1, gsFiles := gsFiles s1, gsCallGraph := g, gsReverseCallGraph := r,
             gsRepoSymbols := (gsRepoSymbols s)(k := None), gsFileSymbols := gsFileSymbols s1,
             gsRepoFiles := (gsRepoFiles s)(k := None)\<rparr>"
    and run: "drop_index_rows k s = s1\<lparr>gsModules := gsModules s |` (- set (slice_at (gsRepoModules s) k)),
                             gsRepoModules := (gsRepoModules s)(k := None)\<rparr>"
    using drop_index_rows_effect [OF ok, of k] by blast
  have eq: "gsRepos s1 = gsRepos s" "gsUUID s1 = gsUUID s" "gsDrawn s1 = gsDrawn s" by (subst s1, simp)+
  have "dom (gsFiles s1) \<subseteq> dom (gsFiles s)" "dom (gsSymbols s1) \<subseteq> dom (gsSymbols s)" using d by (auto simp: dropped_def)
  moreover have "dom (gsModules s |` D) \<subseteq> dom (gsModules s)" for D by auto
  ultimately show ?thesis using sup unfolding run supplied_def uuid_ok_def drawn_def
    by (simp add: eq) blast
qed

lemma ReplaceIndexResult_wf:
  assumes wf: "graph_wf s" and p: "paths_agree (ixFiles result)"
  shows "graph_wf (snd (ReplaceIndexResult now r result s))"
proof (cases "gsRepos s r")
  case None
  then show ?thesis using wf by (simp add: ReplaceIndexResult_def)
next
  case (Some repo)
  define s1 where "s1 = drop_index_rows r s"
  define s2 where "s2 = s1\<lparr>gsImports := filter (\<lambda>imp. siFileID imp \<notin> set (slice_at (gsRepoFiles s1) r)) (gsImports s1)\<rparr>"
  define s3 where "s3 = insert_result r result s2"
  have ok: "rows_ok (dom (gsRepos s)) s" and sup: "supplied s" and id: "\<forall>i r. gsRepos s i = Some r \<longrightarrow> grID r = i"
    using wf by (simp_all add: graph_wf_alt)
  have 1: "rows_ok (dom (gsRepos s)) s1" "supplied s1" "gsRepos s1 = gsRepos s"
    using rows_ok_drop_index_rows [OF ok] drop_index_rows_frame [OF ok sup] by (simp_all add: s1_def)
  have 2: "rows_ok (dom (gsRepos s)) s2" "supplied s2" "gsRepos s2 = gsRepos s"
    using 1 by (simp_all add: s2_def rows_ok_def mirrored_def same_repo_def supplied_def uuid_ok_def drawn_def)
  have 3: "rows_ok (dom (gsRepos s)) s3" "supplied s3" "gsRepos s3 = gsRepos s"
    using insert_result_ok [OF 2(1,2) _ p, of r] Some 2(3) by (auto simp: s3_def)
  have "supplied (s3\<lparr>gsRepos := (gsRepos s)(r \<mapsto> x)\<rparr>)" for x
    using 3 Some by (auto simp: supplied_def uuid_ok_def drawn_def)
  then show ?thesis
    using 3 id Some
    by (simp add: ReplaceIndexResult_def Let_def s1_def [symmetric] s2_def [symmetric] s3_def [symmetric] split_beta
        graph_wf_alt rows_ok_repos insert_absorb domI)
qed

section \<open>The merge\<close>

lemma existing_by_path_at:
  assumes ok: "rows_ok R s" and f: "existing_by_path r s p = Some f"
  shows "gsFiles s (gfID f) = Some f \<and> gfRepoID f = r \<and> gfPath f = p"
proof -
  have step: "fold (\<lambda>f m. m(gfPath f \<mapsto> f)) fs m p = Some f \<Longrightarrow> (f \<in> set fs \<and> gfPath f = p) \<or> m p = Some f" for fs m
    by (induction fs arbitrary: m) (fastforce split: if_splits)+
  have "f \<in> set (range_vals (gsFiles s) (slice_at (gsRepoFiles s) r))" "gfPath f = p"
    using step [of "range_vals (gsFiles s) (slice_at (gsRepoFiles s) r)" Map.empty] f
    by (simp_all add: existing_by_path_def)
  moreover from this(1) have "gfRepoID f = r" and "\<exists>i. gsFiles s i = Some f"
    using ok set_indexed_vals [of "gsFiles s" "gsRepoFiles s" gfRepoID r] by (auto simp: rows_ok_def ran_def)
  ultimately show ?thesis using ok by (auto simp: rows_ok_def)
qed

lemma carry_forward_at:
  assumes ok: "rows_ok R s" and c: "carry_forward r A s k = Some i"
  shows "\<exists>y. gsSymbols s i = Some y \<and> ssRepoID y = r \<and> ssFilePath y \<notin> A
    \<and> storeSymbolLookupKey (ssFilePath y) (ssQualifiedName y) (ssKind y) (ssStartLine y) = k"
proof -
  define upd where "upd = (\<lambda>sid m. case gsSymbols s sid of None \<Rightarrow> m
         | Some ss \<Rightarrow> if ssFilePath ss \<in> A then m
             else m(storeSymbolLookupKey (ssFilePath ss) (ssQualifiedName ss) (ssKind ss) (ssStartLine ss) \<mapsto> sid))"
  have "fold upd is m k = Some i \<Longrightarrow> m k = Some i \<or> (i \<in> set is \<and> (\<exists>y. gsSymbols s i = Some y \<and> ssFilePath y \<notin> A
    \<and> storeSymbolLookupKey (ssFilePath y) (ssQualifiedName y) (ssKind y) (ssStartLine y) = k))" for "is" m
    by (induction "is" arbitrary: m) (fastforce simp: upd_def split: option.splits if_splits)+
  from this [of "slice_at (gsRepoSymbols s) r" Map.empty] c
  obtain y where "i \<in> set (slice_at (gsRepoSymbols s) r)" "gsSymbols s i = Some y" "ssFilePath y \<notin> A"
    "storeSymbolLookupKey (ssFilePath y) (ssQualifiedName y) (ssKind y) (ssStartLine y) = k"
    by (auto simp: carry_forward_def upd_def)
  then show ?thesis using ok by (auto simp: rows_ok_def indexed_def)
qed

lemma merge_call_cases:
  assumes "mirrored s"
  shows "merge_call a b s = (if b \<in> set (callees s a) then s else add_call a b s)"
  using mirrored_set [OF assms, of b a] by (simp add: merge_call_def add_call_def Let_def)

lemma rows_ok_merge_relations:
  assumes "rows_ok R s" and "\<forall>i j. resolve i = Some j \<longrightarrow> (\<exists>y. gsSymbols s j = Some y \<and> ssRepoID y = r)"
  shows "rows_ok R (fold (merge_relation resolve) rels s)
    \<and> gsSymbols (fold (merge_relation resolve) rels s) = gsSymbols s
    \<and> gsFiles (fold (merge_relation resolve) rels s) = gsFiles s \<and> frame s (fold (merge_relation resolve) rels s)"
  using assms
proof (induction rels arbitrary: s)
  case Nil
  then show ?case by (simp add: frame_def)
next
  case (Cons rel rels)
  have m: "mirrored s" using Cons.prems(1) by (simp add: rows_ok_def)
  have "same_repo s a b" if "resolve i = Some a" "resolve j = Some b" for i j a b
    using Cons.prems(2) that by (metis same_repo_of)
  then have "rows_ok R (merge_relation resolve rel s)"
    using Cons.prems(1)
    by (auto simp: merge_relation_def merge_call_cases [OF m] rows_ok_tested split: option.split
        intro!: rows_ok_add_call)
  moreover have "gsSymbols (merge_relation resolve rel s) = gsSymbols s \<and> gsFiles (merge_relation resolve rel s) = gsFiles s
      \<and> frame s (merge_relation resolve rel s)"
    by (simp add: merge_relation_def merge_call_def Let_def frame_def split: option.split)
  ultimately show ?case
    using Cons.IH [of "merge_relation resolve rel s"] Cons.prems(2) frame_trans by auto
qed

lemma replace_modules_ok:
  assumes ok: "rows_ok R s" and sup: "supplied s" and r: "r \<in> R"
  shows "rows_ok R (replace_modules r ms s) \<and> supplied (replace_modules r ms s)
    \<and> gsRepos (replace_modules r ms s) = gsRepos s"
proof -
  define s1 where "s1 = s\<lparr>gsModules := gsModules s |` (- set (slice_at (gsRepoModules s) r)),
     gsRepoModules := (gsRepoModules s)(r := None)\<rparr>"
  have e: "replace_modules r ms s = fold (insert_module r) ms s1"
    by (simp add: replace_modules_def fold_drop_modules s1_def Let_def)
  have "indexed (gsModules s |` (- set (slice_at (gsRepoModules s) r))) ((gsRepoModules s)(r := None)) smRepoID"
    using ok indexed_drop_owner by (auto simp: rows_ok_def)
  then have ok1: "rows_ok R s1" using ok unfolding rows_ok_def mirrored_def same_repo_def
    by (auto simp: s1_def restrict_map_def split: if_splits)
  have sup1: "supplied s1" using sup unfolding supplied_def s1_def by (auto simp: uuid_ok_def drawn_def)
  have "gsRepos (fold (insert_module r) ms t) = gsRepos t" for t by (simp add: fold_insert_module Let_def)
  then show ?thesis
    using rows_ok_insert_modules [OF ok1 r, of ms] insert_modules_supplied [OF sup1, of r ms] sup1
    unfolding e by (simp add: supplied_def) (simp add: s1_def)
qed

text \<open>
  The stages of a merge: the store without the affected files, with their new versions inserted,
  with the relations merged in.
\<close>

lemma merge_stages:
  assumes wf: "graph_wf s" and ps: "distinct ps" "set ps = set affected" and p: "paths_agree (ixFiles result)"
    and repo: "gsRepos s r = Some repo"
    and run: "MergeIndexResult ps now r affected (Some result) s = (res, s')"
    and ex: "ex = existing_by_path r s"
    and D: "D = (\<Union>f\<in>drop_set ps ex. set (slice_at (gsFileSymbols s) (gfID f)))" and F: "F = gfID ` drop_set ps ex"
    and frs: "frs = filter (\<lambda>fr. frPath fr \<in> set affected) (ixFiles result)"
    and resolve: "resolve = resolveSymID (map_of (rev (id_entries (number_rows (gsUUID s) (gsDrawn s) frs))))
       (result_tuples result) (carry_forward r (set affected) s)"
  obtains s1 s2 s3 where "s1 = fold (drop_path r ex) ps s" and "dropped D F s s1" and "frame s s1"
    and "rows_ok (dom (gsRepos s)) s1" and "supplied s1"
    and "gsImports s1 = filter (\<lambda>imp. siFileID imp \<notin> F) (gsImports s)"
    and "s2 = with_rows r (number_rows (gsUUID s) (gsDrawn s) frs) s1"
    and "rows_ok (dom (gsRepos s)) s2" and "supplied s2"
    and "\<forall>i y. gsSymbols s1 i = Some y \<longrightarrow> gsSymbols s2 i = Some y"
    and "\<forall>i j. resolve i = Some j \<longrightarrow> (\<exists>y. gsSymbols s2 j = Some y \<and> ssRepoID y = r)"
    and "s3 = fold (merge_relation resolve) (ixRelations result) s2"
    and "rows_ok (dom (gsRepos s)) s3" and "supplied s3" and "gsRepos s3 = gsRepos s"
    and "s' = (replace_modules r (ixModules result) s3)\<lparr>gsRepos := (gsRepos s)(r \<mapsto>
           merged_repository r now result repo (replace_modules r (ixModules result) s3))\<rparr>"
    and "res = Inr (merged_repository r now result repo (replace_modules r (ixModules result) s3))"
proof -
  let ?R = "dom (gsRepos s)" and ?A = "set affected"
  let ?rows = "number_rows (gsUUID s) (gsDrawn s) frs"
  have ok: "rows_ok ?R s" and sup: "supplied s" using wf by (simp_all add: graph_wf_alt)
  have r: "r \<in> ?R" using repo by blast
  define s1 where "s1 = fold (drop_path r ex) ps s"
  have at: "gsFiles s (gfID f) = Some f \<and> gfRepoID f = r \<and> gfPath f = q" if "ex q = Some f" for q f
    using existing_by_path_at [OF ok] that by (simp add: ex)
  have 1: "dropped D F s s1" "frame s s1" "rows_ok ?R s1" "gsImports s1 = filter (\<lambda>imp. siFileID imp \<notin> F) (gsImports s)"
    using fold_drop_path [OF ok ps(1) _ _ s1_def] at unfolding D F by blast+
  have sup1: "supplied s1"
    using sup 1(1,2) unfolding supplied_def dropped_def frame_def uuid_ok_def drawn_def by (auto simp: restrict_map_def split: if_splits)
  have u: "gsUUID s1 = gsUUID s" "gsDrawn s1 = gsDrawn s" using 1(2) by (simp_all add: frame_def)
  define s2 where "s2 = with_rows r ?rows s1"
  define idMap where "idMap = map_of (rev (id_entries ?rows))"
  have ins: "fold (insert_file r) frs (Map.empty, s1) = (idMap, s2)"
    by (simp add: fold_insert_file Let_def u s2_def idMap_def)
  have "paths_agree frs" using p by (auto simp: paths_agree_def frs)
  from insert_files_ok [OF 1(3) sup1 r this ins]
  have 2: "rows_ok ?R s2" "supplied s2" "gsRepos s2 = gsRepos s1"
    "\<forall>i j. idMap i = Some j \<longrightarrow> (\<exists>y. gsSymbols s2 j = Some y \<and> ssRepoID y = r)"
    "\<forall>i y. gsSymbols s1 i = Some y \<longrightarrow> gsSymbols s2 i = Some y"
    by blast+
  have "\<exists>y. gsSymbols s1 j = Some y \<and> ssRepoID y = r" if c: "carry_forward r ?A s k = Some j" for k j
  proof -
    obtain y where y: "gsSymbols s j = Some y" "ssRepoID y = r" "ssFilePath y \<notin> ?A"
      using carry_forward_at [OF ok c] by blast
    have "j \<notin> D"
    proof
      assume "j \<in> D"
      then obtain q f where f: "q \<in> ?A" "ex q = Some f" "j \<in> set (slice_at (gsFileSymbols s) (gfID f))"
        using ps(2) by (auto simp: D drop_set_def)
      then have "ssFileID y = gfID f" using y(1) by (simp add: indexed_iff [OF rows_okD(3) [OF ok]])
      then have "ssFilePath y = q" using rows_ok_symbol [OF ok y(1)] at [OF f(2)] by auto
      then show False using y(3) f(1) by simp
    qed
    then show ?thesis using 1(1) y by (simp add: dropped_def)
  qed
  then have res: "\<forall>i j. resolve i = Some j \<longrightarrow> (\<exists>y. gsSymbols s2 j = Some y \<and> ssRepoID y = r)"
    using 2(4,5) unfolding resolve idMap_def [symmetric] resolveSymID_def by (fastforce split: option.splits)
  define s3 where "s3 = fold (merge_relation resolve) (ixRelations result) s2"
  have 3: "rows_ok ?R s3" "gsSymbols s3 = gsSymbols s2" "gsFiles s3 = gsFiles s2" "frame s2 s3"
    using rows_ok_merge_relations [OF 2(1) res, of "ixRelations result"] by (simp_all add: s3_def)
  have sup3: "supplied s3" using supplied_frame [OF 2(2) 3(4,3,2)] .
  have repos: "gsRepos s3 = gsRepos s" using 3(4) 2(3) 1(2) by (simp add: frame_def)
  have mods: "gsRepos (replace_modules r ms s3) = gsRepos s3" for ms
    using replace_modules_ok [OF 3(1) sup3 r] by blast
  have "(res, s') = (Inr (merged_repository r now result repo (replace_modules r (ixModules result) s3)),
    (replace_modules r (ixModules result) s3)\<lparr>gsRepos := (gsRepos s)(r \<mapsto>
           merged_repository r now result repo (replace_modules r (ixModules result) s3))\<rparr>)"
    unfolding run [symmetric] MergeIndexResult_def
    by (simp add: repo Let_def frs [symmetric] ex [symmetric] s1_def [symmetric] ins mods repos
        resolve [folded idMap_def, symmetric] s3_def [symmetric])
  then show ?thesis
    using that [OF s1_def 1(1,2,3) sup1 1(4) s2_def 2(1,2,5) res s3_def 3(1) sup3 repos] by simp
qed

lemma MergeIndexResult_wf:
  assumes wf: "graph_wf s" and ps: "distinct ps" "set ps = set affected"
    and p: "\<forall>result. resultp = Some result \<longrightarrow> paths_agree (ixFiles result)"
  shows "graph_wf (snd (MergeIndexResult ps now r affected resultp s))"
proof (cases "resultp = None \<or> gsRepos s r = None")
  case True
  then show ?thesis using wf by (auto simp: MergeIndexResult_def split: option.split)
next
  case False
  then obtain result repo where r: "resultp = Some result" "gsRepos s r = Some repo" by auto
  obtain res s' where run: "MergeIndexResult ps now r affected (Some result) s = (res, s')" by fastforce
  have pa: "paths_agree (ixFiles result)" using p r(1) by simp
  obtain s3 where s': "s' = (replace_modules r (ixModules result) s3)\<lparr>gsRepos := (gsRepos s)(r \<mapsto>
           merged_repository r now result repo (replace_modules r (ixModules result) s3))\<rparr>"
    and 3: "rows_ok (dom (gsRepos s)) s3" "supplied s3" "gsRepos s3 = gsRepos s"
    by (rule merge_stages [OF wf ps pa r(2) run refl refl refl refl refl]) (rule that; assumption)
  have id: "\<forall>i r. gsRepos s i = Some r \<longrightarrow> grID r = i" using wf by (simp add: graph_wf_alt)
  have "rows_ok (dom (gsRepos s)) (replace_modules r (ixModules result) s3)"
    "supplied (replace_modules r (ixModules result) s3)" "gsRepos (replace_modules r (ixModules result) s3) = gsRepos s"
    using replace_modules_ok [OF 3(1,2), of r] 3(3) r(2) by auto
  moreover define t where "t = replace_modules r (ixModules result) s3"
  moreover have "grID (merged_repository r now result repo t) = grID repo" for t
    by (simp add: merged_repository_def split_beta)
  moreover have "dom ((gsRepos s)(r \<mapsto> x)) = dom (gsRepos s)" for x using r(2) by auto
  ultimately show ?thesis
    using id r unfolding r(1) run snd_conv s' graph_wf_alt t_def [symmetric]
    by (simp add: rows_ok_repos supplied_def uuid_ok_def drawn_def)
qed

section \<open>Removing a repository\<close>

definition same_index :: "GraphStore \<Rightarrow> GraphStore \<Rightarrow> bool" where
  "same_index s s' \<longleftrightarrow> files_kept s s' \<and> gsSymbols s' = gsSymbols s \<and> gsRepoSymbols s' = gsRepoSymbols s
     \<and> gsCallGraph s' = gsCallGraph s \<and> gsReverseCallGraph s' = gsReverseCallGraph s"

lemma same_index_trans: "same_index s s' \<Longrightarrow> same_index s' s'' \<Longrightarrow> same_index s s''"
  using files_kept_trans by (auto simp: same_index_def)

lemma rows_ok_same_index: "same_index s s' \<Longrightarrow> rows_ok R s' = rows_ok R s"
  by (simp add: same_index_def files_kept_def frame_def rows_ok_def mirrored_def same_repo_def)

lemma graph_wf_same_index: "same_index s s' \<Longrightarrow> graph_wf s' = graph_wf s"
  by (simp add: graph_wf_alt rows_ok_same_index)
    (simp add: same_index_def files_kept_def frame_def supplied_def uuid_ok_def drawn_def)

lemma fold_same_index:
  assumes "\<And>x s. same_index s (f x s)"
  shows "same_index s (fold f xs s)"
proof (induction xs arbitrary: s)
  case Nil
  then show ?case by (simp add: same_index_def files_kept_def frame_def)
next
  case (Cons x xs)
  show ?case using same_index_trans [OF assms Cons.IH [of "f x s"]] by simp
qed

lemma drop_repo_link_same_index: "same_index s (drop_repo_link i s)"
  by (cases "gsLinks s i") (simp_all add: drop_repo_link_def same_index_def files_kept_def frame_def)

lemma rows_ok_without:
  assumes ok: "rows_ok R s" and e: "slice_at (gsRepoFiles s) k = []" "slice_at (gsRepoModules s) k = []"
  shows "rows_ok (R - {k}) s"
proof -
  have "gfRepoID f \<noteq> k" if "gsFiles s i = Some f" for i f
    using ok e that indexed_row [of "gsFiles s" "gsRepoFiles s" gfRepoID i f] by (auto simp: rows_ok_def)
  moreover have "smRepoID m \<noteq> k" if "gsModules s i = Some m" for i m
    using ok e that indexed_row [of "gsModules s" "gsRepoModules s" smRepoID i m] by (auto simp: rows_ok_def)
  ultimately show ?thesis using ok by (auto simp: rows_ok_def)
qed

lemma drop_index_rows_empty:
  assumes ok: "rows_ok R s"
  shows "slice_at (gsRepoFiles (drop_index_rows k s)) k = []" "slice_at (gsRepoModules (drop_index_rows k s)) k = []"
    "slice_at (gsRepoSymbols (drop_index_rows k s)) k = []"
proof -
  obtain g r s1 where s1: "s1 = s\<lparr>gsSymbols := gsSymbols s1, gsFiles := gsFiles s1, gsCallGraph := g, gsReverseCallGraph := r,
             gsRepoSymbols := (gsRepoSymbols s)(k := None), gsFileSymbols := gsFileSymbols s1,
             gsRepoFiles := (gsRepoFiles s)(k := None)\<rparr>"
    and run: "drop_index_rows k s = s1\<lparr>gsModules := gsModules s |` (- set (slice_at (gsRepoModules s) k)),
                             gsRepoModules := (gsRepoModules s)(k := None)\<rparr>"
    using drop_index_rows_effect [OF ok, of k] by blast
  show "slice_at (gsRepoModules (drop_index_rows k s)) k = []" by (simp add: run)
  have "gsRepoFiles s1 = (gsRepoFiles s)(k := None)" "gsRepoSymbols s1 = (gsRepoSymbols s)(k := None)" by (subst s1, simp)+
  then show "slice_at (gsRepoFiles (drop_index_rows k s)) k = []" "slice_at (gsRepoSymbols (drop_index_rows k s)) k = []"
    by (simp_all add: run)
qed

lemma RemoveRepository_wf:
  assumes wf: "graph_wf s"
  shows "graph_wf (snd (RemoveRepository k s))"
proof (cases "gsRepos s k")
  case None
  then show ?thesis using wf by (simp add: RemoveRepository_def)
next
  case (Some repo)
  define s1 where "s1 = drop_index_rows k s"
  define s2 where "s2 = fold (\<lambda>reqID s. s\<lparr>gsRequirements := (gsRequirements s)(reqID := None),
      gsReqLinks := (gsReqLinks s)(reqID := None)\<rparr>) (slice_at (gsRepoRequirements s1) k) s1"
  define s3 where "s3 = s2\<lparr>gsRepoRequirements := (gsRepoRequirements s2)(k := None)\<rparr>"
  define s4 where "s4 = fold drop_repo_link (slice_at (gsRepoLinks s2) k) s3"
  define s5 where "s5 = s4\<lparr>gsRepoLinks := (gsRepoLinks s4)(k := None)\<rparr>"
  have ok: "rows_ok (dom (gsRepos s)) s" and sup: "supplied s" and id: "\<forall>i r. gsRepos s i = Some r \<longrightarrow> grID r = i"
    using wf by (simp_all add: graph_wf_alt)
  have 1: "rows_ok (dom (gsRepos s) - {k}) s1" "supplied s1" "gsRepos s1 = gsRepos s"
    using rows_ok_without [OF rows_ok_drop_index_rows [OF ok, of k]] drop_index_rows_empty [OF ok, of k]
      drop_index_rows_frame [OF ok sup, of k] by (simp_all add: s1_def)
  have "same_index s1 s2" unfolding s2_def
    by (rule fold_same_index) (simp add: same_index_def files_kept_def frame_def)
  moreover have "same_index s2 s3" "same_index s4 s5"
    by (simp_all add: s3_def s5_def same_index_def files_kept_def frame_def)
  moreover have "same_index s3 s4" unfolding s4_def by (rule fold_same_index) (rule drop_repo_link_same_index)
  ultimately have i: "same_index s1 s5" using same_index_trans by metis
  then have 5: "rows_ok (dom (gsRepos s) - {k}) s5" "supplied s5" "gsRepos s5 = gsRepos s"
    using 1 rows_ok_same_index [OF i] by (simp_all add: same_index_def files_kept_def frame_def supplied_def uuid_ok_def drawn_def)
  have 4: "gsRepos s4 = gsRepos s" using 5(3) by (simp add: s5_def)
  have "RemoveRepository k s = (True, s5\<lparr>gsRepos := (gsRepos s)(k := None)\<rparr>)"
    using Some 5(3) 4 by (simp add: RemoveRepository_def Let_def s1_def [symmetric] s2_def [symmetric] s3_def [symmetric]
        s4_def [symmetric] s5_def [symmetric])
  then show ?thesis
    using 5 id by (auto simp: graph_wf_alt rows_ok_repos supplied_def uuid_ok_def drawn_def)
qed

end
