(* ===== verification/Graph_View.thy ===== *)
theory Graph_View
  imports Graph_Merge "HOL-Library.Multiset"
begin

text \<open>
  What a repository shows of its code: its files with their symbols and the call edges between them,
  without the ids the store made up; the view after dropping rows and after inserting a result.
\<close>

section \<open>What a repository shows\<close>

text \<open>Rows without the ids the store made up for them: what the indexer delivered.\<close>

definition symbol_content :: "StoredSymbol \<Rightarrow> StoredSymbol" where
  "symbol_content y = y\<lparr>ssID := [], ssRepoID := [], ssFileID := []\<rparr>"

definition file_content :: "File \<Rightarrow> File" where
  "file_content f = f\<lparr>gfID := [], gfRepoID := []\<rparr>"

definition file_view :: "GraphStore \<Rightarrow> File \<Rightarrow> File \<times> StoredSymbol list" where
  "file_view s f = (file_content f, map symbol_content (GetFileSymbols (gfID f) s))"

definition result_view :: "FileResult \<Rightarrow> File \<times> StoredSymbol list" where
  "result_view fr = (stored_file [] [] fr, map (stored_symbol [] [] []) (frSymbols fr))"

definition call_view :: "string \<Rightarrow> GraphStore \<Rightarrow> (StoredSymbol \<times> StoredSymbol) set" where
  "call_view r s = {(symbol_content x, symbol_content y) | x y.
     \<exists>a b. gsSymbols s a = Some x \<and> ssRepoID x = r \<and> b \<in> set (GetCallees a s) \<and> gsSymbols s b = Some y}"

definition relation_view :: "IndexResult \<Rightarrow> (StoredSymbol \<times> StoredSymbol) set" where
  "relation_view result = {(stored_symbol [] [] [] y, stored_symbol [] [] [] z) | y z.
     y \<in> set (result_symbols result) \<and> z \<in> set (result_symbols result)
     \<and> (\<exists>rel\<in>set (ixRelations result). rlType rel = RelationCalls
          \<and> rlSourceID rel = syID y \<and> rlTargetID rel = syID z)}"

text \<open>The repository shows the result: its files with their symbols, and its call edges.\<close>

definition shows_result :: "string \<Rightarrow> IndexResult \<Rightarrow> GraphStore \<Rightarrow> bool" where
  "shows_result r result s \<longleftrightarrow>
     mset (map (file_view s) (GetFiles r s)) = mset (map result_view (ixFiles result))
     \<and> call_view r s = relation_view result"

lemma content_stored [simp]:
  "symbol_content (stored_symbol r i j y) = stored_symbol [] [] [] y"
  "file_content (stored_file r i fr) = stored_file [] [] fr"
  by (simp_all add: symbol_content_def file_content_def stored_symbol_def stored_file_def)

section \<open>Reads after inserting a result\<close>

lemma row_file_ids: "set (map fst rows) \<subseteq> set (row_ids rows)" "distinct (row_ids rows) \<Longrightarrow> distinct (map fst rows)"
proof (induction rows)
  case (Cons row rows)
  { case 1 then show ?case using Cons by (cases row) auto
  next
    case 2 then show ?case using Cons by (cases row) (force dest: subsetD) }
qed simp_all

lemma slice_at_fold_append:
  "i \<notin> fst ` set rows \<Longrightarrow> slice_at (fold (\<lambda>(i, fr, ys). append_at i (map fst ys)) rows m) i = slice_at m i"
  "distinct (map fst rows) \<Longrightarrow> (i, fr, ys) \<in> set rows
     \<Longrightarrow> slice_at (fold (\<lambda>(i, fr, ys). append_at i (map fst ys)) rows m) i = slice_at m i @ map fst ys"
proof (induction rows arbitrary: m)
  case (Cons row rows)
  obtain k gr zs where row: "row = (k, gr, zs)" by (cases row)
  { case 1 then show ?case using Cons.IH(1) by (simp add: row)
  next
    case 2
    show ?case
    proof (cases "k = i")
      case True
      then have "i \<notin> fst ` set rows" using 2 by (force simp: row)
      then show ?thesis using 2 True Cons.IH(1) by (force simp: row)
    next
      case False
      then show ?thesis using 2 Cons.IH(2) by (auto simp: row)
    qed }
qed simp_all

lemma with_rows_file:
  assumes "distinct (row_ids rows)" and "(i, fr, ys) \<in> set rows"
  shows "gsFiles (with_rows r rows s) i = Some (stored_file r i fr)"
proof -
  have "map fst (file_entries r rows) = map fst rows" by (simp add: file_entries_def comp_def case_prod_beta')
  then have "distinct (map fst (file_entries r rows))" using row_file_ids(2) assms(1) by metis
  moreover have "(i, stored_file r i fr) \<in> set (file_entries r rows)" using assms(2) by (force simp: file_entries_def)
  ultimately have "map_of (rev (file_entries r rows)) i = Some (stored_file r i fr)" by (rule map_of_rev_distinct)
  then show ?thesis by (simp add: with_rows_def)
qed

lemma with_rows_old:
  assumes "i \<notin> set (row_ids rows)"
  shows "gsFiles (with_rows r rows s) i = gsFiles s i" and "gsSymbols (with_rows r rows s) i = gsSymbols s i"
    and "slice_at (gsFileSymbols (with_rows r rows s)) i = slice_at (gsFileSymbols s) i"
proof -
  have f: "i \<notin> fst ` set rows" using row_file_ids(1) [of rows] assms by auto
  then have "map_of (rev (file_entries r rows)) i = None"
    by (force simp: map_of_eq_None_iff file_entries_def)
  then show "gsFiles (with_rows r rows s) i = gsFiles s i" by (simp add: with_rows_def map_add_def)
  have "i \<notin> fst ` set (sym_rows rows)" using sym_rows_ids [of rows] assms by auto
  then have "map_of (rev (sym_entries r rows)) i = None"
    by (force simp: map_of_eq_None_iff sym_entries_def)
  then show "gsSymbols (with_rows r rows s) i = gsSymbols s i" by (simp add: with_rows_def map_add_def)
  show "slice_at (gsFileSymbols (with_rows r rows s)) i = slice_at (gsFileSymbols s) i"
    using slice_at_fold_append(1) [OF f] by (simp add: with_rows_def)
qed

lemma GetFiles_with_rows:
  assumes ok: "rows_ok R s" and d: "distinct (row_ids rows)" and new: "set (row_ids rows) \<inter> dom (gsFiles s) = {}"
  shows "GetFiles k (with_rows r rows s)
     = GetFiles k s @ (if k = r then map (\<lambda>(i, fr, ys). stored_file r i fr) rows else [])"
proof -
  let ?s = "with_rows r rows s"
  have old: "gsFiles ?s i = gsFiles s i" if "i \<in> set (slice_at (gsRepoFiles s) k)" for i
  proof -
    have "i \<in> dom (gsFiles s)" using that rows_okD(1) [OF ok] by (auto simp: indexed_iff)
    then show ?thesis using with_rows_old(1) new by blast
  qed
  have "range_vals (gsFiles ?s) (map fst rows') = map (\<lambda>(i, fr, ys). stored_file r i fr) rows'"
    if "set rows' \<subseteq> set rows" for rows'
    using that by (induction rows') (auto simp: with_rows_file [OF d])
  from this [of rows] have new: "range_vals (gsFiles ?s) (map fst rows) = map (\<lambda>(i, fr, ys). stored_file r i fr) rows" by simp
  have "range_vals (gsFiles ?s) (slice_at (gsRepoFiles s) k) = range_vals (gsFiles s) (slice_at (gsRepoFiles s) k)"
    by (rule range_vals_cong [OF old])
  moreover have "slice_at (gsRepoFiles ?s) k = slice_at (gsRepoFiles s) k @ (if k = r then map fst rows else [])"
    by (simp add: with_rows_def)
  ultimately show ?thesis using new by (simp add: GetFiles_def)
qed

lemma GetFileSymbols_with_rows:
  assumes ok: "rows_ok R s" and d: "distinct (row_ids rows)"
    and new: "set (row_ids rows) \<inter> (dom (gsFiles s) \<union> dom (gsSymbols s)) = {}"
  shows "(i, fr, ys) \<in> set rows \<Longrightarrow> GetFileSymbols i (with_rows r rows s) = map (\<lambda>(j, y). stored_symbol r i j y) ys"
    and "i \<in> dom (gsFiles s) \<Longrightarrow> GetFileSymbols i (with_rows r rows s) = GetFileSymbols i s"
proof -
  let ?s = "with_rows r rows s"
  { assume row: "(i, fr, ys) \<in> set rows"
    then have "i \<in> set (row_ids rows)" using row_file_ids(1) [of rows] by force
    then have i: "gsFiles s i = None" using new by blast
    have "slice_at (gsFileSymbols s) i = []"
    proof (rule ccontr)
      assume "slice_at (gsFileSymbols s) i \<noteq> []"
      then obtain j where "j \<in> set (slice_at (gsFileSymbols s) i)" by (cases "slice_at (gsFileSymbols s) i") auto
      then obtain y where "gsSymbols s j = Some y" "ssFileID y = i" using rows_okD(3) [OF ok] by (auto simp: indexed_iff)
      then show False using rows_ok_symbol [OF ok] i by fastforce
    qed
    then have sl: "slice_at (gsFileSymbols ?s) i = map fst ys"
      using slice_at_fold_append(2) [OF row_file_ids(2) [OF d] row] by (simp add: with_rows_def)
    have "(j, i, y) \<in> set (sym_rows rows)" if "(j, y) \<in> set ys" for j y
      using row that by (force simp: sym_rows_def)
    then have "gsSymbols ?s j = Some (stored_symbol r i j y)" if "(j, y) \<in> set ys" for j y
      using with_rows_symbol [OF d] that by blast
    then have "range_vals (gsSymbols ?s) (map fst ys') = map (\<lambda>(j, y). stored_symbol r i j y) ys'"
      if "set ys' \<subseteq> set ys" for ys' using that by (induction ys') auto
    from this [of ys] show "GetFileSymbols i ?s = map (\<lambda>(j, y). stored_symbol r i j y) ys"
      by (simp add: GetFileSymbols_def sl) }
  { assume i: "i \<in> dom (gsFiles s)"
    then have "i \<notin> set (row_ids rows)" using new by blast
    then have sl: "slice_at (gsFileSymbols ?s) i = slice_at (gsFileSymbols s) i" by (rule with_rows_old(3))
    have "gsSymbols ?s j = gsSymbols s j" if "j \<in> set (slice_at (gsFileSymbols s) i)" for j
    proof -
      have "j \<in> dom (gsSymbols s)" using that rows_okD(3) [OF ok] by (auto simp: indexed_iff)
      then show ?thesis using with_rows_old(2) new by blast
    qed
    then have "range_vals (gsSymbols ?s) (slice_at (gsFileSymbols s) i) = range_vals (gsSymbols s) (slice_at (gsFileSymbols s) i)"
      by (rule range_vals_cong)
    then show "GetFileSymbols i ?s = GetFileSymbols i s" by (simp only: GetFileSymbols_def sl) }
qed

abbreviation listing :: "string \<Rightarrow> GraphStore \<Rightarrow> (File \<times> StoredSymbol list) list" where
  "listing r s \<equiv> map (file_view s) (GetFiles r s)"

section \<open>The view after dropping rows\<close>

lemma GetFiles_at: "rows_ok R s \<Longrightarrow> f \<in> set (GetFiles r s) \<longleftrightarrow> gsFiles s (gfID f) = Some f \<and> gfRepoID f = r"
  unfolding GetFiles_def using set_indexed_vals [OF rows_okD(1), of R s r] rows_ok_file [of R s]
  by (auto simp: ran_def)

lemma GetFileSymbols_at:
  "rows_ok R s \<Longrightarrow> y \<in> set (GetFileSymbols i s) \<longleftrightarrow> gsSymbols s (ssID y) = Some y \<and> ssFileID y = i"
  unfolding GetFileSymbols_def using set_indexed_vals [OF rows_okD(3), of R s i] rows_ok_symbol [of R s]
  by (auto simp: ran_def)

lemma range_vals_restrict: "range_vals (m |` (- F)) (filter (\<lambda>i. i \<notin> F) is) = range_vals m (filter (\<lambda>i. i \<notin> F) is)"
  by (rule range_vals_cong) simp

lemma listing_dropped:
  assumes ok: "rows_ok R s" and d: "dropped D F s s'"
    and D: "\<forall>i y. gsSymbols s i = Some y \<longrightarrow> (i \<in> D \<longleftrightarrow> ssFileID y \<in> F)"
  shows "listing k s' = map (file_view s) (filter (\<lambda>f. gfID f \<notin> F) (GetFiles k s))"
proof -
  have "range_vals (gsFiles s) (filter (\<lambda>i. i \<notin> F) is) = filter (\<lambda>f. gfID f \<notin> F) (range_vals (gsFiles s) is)" for "is"
    using rows_ok_file [OF ok] by (induction "is") (auto split: option.split)
  then have files: "GetFiles k s' = filter (\<lambda>f. gfID f \<notin> F) (GetFiles k s)"
    using d by (simp add: GetFiles_def dropped_def range_vals_restrict)
  have "GetFileSymbols i s' = GetFileSymbols i s" if i: "i \<notin> F" for i
  proof -
    have "filter (\<lambda>j. j \<notin> D) (slice_at (gsFileSymbols s) i) = slice_at (gsFileSymbols s) i"
      using D i by (auto simp: indexed_iff [OF rows_okD(3) [OF ok]] intro!: filter_True)
    then show ?thesis using d range_vals_restrict [of "gsSymbols s" D "slice_at (gsFileSymbols s) i"]
      by (simp add: GetFileSymbols_def dropped_def)
  qed
  then show ?thesis unfolding files by (auto simp: file_view_def)
qed

section \<open>The view after inserting rows\<close>

definition row_view :: "row \<Rightarrow> File \<times> StoredSymbol list" where
  "row_view row = (case row of (i, fr, ys) \<Rightarrow> (stored_file [] [] fr, map (\<lambda>(j, y). stored_symbol [] [] [] y) ys))"

lemma row_view_number: "map row_view (number_rows u n frs) = map result_view frs"
proof -
  have "row_view row = result_view (fst (snd row))" if "row \<in> set (number_rows u n frs)" for row
  proof -
    obtain i fr ys where row: "row = (i, fr, ys)" by (cases row)
    have "map (\<lambda>(j, y). stored_symbol [] [] [] y) ys = map (stored_symbol [] [] []) (map snd ys)"
      by (simp add: comp_def case_prod_beta')
    also have "map snd ys = frSymbols fr" using number_rows_symbols that row by blast
    finally show ?thesis by (simp add: row row_view_def result_view_def)
  qed
  then have "map row_view (number_rows u n frs) = map (result_view \<circ> (fst \<circ> snd)) (number_rows u n frs)" by simp
  also have "\<dots> = map result_view (map (fst \<circ> snd) (number_rows u n frs))" by (simp only: map_map)
  finally show ?thesis by (simp only: fst_number_rows)
qed

lemma listing_with_rows:
  assumes ok: "rows_ok R s" and d: "distinct (row_ids rows)"
    and new: "set (row_ids rows) \<inter> (dom (gsFiles s) \<union> dom (gsSymbols s)) = {}"
  shows "listing k (with_rows r rows s) = listing k s @ (if k = r then map row_view rows else [])"
proof -
  let ?s = "with_rows r rows s"
  have files: "GetFiles k ?s = GetFiles k s @ (if k = r then map (\<lambda>(i, fr, ys). stored_file r i fr) rows else [])"
    using GetFiles_with_rows [OF ok d] new by blast
  have old: "file_view ?s f = file_view s f" if "f \<in> set (GetFiles k s)" for f
    using that GetFileSymbols_with_rows(2) [OF ok d new, of "gfID f" r] by (auto simp: GetFiles_at [OF ok] file_view_def domIff)
  have "file_view ?s (stored_file r i fr) = row_view (i, fr, ys)" if "(i, fr, ys) \<in> set rows" for i fr ys
  proof -
    have "gfID (stored_file r i fr) = i" by (simp add: stored_file_def)
    then show ?thesis using GetFileSymbols_with_rows(1) [OF ok d new that]
      by (simp add: file_view_def row_view_def comp_def case_prod_beta')
  qed
  then have "file_view ?s (case row of (i, fr, ys) \<Rightarrow> stored_file r i fr) = row_view row" if "row \<in> set rows" for row
    using that by (cases row) auto
  then show ?thesis unfolding files using old by simp
qed

section \<open>The call edges of a result\<close>

definition call_relation :: "IndexResult \<Rightarrow> string \<Rightarrow> string \<Rightarrow> bool" where
  "call_relation result i j \<longleftrightarrow>
     (\<exists>rel\<in>set (ixRelations result). rlType rel = RelationCalls \<and> rlSourceID rel = i \<and> rlTargetID rel = j)"

lemma relation_view_alt: "relation_view result =
    {(stored_symbol [] [] [] y, stored_symbol [] [] [] z) | y z. y \<in> set (result_symbols result)
       \<and> z \<in> set (result_symbols result) \<and> call_relation result (syID y) (syID z)}"
  by (simp add: relation_view_def call_relation_def)

lemma callees_insert_relations:
  assumes "\<forall>i. idMap i \<noteq> Some []"
  shows "b \<in> set (callees (fold (insert_relation idMap) rels s) a) \<longleftrightarrow> b \<in> set (callees s a)
    \<or> (\<exists>rel\<in>set rels. rlType rel = RelationCalls \<and> idMap (rlSourceID rel) = Some a \<and> idMap (rlTargetID rel) = Some b)"
proof (induction rels arbitrary: s)
  case (Cons rel rels)
  have "id_at idMap i = [] \<longleftrightarrow> idMap i = None" "id_at idMap i = j \<and> j \<noteq> [] \<longleftrightarrow> idMap i = Some j" for i j
    using assms by (auto simp: id_at_def split: option.splits)
  then have "b \<in> set (callees (insert_relation idMap rel s) a) \<longleftrightarrow> b \<in> set (callees s a)
      \<or> rlType rel = RelationCalls \<and> idMap (rlSourceID rel) = Some a \<and> idMap (rlTargetID rel) = Some b"
    using assms by (cases "idMap (rlSourceID rel)"; cases "idMap (rlTargetID rel)")
      (auto simp: insert_relation_def add_call_def Let_def id_at_def)
  then show ?case using Cons.IH [of "insert_relation idMap rel s"] by auto
qed simp

lemma callees_merge_relations:
  "b \<in> set (callees (fold (merge_relation resolve) rels s) a) \<longleftrightarrow> b \<in> set (callees s a)
    \<or> (\<exists>rel\<in>set rels. rlType rel = RelationCalls \<and> resolve (rlSourceID rel) = Some a \<and> resolve (rlTargetID rel) = Some b)"
proof (induction rels arbitrary: s)
  case (Cons rel rels)
  have "b \<in> set (callees (merge_relation resolve rel s) a) \<longleftrightarrow> b \<in> set (callees s a)
      \<or> rlType rel = RelationCalls \<and> resolve (rlSourceID rel) = Some a \<and> resolve (rlTargetID rel) = Some b"
    by (auto simp: merge_relation_def merge_call_def Let_def split: option.split)
  then show ?case using Cons.IH [of "merge_relation resolve rel s"] by auto
qed simp

lemma map_fst_sym_rows: "map (snd \<circ> snd) (sym_rows (number_rows u n frs)) = concat (map frSymbols frs)"
proof (induction frs arbitrary: n)
  case (Cons fr frs)
  then show ?case by (simp add: comp_def case_prod_beta' map_snd_zip del: upt_Suc)
qed simp

lemma sym_row_symbol_iff:
  "y \<in> set (concat (map frSymbols frs)) \<longleftrightarrow> (\<exists>j i. (j, i, y) \<in> set (sym_rows (number_rows u n frs)))"
  by (simp only: map_fst_sym_rows [of u n frs, symmetric] list.set_map) force

lemma id_entries_at:
  assumes "distinct (map syID (concat (map frSymbols frs)))" and "rows = number_rows u n frs"
  shows "map_of (rev (id_entries rows)) k = Some j \<longleftrightarrow> (\<exists>i y. (j, i, y) \<in> set (sym_rows rows) \<and> syID y = k)"
proof -
  have "map fst (id_entries rows) = map syID (map (snd \<circ> snd) (sym_rows rows))"
    by (simp add: id_entries_def comp_def case_prod_beta')
  then have "distinct (map fst (id_entries rows))" using assms map_fst_sym_rows [of u n frs] by (simp only:)
  then have "map_of (rev (id_entries rows)) k = Some j \<longleftrightarrow> (k, j) \<in> set (id_entries rows)"
    using map_of_rev_distinct [of "id_entries rows" k j] map_of_SomeD [of "rev (id_entries rows)" k j] by auto
  then show ?thesis by (force simp: id_entries_def)
qed

lemma call_view_iff:
  "\<forall>a b. b \<in> set (callees s a) \<longrightarrow> same_repo s a b \<Longrightarrow> (u, v) \<in> call_view r s \<longleftrightarrow> (\<exists>a b x y. (gsSymbols s a = Some x \<and> ssRepoID x = r)
     \<and> (gsSymbols s b = Some y \<and> ssRepoID y = r) \<and> b \<in> set (callees s a) \<and> u = symbol_content x \<and> v = symbol_content y)"
  unfolding call_view_def GetCallees_def by (fastforce simp: same_repo_def)

lemma call_pairs_cong:
  "(\<And>a x b y. P a x \<Longrightarrow> P b y \<Longrightarrow> Q a b = Q' a b) \<Longrightarrow> (\<exists>a b x y. P a x \<and> P b y \<and> Q a b \<and> u = f x \<and> v = f y)
     = (\<exists>a b x y. P a x \<and> P b y \<and> Q' a b \<and> u = f x \<and> v = f y)"
  by blast

lemma same_call_view:
  assumes "\<forall>a b. b \<in> set (callees s a) \<longrightarrow> same_repo s a b" and "\<forall>a b. b \<in> set (callees s' a) \<longrightarrow> same_repo s' a b"
    and "\<And>a x. gsSymbols s' a = Some x \<and> ssRepoID x = k \<longleftrightarrow> gsSymbols s a = Some x \<and> ssRepoID x = k"
    and "\<And>a x b y. gsSymbols s a = Some x \<and> ssRepoID x = k \<Longrightarrow> gsSymbols s b = Some y \<and> ssRepoID y = k
      \<Longrightarrow> b \<in> set (callees s' a) \<longleftrightarrow> b \<in> set (callees s a)"
  shows "call_view k s' = call_view k s"
proof -
  have "(u, v) \<in> call_view k s' \<longleftrightarrow> (u, v) \<in> call_view k s" for u v
    unfolding call_view_iff [OF assms(1)] call_view_iff [OF assms(2)] assms(3)
    by (rule call_pairs_cong) (rule assms(4))
  then show ?thesis by auto
qed

lemma fold_related: "(\<And>x s. P s (f x s)) \<Longrightarrow> (\<And>s. P s s) \<Longrightarrow> (\<And>s s' s''. P s s' \<Longrightarrow> P s' s'' \<Longrightarrow> P s s'')
    \<Longrightarrow> P s (fold f xs s)"
proof (induction xs arbitrary: s)
  case (Cons x xs)
  show ?case using Cons.prems(3) [OF Cons.prems(1) Cons.IH [OF Cons.prems]] by simp
qed simp

lemma files_kept_refl: "files_kept s s"
  by (simp add: files_kept_def frame_def)

lemma relations_files_kept:
  "files_kept s (fold (insert_relation idMap) rels s)" "files_kept s (fold (merge_relation resolve) rels s)"
  by (rule fold_related; (rule files_kept_refl | erule (1) files_kept_trans
        | simp add: insert_relation_def merge_relation_def merge_call_def add_call_def Let_def files_kept_def frame_def
            split: option.split))+

text \<open>A symbol of the grown store is an old one or the row of a new one.\<close>

lemma with_rows_symbol_iff:
  assumes d: "distinct (row_ids rows)" and new: "set (row_ids rows) \<inter> dom (gsSymbols s) = {}"
  shows "gsSymbols (with_rows r rows s) j = Some x
    \<longleftrightarrow> gsSymbols s j = Some x \<or> (\<exists>i y. (j, i, y) \<in> set (sym_rows rows) \<and> x = stored_symbol r i j y)"
proof (cases "\<exists>i y. (j, i, y) \<in> set (sym_rows rows)")
  case True
  then obtain i y where row: "(j, i, y) \<in> set (sym_rows rows)" by blast
  then have "j \<in> set (row_ids rows)" using sym_rows_ids [of rows] by force
  then have "gsSymbols s j = None" using new by blast
  moreover have "gsSymbols (with_rows r rows s) j = Some (stored_symbol r i' j y')" if "(j, i', y') \<in> set (sym_rows rows)" for i' y'
    using with_rows_symbol [OF d that] .
  ultimately show ?thesis using row by fastforce
next
  case False
  then have "map_of (rev (sym_entries r rows)) j = None" by (force simp: map_of_eq_None_iff sym_entries_def)
  then show ?thesis using False by (auto simp: with_rows_def map_add_def)
qed

lemma sym_row_unique:
  "distinct (row_ids rows) \<Longrightarrow> (j, i, y) \<in> set (sym_rows rows) \<Longrightarrow> (j, i', y') \<in> set (sym_rows rows) \<Longrightarrow> y' = y"
  using distinct_sym_rows [of rows] by (metis eq_key_imp_eq_value prod.inject)

section \<open>Inserting a whole result\<close>

text \<open>
  The store after inserting a result, in terms of the ids it drew: the files are appended, the symbols
  are the old ones and those of the result, and the call edges are the old ones and those of the relations.
\<close>

lemma insert_result_effect:
  assumes ok: "rows_ok R s" and sup: "supplied s" and r: "r \<in> R" and p: "paths_agree (ixFiles result)"
    and dist: "distinct (map syID (result_symbols result))" and s': "s' = insert_result r result s"
    and rows: "rows = number_rows (gsUUID s) (gsDrawn s) (ixFiles result)"
  shows "listing k s' = listing k s @ (if k = r then map result_view (ixFiles result) else [])"
    and "distinct (row_ids rows)" and "set (row_ids rows) \<inter> dom (gsSymbols s) = {}"
    and "gsSymbols s' j = Some x \<longleftrightarrow> gsSymbols s j = Some x \<or> (\<exists>i y. (j, i, y) \<in> set (sym_rows rows) \<and> x = stored_symbol r i j y)"
    and "b \<in> set (callees s' a) \<longleftrightarrow> b \<in> set (callees s a) \<or> (\<exists>f g y z. (a, f, y) \<in> set (sym_rows rows)
      \<and> (b, g, z) \<in> set (sym_rows rows) \<and> call_relation result (syID y) (syID z))"
proof -
  define idMap where "idMap = map_of (rev (id_entries rows))"
  define s1 where "s1 = with_rows r rows s"
  define s2 where "s2 = fold (insert_relation idMap) (ixRelations result) s1"
  have run: "fold (insert_file r) (ixFiles result) (Map.empty, s) = (idMap, s1)"
    by (simp add: fold_insert_file Let_def rows idMap_def s1_def)
  have s3: "s' = fold (insert_module r) (ixModules result) s2"
    by (simp add: s' insert_result_def run s2_def)
  have u: "uuid_ok s" using sup by (simp add: supplied_def)
  have ids: "row_ids rows = ids_from (gsUUID s) (gsDrawn s) (length (row_ids rows))"
    unfolding rows by (rule row_ids_number)
  show d: "distinct (row_ids rows)" using ids_from_fresh(1) [OF u] ids by metis
  have "set (row_ids rows) \<inter> drawn s = {}" using ids_from_fresh(2) [OF u] ids by metis
  then have new: "set (row_ids rows) \<inter> (dom (gsFiles s) \<union> dom (gsSymbols s)) = {}"
    using sup unfolding supplied_def by blast
  then show "set (row_ids rows) \<inter> dom (gsSymbols s) = {}" by blast
  have ok1: "rows_ok R s1" and "\<forall>i j. idMap i = Some j \<longrightarrow> (\<exists>y. gsSymbols s1 j = Some y \<and> ssRepoID y = r)"
    using insert_files_ok [OF ok sup r p run] by blast+
  then have sy2: "gsSymbols s2 = gsSymbols s1" using rows_ok_insert_relations by (simp add: s2_def)
  have keep: "gsSymbols s' = gsSymbols s1" "gsFiles s' = gsFiles s1" "gsRepoFiles s' = gsRepoFiles s1"
    "gsFileSymbols s' = gsFileSymbols s1" "gsCallGraph s' = gsCallGraph s2" "gsCallGraph s1 = gsCallGraph s"
    using relations_files_kept(1) [of s1 idMap "ixRelations result"]
    by (simp_all add: s3 fold_insert_module Let_def s2_def [symmetric] files_kept_def sy2) (simp add: s1_def with_rows_def)
  have "listing k s' = listing k s1" using keep by (simp add: GetFiles_def file_view_def GetFileSymbols_def)
  also have "\<dots> = listing k s @ (if k = r then map row_view rows else [])"
    unfolding s1_def by (rule listing_with_rows [OF ok d new])
  finally show "listing k s' = listing k s @ (if k = r then map result_view (ixFiles result) else [])"
    by (simp only: rows row_view_number)
  show "gsSymbols s' j = Some x \<longleftrightarrow> gsSymbols s j = Some x \<or> (\<exists>i y. (j, i, y) \<in> set (sym_rows rows) \<and> x = stored_symbol r i j y)"
    unfolding keep s1_def using with_rows_symbol_iff [OF d] new by blast
  have id: "idMap i = Some j \<longleftrightarrow> (\<exists>f y. (j, f, y) \<in> set (sym_rows rows) \<and> syID y = i)" for i j
    unfolding idMap_def by (rule id_entries_at [OF dist [unfolded result_symbols_def] rows])
  have "\<forall>i. idMap i \<noteq> Some []"
  proof safe
    fix i assume "idMap i = Some []"
    then have "[] \<in> set (row_ids rows)" using sym_rows_ids [of rows] id by force
    then show False using ids u by (metis (no_types, lifting) imageE list.set_map uuid_ok_def)
  qed
  then show "b \<in> set (callees s' a) \<longleftrightarrow> b \<in> set (callees s a) \<or> (\<exists>f g y z. (a, f, y) \<in> set (sym_rows rows)
      \<and> (b, g, z) \<in> set (sym_rows rows) \<and> call_relation result (syID y) (syID z))"
    using callees_insert_relations [of idMap b "ixRelations result" s1 a]
    unfolding keep(5) s2_def [symmetric] keep(6) id call_relation_def by (simp, metis)
qed

definition same_views :: "string \<Rightarrow> GraphStore \<Rightarrow> GraphStore \<Rightarrow> bool" where
  "same_views k s s' \<longleftrightarrow> listing k s' = listing k s \<and> call_view k s' = call_view k s"

lemma insert_result_views:
  assumes ok: "rows_ok R s" and sup: "supplied s" and r: "r \<in> R" and p: "paths_agree (ixFiles result)"
    and dist: "distinct (map syID (result_symbols result))"
    and none: "\<forall>i y. gsSymbols s i = Some y \<longrightarrow> ssRepoID y \<noteq> r" and s': "s' = insert_result r result s"
  shows "call_view r s' = relation_view result" and "k \<noteq> r \<Longrightarrow> same_views k s s'"
proof -
  define rows where "rows = number_rows (gsUUID s) (gsDrawn s) (ixFiles result)"
  note e = insert_result_effect [OF ok sup r p dist s' rows_def]
  have ok': "rows_ok R s'" using insert_result_ok [OF ok sup r p] by (simp add: s')
  have new: "gsSymbols s j = None" if "(j, i, y) \<in> set (sym_rows rows)" for j i y
    using that sym_rows_ids [of rows] e(3) by force
  have own0: "\<forall>a b. b \<in> set (callees s a) \<longrightarrow> same_repo s a b" using rows_ok_call [OF ok] by blast
  have own': "\<forall>a b. b \<in> set (callees s' a) \<longrightarrow> same_repo s' a b" using rows_ok_call [OF ok'] by blast
  have own: "gsSymbols s a \<noteq> None" if "b \<in> set (callees s a)" for a b
    using rows_ok_call [OF ok that] by (auto simp: same_repo_def)
  have syms: "y \<in> set (result_symbols result) \<longleftrightarrow> (\<exists>j i. (j, i, y) \<in> set (sym_rows rows))" for y
    unfolding result_symbols_def rows_def by (rule sym_row_symbol_iff)
  have row: "gsSymbols s' j = Some x \<and> ssRepoID x = r \<longleftrightarrow> (\<exists>i y. (j, i, y) \<in> set (sym_rows rows) \<and> x = stored_symbol r i j y)"
    for j x using e(4) none by (auto simp: stored_symbol_def)
  show "call_view r s' = relation_view result"
  proof (intro set_eqI iffI; clarify)
    fix u v assume "(u, v) \<in> call_view r s'"
    then obtain a b x y where "gsSymbols s' a = Some x \<and> ssRepoID x = r" "gsSymbols s' b = Some y \<and> ssRepoID y = r"
      and edge: "b \<in> set (callees s' a)" and uv: "u = symbol_content x" "v = symbol_content y"
      using call_view_iff [OF own'] by blast
    then obtain i k y1 y2 where 1: "(a, i, y1) \<in> set (sym_rows rows)" "(b, k, y2) \<in> set (sym_rows rows)"
      and xy: "x = stored_symbol r i a y1" "y = stored_symbol r k b y2" unfolding row by blast
    have "call_relation result (syID y1) (syID y2)"
      using edge e(5) own new [OF 1(1)] sym_row_unique [OF e(2)] 1 by blast
    then show "(u, v) \<in> relation_view result" unfolding relation_view_alt uv xy syms using 1 by auto
  next
    fix u v assume "(u, v) \<in> relation_view result"
    then obtain y z a i b k where 1: "(a, i, y) \<in> set (sym_rows rows)" "(b, k, z) \<in> set (sym_rows rows)"
      and rel: "call_relation result (syID y) (syID z)" and uv: "u = stored_symbol [] [] [] y" "v = stored_symbol [] [] [] z"
      unfolding relation_view_alt syms by blast
    have "b \<in> set (callees s' a)" using e(5) 1 rel by blast
    then show "(u, v) \<in> call_view r s'"
      using row [of a "stored_symbol r i a y"] row [of b "stored_symbol r k b z"] 1
      unfolding call_view_iff [OF own'] uv by (metis content_stored(1))
  qed
  assume k: "k \<noteq> r"
  have "call_view k s' = call_view k s"
  proof (rule same_call_view [OF own0 own'])
    show "gsSymbols s' a = Some x \<and> ssRepoID x = k \<longleftrightarrow> gsSymbols s a = Some x \<and> ssRepoID x = k" for a x
      using e(4) k by (auto simp: stored_symbol_def)
    show "b \<in> set (callees s' a) \<longleftrightarrow> b \<in> set (callees s a)" if "gsSymbols s a = Some x \<and> ssRepoID x = k" for a x b
      using e(5) [where a = a and b = b] new that by auto
  qed
  then show "same_views k s s'" using e(1) [of k] k by (simp add: same_views_def)
qed

end
