(* ===== verification/Graph_Replace.thy ===== *)
theory Graph_Replace
  imports Graph_View
begin

text \<open>
  A stored result and a replaced one are shown as delivered; other repositories keep what they show.
\<close>

section \<open>Storing and replacing show the result\<close>

lemma views_cong:
  assumes "gsFiles s' = gsFiles s" "gsSymbols s' = gsSymbols s" "gsRepoFiles s' = gsRepoFiles s"
    "gsFileSymbols s' = gsFileSymbols s" "gsCallGraph s' = gsCallGraph s"
  shows "same_views k s s'"
  using assms by (simp add: same_views_def GetFiles_def file_view_def GetFileSymbols_def call_view_def GetCallees_def)

lemma same_views_trans: "same_views k s s' \<Longrightarrow> same_views k s' s'' \<Longrightarrow> same_views k s s''"
  by (simp add: same_views_def)

text \<open>Dropping rows of one repository leaves the views of the others alone.\<close>

lemma other_views_dropped:
  assumes ok: "rows_ok R s" and d: "dropped D F s s'" and k: "k \<noteq> r"
    and D: "\<forall>i y. gsSymbols s i = Some y \<longrightarrow> (i \<in> D \<longleftrightarrow> ssFileID y \<in> F)"
    and F: "\<forall>i f. gsFiles s i = Some f \<and> i \<in> F \<longrightarrow> gfRepoID f = r"
  shows "listing k s' = listing k s" and "call_view k s' = call_view k s"
proof -
  have "filter (\<lambda>f. gfID f \<notin> F) (GetFiles k s) = GetFiles k s"
    using F k by (auto simp: GetFiles_at [OF ok] intro!: filter_True)
  then show "listing k s' = listing k s" using listing_dropped [OF ok d D] by simp
  have alive: "i \<notin> D" if i: "gsSymbols s i = Some y" and y: "ssRepoID y = k" for i y
  proof
    assume "i \<in> D"
    then have "ssFileID y \<in> F" using D i by blast
    then show False using rows_ok_symbol [OF ok i] F k y by metis
  qed
  have own: "\<forall>a b. b \<in> set (callees s a) \<longrightarrow> same_repo s a b" using rows_ok_call [OF ok] by blast
  then have own': "\<forall>a b. b \<in> set (callees s' a) \<longrightarrow> same_repo s' a b"
    using d by (auto simp: dropped_def same_repo_def split: if_splits)
  show "call_view k s' = call_view k s"
    by (rule same_call_view [OF own own']) (use d alive in \<open>auto simp: dropped_def restrict_map_def\<close>)
qed

lemma drop_index_rows_views:
  assumes ok: "rows_ok R s" and k: "k \<noteq> r"
  shows "same_views k s (drop_index_rows r s)"
proof -
  let ?D = "set (slice_at (gsRepoSymbols s) r)" and ?F = "set (slice_at (gsRepoFiles s) r)"
  obtain g c s1 where d: "dropped ?D ?F s s1"
    and run: "drop_index_rows r s = s1\<lparr>gsModules := gsModules s |` (- set (slice_at (gsRepoModules s) r)),
                             gsRepoModules := (gsRepoModules s)(r := None)\<rparr>"
    using drop_index_rows_effect [OF ok, of r] by blast
  have "\<forall>i y. gsSymbols s i = Some y \<longrightarrow> (i \<in> ?D \<longleftrightarrow> ssFileID y \<in> ?F)"
    using rows_ok_symbol [OF ok] by (fastforce simp: indexed_iff [OF rows_okD(1) [OF ok]] indexed_iff [OF rows_okD(2) [OF ok]])
  moreover have "\<forall>i f. gsFiles s i = Some f \<and> i \<in> ?F \<longrightarrow> gfRepoID f = r"
    by (auto simp: indexed_iff [OF rows_okD(1) [OF ok]])
  ultimately have "same_views k s s1" using other_views_dropped [OF ok d k] by (simp add: same_views_def)
  moreover have "same_views k s1 (drop_index_rows r s)" unfolding run by (rule views_cong) simp_all
  ultimately show ?thesis by (rule same_views_trans)
qed

lemma drop_index_rows_none:
  assumes ok: "rows_ok R s"
  shows "\<forall>i y. gsSymbols (drop_index_rows r s) i = Some y \<longrightarrow> ssRepoID y \<noteq> r"
  using rows_okD(2) [OF rows_ok_drop_index_rows [OF ok, of r]] drop_index_rows_empty(3) [OF ok, of r]
    indexed_row by fastforce

lemma ReplaceIndexResult_views:
  assumes wf: "graph_wf s" and repo: "gsRepos s r = Some repo" and p: "paths_agree (ixFiles result)"
    and dist: "distinct (map syID (result_symbols result))" and s': "s' = snd (ReplaceIndexResult now r result s)"
  shows "listing r s' = map result_view (ixFiles result)" and "call_view r s' = relation_view result"
    and "k \<noteq> r \<Longrightarrow> same_views k s s'"
proof -
  define s1 where "s1 = drop_index_rows r s"
  define s2 where "s2 = s1\<lparr>gsImports := filter (\<lambda>imp. siFileID imp \<notin> set (slice_at (gsRepoFiles s1) r)) (gsImports s1)\<rparr>"
  define s3 where "s3 = insert_result r result s2"
  let ?R = "dom (gsRepos s)"
  have ok: "rows_ok ?R s" and sup: "supplied s" using wf by (simp_all add: graph_wf_alt)
  have 1: "rows_ok ?R s1" "supplied s1"
    using rows_ok_drop_index_rows [OF ok] drop_index_rows_frame [OF ok sup] by (simp_all add: s1_def)
  have 2: "rows_ok ?R s2" "supplied s2"
    using 1 by (simp_all add: s2_def rows_ok_def mirrored_def same_repo_def supplied_def uuid_ok_def drawn_def)
  have none: "\<forall>i y. gsSymbols s2 i = Some y \<longrightarrow> ssRepoID y \<noteq> r"
    using drop_index_rows_none [OF ok] by (simp add: s2_def s1_def)
  have r: "r \<in> ?R" using repo by blast
  note ins = insert_result_effect(1) [OF 2 r p dist s3_def refl] insert_result_views [OF 2 r p dist none s3_def]
  have last: "same_views k s3 s'" for k
    unfolding s' by (rule views_cong) (simp_all add: ReplaceIndexResult_def repo Let_def s1_def [symmetric] s2_def [symmetric]
        s3_def [symmetric] split_beta)
  have "GetFiles r s2 = []"
    using drop_index_rows_empty(1) [OF ok] by (simp add: GetFiles_def s2_def s1_def)
  then show "listing r s' = map result_view (ixFiles result)" "call_view r s' = relation_view result"
    using last [of r] ins(1) [of r] ins(2) by (simp_all add: same_views_def)
  assume k: "k \<noteq> r"
  have "same_views k s s1" unfolding s1_def by (rule drop_index_rows_views [OF ok k])
  moreover have "same_views k s1 s2" by (rule views_cong) (simp_all add: s2_def)
  ultimately show "same_views k s s'" using ins(3) [OF k] last [of k] same_views_trans by blast
qed

lemma StoreIndexResult_views:
  assumes wf: "graph_wf s" and p: "paths_agree (ixFiles result)"
    and dist: "distinct (map syID (result_symbols result))" and run: "(repo, s') = StoreIndexResult now result s"
  shows "listing (grID repo) s' = map result_view (ixFiles result)" and "call_view (grID repo) s' = relation_view result"
    and "gsRepos s (grID repo) = None" and "k \<noteq> grID repo \<Longrightarrow> same_views k s s'"
proof -
  define r where "r = gsUUID s (gsDrawn s)"
  define s1 where "s1 = s\<lparr>gsDrawn := Suc (gsDrawn s)\<rparr>"
  define s2 where "s2 = insert_result r result s1"
  let ?R = "insert r (dom (gsRepos s))"
  have ok: "rows_ok (dom (gsRepos s)) s" and sup: "supplied s" using wf by (simp_all add: graph_wf_alt)
  have id: "grID repo = r"
    using run by (simp add: StoreIndexResult_def graph_NewString_def Let_def r_def indexed_repository_def split_beta)
  have new: "r \<notin> dom (gsRepos s)" using sup next_id_fresh by (auto simp: supplied_def r_def)
  then show "gsRepos s (grID repo) = None" by (simp add: id domIff)
  have "rows_ok ?R s" using rows_ok_mono [OF ok] by blast
  then have ok1: "rows_ok ?R s1" by (simp add: s1_def rows_ok_def mirrored_def same_repo_def)
  have more: "drawn s1 = insert r (drawn s)" by (simp add: s1_def r_def drawn_def lessThan_Suc)
  have sup1: "supplied s1" using sup more unfolding supplied_def by (simp add: s1_def uuid_ok_def) blast
  have "ssRepoID y \<noteq> r" if "gsSymbols s i = Some y" for i y
    using rows_ok_symbol [OF ok that] rows_ok_file [OF ok] new by fastforce
  then have none: "\<forall>i y. gsSymbols s1 i = Some y \<longrightarrow> ssRepoID y \<noteq> r" by (simp add: s1_def)
  note ins = insert_result_effect(1) [OF ok1 sup1 insertI1 p dist s2_def refl]
    insert_result_views [OF ok1 sup1 insertI1 p dist none s2_def]
  have last: "same_views k s2 s'" for k
    using run by (intro views_cong) (simp_all add: StoreIndexResult_def graph_NewString_def Let_def r_def [symmetric]
        s1_def [symmetric] s2_def [symmetric])
  have first: "same_views k s s1" for k by (rule views_cong) (simp_all add: s1_def)
  have "f \<notin> set (GetFiles r s)" for f using rows_ok_file [OF ok] new by (auto simp: GetFiles_at [OF ok])
  then have "GetFiles r s = []" by (cases "GetFiles r s") auto
  then have "GetFiles r s1 = []" using first [of r] by (simp add: same_views_def)
  then show "listing (grID repo) s' = map result_view (ixFiles result)" "call_view (grID repo) s' = relation_view result"
    using last [of r] ins(1) [of r] ins(2) by (simp_all add: same_views_def id)
  assume "k \<noteq> grID repo"
  then show "same_views k s s'" using first [of k] ins(3) [of k] last [of k] same_views_trans id by blast
qed

end
