(* ===== verification/Graph_Incremental.thy ===== *)
theory Graph_Incremental
  imports Graph_Replace
begin

text \<open>
  A merge of the affected files shows the new result, as if it had been stored as a whole.
\<close>

section \<open>A merge shows the new result\<close>

definition symbol_key :: "Symbol \<Rightarrow> string" where
  "symbol_key y = storeSymbolLookupKey (syFilePath y) (syQualifiedName y) (syKind y) (syStartLine y)"

definition stored_key :: "StoredSymbol \<Rightarrow> string" where
  "stored_key y = storeSymbolLookupKey (ssFilePath y) (ssQualifiedName y) (ssKind y) (ssStartLine y)"

lemma content_key: "symbol_content x = stored_symbol [] [] [] y \<Longrightarrow> ssFilePath x = syFilePath y \<and> stored_key x = symbol_key y"
  by (cases x) (simp add: symbol_content_def stored_symbol_def stored_key_def symbol_key_def)

text \<open>
  The new result differs from the old one by the files in \<open>A\<close> only: the other files are the same, the
  old calls between their symbols are still there, and their symbols have lookup keys of their own.
\<close>

definition incremental :: "string set \<Rightarrow> IndexResult \<Rightarrow> IndexResult \<Rightarrow> bool" where
  "incremental A old new \<longleftrightarrow>
     distinct (map frPath (ixFiles old)) \<and> paths_agree (ixFiles new) \<and> distinct (map syID (result_symbols new))
     \<and> mset (map result_view (filter (\<lambda>fr. frPath fr \<notin> A) (ixFiles new)))
         = mset (map result_view (filter (\<lambda>fr. frPath fr \<notin> A) (ixFiles old)))
     \<and> distinct (map symbol_key (filter (\<lambda>y. syFilePath y \<notin> A) (result_symbols new)))
     \<and> (\<forall>(u, v)\<in>relation_view old. ssFilePath u \<notin> A \<and> ssFilePath v \<notin> A \<longrightarrow> (u, v) \<in> relation_view new)"

lemma view_paths: "gfPath (fst (file_view s f)) = gfPath f" "gfPath (fst (result_view fr)) = frPath fr"
  by (simp_all add: file_view_def file_content_def result_view_def stored_file_def)

lemma filter_views:
  "mset (map g xs) = mset (map h ys) \<Longrightarrow> mset (map g (filter (\<lambda>x. P (g x)) xs)) = mset (map h (filter (\<lambda>y. P (h y)) ys))"
proof -
  assume "mset (map g xs) = mset (map h ys)"
  then have "mset (filter P (map g xs)) = mset (filter P (map h ys))" by (simp only: mset_filter)
  then show ?thesis by (simp only: filter_map comp_def)
qed

lemma existing_by_path_in:
  assumes "distinct (map gfPath (GetFiles r s))" and "f \<in> set (GetFiles r s)"
  shows "existing_by_path r s (gfPath f) = Some f"
proof -
  let ?kvs = "map (\<lambda>f. (gfPath f, f)) (GetFiles r s)"
  have "fold (\<lambda>f m. m(gfPath f \<mapsto> f)) fs m = m ++ map_of (rev (map (\<lambda>f. (gfPath f, f)) fs))" for fs and m :: "string \<rightharpoonup> File"
    by (induction fs arbitrary: m) auto
  then have "existing_by_path r s = map_of (rev ?kvs)"
    unfolding existing_by_path_def GetFiles_def [symmetric] by simp
  moreover have "distinct (map fst ?kvs)" "(gfPath f, f) \<in> set ?kvs" using assms by (simp_all add: comp_def)
  ultimately show ?thesis by (simp only: map_of_rev_distinct)
qed

lemma carry_forward_some:
  assumes "i \<in> set (slice_at (gsRepoSymbols s) r)" and "gsSymbols s i = Some y" and "ssFilePath y \<notin> A"
  shows "carry_forward r A s (stored_key y) \<noteq> None"
proof -
  define upd where "upd = (\<lambda>sid m. case gsSymbols s sid of None \<Rightarrow> m
         | Some ss \<Rightarrow> if ssFilePath ss \<in> A then m
             else m(storeSymbolLookupKey (ssFilePath ss) (ssQualifiedName ss) (ssKind ss) (ssStartLine ss) \<mapsto> sid))"
  have keep: "m k \<noteq> None \<Longrightarrow> fold upd is m k \<noteq> None" for "is" m k
    by (induction "is" arbitrary: m) (auto simp: upd_def split: option.split)
  have "i \<in> set is \<Longrightarrow> fold upd is m (stored_key y) \<noteq> None" for "is" m
  proof (induction "is" arbitrary: m)
    case (Cons k "is")
    show ?case
    proof (cases "k = i")
      case True
      then have "upd k m (stored_key y) \<noteq> None" using assms(2,3) by (simp add: upd_def stored_key_def)
      then show ?thesis using keep by simp
    qed (use Cons in simp)
  qed simp
  then show ?thesis using assms(1) by (simp add: carry_forward_def upd_def)
qed

lemma result_tuples_at:
  assumes "distinct (map syID (result_symbols result))"
  shows "result_tuples result i = Some t \<longleftrightarrow> (\<exists>y\<in>set (result_symbols result). syID y = i \<and> symbol_key y = t)"
proof -
  have "distinct (map syID ys) \<Longrightarrow> fold (\<lambda>y m. m(syID y \<mapsto> symbol_key y)) ys m i = Some t
      \<longleftrightarrow> (\<exists>y\<in>set ys. syID y = i \<and> symbol_key y = t) \<or> (i \<notin> syID ` set ys \<and> m i = Some t)" for ys and m :: id_map
    by (induction ys arbitrary: m) auto
  from this [OF assms, of Map.empty] show ?thesis by (simp add: result_tuples_def symbol_key_def)
qed

lemma distinct_kept: "distinct (map syID (concat (map frSymbols frs)))
    \<Longrightarrow> distinct (map syID (concat (map frSymbols (filter P frs))))"
  by (induction frs) (auto simp: image_iff)

lemma incremental_symbols:
  assumes "paths_agree (ixFiles new)"
  shows "y \<in> set (concat (map frSymbols (filter (\<lambda>fr. frPath fr \<in> A) (ixFiles new))))
     \<longleftrightarrow> y \<in> set (result_symbols new) \<and> syFilePath y \<in> A"
  using assms by (auto simp: paths_agree_def result_symbols_def)

text \<open>The files the merge drops are those with an affected path.\<close>

lemma affected_files:
  assumes ok: "rows_ok R s" and d: "distinct (map gfPath (GetFiles r s))" and f: "f \<in> set (GetFiles r s)"
    and ps: "set ps = A"
  shows "gfID f \<in> gfID ` drop_set ps (existing_by_path r s) \<longleftrightarrow> gfPath f \<in> A"
proof
  assume "gfID f \<in> gfID ` drop_set ps (existing_by_path r s)"
  then obtain g p where "p \<in> A" "existing_by_path r s p = Some g" "gfID g = gfID f"
    using ps by (auto simp: drop_set_def)
  then show "gfPath f \<in> A" using existing_by_path_at [OF ok, of r p g] f by (auto simp: GetFiles_at [OF ok])
next
  assume "gfPath f \<in> A"
  then show "gfID f \<in> gfID ` drop_set ps (existing_by_path r s)"
    using existing_by_path_in [OF d f] ps by (auto simp: drop_set_def)
qed

text \<open>Each symbol outside the affected files is one of the new result, and conversely.\<close>

lemma kept_symbols:
  assumes ok: "rows_ok R s" and inc: "incremental A old new"
    and list: "mset (map (file_view s) (filter (\<lambda>f. gfPath f \<notin> A) (GetFiles r s)))
         = mset (map result_view (filter (\<lambda>fr. frPath fr \<notin> A) (ixFiles new)))"
  shows "gsSymbols s j = Some x \<Longrightarrow> ssRepoID x = r \<Longrightarrow> ssFilePath x \<notin> A
      \<Longrightarrow> \<exists>y\<in>set (result_symbols new). syFilePath y \<notin> A \<and> symbol_content x = stored_symbol [] [] [] y"
    and "y \<in> set (result_symbols new) \<Longrightarrow> syFilePath y \<notin> A
      \<Longrightarrow> \<exists>j x. gsSymbols s j = Some x \<and> ssRepoID x = r \<and> ssFilePath x \<notin> A \<and> symbol_content x = stored_symbol [] [] [] y"
proof -
  have views: "file_view s ` {f \<in> set (GetFiles r s). gfPath f \<notin> A} = result_view ` {fr \<in> set (ixFiles new). frPath fr \<notin> A}"
    using mset_eq_setD [OF list] by simp
  have p: "\<And>fr y. fr \<in> set (ixFiles new) \<Longrightarrow> y \<in> set (frSymbols fr) \<Longrightarrow> syFilePath y = frPath fr"
    using inc by (simp add: incremental_def paths_agree_def)
  { assume x: "gsSymbols s j = Some x" "ssRepoID x = r" "ssFilePath x \<notin> A"
    obtain f where f: "gsFiles s (ssFileID x) = Some f" "gfRepoID f = r" "gfPath f = ssFilePath x" "gfID f = ssFileID x"
      using rows_ok_symbol [OF ok x(1)] rows_ok_file [OF ok] x(2) by blast
    then have "f \<in> {f \<in> set (GetFiles r s). gfPath f \<notin> A}" using x(3) by (simp add: GetFiles_at [OF ok])
    then have "file_view s f \<in> result_view ` {fr \<in> set (ixFiles new). frPath fr \<notin> A}" unfolding views [symmetric] by (rule imageI)
    then obtain fr where fr: "fr \<in> set (ixFiles new)" "frPath fr \<notin> A" "file_view s f = result_view fr" by blast
    have "x \<in> set (GetFileSymbols (gfID f) s)"
      using x(1) f(4) rows_ok_symbol [OF ok x(1)] by (simp add: GetFileSymbols_at [OF ok])
    then have "symbol_content x \<in> set (snd (result_view fr))" by (simp add: fr(3) [symmetric] file_view_def)
    then show "\<exists>y\<in>set (result_symbols new). syFilePath y \<notin> A \<and> symbol_content x = stored_symbol [] [] [] y"
      using fr p by (auto simp: result_view_def result_symbols_def) }
  { assume y: "y \<in> set (result_symbols new)" "syFilePath y \<notin> A"
    then obtain fr where fr: "fr \<in> set (ixFiles new)" "y \<in> set (frSymbols fr)" by (auto simp: result_symbols_def)
    then have "result_view fr \<in> file_view s ` {f \<in> set (GetFiles r s). gfPath f \<notin> A}" using p y views by auto
    then obtain f where f: "f \<in> set (GetFiles r s)" "gfPath f \<notin> A" "result_view fr = file_view s f" by blast
    have "stored_symbol [] [] [] y \<in> set (snd (file_view s f))" using fr(2) by (simp add: f(3) [symmetric] result_view_def)
    then obtain x where "x \<in> set (GetFileSymbols (gfID f) s)" "symbol_content x = stored_symbol [] [] [] y"
      by (auto simp: file_view_def)
    then show "\<exists>j x. gsSymbols s j = Some x \<and> ssRepoID x = r \<and> ssFilePath x \<notin> A \<and> symbol_content x = stored_symbol [] [] [] y"
      using f(1,2) rows_ok_symbol [OF ok] by (fastforce simp: GetFiles_at [OF ok] GetFileSymbols_at [OF ok]) }
qed

text \<open>
  Resolving an end of a relation: a symbol of the new result resolves, and what it resolves to has its content.
\<close>

lemma resolve_at:
  assumes ok: "rows_ok R s" and inc: "incremental A old new"
    and kept: "\<And>j x. gsSymbols s j = Some x \<Longrightarrow> ssRepoID x = r \<Longrightarrow> ssFilePath x \<notin> A
      \<Longrightarrow> \<exists>y\<in>set (result_symbols new). syFilePath y \<notin> A \<and> symbol_content x = stored_symbol [] [] [] y"
    and all: "\<And>y. y \<in> set (result_symbols new) \<Longrightarrow> syFilePath y \<notin> A
      \<Longrightarrow> \<exists>j x. gsSymbols s j = Some x \<and> ssRepoID x = r \<and> ssFilePath x \<notin> A \<and> symbol_content x = stored_symbol [] [] [] y"
    and rows: "rows = number_rows u n (filter (\<lambda>fr. frPath fr \<in> A) (ixFiles new))"
    and resolve: "resolve = resolveSymID (map_of (rev (id_entries rows))) (result_tuples new) (carry_forward r A s)"
  shows "resolve i = Some j \<Longrightarrow> \<exists>y\<in>set (result_symbols new). syID y = i
      \<and> ((\<exists>f. (j, f, y) \<in> set (sym_rows rows))
         \<or> (\<exists>x. gsSymbols s j = Some x \<and> ssRepoID x = r \<and> ssFilePath x \<notin> A \<and> symbol_content x = stored_symbol [] [] [] y))"
    and "y \<in> set (result_symbols new) \<Longrightarrow> resolve (syID y) \<noteq> None"
proof -
  let ?S = "set (result_symbols new)" and ?frs = "filter (\<lambda>fr. frPath fr \<in> A) (ixFiles new)"
  have dist: "distinct (map syID (result_symbols new))" and p: "paths_agree (ixFiles new)"
    and keys: "distinct (map symbol_key (filter (\<lambda>y. syFilePath y \<notin> A) (result_symbols new)))"
    using inc by (simp_all add: incremental_def)
  have key: "y = y'" if "y \<in> ?S" "y' \<in> ?S" "syFilePath y \<notin> A" "syFilePath y' \<notin> A" "symbol_key y = symbol_key y'" for y y'
    using keys that by (simp add: distinct_map inj_on_def)
  have "distinct (map syID (concat (map frSymbols ?frs)))"
    using distinct_kept dist unfolding result_symbols_def by blast
  note id = id_entries_at [OF this rows]
  have aff: "(\<exists>j i. (j, i, y) \<in> set (sym_rows rows)) \<longleftrightarrow> y \<in> ?S \<and> syFilePath y \<in> A" for y
    unfolding rows sym_row_symbol_iff [symmetric] by (rule incremental_symbols [OF p])
  { assume res: "resolve i = Some j"
    show "\<exists>y\<in>?S. syID y = i \<and> ((\<exists>f. (j, f, y) \<in> set (sym_rows rows))
         \<or> (\<exists>x. gsSymbols s j = Some x \<and> ssRepoID x = r \<and> ssFilePath x \<notin> A \<and> symbol_content x = stored_symbol [] [] [] y))"
    proof (cases "map_of (rev (id_entries rows)) i")
      case None
      then obtain t where t: "result_tuples new i = Some t" "carry_forward r A s t = Some j"
        using res by (auto simp: resolve resolveSymID_def split: option.splits)
      obtain y where y: "y \<in> ?S" "syID y = i" "symbol_key y = t" using t(1) result_tuples_at [OF dist] by blast
      obtain x where x: "gsSymbols s j = Some x" "ssRepoID x = r" "ssFilePath x \<notin> A" "stored_key x = t"
        using carry_forward_at [OF ok t(2)] by (auto simp: stored_key_def)
      obtain y' where y': "y' \<in> ?S" "syFilePath y' \<notin> A" "symbol_content x = stored_symbol [] [] [] y'" using kept [OF x(1-3)] by blast
      have "symbol_key y' = t" using content_key [OF y'(3)] x(4) by simp
      moreover have "syFilePath y \<notin> A"
      proof
        assume "syFilePath y \<in> A"
        then obtain j k where "(j, k, y) \<in> set (sym_rows rows)" using aff [of y] y(1) by blast
        then have "map_of (rev (id_entries rows)) i = Some j" using id y(2) by blast
        then show False using None by simp
      qed
      ultimately have "y = y'" using key y y' by blast
      then show ?thesis using y x y' by blast
    next
      case (Some k)
      then have "map_of (rev (id_entries rows)) i = Some j" using res by (simp add: resolve resolveSymID_def)
      then have "(\<exists>f y. (j, f, y) \<in> set (sym_rows rows) \<and> syID y = i)" using id by blast
      then show ?thesis using aff by blast
    qed }
  { assume y: "y \<in> ?S"
    show "resolve (syID y) \<noteq> None"
    proof (cases "syFilePath y \<in> A")
      case True
      then obtain j k where "(j, k, y) \<in> set (sym_rows rows)" using aff [of y] y by blast
      then have "map_of (rev (id_entries rows)) (syID y) = Some j" using id by blast
      then show ?thesis by (simp add: resolve resolveSymID_def)
    next
      case False
      obtain j x where x: "gsSymbols s j = Some x" "ssRepoID x = r" "ssFilePath x \<notin> A" "symbol_content x = stored_symbol [] [] [] y"
        using all [OF y False] by blast
      have "carry_forward r A s (stored_key x) \<noteq> None"
        using carry_forward_some [of j s r x A] x indexed_iff [OF rows_okD(2) [OF ok]] by blast
      moreover have "stored_key x = symbol_key y" using content_key [OF x(4)] by simp
      moreover have "result_tuples new (syID y) = Some (symbol_key y)" using result_tuples_at [OF dist] y by blast
      ultimately show ?thesis by (auto simp: resolve resolveSymID_def split: option.split)
    qed }
qed

lemma same_views_replace_modules:
  "same_views k s ((replace_modules r ms s)\<lparr>gsRepos := x\<rparr>)"
proof -
  obtain m t where "replace_modules r ms s = fold (insert_module r) ms t" and t: "t = s\<lparr>gsModules := m, gsRepoModules := (gsRepoModules s)(r := None)\<rparr>"
    by (simp add: replace_modules_def fold_drop_modules Let_def)
  then show ?thesis
    by (intro views_cong) (simp_all add: fold_insert_module Let_def)
qed

text \<open>The store after a merge, in terms of ids.\<close>

lemma merge_effect:
  assumes wf: "graph_wf s" and ps: "distinct ps" "set ps = set affected" and p: "paths_agree (ixFiles result)"
    and repo: "gsRepos s r = Some repo" and s': "s' = snd (MergeIndexResult qs now r affected (Some result) s)" and qs: "qs = ps"
    and D: "D = (\<Union>f\<in>drop_set ps (existing_by_path r s). set (slice_at (gsFileSymbols s) (gfID f)))"
    and F: "F = gfID ` drop_set ps (existing_by_path r s)"
    and frs: "frs = filter (\<lambda>fr. frPath fr \<in> set affected) (ixFiles result)"
    and rows: "rows = number_rows (gsUUID s) (gsDrawn s) frs"
    and resolve: "resolve = resolveSymID (map_of (rev (id_entries rows))) (result_tuples result) (carry_forward r (set affected) s)"
  shows "rows_ok (dom (gsRepos s')) s'"
    and "listing k s' = map (file_view s) (filter (\<lambda>f. gfID f \<notin> F) (GetFiles k s)) @ (if k = r then map result_view frs else [])"
    and "gsSymbols s' j = Some x \<longleftrightarrow> (gsSymbols s j = Some x \<and> j \<notin> D)
      \<or> (\<exists>i y. (j, i, y) \<in> set (sym_rows rows) \<and> x = stored_symbol r i j y)"
    and "b \<in> set (callees s' a) \<longleftrightarrow> (b \<in> set (callees s a) \<and> a \<notin> D \<and> b \<notin> D)
      \<or> (\<exists>rel\<in>set (ixRelations result). rlType rel = RelationCalls \<and> resolve (rlSourceID rel) = Some a \<and> resolve (rlTargetID rel) = Some b)"
    and "gsSymbols s i = Some y \<Longrightarrow> i \<in> D \<longleftrightarrow> ssFileID y \<in> F"
    and "gsFiles s i = Some f \<Longrightarrow> i \<in> F \<Longrightarrow> gfRepoID f = r"
    and "resolve i = Some j \<Longrightarrow> \<exists>y. gsSymbols s' j = Some y \<and> ssRepoID y = r"
proof -
  let ?R = "dom (gsRepos s)"
  have ok: "rows_ok ?R s" and sup: "supplied s" using wf by (simp_all add: graph_wf_alt)
  obtain res where run: "MergeIndexResult ps now r affected (Some result) s = (res, s')" using s' qs by (metis prod.collapse)
  obtain s1 s2 s3 where d: "dropped D F s s1" and fr: "frame s s1" and ok1: "rows_ok ?R s1" and sup1: "supplied s1"
    and s2: "s2 = with_rows r rows s1" and ok2: "rows_ok ?R s2"
    and res: "\<forall>i j. resolve i = Some j \<longrightarrow> (\<exists>y. gsSymbols s2 j = Some y \<and> ssRepoID y = r)"
    and s3: "s3 = fold (merge_relation resolve) (ixRelations result) s2" and ok3: "rows_ok ?R s3"
    and out: "s' = (replace_modules r (ixModules result) s3)\<lparr>gsRepos := (gsRepos s)(r \<mapsto>
           merged_repository r now result repo (replace_modules r (ixModules result) s3))\<rparr>"
    by (rule merge_stages [OF wf ps p repo run refl D F frs resolve [unfolded rows], folded rows])
      (rule that; assumption)
  have DF: "i \<in> D \<longleftrightarrow> ssFileID y \<in> F" if "gsSymbols s i = Some y" for i y
    using that by (auto simp: D F indexed_iff [OF rows_okD(3) [OF ok]])
  then show "gsSymbols s i = Some y \<Longrightarrow> i \<in> D \<longleftrightarrow> ssFileID y \<in> F" .
  show "gsFiles s i = Some f \<Longrightarrow> i \<in> F \<Longrightarrow> gfRepoID f = r"
    using existing_by_path_at [OF ok] unfolding F drop_set_def by fastforce
  have u: "gsUUID s1 = gsUUID s" "gsDrawn s1 = gsDrawn s" using fr by (simp_all add: frame_def)
  have ids: "row_ids rows = ids_from (gsUUID s1) (gsDrawn s1) (length (row_ids rows))"
    unfolding rows u by (rule row_ids_number)
  have uu: "uuid_ok s1" using sup1 by (simp add: supplied_def)
  have dist: "distinct (row_ids rows)" using ids_from_fresh(1) [OF uu] ids by metis
  have "set (row_ids rows) \<inter> drawn s1 = {}" using ids_from_fresh(2) [OF uu] ids by metis
  then have new: "set (row_ids rows) \<inter> (dom (gsFiles s1) \<union> dom (gsSymbols s1)) = {}"
    using sup1 unfolding supplied_def by blast
  have keep3: "files_kept s2 s3" unfolding s3 by (rule relations_files_kept(2))
  have sy3: "gsSymbols s3 = gsSymbols s2" using rows_ok_merge_relations [OF ok2 res] by (simp add: s3)
  obtain m t where t: "replace_modules r (ixModules result) s3 = fold (insert_module r) (ixModules result) t"
    "t = s3\<lparr>gsModules := m, gsRepoModules := (gsRepoModules s3)(r := None)\<rparr>"
    by (simp add: replace_modules_def fold_drop_modules Let_def)
  have sel: "gsSymbols s' = gsSymbols s3" "gsCallGraph s' = gsCallGraph s3"
    by (simp_all add: out t fold_insert_module Let_def)
  have "listing k s' = listing k s3" using same_views_replace_modules by (simp only: out same_views_def)
  also have "listing k s3 = listing k s2"
    using keep3 sy3 by (simp add: files_kept_def GetFiles_def file_view_def GetFileSymbols_def)
  also have "listing k s2 = listing k s1 @ (if k = r then map row_view rows else [])"
    unfolding s2 by (rule listing_with_rows [OF ok1 dist new])
  also have "listing k s1 = map (file_view s) (filter (\<lambda>f. gfID f \<notin> F) (GetFiles k s))"
    using listing_dropped [OF ok d] DF by blast
  finally show "listing k s' = map (file_view s) (filter (\<lambda>f. gfID f \<notin> F) (GetFiles k s)) @ (if k = r then map result_view frs else [])"
    by (simp only: rows row_view_number)
  have new': "set (row_ids rows) \<inter> dom (gsSymbols s1) = {}" using new by blast
  show "gsSymbols s' j = Some x \<longleftrightarrow> (gsSymbols s j = Some x \<and> j \<notin> D)
      \<or> (\<exists>i y. (j, i, y) \<in> set (sym_rows rows) \<and> x = stored_symbol r i j y)"
    unfolding sel sy3 s2 with_rows_symbol_iff [OF dist new'] using d by (auto simp: dropped_def restrict_map_def)
  have "gsCallGraph s2 = gsCallGraph s1" by (simp add: s2 with_rows_def)
  then show "b \<in> set (callees s' a) \<longleftrightarrow> (b \<in> set (callees s a) \<and> a \<notin> D \<and> b \<notin> D)
      \<or> (\<exists>rel\<in>set (ixRelations result). rlType rel = RelationCalls \<and> resolve (rlSourceID rel) = Some a \<and> resolve (rlTargetID rel) = Some b)"
    unfolding sel s3 callees_merge_relations using d by (auto simp: dropped_def)
  show "rows_ok (dom (gsRepos s')) s'"
    using MergeIndexResult_wf [OF wf ps, of "Some result"] p by (simp add: s' qs graph_wf_alt)
  show "resolve i = Some j \<Longrightarrow> \<exists>y. gsSymbols s' j = Some y \<and> ssRepoID y = r" using res by (simp add: sel sy3)
qed

text \<open>The files a repository shows after a merge.\<close>

lemma merge_listing:
  assumes inc: "incremental A old new" and list: "mset (listing r s) = mset (map result_view (ixFiles old))"
    and F: "\<And>f. f \<in> set (GetFiles r s) \<Longrightarrow> gfID f \<in> F \<longleftrightarrow> gfPath f \<in> A"
    and out: "listing r s' = map (file_view s) (filter (\<lambda>f. gfID f \<notin> F) (GetFiles r s))
         @ map result_view (filter (\<lambda>fr. frPath fr \<in> A) (ixFiles new))"
  shows "mset (map (file_view s) (filter (\<lambda>f. gfPath f \<notin> A) (GetFiles r s)))
       = mset (map result_view (filter (\<lambda>fr. frPath fr \<notin> A) (ixFiles new)))"
    and "mset (listing r s') = mset (map result_view (ixFiles new))"
proof -
  have "mset (map (file_view s) (filter (\<lambda>f. gfPath f \<notin> A) (GetFiles r s)))
      = mset (map result_view (filter (\<lambda>fr. frPath fr \<notin> A) (ixFiles old)))"
    using filter_views [OF list, of "\<lambda>v. gfPath (fst v) \<notin> A"] by (simp only: view_paths)
  also have "\<dots> = mset (map result_view (filter (\<lambda>fr. frPath fr \<notin> A) (ixFiles new)))"
    using inc by (simp only: incremental_def)
  finally show kept: "mset (map (file_view s) (filter (\<lambda>f. gfPath f \<notin> A) (GetFiles r s)))
       = mset (map result_view (filter (\<lambda>fr. frPath fr \<notin> A) (ixFiles new)))" .
  have "filter (\<lambda>f. gfID f \<notin> F) (GetFiles r s) = filter (\<lambda>f. gfPath f \<notin> A) (GetFiles r s)"
    using F by (intro filter_cong) simp_all
  then have "mset (listing r s') = mset (map result_view (filter (\<lambda>fr. frPath fr \<notin> A) (ixFiles new)))
      + mset (map result_view (filter (\<lambda>fr. frPath fr \<in> A) (ixFiles new)))"
    unfolding out by (simp only: mset_append kept)
  also have "\<dots> = image_mset result_view (filter_mset (\<lambda>fr. frPath fr \<notin> A) (mset (ixFiles new))
      + filter_mset (\<lambda>fr. \<not> frPath fr \<notin> A) (mset (ixFiles new)))"
    by (simp only: mset_map mset_filter image_mset_union not_not)
  also have "\<dots> = mset (map result_view (ixFiles new))"
    by (simp only: multiset_partition [symmetric] mset_map)
  finally show "mset (listing r s') = mset (map result_view (ixFiles new))" .
qed

text \<open>The call edges a repository shows after a merge.\<close>

lemma merge_calls:
  assumes own: "\<forall>a b. b \<in> set (callees s a) \<longrightarrow> same_repo s a b" and own': "\<forall>a b. b \<in> set (callees s' a) \<longrightarrow> same_repo s' a b"
    and inc: "incremental A old new" and calls: "call_view r s = relation_view old"
    and kept: "\<And>j x. gsSymbols s j = Some x \<Longrightarrow> ssRepoID x = r \<Longrightarrow> j \<notin> D \<longleftrightarrow> ssFilePath x \<notin> A"
    and sym: "\<And>j x. gsSymbols s' j = Some x \<longleftrightarrow> (gsSymbols s j = Some x \<and> j \<notin> D)
      \<or> (\<exists>i y. (j, i, y) \<in> set (sym_rows rows) \<and> x = stored_symbol r i j y)"
    and new: "\<And>j i y. (j, i, y) \<in> set (sym_rows rows) \<Longrightarrow> gsSymbols s j = None \<or> j \<in> D"
    and edge: "\<And>a b. b \<in> set (callees s' a) \<longleftrightarrow> (b \<in> set (callees s a) \<and> a \<notin> D \<and> b \<notin> D)
      \<or> (\<exists>rel\<in>set (ixRelations new). rlType rel = RelationCalls \<and> resolve (rlSourceID rel) = Some a \<and> resolve (rlTargetID rel) = Some b)"
    and res: "\<And>i j. resolve i = Some j \<Longrightarrow> \<exists>y\<in>set (result_symbols new). syID y = i \<and> ((\<exists>f. (j, f, y) \<in> set (sym_rows rows))
         \<or> (\<exists>x. gsSymbols s j = Some x \<and> ssRepoID x = r \<and> ssFilePath x \<notin> A \<and> symbol_content x = stored_symbol [] [] [] y))"
    and total: "\<And>y. y \<in> set (result_symbols new) \<Longrightarrow> resolve (syID y) \<noteq> None"
  shows "call_view r s' = relation_view new"
proof -
  have at: "\<exists>y\<in>set (result_symbols new). syID y = i \<and> (\<exists>x. gsSymbols s' j = Some x \<and> ssRepoID x = r
      \<and> symbol_content x = stored_symbol [] [] [] y)" if "resolve i = Some j" for i j
  proof -
    obtain y where y: "y \<in> set (result_symbols new)" "syID y = i" and "(\<exists>f. (j, f, y) \<in> set (sym_rows rows))
         \<or> (\<exists>x. gsSymbols s j = Some x \<and> ssRepoID x = r \<and> ssFilePath x \<notin> A \<and> symbol_content x = stored_symbol [] [] [] y)"
      using res [OF \<open>resolve i = Some j\<close>] by blast
    then show ?thesis
    proof (elim disjE exE conjE)
      fix f assume "(j, f, y) \<in> set (sym_rows rows)"
      then have "gsSymbols s' j = Some (stored_symbol r f j y)" using sym by blast
      moreover have "ssRepoID (stored_symbol r f j y) = r" by (simp add: stored_symbol_def)
      ultimately show ?thesis using y content_stored(1) by blast
    next
      fix x assume "gsSymbols s j = Some x" "ssRepoID x = r" "ssFilePath x \<notin> A" "symbol_content x = stored_symbol [] [] [] y"
      then show ?thesis using y sym kept by blast
    qed
  qed
  have uniq: "y = y'" if "y \<in> set (result_symbols new)" "y' \<in> set (result_symbols new)" "syID y = syID y'" for y y'
    using inc that by (simp add: incremental_def distinct_map inj_on_def)
  show ?thesis
  proof (intro set_eqI iffI; clarify)
    fix u v assume "(u, v) \<in> call_view r s'"
    then obtain a b x y where xy: "gsSymbols s' a = Some x" "ssRepoID x = r" "gsSymbols s' b = Some y" "ssRepoID y = r"
      and e: "b \<in> set (callees s' a)" and uv: "u = symbol_content x" "v = symbol_content y"
      unfolding call_view_iff [OF own'] by blast
    show "(u, v) \<in> relation_view new"
    proof (cases "b \<in> set (callees s a) \<and> a \<notin> D \<and> b \<notin> D")
      case True
      then have 1: "gsSymbols s a = Some x" "gsSymbols s b = Some y" using xy sym new own by (fastforce simp: same_repo_def)+
      have "(u, v) \<in> relation_view old" using 1 xy True uv unfolding calls [symmetric] call_view_iff [OF own] by blast
      moreover have "ssFilePath u \<notin> A \<and> ssFilePath v \<notin> A" using 1 xy True kept uv by (simp add: symbol_content_def)
      ultimately show ?thesis using inc by (auto simp: incremental_def)
    next
      case False
      then obtain rel where rel: "rel \<in> set (ixRelations new)" "rlType rel = RelationCalls"
        "resolve (rlSourceID rel) = Some a" "resolve (rlTargetID rel) = Some b" using e edge by blast
      obtain y1 where y1: "y1 \<in> set (result_symbols new)" "syID y1 = rlSourceID rel" "u = stored_symbol [] [] [] y1"
        using at [OF rel(3)] xy(1) uv(1) by auto
      obtain y2 where y2: "y2 \<in> set (result_symbols new)" "syID y2 = rlTargetID rel" "v = stored_symbol [] [] [] y2"
        using at [OF rel(4)] xy(3) uv(2) by auto
      have "call_relation new (syID y1) (syID y2)" unfolding call_relation_def using rel(1,2) y1(2) y2(2) by auto
      then show ?thesis using y1 y2 unfolding relation_view_alt by blast
    qed
  next
    fix u v assume "(u, v) \<in> relation_view new"
    then obtain y z where yz: "y \<in> set (result_symbols new)" "z \<in> set (result_symbols new)" "call_relation new (syID y) (syID z)"
      and uv: "u = stored_symbol [] [] [] y" "v = stored_symbol [] [] [] z" unfolding relation_view_alt by blast
    obtain a b where ab: "resolve (syID y) = Some a" "resolve (syID z) = Some b" using total yz by blast
    obtain rel where rel: "rel \<in> set (ixRelations new)" "rlType rel = RelationCalls" "rlSourceID rel = syID y" "rlTargetID rel = syID z"
      using yz(3) unfolding call_relation_def by blast
    have "b \<in> set (callees s' a)" unfolding edge using rel(1,2) ab rel(3,4) by (intro disjI2 bexI [of _ rel]) simp_all
    moreover obtain x where "gsSymbols s' a = Some x" "ssRepoID x = r" "symbol_content x = u"
      using at [OF ab(1)] uniq yz(1) uv by blast
    moreover obtain x where "gsSymbols s' b = Some x" "ssRepoID x = r" "symbol_content x = v"
      using at [OF ab(2)] uniq yz(2) uv by blast
    ultimately show "(u, v) \<in> call_view r s'" unfolding call_view_iff [OF own'] by blast
  qed
qed

lemma MergeIndexResult_views:
  assumes wf: "graph_wf s" and repo: "gsRepos s r = Some repo" and ps: "distinct ps" "set ps = set affected"
    and shows_old: "shows_result r old s" and inc: "incremental (set affected) old new"
    and s': "s' = snd (MergeIndexResult ps now r affected (Some new) s)"
  shows "shows_result r new s'"
proof -
  let ?A = "set affected"
  define F where "F = gfID ` drop_set ps (existing_by_path r s)"
  define D where "D = (\<Union>f\<in>drop_set ps (existing_by_path r s). set (slice_at (gsFileSymbols s) (gfID f)))"
  define frs where "frs = filter (\<lambda>fr. frPath fr \<in> ?A) (ixFiles new)"
  define rows where "rows = number_rows (gsUUID s) (gsDrawn s) frs"
  define resolve where "resolve = resolveSymID (map_of (rev (id_entries rows))) (result_tuples new) (carry_forward r ?A s)"
  have ok: "rows_ok (dom (gsRepos s)) s" and sup: "supplied s" using wf by (simp_all add: graph_wf_alt)
  have p: "paths_agree (ixFiles new)" and paths: "distinct (map frPath (ixFiles old))"
    using inc by (simp_all add: incremental_def)
  note e = merge_effect [OF wf ps p repo s' refl D_def F_def frs_def rows_def resolve_def]
  have own: "\<forall>a b. b \<in> set (callees s a) \<longrightarrow> same_repo s a b" using rows_ok_call [OF ok] by blast
  have own': "\<forall>a b. b \<in> set (callees s' a) \<longrightarrow> same_repo s' a b" using rows_ok_call [OF e(1)] by blast
  have old: "mset (listing r s) = mset (map result_view (ixFiles old))" "call_view r s = relation_view old"
    using shows_old by (simp_all add: shows_result_def)
  have "image_mset (gfPath \<circ> fst) (mset (listing r s)) = image_mset (gfPath \<circ> fst) (mset (map result_view (ixFiles old)))"
    by (simp only: old)
  then have "mset (map gfPath (GetFiles r s)) = mset (map frPath (ixFiles old))"
    by (simp add: multiset.map_comp comp_def view_paths)
  then have dist: "distinct (map gfPath (GetFiles r s))" using paths mset_eq_imp_distinct_iff by metis
  have F: "gfID f \<in> F \<longleftrightarrow> gfPath f \<in> ?A" if "f \<in> set (GetFiles r s)" for f
    unfolding F_def by (rule affected_files [OF ok dist that ps(2)])
  have kept: "j \<notin> D \<longleftrightarrow> ssFilePath x \<notin> ?A" if x: "gsSymbols s j = Some x" "ssRepoID x = r" for j x
  proof -
    obtain f where "gsFiles s (ssFileID x) = Some f" "gfRepoID f = r" "gfPath f = ssFilePath x" "gfID f = ssFileID x"
      using rows_ok_symbol [OF ok x(1)] rows_ok_file [OF ok] x(2) by blast
    then show ?thesis using F [of f] e(5) [OF x(1)] by (simp add: GetFiles_at [OF ok])
  qed
  have "listing r s' = map (file_view s) (filter (\<lambda>f. gfID f \<notin> F) (GetFiles r s)) @ map result_view frs"
    using e(2) [of r] by simp
  note l = merge_listing [OF inc old(1) F this [unfolded frs_def]]
  note ks = kept_symbols [OF ok inc l(1)]
  note res = resolve_at [OF ok inc ks rows_def [unfolded frs_def] resolve_def]
  have new: "gsSymbols s j = None \<or> j \<in> D" if "(j, i, y) \<in> set (sym_rows rows)" for j i y
  proof -
    have "j \<in> set (row_ids rows)" using that sym_rows_ids [of rows] by force
    moreover have "set (row_ids rows) \<inter> drawn s = {}"
      using ids_from_fresh(2) [of s "length (row_ids rows)"] sup row_ids_number [of "gsUUID s" "gsDrawn s" frs]
      by (simp add: supplied_def rows_def)
    ultimately show ?thesis using sup unfolding supplied_def by blast
  qed
  have "call_view r s' = relation_view new"
    by (rule merge_calls [OF own own' inc old(2) kept e(3) new e(4) res])
  then show ?thesis using l(2) by (simp add: shows_result_def)
qed

lemma MergeIndexResult_other_views:
  assumes wf: "graph_wf s" and repo: "gsRepos s r = Some repo" and ps: "distinct ps" "set ps = set affected"
    and p: "paths_agree (ixFiles new)" and s': "s' = snd (MergeIndexResult ps now r affected (Some new) s)" and k: "k \<noteq> r"
  shows "same_views k s s'"
proof -
  define F where "F = gfID ` drop_set ps (existing_by_path r s)"
  have ok: "rows_ok (dom (gsRepos s)) s" using wf by (simp add: graph_wf_alt)
  note e = merge_effect [OF wf ps p repo s' refl refl F_def refl refl refl]
  have own: "\<forall>a b. b \<in> set (callees s a) \<longrightarrow> same_repo s a b" using rows_ok_call [OF ok] by blast
  have own': "\<forall>a b. b \<in> set (callees s' a) \<longrightarrow> same_repo s' a b" using rows_ok_call [OF e(1)] by blast
  let ?D = "\<Union>f\<in>drop_set ps (existing_by_path r s). set (slice_at (gsFileSymbols s) (gfID f))"
  let ?resolve = "resolveSymID (map_of (rev (id_entries (number_rows (gsUUID s) (gsDrawn s)
     (filter (\<lambda>fr. frPath fr \<in> set affected) (ixFiles new)))))) (result_tuples new) (carry_forward r (set affected) s)"
  have "filter (\<lambda>f. gfID f \<notin> F) (GetFiles k s) = GetFiles k s"
    using e(6) k by (auto simp: GetFiles_at [OF ok] intro!: filter_True)
  then have "listing k s' = listing k s" using e(2) [of k] k by simp
  moreover have "call_view k s' = call_view k s"
  proof (rule same_call_view [OF own own'])
    have alive: "a \<notin> ?D" if a: "gsSymbols s a = Some x" "ssRepoID x = k" for a x
      using e(5) [OF a(1)] e(6) rows_ok_symbol [OF ok a(1)] a(2) k by metis
    show "gsSymbols s' a = Some x \<and> ssRepoID x = k \<longleftrightarrow> gsSymbols s a = Some x \<and> ssRepoID x = k" for a x
      using e(3) [of a x] alive k by (auto simp: stored_symbol_def)
    show "b \<in> set (callees s' a) \<longleftrightarrow> b \<in> set (callees s a)"
      if "gsSymbols s a = Some x \<and> ssRepoID x = k" "gsSymbols s b = Some y \<and> ssRepoID y = k" for a b x y
    proof -
      have "?resolve i \<noteq> Some a" for i
      proof
        assume "?resolve i = Some a"
        then obtain z where "gsSymbols s' a = Some z" "ssRepoID z = r" using e(7) by blast
        then show False using e(3) [of a x] that(1) alive k by auto
      qed
      then show ?thesis using e(4) [of b a] alive that by blast
    qed
  qed
  ultimately show "same_views k s s'" by (simp add: same_views_def)
qed

end
