(* ===== verification/Graph_History.thy ===== *)
theory Graph_History
  imports Graph_Incremental
begin

text \<open>
  Histories of index operations: what every operation keeps, and that a repository no operation names
  keeps what it shows.
\<close>

section \<open>Histories of index operations\<close>

text \<open>Steps that keep an invariant, and steps that also leave a view of the state alone.\<close>

locale invariant_steps =
  fixes step :: "'op \<Rightarrow> 's \<Rightarrow> 's" and admissible :: "'op \<Rightarrow> bool" and inv :: "'s \<Rightarrow> bool"
  assumes step_inv: "inv s \<Longrightarrow> admissible a \<Longrightarrow> inv (step a s)"
begin

lemma history_inv: "inv s \<Longrightarrow> \<forall>a\<in>set ops. admissible a \<Longrightarrow> inv (fold step ops s)"
  by (induction ops arbitrary: s) (simp_all add: step_inv)

end

locale view_keepers = invariant_steps step admissible inv
  for step :: "'op \<Rightarrow> 's \<Rightarrow> 's" and admissible :: "'op \<Rightarrow> bool" and inv :: "'s \<Rightarrow> bool" +
  fixes view :: "'s \<Rightarrow> 'v"
  assumes step_view: "inv s \<Longrightarrow> admissible a \<Longrightarrow> view (step a s) = view s"
begin

lemma history_view: "inv s \<Longrightarrow> \<forall>a\<in>set ops. admissible a \<Longrightarrow> view (fold step ops s) = view s"
  by (induction ops arbitrary: s) (simp_all add: step_inv step_view)

end

datatype index_op =
    OpCreate time string string
  | OpStore time IndexResult
  | OpReplace time string IndexResult
  | OpMerge "string list" time string "string list" "IndexResult option"
  | OpRemove string
  | OpMeta string RepositoryMeta
  | OpError string go_error
  | OpScore time string float64

fun index_step :: "index_op \<Rightarrow> GraphStore \<Rightarrow> GraphStore" where
  "index_step (OpCreate now name path) s = snd (CreateRepository now name path s)"
| "index_step (OpStore now result) s = snd (StoreIndexResult now result s)"
| "index_step (OpReplace now r result) s = snd (ReplaceIndexResult now r result s)"
| "index_step (OpMerge ps now r affected result) s = snd (MergeIndexResult ps now r affected result s)"
| "index_step (OpRemove r) s = snd (RemoveRepository r s)"
| "index_step (OpMeta r meta) s = UpdateRepositoryMeta r meta s"
| "index_step (OpError r err) s = SetRepositoryError r err s"
| "index_step (OpScore now r overall) s = CacheUnderstandingScore now r overall s"

text \<open>Symbols carry the path of their file, and a merge visits each affected path once.\<close>

fun admissible_op :: "index_op \<Rightarrow> bool" where
  "admissible_op (OpStore now result) = (paths_agree (ixFiles result) \<and> distinct (map syID (result_symbols result)))"
| "admissible_op (OpReplace now r result) = (paths_agree (ixFiles result) \<and> distinct (map syID (result_symbols result)))"
| "admissible_op (OpMerge ps now r affected result) = (distinct ps \<and> set ps = set affected
     \<and> (case result of None \<Rightarrow> True | Some result \<Rightarrow> paths_agree (ixFiles result)))"
| "admissible_op _ = True"

text \<open>The repository an operation names; the first two make up a new one.\<close>

fun names_repo :: "index_op \<Rightarrow> string option" where
  "names_repo (OpCreate now name path) = None"
| "names_repo (OpStore now result) = None"
| "names_repo (OpReplace now r result) = Some r"
| "names_repo (OpMerge ps now r affected result) = Some r"
| "names_repo (OpRemove r) = Some r"
| "names_repo (OpMeta r meta) = Some r"
| "names_repo (OpError r err) = Some r"
| "names_repo (OpScore now r overall) = Some r"

lemma graph_wf_repo_row:
  assumes "graph_wf s" and "gsRepos s r \<noteq> None" and "grID repo = r"
  shows "graph_wf (s\<lparr>gsRepos := (gsRepos s)(r \<mapsto> repo)\<rparr>)"
  using assms by (auto simp: graph_wf_alt rows_ok_repos insert_absorb domIff supplied_def uuid_ok_def drawn_def)

lemma touch_repository_wf:
  assumes wf: "graph_wf s" and f: "\<And>repo. grID (f repo) = grID repo"
  shows "graph_wf (case gsRepos s r of None \<Rightarrow> s | Some repo \<Rightarrow> s\<lparr>gsRepos := (gsRepos s)(r \<mapsto> f repo)\<rparr>)"
proof (cases "gsRepos s r")
  case (Some repo)
  then have "grID (f repo) = r" using wf by (simp add: graph_wf_alt f)
  then show ?thesis using graph_wf_repo_row [OF wf] Some by simp
qed (simp add: wf)

lemma repository_rows_wf:
  assumes wf: "graph_wf s"
  shows "graph_wf (UpdateRepositoryMeta r meta s)" "graph_wf (SetRepositoryError r err s)"
    "graph_wf (CacheUnderstandingScore now r overall s)"
  unfolding UpdateRepositoryMeta_def SetRepositoryError_def CacheUnderstandingScore_def
  by (rule touch_repository_wf [OF wf], simp)+

lemma CreateRepository_wf:
  assumes wf: "graph_wf s"
  shows "graph_wf (snd (CreateRepository now name path s))"
proof -
  let ?i = "gsUUID s (gsDrawn s)"
  define s1 where "s1 = s\<lparr>gsDrawn := Suc (gsDrawn s)\<rparr>"
  have ok: "rows_ok (dom (gsRepos s)) s" and sup: "supplied s" and id: "\<forall>i r. gsRepos s i = Some r \<longrightarrow> grID r = i"
    using wf by (simp_all add: graph_wf_alt)
  have more: "drawn s1 = insert ?i (drawn s)" by (simp add: s1_def drawn_def lessThan_Suc)
  have "rows_ok (insert ?i (dom (gsRepos s))) s" using rows_ok_mono [OF ok] by blast
  then have ok1: "rows_ok (insert ?i (dom (gsRepos s))) s1" by (simp add: s1_def rows_ok_def mirrored_def same_repo_def)
  have "supplied (s1\<lparr>gsRepos := (gsRepos s1)(?i \<mapsto> x)\<rparr>)" for x
  proof -
    let ?t = "s1\<lparr>gsRepos := (gsRepos s1)(?i \<mapsto> x)\<rparr>"
    have "dom (gsRepos ?t) = insert ?i (dom (gsRepos s))" "gsFiles ?t = gsFiles s" "gsSymbols ?t = gsSymbols s"
      "gsModules ?t = gsModules s" "uuid_ok ?t = uuid_ok s" "drawn ?t = drawn s1"
      by (simp_all add: s1_def uuid_ok_def drawn_def)
    then show ?thesis using sup more unfolding supplied_def by simp blast
  qed
  then show ?thesis
    using ok1 id by (simp add: CreateRepository_def graph_NewString_def Let_def s1_def [symmetric] graph_wf_alt rows_ok_repos)
      (simp add: s1_def)
qed

lemma same_index_views: "same_index s s' \<Longrightarrow> same_views k s s'"
  by (rule views_cong) (simp_all add: same_index_def files_kept_def)

lemma RemoveRepository_views:
  assumes wf: "graph_wf s" and k: "k \<noteq> r"
  shows "same_views k s (snd (RemoveRepository r s))"
proof (cases "gsRepos s r")
  case None
  then show ?thesis by (simp add: RemoveRepository_def same_views_def)
next
  case (Some repo)
  define s1 where "s1 = drop_index_rows r s"
  define s2 where "s2 = fold (\<lambda>reqID s. s\<lparr>gsRequirements := (gsRequirements s)(reqID := None),
      gsReqLinks := (gsReqLinks s)(reqID := None)\<rparr>) (slice_at (gsRepoRequirements s1) r) s1"
  define s3 where "s3 = s2\<lparr>gsRepoRequirements := (gsRepoRequirements s2)(r := None)\<rparr>"
  define s4 where "s4 = fold drop_repo_link (slice_at (gsRepoLinks s2) r) s3"
  have ok: "rows_ok (dom (gsRepos s)) s" using wf by (simp add: graph_wf_alt)
  have "same_index s1 s2" unfolding s2_def
    by (rule fold_same_index) (simp add: same_index_def files_kept_def frame_def)
  moreover have "same_index s2 s3" by (simp add: s3_def same_index_def files_kept_def frame_def)
  moreover have "same_index s3 s4" unfolding s4_def by (rule fold_same_index) (rule drop_repo_link_same_index)
  ultimately have "same_views k s1 s4" using same_index_trans same_index_views by blast
  then have "same_views k s s4" using drop_index_rows_views [OF ok k] same_views_trans unfolding s1_def by blast
  moreover have "snd (RemoveRepository r s)
      = s4\<lparr>gsRepoLinks := (gsRepoLinks s4)(r := None), gsRepos := (gsRepos s4)(r := None)\<rparr>"
    using Some by (simp add: RemoveRepository_def Let_def s1_def [symmetric] s2_def [symmetric] s3_def [symmetric] s4_def [symmetric])
  then have "same_views k s4 (snd (RemoveRepository r s))" by (intro views_cong) simp_all
  ultimately show ?thesis by (rule same_views_trans)
qed

lemma index_step_wf:
  assumes wf: "graph_wf s" and a: "admissible_op a"
  shows "graph_wf (index_step a s)"
proof (cases a)
  case (OpMerge ps now r affected result)
  then show ?thesis using MergeIndexResult_wf [OF wf, of ps affected result now r] a by (auto split: option.splits)
qed (use assms CreateRepository_wf StoreIndexResult_wf ReplaceIndexResult_wf RemoveRepository_wf repository_rows_wf in auto)

interpretation index_history: invariant_steps index_step admissible_op graph_wf
  by unfold_locales (rule index_step_wf)

lemma NewGraphStore_wf: "inj uuids \<Longrightarrow> \<forall>n. uuids n \<noteq> [] \<Longrightarrow> graph_wf (NewGraphStore uuids)"
  by (simp add: NewGraphStore_def graph_wf_alt rows_ok_def mirrored_def supplied_def uuid_ok_def)

lemma insert_result_repos: "gsRepos (insert_result r result s) = gsRepos s"
proof -
  obtain idMap s1 where run: "fold (insert_file r) (ixFiles result) (Map.empty, s) = (idMap, s1)" by fastforce
  then have "gsRepos s1 = gsRepos s" by (auto simp: fold_insert_file Let_def with_rows_def)
  then show ?thesis using insert_relations_frame [of s1 idMap "ixRelations result"]
    by (simp add: insert_result_def run fold_insert_module Let_def frame_def)
qed

lemma fresh_repo: "graph_wf s \<Longrightarrow> gsRepos s k \<noteq> None \<Longrightarrow> gsUUID s (gsDrawn s) \<noteq> k"
  using next_id_fresh [of s] by (auto simp: graph_wf_def)

lemma MergeIndexResult_repos:
  assumes wf: "graph_wf s" and a: "admissible_op (OpMerge ps now r affected result)" and k: "k \<noteq> r"
  shows "gsRepos (snd (MergeIndexResult ps now r affected result s)) k = gsRepos s k"
proof (cases "result = None \<or> gsRepos s r = None")
  case True
  then show ?thesis by (auto simp: MergeIndexResult_def split: option.split)
next
  case False
  then obtain res repo where r: "result = Some res" "gsRepos s r = Some repo" by auto
  obtain e s' where run: "MergeIndexResult ps now r affected (Some res) s = (e, s')" by fastforce
  have ps: "distinct ps" "set ps = set affected" "paths_agree (ixFiles res)" using a r by simp_all
  obtain s3 where "s' = (replace_modules r (ixModules res) s3)\<lparr>gsRepos := (gsRepos s)(r \<mapsto>
           merged_repository r now res repo (replace_modules r (ixModules res) s3))\<rparr>"
    by (rule merge_stages [OF wf ps r(2) run refl refl refl refl refl]) (rule that; assumption)
  then show ?thesis using k run r by simp
qed

lemma RemoveRepository_repos:
  assumes wf: "graph_wf s" and k: "k \<noteq> r"
  shows "gsRepos (snd (RemoveRepository r s)) k = gsRepos s k"
proof -
  define s1 where "s1 = drop_index_rows r s"
  have ok: "rows_ok (dom (gsRepos s)) s" and sup: "supplied s" using wf by (simp_all add: graph_wf_alt)
  have "gsRepos s1 = gsRepos s" using drop_index_rows_frame [OF ok sup] by (simp add: s1_def)
  moreover have "gsRepos (fold drop_repo_link ls t) = gsRepos t" for ls t
    using fold_same_index [of drop_repo_link t ls, OF drop_repo_link_same_index]
    by (simp add: same_index_def files_kept_def frame_def)
  moreover have "gsRepos (fold (\<lambda>reqID s. s\<lparr>gsRequirements := (gsRequirements s)(reqID := None),
      gsReqLinks := (gsReqLinks s)(reqID := None)\<rparr>) qs t) = gsRepos t" for qs and t :: GraphStore
    by (induction qs arbitrary: t) simp_all
  ultimately show ?thesis using k by (simp add: RemoveRepository_def Let_def s1_def [symmetric])
qed

text \<open>What a repository shows: its record, its files with their symbols, its call edges.\<close>

definition repo_view ::
  "string \<Rightarrow> GraphStore \<Rightarrow> Repository option \<times> (File \<times> StoredSymbol list) list \<times> (StoredSymbol \<times> StoredSymbol) set" where
  "repo_view k s = (GetRepository k s, listing k s, call_view k s)"

lemma repo_view_same: "same_views k s s' \<Longrightarrow> gsRepos s' k = gsRepos s k \<Longrightarrow> repo_view k s' = repo_view k s"
  by (simp add: same_views_def repo_view_def GetRepository_def)

lemma touch_repository_view:
  "k \<noteq> r \<Longrightarrow> repo_view k (case gsRepos s r of None \<Rightarrow> s | Some repo \<Rightarrow> s\<lparr>gsRepos := (gsRepos s)(r \<mapsto> f repo)\<rparr>) = repo_view k s"
  by (cases "gsRepos s r") (auto intro!: repo_view_same views_cong)

lemma index_step_view:
  assumes wf: "graph_wf s" and k: "gsRepos s k \<noteq> None" and a: "admissible_op a" and other: "names_repo a \<noteq> Some k"
  shows "repo_view k (index_step a s) = repo_view k s"
proof (cases a)
  case (OpCreate now name path)
  have "k \<noteq> gsUUID s (gsDrawn s)" using fresh_repo [OF wf k] by simp
  then show ?thesis unfolding OpCreate index_step.simps
    by (intro repo_view_same views_cong) (simp_all add: CreateRepository_def graph_NewString_def Let_def)
next
  case (OpStore now result)
  obtain repo s' where run: "(repo, s') = StoreIndexResult now result s" by (metis prod.collapse)
  have "grID repo = gsUUID s (gsDrawn s)" and repos: "gsRepos s' = (gsRepos s)(gsUUID s (gsDrawn s) \<mapsto> repo)"
    using run by (simp_all add: StoreIndexResult_def graph_NewString_def Let_def indexed_repository_def split_beta insert_result_repos)
  moreover have new: "k \<noteq> gsUUID s (gsDrawn s)" using fresh_repo [OF wf k] by simp
  ultimately have "same_views k s s'" using StoreIndexResult_views(4) [OF wf _ _ run] a OpStore by simp
  then show ?thesis using repo_view_same [of k s s'] repos new by (simp add: OpStore run [symmetric])
next
  case (OpReplace now r result)
  then have kr: "k \<noteq> r" using other by auto
  show ?thesis
  proof (cases "gsRepos s r")
    case None
    then show ?thesis by (simp add: OpReplace ReplaceIndexResult_def)
  next
    case (Some repo)
    let ?s = "snd (ReplaceIndexResult now r result s)"
    have ok: "rows_ok (dom (gsRepos s)) s" and sup: "supplied s" using wf by (simp_all add: graph_wf_alt)
    have "same_views k s ?s" using ReplaceIndexResult_views(3) [OF wf Some _ _ refl kr] a OpReplace by simp
    moreover have "gsRepos ?s k = gsRepos s k"
      using drop_index_rows_frame [OF ok sup] kr Some
      by (simp add: ReplaceIndexResult_def Let_def split_beta insert_result_repos)
    ultimately show ?thesis using repo_view_same by (simp add: OpReplace)
  qed
next
  case (OpMerge ps now r affected result)
  then have kr: "k \<noteq> r" using other by auto
  let ?s = "snd (MergeIndexResult ps now r affected result s)"
  have "same_views k s ?s"
  proof (cases "result = None \<or> gsRepos s r = None")
    case True
    then show ?thesis by (auto simp: MergeIndexResult_def same_views_def split: option.split)
  next
    case False
    then obtain res repo where "result = Some res" "gsRepos s r = Some repo" by auto
    then show ?thesis using MergeIndexResult_other_views [OF wf _ _ _ _ refl kr] a OpMerge by auto
  qed
  then show ?thesis using repo_view_same MergeIndexResult_repos [OF wf _ kr] a by (simp add: OpMerge)
next
  case (OpRemove r)
  then show ?thesis
    using repo_view_same RemoveRepository_views [OF wf] RemoveRepository_repos [OF wf] other by simp
qed (use other in \<open>auto simp: UpdateRepositoryMeta_def SetRepositoryError_def CacheUnderstandingScore_def touch_repository_view\<close>)

interpretation other_repository: view_keepers index_step "\<lambda>a. admissible_op a \<and> names_repo a \<noteq> Some k"
    "\<lambda>s. graph_wf s \<and> gsRepos s k \<noteq> None" "repo_view k" for k
proof
  fix s a assume "graph_wf s \<and> gsRepos s k \<noteq> None" "admissible_op a \<and> names_repo a \<noteq> Some k"
  then have wf: "graph_wf s" "gsRepos s k \<noteq> None" "admissible_op a" "names_repo a \<noteq> Some k" by simp_all
  show v: "repo_view k (index_step a s) = repo_view k s" by (rule index_step_view [OF wf])
  show "graph_wf (index_step a s) \<and> gsRepos (index_step a s) k \<noteq> None"
    using index_step_wf [OF wf(1,3)] v wf(2) by (simp add: repo_view_def GetRepository_def)
qed

end
