(* ===== verification/Graph_Laws.thy ===== *)
theory Graph_Laws
  imports Graph_History
begin

text \<open>
  The properties of the index writers, on a small repository that is indexed twice.
\<close>

lemma graph_wf_reads:
  assumes wf: "graph_wf s"
  shows "b \<in> set (GetCallees a s) \<longleftrightarrow> a \<in> set (GetCallers b s)"
    and "b \<in> set (GetCallees a s) \<Longrightarrow> \<exists>x y. GetSymbol a s = Some x \<and> GetSymbol b s = Some y
          \<and> ssRepoID x = ssRepoID y \<and> GetRepository (ssRepoID x) s \<noteq> None"
    and "distinct (map ssID (repo_symbols r s)) \<and> distinct (map ssID (GetFileSymbols f s))"
    and "y \<in> set (repo_symbols r s) \<longleftrightarrow> GetSymbol (ssID y) s = Some y \<and> ssRepoID y = r"
    and "y \<in> set (GetFileSymbols f s) \<longleftrightarrow> GetSymbol (ssID y) s = Some y \<and> ssFileID y = f"
proof -
  have ok: "rows_ok (dom (gsRepos s)) s" using wf by (simp add: graph_wf_alt)
  note ix = rows_okD [OF ok]
  show "b \<in> set (GetCallees a s) \<longleftrightarrow> a \<in> set (GetCallers b s)"
    using mirrored_set [OF ix(5)] by (simp add: GetCallees_def GetCallers_def)
  have id: "ssID y = i" if "gsSymbols s i = Some y" for i y using rows_ok_symbol [OF ok that] by blast
  have ran: "y \<in> ran (gsSymbols s) \<longleftrightarrow> gsSymbols s (ssID y) = Some y" for y
  proof
    assume "y \<in> ran (gsSymbols s)"
    then obtain i where i: "gsSymbols s i = Some y" unfolding ran_def by blast
    then show "gsSymbols s (ssID y) = Some y" using id [OF i] by simp
  qed (rule ranI)
  show "distinct (map ssID (repo_symbols r s)) \<and> distinct (map ssID (GetFileSymbols f s))"
    using range_vals_ids [of "gsSymbols s" ssID, OF id indexed_distinct [OF ix(2)]]
      range_vals_ids [of "gsSymbols s" ssID, OF id indexed_distinct [OF ix(3)]]
    unfolding repo_symbols_def GetFileSymbols_def by simp
  show "y \<in> set (repo_symbols r s) \<longleftrightarrow> GetSymbol (ssID y) s = Some y \<and> ssRepoID y = r"
    unfolding repo_symbols_def GetSymbol_def set_indexed_vals [OF ix(2)] by (simp add: ran conj_commute)
  show "y \<in> set (GetFileSymbols f s) \<longleftrightarrow> GetSymbol (ssID y) s = Some y \<and> ssFileID y = f"
    unfolding GetSymbol_def by (rule GetFileSymbols_at [OF ok])
  assume "b \<in> set (GetCallees a s)"
  then obtain x y where xy: "gsSymbols s a = Some x" "gsSymbols s b = Some y" "ssRepoID x = ssRepoID y"
    using rows_ok_call [OF ok, of b a] unfolding GetCallees_def same_repo_def by blast
  then have "gsRepos s (ssRepoID x) \<noteq> None" using rows_ok_symbol [OF ok xy(1)] rows_ok_file [OF ok] by fastforce
  then show "\<exists>x y. GetSymbol a s = Some x \<and> GetSymbol b s = Some y \<and> ssRepoID x = ssRepoID y \<and> GetRepository (ssRepoID x) s \<noteq> None"
    using xy by (auto simp: GetSymbol_def GetRepository_def)
qed

section \<open>A small repository, indexed twice\<close>

definition demo_uuids :: "nat \<Rightarrow> string" where
  "demo_uuids n = replicate (Suc n) CHR ''u''"

definition demo_symbol :: "string \<Rightarrow> string \<Rightarrow> int \<Rightarrow> Symbol" where
  "demo_symbol name path line = \<lparr>syID = path @ name, syName = name, syQualifiedName = name, syKind = SymbolFunction,
     syLanguage = ''go'', syFilePath = path, syStartLine = line, syEndLine = line, syStartCol = 0, syEndCol = 0,
     sySignature = name, syDocComment = [], syReceiver = [], syIsTest = False\<rparr>"

definition demo_file :: "string \<Rightarrow> (string \<times> int) list \<Rightarrow> FileResult" where
  "demo_file path syms = \<lparr>frPath = path, frLanguage = ''go'', frLineCount = 9, frContentHash = path,
     frSymbols = map (\<lambda>(name, line). demo_symbol name path line) syms,
     frImports = [\<lparr>imPath = ''fmt'', imFilePath = path, imLine = 1\<rparr>], frCalls = [], frErrors = [],
     frAIScore = Fin 0, frAISignals = [], frGrailsRole = []\<rparr>"

definition demo_result :: "FileResult list \<Rightarrow> (string \<times> string) list \<Rightarrow> IndexResult" where
  "demo_result files calls = \<lparr>ixRepoName = ''r'', ixRepoPath = ''p'', ixBranch = [], ixFiles = files,
     ixTotalFiles = int (length files), ixTotalSymbols = 0, ixTotalRelations = 0,
     ixRelations = map (\<lambda>(a, b). \<lparr>rlSourceID = a, rlTargetID = b, rlType = RelationCalls\<rparr>) calls,
     ixModules = [], ixErrors = []\<rparr>"

text \<open>Two files; the second one is edited, the first one calls into it before and after.\<close>

definition demo_old :: IndexResult where
  "demo_old = demo_result [demo_file ''a'' [(''f'', 1), (''g'', 2)], demo_file ''b'' [(''h'', 1)]] [(''af'', ''ag''), (''af'', ''bh'')]"

definition demo_new :: IndexResult where
  "demo_new = demo_result [demo_file ''a'' [(''f'', 1), (''g'', 2)], demo_file ''b'' [(''k'', 1)]] [(''af'', ''ag''), (''af'', ''bk'')]"

definition demo_created :: GraphStore where
  "demo_created = snd (CreateRepository 0 ''r'' ''p'' (NewGraphStore demo_uuids))"

definition demo_indexed :: GraphStore where
  "demo_indexed = snd (ReplaceIndexResult 1 ''u'' demo_old demo_created)"

lemma demo_uuids_ok: "inj demo_uuids" "\<forall>n. demo_uuids n \<noteq> []"
  by (auto simp: demo_uuids_def inj_def dest: arg_cong [where f = length])

lemmas demo_defs = demo_old_def demo_new_def demo_result_def demo_file_def demo_symbol_def

lemma demo_results_ok:
  "paths_agree (ixFiles demo_old)" "distinct (map syID (result_symbols demo_old))"
  "paths_agree (ixFiles demo_new)" "distinct (map syID (result_symbols demo_new))"
  by (simp_all add: demo_defs paths_agree_def result_symbols_def)

lemma demo_created_ok: "graph_wf demo_created" "GetRepository ''u'' demo_created \<noteq> None"
  unfolding demo_created_def
  by (rule CreateRepository_wf [OF NewGraphStore_wf [OF demo_uuids_ok]])
    (simp add: CreateRepository_def graph_NewString_def NewGraphStore_def demo_uuids_def GetRepository_def Let_def)

lemma demo_indexed_ok: "graph_wf demo_indexed" "GetRepository ''u'' demo_indexed \<noteq> None" "shows_result ''u'' demo_old demo_indexed"
proof -
  obtain repo where repo: "gsRepos demo_created ''u'' = Some repo" using demo_created_ok(2) by (auto simp: GetRepository_def)
  show "graph_wf demo_indexed"
    unfolding demo_indexed_def by (rule ReplaceIndexResult_wf [OF demo_created_ok(1) demo_results_ok(1)])
  show "shows_result ''u'' demo_old demo_indexed"
    using ReplaceIndexResult_views(1,2) [OF demo_created_ok(1) repo demo_results_ok(1,2) demo_indexed_def]
    by (simp add: shows_result_def)
  show "GetRepository ''u'' demo_indexed \<noteq> None"
    by (simp add: demo_indexed_def ReplaceIndexResult_def repo Let_def split_beta GetRepository_def)
qed

lemma demo_symbol_sel [simp]: "syFilePath (demo_symbol n p l) = p" "syID (demo_symbol n p l) = p @ n"
    "syQualifiedName (demo_symbol n p l) = n" "syKind (demo_symbol n p l) = SymbolFunction" "syStartLine (demo_symbol n p l) = l"
  by (simp_all add: demo_symbol_def)

lemma demo_symbols:
  "result_symbols demo_old = [demo_symbol ''f'' ''a'' 1, demo_symbol ''g'' ''a'' 2, demo_symbol ''h'' ''b'' 1]"
  "result_symbols demo_new = [demo_symbol ''f'' ''a'' 1, demo_symbol ''g'' ''a'' 2, demo_symbol ''k'' ''b'' 1]"
  by (simp_all add: result_symbols_def demo_old_def demo_new_def demo_result_def demo_file_def)

lemma demo_relations:
  "ixRelations demo_old = [\<lparr>rlSourceID = ''af'', rlTargetID = ''ag'', rlType = RelationCalls\<rparr>,
     \<lparr>rlSourceID = ''af'', rlTargetID = ''bh'', rlType = RelationCalls\<rparr>]"
  "ixRelations demo_new = [\<lparr>rlSourceID = ''af'', rlTargetID = ''ag'', rlType = RelationCalls\<rparr>,
     \<lparr>rlSourceID = ''af'', rlTargetID = ''bk'', rlType = RelationCalls\<rparr>]"
  "length (ixFiles demo_old) = 2"
  and demo_files: "ixFiles demo_old = [demo_file ''a'' [(''f'', 1), (''g'', 2)], demo_file ''b'' [(''h'', 1)]]"
    "ixFiles demo_new = [demo_file ''a'' [(''f'', 1), (''g'', 2)], demo_file ''b'' [(''k'', 1)]]"
    "frPath (demo_file p ys) = p"
  by (simp_all add: demo_old_def demo_new_def demo_result_def demo_file_def)

lemma demo_calls:
  "call_relation demo_old i j \<longleftrightarrow> i = ''af'' \<and> (j = ''ag'' \<or> j = ''bh'')"
  "call_relation demo_new i j \<longleftrightarrow> i = ''af'' \<and> (j = ''ag'' \<or> j = ''bk'')"
  unfolding call_relation_def demo_relations by auto

lemma demo_incremental: "incremental {''b''} demo_old demo_new"
proof -
  have "distinct (map symbol_key (filter (\<lambda>y. syFilePath y \<notin> {''b''}) (result_symbols demo_new)))"
    by (simp add: demo_symbols symbol_key_def storeSymbolLookupKey_def)
  moreover have "\<forall>u v. (u, v) \<in> relation_view demo_old \<longrightarrow> ssFilePath u \<noteq> ''b'' \<longrightarrow> ssFilePath v \<noteq> ''b'' \<longrightarrow> (u, v) \<in> relation_view demo_new"
  proof (intro allI impI)
    fix u v assume "(u, v) \<in> relation_view demo_old" "ssFilePath u \<noteq> ''b''" "ssFilePath v \<noteq> ''b''"
    then obtain y z where yz: "y \<in> set (result_symbols demo_old)" "z \<in> set (result_symbols demo_old)" "call_relation demo_old (syID y) (syID z)"
      "u = stored_symbol [] [] [] y" "v = stored_symbol [] [] [] z" and p: "syFilePath y \<noteq> ''b''" "syFilePath z \<noteq> ''b''"
      unfolding relation_view_alt by (auto simp: stored_symbol_def)
    have "y \<in> set (result_symbols demo_new)" "z \<in> set (result_symbols demo_new)"
      using yz(1,2) p by (auto simp: demo_symbols)
    moreover have "call_relation demo_new (syID y) (syID z)"
      using yz(1-3) p by (auto simp: demo_symbols demo_calls)
    ultimately show "(u, v) \<in> relation_view demo_new" unfolding relation_view_alt using yz(4,5) by blast
  qed
  ultimately show ?thesis
    using demo_results_ok unfolding incremental_def by (auto simp: demo_files)
qed

section \<open>Properties of the index writers\<close>

text \<open>
  C4: After any history of index operations (creating, storing, replacing, merging and removing
  repositories, with symbols that carry the path of their file and a fresh-id supply that does not
  repeat), the graph is coherent: callers and callees are converses; a call edge joins two stored
  symbols of one registered repository; the symbols listed for a repository, and for a file, are exactly
  the stored symbols that name it, once each.
\<close>

theorem index_history_keeps_the_graph:
  assumes "inj uuids" and "\<forall>n. uuids n \<noteq> []" and "\<forall>a\<in>set ops. admissible_op a"
    and s: "s = fold index_step ops (NewGraphStore uuids)"
  shows "(\<forall>a b. b \<in> set (GetCallees a s) \<longleftrightarrow> a \<in> set (GetCallers b s))
    \<and> (\<forall>a b. b \<in> set (GetCallees a s) \<longrightarrow> (\<exists>x y. GetSymbol a s = Some x \<and> GetSymbol b s = Some y
          \<and> ssRepoID x = ssRepoID y \<and> GetRepository (ssRepoID x) s \<noteq> None))
    \<and> (\<forall>r f. distinct (map ssID (repo_symbols r s)) \<and> distinct (map ssID (GetFileSymbols f s)))
    \<and> (\<forall>y r. y \<in> set (repo_symbols r s) \<longleftrightarrow> GetSymbol (ssID y) s = Some y \<and> ssRepoID y = r)
    \<and> (\<forall>y f. y \<in> set (GetFileSymbols f s) \<longleftrightarrow> GetSymbol (ssID y) s = Some y \<and> ssFileID y = f)"
proof -
  have "graph_wf s" unfolding s using assms by (intro index_history.history_inv NewGraphStore_wf)
  from graph_wf_reads [OF this] show ?thesis by blast
qed

definition demo_history :: "index_op list" where
  "demo_history = [OpCreate 0 ''r'' ''p'', OpReplace 1 ''u'' demo_old, OpMerge [''b''] 2 ''u'' [''b''] (Some demo_new)]"

lemma demo_history_ok: "\<forall>a\<in>set demo_history. admissible_op a"
  using demo_results_ok by (simp add: demo_history_def)

theorem index_history_keeps_the_graph_witness:
  "demo_history \<noteq> [] \<and> (\<forall>a b. b \<in> set (GetCallees a (fold index_step demo_history (NewGraphStore demo_uuids)))
     \<longleftrightarrow> a \<in> set (GetCallers b (fold index_step demo_history (NewGraphStore demo_uuids))))"
  using index_history_keeps_the_graph [OF demo_uuids_ok demo_history_ok refl]
  by (simp add: demo_history_def)

text \<open>
  C6: Replacing the index of a registered repository shows the delivered result: the repository's files
  are those of the result, in its order, each with its symbols in order, and its call edges are exactly
  the call relations between symbols of the result. Every other repository shows what it did.
\<close>

theorem replace_shows_the_result:
  assumes "graph_wf s" and "GetRepository r s = Some repo" and "paths_agree (ixFiles result)"
    and "distinct (map syID (result_symbols result))" and "s' = snd (ReplaceIndexResult now r result s)"
  shows "listing r s' = map result_view (ixFiles result) \<and> call_view r s' = relation_view result
    \<and> (\<forall>k. k \<noteq> r \<longrightarrow> listing k s' = listing k s \<and> call_view k s' = call_view k s)"
  using ReplaceIndexResult_views [OF assms(1) _ assms(3-5)] assms(2)
  by (simp add: GetRepository_def same_views_def)

theorem replace_shows_the_result_witness:
  "\<exists>s'. s' = snd (ReplaceIndexResult 1 ''u'' demo_old demo_created)
     \<and> listing ''u'' s' = map result_view (ixFiles demo_old) \<and> length (listing ''u'' s') = 2"
proof -
  obtain repo where repo: "GetRepository ''u'' demo_created = Some repo" using demo_created_ok(2) by blast
  have e: "listing ''u'' (snd (ReplaceIndexResult 1 ''u'' demo_old demo_created)) = map result_view (ixFiles demo_old)"
    using replace_shows_the_result [OF demo_created_ok(1) repo demo_results_ok(1,2) refl, of 1] by blast
  show ?thesis unfolding simp_thms by (simp only: e length_map demo_relations(3))
qed

text \<open>
  C5: An incremental merge agrees with a full replacement. When the repository shows the old result and
  the new one differs from it in the affected files only (the call edges between untouched symbols are
  still reported, and untouched symbols have lookup keys of their own), then merging the affected files
  leaves the repository with the same files, symbols and call edges as replacing its whole index by the
  new result, whatever the order in which the affected paths are visited.
\<close>

theorem merge_agrees_with_replace:
  assumes "graph_wf s" and "GetRepository r s = Some repo" and "shows_result r old s"
    and "incremental (set affected) old new" and "distinct ps" and "set ps = set affected"
    and "merged = snd (MergeIndexResult ps now r affected (Some new) s)"
    and "replaced = snd (ReplaceIndexResult now r new s)"
  shows "mset (listing r merged) = mset (listing r replaced) \<and> call_view r merged = call_view r replaced"
proof -
  have repo: "gsRepos s r = Some repo" using assms(2) by (simp add: GetRepository_def)
  have "paths_agree (ixFiles new)" "distinct (map syID (result_symbols new))" using assms(4) by (simp_all add: incremental_def)
  from ReplaceIndexResult_views(1,2) [OF assms(1) repo this assms(8)]
    MergeIndexResult_views [OF assms(1) repo assms(5,6,3,4,7)]
  show ?thesis by (simp add: shows_result_def)
qed

theorem merge_agrees_with_replace_witness:
  "mset (listing ''u'' (snd (MergeIndexResult [''b''] 2 ''u'' [''b''] (Some demo_new) demo_indexed)))
     = mset (listing ''u'' (snd (ReplaceIndexResult 2 ''u'' demo_new demo_indexed)))"
proof -
  obtain repo where repo: "GetRepository ''u'' demo_indexed = Some repo" using demo_indexed_ok(2) by blast
  have "incremental (set [''b'']) demo_old demo_new" using demo_incremental by simp
  from merge_agrees_with_replace [OF demo_indexed_ok(1) repo demo_indexed_ok(3) this, of "[''b'']", OF _ _ refl refl, of 2]
  show ?thesis by simp
qed

text \<open>
  C7: Repositories are isolated: a history of index operations that never names a registered repository
  leaves its record, its files with their symbols and its call edges as they were, whatever the
  operations do to other repositories and however many they add.
\<close>

theorem other_repositories_are_undisturbed:
  assumes "graph_wf s" and "GetRepository k s \<noteq> None"
    and "\<forall>a\<in>set ops. admissible_op a \<and> names_repo a \<noteq> Some k"
  shows "repo_view k (fold index_step ops s) = repo_view k s"
  using other_repository.history_view assms by (simp add: GetRepository_def)

theorem other_repositories_are_undisturbed_witness:
  "repo_view ''u'' (fold index_step [OpStore 3 demo_new, OpRemove ''zz''] demo_indexed) = repo_view ''u'' demo_indexed"
  by (rule other_repositories_are_undisturbed [OF demo_indexed_ok(1,2)]) (simp add: demo_results_ok)

text \<open>
  Replacing an index looks for the repository's files after it has deleted their list, so the import
  rows of the old files stay in the store; no read returns them.
\<close>

lemma replace_leaves_the_old_imports:
  assumes wf: "graph_wf s" and repo: "GetRepository r s = Some repo"
  shows "set (gsImports s) \<subseteq> set (gsImports (snd (ReplaceIndexResult now r result s)))"
proof -
  have ok: "rows_ok (dom (gsRepos s)) s" using wf by (simp add: graph_wf_alt)
  define s1 where "s1 = drop_index_rows r s"
  have no: "slice_at (gsRepoFiles s1) r = []" unfolding s1_def by (rule drop_index_rows_empty(1) [OF ok])
  obtain g c t where t: "t = s\<lparr>gsSymbols := gsSymbols t, gsFiles := gsFiles t, gsCallGraph := g, gsReverseCallGraph := c,
             gsRepoSymbols := (gsRepoSymbols s)(r := None), gsFileSymbols := gsFileSymbols t,
             gsRepoFiles := (gsRepoFiles s)(r := None)\<rparr>"
    and run: "s1 = t\<lparr>gsModules := gsModules s |` (- set (slice_at (gsRepoModules s) r)), gsRepoModules := (gsRepoModules s)(r := None)\<rparr>"
    using drop_index_rows_effect [OF ok, of r] unfolding s1_def by blast
  have "gsImports t = gsImports s" by (subst t, simp)
  then have im: "gsImports s1 = gsImports s" by (simp add: run)
  have "set (gsImports t) \<subseteq> set (gsImports (insert_result r result t))" for t :: GraphStore
  proof -
    obtain idMap s2 where run: "fold (insert_file r) (ixFiles result) (Map.empty, t) = (idMap, s2)" by fastforce
    then have "set (gsImports t) \<subseteq> set (gsImports s2)" by (auto simp: fold_insert_file Let_def with_rows_def)
    then show ?thesis using relations_files_kept(1) [of s2 idMap "ixRelations result"]
      by (simp add: insert_result_def run fold_insert_module Let_def files_kept_def)
  qed
  from this [of "s1\<lparr>gsImports := filter (\<lambda>imp. siFileID imp \<notin> set (slice_at (gsRepoFiles s1) r)) (gsImports s1)\<rparr>"]
  show ?thesis using repo
    by (simp add: GetRepository_def ReplaceIndexResult_def Let_def split_beta s1_def [symmetric] no im)
qed

end
