(* ===== verification/Graph_Link_Laws.thy ===== *)
theory Graph_Link_Laws
  imports Graph_Laws Graph_Links
begin

text \<open>
  Properties of the links between requirements and symbols, of requirements and discovered requirements,
  of package dependencies and of the understanding score.
\<close>

section \<open>Links and their three indexes\<close>

definition links_ok :: "GraphStore \<Rightarrow> bool" where
  "links_ok s \<longleftrightarrow>
     indexed (gsLinks s) (gsRepoLinks s) slRepoID \<and> indexed (gsLinks s) (gsReqLinks s) slRequirementID
     \<and> indexed (gsLinks s) (gsSymLinks s) slSymbolID \<and> (\<forall>i l. gsLinks s i = Some l \<longrightarrow> slID l = i)
     \<and> uuid_ok s \<and> dom (gsLinks s) \<subseteq> drawn s"

datatype link_op =
    LinkStore time string StoredLink
  | LinkStoreAll time string "StoredLink list"
  | LinkVerify string bool string

fun link_step :: "link_op \<Rightarrow> GraphStore \<Rightarrow> GraphStore" where
  "link_step (LinkStore now r link) s = snd (StoreLink now r link s)"
| "link_step (LinkStoreAll now r links) s = snd (StoreLinks now r links s)"
| "link_step (LinkVerify i verified by') s = snd (VerifyLink i verified by' s)"

lemma StoreLink_ok:
  assumes ok: "links_ok s"
  shows "links_ok (snd (StoreLink now r link s))"
proof -
  let ?i = "gsUUID s (gsDrawn s)"
  have u: "uuid_ok s" and d: "dom (gsLinks s) \<subseteq> drawn s" using ok by (simp_all add: links_ok_def)
  have new: "gsLinks s ?i = None" using next_id_fresh [OF u] d by blast
  let ?l = "link\<lparr>slID := ?i, slRepoID := r, slCreatedAt := now\<rparr>"
  have "indexed (gsLinks s) (gsRepoLinks s) slRepoID" "indexed (gsLinks s) (gsReqLinks s) slRequirementID"
    "indexed (gsLinks s) (gsSymLinks s) slSymbolID" using ok by (simp_all add: links_ok_def)
  note this [THEN indexed_push, OF new, where v = ?l]
  moreover have "drawn (snd (StoreLink now r link s)) = insert ?i (drawn s)" "uuid_ok (snd (StoreLink now r link s)) = uuid_ok s"
    by (simp_all add: StoreLink_def graph_NewString_def Let_def put_link_def drawn_def lessThan_Suc uuid_ok_def)
  ultimately show ?thesis using ok
    unfolding links_ok_def by (auto simp: StoreLink_def graph_NewString_def Let_def put_link_def)
qed

lemma VerifyLink_ok:
  assumes ok: "links_ok s"
  shows "links_ok (snd (VerifyLink i verified by' s))"
proof (cases "gsLinks s i")
  case None
  then show ?thesis using ok by (simp add: VerifyLink_def)
next
  case (Some l)
  let ?l = "verified_link verified by' l"
  have same: "slRepoID ?l = slRepoID l" "slRequirementID ?l = slRequirementID l" "slSymbolID ?l = slSymbolID l" "slID ?l = slID l"
    by (simp_all add: verified_link_def)
  have "indexed ((gsLinks s)(i \<mapsto> ?l)) index owner"
    if "indexed (gsLinks s) index owner" "owner ?l = owner l" for index and owner :: "StoredLink \<Rightarrow> string"
    using indexed_update [OF that(1) Some] that(2) by simp
  then show ?thesis using ok same Some
    unfolding links_ok_def by (auto simp: VerifyLink_def Let_def uuid_ok_def drawn_def)
qed

lemma link_step_ok: "links_ok s \<Longrightarrow> links_ok (link_step a s)"
proof (cases a)
  case (LinkStoreAll now r links)
  assume "links_ok s"
  then have "links_ok (fold (\<lambda>link s. snd (StoreLink now r link s)) links s)"
    by (induction links arbitrary: s) (simp_all add: StoreLink_ok)
  then show ?thesis by (simp add: LinkStoreAll StoreLinks_def)
qed (simp_all add: StoreLink_ok VerifyLink_ok)

interpretation link_history: invariant_steps link_step "\<lambda>_. True" links_ok
  by unfold_locales (rule link_step_ok)

lemma live_links_exact:
  assumes "indexed (gsLinks s) index owner" and id: "\<forall>i l. gsLinks s i = Some l \<longrightarrow> slID l = i"
  shows "l \<in> set (live_links rej (slice_at index k) s)
      \<longleftrightarrow> GetLink (slID l) s = Some l \<and> owner l = k \<and> (rej \<or> \<not> slRejected l)"
    and "distinct (map slID (live_links rej (slice_at index k) s))"
proof -
  have "l \<in> ran (gsLinks s) \<longleftrightarrow> gsLinks s (slID l) = Some l" using id unfolding ran_def by blast
  then show "l \<in> set (live_links rej (slice_at index k) s)
      \<longleftrightarrow> GetLink (slID l) s = Some l \<and> owner l = k \<and> (rej \<or> \<not> slRejected l)"
    using set_indexed_vals [OF assms(1), of k] by (auto simp: live_links_def GetLink_def)
  have "distinct (map slID (range_vals (gsLinks s) (slice_at index k)))"
    using range_vals_ids [of "gsLinks s" slID] id indexed_distinct [OF assms(1)] by blast
  then show "distinct (map slID (live_links rej (slice_at index k) s))"
    by (simp add: live_links_def distinct_map_filter)
qed

text \<open>
  C15: However links are stored and judged, every reading of them is exact: the links returned for a
  requirement, for a symbol or for a repository are the stored links that name it, each once, without the
  rejected ones unless those are asked for.
\<close>

theorem link_reads_are_exact:
  assumes "inj uuids" and "\<forall>n. uuids n \<noteq> []" and s: "s = fold link_step ops (NewGraphStore uuids)"
  shows "(\<forall>q rej l. l \<in> set (GetLinksForRequirement q rej s)
            \<longleftrightarrow> GetLink (slID l) s = Some l \<and> slRequirementID l = q \<and> (rej \<or> \<not> slRejected l))
    \<and> (\<forall>y rej l. l \<in> set (GetLinksForSymbol y rej s)
            \<longleftrightarrow> GetLink (slID l) s = Some l \<and> slSymbolID l = y \<and> (rej \<or> \<not> slRejected l))
    \<and> (\<forall>r l. l \<in> set (GetLinksForRepo r s) \<longleftrightarrow> GetLink (slID l) s = Some l \<and> slRepoID l = r \<and> \<not> slRejected l)
    \<and> (\<forall>q rej. distinct (map slID (GetLinksForRequirement q rej s)) \<and> distinct (map slID (GetLinksForSymbol q rej s))
            \<and> distinct (map slID (GetLinksForRepo q s)))"
proof -
  have "links_ok (NewGraphStore uuids)"
    using assms(1,2) by (simp add: links_ok_def NewGraphStore_def uuid_ok_def)
  then have ok: "links_ok s" unfolding s by (intro link_history.history_inv) simp_all
  then have "indexed (gsLinks s) (gsRepoLinks s) slRepoID" "indexed (gsLinks s) (gsReqLinks s) slRequirementID"
    "indexed (gsLinks s) (gsSymLinks s) slSymbolID" and id: "\<forall>i l. gsLinks s i = Some l \<longrightarrow> slID l = i"
    by (simp_all add: links_ok_def)
  note e = this(1-3) [THEN live_links_exact(1) [OF _ id]] and d = this(1-3) [THEN live_links_exact(2) [OF _ id]]
  show ?thesis
    unfolding GetLinksForRequirement_def GetLinksForSymbol_def GetLinksForRepo_def e by (simp add: d)
qed

text \<open>
  Judging a link decides its visibility and nothing else: afterwards the link is stored as verified
  with full confidence, or as rejected; it is returned for its requirement exactly when it was verified
  (or rejected links are asked for); every other link is unchanged.
\<close>

theorem verify_link_decides_visibility:
  assumes "inj uuids" and "\<forall>n. uuids n \<noteq> []" and "s = fold link_step ops (NewGraphStore uuids)"
    and "GetLink i s = Some l" and "(res, s') = VerifyLink i verified by' s"
  shows "res = Some (verified_link verified by' l) \<and> GetLink i s' = res
    \<and> (\<forall>rej. (\<exists>k\<in>set (GetLinksForRequirement (slRequirementID l) rej s'). slID k = i) \<longleftrightarrow> verified \<or> rej)
    \<and> (verified \<longrightarrow> (\<forall>k. res = Some k \<longrightarrow> slVerified k \<and> \<not> slRejected k \<and> slConfidence k = Fin 1))
    \<and> (\<forall>j. j \<noteq> i \<longrightarrow> GetLink j s' = GetLink j s)"
proof -
  let ?l = "verified_link verified by' l"
  have "links_ok (NewGraphStore uuids)"
    using assms(1,2) by (simp add: links_ok_def NewGraphStore_def uuid_ok_def)
  then have ok: "links_ok s" unfolding assms(3) by (intro link_history.history_inv) simp_all
  have l: "gsLinks s i = Some l" "slID l = i" using assms(4) ok by (auto simp: GetLink_def links_ok_def)
  have out: "res = Some ?l" "s' = s\<lparr>gsLinks := (gsLinks s)(i \<mapsto> ?l)\<rparr>"
    using assms(5) l(1) by (simp_all add: VerifyLink_def Let_def)
  have ok': "links_ok s'" using VerifyLink_ok [OF ok, of i verified by'] assms(5) by (metis snd_conv)
  have same: "slRequirementID ?l = slRequirementID l" "slRejected ?l = (\<not> verified)" "slID ?l = i"
    using l(2) by (simp_all add: verified_link_def)
  have at: "k \<in> set (GetLinksForRequirement q rej s') \<longleftrightarrow> GetLink (slID k) s' = Some k \<and> slRequirementID k = q \<and> (rej \<or> \<not> slRejected k)"
    for k q rej using live_links_exact(1) [of s' "gsReqLinks s'" slRequirementID] ok'
    by (simp add: links_ok_def GetLinksForRequirement_def)
  have "(\<exists>k\<in>set (GetLinksForRequirement (slRequirementID l) rej s'). slID k = i) \<longleftrightarrow> verified \<or> rej" for rej
  proof
    assume "\<exists>k\<in>set (GetLinksForRequirement (slRequirementID l) rej s'). slID k = i"
    then obtain k where "GetLink i s' = Some k" "rej \<or> \<not> slRejected k" using at by blast
    then show "verified \<or> rej" using same(2) by (auto simp: out GetLink_def)
  next
    assume "verified \<or> rej"
    then have "?l \<in> set (GetLinksForRequirement (slRequirementID l) rej s')"
      unfolding at using same by (auto simp: out GetLink_def)
    then show "\<exists>k\<in>set (GetLinksForRequirement (slRequirementID l) rej s'). slID k = i" using same(3) by blast
  qed
  then show ?thesis by (auto simp: out GetLink_def verified_link_def)
qed

section \<open>External ids\<close>

text \<open>No two requirements of a repository have the same external id, unless it is empty.\<close>

definition external_ids_unique :: "GraphStore \<Rightarrow> bool" where
  "external_ids_unique s \<longleftrightarrow> (\<forall>i j p q. GetRequirement i s = Some p \<and> GetRequirement j s = Some q
     \<and> rqRepoID p = rqRepoID q \<and> rqExternalID p = rqExternalID q \<and> rqExternalID p \<noteq> [] \<longrightarrow> i = j)"

lemma apply_update_sel [simp]:
  "rqID (apply_update now patch req) = rqID req" "rqRepoID (apply_update now patch req) = rqRepoID req"
  "rqExternalID (apply_update now patch req) = rqExternalID req" "rqUpdatedAt (apply_update now patch req) = now"
  by (simp_all add: apply_update_def Let_def)

text \<open>
  Patching a requirement never gives two requirements of a repository one external id. A patch that
  would is refused as a whole: nothing changes. Otherwise the requirement carries the requested external
  id, keeps its repository, and no other requirement is touched.
\<close>

theorem update_keeps_external_ids_unique:
  assumes "external_ids_unique s" and "enumerates (gsRequirements s) ks"
    and "(res, s') = UpdateRequirementFields ks now i patch s"
  shows "external_ids_unique s'
    \<and> (res = None \<longrightarrow> s' = s)
    \<and> (\<forall>req. res = Some req \<longrightarrow> GetRequirement i s' = Some req \<and> rqUpdatedAt req = now
         \<and> (\<forall>e. upExternalID patch = Some e \<and> e \<noteq> [] \<longrightarrow> rqExternalID req = e))
    \<and> (\<forall>j. j \<noteq> i \<longrightarrow> GetRequirement j s' = GetRequirement j s)"
proof (cases "gsRequirements s i")
  case None
  then show ?thesis using assms by (simp add: UpdateRequirementFields_def)
next
  case (Some req)
  define renamed where "renamed = (case upExternalID patch of None \<Rightarrow> None
       | Some e \<Rightarrow> if e \<noteq> [] \<and> e \<noteq> rqExternalID req then Some e else None)"
  define taken where "taken = (\<lambda>e. list_ex (\<lambda>j. case gsRequirements s j of None \<Rightarrow> False
         | Some other \<Rightarrow> j \<noteq> i \<and> rqRepoID other = rqRepoID req \<and> rqExternalID other = e) ks)"
  define req' where "req' = apply_update now patch (case renamed of None \<Rightarrow> req | Some e \<Rightarrow> req\<lparr>rqExternalID := e\<rparr>)"
  have taken: "taken e \<longleftrightarrow> (\<exists>j other. gsRequirements s j = Some other \<and> j \<noteq> i \<and> rqRepoID other = rqRepoID req \<and> rqExternalID other = e)" for e
    using assms(2) by (force simp: taken_def enumerates_def list_ex_iff split: option.splits)
  have run: "UpdateRequirementFields ks now i patch s = (if (case renamed of None \<Rightarrow> False | Some e \<Rightarrow> taken e) then (None, s)
      else (Some req', s\<lparr>gsRequirements := (gsRequirements s)(i \<mapsto> req')\<rparr>))"
    by (simp add: UpdateRequirementFields_def Some renamed_def [symmetric] taken_def [symmetric] req'_def [symmetric] Let_def)
  show ?thesis
  proof (cases "case renamed of None \<Rightarrow> False | Some e \<Rightarrow> taken e")
    case True
    then show ?thesis using assms run by simp
  next
    case False
    then have out: "res = Some req'" "s' = s\<lparr>gsRequirements := (gsRequirements s)(i \<mapsto> req')\<rparr>"
      using assms(3) run by simp_all
    have sel: "rqRepoID req' = rqRepoID req" "rqUpdatedAt req' = now"
      "rqExternalID req' = (case renamed of None \<Rightarrow> rqExternalID req | Some e \<Rightarrow> e)"
      by (simp_all add: req'_def split: option.split)
    have clash: "j = i" if q: "gsRequirements s j = Some q" "rqRepoID q = rqRepoID req" "rqExternalID q = rqExternalID req'"
      "rqExternalID req' \<noteq> []" for j q
    proof (cases renamed)
      case None
      then have "rqExternalID req' = rqExternalID req" by (simp add: sel(3))
      then show ?thesis using assms(1) [unfolded external_ids_unique_def GetRequirement_def, rule_format, of j q i req] q Some by simp
    next
      case (Some e)
      then have "\<not> taken e" "rqExternalID q = e" using False q(3) by (simp_all add: sel(3))
      then show ?thesis using q(1,2) unfolding taken by blast
    qed
    have "external_ids_unique s'"
      unfolding external_ids_unique_def out GetRequirement_def
    proof (intro allI impI)
      fix j k p q
      assume a: "gsRequirements (s\<lparr>gsRequirements := (gsRequirements s)(i \<mapsto> req')\<rparr>) j = Some p
        \<and> gsRequirements (s\<lparr>gsRequirements := (gsRequirements s)(i \<mapsto> req')\<rparr>) k = Some q
        \<and> rqRepoID p = rqRepoID q \<and> rqExternalID p = rqExternalID q \<and> rqExternalID p \<noteq> []"
      show "j = k"
      proof (cases "j = i \<or> k = i")
        case True
        then show ?thesis using a clash [of j p] clash [of k q] sel(1) by (auto split: if_splits)
      next
        case False
        then have "gsRequirements s j = Some p" "gsRequirements s k = Some q" using a by auto
        moreover have "rqRepoID p = rqRepoID q" "rqExternalID p = rqExternalID q" "rqExternalID p \<noteq> []" using a by blast+
        ultimately show ?thesis using assms(1) [unfolded external_ids_unique_def GetRequirement_def, rule_format, of j p k q] by simp
      qed
    qed
    moreover have "rqExternalID req' = e" if "upExternalID patch = Some e \<and> e \<noteq> []" for e
      using that unfolding sel(3) by (auto simp: renamed_def split: option.split if_splits)
    ultimately show ?thesis using out sel(2) by (simp add: GetRequirement_def)
  qed
qed

section \<open>Package dependencies\<close>

text \<open>A file in package \<open>a\<close> of the repository imports \<open>b\<close>.\<close>

definition package_imports :: "string \<Rightarrow> GraphStore \<Rightarrow> string \<Rightarrow> string \<Rightarrow> bool" where
  "package_imports r s a b \<longleftrightarrow> a \<noteq> b \<and> b \<noteq> [] \<and> (\<exists>imp\<in>set (gsImports s). \<exists>f.
     siFileID imp \<in> set (slice_at (gsRepoFiles s) r) \<and> gsFiles s (siFileID imp) = Some f
     \<and> package_of (gfPath f) = a \<and> siPath imp = b)"

lemma import_edge_iff: "(a, b) \<in> set (import_edge r s imp) \<longleftrightarrow> a \<noteq> b \<and> b \<noteq> []
    \<and> (\<exists>f. siFileID imp \<in> set (slice_at (gsRepoFiles s) r) \<and> gsFiles s (siFileID imp) = Some f
         \<and> package_of (gfPath f) = a \<and> siPath imp = b)"
  by (cases "gsFiles s (siFileID imp)") (auto simp: import_edge_def Let_def)

lemma import_edges_iff: "(a, b) \<in> set (import_edges r s) \<longleftrightarrow> package_imports r s a b"
  by (simp add: import_edges_def package_imports_def import_edge_iff)

lemma set_edges:
  "set (edges_from edges p) = {b. (p, b) \<in> set edges}" "set (edges_to edges p) = {a. (a, p) \<in> set edges}"
  by (auto simp: edges_from_def edges_to_def intro: rev_image_eqI)

lemma sorted_edges:
  "sorted (edges_from edges p)" "sorted (edges_to edges p)" "distinct (edges_from edges p)" "distinct (edges_to edges p)"
  by (simp_all add: edges_from_def edges_to_def)

definition deps_record :: "time \<Rightarrow> string \<Rightarrow> GraphStore \<Rightarrow> string \<Rightarrow> StoredPackageDependencies" where
  "deps_record now r s p = \<lparr>pdRepoID = r, pdPackage = p, pdImports = edges_from (import_edges r s) p,
     pdImportedBy = edges_to (import_edges r s) p, pdUpdatedAt = now\<rparr>"

lemma HasPrefix_append [simp]: "HasPrefix (p @ q) p"
  by (simp add: HasPrefix_iff)

lemma HasPrefix_key [simp]: "HasPrefix (r @ c # q) (r @ [c])"
  using HasPrefix_append [of "r @ [c]" q] by simp

lemma package_deps_at:
  "gsPackageDeps (RecomputePackageDependencies now r s) k =
     (if HasPrefix k (r @ '':'')
      then (if \<exists>p q. k = r @ '':'' @ p \<and> (package_imports r s p q \<or> package_imports r s q p)
            then Some (deps_record now r s (drop (length r + 1) k)) else None)
      else gsPackageDeps s k)"
proof -
  define edges where "edges = import_edges r s"
  define ps where "ps = remdups (map fst edges @ map snd edges)"
  have "fold (\<lambda>p m. m(r @ '':'' @ p \<mapsto> f p)) ps m k
      = (if \<exists>p\<in>set ps. k = r @ '':'' @ p then Some (f (drop (length r + 1) k)) else m k)" for f :: "string \<Rightarrow> StoredPackageDependencies" and m
    by (induction ps arbitrary: m) auto
  moreover have "p \<in> set ps \<longleftrightarrow> (\<exists>q. package_imports r s p q \<or> package_imports r s q p)" for p
    unfolding import_edges_iff [symmetric] by (force simp: ps_def edges_def)
  ultimately show ?thesis
    by (auto simp: RecomputePackageDependencies_def Let_def edges_def [symmetric] ps_def [symmetric] deps_record_def)
qed

text \<open>
  C14: The recomputed package dependencies of a repository are the import relation between its packages,
  read in both directions: there is one record for each package that imports or is imported; its two
  lists are sorted, without repetition, and hold exactly the packages it imports and the packages that
  import it; so the two directions are converses. Records of other repositories are left alone, and
  recomputing once more changes nothing but the time stamps.
\<close>

theorem package_dependencies_are_the_import_relation:
  assumes "enumerates (gsPackageDeps s') ks" and "s' = RecomputePackageDependencies now r s"
  shows "(\<forall>p. (\<exists>d\<in>set (GetPackageDependencies ks r s'). pdPackage d = p)
            \<longleftrightarrow> (\<exists>q. package_imports r s p q \<or> package_imports r s q p))
    \<and> distinct (map pdPackage (GetPackageDependencies ks r s'))
    \<and> (\<forall>d\<in>set (GetPackageDependencies ks r s'). pdRepoID d = r
         \<and> set (pdImports d) = {q. package_imports r s (pdPackage d) q} \<and> sorted (pdImports d) \<and> distinct (pdImports d)
         \<and> set (pdImportedBy d) = {q. package_imports r s q (pdPackage d)} \<and> sorted (pdImportedBy d) \<and> distinct (pdImportedBy d))
    \<and> (\<forall>key. \<not> HasPrefix key (r @ '':'') \<longrightarrow> gsPackageDeps s' key = gsPackageDeps s key)
    \<and> RecomputePackageDependencies now r s' = s'"
proof -
  define keys where "keys = filter (\<lambda>key. HasPrefix key (r @ '':'')) ks"
  have keys: "key \<in> set keys \<longleftrightarrow> (\<exists>p q. key = r @ '':'' @ p \<and> (package_imports r s p q \<or> package_imports r s q p))" for key
    using assms(1) unfolding enumerates_def keys_def by (auto simp: assms(2) package_deps_at dom_def split: if_splits)
  have dist: "distinct keys" using assms(1) by (simp add: keys_def enumerates_def)
  have rows: "GetPackageDependencies ks r s' = map (\<lambda>key. deps_record now r s (drop (length r + 1) key)) keys"
    unfolding GetPackageDependencies_def keys_def [symmetric]
    by (rule range_vals_all) (use keys in \<open>auto simp: assms(2) package_deps_at\<close>)
  have sub: "\<exists>d\<in>set (GetPackageDependencies ks r s'). pdPackage d = p" if "package_imports r s p q \<or> package_imports r s q p" for p q
  proof -
    have "r @ '':'' @ p \<in> set keys" using keys that by blast
    then show ?thesis unfolding rows by (force simp: deps_record_def)
  qed
  have sup: "\<exists>q. package_imports r s (pdPackage d) q \<or> package_imports r s q (pdPackage d)"
    if "d \<in> set (GetPackageDependencies ks r s')" for d using that unfolding rows by (clarsimp simp: deps_record_def keys) blast
  have 1: "(\<exists>d\<in>set (GetPackageDependencies ks r s'). pdPackage d = p)
      \<longleftrightarrow> (\<exists>q. package_imports r s p q \<or> package_imports r s q p)" for p using sub sup by blast
  have "map pdPackage (GetPackageDependencies ks r s') = map (drop (length r + 1)) keys"
    by (simp add: rows deps_record_def)
  moreover have "inj_on (drop (length r + 1)) (set keys)" using keys by (auto simp: inj_on_def)
  then have "distinct (map (drop (length r + 1)) keys)" using dist by (simp add: distinct_map)
  ultimately have 2: "distinct (map pdPackage (GetPackageDependencies ks r s'))" by simp
  have 3: "\<forall>d\<in>set (GetPackageDependencies ks r s'). pdRepoID d = r
         \<and> set (pdImports d) = {q. package_imports r s (pdPackage d) q} \<and> sorted (pdImports d) \<and> distinct (pdImports d)
         \<and> set (pdImportedBy d) = {q. package_imports r s q (pdPackage d)} \<and> sorted (pdImportedBy d) \<and> distinct (pdImportedBy d)"
    unfolding rows by (auto simp: deps_record_def set_edges sorted_edges import_edges_iff)
  have 4: "\<forall>key. \<not> HasPrefix key (r @ '':'') \<longrightarrow> gsPackageDeps s' key = gsPackageDeps s key"
    by (simp add: assms(2) package_deps_at)
  have 5: "RecomputePackageDependencies now r s' = s'"
  proof -
    have sel: "gsFiles s' = gsFiles s" "gsImports s' = gsImports s" "gsRepoFiles s' = gsRepoFiles s"
      by (simp_all add: assms(2) RecomputePackageDependencies_def Let_def)
    have "import_edge r s' = import_edge r s" by (rule ext) (simp only: import_edge_def sel)
    then have same: "import_edges r s' = import_edges r s" by (simp only: import_edges_def sel)
    have same': "package_imports r s' = package_imports r s" by (intro ext) (simp only: package_imports_def sel)
    have "gsPackageDeps (RecomputePackageDependencies now r s') = gsPackageDeps s'"
      by (rule ext) (simp add: package_deps_at same same' deps_record_def, simp add: assms(2) package_deps_at deps_record_def, blast)
    moreover have "RecomputePackageDependencies now r s' = s'\<lparr>gsPackageDeps := gsPackageDeps (RecomputePackageDependencies now r s')\<rparr>"
      by (simp add: RecomputePackageDependencies_def Let_def)
    ultimately show ?thesis by simp
  qed
  have "\<forall>p. (\<exists>d\<in>set (GetPackageDependencies ks r s'). pdPackage d = p)
      \<longleftrightarrow> (\<exists>q. package_imports r s p q \<or> package_imports r s q p)" using 1 by blast
  from conjI [OF this conjI [OF 2 conjI [OF 3 conjI [OF 4 5]]]] show ?thesis .
qed

section \<open>Discovered requirements\<close>

lemma still_open_upd [simp]: "still_open (m(i := None)) j = (j \<noteq> i \<and> still_open m j)"
  by (simp add: still_open_def)

lemma delete_discovered_effect:
  "distinct ids \<Longrightarrow> delete_discovered ids m = (int (length (filter (still_open m) ids)),
     filter (\<lambda>i. \<not> still_open m i) ids, (\<lambda>i. if i \<in> set ids \<and> still_open m i then None else m i))"
proof (induction ids arbitrary: m)
  case (Cons i ids)
  have "filter (still_open (m(i := None))) ids = filter (still_open m) ids"
    "filter (\<lambda>j. \<not> still_open (m(i := None)) j) ids = filter (\<lambda>j. \<not> still_open m j) ids"
    using Cons.prems by (auto intro!: filter_cong)
  then show ?case using Cons by (auto simp: fun_eq_iff)
qed simp

definition discovered_ok :: "GraphStore \<Rightarrow> bool" where
  "discovered_ok s \<longleftrightarrow> indexed (gsDiscovered s) (gsRepoDiscovered s) drRepoID
     \<and> (\<forall>i q. gsDiscovered s i = Some q \<longrightarrow> drID q = i) \<and> uuid_ok s \<and> dom (gsDiscovered s) \<subseteq> drawn s"

datatype discovery_op =
    DiscoveryStore time string DiscoveredRequirement
  | DiscoveryPromote time string string
  | DiscoveryDismiss time string string string
  | DiscoveryClear string

fun discovery_step :: "discovery_op \<Rightarrow> GraphStore \<Rightarrow> GraphStore" where
  "discovery_step (DiscoveryStore now r q) s = StoreDiscoveredRequirement now r q s"
| "discovery_step (DiscoveryPromote now i q) s = snd (PromoteDiscoveredRequirement now i q s)"
| "discovery_step (DiscoveryDismiss now i who why) s = snd (DismissDiscoveredRequirement now i who why s)"
| "discovery_step (DiscoveryClear r) s = snd (DeleteDiscoveredRequirementsByRepo r s)"

lemma discovery_step_ok:
  assumes ok: "discovered_ok s"
  shows "discovered_ok (discovery_step a s)"
proof -
  have ix: "indexed (gsDiscovered s) (gsRepoDiscovered s) drRepoID" and u: "uuid_ok s"
    and d: "dom (gsDiscovered s) \<subseteq> drawn s" and id: "\<forall>i q. gsDiscovered s i = Some q \<longrightarrow> drID q = i"
    using ok by (simp_all add: discovered_ok_def)
  have touch: "discovered_ok (s\<lparr>gsDiscovered := (gsDiscovered s)(i \<mapsto> q')\<rparr>)"
    if "gsDiscovered s i = Some q" "drRepoID q' = drRepoID q" "drID q' = drID q" for i q q'
    using indexed_update [OF ix that(1,2)] u d id that unfolding discovered_ok_def by (auto simp: uuid_ok_def drawn_def)
  show ?thesis
  proof (cases a)
    case (DiscoveryStore now r q)
    let ?i = "gsUUID s (gsDrawn s)"
    let ?q = "q\<lparr>drID := ?i, drRepoID := r, drCreatedAt := (if IsZero (drCreatedAt q) then now else drCreatedAt q),
                     drStatus := (if drStatus q = [] then ''discovered'' else drStatus q)\<rparr>"
    let ?s = "StoreDiscoveredRequirement now r q s"
    have new: "gsDiscovered s ?i = None" using next_id_fresh [OF u] d by blast
    have "indexed ((gsDiscovered s)(?i \<mapsto> ?q)) (push_at (drRepoID ?q) ?i (gsRepoDiscovered s)) drRepoID"
      by (rule indexed_push [OF ix new])
    moreover have "drawn ?s = insert ?i (drawn s)" "uuid_ok ?s = uuid_ok s"
      by (simp_all add: StoreDiscoveredRequirement_def graph_NewString_def Let_def drawn_def lessThan_Suc uuid_ok_def)
    moreover have "gsDiscovered ?s = (gsDiscovered s)(?i \<mapsto> ?q)" "gsRepoDiscovered ?s = push_at r ?i (gsRepoDiscovered s)"
      by (simp_all add: StoreDiscoveredRequirement_def graph_NewString_def Let_def)
    ultimately show ?thesis using u d id unfolding DiscoveryStore discovery_step.simps discovered_ok_def by auto
  next
    case (DiscoveryPromote now i q)
    then show ?thesis using ok touch by (auto simp: PromoteDiscoveredRequirement_def Let_def split: option.split)
  next
    case (DiscoveryDismiss now i who why)
    then show ?thesis using ok touch by (auto simp: DismissDiscoveredRequirement_def Let_def split: option.split)
  next
    case (DiscoveryClear r)
    let ?ids = "slice_at (gsRepoDiscovered s) r"
    define rest where "rest = filter (\<lambda>i. \<not> still_open (gsDiscovered s) i) ?ids"
    define m where "m = (\<lambda>i. if i \<in> set ?ids \<and> still_open (gsDiscovered s) i then None else gsDiscovered s i)"
    have run: "delete_discovered ?ids (gsDiscovered s) = (int (length (filter (still_open (gsDiscovered s)) ?ids)), rest, m)"
      unfolding rest_def m_def by (rule delete_discovered_effect [OF indexed_distinct [OF ix]])
    have "indexed m ((gsRepoDiscovered s)(r \<mapsto> rest)) drRepoID"
      using ix unfolding indexed_def m_def rest_def by (auto split: if_splits)
    then show ?thesis
      using u d id by (auto simp: DiscoveryClear DeleteDiscoveredRequirementsByRepo_def run discovered_ok_def uuid_ok_def
          drawn_def m_def split: if_splits)
  qed
qed

interpretation discovery_history: invariant_steps discovery_step "\<lambda>_. True" discovered_ok
  by unfold_locales (rule discovery_step_ok)

text \<open>
  Clearing the discovered requirements of a repository removes exactly its open ones: afterwards a
  requirement is stored as before if it was promoted or dismissed or belongs to another repository, and is
  gone otherwise; the count returned is the number removed.
\<close>

theorem clearing_removes_exactly_the_open:
  assumes "inj uuids" and "\<forall>n. uuids n \<noteq> []" and "s = fold discovery_step ops (NewGraphStore uuids)"
    and "(n, s') = DeleteDiscoveredRequirementsByRepo r s"
  shows "(\<forall>i. GetDiscoveredRequirement i s' = (case GetDiscoveredRequirement i s of None \<Rightarrow> None
           | Some q \<Rightarrow> if drRepoID q = r \<and> drStatus q = ''discovered'' then None else Some q))
    \<and> n = int (card {i. \<exists>q. GetDiscoveredRequirement i s = Some q \<and> drRepoID q = r \<and> drStatus q = ''discovered''})"
proof -
  have "discovered_ok (NewGraphStore uuids)"
    using assms(1,2) by (simp add: discovered_ok_def NewGraphStore_def uuid_ok_def)
  then have "discovered_ok s" unfolding assms(3) by (intro discovery_history.history_inv) simp_all
  then have ix: "indexed (gsDiscovered s) (gsRepoDiscovered s) drRepoID" by (simp add: discovered_ok_def)
  let ?ids = "slice_at (gsRepoDiscovered s) r"
  note run = delete_discovered_effect [OF indexed_distinct [OF ix, of r], of "gsDiscovered s"]
  have out: "gsDiscovered s' = (\<lambda>i. if i \<in> set ?ids \<and> still_open (gsDiscovered s) i then None else gsDiscovered s i)"
    "n = int (length (filter (still_open (gsDiscovered s)) ?ids))"
    using assms(4) by (simp_all add: DeleteDiscoveredRequirementsByRepo_def run)
  have in_r: "i \<in> set ?ids \<longleftrightarrow> (\<exists>q. gsDiscovered s i = Some q \<and> drRepoID q = r)" for i
    by (rule indexed_iff [OF ix])
  have "set (filter (still_open (gsDiscovered s)) ?ids)
      = {i. \<exists>q. gsDiscovered s i = Some q \<and> drRepoID q = r \<and> drStatus q = ''discovered''}"
    using in_r by (auto simp: still_open_def)
  moreover have "length (filter (still_open (gsDiscovered s)) ?ids) = card (set (filter (still_open (gsDiscovered s)) ?ids))"
    by (rule distinct_card [symmetric]) (simp add: indexed_distinct [OF ix])
  ultimately show ?thesis
    using in_r by (auto simp: out GetDiscoveredRequirement_def still_open_def split: option.split)
qed

section \<open>The understanding score\<close>

lemma percent_bounds: "0 \<le> part \<Longrightarrow> part \<le> whole \<Longrightarrow> 0 \<le> percent (part, whole) \<and> percent (part, whole) \<le> 100"
proof -
  assume p: "0 \<le> part" "part \<le> whole"
  show ?thesis
  proof (cases "0 < whole")
    case True
    then show ?thesis using p by (simp add: percent_def divide_le_eq)
  qed (simp add: percent_def)
qed

lemma length_remdups_subset: "set xs \<subseteq> set ys \<Longrightarrow> length (remdups xs) \<le> length ys"
  using card_mono [of "set ys" "set xs"] card_length [of ys] by (simp add: length_remdups_card_conv)

lemma test_coverage_bounds: "0 \<le> tests \<Longrightarrow> tests \<le> every \<Longrightarrow> 0 \<le> test_coverage (tests, every) \<and> test_coverage (tests, every) \<le> 100"
  by (simp add: test_coverage_def)

text \<open>
  Every part of the understanding score is a percentage, and so is the weighted whole, as long as the
  repository's links name its own requirements, its reviews name its own files or symbols in them, and the
  knowledge store's count of fresh artifacts does not exceed its total.
\<close>

theorem understanding_score_is_a_percentage:
  assumes "\<forall>l\<in>set (GetLinksForRepo r s). slRequirementID l \<in> set (slice_at (gsRepoRequirements s) r)"
    and "\<forall>rv\<in>set (GetReviewResultsForRepo ks r s). \<forall>y. GetSymbol (rvTargetID rv) s = Some y
           \<longrightarrow> rvTargetID rv \<in> gfID ` set (GetFiles r s) \<or> ssFileID y \<in> gfID ` set (GetFiles r s)"
    and "\<forall>fresh total. freshness = Some (fresh, total) \<longrightarrow> 0 \<le> fresh \<and> fresh \<le> total"
    and "score = ComputeUnderstandingScore wide ks now freshness r s"
  shows "\<forall>part\<in>{usOverall, usTraceabilityCoverage, usDocumentationCoverage, usReviewCoverage, usTestCoverage,
      usKnowledgeFreshness, usAICodeRatio}. 0 \<le> part score \<and> part score \<le> 100"
proof -
  have "set (map slRequirementID (GetLinksForRepo r s)) \<subseteq> set (slice_at (gsRepoRequirements s) r)"
    using assms(1) by auto
  then have "length (linked_requirements r s) \<le> length (slice_at (gsRepoRequirements s) r)"
    unfolding linked_requirements_def by (rule length_remdups_subset)
  moreover have "snd (the (GetRequirements r 0 0 s)) = int (length (slice_at (gsRepoRequirements s) r))"
    by (simp add: GetRequirements_def Let_def)
  ultimately have t: "0 \<le> usTraceabilityCoverage score \<and> usTraceabilityCoverage score \<le> 100"
    using percent_bounds by (simp add: assms(4) ComputeUnderstandingScore_def Let_def)
  have d: "0 \<le> usDocumentationCoverage score \<and> usDocumentationCoverage score \<le> 100"
    using percent_bounds length_filter_le by (simp add: assms(4) ComputeUnderstandingScore_def Let_def
        GetPublicSymbolDocCoverage_def filter_filter [symmetric] del: filter_filter)
  have "set (concat (map (\<lambda>target. if target \<in> set (map gfID (GetFiles r s)) then [target]
         else (case GetSymbol target s of None \<Rightarrow> [] | Some y \<Rightarrow> [ssFileID y]))
       (map rvTargetID (GetReviewResultsForRepo ks r s)))) \<subseteq> set (map gfID (GetFiles r s))"
    using assms(2) by (auto split: option.splits)
  then have "length (reviewed_files ks r s) \<le> length (map gfID (GetFiles r s))"
    unfolding reviewed_files_def by (rule length_remdups_subset)
  then have v: "0 \<le> usReviewCoverage score \<and> usReviewCoverage score \<le> 100"
    using percent_bounds by (simp add: assms(4) ComputeUnderstandingScore_def Let_def)
  have e: "0 \<le> usTestCoverage score \<and> usTestCoverage score \<le> 100"
    using test_coverage_bounds by (simp add: assms(4) ComputeUnderstandingScore_def Let_def GetTestSymbolRatio_def)
  have k: "0 \<le> usKnowledgeFreshness score \<and> usKnowledgeFreshness score \<le> 100"
    using percent_bounds assms(3) by (auto simp: assms(4) ComputeUnderstandingScore_def Let_def split: option.split)
  have a: "0 \<le> usAICodeRatio score \<and> usAICodeRatio score \<le> 100"
    using percent_bounds by (simp add: assms(4) ComputeUnderstandingScore_def Let_def GetAICodeFileRatio_def)
  have "usOverall score = usTraceabilityCoverage score * (25 / 100) + usDocumentationCoverage score * (25 / 100)
      + usReviewCoverage score * (20 / 100) + usTestCoverage score * (15 / 100) + usKnowledgeFreshness score * (15 / 100)"
    by (simp add: assms(4) ComputeUnderstandingScore_def Let_def)
  then have "0 \<le> usOverall score \<and> usOverall score \<le> 100" using t d v e k by simp
  then show ?thesis using t d v e k a by simp
qed

section \<open>Applied to a small store\<close>

definition demo_link :: "string \<Rightarrow> string \<Rightarrow> StoredLink" where
  "demo_link req symbol = \<lparr>slID = [], slRepoID = [], slRequirementID = req, slSymbolID = symbol, slConfidence = Fin (1 / 2),
     slSource = ''ai'', slLinkType = ''implements'', slRationale = [], slVerified = False, slVerifiedBy = [],
     slRejected = False, slCreatedAt = 0\<rparr>"

definition demo_requirement :: "string \<Rightarrow> StoredRequirement" where
  "demo_requirement e = \<lparr>rqID = [], rqRepoID = [], rqExternalID = e, rqTitle = e, rqDescription = [], rqSource = [],
     rqPriority = [], rqTags = [], rqAcceptanceCriteria = [], rqCreatedAt = 0, rqUpdatedAt = 0\<rparr>"

definition demo_discovered :: "string \<Rightarrow> DiscoveredRequirement" where
  "demo_discovered status = \<lparr>drID = [], drRepoID = [], drSource = [], drSourceFile = [], drSourceLine = 0,
     drSourceFiles = [], drText = [], drRawText = [], drGroupKey = [], drLanguage = [], drKeywords = [],
     drConfidence = ''high'', drStatus = status, drLLMRefined = False, drPromotedTo = [], drDismissedBy = [],
     drDismissedReason = [], drCreatedAt = 0, drDismissedAt = 0, drPromotedAt = 0\<rparr>"

definition no_update :: RequirementUpdate where
  "no_update = \<lparr>upExternalID = None, upTitle = None, upDescription = None, upPriority = None, upSource = None,
     upTags = None, upAcceptanceCriteria = None\<rparr>"

definition demo_link_ops :: "link_op list" where
  "demo_link_ops = [LinkStore 1 ''r'' (demo_link ''q'' ''y''), LinkStore 2 ''r'' (demo_link ''q'' ''z''),
     LinkVerify ''u'' False ''me'']"

theorem link_reads_are_exact_witness:
  "(\<forall>q rej l. l \<in> set (GetLinksForRequirement q rej (fold link_step demo_link_ops (NewGraphStore demo_uuids)))
      \<longleftrightarrow> GetLink (slID l) (fold link_step demo_link_ops (NewGraphStore demo_uuids)) = Some l
        \<and> slRequirementID l = q \<and> (rej \<or> \<not> slRejected l))
   \<and> length demo_link_ops = 3"
  using link_reads_are_exact [OF demo_uuids_ok refl, of demo_link_ops]
  by (intro conjI) (blast, simp add: demo_link_ops_def)

definition demo_links :: GraphStore where
  "demo_links = fold link_step demo_link_ops (NewGraphStore demo_uuids)"

definition demo_row :: StoredLink where
  "demo_row = (demo_link ''q'' ''z'')\<lparr>slID := ''uu'', slRepoID := ''r'', slCreatedAt := 2\<rparr>"

lemma demo_link_stored: "GetLink ''uu'' demo_links = Some demo_row"
  by (simp add: demo_links_def demo_row_def demo_link_ops_def StoreLink_def graph_NewString_def NewGraphStore_def put_link_def
      VerifyLink_def verified_link_def GetLink_def Let_def demo_uuids_def)

theorem verify_link_decides_visibility_witness:
  "\<not> (\<exists>k\<in>set (GetLinksForRequirement (slRequirementID demo_row) False (snd (VerifyLink ''uu'' False ''me'' demo_links))). slID k = ''uu'')"
proof -
  note v = verify_link_decides_visibility [OF demo_uuids_ok demo_links_def demo_link_stored prod.collapse, of False "''me''"]
  have "(\<exists>k\<in>set (GetLinksForRequirement (slRequirementID demo_row) False (snd (VerifyLink ''uu'' False ''me'' demo_links))). slID k = ''uu'')
      \<longleftrightarrow> False \<or> False" by (rule v [THEN conjunct2, THEN conjunct2, THEN conjunct1, THEN spec])
  then show ?thesis by simp
qed

definition demo_requirements :: GraphStore where
  "demo_requirements = StoreRequirement 1 ''r'' (demo_requirement ''R1'')
     (StoreRequirement 1 ''r'' (demo_requirement ''R2'') (NewGraphStore demo_uuids))"

lemma demo_requirements_at:
  "gsRequirements demo_requirements = [''u'' \<mapsto> (demo_requirement ''R2'')\<lparr>rqID := ''u'', rqRepoID := ''r'', rqCreatedAt := 1, rqUpdatedAt := 1\<rparr>,
     ''uu'' \<mapsto> (demo_requirement ''R1'')\<lparr>rqID := ''uu'', rqRepoID := ''r'', rqCreatedAt := 1, rqUpdatedAt := 1\<rparr>]"
  by (simp add: demo_requirements_def StoreRequirement_def graph_NewString_def NewGraphStore_def Let_def demo_uuids_def)

lemma demo_requirements_ok: "external_ids_unique demo_requirements" "enumerates (gsRequirements demo_requirements) [''u'', ''uu'']"
proof -
  have "(i = ''u'' \<and> rqExternalID p = ''R2'') \<or> (i = ''uu'' \<and> rqExternalID p = ''R1'')"
    if "GetRequirement i demo_requirements = Some p" for i p
    using that by (auto simp: GetRequirement_def demo_requirements_at demo_requirement_def split: if_splits)
  then show "external_ids_unique demo_requirements" unfolding external_ids_unique_def
  proof (intro allI impI; elim conjE)
    fix i j p q
    assume ids: "\<And>i p. GetRequirement i demo_requirements = Some p \<Longrightarrow> i = ''u'' \<and> rqExternalID p = ''R2'' \<or> i = ''uu'' \<and> rqExternalID p = ''R1''"
      and p: "GetRequirement i demo_requirements = Some p" "GetRequirement j demo_requirements = Some q" "rqExternalID p = rqExternalID q"
    show "i = j" using ids [OF p(1)] ids [OF p(2)] p(3) by auto
  qed
qed (auto simp: enumerates_def demo_requirements_at split: if_splits)

theorem update_keeps_external_ids_unique_witness:
  "external_ids_unique (snd (UpdateRequirementFields [''u'', ''uu''] 5 ''u'' (no_update\<lparr>upExternalID := Some ''R1''\<rparr>) demo_requirements))
   \<and> fst (UpdateRequirementFields [''u'', ''uu''] 5 ''u'' (no_update\<lparr>upExternalID := Some ''R1''\<rparr>) demo_requirements) = None
   \<and> fst (UpdateRequirementFields [''u'', ''uu''] 5 ''u'' (no_update\<lparr>upExternalID := Some ''R3''\<rparr>) demo_requirements) \<noteq> None"
  using update_keeps_external_ids_unique [OF demo_requirements_ok prod.collapse, of 5 "''u''" "no_update\<lparr>upExternalID := Some ''R1''\<rparr>"]
  by (simp add: UpdateRequirementFields_def demo_requirements_at demo_requirement_def no_update_def Let_def)

definition demo_packages :: GraphStore where
  "demo_packages = (NewGraphStore demo_uuids)\<lparr>gsFiles := [''f'' \<mapsto> stored_file ''r'' ''f'' (demo_file ''a/x'' [])],
     gsRepoFiles := [''r'' \<mapsto> [''f'']], gsImports := [\<lparr>siFileID = ''f'', siPath = ''fmt'', siLine = 1\<rparr>]\<rparr>"

lemma demo_packages_at:
  "gsPackageDeps (RecomputePackageDependencies 2 ''r'' demo_packages) =
     [''r:a'' \<mapsto> \<lparr>pdRepoID = ''r'', pdPackage = ''a'', pdImports = [''fmt''], pdImportedBy = [], pdUpdatedAt = 2\<rparr>,
      ''r:fmt'' \<mapsto> \<lparr>pdRepoID = ''r'', pdPackage = ''fmt'', pdImports = [], pdImportedBy = [''a''], pdUpdatedAt = 2\<rparr>]"
  by (simp add: RecomputePackageDependencies_def import_edges_def import_edge_def demo_packages_def NewGraphStore_def Let_def
      slice_at_def stored_file_def demo_file_def package_of_def before_last_def edges_from_def edges_to_def fun_eq_iff)

theorem package_dependencies_are_the_import_relation_witness:
  "RecomputePackageDependencies 2 ''r'' (RecomputePackageDependencies 2 ''r'' demo_packages)
     = RecomputePackageDependencies 2 ''r'' demo_packages
   \<and> map pdPackage (GetPackageDependencies [''r:a'', ''r:fmt''] ''r'' (RecomputePackageDependencies 2 ''r'' demo_packages)) = [''a'', ''fmt'']"
proof -
  have "enumerates (gsPackageDeps (RecomputePackageDependencies 2 ''r'' demo_packages)) [''r:a'', ''r:fmt'']"
    by (auto simp: enumerates_def demo_packages_at)
  from package_dependencies_are_the_import_relation [OF this refl] show ?thesis
    by (simp add: GetPackageDependencies_def demo_packages_at)
qed

definition demo_discovery :: "discovery_op list" where
  "demo_discovery = [DiscoveryStore 1 ''r'' (demo_discovered []), DiscoveryStore 1 ''r'' (demo_discovered []),
     DiscoveryPromote 2 ''uu'' ''q'']"

theorem clearing_removes_exactly_the_open_witness:
  "GetDiscoveredRequirement ''uu'' (snd (DeleteDiscoveredRequirementsByRepo ''r'' (fold discovery_step demo_discovery (NewGraphStore demo_uuids)))) \<noteq> None
   \<and> GetDiscoveredRequirement ''u'' (snd (DeleteDiscoveredRequirementsByRepo ''r'' (fold discovery_step demo_discovery (NewGraphStore demo_uuids)))) = None"
proof -
  let ?s = "fold discovery_step demo_discovery (NewGraphStore demo_uuids)"
  have "gsDiscovered ?s ''u'' = Some ((demo_discovered ''discovered'')\<lparr>drID := ''u'', drRepoID := ''r'', drCreatedAt := 1\<rparr>)"
    "gsDiscovered ?s ''uu'' = Some ((demo_discovered ''promoted'')\<lparr>drID := ''uu'', drRepoID := ''r'', drCreatedAt := 1,
       drPromotedTo := ''q'', drPromotedAt := 2\<rparr>)"
    by (simp_all add: demo_discovery_def StoreDiscoveredRequirement_def PromoteDiscoveredRequirement_def graph_NewString_def
        NewGraphStore_def Let_def demo_uuids_def demo_discovered_def IsZero_def zero_time_def)
  then show ?thesis
    using clearing_removes_exactly_the_open [OF demo_uuids_ok refl prod.collapse, of "''r''" demo_discovery]
    by (simp add: GetDiscoveredRequirement_def demo_discovered_def)
qed

theorem understanding_score_is_a_percentage_witness:
  "usOverall (ComputeUnderstandingScore (\<lambda>_. False) [] 0 (Some (1, 2)) ''r'' demo_requirements) \<le> 100"
  using understanding_score_is_a_percentage [of "''r''" demo_requirements "[]" "Some (1, 2)", OF _ _ _ refl]
  by (simp add: GetLinksForRepo_def live_links_def GetReviewResultsForRepo_def demo_requirements_def StoreRequirement_def
      graph_NewString_def NewGraphStore_def Let_def)

text \<open>Links may name requirements that the repository does not have, and then the coverage exceeds one hundred.\<close>

lemma traceability_can_exceed_one_hundred:
  "usTraceabilityCoverage (ComputeUnderstandingScore wide ks now freshness ''r''
     (snd (StoreLink 3 ''r'' (demo_link ''x'' ''y'') (snd (StoreLink 2 ''r'' (demo_link ''w'' ''y'')
        (StoreRequirement 1 ''r'' (demo_requirement ''R1'') (NewGraphStore demo_uuids))))))) = 200"
  by (simp add: ComputeUnderstandingScore_def StoreRequirement_def StoreLink_def graph_NewString_def NewGraphStore_def
      put_link_def Let_def demo_uuids_def GetRequirements_def linked_requirements_def GetLinksForRepo_def live_links_def
      demo_link_def demo_requirement_def percent_def push_at_def slice_at_def)

end
