(* ===== verification/Graph_Impact_Laws.thy ===== *)
theory Graph_Impact_Laws
  imports Graph_Impact Graph_Link_Laws
begin

text \<open>
  Properties of impact reports, symbol differences, the expansion over callers and execution paths.
\<close>

section \<open>Callers within a number of calls\<close>

text \<open>\<open>i\<close> calls \<open>r\<close> over \<open>n\<close> calls, through stored symbols.\<close>

inductive calls_over :: "GraphStore \<Rightarrow> nat \<Rightarrow> string \<Rightarrow> string \<Rightarrow> bool" for s where
  itself: "calls_over s 0 r r"
| one_more: "calls_over s n j r \<Longrightarrow> i \<in> set (GetCallers j s) \<Longrightarrow> GetSymbol i s \<noteq> None \<Longrightarrow> calls_over s (Suc n) i r"

inductive_cases calls_over_0: "calls_over s 0 i r"
inductive_cases calls_over_Suc: "calls_over s (Suc n) i r"

definition callers_within :: "GraphStore \<Rightarrow> nat \<Rightarrow> string set \<Rightarrow> string set" where
  "callers_within s n R = {i. \<exists>r\<in>R. \<exists>m\<le>n. calls_over s m i r}"

lemma callers_within_0: "callers_within s 0 R = R"
  by (auto simp: callers_within_def intro: itself elim: calls_over_0)

lemma callers_within_Suc:
  "callers_within s (Suc n) R
     = callers_within s n R \<union> {i. GetSymbol i s \<noteq> None \<and> (\<exists>j\<in>callers_within s n R. i \<in> set (GetCallers j s))}"
proof (intro set_eqI iffI)
  fix i assume "i \<in> callers_within s (Suc n) R"
  then obtain r m where r: "r \<in> R" "m \<le> Suc n" "calls_over s m i r" unfolding callers_within_def by blast
  show "i \<in> callers_within s n R \<union> {i. GetSymbol i s \<noteq> None \<and> (\<exists>j\<in>callers_within s n R. i \<in> set (GetCallers j s))}"
  proof (cases "m \<le> n")
    case True
    then show ?thesis using r unfolding callers_within_def by blast
  next
    case False
    then have "calls_over s (Suc n) i r" using r by (simp add: le_Suc_eq)
    then obtain j where "calls_over s n j r" "i \<in> set (GetCallers j s)" "GetSymbol i s \<noteq> None" by (rule calls_over_Suc) blast
    then show ?thesis using r(1) unfolding callers_within_def by blast
  qed
next
  fix i assume "i \<in> callers_within s n R \<union> {i. GetSymbol i s \<noteq> None \<and> (\<exists>j\<in>callers_within s n R. i \<in> set (GetCallers j s))}"
  then show "i \<in> callers_within s (Suc n) R"
    unfolding callers_within_def by (blast intro: le_SucI one_more Suc_le_mono [THEN iffD2])
qed

text \<open>The ids a level adds: unseen and stored, each once.\<close>

fun newly :: "GraphStore \<Rightarrow> string set \<Rightarrow> string list \<Rightarrow> string list" where
  "newly s seen [] = []"
| "newly s seen (i # is) = (if i \<in> seen then newly s seen is
     else if GetSymbol i s = None then newly s (insert i seen) is else i # newly s (insert i seen) is)"

lemma set_newly: "set (newly s seen is) = {i \<in> set is. i \<notin> seen \<and> GetSymbol i s \<noteq> None}"
  by (induction "is" arbitrary: seen) auto

lemma distinct_newly: "distinct (newly s seen is)"
  by (induction "is" arbitrary: seen) (auto simp: set_newly)

definition caller_change :: "GraphStore \<Rightarrow> string \<Rightarrow> ImpactSymbolChange" where
  "caller_change s i = change_of ''modified'' (the (GetSymbol i s)) [] []"

lemma fold_expand_caller:
  "fold (expand_caller s) is (seen, expanded, next_ids)
     = (seen \<union> set is, expanded @ map (caller_change s) (newly s seen is), next_ids @ newly s seen is)"
  by (induction "is" arbitrary: seen expanded next_ids)
    (auto simp: expand_caller_def caller_change_def split: option.split)

lemma expand_level_concat:
  "expand_level s frontier x = fold (expand_caller s) (concat (map (\<lambda>i. GetCallers i s) frontier)) x"
  by (induction frontier arbitrary: x) (simp_all add: expand_level_def)

text \<open>What holds after \<open>d\<close> levels.\<close>

definition expansion_inv :: "GraphStore \<Rightarrow> string set \<Rightarrow> nat \<Rightarrow> string set \<Rightarrow> string list \<Rightarrow> string list \<Rightarrow> bool" where
  "expansion_inv s R d seen found frontier \<longleftrightarrow>
     distinct found \<and> set found = callers_within s d R - R \<and> callers_within s d R \<subseteq> seen
     \<and> (\<forall>i\<in>seen. i \<in> callers_within s d R \<or> GetSymbol i s = None)
     \<and> set frontier \<subseteq> callers_within s d R
     \<and> (\<forall>j\<in>callers_within s d R - set frontier. \<forall>i\<in>set (GetCallers j s). GetSymbol i s \<noteq> None \<longrightarrow> i \<in> callers_within s d R)"

lemma expansion_inv_start: "set frontier = R \<Longrightarrow> expansion_inv s R 0 R [] frontier"
  by (simp add: expansion_inv_def callers_within_0)

lemma callers_within_closed:
  assumes "expansion_inv s R d seen found []"
  shows "callers_within s (d + k) R = callers_within s d R"
proof (induction k)
  case (Suc k)
  have "callers_within s (d + Suc k) R = callers_within s d R \<union> {i. GetSymbol i s \<noteq> None \<and> (\<exists>j\<in>callers_within s d R. i \<in> set (GetCallers j s))}"
    by (simp add: callers_within_Suc Suc.IH)
  then show ?case using assms unfolding expansion_inv_def by auto
qed simp

lemma expansion_inv_level:
  assumes inv: "expansion_inv s R d seen found frontier"
  defines "cs \<equiv> concat (map (\<lambda>i. GetCallers i s) frontier)"
  shows "expansion_inv s R (Suc d) (seen \<union> set cs) (found @ newly s seen cs) (newly s seen cs)"
proof -
  let ?W = "callers_within s d R"
  note all = inv [unfolded expansion_inv_def]
  note i = all [THEN conjunct1] all [THEN conjunct2, THEN conjunct1] all [THEN conjunct2, THEN conjunct2, THEN conjunct1]
    all [THEN conjunct2, THEN conjunct2, THEN conjunct2, THEN conjunct1]
    all [THEN conjunct2, THEN conjunct2, THEN conjunct2, THEN conjunct2, THEN conjunct1]
    all [THEN conjunct2, THEN conjunct2, THEN conjunct2, THEN conjunct2, THEN conjunct2]
  have cs: "set cs = (\<Union>j\<in>set frontier. set (GetCallers j s))" by (simp add: cs_def)
  have new: "set (newly s seen cs) = {i \<in> set cs. i \<notin> seen \<and> GetSymbol i s \<noteq> None}" by (rule set_newly)
  have W: "callers_within s (Suc d) R = ?W \<union> set (newly s seen cs)"
  proof (intro set_eqI iffI)
    fix x assume "x \<in> callers_within s (Suc d) R"
    then consider "x \<in> ?W" | j where "GetSymbol x s \<noteq> None" "j \<in> ?W" "x \<in> set (GetCallers j s)"
      unfolding callers_within_Suc by blast
    then show "x \<in> ?W \<union> set (newly s seen cs)"
    proof cases
      case 2
      show ?thesis
      proof (cases "j \<in> set frontier")
        case True
        then have "x \<in> set cs" using 2(3) cs by auto
        have "x \<in> ?W" if "x \<in> seen" using bspec [OF i(4) that] 2(1) by simp
        then show ?thesis using \<open>x \<in> set cs\<close> 2(1) by (cases "x \<in> seen") (simp_all add: new)
      next
        case False
        then have "j \<in> ?W - set frontier" using 2(2) by simp
        from bspec [OF bspec [OF i(6) this] 2(3)] show ?thesis using 2(1) by simp
      qed
    qed simp
  next
    fix x assume "x \<in> ?W \<union> set (newly s seen cs)"
    then consider "x \<in> ?W" | "x \<in> set cs" "GetSymbol x s \<noteq> None" unfolding new by blast
    then show "x \<in> callers_within s (Suc d) R"
    proof cases
      case 2
      then obtain j where "j \<in> set frontier" "x \<in> set (GetCallers j s)" using cs by auto
      then have "j \<in> ?W" by (auto intro: subsetD [OF i(5)])
      then show ?thesis using 2(2) \<open>x \<in> set (GetCallers j s)\<close> unfolding callers_within_Suc by blast
    qed (simp add: callers_within_Suc)
  qed
  have RW: "R \<subseteq> ?W" unfolding callers_within_def by (auto intro: itself)
  show ?thesis unfolding expansion_inv_def W
  proof (intro conjI)
    show "distinct (found @ newly s seen cs)" using i(1,2,3) new by (auto simp: distinct_newly)
    show "set (found @ newly s seen cs) = ?W \<union> set (newly s seen cs) - R" using i(2,3) new RW by auto
    show "?W \<union> set (newly s seen cs) \<subseteq> seen \<union> set cs" using i(3) new by auto
    show "\<forall>i\<in>seen \<union> set cs. i \<in> ?W \<union> set (newly s seen cs) \<or> GetSymbol i s = None" using i(4) new by auto
    show "set (newly s seen cs) \<subseteq> ?W \<union> set (newly s seen cs)" by blast
    show "\<forall>j\<in>?W \<union> set (newly s seen cs) - set (newly s seen cs). \<forall>i\<in>set (GetCallers j s).
        GetSymbol i s \<noteq> None \<longrightarrow> i \<in> ?W \<union> set (newly s seen cs)"
    proof (intro ballI impI)
      fix j x assume j: "j \<in> ?W \<union> set (newly s seen cs) - set (newly s seen cs)"
        and x: "x \<in> set (GetCallers j s)" "GetSymbol x s \<noteq> None"
      from j have "j \<in> ?W" by blast
      then have "x \<in> callers_within s (Suc d) R" using x unfolding callers_within_Suc by blast
      then show "x \<in> ?W \<union> set (newly s seen cs)" unfolding W .
    qed
  qed
qed

lemma expand_loop_found:
  assumes "expansion_inv s R d seen found frontier"
  shows "\<exists>found'. expand_loop n s seen (base @ map (caller_change s) found) frontier = base @ map (caller_change s) found'
     \<and> distinct found' \<and> set found' = callers_within s (d + n) R - R"
  using assms
proof (induction n arbitrary: d seen found frontier)
  case 0
  then show ?case by (auto simp: expansion_inv_def)
next
  case (Suc n)
  show ?case
  proof (cases "frontier = []")
    case True
    then show ?thesis using Suc.prems callers_within_closed [of s R d seen found "Suc n"]
      by (auto simp: expansion_inv_def simp del: add_Suc_right)
  next
    case False
    let ?cs = "concat (map (\<lambda>i. GetCallers i s) frontier)"
    have "expand_loop (Suc n) s seen (base @ map (caller_change s) found) frontier
        = expand_loop n s (seen \<union> set ?cs) (base @ map (caller_change s) (found @ newly s seen ?cs)) (newly s seen ?cs)"
      using False by (simp add: expand_level_concat fold_expand_caller)
    then show ?thesis using Suc.IH [OF expansion_inv_level [OF Suc.prems]] by simp
  qed
qed

lemma caller_change_id:
  assumes "graph_wf s" and "GetSymbol i s \<noteq> None"
  shows "icSymbolID (caller_change s i) = i" and "icChangeType (caller_change s i) = ''modified''"
proof -
  obtain y where y: "GetSymbol i s = Some y" using assms(2) by blast
  then have "ssID y = i" using rows_ok_symbol [of "dom (gsRepos s)" s i y] assms(1) by (simp add: graph_wf_alt GetSymbol_def)
  then show "icSymbolID (caller_change s i) = i" "icChangeType (caller_change s i) = ''modified''"
    using y by (simp_all add: caller_change_def change_of_def)
qed

lemma callers_within_stored: "i \<in> callers_within s n R \<Longrightarrow> i \<notin> R \<Longrightarrow> GetSymbol i s \<noteq> None"
  unfolding callers_within_def by (auto elim: calls_over.cases)

text \<open>
  C11: The expansion of a simulated change lists the resolved symbols, in order, and then, each once, exactly
  the other stored symbols that reach one of them over at most \<open>maxDepth\<close> calls (never more than four),
  callers of callers included; all are marked modified. The search ends even when calls form cycles.
\<close>

theorem expansion_is_the_bounded_callers:
  assumes wf: "graph_wf s"
    and out: "out = ExpandViaCallGraph resolved maxDepth s" and ids: "ids = map mtSymbolId resolved"
  shows "\<exists>new. map icSymbolID out = ids @ new \<and> distinct new
     \<and> set new = callers_within s (nat (min maxDepth 4)) (set ids) - set ids
     \<and> (\<forall>c\<in>set out. icChangeType c = ''modified'')"
proof -
  obtain new where new: "out = map match_change resolved @ map (caller_change s) new" "distinct new"
      "set new = callers_within s (0 + nat (min maxDepth 4)) (set ids) - set ids"
    using expand_loop_found [OF expansion_inv_start [of ids "set ids" s], of "nat (min maxDepth 4)" "map match_change resolved"]
    by (auto simp: out ExpandViaCallGraph_def ids)
  have stored: "GetSymbol i s \<noteq> None" if "i \<in> set new" for i using that new(3) callers_within_stored by blast
  have "map icSymbolID out = ids @ new"
    using caller_change_id(1) [OF wf stored] by (auto simp: new(1) ids match_change_def intro!: map_idI)
  moreover have "\<forall>c\<in>set out. icChangeType c = ''modified''"
    using caller_change_id(2) [OF wf stored] by (auto simp: new(1) match_change_def)
  ultimately show ?thesis using new(2,3) by auto
qed

section \<open>The difference of two symbol sets\<close>

text \<open>The symbol a key stands for: the last one listed with it, when its file is among the changed ones.\<close>

definition latest :: "string set \<Rightarrow> StoredSymbol list \<Rightarrow> symbolKey \<Rightarrow> StoredSymbol option" where
  "latest changedFiles syms k = (if fst k \<in> changedFiles then List.find (\<lambda>y. symbolKey_of y = k) (rev syms) else None)"

lemma find_append: "List.find P (xs @ ys) = (case List.find P xs of None \<Rightarrow> List.find P ys | Some x \<Rightarrow> Some x)"
  by (induction xs) simp_all

lemma symbols_by_key_latest: "symbols_by_key changedFiles syms = latest changedFiles syms"
proof -
  have "fold (\<lambda>y m. if ssFilePath y \<in> changedFiles then m(symbolKey_of y \<mapsto> y) else m) syms m k
      = (case latest changedFiles syms k of None \<Rightarrow> m k | Some y \<Rightarrow> Some y)" for m k
  proof (induction syms arbitrary: m)
    case (Cons y syms)
    have "fst (symbolKey_of y) = ssFilePath y" by (simp add: symbolKey_of_def)
    then show ?case using Cons by (auto simp: latest_def find_append split: option.split)
  qed (simp add: latest_def)
  then show ?thesis by (auto simp: symbols_by_key_def fun_eq_iff split: option.split)
qed

lemma latest_key: "latest changedFiles syms k = Some y \<Longrightarrow> symbolKey_of y = k"
  by (auto simp: latest_def find_Some_iff split: if_splits)

definition change_key :: "ImpactSymbolChange \<Rightarrow> symbolKey" where
  "change_key c = (icFilePath c, icName c, icKind c)"

lemma change_key_of [simp]: "change_key (change_of t y old new) = symbolKey_of y"
  by (simp add: change_key_def change_of_def symbolKey_of_def)

lemma distinct_concat_keys:
  assumes "distinct ks" and "\<forall>k c. c \<in> set (f k) \<longrightarrow> key c = k" and "\<forall>k. length (f k) \<le> 1"
  shows "distinct (map key (concat (map f ks)))"
  using assms(1)
proof (induction ks)
  case (Cons k ks)
  have "distinct (map key (f k))" using assms(3) [rule_format, of k] by (cases "f k") auto
  then show ?case using Cons assms(2) by (auto simp: distinct_append)
qed simp

lemma in_concat_keys:
  assumes "\<forall>k c. c \<in> set (f k) \<longrightarrow> key c = k" and "\<forall>k. k \<notin> set ks \<longrightarrow> f k = []"
  shows "c \<in> set (concat (map f ks)) \<longleftrightarrow> c \<in> set (f (key c))"
proof
  assume "c \<in> set (concat (map f ks))"
  then obtain k where "c \<in> set (f k)" by auto
  then show "c \<in> set (f (key c))" using assms(1) by simp
next
  assume c: "c \<in> set (f (key c))"
  then have "key c \<in> set ks" using assms(2) by (cases "key c \<in> set ks") auto
  then show "c \<in> set (concat (map f ks))" using c by auto
qed

lemma diff_new_key: "c \<in> set (diff_new old (latest F syms) k) \<Longrightarrow> change_key c = k"
  by (auto simp: diff_new_def latest_key split: option.splits if_splits)

lemma diff_old_key: "c \<in> set (diff_old (latest F syms) new k) \<Longrightarrow> change_key c = k"
  by (auto simp: diff_old_def latest_key split: option.splits)

text \<open>The change a key has undergone, if any.\<close>

definition key_change :: "StoredSymbol option \<Rightarrow> StoredSymbol option \<Rightarrow> ImpactSymbolChange option" where
  "key_change old new = (case (old, new) of
      (None, None) \<Rightarrow> None
    | (None, Some y) \<Rightarrow> Some (change_of ''added'' y [] (ssSignature y))
    | (Some x, None) \<Rightarrow> Some (change_of ''removed'' x (ssSignature x) [])
    | (Some x, Some y) \<Rightarrow>
        if ssSignature x = ssSignature y \<and> ssStartLine x = ssStartLine y \<and> ssEndLine x = ssEndLine y then None
        else Some (change_of ''modified'' y (ssSignature x) (ssSignature y)))"

text \<open>No two symbols of the changed files share file, name and kind.\<close>

definition told_apart :: "string set \<Rightarrow> StoredSymbol list \<Rightarrow> bool" where
  "told_apart F syms \<longleftrightarrow> distinct (map symbolKey_of (filter (\<lambda>y. ssFilePath y \<in> F) syms))"

lemma told_apart_inj:
  assumes "told_apart F syms" and "x \<in> set syms" "y \<in> set syms" and "ssFilePath x \<in> F"
    and "symbolKey_of x = symbolKey_of y"
  shows "x = y"
proof -
  have "ssFilePath y \<in> F" using assms(4,5) by (simp add: symbolKey_of_def)
  then show ?thesis
    using assms unfolding told_apart_def distinct_map by (auto dest: inj_onD)
qed

lemma latest_told_apart:
  assumes "told_apart F syms"
  shows "latest F syms k = Some y \<longleftrightarrow> y \<in> set syms \<and> ssFilePath y \<in> F \<and> symbolKey_of y = k"
proof
  show "y \<in> set syms \<and> ssFilePath y \<in> F \<and> symbolKey_of y = k" if "latest F syms k = Some y"
    using that by (auto simp: latest_def find_Some_iff symbolKey_of_def split: if_splits)
      (metis length_rev nth_mem set_rev)
next
  assume y: "y \<in> set syms \<and> ssFilePath y \<in> F \<and> symbolKey_of y = k"
  then have F: "fst k \<in> F" by (auto simp: symbolKey_of_def)
  obtain x where x: "List.find (\<lambda>y. symbolKey_of y = k) (rev syms) = Some x"
    using y by (cases "List.find (\<lambda>y. symbolKey_of y = k) (rev syms)") (auto simp: find_None_iff)
  then have "x \<in> set syms" "symbolKey_of x = k" by (auto simp: find_Some_iff) (metis length_rev nth_mem set_rev)
  then have "x = y" using told_apart_inj [OF assms, of y x] y by auto
  then show "latest F syms k = Some y" using F x by (simp add: latest_def)
qed

text \<open>What happened to a symbol of the changed files.\<close>

definition symbol_change :: "string set \<Rightarrow> StoredSymbol list \<Rightarrow> StoredSymbol list \<Rightarrow> ImpactSymbolChange \<Rightarrow> bool" where
  "symbol_change F old new c \<longleftrightarrow>
     (\<exists>y\<in>set new. ssFilePath y \<in> F \<and> symbolKey_of y \<notin> symbolKey_of ` set old
        \<and> c = change_of ''added'' y [] (ssSignature y))
   \<or> (\<exists>x\<in>set old. ssFilePath x \<in> F \<and> symbolKey_of x \<notin> symbolKey_of ` set new
        \<and> c = change_of ''removed'' x (ssSignature x) [])
   \<or> (\<exists>x\<in>set old. \<exists>y\<in>set new. ssFilePath y \<in> F \<and> symbolKey_of x = symbolKey_of y
        \<and> (ssSignature x \<noteq> ssSignature y \<or> ssStartLine x \<noteq> ssStartLine y \<or> ssEndLine x \<noteq> ssEndLine y)
        \<and> c = change_of ''modified'' y (ssSignature x) (ssSignature y))"

lemma latest_None_told_apart:
  assumes "told_apart F syms" and "fst k \<in> F"
  shows "latest F syms k = None \<longleftrightarrow> k \<notin> symbolKey_of ` set syms"
proof -
  have "latest F syms k = None \<longleftrightarrow> (\<forall>y. latest F syms k \<noteq> Some y)" by auto
  also have "\<dots> \<longleftrightarrow> k \<notin> symbolKey_of ` set syms"
    using assms(2) by (auto simp: latest_told_apart [OF assms(1)] symbolKey_of_def)
  finally show ?thesis .
qed

lemma symbol_change_key:
  assumes "told_apart F old" and "told_apart F new"
  shows "symbol_change F old new c
     \<longleftrightarrow> key_change (latest F old (change_key c)) (latest F new (change_key c)) = Some c"
proof
  assume "symbol_change F old new c"
  then consider
      y where "y \<in> set new" "ssFilePath y \<in> F" "symbolKey_of y \<notin> symbolKey_of ` set old"
        "c = change_of ''added'' y [] (ssSignature y)"
    | x where "x \<in> set old" "ssFilePath x \<in> F" "symbolKey_of x \<notin> symbolKey_of ` set new"
        "c = change_of ''removed'' x (ssSignature x) []"
    | x y where "x \<in> set old" "y \<in> set new" "ssFilePath y \<in> F" "symbolKey_of x = symbolKey_of y"
        "ssSignature x \<noteq> ssSignature y \<or> ssStartLine x \<noteq> ssStartLine y \<or> ssEndLine x \<noteq> ssEndLine y"
        "c = change_of ''modified'' y (ssSignature x) (ssSignature y)"
    unfolding symbol_change_def by blast
  then show "key_change (latest F old (change_key c)) (latest F new (change_key c)) = Some c"
  proof cases
    case 1
    have "fst (symbolKey_of y) \<in> F" using 1(2) by (simp add: symbolKey_of_def)
    then have "latest F old (symbolKey_of y) = None" "latest F new (symbolKey_of y) = Some y"
      using 1 latest_None_told_apart [OF assms(1)] latest_told_apart [OF assms(2)] by simp_all
    then show ?thesis by (simp add: key_change_def 1(4))
  next
    case 2
    have "fst (symbolKey_of x) \<in> F" using 2(2) by (simp add: symbolKey_of_def)
    then have "latest F new (symbolKey_of x) = None" "latest F old (symbolKey_of x) = Some x"
      using 2 latest_None_told_apart [OF assms(2)] latest_told_apart [OF assms(1)] by simp_all
    then show ?thesis by (simp add: key_change_def 2(4))
  next
    case 3
    have "ssFilePath x \<in> F" using 3(3,4) by (simp add: symbolKey_of_def)
    then have "latest F old (symbolKey_of y) = Some x" "latest F new (symbolKey_of y) = Some y"
      using 3 latest_told_apart [OF assms(1)] latest_told_apart [OF assms(2)] by simp_all
    then show ?thesis using 3(5) by (auto simp: key_change_def 3(6))
  qed
next
  assume kc: "key_change (latest F old (change_key c)) (latest F new (change_key c)) = Some c"
  note at = latest_told_apart [OF assms(1)] latest_told_apart [OF assms(2)]
  note none = latest_None_told_apart [OF assms(1)] latest_None_told_apart [OF assms(2)]
  show "symbol_change F old new c"
  proof (cases "latest F old (change_key c)"; cases "latest F new (change_key c)")
    fix y assume l: "latest F old (change_key c) = None" "latest F new (change_key c) = Some y"
    then have y: "y \<in> set new" "ssFilePath y \<in> F" "symbolKey_of y = change_key c" using at by simp_all
    moreover have "fst (change_key c) \<in> F" using y by (metis fst_conv symbolKey_of_def)
    ultimately show ?thesis using kc l none(1) unfolding symbol_change_def key_change_def by auto
  next
    fix x assume l: "latest F old (change_key c) = Some x" "latest F new (change_key c) = None"
    then have x: "x \<in> set old" "ssFilePath x \<in> F" "symbolKey_of x = change_key c" using at by simp_all
    moreover have "fst (change_key c) \<in> F" using x by (metis fst_conv symbolKey_of_def)
    ultimately show ?thesis using kc l none(2) unfolding symbol_change_def key_change_def by auto
  next
    fix x y assume l: "latest F old (change_key c) = Some x" "latest F new (change_key c) = Some y"
    then have "x \<in> set old" "symbolKey_of x = change_key c" "y \<in> set new" "ssFilePath y \<in> F" "symbolKey_of y = change_key c"
      using at by simp_all
    moreover from this have "symbolKey_of x = symbolKey_of y" by simp
    moreover have "c = change_of ''modified'' y (ssSignature x) (ssSignature y)"
      "ssSignature x \<noteq> ssSignature y \<or> ssStartLine x \<noteq> ssStartLine y \<or> ssEndLine x \<noteq> ssEndLine y"
      using kc by (simp_all add: l key_change_def split: if_splits)
    ultimately show ?thesis unfolding symbol_change_def by blast
  qed (use kc in \<open>simp add: key_change_def\<close>)
qed

text \<open>
  C13: the difference of two symbol sets, by key. A key is a changed file with a name and a kind, and stands for
  the last symbol listed under it on each side; symbols that share a key, as methods of different receivers
  do, are not told apart. \<open>DiffSymbols\<close> reports each key at most once, and exactly the keys whose symbol was added,
  removed, or differs in signature or position, with the id and the signatures of that symbol. When no two
  symbols of the changed files share a key on either side, it reports exactly the symbols so changed.
\<close>

theorem diff_symbols_is_exact:
  assumes "enumerates (symbols_by_key F newSymbols) kn" and "enumerates (symbols_by_key F oldSymbols) ko"
    and changes: "changes = DiffSymbols kn ko oldSymbols newSymbols F"
  shows "distinct (map change_key changes)
     \<and> (\<forall>c. c \<in> set changes \<longleftrightarrow> key_change (latest F oldSymbols (change_key c)) (latest F newSymbols (change_key c)) = Some c)
     \<and> (told_apart F oldSymbols \<and> told_apart F newSymbols \<longrightarrow>
          set changes = {c. symbol_change F oldSymbols newSymbols c})"
proof -
  let ?o = "latest F oldSymbols" and ?n = "latest F newSymbols"
  let ?new = "concat (map (diff_new ?o ?n) kn)" and ?old = "concat (map (diff_old ?o ?n) ko)"
  have ks: "distinct kn" "set kn = dom ?n" "distinct ko" "set ko = dom ?o"
    using assms(1,2) by (simp_all add: enumerates_def symbols_by_key_latest)
  have run: "changes = ?new @ ?old" by (simp add: changes DiffSymbols_def symbols_by_key_latest Let_def)
  have new: "c \<in> set ?new \<longleftrightarrow> c \<in> set (diff_new ?o ?n (change_key c))" for c
    by (rule in_concat_keys) (use ks(2) diff_new_key in \<open>auto simp: diff_new_def split: option.split\<close>)
  have old: "c \<in> set ?old \<longleftrightarrow> c \<in> set (diff_old ?o ?n (change_key c))" for c
    by (rule in_concat_keys) (use ks(4) diff_old_key in \<open>auto simp: diff_old_def split: option.split\<close>)
  have "distinct (map change_key ?new)"
    by (rule distinct_concat_keys [OF ks(1)]) (use diff_new_key in \<open>auto simp: diff_new_def split: option.split\<close>)
  moreover have "distinct (map change_key ?old)"
    by (rule distinct_concat_keys [OF ks(3)]) (use diff_old_key in \<open>auto simp: diff_old_def split: option.split\<close>)
  moreover have "change_key c \<noteq> change_key d" if "c \<in> set ?new" "d \<in> set ?old" for c d
    using that unfolding new old by (auto simp: diff_new_def diff_old_def split: option.splits)
  ultimately have "distinct (map change_key changes)" unfolding run by fastforce
  moreover have "c \<in> set changes \<longleftrightarrow> key_change (?o (change_key c)) (?n (change_key c)) = Some c" for c
    unfolding run set_append Un_iff new old
    by (cases "?o (change_key c)"; cases "?n (change_key c)") (auto simp: diff_new_def diff_old_def key_change_def)
  moreover from this have "set changes = {c. symbol_change F oldSymbols newSymbols c}"
    if "told_apart F oldSymbols" "told_apart F newSymbols"
    using symbol_change_key [OF that] by blast
  ultimately show ?thesis by blast
qed

section \<open>Likely execution paths\<close>

lemma selectPrimaryNeighbor_cases:
  assumes "\<forall>xs. set (arrange xs) = set xs"
  obtains "selectPrimaryNeighbor arrange cs byID fanOut cur visited = []"
  | y where "selectPrimaryNeighbor arrange cs byID fanOut cur visited \<in> set cs - visited"
      "byID (selectPrimaryNeighbor arrange cs byID fanOut cur visited) = Some y" "\<not> ssIsTest y"
proof (cases "arrange (neighbor_candidates cs byID fanOut cur visited)")
  case Nil
  then show ?thesis using that(1) by (simp add: selectPrimaryNeighbor_def)
next
  case (Cons x xs)
  obtain i n y where x: "x = (i, n, y)" by (rule prod_cases3)
  have "x \<in> set (neighbor_candidates cs byID fanOut cur visited)" using assms Cons by (metis list.set_intros(1))
  then have "i \<in> set cs - visited" "byID i = Some y" "\<not> ssIsTest y"
    unfolding x neighbor_candidates_def by (auto split: if_splits option.splits)
  then show ?thesis using that(2) by (simp add: selectPrimaryNeighbor_def Cons x)
qed

text \<open>A chain visits new symbols only, each a neighbour of the one before.\<close>

lemma trace_chain_ok:
  fixes nb :: "string \<Rightarrow> string list" and fanOut :: "string \<Rightarrow> int" and reason :: string
  assumes arrange: "\<forall>xs. set (arrange xs) = set xs" and ids: "\<forall>i y. byID i = Some y \<longrightarrow> ssID y = i"
  defines "chain \<equiv> \<lambda>depth visited cur. map xnSymbolID (trace_chain depth arrange nb byID fanOut reason visited cur)"
  shows "length (chain depth visited cur) \<le> depth \<and> distinct (chain depth visited cur)
     \<and> set (chain depth visited cur) \<inter> visited = {}
     \<and> (\<forall>i\<in>set (chain depth visited cur). \<exists>y. byID i = Some y \<and> \<not> ssIsTest y)
     \<and> successively (\<lambda>a b. b \<in> set (nb a)) (cur # chain depth visited cur)"
proof (induction depth arbitrary: visited cur)
  case 0
  then show ?case by (simp add: chain_def)
next
  case (Suc depth)
  let ?i = "selectPrimaryNeighbor arrange (nb cur) byID fanOut cur visited"
  from arrange show ?case
  proof (cases rule: selectPrimaryNeighbor_cases [of arrange "nb cur" byID fanOut cur visited])
    case 1
    then show ?thesis by (simp add: chain_def)
  next
    case (2 y)
    show ?thesis
    proof (cases "?i = []")
      case False
      have "chain (Suc depth) visited cur = ?i # chain depth (insert ?i visited) ?i"
        using False 2(2) ids by (simp add: chain_def executionNodeFromSymbol_def Let_def)
      then show ?thesis using Suc.IH [of "insert ?i visited" ?i] 2 by auto
    qed (simp add: chain_def)
  qed
qed

lemma find_in: "List.find P xs = Some x \<Longrightarrow> x \<in> set xs \<and> P x"
  by (induction xs) (auto split: if_splits)

lemma page_all: "page 0 0 xs = xs"
  by (simp add: page_def)

lemma fold_by_id:
  "fold (\<lambda>y m. m(ssID y \<mapsto> y)) ys m i = (case List.find (\<lambda>y. ssID y = i) (rev ys) of None \<Rightarrow> m i | Some y \<Rightarrow> Some y)"
  by (induction ys arbitrary: m) (auto simp: find_append split: option.split)

text \<open>
  C12: A likely execution path is a bounded walk through the call graph: it is empty exactly when the symbol is
  not one of the repository; otherwise it shows the symbol between at most four callers of callers and at most
  the requested number (six by default) of callees of callees, each calling the next. Neither side repeats a
  symbol or visits a test, so the trace ends on cyclic graphs.
\<close>

theorem execution_path_is_a_bounded_walk:
  assumes wf: "graph_wf s" and arrange: "\<forall>xs. set (arrange xs) = set xs" and by': "\<forall>xs. set (by' xs) = set xs"
    and path: "path = map xnSymbolID (TraceLikelyExecutionPath arrange by' ks r i depth s)"
  shows "(path = [] \<longleftrightarrow> \<not> (\<exists>y. GetSymbol i s = Some y \<and> ssRepoID y = r))
     \<and> (path \<noteq> [] \<longrightarrow> (\<exists>up down. path = rev up @ i # down
          \<and> length up \<le> 4 \<and> length down \<le> (if depth \<le> 0 then 6 else nat depth)
          \<and> distinct (i # up) \<and> distinct (i # down) \<and> successively (\<lambda>a b. b \<in> set (GetCallees a s)) path
          \<and> (\<forall>j\<in>set (up @ down). \<exists>y. GetSymbol j s = Some y \<and> ssRepoID y = r \<and> \<not> ssIsTest y)))"
proof -
  have ok: "rows_ok (dom (gsRepos s)) s" using wf by (simp add: graph_wf_alt)
  define ys where "ys = fst (GetSymbols by' r None None 0 0 s)"
  define byID where "byID = fold (\<lambda>y m. m(ssID y \<mapsto> y)) ys Map.empty"
  define fanOut where "fanOut = fold (\<lambda>e m. m(ceCallerID e := m (ceCallerID e) + 1)) (GetCallEdges ks r s) (\<lambda>_. 0 :: int)"
  have ys: "y \<in> set ys \<longleftrightarrow> GetSymbol (ssID y) s = Some y \<and> ssRepoID y = r" for y
  proof -
    have "set ys = set (repo_symbols r s)"
      using by' by (simp add: ys_def GetSymbols_def page_all symbol_kept_def Let_def)
    then have "y \<in> set ys \<longleftrightarrow> ssRepoID y = r \<and> (\<exists>i. gsSymbols s i = Some y)"
      using set_indexed_vals [OF rows_okD(2) [OF ok]] by (auto simp: repo_symbols_def ran_def)
    moreover have "gsSymbols s i = Some y \<Longrightarrow> ssID y = i" for i using rows_ok_symbol [OF ok] by blast
    ultimately show ?thesis by (auto simp: GetSymbol_def)
  qed
  have at: "byID j = Some y \<longleftrightarrow> GetSymbol j s = Some y \<and> ssRepoID y = r" for j y
  proof -
    have "byID j = List.find (\<lambda>y. ssID y = j) (rev ys)" by (simp add: byID_def fold_by_id split: option.split)
    moreover have "GetSymbol j s = Some y \<and> ssRepoID y = r" if "List.find (\<lambda>y. ssID y = j) (rev ys) = Some y" for y
    proof -
      have "y \<in> set ys" "ssID y = j" using find_in [OF that] by simp_all
      then show ?thesis using ys by blast
    qed
    moreover have "List.find (\<lambda>y. ssID y = j) (rev ys) \<noteq> None" if "GetSymbol j s = Some y" "ssRepoID y = r"
    proof -
      have "ssID y = j" using rows_ok_symbol [OF ok] that(1) by (simp add: GetSymbol_def)
      then show ?thesis using ys [of y] that by (auto simp: find_None_iff)
    qed
    ultimately show ?thesis by (metis option.exhaust_sel option.sel)
  qed
  have ids: "\<forall>j y. byID j = Some y \<longrightarrow> ssID y = j"
    using at rows_ok_symbol [OF ok] by (simp add: GetSymbol_def)
  show ?thesis
  proof (cases "byID i")
    case None
    then have "path = []" by (simp add: path TraceLikelyExecutionPath_def Let_def ys_def [symmetric] byID_def [symmetric] fanOut_def [symmetric])
    moreover have "\<not> (\<exists>y. GetSymbol i s = Some y \<and> ssRepoID y = r)" using None at [of i] by auto
    ultimately show ?thesis by blast
  next
    case (Some y)
    let ?d = "if depth \<le> 0 then 6 else depth"
    define up where "up = map xnSymbolID (trace_chain 4 arrange (\<lambda>i. GetCallers i s) byID fanOut ''Calls the next step'' {i} i)"
    define down where "down = map xnSymbolID (trace_chain (nat ?d) arrange (\<lambda>i. GetCallees i s) byID fanOut ''Called by the previous step'' {i} i)"
    have y: "ssID y = i" using ids Some by blast
    have run: "path = rev up @ i # down"
      using Some y by (simp add: path TraceLikelyExecutionPath_def Let_def ys_def [symmetric] byID_def [symmetric] fanOut_def [symmetric]
          traceCallerChain_def up_def down_def rev_map executionNodeFromSymbol_def)
    have u: "length up \<le> 4 \<and> distinct up \<and> set up \<inter> {i} = {} \<and> (\<forall>i\<in>set up. \<exists>y. byID i = Some y \<and> \<not> ssIsTest y)
        \<and> successively (\<lambda>a b. b \<in> set (GetCallers a s)) (i # up)"
      unfolding up_def by (rule trace_chain_ok [OF arrange ids])
    have d: "length down \<le> nat ?d \<and> distinct down \<and> set down \<inter> {i} = {} \<and> (\<forall>i\<in>set down. \<exists>y. byID i = Some y \<and> \<not> ssIsTest y)
        \<and> successively (\<lambda>a b. b \<in> set (GetCallees a s)) (i # down)"
      unfolding down_def by (rule trace_chain_ok [OF arrange ids])
    have "(b \<in> set (GetCallees a s)) = (a \<in> set (GetCallers b s))" for a b
      using mirrored_set [of s b a] rows_okD [OF ok] by (simp add: GetCallees_def GetCallers_def)
    then have "successively (\<lambda>a b. b \<in> set (GetCallees a s)) (rev (i # up))"
      unfolding successively_rev using u by simp
    then have "successively (\<lambda>a b. b \<in> set (GetCallees a s)) path"
      using d unfolding run by (auto simp: successively_append_iff successively_Cons)
    moreover have "\<forall>j\<in>set (up @ down). \<exists>y. GetSymbol j s = Some y \<and> ssRepoID y = r \<and> \<not> ssIsTest y"
      using u d at by auto
    moreover have "length down \<le> (if depth \<le> 0 then 6 else nat depth)" using d by (auto split: if_splits)
    moreover have "length up \<le> 4" "distinct (i # up)" "distinct (i # down)" using u d by auto
    ultimately have "path = rev up @ i # down \<and> length up \<le> 4 \<and> length down \<le> (if depth \<le> 0 then 6 else nat depth)
        \<and> distinct (i # up) \<and> distinct (i # down) \<and> successively (\<lambda>a b. b \<in> set (GetCallees a s)) path
        \<and> (\<forall>j\<in>set (up @ down). \<exists>y. GetSymbol j s = Some y \<and> ssRepoID y = r \<and> \<not> ssIsTest y)"
      using run by (intro conjI)
    moreover have "path \<noteq> []" using run by simp
    moreover have "\<exists>y. GetSymbol i s = Some y \<and> ssRepoID y = r" using Some at by blast
    ultimately show ?thesis by blast
  qed
qed

section \<open>Impact reports\<close>

text \<open>A change that can affect links, and the word for its impact.\<close>

definition relevant :: "ImpactSymbolChange \<Rightarrow> bool" where
  "relevant c \<longleftrightarrow> (icChangeType c = ''modified'' \<or> icChangeType c = ''removed'') \<and> icSymbolID c \<noteq> []"

definition impact_word :: "ImpactSymbolChange \<Rightarrow> string" where
  "impact_word c = (if icChangeType c = ''removed'' then ''symbol_removed'' else ''symbol_modified'')"

definition affected_link :: "string \<Rightarrow> StoredLink \<Rightarrow> AffectedLink" where
  "affected_link w l = \<lparr>alLinkID = slID l, alRequirementID = slRequirementID l, alSymbolID = slSymbolID l,
     alImpact = w, alConfidence = slConfidence l\<rparr>"

definition affected_requirement :: "GraphStore \<Rightarrow> StoredRequirement \<Rightarrow> nat \<Rightarrow> AffectedRequirement" where
  "affected_requirement s req n = \<lparr>aqRequirementID = rqID req, aqExternalID = rqExternalID req, aqTitle = rqTitle req,
     aqAffectedLinks = int n, aqTotalLinks = int (length (GetLinksForRequirement (rqID req) False s))\<rparr>"

text \<open>The links the loops visit, with the impact of the change that led to them.\<close>

definition links_of_change :: "GraphStore \<Rightarrow> ImpactSymbolChange \<Rightarrow> (string \<times> StoredLink) list" where
  "links_of_change s c = (if relevant c then map (Pair (impact_word c)) (GetLinksForSymbol (icSymbolID c) False s) else [])"

definition visited_links :: "GraphStore \<Rightarrow> ImpactSymbolChange list \<Rightarrow> (string \<times> StoredLink) list" where
  "visited_links s changes = concat (map (links_of_change s) changes)"

lemma impact_change_links: "impact_change s c sets = fold (\<lambda>(w, l). impact_link s w l) (links_of_change s c) sets"
  by (simp add: impact_change_def links_of_change_def relevant_def impact_word_def Let_def fold_map o_def)

lemma impact_sets_visited:
  "impact_sets_of s changes = fold (\<lambda>(w, l). impact_link s w l) (visited_links s changes) (Map.empty, Map.empty)"
proof -
  have "fold (impact_change s) changes sets = fold (\<lambda>(w, l). impact_link s w l) (visited_links s changes) sets" for sets
    by (induction changes arbitrary: sets) (simp_all add: visited_links_def impact_change_links)
  then show ?thesis by (simp add: impact_sets_of_def)
qed

text \<open>What the two maps hold after some visits: the first visit of each link, and a count per requirement.\<close>

definition visited_ids :: "(string \<times> StoredLink) list \<Rightarrow> string \<Rightarrow> string set" where
  "visited_ids ps q = {slID l | w l. (w, l) \<in> set ps \<and> slRequirementID l = q}"

lemma finite_visited_ids: "finite (visited_ids ps q)"
proof -
  have "visited_ids ps q \<subseteq> (slID \<circ> snd) ` set ps" by (force simp: visited_ids_def)
  then show ?thesis by (rule finite_subset) simp
qed

lemma visited_ids_snoc:
  "visited_ids (ps @ [(w, l)]) q = (if slRequirementID l = q then insert (slID l) (visited_ids ps q) else visited_ids ps q)"
  by (auto simp: visited_ids_def)

definition link_table :: "(string \<times> StoredLink) list \<Rightarrow> string \<rightharpoonup> AffectedLink" where
  "link_table ps i = map_option (\<lambda>(w, l). affected_link w l) (List.find (\<lambda>(w, l). slID l = i) ps)"

definition requirement_table :: "GraphStore \<Rightarrow> (string \<times> StoredLink) list \<Rightarrow> string \<rightharpoonup> AffectedRequirement" where
  "requirement_table s ps q = (if visited_ids ps q = {} then None
     else map_option (\<lambda>req. affected_requirement s req (card (visited_ids ps q))) (GetRequirement q s))"

lemma link_table_None: "link_table ps i = None \<longleftrightarrow> (\<forall>(w, l)\<in>set ps. slID l \<noteq> i)"
  by (auto simp: link_table_def find_None_iff)

definition count_link :: "GraphStore \<Rightarrow> string \<Rightarrow> (string \<rightharpoonup> AffectedRequirement) \<Rightarrow> string \<rightharpoonup> AffectedRequirement" where
  "count_link s q reqs =
     (let reqs' = (if reqs q = None
            then (case GetRequirement q s of None \<Rightarrow> reqs | Some req \<Rightarrow> reqs(q \<mapsto> affected_requirement s req 0)) else reqs)
      in case reqs' q of None \<Rightarrow> reqs' | Some ar \<Rightarrow> reqs'(q \<mapsto> ar\<lparr>aqAffectedLinks := aqAffectedLinks ar + 1\<rparr>))"

lemma impact_link_new:
  "links (slID l) = None \<Longrightarrow>
     impact_link s w l (links, reqs) = (links(slID l \<mapsto> affected_link w l), count_link s (slRequirementID l) reqs)"
  by (cases "GetRequirement (slRequirementID l) s"; cases "reqs (slRequirementID l)")
    (simp_all add: impact_link_def count_link_def affected_link_def affected_requirement_def Let_def)

lemma impact_step:
  assumes stored: "\<forall>(w, l)\<in>set (ps @ [(w, l)]). GetLink (slID l) s = Some l"
  shows "impact_link s w l (link_table ps, requirement_table s ps)
     = (link_table (ps @ [(w, l)]), requirement_table s (ps @ [(w, l)]))"
proof (cases "link_table ps (slID l)")
  case (Some a)
  then have "\<not> (\<forall>(w, k)\<in>set ps. slID k \<noteq> slID l)" using link_table_None [of ps "slID l"] by simp
  then obtain v k where k: "(v, k) \<in> set ps" "slID k = slID l" by blast
  then have "k = l" using stored by fastforce
  then have "visited_ids (ps @ [(w, l)]) q = visited_ids ps q" for q
    using k(1) unfolding visited_ids_snoc by (auto simp: visited_ids_def)
  moreover have "link_table (ps @ [(w, l)]) i = link_table ps i" for i
    using Some by (auto simp: link_table_def find_append split: option.split)
  ultimately show ?thesis using Some by (simp add: impact_link_def requirement_table_def fun_eq_iff)
next
  case None
  then have new: "slID l \<notin> visited_ids ps q" for q unfolding link_table_None visited_ids_def by auto
  have links: "link_table (ps @ [(w, l)]) = (link_table ps)(slID l \<mapsto> affected_link w l)"
    using None by (auto simp: link_table_def find_append fun_eq_iff split: option.split)
  have "count_link s (slRequirementID l) (requirement_table s ps) q = requirement_table s (ps @ [(w, l)]) q" for q
    using new finite_visited_ids
    by (cases "GetRequirement (slRequirementID l) s"; cases "visited_ids ps (slRequirementID l) = {}"; cases "q = slRequirementID l")
      (simp_all add: count_link_def requirement_table_def visited_ids_snoc affected_requirement_def Let_def)
  then show ?thesis using None by (simp add: impact_link_new links fun_eq_iff)
qed

lemma impact_sets_tables:
  assumes "\<forall>(w, l)\<in>set ps. GetLink (slID l) s = Some l"
  shows "fold (\<lambda>(w, l). impact_link s w l) ps (Map.empty, Map.empty) = (link_table ps, requirement_table s ps)"
  using assms
proof (induction ps rule: rev_induct)
  case Nil
  then show ?case by (simp add: link_table_def requirement_table_def visited_ids_def fun_eq_iff)
next
  case (snoc p ps)
  obtain w l where p: "p = (w, l)" by fastforce
  have "fold (\<lambda>(w, l). impact_link s w l) ps (Map.empty, Map.empty) = (link_table ps, requirement_table s ps)"
    by (rule snoc.IH) (use snoc.prems in auto)
  then show ?case using impact_step [of ps w l s] snoc.prems by (simp add: p)
qed

text \<open>The live links of changed symbols, and the first change that leads to each.\<close>

definition first_change :: "ImpactSymbolChange list \<Rightarrow> StoredLink \<Rightarrow> ImpactSymbolChange option" where
  "first_change changes l = List.find (\<lambda>c. relevant c \<and> icSymbolID c = slSymbolID l) changes"

definition live_link :: "GraphStore \<Rightarrow> StoredLink \<Rightarrow> bool" where
  "live_link s l \<longleftrightarrow> GetLink (slID l) s = Some l \<and> \<not> slRejected l"

definition affected :: "GraphStore \<Rightarrow> ImpactSymbolChange list \<Rightarrow> StoredLink \<Rightarrow> bool" where
  "affected s changes l \<longleftrightarrow> live_link s l \<and> first_change changes l \<noteq> None"

lemma link_reads:
  assumes ok: "links_ok s"
  shows "l \<in> set (GetLinksForSymbol y False s) \<longleftrightarrow> live_link s l \<and> slSymbolID l = y"
    and "l \<in> set (GetLinksForRequirement q False s) \<longleftrightarrow> live_link s l \<and> slRequirementID l = q"
    and "distinct (map slID (GetLinksForRequirement q False s))"
proof -
  have ix: "indexed (gsLinks s) (gsSymLinks s) slSymbolID" "indexed (gsLinks s) (gsReqLinks s) slRequirementID"
    and id: "\<forall>i l. gsLinks s i = Some l \<longrightarrow> slID l = i" using ok by (simp_all add: links_ok_def)
  show "l \<in> set (GetLinksForSymbol y False s) \<longleftrightarrow> live_link s l \<and> slSymbolID l = y"
    using live_links_exact(1) [OF ix(1) id] by (auto simp: GetLinksForSymbol_def live_link_def)
  show "l \<in> set (GetLinksForRequirement q False s) \<longleftrightarrow> live_link s l \<and> slRequirementID l = q"
    using live_links_exact(1) [OF ix(2) id] by (auto simp: GetLinksForRequirement_def live_link_def)
  show "distinct (map slID (GetLinksForRequirement q False s))"
    unfolding GetLinksForRequirement_def by (rule live_links_exact(2) [OF ix(2) id])
qed

lemma links_of_change_in:
  "links_ok s \<Longrightarrow> (w, l) \<in> set (links_of_change s c) \<longleftrightarrow> relevant c \<and> w = impact_word c \<and> live_link s l \<and> icSymbolID c = slSymbolID l"
  using link_reads(1) [of s l "icSymbolID c"] by (auto simp: links_of_change_def)

lemma find_visited:
  assumes ok: "links_ok s"
  shows "List.find (\<lambda>(w, k). slID k = i) (visited_links s changes)
     = (case GetLink i s of None \<Rightarrow> None
        | Some l \<Rightarrow> if slRejected l then None else map_option (\<lambda>c. (impact_word c, l)) (first_change changes l))"
proof (cases "GetLink i s")
  case None
  have "\<forall>(w, k)\<in>set (visited_links s changes). slID k \<noteq> i"
    using None links_of_change_in [OF ok] by (auto simp: visited_links_def live_link_def)
  then show ?thesis using None by (auto simp: find_None_iff)
next
  case (Some l)
  have id: "slID l = i" using ok Some by (simp add: links_ok_def GetLink_def)
  have same: "k = l" if "live_link s k" "slID k = i" for k using that Some by (simp add: live_link_def)
  have chunk: "List.find (\<lambda>(w, k). slID k = i) (links_of_change s c)
      = (if \<not> slRejected l \<and> relevant c \<and> icSymbolID c = slSymbolID l then Some (impact_word c, l) else None)" for c
  proof (cases "\<not> slRejected l \<and> relevant c \<and> icSymbolID c = slSymbolID l")
    case True
    then have "(impact_word c, l) \<in> set (links_of_change s c)"
      using Some id by (simp add: links_of_change_in [OF ok] live_link_def)
    then have "List.find (\<lambda>(w, k). slID k = i) (links_of_change s c) \<noteq> None" using id by (auto simp: find_None_iff)
    then obtain p where p: "List.find (\<lambda>(w, k). slID k = i) (links_of_change s c) = Some p" by blast
    obtain w k where wk: "p = (w, k)" by fastforce
    have "(w, k) \<in> set (links_of_change s c)" "slID k = i" using find_in [OF p] by (simp_all add: wk)
    then show ?thesis using True same p by (simp add: links_of_change_in [OF ok] wk)
  next
    case False
    have "\<forall>(w, k)\<in>set (links_of_change s c). slID k \<noteq> i"
      using False same by (auto simp: links_of_change_in [OF ok] live_link_def)
    then show ?thesis using False by (auto simp: find_None_iff)
  qed
  show ?thesis
    by (induction changes) (auto simp: visited_links_def find_append chunk first_change_def Some)
qed

lemma visited_iff:
  "links_ok s \<Longrightarrow> (\<exists>w. (w, l) \<in> set (visited_links s changes)) \<longleftrightarrow> affected s changes l"
  by (auto simp: visited_links_def links_of_change_in affected_def first_change_def find_None_iff)

text \<open>
  C10: An impact report is exact. It lists the live links of the modified and removed symbols, each once, with
  the impact of the first change that names the symbol; and the stored requirements of these links, each with
  the number of its affected links and of all its live links, so that the first never exceeds the second.
\<close>

theorem impact_report_is_exact:
  assumes ok: "links_ok s" and reqs: "\<forall>i req. GetRequirement i s = Some req \<longrightarrow> rqID req = i"
    and sets: "impact_sets_of s changes = (links, requirements)"
    and ls: "enumerates links ls" and rs: "enumerates requirements rs"
    and report: "report = ComputeImpact ls rs millis now r fileDiffs changes s"
  shows "distinct (map alLinkID (irAffectedLinks report))
     \<and> (\<forall>a. a \<in> set (irAffectedLinks report)
          \<longleftrightarrow> (\<exists>l c. live_link s l \<and> first_change changes l = Some c \<and> a = affected_link (impact_word c) l))
     \<and> distinct (map aqRequirementID (irAffectedRequirements report))
     \<and> (\<forall>b. b \<in> set (irAffectedRequirements report)
          \<longleftrightarrow> (\<exists>l req. affected s changes l \<and> GetRequirement (slRequirementID l) s = Some req
               \<and> b = affected_requirement s req (card {slID k | k. affected s changes k \<and> slRequirementID k = rqID req})))
     \<and> (\<forall>b\<in>set (irAffectedRequirements report). 0 < aqAffectedLinks b \<and> aqAffectedLinks b \<le> aqTotalLinks b)"
proof -
  let ?ps = "visited_links s changes"
  have stored: "\<forall>(w, l)\<in>set ?ps. GetLink (slID l) s = Some l"
    using links_of_change_in [OF ok] by (auto simp: visited_links_def live_link_def)
  have tables: "links = link_table ?ps" "requirements = requirement_table s ?ps"
    using impact_sets_tables [OF stored] sets by (simp_all add: impact_sets_visited)
  have shown: "irAffectedLinks report = range_vals links ls" "irAffectedRequirements report = range_vals requirements rs"
    by (simp_all add: report ComputeImpact_def sets)
  have ids: "visited_ids ?ps q = {slID k | k. affected s changes k \<and> slRequirementID k = q}" for q
    using visited_iff [OF ok, of _ changes] by (auto simp: visited_ids_def) blast+
  have link: "links i = Some a \<longleftrightarrow> (\<exists>l c. live_link s l \<and> slID l = i \<and> first_change changes l = Some c \<and> a = affected_link (impact_word c) l)" for i a
  proof (cases "GetLink i s")
    case None
    then show ?thesis by (auto simp: tables link_table_def find_visited [OF ok] live_link_def)
  next
    case (Some l)
    have "slID l = i" using ok Some by (simp add: links_ok_def GetLink_def)
    then have own: "(\<exists>k c. live_link s k \<and> slID k = i \<and> P k c) \<longleftrightarrow> \<not> slRejected l \<and> (\<exists>c. P l c)" for P :: "StoredLink \<Rightarrow> ImpactSymbolChange \<Rightarrow> bool"
      using Some by (auto simp: live_link_def)
    show ?thesis unfolding own by (auto simp: tables link_table_def find_visited [OF ok] Some)
  qed
  have req: "requirements q = Some b \<longleftrightarrow> (\<exists>l req. affected s changes l \<and> slRequirementID l = q \<and> GetRequirement q s = Some req
       \<and> b = affected_requirement s req (card {slID k | k. affected s changes k \<and> slRequirementID k = q}))" for q b
    unfolding tables requirement_table_def ids by auto
  have links: "a \<in> set (irAffectedLinks report) \<longleftrightarrow> (\<exists>i. links i = Some a)" for a
    using set_range_vals_enum [OF ls] by (auto simp: shown ran_def)
  have requirements: "b \<in> set (irAffectedRequirements report) \<longleftrightarrow> (\<exists>q. requirements q = Some b)" for b
    using set_range_vals_enum [OF rs] by (auto simp: shown ran_def)
  have 1: "distinct (map alLinkID (irAffectedLinks report))"
    unfolding shown by (rule range_vals_ids) (use ls link in \<open>auto simp: enumerates_def affected_link_def\<close>)
  have 2: "distinct (map aqRequirementID (irAffectedRequirements report))"
    unfolding shown by (rule range_vals_ids) (use rs req reqs in \<open>auto simp: enumerates_def affected_requirement_def\<close>)
  have 3: "a \<in> set (irAffectedLinks report)
      \<longleftrightarrow> (\<exists>l c. live_link s l \<and> first_change changes l = Some c \<and> a = affected_link (impact_word c) l)" for a
    unfolding links link by blast
  have 4: "b \<in> set (irAffectedRequirements report)
      \<longleftrightarrow> (\<exists>l req. affected s changes l \<and> GetRequirement (slRequirementID l) s = Some req
           \<and> b = affected_requirement s req (card {slID k | k. affected s changes k \<and> slRequirementID k = rqID req}))" for b
  proof
    assume "b \<in> set (irAffectedRequirements report)"
    then obtain l req' where l: "affected s changes l" "GetRequirement (slRequirementID l) s = Some req'"
      "b = affected_requirement s req' (card {slID k | k. affected s changes k \<and> slRequirementID k = slRequirementID l})"
      unfolding requirements req by blast
    have "rqID req' = slRequirementID l" using reqs l(2) by blast
    with l show "\<exists>l req. affected s changes l \<and> GetRequirement (slRequirementID l) s = Some req
        \<and> b = affected_requirement s req (card {slID k | k. affected s changes k \<and> slRequirementID k = rqID req})"
      by (intro exI [of _ l] exI [of _ req']) simp
  next
    assume "\<exists>l req. affected s changes l \<and> GetRequirement (slRequirementID l) s = Some req
        \<and> b = affected_requirement s req (card {slID k | k. affected s changes k \<and> slRequirementID k = rqID req})"
    then obtain l req' where l: "affected s changes l" "GetRequirement (slRequirementID l) s = Some req'"
      "b = affected_requirement s req' (card {slID k | k. affected s changes k \<and> slRequirementID k = rqID req'})" by blast
    have "rqID req' = slRequirementID l" using reqs l(2) by blast
    with l show "b \<in> set (irAffectedRequirements report)" unfolding requirements req
      by (intro exI [of _ "slRequirementID l"] exI [of _ l] exI [of _ req']) simp
  qed
  have 5: "0 < aqAffectedLinks b \<and> aqAffectedLinks b \<le> aqTotalLinks b" if b: "b \<in> set (irAffectedRequirements report)" for b
  proof -
    obtain l req where l: "affected s changes l" "GetRequirement (slRequirementID l) s = Some req"
      and b': "b = affected_requirement s req (card {slID k | k. affected s changes k \<and> slRequirementID k = rqID req})"
      using b unfolding 4 by blast
    let ?S = "{slID k | k. affected s changes k \<and> slRequirementID k = rqID req}"
    let ?live = "map slID (GetLinksForRequirement (rqID req) False s)"
    have sub: "?S \<subseteq> set ?live" using link_reads(2) [OF ok] by (auto simp: affected_def)
    then have fin: "finite ?S" by (rule finite_subset) simp
    have "rqID req = slRequirementID l" using reqs l(2) by blast
    then have "slID l \<in> ?S" using l(1) by auto
    then have "0 < card ?S" using fin card_gt_0_iff by blast
    moreover have "card ?S \<le> length (GetLinksForRequirement (rqID req) False s)"
      using card_mono [OF _ sub] distinct_card [OF link_reads(3) [OF ok, of "rqID req"]] by simp
    ultimately show ?thesis by (simp add: b' affected_requirement_def)
  qed
  show ?thesis using 1 2 3 4 5 by blast
qed

section \<open>Concrete changes\<close>

definition demo_match :: SimulatedSymbolMatch where
  "demo_match = \<lparr>mtSymbolId = ''uuuuuu'', mtName = ''h'', mtKind = ''function'', mtFilePath = ''b''\<rparr>"

theorem expansion_is_the_bounded_callers_witness:
  "\<exists>new. map icSymbolID (ExpandViaCallGraph [demo_match] 9 demo_indexed) = [''uuuuuu''] @ new \<and> distinct new
     \<and> set new = callers_within demo_indexed 4 {''uuuuuu''} - {''uuuuuu''}"
  using expansion_is_the_bounded_callers [OF demo_indexed_ok(1) refl refl, of "[demo_match]" 9] by (auto simp: demo_match_def)

theorem execution_path_is_a_bounded_walk_witness:
  "map xnSymbolID (TraceLikelyExecutionPath id id [''uuu''] ''u'' ''nowhere'' 0 demo_indexed) = []
     \<longleftrightarrow> \<not> (\<exists>y. GetSymbol ''nowhere'' demo_indexed = Some y \<and> ssRepoID y = ''u'')"
  using execution_path_is_a_bounded_walk [OF demo_indexed_ok(1) _ _ refl, of id id "[''uuu'']" "''u''" "''nowhere''" 0] by simp

definition demo_stored :: "string \<Rightarrow> string \<Rightarrow> int \<Rightarrow> StoredSymbol" where
  "demo_stored i name line = \<lparr>ssID = i, ssRepoID = ''r'', ssFileID = ''a'', ssName = name, ssQualifiedName = name, ssKind = ''function'',
     ssLanguage = ''go'', ssFilePath = ''a'', ssStartLine = line, ssEndLine = line, ssSignature = [], ssDocComment = [], ssIsTest = False\<rparr>"

theorem diff_symbols_is_exact_witness:
  "DiffSymbols [(''a'', ''g'', ''function''), (''a'', ''f'', ''function'')] [(''a'', ''f'', ''function'')]
       [demo_stored ''1'' ''f'' 1] [demo_stored ''2'' ''f'' 7, demo_stored ''3'' ''g'' 2] {''a''}
     = [change_of ''added'' (demo_stored ''3'' ''g'' 2) [] [], change_of ''modified'' (demo_stored ''2'' ''f'' 7) [] []]
   \<and> distinct (map change_key (DiffSymbols [(''a'', ''g'', ''function''), (''a'', ''f'', ''function'')] [(''a'', ''f'', ''function'')]
       [demo_stored ''1'' ''f'' 1] [demo_stored ''2'' ''f'' 7, demo_stored ''3'' ''g'' 2] {''a''}))"
proof
  show "DiffSymbols [(''a'', ''g'', ''function''), (''a'', ''f'', ''function'')] [(''a'', ''f'', ''function'')]
       [demo_stored ''1'' ''f'' 1] [demo_stored ''2'' ''f'' 7, demo_stored ''3'' ''g'' 2] {''a''}
     = [change_of ''added'' (demo_stored ''3'' ''g'' 2) [] [], change_of ''modified'' (demo_stored ''2'' ''f'' 7) [] []]"
    by (simp add: DiffSymbols_def symbols_by_key_def symbolKey_of_def demo_stored_def diff_new_def diff_old_def Let_def)
  have "enumerates (symbols_by_key {''a''} [demo_stored ''2'' ''f'' 7, demo_stored ''3'' ''g'' 2])
      [(''a'', ''g'', ''function''), (''a'', ''f'', ''function'')]"
    "enumerates (symbols_by_key {''a''} [demo_stored ''1'' ''f'' 1]) [(''a'', ''f'', ''function'')]"
    by (auto simp: enumerates_def symbols_by_key_def symbolKey_of_def demo_stored_def split: if_splits)
  from diff_symbols_is_exact [OF this refl]
  show "distinct (map change_key (DiffSymbols [(''a'', ''g'', ''function''), (''a'', ''f'', ''function'')] [(''a'', ''f'', ''function'')]
       [demo_stored ''1'' ''f'' 1] [demo_stored ''2'' ''f'' 7, demo_stored ''3'' ''g'' 2] {''a''}))" by blast
qed

definition demo_traced :: GraphStore where
  "demo_traced = snd (StoreLink 2 ''r'' (demo_link ''u'' ''y'') demo_requirements)"

definition demo_change :: ImpactSymbolChange where
  "demo_change = \<lparr>icSymbolID = ''y'', icName = ''f'', icKind = ''function'', icFilePath = ''a'', icChangeType = ''removed'',
     icOldSignature = [], icNewSignature = []\<rparr>"

lemma demo_traced_ok: "links_ok demo_traced" "\<forall>i req. GetRequirement i demo_traced = Some req \<longrightarrow> rqID req = i"
proof -
  have "links_ok demo_requirements"
    by (simp add: links_ok_def demo_requirements_def StoreRequirement_def graph_NewString_def NewGraphStore_def Let_def
        uuid_ok_def demo_uuids_ok)
  then show "links_ok demo_traced" unfolding demo_traced_def by (rule StoreLink_ok)
  have "gsRequirements demo_traced = gsRequirements demo_requirements"
    by (simp add: demo_traced_def StoreLink_def graph_NewString_def put_link_def Let_def)
  then show "\<forall>i req. GetRequirement i demo_traced = Some req \<longrightarrow> rqID req = i"
    by (auto simp: GetRequirement_def demo_requirements_at split: if_splits)
qed

lemma demo_impact:
  "enumerates (fst (impact_sets_of demo_traced [demo_change])) [''uuu'']"
  "enumerates (snd (impact_sets_of demo_traced [demo_change])) [''u'']"
  by (auto simp: enumerates_def impact_sets_of_def impact_change_def impact_link_def demo_change_def demo_traced_def demo_link_def
      demo_requirements_def StoreRequirement_def StoreLink_def put_link_def graph_NewString_def NewGraphStore_def Let_def
      demo_uuids_def GetLinksForSymbol_def live_links_def GetRequirement_def slice_at_def push_at_def)

theorem impact_report_is_exact_witness:
  "distinct (map alLinkID (irAffectedLinks (ComputeImpact [''uuu''] [''u''] 5 5 ''r'' [] [demo_change] demo_traced)))
   \<and> distinct (map aqRequirementID (irAffectedRequirements (ComputeImpact [''uuu''] [''u''] 5 5 ''r'' [] [demo_change] demo_traced)))"
  using impact_report_is_exact [OF demo_traced_ok prod.collapse [symmetric] demo_impact refl, of 5 5 "''r''" "[]"] by blast

end
