(* ===== verification/Graph_Tenant.thy ===== *)
theory Graph_Tenant
  imports Graph_Links
begin

text \<open>
  The tenant's view of the graph store (\<^verbatim>\<open>internal/graph/filtered.go\<close>): \<^verbatim>\<open>TenantFilteredStore\<close>
  wraps a store with the set \<open>allowed\<close> of repositories a tenant may see. The methods keep their names,
  with the prefix \<open>Tenant\<close>; a read takes the wrapped store as its last argument, a write returns it.

  \<^item> Repository-scoped methods check the repository they are given; methods keyed by an entity's id look
    the entity up and check the repository of its row; the reads of neighbours also drop the neighbours
    that are gone or belong to others.
  \<^item> The methods the source leaves ungated on purpose are passed through as they are. Federation between
    repositories is not modelled: the in-memory store refuses it.
\<close>

type_synonym tenant = "string set"

definition NewTenantFilteredStore :: "string list \<Rightarrow> tenant" where
  "NewTenantFilteredStore repoIDs = set repoIDs"

definition hasAccess :: "tenant \<Rightarrow> string \<Rightarrow> bool" where
  "hasAccess allowed repoID \<longleftrightarrow> repoID \<in> allowed"

section \<open>Repositories and index results\<close>

definition TenantCreateRepository :: "tenant \<Rightarrow> time \<Rightarrow> string \<Rightarrow> string \<Rightarrow> GraphStore \<Rightarrow> Repository \<times> GraphStore" where
  "TenantCreateRepository allowed now name path s = CreateRepository now name path s"

definition TenantStoreIndexResult :: "tenant \<Rightarrow> time \<Rightarrow> IndexResult \<Rightarrow> GraphStore \<Rightarrow> Repository \<times> GraphStore" where
  "TenantStoreIndexResult allowed now result s = StoreIndexResult now result s"

definition TenantReplaceIndexResult ::
  "tenant \<Rightarrow> time \<Rightarrow> string \<Rightarrow> IndexResult \<Rightarrow> GraphStore \<Rightarrow> (go_error + Repository) \<times> GraphStore" where
  "TenantReplaceIndexResult allowed now repoID result s =
     (if \<not> hasAccess allowed repoID then (Inl (Errorf ''repository not found''), s)
      else ReplaceIndexResult now repoID result s)"

definition TenantMergeIndexResult ::
  "tenant \<Rightarrow> string list \<Rightarrow> time \<Rightarrow> string \<Rightarrow> string list \<Rightarrow> IndexResult option \<Rightarrow> GraphStore
   \<Rightarrow> (go_error + Repository) \<times> GraphStore" where
  "TenantMergeIndexResult allowed ps now repoID affectedPaths result s =
     (if \<not> hasAccess allowed repoID then (Inl (Errorf ''repository not found''), s)
      else MergeIndexResult ps now repoID affectedPaths result s)"

definition TenantListRepositories :: "tenant \<Rightarrow> string list \<Rightarrow> GraphStore \<Rightarrow> Repository list" where
  "TenantListRepositories allowed ks s = filter (\<lambda>r. hasAccess allowed (grID r)) (ListRepositories ks s)"

definition TenantGetRepository :: "tenant \<Rightarrow> string \<Rightarrow> GraphStore \<Rightarrow> Repository option" where
  "TenantGetRepository allowed i s = (if \<not> hasAccess allowed i then None else GetRepository i s)"

definition TenantGetRepositoryByPath :: "tenant \<Rightarrow> string list \<Rightarrow> string \<Rightarrow> GraphStore \<Rightarrow> Repository option" where
  "TenantGetRepositoryByPath allowed ks path s = (case GetRepositoryByPath ks path s of
      None \<Rightarrow> None
    | Some repo \<Rightarrow> if hasAccess allowed (grID repo) then Some repo else None)"

definition TenantRemoveRepository :: "tenant \<Rightarrow> string \<Rightarrow> GraphStore \<Rightarrow> bool \<times> GraphStore" where
  "TenantRemoveRepository allowed i s = (if \<not> hasAccess allowed i then (False, s) else RemoveRepository i s)"

definition TenantSetRepositoryError :: "tenant \<Rightarrow> string \<Rightarrow> go_error \<Rightarrow> GraphStore \<Rightarrow> GraphStore" where
  "TenantSetRepositoryError allowed i err s = (if hasAccess allowed i then SetRepositoryError i err s else s)"

definition TenantUpdateRepositoryMeta :: "tenant \<Rightarrow> string \<Rightarrow> RepositoryMeta \<Rightarrow> GraphStore \<Rightarrow> GraphStore" where
  "TenantUpdateRepositoryMeta allowed i meta s = (if hasAccess allowed i then UpdateRepositoryMeta i meta s else s)"

definition TenantCacheUnderstandingScore :: "tenant \<Rightarrow> time \<Rightarrow> string \<Rightarrow> float64 \<Rightarrow> GraphStore \<Rightarrow> GraphStore" where
  "TenantCacheUnderstandingScore allowed now i overall s =
     (if hasAccess allowed i then CacheUnderstandingScore now i overall s else s)"

section \<open>Reads and writes of one repository\<close>

definition TenantGetFiles :: "tenant \<Rightarrow> string \<Rightarrow> GraphStore \<Rightarrow> File list" where
  "TenantGetFiles allowed repoID s = (if \<not> hasAccess allowed repoID then [] else GetFiles repoID s)"

definition TenantGetFilesPaginated ::
  "tenant \<Rightarrow> string \<Rightarrow> string option \<Rightarrow> int \<Rightarrow> int \<Rightarrow> GraphStore \<Rightarrow> File list \<times> int" where
  "TenantGetFilesPaginated allowed repoID pathPrefix limit offset s =
     (if \<not> hasAccess allowed repoID then ([], 0) else GetFilesPaginated repoID pathPrefix limit offset s)"

definition TenantGetSymbols ::
  "tenant \<Rightarrow> (StoredSymbol list \<Rightarrow> StoredSymbol list) \<Rightarrow> string \<Rightarrow> string option \<Rightarrow> string option \<Rightarrow> int \<Rightarrow> int \<Rightarrow> GraphStore
   \<Rightarrow> StoredSymbol list \<times> int" where
  "TenantGetSymbols allowed arrange repoID query kind limit offset s =
     (if \<not> hasAccess allowed repoID then ([], 0) else GetSymbols arrange repoID query kind limit offset s)"

definition TenantGetSymbolsByFile :: "tenant \<Rightarrow> string \<Rightarrow> string \<Rightarrow> GraphStore \<Rightarrow> StoredSymbol list" where
  "TenantGetSymbolsByFile allowed repoID filePath s =
     (if \<not> hasAccess allowed repoID then [] else GetSymbolsByFile repoID filePath s)"

definition TenantGetModules :: "tenant \<Rightarrow> string \<Rightarrow> GraphStore \<Rightarrow> StoredModule list" where
  "TenantGetModules allowed repoID s = (if \<not> hasAccess allowed repoID then [] else GetModules repoID s)"

definition TenantGetImports :: "tenant \<Rightarrow> string \<Rightarrow> GraphStore \<Rightarrow> StoredImport list" where
  "TenantGetImports allowed repoID s = (if \<not> hasAccess allowed repoID then [] else GetImports repoID s)"

definition TenantRecomputePackageDependencies :: "tenant \<Rightarrow> time \<Rightarrow> string \<Rightarrow> GraphStore \<Rightarrow> GraphStore" where
  "TenantRecomputePackageDependencies allowed now repoID s =
     (if hasAccess allowed repoID then RecomputePackageDependencies now repoID s else s)"

definition TenantGetPackageDependencies ::
  "tenant \<Rightarrow> string list \<Rightarrow> string \<Rightarrow> GraphStore \<Rightarrow> StoredPackageDependencies list" where
  "TenantGetPackageDependencies allowed ks repoID s =
     (if \<not> hasAccess allowed repoID then [] else GetPackageDependencies ks repoID s)"

definition TenantSearchContent :: "tenant \<Rightarrow> string \<Rightarrow> string \<Rightarrow> int \<Rightarrow> GraphStore \<Rightarrow> SearchResult list" where
  "TenantSearchContent allowed repoID query limit s =
     (if \<not> hasAccess allowed repoID then [] else SearchContent repoID query limit s)"

definition TenantStoreRequirement :: "tenant \<Rightarrow> time \<Rightarrow> string \<Rightarrow> StoredRequirement \<Rightarrow> GraphStore \<Rightarrow> GraphStore" where
  "TenantStoreRequirement allowed now repoID req s =
     (if \<not> hasAccess allowed repoID then s else StoreRequirement now repoID req s)"

definition TenantStoreRequirements ::
  "tenant \<Rightarrow> (nat \<Rightarrow> time) \<Rightarrow> string \<Rightarrow> StoredRequirement list \<Rightarrow> GraphStore \<Rightarrow> int \<times> GraphStore" where
  "TenantStoreRequirements allowed clock repoID reqs s =
     (if \<not> hasAccess allowed repoID then (0, s) else StoreRequirements clock repoID reqs s)"

definition TenantGetRequirements :: "tenant \<Rightarrow> string \<Rightarrow> int \<Rightarrow> int \<Rightarrow> GraphStore \<Rightarrow> (StoredRequirement list \<times> int) option" where
  "TenantGetRequirements allowed repoID limit offset s =
     (if \<not> hasAccess allowed repoID then Some ([], 0) else GetRequirements repoID limit offset s)"

definition TenantGetRequirementByExternalID :: "tenant \<Rightarrow> string \<Rightarrow> string \<Rightarrow> GraphStore \<Rightarrow> StoredRequirement option" where
  "TenantGetRequirementByExternalID allowed repoID externalID s =
     (if \<not> hasAccess allowed repoID then None else GetRequirementByExternalID repoID externalID s)"

definition TenantStoreLink :: "tenant \<Rightarrow> time \<Rightarrow> string \<Rightarrow> StoredLink \<Rightarrow> GraphStore \<Rightarrow> StoredLink option \<times> GraphStore" where
  "TenantStoreLink allowed now repoID link s =
     (if \<not> hasAccess allowed repoID then (None, s) else (case StoreLink now repoID link s of (l, s') \<Rightarrow> (Some l, s')))"

definition TenantStoreLinks :: "tenant \<Rightarrow> time \<Rightarrow> string \<Rightarrow> StoredLink list \<Rightarrow> GraphStore \<Rightarrow> int \<times> GraphStore" where
  "TenantStoreLinks allowed now repoID links s =
     (if \<not> hasAccess allowed repoID then (0, s) else StoreLinks now repoID links s)"

definition TenantGetLinksForRepo :: "tenant \<Rightarrow> string \<Rightarrow> GraphStore \<Rightarrow> StoredLink list" where
  "TenantGetLinksForRepo allowed repoID s = (if \<not> hasAccess allowed repoID then [] else GetLinksForRepo repoID s)"

definition TenantStoreLLMUsage :: "tenant \<Rightarrow> time \<Rightarrow> LLMUsageRecord \<Rightarrow> GraphStore \<Rightarrow> GraphStore" where
  "TenantStoreLLMUsage allowed now r s = StoreLLMUsage now r s"

definition TenantGetLLMUsage :: "tenant \<Rightarrow> string \<Rightarrow> int \<Rightarrow> GraphStore \<Rightarrow> LLMUsageRecord list" where
  "TenantGetLLMUsage allowed repoID limit s = (if \<not> hasAccess allowed repoID then [] else GetLLMUsage repoID limit s)"

section \<open>Reads and writes keyed by an entity\<close>

definition TenantGetFileSymbols :: "tenant \<Rightarrow> string \<Rightarrow> GraphStore \<Rightarrow> StoredSymbol list" where
  "TenantGetFileSymbols allowed fileID s = GetFileSymbols fileID s"

definition TenantGetSymbol :: "tenant \<Rightarrow> string \<Rightarrow> GraphStore \<Rightarrow> StoredSymbol option" where
  "TenantGetSymbol allowed i s = (case GetSymbol i s of
      None \<Rightarrow> None
    | Some y \<Rightarrow> if \<not> hasAccess allowed (ssRepoID y) then None else Some y)"

definition TenantGetSymbolsByIDs :: "tenant \<Rightarrow> string list \<Rightarrow> GraphStore \<Rightarrow> string \<rightharpoonup> StoredSymbol" where
  "TenantGetSymbolsByIDs allowed ids s =
     (\<lambda>k. case GetSymbolsByIDs ids s k of
         None \<Rightarrow> None
       | Some y \<Rightarrow> if \<not> hasAccess allowed (ssRepoID y) then None else Some y)"

text \<open>The neighbours that are stored and belong to the tenant.\<close>

definition accessible_ids :: "tenant \<Rightarrow> string list \<Rightarrow> GraphStore \<Rightarrow> string list" where
  "accessible_ids allowed ids s =
     (let syms = GetSymbolsByIDs ids s
      in filter (\<lambda>i. case syms i of None \<Rightarrow> False | Some y \<Rightarrow> hasAccess allowed (ssRepoID y)) ids)"

definition TenantGetCallers :: "tenant \<Rightarrow> string \<Rightarrow> GraphStore \<Rightarrow> string list" where
  "TenantGetCallers allowed symbolID s = (case GetSymbol symbolID s of
      None \<Rightarrow> []
    | Some y \<Rightarrow> if \<not> hasAccess allowed (ssRepoID y) then [] else accessible_ids allowed (GetCallers symbolID s) s)"

definition TenantGetCallees :: "tenant \<Rightarrow> string \<Rightarrow> GraphStore \<Rightarrow> string list" where
  "TenantGetCallees allowed symbolID s = (case GetSymbol symbolID s of
      None \<Rightarrow> []
    | Some y \<Rightarrow> if \<not> hasAccess allowed (ssRepoID y) then [] else accessible_ids allowed (GetCallees symbolID s) s)"

definition TenantGetTestsForSymbolPersisted :: "tenant \<Rightarrow> string \<Rightarrow> GraphStore \<Rightarrow> string list" where
  "TenantGetTestsForSymbolPersisted allowed symbolID s = (case GetSymbol symbolID s of
      None \<Rightarrow> []
    | Some y \<Rightarrow> if \<not> hasAccess allowed (ssRepoID y) then []
                else accessible_ids allowed (GetTestsForSymbolPersisted symbolID s) s)"

definition TenantGetCallEdges :: "tenant \<Rightarrow> string list \<Rightarrow> string \<Rightarrow> GraphStore \<Rightarrow> CallEdge list" where
  "TenantGetCallEdges allowed ks repoID s = (if \<not> hasAccess allowed repoID then [] else GetCallEdges ks repoID s)"

definition TenantGetRequirement :: "tenant \<Rightarrow> string \<Rightarrow> GraphStore \<Rightarrow> StoredRequirement option" where
  "TenantGetRequirement allowed i s = (case GetRequirement i s of
      None \<Rightarrow> None
    | Some req \<Rightarrow> if \<not> hasAccess allowed (rqRepoID req) then None else Some req)"

definition TenantGetRequirementsByIDs :: "tenant \<Rightarrow> string list \<Rightarrow> GraphStore \<Rightarrow> string \<rightharpoonup> StoredRequirement" where
  "TenantGetRequirementsByIDs allowed ids s =
     (\<lambda>k. case GetRequirementsByIDs ids s k of
         None \<Rightarrow> None
       | Some req \<Rightarrow> if \<not> hasAccess allowed (rqRepoID req) then None else Some req)"

definition TenantUpdateRequirementFields ::
  "tenant \<Rightarrow> string list \<Rightarrow> time \<Rightarrow> string \<Rightarrow> RequirementUpdate \<Rightarrow> GraphStore \<Rightarrow> StoredRequirement option \<times> GraphStore" where
  "TenantUpdateRequirementFields allowed ks now i patch s = (case GetRequirement i s of
      None \<Rightarrow> (None, s)
    | Some req \<Rightarrow> if \<not> hasAccess allowed (rqRepoID req) then (None, s)
                  else UpdateRequirementFields ks now i patch s)"

definition TenantGetLink :: "tenant \<Rightarrow> string \<Rightarrow> GraphStore \<Rightarrow> StoredLink option" where
  "TenantGetLink allowed i s = (case GetLink i s of
      None \<Rightarrow> None
    | Some link \<Rightarrow> if \<not> hasAccess allowed (slRepoID link) then None else Some link)"

definition accessible_links :: "tenant \<Rightarrow> StoredLink list \<Rightarrow> StoredLink list" where
  "accessible_links allowed links = filter (\<lambda>link. hasAccess allowed (slRepoID link)) links"

definition TenantGetLinksForRequirement :: "tenant \<Rightarrow> string \<Rightarrow> bool \<Rightarrow> GraphStore \<Rightarrow> StoredLink list" where
  "TenantGetLinksForRequirement allowed reqID includeRejected s = (case GetRequirement reqID s of
      None \<Rightarrow> []
    | Some req \<Rightarrow> if \<not> hasAccess allowed (rqRepoID req) then []
                  else accessible_links allowed (GetLinksForRequirement reqID includeRejected s))"

definition TenantGetLinksForSymbol :: "tenant \<Rightarrow> string \<Rightarrow> bool \<Rightarrow> GraphStore \<Rightarrow> StoredLink list" where
  "TenantGetLinksForSymbol allowed symID includeRejected s = (case GetSymbol symID s of
      None \<Rightarrow> []
    | Some y \<Rightarrow> if \<not> hasAccess allowed (ssRepoID y) then []
                else accessible_links allowed (GetLinksForSymbol symID includeRejected s))"

definition TenantGetLinksForFile :: "tenant \<Rightarrow> string \<Rightarrow> int \<Rightarrow> int \<Rightarrow> float64 \<Rightarrow> GraphStore \<Rightarrow> StoredLink list" where
  "TenantGetLinksForFile allowed fileID startLine endLine minConfidence s =
     GetLinksForFile fileID startLine endLine minConfidence s"

definition TenantVerifyLink :: "tenant \<Rightarrow> string \<Rightarrow> bool \<Rightarrow> string \<Rightarrow> GraphStore \<Rightarrow> StoredLink option \<times> GraphStore" where
  "TenantVerifyLink allowed linkID verified verifiedBy s = (case GetLink linkID s of
      None \<Rightarrow> (None, s)
    | Some link \<Rightarrow> if \<not> hasAccess allowed (slRepoID link) then (None, s)
                   else VerifyLink linkID verified verifiedBy s)"

section \<open>Embeddings, reviews, coverage and impact reports\<close>

definition TenantStoreEmbedding :: "tenant \<Rightarrow> time \<Rightarrow> EmbeddingRecord \<Rightarrow> GraphStore \<Rightarrow> GraphStore" where
  "TenantStoreEmbedding allowed now r s = StoreEmbedding now r s"

definition TenantGetEmbedding :: "tenant \<Rightarrow> string \<Rightarrow> GraphStore \<Rightarrow> EmbeddingRecord option" where
  "TenantGetEmbedding allowed targetID s = GetEmbedding targetID s"

definition TenantStoreReviewResult :: "tenant \<Rightarrow> time \<Rightarrow> ReviewResultRecord \<Rightarrow> GraphStore \<Rightarrow> GraphStore" where
  "TenantStoreReviewResult allowed now r s = StoreReviewResult now r s"

definition TenantGetReviewResults :: "tenant \<Rightarrow> string list \<Rightarrow> string \<Rightarrow> GraphStore \<Rightarrow> ReviewResultRecord list" where
  "TenantGetReviewResults allowed ks targetID s = GetReviewResults ks targetID s"

definition TenantGetReviewResultsForRepo :: "tenant \<Rightarrow> string list \<Rightarrow> string \<Rightarrow> GraphStore \<Rightarrow> ReviewResultRecord list" where
  "TenantGetReviewResultsForRepo allowed ks repoID s =
     (if \<not> hasAccess allowed repoID then [] else GetReviewResultsForRepo ks repoID s)"

definition TenantGetPublicSymbolDocCoverage :: "tenant \<Rightarrow> (string \<Rightarrow> bool) \<Rightarrow> string \<Rightarrow> GraphStore \<Rightarrow> int \<times> int" where
  "TenantGetPublicSymbolDocCoverage allowed wide repoID s =
     (if \<not> hasAccess allowed repoID then (0, 0) else GetPublicSymbolDocCoverage wide repoID s)"

definition TenantGetTestSymbolRatio :: "tenant \<Rightarrow> string \<Rightarrow> GraphStore \<Rightarrow> int \<times> int" where
  "TenantGetTestSymbolRatio allowed repoID s = (if \<not> hasAccess allowed repoID then (0, 0) else GetTestSymbolRatio repoID s)"

definition TenantGetAICodeFileRatio :: "tenant \<Rightarrow> string \<Rightarrow> GraphStore \<Rightarrow> int \<times> int" where
  "TenantGetAICodeFileRatio allowed repoID s = (if \<not> hasAccess allowed repoID then (0, 0) else GetAICodeFileRatio repoID s)"

definition TenantStoreImpactReport :: "tenant \<Rightarrow> string \<Rightarrow> ImpactReport \<Rightarrow> GraphStore \<Rightarrow> GraphStore" where
  "TenantStoreImpactReport allowed repoID report s =
     (if \<not> hasAccess allowed repoID then s else StoreImpactReport repoID report s)"

definition TenantGetLatestImpactReport :: "tenant \<Rightarrow> string \<Rightarrow> GraphStore \<Rightarrow> ImpactReport option" where
  "TenantGetLatestImpactReport allowed repoID s =
     (if \<not> hasAccess allowed repoID then None else GetLatestImpactReport repoID s)"

definition TenantGetImpactReports :: "tenant \<Rightarrow> string \<Rightarrow> int \<Rightarrow> GraphStore \<Rightarrow> ImpactReport list \<times> int" where
  "TenantGetImpactReports allowed repoID limit s =
     (if \<not> hasAccess allowed repoID then ([], 0) else GetImpactReports repoID limit s)"

section \<open>Discovered requirements\<close>

definition TenantStoreDiscoveredRequirement ::
  "tenant \<Rightarrow> time \<Rightarrow> string \<Rightarrow> DiscoveredRequirement \<Rightarrow> GraphStore \<Rightarrow> GraphStore" where
  "TenantStoreDiscoveredRequirement allowed now repoID req s =
     (if \<not> hasAccess allowed repoID then s else StoreDiscoveredRequirement now repoID req s)"

definition TenantStoreDiscoveredRequirements ::
  "tenant \<Rightarrow> time \<Rightarrow> string \<Rightarrow> DiscoveredRequirement list \<Rightarrow> GraphStore \<Rightarrow> int \<times> GraphStore" where
  "TenantStoreDiscoveredRequirements allowed now repoID reqs s =
     (if \<not> hasAccess allowed repoID then (0, s) else StoreDiscoveredRequirements now repoID reqs s)"

definition TenantGetDiscoveredRequirements ::
  "tenant \<Rightarrow> (DiscoveredRequirement list \<Rightarrow> DiscoveredRequirement list) \<Rightarrow> string \<Rightarrow> string option \<Rightarrow> string option
   \<Rightarrow> int \<Rightarrow> int \<Rightarrow> GraphStore \<Rightarrow> DiscoveredRequirement list \<times> int" where
  "TenantGetDiscoveredRequirements allowed arrange repoID status confidence limit offset s =
     (if \<not> hasAccess allowed repoID then ([], 0)
      else GetDiscoveredRequirements arrange repoID status confidence limit offset s)"

definition TenantGetDiscoveredRequirement :: "tenant \<Rightarrow> string \<Rightarrow> GraphStore \<Rightarrow> DiscoveredRequirement option" where
  "TenantGetDiscoveredRequirement allowed i s = (case GetDiscoveredRequirement i s of
      None \<Rightarrow> None
    | Some req \<Rightarrow> if \<not> hasAccess allowed (drRepoID req) then None else Some req)"

definition TenantPromoteDiscoveredRequirement ::
  "tenant \<Rightarrow> time \<Rightarrow> string \<Rightarrow> string \<Rightarrow> GraphStore \<Rightarrow> DiscoveredRequirement option \<times> GraphStore" where
  "TenantPromoteDiscoveredRequirement allowed now i requirementID s = (case GetDiscoveredRequirement i s of
      None \<Rightarrow> (None, s)
    | Some req \<Rightarrow> if \<not> hasAccess allowed (drRepoID req) then (None, s)
                  else PromoteDiscoveredRequirement now i requirementID s)"

definition TenantDismissDiscoveredRequirement ::
  "tenant \<Rightarrow> time \<Rightarrow> string \<Rightarrow> string \<Rightarrow> string \<Rightarrow> GraphStore \<Rightarrow> DiscoveredRequirement option \<times> GraphStore" where
  "TenantDismissDiscoveredRequirement allowed now i dismissedBy reason s = (case GetDiscoveredRequirement i s of
      None \<Rightarrow> (None, s)
    | Some req \<Rightarrow> if \<not> hasAccess allowed (drRepoID req) then (None, s)
                  else DismissDiscoveredRequirement now i dismissedBy reason s)"

definition TenantDeleteDiscoveredRequirementsByRepo :: "tenant \<Rightarrow> string \<Rightarrow> GraphStore \<Rightarrow> int \<times> GraphStore" where
  "TenantDeleteDiscoveredRequirementsByRepo allowed repoID s =
     (if \<not> hasAccess allowed repoID then (0, s) else DeleteDiscoveredRequirementsByRepo repoID s)"

end
