(* ===== verification/Graph_Tenant_View.thy ===== *)
theory Graph_Tenant_View
  imports Graph_Tenant Graph_Laws
begin

text \<open>
  The part of a store that belongs to one tenant, and that the gated reads answer from it.
\<close>

section \<open>The store a tenant could be looking at\<close>

text \<open>The rows that belong to the repositories \<open>A\<close>.\<close>

definition own_rows :: "string set \<Rightarrow> ('v \<Rightarrow> string) \<Rightarrow> ('i \<rightharpoonup> 'v) \<Rightarrow> 'i \<rightharpoonup> 'v" where
  "own_rows A owner rows = (\<lambda>i. case rows i of None \<Rightarrow> None | Some v \<Rightarrow> if owner v \<in> A then Some v else None)"

text \<open>The lists kept for owned keys, with the owned ids in them.\<close>

definition own_lists :: "('k \<rightharpoonup> 'x) \<Rightarrow> ('i \<rightharpoonup> 'y) \<Rightarrow> ('k \<rightharpoonup> 'i list) \<Rightarrow> 'k \<rightharpoonup> 'i list" where
  "own_lists keys rows m = (\<lambda>k. if k \<in> dom keys then map_option (filter (\<lambda>i. i \<in> dom rows)) (m k) else None)"

text \<open>A store that holds the rows of the repositories \<open>A\<close> and nothing else.\<close>

definition visible :: "string set \<Rightarrow> GraphStore \<Rightarrow> GraphStore" where
  "visible A s =
     (let files = own_rows A gfRepoID (gsFiles s);
          symbols = own_rows A ssRepoID (gsSymbols s);
          requirements = own_rows A rqRepoID (gsRequirements s);
          links = own_rows A slRepoID (gsLinks s)
      in \<lparr>gsRepos = gsRepos s |` A, gsFiles = files, gsSymbols = symbols,
           gsModules = own_rows A smRepoID (gsModules s), gsRequirements = requirements, gsLinks = links,
           gsImports = filter (\<lambda>imp. siFileID imp \<in> dom files) (gsImports s),
           gsCallGraph = own_lists symbols symbols (gsCallGraph s),
           gsReverseCallGraph = own_lists symbols symbols (gsReverseCallGraph s),
           gsTestedBy = own_lists symbols symbols (gsTestedBy s),
           gsRepoFiles = gsRepoFiles s |` A, gsRepoSymbols = gsRepoSymbols s |` A,
           gsRepoModules = gsRepoModules s |` A, gsRepoRequirements = gsRepoRequirements s |` A,
           gsRepoLinks = gsRepoLinks s |` A, gsReqLinks = own_lists requirements links (gsReqLinks s),
           gsSymLinks = own_lists symbols links (gsSymLinks s), gsFileSymbols = own_lists files symbols (gsFileSymbols s),
           gsLLMUsage = filter (\<lambda>r. luRepoID r \<in> A) (gsLLMUsage s), gsEmbeddings = Map.empty,
           gsReviewResults = own_rows A rvRepoID (gsReviewResults s), gsImpactReports = gsImpactReports s |` A,
           gsDiscovered = own_rows A drRepoID (gsDiscovered s), gsRepoDiscovered = gsRepoDiscovered s |` A,
           gsPackageDeps = (\<lambda>key. if \<exists>r\<in>A. HasPrefix key (r @ '':'') then gsPackageDeps s key else None),
           gsUUID = gsUUID s, gsDrawn = gsDrawn s\<rparr>)"

text \<open>The reads of the tenant's store that are gated, and their answers.\<close>

datatype tenant_read =
    ReadRepository string
  | ReadRepositories "string list"
  | ReadFiles string
  | ReadFilesPaginated string "string option" int int
  | ReadSymbols string "string option" "string option" int int
  | ReadSymbolsByFile string string
  | ReadModules string
  | ReadImports string
  | ReadPackages "string list" string
  | ReadSearch string string int
  | ReadRequirements string int int
  | ReadRequirementByExternalID string string
  | ReadRepoLinks string
  | ReadUsage string int
  | ReadSymbol string
  | ReadSymbolsByIDs "string list"
  | ReadCallers string
  | ReadCallees string
  | ReadTests string
  | ReadCallEdges "string list" string
  | ReadRequirement string
  | ReadRequirementsByIDs "string list"
  | ReadLink string
  | ReadRequirementLinks string bool
  | ReadSymbolLinks string bool
  | ReadReviews "string list" string
  | ReadDocCoverage string
  | ReadTestRatio string
  | ReadAIRatio string
  | ReadLatestImpact string
  | ReadImpacts string int
  | ReadDiscoveredAll string "string option" "string option" int int
  | ReadDiscovered string

datatype tenant_answer =
    ARepository "Repository option"
  | ARepositories "Repository list"
  | AFiles "File list" int
  | ASymbols "StoredSymbol list" int
  | ASymbol "StoredSymbol option"
  | ASymbolMap "string \<rightharpoonup> StoredSymbol"
  | AModules "StoredModule list"
  | AImports "StoredImport list"
  | APackages "StoredPackageDependencies list"
  | ASearch "SearchResult list"
  | ARequirements "(StoredRequirement list \<times> int) option"
  | ARequirement "StoredRequirement option"
  | ARequirementMap "string \<rightharpoonup> StoredRequirement"
  | ALinks "StoredLink list"
  | ALink "StoredLink option"
  | AUsage "LLMUsageRecord list"
  | AIDs "string list"
  | AEdges "CallEdge list"
  | AReviews "ReviewResultRecord list"
  | ACounts int int
  | AImpact "ImpactReport option"
  | AImpacts "ImpactReport list" int
  | ADiscoveredAll "DiscoveredRequirement list" int
  | ADiscovered "DiscoveredRequirement option"

text \<open>The sort orders and the classification of runes are those of the wrapped store.\<close>

record read_env =
  enSymbols :: "StoredSymbol list \<Rightarrow> StoredSymbol list"
  enDiscovered :: "DiscoveredRequirement list \<Rightarrow> DiscoveredRequirement list"
  enWide :: "string \<Rightarrow> bool"

fun tenant_ask :: "read_env \<Rightarrow> tenant \<Rightarrow> tenant_read \<Rightarrow> GraphStore \<Rightarrow> tenant_answer" where
  "tenant_ask env A (ReadRepository r) s = ARepository (TenantGetRepository A r s)"
| "tenant_ask env A (ReadRepositories ks) s = ARepositories (TenantListRepositories A ks s)"
| "tenant_ask env A (ReadFiles r) s = AFiles (TenantGetFiles A r s) 0"
| "tenant_ask env A (ReadFilesPaginated r p l k) s = (case TenantGetFilesPaginated A r p l k s of (fs, n) \<Rightarrow> AFiles fs n)"
| "tenant_ask env A (ReadSymbols r q k l m) s = (case TenantGetSymbols A (enSymbols env) r q k l m s of (ys, n) \<Rightarrow> ASymbols ys n)"
| "tenant_ask env A (ReadSymbolsByFile r p) s = ASymbols (TenantGetSymbolsByFile A r p s) 0"
| "tenant_ask env A (ReadModules r) s = AModules (TenantGetModules A r s)"
| "tenant_ask env A (ReadImports r) s = AImports (TenantGetImports A r s)"
| "tenant_ask env A (ReadPackages ks r) s = APackages (TenantGetPackageDependencies A ks r s)"
| "tenant_ask env A (ReadSearch r q l) s = ASearch (TenantSearchContent A r q l s)"
| "tenant_ask env A (ReadRequirements r l k) s = ARequirements (TenantGetRequirements A r l k s)"
| "tenant_ask env A (ReadRequirementByExternalID r e) s = ARequirement (TenantGetRequirementByExternalID A r e s)"
| "tenant_ask env A (ReadRepoLinks r) s = ALinks (TenantGetLinksForRepo A r s)"
| "tenant_ask env A (ReadUsage r l) s = AUsage (TenantGetLLMUsage A r l s)"
| "tenant_ask env A (ReadSymbol i) s = ASymbol (TenantGetSymbol A i s)"
| "tenant_ask env A (ReadSymbolsByIDs is) s = ASymbolMap (TenantGetSymbolsByIDs A is s)"
| "tenant_ask env A (ReadCallers i) s = AIDs (TenantGetCallers A i s)"
| "tenant_ask env A (ReadCallees i) s = AIDs (TenantGetCallees A i s)"
| "tenant_ask env A (ReadTests i) s = AIDs (TenantGetTestsForSymbolPersisted A i s)"
| "tenant_ask env A (ReadCallEdges ks r) s = AEdges (TenantGetCallEdges A ks r s)"
| "tenant_ask env A (ReadRequirement i) s = ARequirement (TenantGetRequirement A i s)"
| "tenant_ask env A (ReadRequirementsByIDs is) s = ARequirementMap (TenantGetRequirementsByIDs A is s)"
| "tenant_ask env A (ReadLink i) s = ALink (TenantGetLink A i s)"
| "tenant_ask env A (ReadRequirementLinks i rej) s = ALinks (TenantGetLinksForRequirement A i rej s)"
| "tenant_ask env A (ReadSymbolLinks i rej) s = ALinks (TenantGetLinksForSymbol A i rej s)"
| "tenant_ask env A (ReadReviews ks r) s = AReviews (TenantGetReviewResultsForRepo A ks r s)"
| "tenant_ask env A (ReadDocCoverage r) s = (case TenantGetPublicSymbolDocCoverage A (enWide env) r s of (n, m) \<Rightarrow> ACounts n m)"
| "tenant_ask env A (ReadTestRatio r) s = (case TenantGetTestSymbolRatio A r s of (n, m) \<Rightarrow> ACounts n m)"
| "tenant_ask env A (ReadAIRatio r) s = (case TenantGetAICodeFileRatio A r s of (n, m) \<Rightarrow> ACounts n m)"
| "tenant_ask env A (ReadLatestImpact r) s = AImpact (TenantGetLatestImpactReport A r s)"
| "tenant_ask env A (ReadImpacts r l) s = (case TenantGetImpactReports A r l s of (xs, n) \<Rightarrow> AImpacts xs n)"
| "tenant_ask env A (ReadDiscoveredAll r st c l k) s =
     (case TenantGetDiscoveredRequirements A (enDiscovered env) r st c l k s of (xs, n) \<Rightarrow> ADiscoveredAll xs n)"
| "tenant_ask env A (ReadDiscovered i) s = ADiscovered (TenantGetDiscoveredRequirement A i s)"

text \<open>Every id listed for a repository is a row of that repository, if it is a row.\<close>

definition lists_own :: "('i \<rightharpoonup> 'v) \<Rightarrow> ('k \<rightharpoonup> 'i list) \<Rightarrow> ('v \<Rightarrow> 'k) \<Rightarrow> bool" where
  "lists_own rows index owner \<longleftrightarrow> (\<forall>k i v. i \<in> set (slice_at index k) \<longrightarrow> rows i = Some v \<longrightarrow> owner v = k)"

text \<open>A table whose ids, stored and listed, come from \<open>D\<close>.\<close>

definition table_ok :: "'i set \<Rightarrow> ('i \<rightharpoonup> 'v) \<Rightarrow> ('k \<rightharpoonup> 'i list) \<Rightarrow> ('v \<Rightarrow> 'k) \<Rightarrow> bool" where
  "table_ok D rows index owner \<longleftrightarrow> lists_own rows index owner \<and> dom rows \<subseteq> D \<and> (\<forall>k. set (slice_at index k) \<subseteq> D)"

definition tenants_ok :: "GraphStore \<Rightarrow> bool" where
  "tenants_ok s \<longleftrightarrow> graph_wf s \<and> table_ok (drawn s) (gsRequirements s) (gsRepoRequirements s) rqRepoID
     \<and> table_ok (drawn s) (gsLinks s) (gsRepoLinks s) slRepoID
     \<and> table_ok (drawn s) (gsDiscovered s) (gsRepoDiscovered s) drRepoID"

lemma indexed_lists_own: "indexed rows index owner \<Longrightarrow> lists_own rows index owner"
  by (auto simp: lists_own_def indexed_iff)

lemma tenants_okD:
  assumes "tenants_ok s"
  shows "lists_own (gsFiles s) (gsRepoFiles s) gfRepoID" "lists_own (gsSymbols s) (gsRepoSymbols s) ssRepoID"
    "lists_own (gsModules s) (gsRepoModules s) smRepoID" "lists_own (gsRequirements s) (gsRepoRequirements s) rqRepoID"
    "lists_own (gsLinks s) (gsRepoLinks s) slRepoID" "lists_own (gsDiscovered s) (gsRepoDiscovered s) drRepoID"
    "rows_ok (dom (gsRepos s)) s" "\<forall>i r. gsRepos s i = Some r \<longrightarrow> grID r = i"
proof -
  have ok: "rows_ok (dom (gsRepos s)) s" using assms by (simp add: tenants_ok_def graph_wf_alt)
  then show "lists_own (gsFiles s) (gsRepoFiles s) gfRepoID" "lists_own (gsSymbols s) (gsRepoSymbols s) ssRepoID"
    "lists_own (gsModules s) (gsRepoModules s) smRepoID" "rows_ok (dom (gsRepos s)) s"
    by (simp_all add: indexed_lists_own rows_okD [OF ok])
qed (use assms in \<open>simp_all add: tenants_ok_def table_ok_def graph_wf_alt\<close>)

lemma own_rows_simps: "own_rows A owner rows i = Some v \<longleftrightarrow> rows i = Some v \<and> owner v \<in> A"
  by (auto simp: own_rows_def split: option.splits if_splits)

lemma range_vals_own:
  assumes "lists_own rows index owner" and "r \<in> A"
  shows "range_vals (own_rows A owner rows) (slice_at (index |` A) r) = range_vals rows (slice_at index r)"
proof -
  have "own_rows A owner rows i = rows i" if "i \<in> set (slice_at index r)" for i
    using assms that by (auto simp: lists_own_def own_rows_def split: option.split)
  then have "range_vals (own_rows A owner rows) (slice_at index r) = range_vals rows (slice_at index r)"
    by (rule range_vals_cong)
  then show ?thesis using assms(2) by simp
qed

lemma visible_sel [simp]:
  "gsRepos (visible A s) = gsRepos s |` A" "gsFiles (visible A s) = own_rows A gfRepoID (gsFiles s)"
  "gsSymbols (visible A s) = own_rows A ssRepoID (gsSymbols s)" "gsModules (visible A s) = own_rows A smRepoID (gsModules s)"
  "gsRequirements (visible A s) = own_rows A rqRepoID (gsRequirements s)" "gsLinks (visible A s) = own_rows A slRepoID (gsLinks s)"
  "gsRepoFiles (visible A s) = gsRepoFiles s |` A" "gsRepoSymbols (visible A s) = gsRepoSymbols s |` A"
  "gsRepoModules (visible A s) = gsRepoModules s |` A" "gsRepoRequirements (visible A s) = gsRepoRequirements s |` A"
  "gsRepoLinks (visible A s) = gsRepoLinks s |` A" "gsDiscovered (visible A s) = own_rows A drRepoID (gsDiscovered s)"
  "gsRepoDiscovered (visible A s) = gsRepoDiscovered s |` A" "gsImpactReports (visible A s) = gsImpactReports s |` A"
  "gsReviewResults (visible A s) = own_rows A rvRepoID (gsReviewResults s)"
  "gsLLMUsage (visible A s) = filter (\<lambda>r. luRepoID r \<in> A) (gsLLMUsage s)"
  "gsImports (visible A s) = filter (\<lambda>imp. siFileID imp \<in> dom (own_rows A gfRepoID (gsFiles s))) (gsImports s)"
  "gsPackageDeps (visible A s) = (\<lambda>key. if \<exists>r\<in>A. HasPrefix key (r @ '':'') then gsPackageDeps s key else None)"
  "gsCallGraph (visible A s) = own_lists (own_rows A ssRepoID (gsSymbols s)) (own_rows A ssRepoID (gsSymbols s)) (gsCallGraph s)"
  "gsReverseCallGraph (visible A s)
     = own_lists (own_rows A ssRepoID (gsSymbols s)) (own_rows A ssRepoID (gsSymbols s)) (gsReverseCallGraph s)"
  "gsTestedBy (visible A s) = own_lists (own_rows A ssRepoID (gsSymbols s)) (own_rows A ssRepoID (gsSymbols s)) (gsTestedBy s)"
  "gsReqLinks (visible A s) = own_lists (own_rows A rqRepoID (gsRequirements s)) (own_rows A slRepoID (gsLinks s)) (gsReqLinks s)"
  "gsSymLinks (visible A s) = own_lists (own_rows A ssRepoID (gsSymbols s)) (own_rows A slRepoID (gsLinks s)) (gsSymLinks s)"
  by (simp_all only: visible_def Let_def GraphStore.select_convs)

lemma in_dom_own: "i \<in> dom (own_rows A owner rows) \<longleftrightarrow> (case rows i of None \<Rightarrow> False | Some v \<Rightarrow> owner v \<in> A)"
  by (auto simp: own_rows_def split: option.splits if_splits)

text \<open>The lists of one repository.\<close>

lemma GetFiles_visible: "tenants_ok s \<Longrightarrow> r \<in> A \<Longrightarrow> GetFiles r (visible A s) = GetFiles r s"
  unfolding GetFiles_def visible_sel by (intro range_vals_own tenants_okD)

lemma repo_symbols_visible: "tenants_ok s \<Longrightarrow> r \<in> A \<Longrightarrow> repo_symbols r (visible A s) = repo_symbols r s"
  unfolding repo_symbols_def visible_sel by (intro range_vals_own tenants_okD)

lemma GetModules_visible: "tenants_ok s \<Longrightarrow> r \<in> A \<Longrightarrow> GetModules r (visible A s) = GetModules r s"
  unfolding GetModules_def visible_sel by (intro range_vals_own tenants_okD)

lemma links_visible: "tenants_ok s \<Longrightarrow> r \<in> A \<Longrightarrow> GetLinksForRepo r (visible A s) = GetLinksForRepo r s"
  unfolding GetLinksForRepo_def live_links_def visible_sel by (simp only: range_vals_own tenants_okD)

lemma GetImports_visible:
  assumes "tenants_ok s" and "r \<in> A"
  shows "GetImports r (visible A s) = GetImports r s"
proof -
  have "i \<in> dom (own_rows A gfRepoID (gsFiles s))" if "i \<in> set (slice_at (gsRepoFiles s) r)" for i
    using assms that by (auto simp: tenants_ok_def graph_wf_alt own_rows_simps indexed_iff [OF rows_okD(1)])
  then show ?thesis using assms(2) by (auto simp: GetImports_def slice_at_restrict intro!: filter_cong)
qed

text \<open>The neighbours a tenant may see.\<close>

lemma accessible_ids_alt:
  "accessible_ids A is s = filter (\<lambda>i. i \<in> dom (own_rows A ssRepoID (gsSymbols s))) is"
  by (auto simp: accessible_ids_def GetSymbolsByIDs_def Let_def in_dom_own hasAccess_def intro!: filter_cong split: option.splits)

lemma own_rows_twice [simp]: "own_rows A owner (own_rows A owner rows) = own_rows A owner rows"
  by (auto simp: own_rows_def fun_eq_iff split: option.split)

lemma slice_at_own_lists:
  "k \<in> dom keys \<Longrightarrow> slice_at (own_lists keys rows m) k = filter (\<lambda>i. i \<in> dom rows) (slice_at m k)"
  by (simp add: own_lists_def slice_at_def split: option.split)

lemma neighbours_visible:
  assumes "index (visible A s) = own_lists (own_rows A ssRepoID (gsSymbols s)) (own_rows A ssRepoID (gsSymbols s)) (index s)"
  shows "(case GetSymbol i (visible A s) of None \<Rightarrow> []
           | Some y \<Rightarrow> if \<not> hasAccess A (ssRepoID y) then [] else accessible_ids A (slice_at (index (visible A s)) i) (visible A s))
     = (case GetSymbol i s of None \<Rightarrow> []
           | Some y \<Rightarrow> if \<not> hasAccess A (ssRepoID y) then [] else accessible_ids A (slice_at (index s) i) s)"
proof (cases "own_rows A ssRepoID (gsSymbols s) i")
  case None
  then show ?thesis by (auto simp: GetSymbol_def own_rows_def hasAccess_def split: option.splits if_splits)
next
  case (Some y)
  then have "gsSymbols s i = Some y" "ssRepoID y \<in> A" by (simp_all add: own_rows_simps)
  then show ?thesis using Some by (simp add: GetSymbol_def hasAccess_def accessible_ids_alt assms slice_at_own_lists domI)
qed

lemma range_vals_filter_own:
  "range_vals (own_rows A owner rows) (filter (\<lambda>i. i \<in> dom (own_rows A owner rows)) is)
     = filter (\<lambda>v. owner v \<in> A) (range_vals rows is)"
  by (induction "is") (auto simp: own_rows_def split: option.split)

lemma links_of_visible:
  "accessible_links A (live_links rej (filter (\<lambda>i. i \<in> dom (own_rows A slRepoID (gsLinks s))) is) (visible A s))
     = accessible_links A (live_links rej is s)"
  by (auto simp: accessible_links_def live_links_def range_vals_filter_own hasAccess_def intro!: filter_cong)

lemma requirement_links_visible:
  "TenantGetLinksForRequirement A q rej (visible A s) = TenantGetLinksForRequirement A q rej s"
proof (cases "own_rows A rqRepoID (gsRequirements s) q")
  case None
  then show ?thesis
    by (auto simp: TenantGetLinksForRequirement_def GetRequirement_def own_rows_def hasAccess_def split: option.splits if_splits)
next
  case (Some req)
  then have "gsRequirements s q = Some req" "rqRepoID req \<in> A" by (simp_all add: own_rows_simps)
  then show ?thesis using Some
    by (simp add: TenantGetLinksForRequirement_def GetRequirement_def GetLinksForRequirement_def links_of_visible slice_at_own_lists domI)
qed

lemma symbol_links_visible:
  "TenantGetLinksForSymbol A i rej (visible A s) = TenantGetLinksForSymbol A i rej s"
proof (cases "own_rows A ssRepoID (gsSymbols s) i")
  case None
  then show ?thesis
    by (auto simp: TenantGetLinksForSymbol_def GetSymbol_def own_rows_def hasAccess_def split: option.splits if_splits)
next
  case (Some y)
  then have "gsSymbols s i = Some y" "ssRepoID y \<in> A" by (simp_all add: own_rows_simps)
  then show ?thesis using Some
    by (simp add: TenantGetLinksForSymbol_def GetSymbol_def GetLinksForSymbol_def links_of_visible slice_at_own_lists domI)
qed

lemma call_edges_visible:
  assumes ok: "tenants_ok s" and r: "r \<in> A"
  shows "GetCallEdges ks r (visible A s) = GetCallEdges ks r s"
proof -
  have wf: "rows_ok (dom (gsRepos s)) s" using ok by (simp add: tenants_ok_def graph_wf_alt)
  have keep: "(case gsSymbols (visible A s) k of None \<Rightarrow> False | Some y \<Rightarrow> ssRepoID y = r)
      \<longleftrightarrow> (case gsSymbols s k of None \<Rightarrow> False | Some y \<Rightarrow> ssRepoID y = r)" for k
    using r by (auto simp: own_rows_def split: option.split)
  have "slice_at (gsCallGraph (visible A s)) k = slice_at (gsCallGraph s) k"
    if k: "gsSymbols s k = Some y" "ssRepoID y = r" for k y
  proof -
    have "k \<in> dom (own_rows A ssRepoID (gsSymbols s))" using k r by (simp add: in_dom_own)
    moreover have "i \<in> dom (own_rows A ssRepoID (gsSymbols s))" if "i \<in> set (slice_at (gsCallGraph s) k)" for i
      using rows_ok_call [OF wf that] k r by (auto simp: same_repo_def in_dom_own)
    ultimately show ?thesis by (simp add: slice_at_own_lists)
  qed
  then show ?thesis unfolding GetCallEdges_def keep
    by (intro arg_cong [where f = concat] map_cong refl) (auto split: option.splits)
qed

lemma usage_rows_filter:
  "repoID \<noteq> [] \<Longrightarrow> repoID \<in> A \<Longrightarrow>
     usage_rows repoID limit (filter (\<lambda>r. luRepoID r \<in> A) rs) acc = usage_rows repoID limit rs acc"
  by (induction rs arbitrary: acc) (auto simp: Let_def)

lemma range_vals_only:
  "range_vals m (filter P ks) = filter Q (range_vals m ks)" if "\<And>k v. m k = Some v \<Longrightarrow> P k = Q v"
  using that by (intro range_vals_filter) blast

lemma filter_range_vals_own:
  "(\<And>v. Q v \<Longrightarrow> owner v \<in> A) \<Longrightarrow> filter Q (range_vals (own_rows A owner rows) ks) = filter Q (range_vals rows ks)"
  by (induction ks) (auto simp: own_rows_def split: option.split)

lemma repositories_visible:
  assumes "\<forall>i r. gsRepos s i = Some r \<longrightarrow> grID r = i"
  shows "TenantListRepositories A ks (visible A s) = TenantListRepositories A ks s"
  using assms by (induction ks)
    (auto simp: TenantListRepositories_def ListRepositories_def restrict_map_def hasAccess_def split: option.split)

lemma packages_visible:
  assumes "r \<in> A"
  shows "GetPackageDependencies ks r (visible A s) = GetPackageDependencies ks r s"
  unfolding GetPackageDependencies_def by (rule range_vals_cong) (use assms in auto)

text \<open>A tenant's reads get the same answers from its own rows as from the whole store.\<close>

lemma tenant_ask_visible:
  assumes ok: "tenants_ok s" and "[] \<notin> A"
  shows "tenant_ask env A q (visible A s) = tenant_ask env A q s"
proof (cases q)
  case (ReadUsage r l)
  have "usage_rows r l (rev (filter (\<lambda>r. luRepoID r \<in> A) (gsLLMUsage s))) [] = usage_rows r l (rev (gsLLMUsage s)) []" if "r \<in> A"
    using usage_rows_filter [of r A l "rev (gsLLMUsage s)" "[]"] that assms(2) by (auto simp: rev_filter)
  then show ?thesis using ReadUsage by (simp add: TenantGetLLMUsage_def GetLLMUsage_def hasAccess_def)
next
  case (ReadCallers i)
  show ?thesis unfolding ReadCallers
    by (simp only: tenant_ask.simps TenantGetCallers_def GetCallers_def
        neighbours_visible [where index = gsReverseCallGraph, OF visible_sel(20)])
next
  case (ReadCallees i)
  show ?thesis unfolding ReadCallees
    by (simp only: tenant_ask.simps TenantGetCallees_def GetCallees_def
        neighbours_visible [where index = gsCallGraph, OF visible_sel(19)])
next
  case (ReadTests i)
  show ?thesis unfolding ReadTests
    by (simp only: tenant_ask.simps TenantGetTestsForSymbolPersisted_def GetTestsForSymbolPersisted_def
        neighbours_visible [where index = gsTestedBy, OF visible_sel(21)])
next
  case (ReadReviews ks r)
  then show ?thesis
    by (auto simp: TenantGetReviewResultsForRepo_def GetReviewResultsForRepo_def hasAccess_def intro!: filter_range_vals_own)
next
  case (ReadRequirements r l k)
  have "own_rows A rqRepoID (gsRequirements s) i = gsRequirements s i"
    if "r \<in> A" "i \<in> set (drop n (take m (slice_at (gsRepoRequirements s) r)))" for i n m
  proof -
    have "i \<in> set (slice_at (gsRepoRequirements s) r)" using that(2) by (meson in_set_dropD in_set_takeD)
    then show ?thesis using tenants_okD(4) [OF ok] that(1) by (auto simp: lists_own_def own_rows_def split: option.split)
  qed
  then have "range_vals (own_rows A rqRepoID (gsRequirements s)) (drop n (take m (slice_at (gsRepoRequirements s) r)))
      = range_vals (gsRequirements s) (drop n (take m (slice_at (gsRepoRequirements s) r)))" if "r \<in> A" for n m
    using that by (intro range_vals_cong) blast
  then show ?thesis using ReadRequirements
    by (simp add: TenantGetRequirements_def GetRequirements_def hasAccess_def Let_def)
next
  case (ReadRequirementByExternalID r e)
  show ?thesis unfolding ReadRequirementByExternalID
    using range_vals_own [OF tenants_okD(4) [OF ok], of r A]
    by (simp add: TenantGetRequirementByExternalID_def GetRequirementByExternalID_def hasAccess_def del: slice_at_restrict)
next
  case (ReadDiscoveredAll r st c l k)
  show ?thesis unfolding ReadDiscoveredAll
    using range_vals_own [OF tenants_okD(6) [OF ok], of r A]
    by (simp add: TenantGetDiscoveredRequirements_def GetDiscoveredRequirements_def hasAccess_def del: slice_at_restrict)
next
  case (ReadSymbolsByIDs ids)
  then show ?thesis
    by (auto simp: TenantGetSymbolsByIDs_def GetSymbolsByIDs_def own_rows_def hasAccess_def fun_eq_iff split: option.split)
next
  case (ReadRequirementsByIDs ids)
  then show ?thesis
    by (auto simp: TenantGetRequirementsByIDs_def GetRequirementsByIDs_def own_rows_def hasAccess_def fun_eq_iff split: option.split)
qed (use ok in \<open>auto simp: TenantGetRepository_def GetRepository_def repositories_visible tenants_okD
    TenantGetFiles_def GetFiles_visible TenantGetFilesPaginated_def GetFilesPaginated_def
    TenantGetSymbols_def GetSymbols_def repo_symbols_visible TenantGetSymbolsByFile_def GetSymbolsByFile_def
    TenantGetModules_def GetModules_visible TenantGetImports_def GetImports_visible
    TenantGetPackageDependencies_def packages_visible TenantSearchContent_def SearchContent_def
    TenantGetRequirementByExternalID_def GetRequirementByExternalID_def range_vals_own
    TenantGetLinksForRepo_def links_visible TenantGetSymbol_def GetSymbol_def TenantGetCallEdges_def call_edges_visible
    TenantGetRequirement_def GetRequirement_def TenantGetLink_def GetLink_def requirement_links_visible symbol_links_visible
    TenantGetPublicSymbolDocCoverage_def GetPublicSymbolDocCoverage_def TenantGetTestSymbolRatio_def GetTestSymbolRatio_def
    TenantGetAICodeFileRatio_def GetAICodeFileRatio_def TenantGetLatestImpactReport_def GetLatestImpactReport_def
    TenantGetImpactReports_def GetImpactReports_def TenantGetDiscoveredRequirements_def GetDiscoveredRequirements_def
    TenantGetDiscoveredRequirement_def GetDiscoveredRequirement_def own_rows_def hasAccess_def
    split: option.split\<close>)

end
