(* ===== verification/Graph_Tenant_Laws.thy ===== *)
theory Graph_Tenant_Laws
  imports Graph_Tenant_View
begin

text \<open>
  The writes of a tenant: what they leave alone, the tables of the store along every history of writes,
  and the isolation of tenants.
\<close>

section \<open>What a tenant can change\<close>

datatype tenant_write =
    WriteIndex index_op
  | WriteRequirement time string StoredRequirement
  | WriteRequirementPatch "string list" time string RequirementUpdate
  | WriteLink time string StoredLink
  | WriteVerdict string bool string
  | WriteDiscovered time string DiscoveredRequirement
  | WritePromotion time string string
  | WriteDismissal time string string string
  | WriteClear string
  | WriteImpact string ImpactReport
  | WriteRequirements "nat \<Rightarrow> time" string "StoredRequirement list"
  | WriteLinks time string "StoredLink list"
  | WriteDiscoveredAll time string "DiscoveredRequirement list"
  | WritePackages time string
  | WriteUsage time LLMUsageRecord
  | WriteEmbedding time EmbeddingRecord
  | WriteReview time ReviewResultRecord

fun tenant_do :: "tenant \<Rightarrow> tenant_write \<Rightarrow> GraphStore \<Rightarrow> GraphStore" where
  "tenant_do A (WriteIndex (OpCreate now name path)) s = snd (TenantCreateRepository A now name path s)"
| "tenant_do A (WriteIndex (OpStore now result)) s = snd (TenantStoreIndexResult A now result s)"
| "tenant_do A (WriteIndex (OpReplace now r result)) s = snd (TenantReplaceIndexResult A now r result s)"
| "tenant_do A (WriteIndex (OpMerge ps now r affected result)) s = snd (TenantMergeIndexResult A ps now r affected result s)"
| "tenant_do A (WriteIndex (OpRemove r)) s = snd (TenantRemoveRepository A r s)"
| "tenant_do A (WriteIndex (OpMeta r meta)) s = TenantUpdateRepositoryMeta A r meta s"
| "tenant_do A (WriteIndex (OpError r err)) s = TenantSetRepositoryError A r err s"
| "tenant_do A (WriteIndex (OpScore now r overall)) s = TenantCacheUnderstandingScore A now r overall s"
| "tenant_do A (WriteRequirement now r q) s = TenantStoreRequirement A now r q s"
| "tenant_do A (WriteRequirementPatch ks now i patch) s = snd (TenantUpdateRequirementFields A ks now i patch s)"
| "tenant_do A (WriteLink now r l) s = snd (TenantStoreLink A now r l s)"
| "tenant_do A (WriteVerdict i verified by') s = snd (TenantVerifyLink A i verified by' s)"
| "tenant_do A (WriteDiscovered now r q) s = TenantStoreDiscoveredRequirement A now r q s"
| "tenant_do A (WritePromotion now i q) s = snd (TenantPromoteDiscoveredRequirement A now i q s)"
| "tenant_do A (WriteDismissal now i who why) s = snd (TenantDismissDiscoveredRequirement A now i who why s)"
| "tenant_do A (WriteClear r) s = snd (TenantDeleteDiscoveredRequirementsByRepo A r s)"
| "tenant_do A (WriteImpact r report) s = TenantStoreImpactReport A r report s"
| "tenant_do A (WriteRequirements clock r qs) s = snd (TenantStoreRequirements A clock r qs s)"
| "tenant_do A (WriteLinks now r ls) s = snd (TenantStoreLinks A now r ls s)"
| "tenant_do A (WriteDiscoveredAll now r qs) s = snd (TenantStoreDiscoveredRequirements A now r qs s)"
| "tenant_do A (WritePackages now r) s = TenantRecomputePackageDependencies A now r s"
| "tenant_do A (WriteUsage now u) s = TenantStoreLLMUsage A now u s"
| "tenant_do A (WriteEmbedding now e) s = TenantStoreEmbedding A now e s"
| "tenant_do A (WriteReview now v) s = TenantStoreReviewResult A now v s"

text \<open>A batch is the sequence of its single writes.\<close>

fun singles :: "tenant_write \<Rightarrow> tenant_write list" where
  "singles (WriteRequirements clock r qs) = map (\<lambda>nq. WriteRequirement (clock (fst nq)) r (snd nq)) (zip [0..<length qs] qs)"
| "singles (WriteLinks now r ls) = map (WriteLink now r) ls"
| "singles (WriteDiscoveredAll now r qs) = map (WriteDiscovered now r) qs"
| "singles w = [w]"

fun single :: "tenant_write \<Rightarrow> bool" where
  "single (WriteRequirements clock r qs) \<longleftrightarrow> False"
| "single (WriteLinks now r ls) \<longleftrightarrow> False"
| "single (WriteDiscoveredAll now r qs) \<longleftrightarrow> False"
| "single w \<longleftrightarrow> True"

lemma singles_single: "v \<in> set (singles w) \<Longrightarrow> single v"
  by (cases w) auto

lemma singles_index: "WriteIndex a \<in> set (singles w) \<longleftrightarrow> w = WriteIndex a"
  by (cases w) auto

lemma tenant_do_singles: "tenant_do A w s = fold (tenant_do A) (singles w) s"
proof -
  have reqs: "fold (tenant_do A) (map (\<lambda>nq. WriteRequirement (clock (fst nq)) r (snd nq)) xs) s
      = (if hasAccess A r then fold (\<lambda>(n, q). StoreRequirement (clock n) r q) xs s else s)" for clock r xs s
    by (induction xs arbitrary: s) (auto simp: TenantStoreRequirement_def)
  have links: "fold (tenant_do A) (map (WriteLink now r) ls) s
      = (if hasAccess A r then fold (\<lambda>l s. snd (StoreLink now r l s)) ls s else s)" for now r ls s
    by (induction ls arbitrary: s) (auto simp: TenantStoreLink_def split_beta)
  have found: "fold (tenant_do A) (map (WriteDiscovered now r) qs) s
      = (if hasAccess A r then fold (StoreDiscoveredRequirement now r) qs s else s)" for now r qs s
    by (induction qs arbitrary: s) (auto simp: TenantStoreDiscoveredRequirement_def)
  show ?thesis
  proof (cases w)
    case (WriteRequirements clock r qs)
    then show ?thesis
      unfolding WriteRequirements singles.simps tenant_do.simps reqs TenantStoreRequirements_def StoreRequirements_def by simp
  qed (simp_all add: links found TenantStoreLinks_def StoreLinks_def
      TenantStoreDiscoveredRequirements_def StoreDiscoveredRequirements_def)
qed

text \<open>What the index writers leave alone, as one value that every update of another field keeps.\<close>

definition apart :: "GraphStore \<Rightarrow> (string \<rightharpoonup> StoredRequirement) \<times> (string \<rightharpoonup> string list)
    \<times> (string \<rightharpoonup> DiscoveredRequirement) \<times> (string \<rightharpoonup> ImpactReport list)" where
  "apart s = (gsRequirements s, gsRepoRequirements s, gsDiscovered s, gsImpactReports s)"

lemma apart_update [simp]:
  fixes s :: GraphStore
  shows "apart (s\<lparr>gsRepos := repos\<rparr>) = apart s" "apart (s\<lparr>gsFiles := files\<rparr>) = apart s"
    "apart (s\<lparr>gsSymbols := symbols\<rparr>) = apart s" "apart (s\<lparr>gsModules := mods\<rparr>) = apart s"
    "apart (s\<lparr>gsLinks := links\<rparr>) = apart s" "apart (s\<lparr>gsImports := imports\<rparr>) = apart s"
    "apart (s\<lparr>gsCallGraph := graph\<rparr>) = apart s" "apart (s\<lparr>gsReverseCallGraph := graph\<rparr>) = apart s"
    "apart (s\<lparr>gsTestedBy := graph\<rparr>) = apart s" "apart (s\<lparr>gsRepoFiles := index\<rparr>) = apart s"
    "apart (s\<lparr>gsRepoSymbols := index\<rparr>) = apart s" "apart (s\<lparr>gsRepoModules := index\<rparr>) = apart s"
    "apart (s\<lparr>gsRepoLinks := index\<rparr>) = apart s" "apart (s\<lparr>gsReqLinks := index\<rparr>) = apart s"
    "apart (s\<lparr>gsSymLinks := index\<rparr>) = apart s" "apart (s\<lparr>gsFileSymbols := index\<rparr>) = apart s"
    "apart (s\<lparr>gsDrawn := n\<rparr>) = apart s"
  by (simp_all add: apart_def)

lemma fold_apart: "(\<And>x s. apart (f x s) = apart s) \<Longrightarrow> apart (fold f xs s) = apart s"
  by (induction xs arbitrary: s) simp_all

lemma fold_apart_snd: "(\<And>x m s. apart (snd (f x (m, s))) = apart s) \<Longrightarrow> apart (snd (fold f xs (m, s))) = apart s"
proof (induction xs arbitrary: m s)
  case (Cons x xs)
  then show ?case by (cases "f x (m, s)") (metis fold_simps(2) snd_conv)
qed simp

lemma drop_calls_apart [simp]: "apart (drop_calls i s) = apart s"
  by (simp add: drop_calls_def Let_def fold_apart)

lemma drop_symbol_apart [simp]: "apart (drop_symbol i s) = apart s"
  by (simp add: drop_symbol_def Let_def)

lemma drop_index_rows_apart [simp]: "apart (drop_index_rows r s) = apart s"
  by (simp add: drop_index_rows_def Let_def fold_apart)

lemma insert_file_apart: "apart (snd (fold (insert_file r) frs (m, s))) = apart s"
  by (simp add: fold_insert_file Let_def with_rows_def)

lemma insert_modules_apart [simp]: "apart (fold (insert_module r) ms s) = apart s"
  by (simp add: fold_apart insert_module_def graph_NewString_def Let_def)

lemma relations_apart [simp]:
  "apart (fold (insert_relation idMap) rels s) = apart s" "apart (fold (merge_relation resolve) rels s) = apart s"
  by (rule fold_apart; simp add: insert_relation_def merge_relation_def merge_call_def add_call_def Let_def
      split: option.split)+

lemma insert_result_apart [simp]: "apart (insert_result r result s) = apart s"
  using insert_file_apart [of r "ixFiles result" Map.empty s] by (simp add: insert_result_def split_beta)

lemma drop_link_apart [simp]: "apart (drop_link r i s) = apart s"
  by (simp add: drop_link_def Let_def split: option.split)

lemma drop_path_apart [simp]: "apart (drop_path r ex p s) = apart s"
  by (simp add: drop_path_def drop_file_def drop_merged_symbol_def drop_links_def drop_tests_def Let_def fold_apart
      split: option.split)

lemma replace_modules_apart [simp]: "apart (replace_modules r ms s) = apart s"
  by (simp add: replace_modules_def Let_def fold_apart)

lemma index_step_apart:
  assumes "\<forall>r. a \<noteq> OpRemove r"
  shows "apart (index_step a s) = apart s"
proof (cases a)
  case (OpCreate now name path)
  then show ?thesis by (simp add: CreateRepository_def graph_NewString_def Let_def)
next
  case (OpStore now result)
  then show ?thesis by (simp add: StoreIndexResult_def graph_NewString_def Let_def split_beta)
next
  case (OpReplace now r result)
  then show ?thesis by (simp add: ReplaceIndexResult_def Let_def split_beta split: option.split)
next
  case (OpMerge ps now r affected result)
  then show ?thesis
    by (simp add: MergeIndexResult_def Let_def split_beta fold_apart insert_file_apart split: option.split)
qed (use assms in \<open>simp_all add: UpdateRepositoryMeta_def SetRepositoryError_def CacheUnderstandingScore_def
      split: option.split\<close>)

text \<open>What the store keeps for a repository beside its index.\<close>

definition repo_annex :: "string \<Rightarrow> GraphStore \<Rightarrow> (string \<rightharpoonup> StoredRequirement) \<times> (string \<rightharpoonup> DiscoveredRequirement)
    \<times> (string \<rightharpoonup> StoredLink) \<times> ImpactReport list" where
  "repo_annex k s = (own_rows {k} rqRepoID (gsRequirements s), own_rows {k} drRepoID (gsDiscovered s),
     own_rows {k} slRepoID (gsLinks s), slice_at (gsImpactReports s) k)"

lemma own_rows_put:
  assumes "\<forall>old. rows i = Some old \<longrightarrow> owner old \<notin> B" and "owner v \<notin> B"
  shows "own_rows B owner (rows(i \<mapsto> v)) = own_rows B owner rows"
  using assms by (auto simp: own_rows_def fun_eq_iff split: option.split)

lemma own_rows_delete:
  assumes "\<forall>i\<in>D. \<forall>old. rows i = Some old \<longrightarrow> owner old \<notin> B"
  shows "own_rows B owner (\<lambda>i. if i \<in> D then None else rows i) = own_rows B owner rows"
  using assms by (auto simp: own_rows_def fun_eq_iff split: option.split)

text \<open>The index operations of a tenant are those of the wrapped store, on its own repositories.\<close>

definition op_allowed :: "tenant \<Rightarrow> index_op \<Rightarrow> bool" where
  "op_allowed A a = (case names_repo a of None \<Rightarrow> True | Some r \<Rightarrow> hasAccess A r)"

lemma tenant_do_index: "tenant_do A (WriteIndex a) s = (if op_allowed A a then index_step a s else s)"
  by (cases a) (simp_all add: op_allowed_def TenantCreateRepository_def TenantStoreIndexResult_def TenantReplaceIndexResult_def
      TenantMergeIndexResult_def TenantRemoveRepository_def TenantUpdateRepositoryMeta_def TenantSetRepositoryError_def
      TenantCacheUnderstandingScore_def)

lemma fold_forget_requirements:
  fixes s :: GraphStore
  shows "gsRequirements (fold (\<lambda>i s. s\<lparr>gsRequirements := (gsRequirements s)(i := None),
       gsReqLinks := (gsReqLinks s)(i := None)\<rparr>) is s) = (\<lambda>i. if i \<in> set is then None else gsRequirements s i)"
    and "gsDiscovered (fold (\<lambda>i s. s\<lparr>gsRequirements := (gsRequirements s)(i := None),
       gsReqLinks := (gsReqLinks s)(i := None)\<rparr>) is s) = gsDiscovered s"
    and "gsImpactReports (fold (\<lambda>i s. s\<lparr>gsRequirements := (gsRequirements s)(i := None),
       gsReqLinks := (gsReqLinks s)(i := None)\<rparr>) is s) = gsImpactReports s"
  by (induction "is" arbitrary: s) (auto simp: fun_eq_iff)

lemma drop_repo_links_apart [simp]: "apart (fold drop_repo_link is s) = apart s"
  by (rule fold_apart) (simp add: drop_repo_link_def Let_def split: option.split)

lemma apart_eqD:
  "apart s' = apart s \<Longrightarrow> gsRequirements s' = gsRequirements s" "apart s' = apart s \<Longrightarrow> gsDiscovered s' = gsDiscovered s"
  "apart s' = apart s \<Longrightarrow> gsImpactReports s' = gsImpactReports s" "apart s' = apart s \<Longrightarrow> gsRepoRequirements s' = gsRepoRequirements s"
  by (simp_all add: apart_def)

lemma RemoveRepository_apart:
  assumes own: "lists_own (gsRequirements s) (gsRepoRequirements s) rqRepoID" and k: "k \<noteq> r"
  defines "s' \<equiv> snd (RemoveRepository r s)"
  shows "own_rows {k} rqRepoID (gsRequirements s') = own_rows {k} rqRepoID (gsRequirements s)"
    and "gsDiscovered s' = gsDiscovered s" and "gsImpactReports s' = gsImpactReports s"
proof -
  let ?del = "\<lambda>i (s :: GraphStore). s\<lparr>gsRequirements := (gsRequirements s)(i := None), gsReqLinks := (gsReqLinks s)(i := None)\<rparr>"
  have d: "gsRequirements (drop_index_rows r s) = gsRequirements s" "gsDiscovered (drop_index_rows r s) = gsDiscovered s"
    "gsImpactReports (drop_index_rows r s) = gsImpactReports s" "gsRepoRequirements (drop_index_rows r s) = gsRepoRequirements s"
    using apart_eqD [OF drop_index_rows_apart] by metis+
  have l: "gsRequirements (fold drop_repo_link is t) = gsRequirements t" "gsDiscovered (fold drop_repo_link is t) = gsDiscovered t"
    "gsImpactReports (fold drop_repo_link is t) = gsImpactReports t" for "is" t
    using apart_eqD [OF drop_repo_links_apart] by metis+
  have "\<forall>i\<in>set (slice_at (gsRepoRequirements s) r). \<forall>old. gsRequirements s i = Some old \<longrightarrow> rqRepoID old \<notin> {k}"
    using own k by (auto simp: lists_own_def)
  then show "own_rows {k} rqRepoID (gsRequirements s') = own_rows {k} rqRepoID (gsRequirements s)"
    unfolding s'_def by (simp add: RemoveRepository_def Let_def d l fold_forget_requirements own_rows_delete)
  show "gsDiscovered s' = gsDiscovered s" "gsImpactReports s' = gsImpactReports s"
    unfolding s'_def by (simp_all add: RemoveRepository_def Let_def d l fold_forget_requirements)
qed

lemma index_step_annex:
  assumes "tenants_ok s" and "names_repo a \<noteq> Some k"
  shows "own_rows {k} rqRepoID (gsRequirements (index_step a s)) = own_rows {k} rqRepoID (gsRequirements s)"
    "gsDiscovered (index_step a s) = gsDiscovered s" "gsImpactReports (index_step a s) = gsImpactReports s"
proof (atomize(full), cases "\<exists>r. a = OpRemove r")
  case True
  then obtain r where a: "a = OpRemove r" by blast
  show "own_rows {k} rqRepoID (gsRequirements (index_step a s)) = own_rows {k} rqRepoID (gsRequirements s) \<and>
    gsDiscovered (index_step a s) = gsDiscovered s \<and> gsImpactReports (index_step a s) = gsImpactReports s"
    unfolding a index_step.simps using RemoveRepository_apart [OF tenants_okD(4) [OF assms(1)], of k r] assms(2) a by simp
next
  case False
  then have "apart (index_step a s) = apart s" by (intro index_step_apart) blast
  then show "own_rows {k} rqRepoID (gsRequirements (index_step a s)) = own_rows {k} rqRepoID (gsRequirements s) \<and>
    gsDiscovered (index_step a s) = gsDiscovered s \<and> gsImpactReports (index_step a s) = gsImpactReports s"
    by (simp add: apart_def)
qed

lemma fresh_tables:
  assumes "tenants_ok s"
  shows "gsRequirements s (gsUUID s (gsDrawn s)) = None" "gsLinks s (gsUUID s (gsDrawn s)) = None"
    "gsDiscovered s (gsUUID s (gsDrawn s)) = None"
  using assms next_id_fresh [of s] by (auto simp: tenants_ok_def table_ok_def graph_wf_def)

text \<open>The writes that are not index operations keep the index.\<close>

lemma repo_view_unindexed:
  fixes s :: GraphStore
  shows "repo_view k (s\<lparr>gsDrawn := n\<rparr>) = repo_view k s"
    "repo_view k (s\<lparr>gsRequirements := requirements\<rparr>) = repo_view k s"
    "repo_view k (s\<lparr>gsRepoRequirements := index\<rparr>) = repo_view k s"
    "repo_view k (s\<lparr>gsLinks := links\<rparr>) = repo_view k s" "repo_view k (s\<lparr>gsRepoLinks := index\<rparr>) = repo_view k s"
    "repo_view k (s\<lparr>gsReqLinks := index\<rparr>) = repo_view k s" "repo_view k (s\<lparr>gsSymLinks := index\<rparr>) = repo_view k s"
    "repo_view k (s\<lparr>gsDiscovered := discovered\<rparr>) = repo_view k s"
    "repo_view k (s\<lparr>gsRepoDiscovered := index\<rparr>) = repo_view k s"
    "repo_view k (s\<lparr>gsImpactReports := reports\<rparr>) = repo_view k s"
    "repo_view k (s\<lparr>gsPackageDeps := packages\<rparr>) = repo_view k s" "repo_view k (s\<lparr>gsLLMUsage := usage\<rparr>) = repo_view k s"
    "repo_view k (s\<lparr>gsEmbeddings := embeddings\<rparr>) = repo_view k s" "repo_view k (s\<lparr>gsReviewResults := reviews\<rparr>) = repo_view k s"
  by (rule repo_view_same; simp add: views_cong)+

lemmas tenant_write_defs =
  graph_NewString_def TenantStoreRequirement_def StoreRequirement_def TenantUpdateRequirementFields_def
  UpdateRequirementFields_def GetRequirement_def TenantStoreLink_def StoreLink_def put_link_def TenantVerifyLink_def
  VerifyLink_def GetLink_def TenantStoreDiscoveredRequirement_def StoreDiscoveredRequirement_def
  TenantPromoteDiscoveredRequirement_def PromoteDiscoveredRequirement_def GetDiscoveredRequirement_def
  TenantDismissDiscoveredRequirement_def DismissDiscoveredRequirement_def
  TenantDeleteDiscoveredRequirementsByRepo_def DeleteDiscoveredRequirementsByRepo_def
  TenantStoreImpactReport_def StoreImpactReport_def TenantRecomputePackageDependencies_def RecomputePackageDependencies_def
  TenantStoreLLMUsage_def StoreLLMUsage_def TenantStoreEmbedding_def StoreEmbedding_def TenantStoreReviewResult_def
  StoreReviewResult_def

lemma tenant_do_view_single:
  assumes "\<forall>a. w \<noteq> WriteIndex a" and "single w"
  shows "repo_view k (tenant_do A w s) = repo_view k s"
  using assms by (cases w; simp add: tenant_write_defs Let_def repo_view_unindexed split: option.split prod.split)

lemma tenant_do_view:
  assumes "\<forall>a. w \<noteq> WriteIndex a"
  shows "repo_view k (tenant_do A w s) = repo_view k s"
proof -
  have "repo_view k (fold (tenant_do A) vs s) = repo_view k s" if "\<forall>v\<in>set vs. single v \<and> (\<forall>a. v \<noteq> WriteIndex a)" for vs
    using that by (induction vs arbitrary: s) (simp_all add: tenant_do_view_single)
  then show ?thesis using assms singles_single singles_index unfolding tenant_do_singles [of A w s] by metis
qed

lemma delete_discovered_keeps:
  "\<exists>D \<subseteq> set ids. snd (snd (delete_discovered ids m)) = (\<lambda>i. if i \<in> D then None else m i)"
proof (induction ids arbitrary: m)
  case (Cons i ids)
  show ?case
  proof (cases "still_open m i")
    case True
    obtain D where D: "D \<subseteq> set ids" "snd (snd (delete_discovered ids (m(i := None)))) = (\<lambda>j. if j \<in> D then None else (m(i := None)) j)"
      using Cons.IH by blast
    have "snd (snd (delete_discovered (i # ids) m)) = (\<lambda>j. if j \<in> insert i D then None else m j)"
      using True D(2) by (simp add: split_beta fun_eq_iff)
    moreover have "insert i D \<subseteq> set (i # ids)" using D(1) by auto
    ultimately show ?thesis by blast
  next
    case False
    obtain D where D: "D \<subseteq> set ids" "snd (snd (delete_discovered ids m)) = (\<lambda>j. if j \<in> D then None else m j)"
      using Cons.IH by blast
    have "snd (snd (delete_discovered (i # ids) m)) = (\<lambda>j. if j \<in> D then None else m j)"
      using False D(2) by (simp add: split_beta)
    moreover have "D \<subseteq> set (i # ids)" using D(1) by auto
    ultimately show ?thesis by blast
  qed
qed simp

lemma clear_keeps_others:
  assumes own: "lists_own (gsDiscovered s) (gsRepoDiscovered s) drRepoID" and k: "k \<noteq> r"
  shows "own_rows {k} drRepoID (gsDiscovered (snd (DeleteDiscoveredRequirementsByRepo r s))) = own_rows {k} drRepoID (gsDiscovered s)"
proof -
  let ?ids = "slice_at (gsRepoDiscovered s) r"
  obtain D where D: "D \<subseteq> set ?ids" "snd (snd (delete_discovered ?ids (gsDiscovered s))) = (\<lambda>i. if i \<in> D then None else gsDiscovered s i)"
    using delete_discovered_keeps by blast
  have "\<forall>i\<in>D. \<forall>old. gsDiscovered s i = Some old \<longrightarrow> drRepoID old \<notin> {k}" using own k D(1) by (auto simp: lists_own_def)
  then show ?thesis using D(2) by (simp add: DeleteDiscoveredRequirementsByRepo_def split_beta own_rows_delete)
qed

lemma apply_update_repo: "rqRepoID (apply_update now patch req) = rqRepoID req"
  by (simp add: apply_update_def Let_def)

lemma verified_link_repo: "slRepoID (verified_link verified who link) = slRepoID link"
  by (simp add: verified_link_def)

lemma tenant_do_annex_single:
  assumes ok: "tenants_ok s" and k: "k \<notin> A" and w: "\<forall>a. w \<noteq> WriteIndex a" "single w"
  shows "repo_annex k (tenant_do A w s) = repo_annex k s"
proof (cases w)
  case (WriteRequirementPatch ks now i patch)
  then show ?thesis using k
    by (auto simp: repo_annex_def hasAccess_def TenantUpdateRequirementFields_def UpdateRequirementFields_def GetRequirement_def
        Let_def apply_update_repo intro!: own_rows_put split: option.split)
next
  case (WriteClear r)
  show ?thesis
  proof (cases "hasAccess A r")
    case True
    then have "k \<noteq> r" using k by (auto simp: hasAccess_def)
    then show ?thesis using clear_keeps_others [OF tenants_okD(6) [OF ok]]
      by (simp add: WriteClear repo_annex_def TenantDeleteDiscoveredRequirementsByRepo_def DeleteDiscoveredRequirementsByRepo_def
          split: prod.split)
  qed (simp add: WriteClear TenantDeleteDiscoveredRequirementsByRepo_def)
next
  case (WriteRequirement now r q)
  then show ?thesis using k fresh_tables [OF ok]
    by (auto simp: repo_annex_def hasAccess_def TenantStoreRequirement_def StoreRequirement_def graph_NewString_def Let_def
        intro!: own_rows_put)
next
  case (WriteLink now r q)
  then show ?thesis using k fresh_tables [OF ok]
    by (auto simp: repo_annex_def hasAccess_def TenantStoreLink_def StoreLink_def put_link_def graph_NewString_def Let_def
        intro!: own_rows_put)
next
  case (WriteVerdict i verified who)
  then show ?thesis using k
    by (auto simp: repo_annex_def hasAccess_def TenantVerifyLink_def VerifyLink_def GetLink_def Let_def verified_link_repo
        intro!: own_rows_put split: option.split)
next
  case (WriteDiscovered now r q)
  then show ?thesis using k fresh_tables [OF ok]
    by (auto simp: repo_annex_def hasAccess_def TenantStoreDiscoveredRequirement_def StoreDiscoveredRequirement_def
        graph_NewString_def Let_def intro!: own_rows_put)
next
  case (WritePromotion now i q)
  then show ?thesis using k
    by (auto simp: repo_annex_def hasAccess_def TenantPromoteDiscoveredRequirement_def PromoteDiscoveredRequirement_def
        GetDiscoveredRequirement_def Let_def intro!: own_rows_put split: option.split)
next
  case (WriteDismissal now i who why)
  then show ?thesis using k
    by (auto simp: repo_annex_def hasAccess_def TenantDismissDiscoveredRequirement_def DismissDiscoveredRequirement_def
        GetDiscoveredRequirement_def Let_def intro!: own_rows_put split: option.split)
next
  case (WriteImpact r report)
  then show ?thesis using k
    by (auto simp: repo_annex_def hasAccess_def TenantStoreImpactReport_def StoreImpactReport_def slice_at_push)
qed (use w in \<open>simp_all add: repo_annex_def tenant_write_defs Let_def\<close>)

section \<open>Every history keeps the tables apart\<close>

text \<open>Index operations only take links, requirements and discovered requirements away.\<close>

definition shrunk :: "('i \<rightharpoonup> 'v) \<Rightarrow> ('k \<rightharpoonup> 'i list) \<Rightarrow> ('i \<rightharpoonup> 'v) \<Rightarrow> ('k \<rightharpoonup> 'i list) \<Rightarrow> bool" where
  "shrunk rows index rows' index' \<longleftrightarrow> rows' \<subseteq>\<^sub>m rows \<and> (\<forall>k. set (slice_at index' k) \<subseteq> set (slice_at index k))"

lemma shrunk_refl [simp]: "shrunk rows index rows index"
  by (simp add: shrunk_def)

lemma shrunk_trans: "shrunk rows index rows' index' \<Longrightarrow> shrunk rows' index' rows'' index'' \<Longrightarrow> shrunk rows index rows'' index''"
  unfolding shrunk_def by (meson map_le_trans order_trans)

lemma shrunk_drop:
  "shrunk rows index rows' index' \<Longrightarrow> shrunk rows index (rows'(i := None)) index'"
  "shrunk rows index rows' index' \<Longrightarrow> shrunk rows index rows' (index'(k := None))"
  "shrunk rows index rows' index' \<Longrightarrow> shrunk rows index rows' (pull_at k i index')"
  by (auto simp: shrunk_def map_le_def slice_at_pull slice_at_simps dom_def)

lemma lists_own_shrunk: "lists_own rows index owner \<Longrightarrow> shrunk rows index rows' index' \<Longrightarrow> lists_own rows' index' owner"
  unfolding lists_own_def shrunk_def map_le_def by (metis domI subsetD)

lemma dom_shrunk: "shrunk rows index rows' index' \<Longrightarrow> dom rows' \<subseteq> dom rows"
  unfolding shrunk_def by (simp add: map_le_implies_dom_le)

definition tame :: "GraphStore \<Rightarrow> GraphStore \<Rightarrow> bool" where
  "tame s s' \<longleftrightarrow> gsUUID s' = gsUUID s \<and> gsDrawn s \<le> gsDrawn s'
     \<and> shrunk (gsRequirements s) (gsRepoRequirements s) (gsRequirements s') (gsRepoRequirements s')
     \<and> shrunk (gsLinks s) (gsRepoLinks s) (gsLinks s') (gsRepoLinks s')
     \<and> shrunk (gsDiscovered s) (gsRepoDiscovered s) (gsDiscovered s') (gsRepoDiscovered s')"

lemma tame_refl: "tame s s"
  by (simp add: tame_def)

lemma tame_updates:
  fixes s t :: GraphStore
  assumes "tame s t"
  shows "tame s (t\<lparr>gsRepos := repos\<rparr>)" "tame s (t\<lparr>gsFiles := files\<rparr>)" "tame s (t\<lparr>gsSymbols := symbols\<rparr>)"
    "tame s (t\<lparr>gsModules := mods\<rparr>)" "tame s (t\<lparr>gsImports := imports\<rparr>)" "tame s (t\<lparr>gsCallGraph := graph\<rparr>)"
    "tame s (t\<lparr>gsReverseCallGraph := graph\<rparr>)" "tame s (t\<lparr>gsTestedBy := graph\<rparr>)" "tame s (t\<lparr>gsRepoFiles := index\<rparr>)"
    "tame s (t\<lparr>gsRepoSymbols := index\<rparr>)" "tame s (t\<lparr>gsRepoModules := index\<rparr>)" "tame s (t\<lparr>gsReqLinks := index\<rparr>)"
    "tame s (t\<lparr>gsSymLinks := index\<rparr>)" "tame s (t\<lparr>gsFileSymbols := index\<rparr>)"
    "tame s (t\<lparr>gsDrawn := Suc (gsDrawn t)\<rparr>)" "tame s (t\<lparr>gsDrawn := gsDrawn t + n\<rparr>)"
    "tame s (t\<lparr>gsLinks := (gsLinks t)(i := None)\<rparr>)" "tame s (t\<lparr>gsRepoLinks := (gsRepoLinks t)(k := None)\<rparr>)"
    "tame s (t\<lparr>gsRepoLinks := pull_at k i (gsRepoLinks t)\<rparr>)"
    "tame s (t\<lparr>gsRequirements := (gsRequirements t)(i := None)\<rparr>)"
    "tame s (t\<lparr>gsRepoRequirements := (gsRepoRequirements t)(k := None)\<rparr>)"
  using assms by (simp_all add: tame_def shrunk_drop)

lemma tame_fold: "(\<And>x t. tame s t \<Longrightarrow> tame s (f x t)) \<Longrightarrow> tame s t \<Longrightarrow> tame s (fold f xs t)"
  by (induction xs arbitrary: t) simp_all

lemma tame_drop_calls: "tame s t \<Longrightarrow> tame s (drop_calls i t)"
  unfolding drop_calls_def Let_def by (intro tame_updates tame_fold; assumption)

lemma tame_drop_index_rows: "tame s t \<Longrightarrow> tame s (drop_index_rows r t)"
  unfolding drop_index_rows_def drop_symbol_def Let_def by (intro tame_updates tame_fold tame_drop_calls; assumption)

lemma tame_insert_files: "tame s t \<Longrightarrow> tame s (snd (fold (insert_file r) frs (m, t)))"
  by (simp add: fold_insert_file with_rows_def tame_def Let_def)

lemma tame_insert_modules: "tame s t \<Longrightarrow> tame s (fold (insert_module r) ms t)"
  by (rule tame_fold) (auto simp: insert_module_def graph_NewString_def Let_def intro!: tame_updates)

lemma tame_relations:
  "tame s t \<Longrightarrow> tame s (fold (insert_relation idMap) rels t)" "tame s t \<Longrightarrow> tame s (fold (merge_relation resolve) rels t)"
  by (rule tame_fold; auto simp: insert_relation_def merge_relation_def merge_call_def add_call_def Let_def
      intro!: tame_updates split: option.split)+

lemma tame_insert_result: "tame s t \<Longrightarrow> tame s (insert_result r result t)"
  unfolding insert_result_def split_beta Let_def by (intro tame_insert_modules tame_relations tame_insert_files)

lemma tame_drop_link: "tame s t \<Longrightarrow> tame s (drop_link r i t)"
  by (simp add: drop_link_def Let_def tame_def shrunk_drop split: option.split)

lemma tame_drop_path: "tame s t \<Longrightarrow> tame s (drop_path r ex p t)"
proof -
  have "tame s (drop_merged_symbol r i t)" if "tame s t" for i t
    unfolding drop_merged_symbol_def drop_links_def drop_tests_def Let_def
    by (intro tame_updates tame_fold tame_drop_link tame_drop_calls that; assumption)
  then show "tame s t \<Longrightarrow> tame s (drop_path r ex p t)"
    unfolding drop_path_def drop_file_def Let_def by (auto intro!: tame_updates tame_fold split: option.split)
qed

lemma tame_replace_modules: "tame s t \<Longrightarrow> tame s (replace_modules r ms t)"
  unfolding replace_modules_def Let_def by (intro tame_insert_modules tame_updates tame_fold; assumption)

lemma tame_drop_repo_link: "tame s t \<Longrightarrow> tame s (drop_repo_link i t)"
  by (simp add: drop_repo_link_def Let_def tame_def shrunk_drop split: option.split)

lemma tame_merge:
  "tame s (replace_modules r ms (fold (merge_relation res) rels (snd (fold (insert_file r) frs (m, fold (drop_path r ex) ps s)))))"
  by (intro tame_replace_modules tame_relations tame_insert_files tame_fold tame_drop_path tame_refl; assumption)

lemma tame_index_step: "tame s (index_step a s)"
proof (cases a)
  case (OpCreate now name path)
  then show ?thesis using tame_refl by (simp add: CreateRepository_def graph_NewString_def Let_def tame_updates)
next
  case (OpStore now result)
  then show ?thesis
    by (simp add: StoreIndexResult_def graph_NewString_def Let_def split_beta)
      (intro tame_updates tame_insert_result tame_refl)
next
  case (OpReplace now r result)
  then show ?thesis
    by (auto simp: ReplaceIndexResult_def Let_def split_beta intro!: tame_updates tame_insert_result tame_drop_index_rows tame_refl
        split: option.split)
next
  case (OpMerge ps now r affected result)
  then show ?thesis
    by (auto simp: MergeIndexResult_def Let_def split_beta intro!: tame_updates tame_merge tame_refl split: option.split)
next
  case (OpRemove r)
  have "tame s (snd (RemoveRepository r s))" unfolding RemoveRepository_def Let_def
    by (auto intro!: tame_updates tame_fold tame_drop_repo_link tame_drop_index_rows tame_refl)
  then show ?thesis by (simp add: OpRemove)
qed (auto simp: UpdateRepositoryMeta_def SetRepositoryError_def CacheUnderstandingScore_def intro!: tame_updates tame_refl
    split: option.split)

text \<open>The writes of index results carry well-formed results.\<close>

fun admissible_write :: "tenant_write \<Rightarrow> bool" where
  "admissible_write (WriteIndex a) = admissible_op a"
| "admissible_write _ = True"

lemma table_ok_push:
  assumes "table_ok D rows index owner" and "i \<notin> D" and "owner v = k"
  shows "table_ok (insert i D) (rows(i \<mapsto> v)) (push_at k i index) owner"
  using assms by (auto simp: table_ok_def lists_own_def slice_at_push split: if_splits)

lemma table_ok_put:
  assumes "table_ok D rows index owner" and "rows i = Some old" and "owner v = owner old"
  shows "table_ok D (rows(i \<mapsto> v)) index owner"
  using assms by (auto simp: table_ok_def lists_own_def)

lemma table_ok_shrunk:
  assumes "table_ok D rows index owner" and "shrunk rows index rows' index'" and "D \<subseteq> D'"
  shows "table_ok D' rows' index' owner"
  using assms lists_own_shrunk [OF _ assms(2)] dom_shrunk [OF assms(2)] unfolding table_ok_def shrunk_def by blast

lemma table_ok_mono: "table_ok D rows index owner \<Longrightarrow> D \<subseteq> D' \<Longrightarrow> table_ok D' rows index owner"
  unfolding table_ok_def by blast

lemma tame_drawn: "tame s s' \<Longrightarrow> drawn s \<subseteq> drawn s'"
  by (auto simp: tame_def drawn_def)

lemma tenants_ok_index_step:
  assumes ok: "tenants_ok s" and a: "admissible_op a"
  shows "tenants_ok (index_step a s)"
proof -
  have t: "tame s (index_step a s)" by (rule tame_index_step)
  have "graph_wf (index_step a s)" using ok a by (simp add: tenants_ok_def index_step_wf)
  moreover note rows = table_ok_shrunk [OF _ _ tame_drawn [OF t]]
  have "table_ok (drawn (index_step a s)) (gsRequirements (index_step a s)) (gsRepoRequirements (index_step a s)) rqRepoID"
    by (rule rows [of "gsRequirements s" "gsRepoRequirements s"]) (use ok t in \<open>simp_all add: tenants_ok_def tame_def\<close>)
  moreover have "table_ok (drawn (index_step a s)) (gsLinks (index_step a s)) (gsRepoLinks (index_step a s)) slRepoID"
    by (rule rows [of "gsLinks s" "gsRepoLinks s"]) (use ok t in \<open>simp_all add: tenants_ok_def tame_def\<close>)
  moreover have "table_ok (drawn (index_step a s)) (gsDiscovered (index_step a s)) (gsRepoDiscovered (index_step a s)) drRepoID"
    by (rule rows [of "gsDiscovered s" "gsRepoDiscovered s"]) (use ok t in \<open>simp_all add: tenants_ok_def tame_def\<close>)
  ultimately show ?thesis by (simp add: tenants_ok_def)
qed

lemma drawn_Suc [simp]: "drawn (s\<lparr>gsDrawn := Suc (gsDrawn s)\<rparr>) = insert (gsUUID s (gsDrawn s)) (drawn s)"
  by (simp add: drawn_def lessThan_Suc)

lemma delete_discovered_rest: "set (fst (snd (delete_discovered ids m))) \<subseteq> set ids"
  by (induction ids arbitrary: m) (auto simp: split_beta)


lemma graph_wf_unindexed:
  fixes s :: GraphStore
  shows "graph_wf s \<Longrightarrow> graph_wf (s\<lparr>gsDrawn := Suc (gsDrawn s)\<rparr>)"
    "graph_wf (s\<lparr>gsRequirements := requirements\<rparr>) = graph_wf s"
    "graph_wf (s\<lparr>gsRepoRequirements := index\<rparr>) = graph_wf s"
    "graph_wf (s\<lparr>gsLinks := links\<rparr>) = graph_wf s" "graph_wf (s\<lparr>gsRepoLinks := index\<rparr>) = graph_wf s"
    "graph_wf (s\<lparr>gsReqLinks := index\<rparr>) = graph_wf s" "graph_wf (s\<lparr>gsSymLinks := index\<rparr>) = graph_wf s"
    "graph_wf (s\<lparr>gsDiscovered := discovered\<rparr>) = graph_wf s"
    "graph_wf (s\<lparr>gsRepoDiscovered := index\<rparr>) = graph_wf s"
    "graph_wf (s\<lparr>gsImpactReports := reports\<rparr>) = graph_wf s"
    "graph_wf (s\<lparr>gsPackageDeps := packages\<rparr>) = graph_wf s" "graph_wf (s\<lparr>gsLLMUsage := usage\<rparr>) = graph_wf s"
    "graph_wf (s\<lparr>gsEmbeddings := embeddings\<rparr>) = graph_wf s" "graph_wf (s\<lparr>gsReviewResults := reviews\<rparr>) = graph_wf s"
  by (auto simp: graph_wf_def rows_ok_def mirrored_def same_repo_def uuid_ok_def drawn_def less_Suc_eq)

lemma drawn_unindexed [simp]:
  fixes s :: GraphStore
  shows "drawn (s\<lparr>gsRequirements := requirements\<rparr>) = drawn s" "drawn (s\<lparr>gsRepoRequirements := index\<rparr>) = drawn s"
    "drawn (s\<lparr>gsLinks := links\<rparr>) = drawn s" "drawn (s\<lparr>gsRepoLinks := index\<rparr>) = drawn s"
    "drawn (s\<lparr>gsReqLinks := index\<rparr>) = drawn s" "drawn (s\<lparr>gsSymLinks := index\<rparr>) = drawn s"
    "drawn (s\<lparr>gsDiscovered := discovered\<rparr>) = drawn s" "drawn (s\<lparr>gsRepoDiscovered := index\<rparr>) = drawn s"
    "drawn (s\<lparr>gsImpactReports := reports\<rparr>) = drawn s"
    "drawn (s\<lparr>gsPackageDeps := packages\<rparr>) = drawn s" "drawn (s\<lparr>gsLLMUsage := usage\<rparr>) = drawn s"
    "drawn (s\<lparr>gsEmbeddings := embeddings\<rparr>) = drawn s" "drawn (s\<lparr>gsReviewResults := reviews\<rparr>) = drawn s"
  by (simp_all add: drawn_def)

lemma tenants_ok_fresh: "tenants_ok s \<Longrightarrow> gsUUID s (gsDrawn s) \<notin> drawn s"
  by (simp add: tenants_ok_def graph_wf_def next_id_fresh)

lemmas tenants_ok_simps = tenants_ok_def graph_wf_unindexed Let_def graph_NewString_def table_ok_push table_ok_put
  table_ok_mono [OF _ subset_insertI]

lemma tenants_ok_stores:
  assumes "tenants_ok s"
  shows "tenants_ok (StoreRequirement now r q s)" and "tenants_ok (snd (StoreLink now r l s))"
    and "tenants_ok (StoreDiscoveredRequirement now r d s)" and "tenants_ok (StoreImpactReport r report s)"
    and "tenants_ok (RecomputePackageDependencies now r s)" and "tenants_ok (StoreLLMUsage now u s)"
    and "tenants_ok (StoreEmbedding now e s)" and "tenants_ok (StoreReviewResult now v s)"
  using assms tenants_ok_fresh [OF assms]
  by (simp_all add: tenants_ok_simps StoreRequirement_def StoreLink_def put_link_def StoreDiscoveredRequirement_def
      StoreImpactReport_def RecomputePackageDependencies_def StoreLLMUsage_def StoreEmbedding_def StoreReviewResult_def)

lemma tenants_ok_changes:
  assumes "tenants_ok s"
  shows "tenants_ok (snd (UpdateRequirementFields ks now i patch s))" and "tenants_ok (snd (VerifyLink i verified who s))"
    and "tenants_ok (snd (PromoteDiscoveredRequirement now i q s))"
    and "tenants_ok (snd (DismissDiscoveredRequirement now i who why s))"
  using assms
  by (simp_all add: tenants_ok_simps UpdateRequirementFields_def VerifyLink_def PromoteDiscoveredRequirement_def
      DismissDiscoveredRequirement_def apply_update_repo verified_link_repo split: option.split)

lemma tenants_ok_clear:
  assumes "tenants_ok s"
  shows "tenants_ok (snd (DeleteDiscoveredRequirementsByRepo r s))"
proof -
  let ?gone = "delete_discovered (slice_at (gsRepoDiscovered s) r) (gsDiscovered s)"
  obtain D where D: "snd (snd ?gone) = (\<lambda>i. if i \<in> D then None else gsDiscovered s i)"
    using delete_discovered_keeps by blast
  have "shrunk (gsDiscovered s) (gsRepoDiscovered s) (snd (snd ?gone)) ((gsRepoDiscovered s)(r \<mapsto> fst (snd ?gone)))"
    using delete_discovered_rest [of "slice_at (gsRepoDiscovered s) r" "gsDiscovered s"]
    unfolding D by (auto simp: shrunk_def map_le_def slice_at_simps)
  then show ?thesis using assms table_ok_shrunk
    by (simp add: tenants_ok_def DeleteDiscoveredRequirementsByRepo_def split_beta graph_wf_unindexed) blast
qed

lemma tenants_ok_single:
  assumes "tenants_ok s" and "admissible_write w" and "single w"
  shows "tenants_ok (tenant_do A w s)"
proof (cases w)
  case (WriteIndex a)
  then show ?thesis using assms tenants_ok_index_step by (simp add: tenant_do_index)
qed (use assms in \<open>simp_all add: tenants_ok_stores tenants_ok_changes tenants_ok_clear
    TenantStoreRequirement_def TenantUpdateRequirementFields_def TenantStoreLink_def TenantVerifyLink_def
    TenantStoreDiscoveredRequirement_def TenantPromoteDiscoveredRequirement_def TenantDismissDiscoveredRequirement_def
    TenantDeleteDiscoveredRequirementsByRepo_def TenantStoreImpactReport_def TenantRecomputePackageDependencies_def
    TenantStoreLLMUsage_def TenantStoreEmbedding_def TenantStoreReviewResult_def split_beta split: option.split\<close>)

lemma admissible_singles: "admissible_write w \<Longrightarrow> \<forall>v\<in>set (singles w). admissible_write v \<and> single v"
  by (cases w) auto

lemma tenants_ok_singles:
  "tenants_ok s \<Longrightarrow> \<forall>v\<in>set vs. admissible_write v \<and> single v \<Longrightarrow> tenants_ok (fold (tenant_do A) vs s)"
  by (induction vs arbitrary: s) (simp_all add: tenants_ok_single)

lemma tenants_ok_step: "tenants_ok s \<Longrightarrow> admissible_write w \<Longrightarrow> tenants_ok (tenant_do A w s)"
  unfolding tenant_do_singles [of A w s] using admissible_singles tenants_ok_singles by blast

lemma tenant_do_annex:
  assumes "tenants_ok s" and "k \<notin> A" and "\<forall>a. w \<noteq> WriteIndex a"
  shows "repo_annex k (tenant_do A w s) = repo_annex k s"
proof -
  have "repo_annex k (fold (tenant_do A) vs s) = repo_annex k s"
    if "tenants_ok s" "\<forall>v\<in>set vs. single v \<and> admissible_write v \<and> (\<forall>a. v \<noteq> WriteIndex a)" for vs s
    using that assms(2) by (induction vs arbitrary: s) (simp_all add: tenant_do_annex_single tenants_ok_single)
  moreover have "admissible_write w" using assms(3) by (cases w) simp_all
  ultimately show ?thesis
    using assms(1,3) admissible_singles [of w] singles_index [of _ w] unfolding tenant_do_singles [of A w s] by metis
qed

lemma NewGraphStore_tenants_ok: "inj uuids \<Longrightarrow> \<forall>n. uuids n \<noteq> [] \<Longrightarrow> tenants_ok (NewGraphStore uuids)"
  by (simp add: tenants_ok_def NewGraphStore_wf) (simp add: NewGraphStore_def table_ok_def lists_own_def slice_at_simps)

interpretation tenant_history: invariant_steps "\<lambda>(A, w). tenant_do A w" "\<lambda>(A, w). admissible_write w" tenants_ok
  by unfold_locales (auto simp: tenants_ok_step)

text \<open>What others keep of one repository through the writes of a tenant that does not own it.\<close>

definition repo_stock :: "string \<Rightarrow> GraphStore \<Rightarrow> (string \<rightharpoonup> StoredRequirement) \<times> (string \<rightharpoonup> DiscoveredRequirement) \<times> ImpactReport list" where
  "repo_stock k s = (own_rows {k} rqRepoID (gsRequirements s), own_rows {k} drRepoID (gsDiscovered s), slice_at (gsImpactReports s) k)"

lemma tenant_do_stock:
  assumes ok: "tenants_ok s" and k: "k \<notin> A" "gsRepos s k \<noteq> None" and w: "admissible_write w"
  shows "repo_view k (tenant_do A w s) = repo_view k s" and "repo_stock k (tenant_do A w s) = repo_stock k s"
proof (atomize(full), cases "\<exists>a. w = WriteIndex a")
  case False
  then have "\<forall>a. w \<noteq> WriteIndex a" by blast
  then show "repo_view k (tenant_do A w s) = repo_view k s \<and> repo_stock k (tenant_do A w s) = repo_stock k s"
    using tenant_do_view tenant_do_annex [OF ok k(1)] by (simp add: repo_annex_def repo_stock_def)
next
  case True
  then obtain a where a: "w = WriteIndex a" by blast
  show "repo_view k (tenant_do A w s) = repo_view k s \<and> repo_stock k (tenant_do A w s) = repo_stock k s"
  proof (cases "op_allowed A a")
    case True
    then have other: "names_repo a \<noteq> Some k" using k(1) by (auto simp: op_allowed_def hasAccess_def)
    have "repo_view k (index_step a s) = repo_view k s"
      using index_step_view [OF _ k(2) _ other] ok w a by (simp add: tenants_ok_def)
    then show ?thesis using True index_step_annex [OF ok other] by (simp add: a tenant_do_index repo_stock_def)
  qed (simp add: a tenant_do_index)
qed

interpretation tenant_outside: view_keepers "tenant_do A" "\<lambda>w. k \<notin> A \<and> admissible_write w"
    "\<lambda>s. tenants_ok s \<and> gsRepos s k \<noteq> None" "\<lambda>s. (repo_view k s, repo_stock k s)" for A k
proof
  fix s w assume "tenants_ok s \<and> gsRepos s k \<noteq> None" "k \<notin> A \<and> admissible_write w"
  then have ok: "tenants_ok s" "k \<notin> A" "gsRepos s k \<noteq> None" "admissible_write w" by simp_all
  show "(repo_view k (tenant_do A w s), repo_stock k (tenant_do A w s)) = (repo_view k s, repo_stock k s)"
    using tenant_do_stock [OF ok] by simp
  then have "gsRepos (tenant_do A w s) k = gsRepos s k" by (simp add: repo_view_def GetRepository_def)
  then show "tenants_ok (tenant_do A w s) \<and> gsRepos (tenant_do A w s) k \<noteq> None" using tenants_ok_step ok by simp
qed

interpretation tenant_links: view_keepers "tenant_do A" "\<lambda>w. k \<notin> A \<and> (\<forall>a. w \<noteq> WriteIndex a)" tenants_ok
    "\<lambda>s. own_rows {k} slRepoID (gsLinks s)" for A k
proof
  fix s w assume ok: "tenants_ok s" and w: "k \<notin> A \<and> (\<forall>a. w \<noteq> WriteIndex a)"
  then have "admissible_write w" by (cases w) simp_all
  then show "tenants_ok (tenant_do A w s)" by (rule tenants_ok_step [OF ok])
  show "own_rows {k} slRepoID (gsLinks (tenant_do A w s)) = own_rows {k} slRepoID (gsLinks s)"
    using tenant_do_annex [OF ok] w by (simp add: repo_annex_def)
qed

section \<open>Isolation of tenants\<close>

text \<open>The store after writes by any tenants, each through its own filter.\<close>

definition after_writes :: "(nat \<Rightarrow> string) \<Rightarrow> (tenant \<times> tenant_write) list \<Rightarrow> GraphStore" where
  "after_writes uuids ws = fold (\<lambda>(A, w). tenant_do A w) ws (NewGraphStore uuids)"

lemma after_writes_ok:
  assumes "inj uuids" and "\<forall>n. uuids n \<noteq> []" and "\<forall>(A, w)\<in>set ws. admissible_write w"
  shows "tenants_ok (after_writes uuids ws)"
  unfolding after_writes_def
  by (rule tenant_history.history_inv [OF NewGraphStore_tenants_ok [OF assms(1,2)]]) (use assms(3) in auto)

lemma GetRepositoryByPath_visible:
  assumes "\<forall>r \<in> ran (gsRepos s). grPath r = p \<longrightarrow> grID r \<in> A" and "\<forall>i r. gsRepos s i = Some r \<longrightarrow> grID r = i"
  shows "GetRepositoryByPath ks p (visible A s) = GetRepositoryByPath ks p s"
proof -
  have "List.find (\<lambda>r. grPath r = p) (range_vals (gsRepos s |` A) ks) = List.find (\<lambda>r. grPath r = p) (range_vals (gsRepos s) ks)"
  proof (induction ks)
    case (Cons k ks)
    show ?case
    proof (cases "k \<in> A")
      case False
      then have "gsRepos s k = Some r \<longrightarrow> grPath r \<noteq> p" for r using assms by (auto simp: ran_def)
      with False Cons show ?thesis by (cases "gsRepos s k") (auto simp: range_vals_def)
    qed (use Cons in \<open>cases "gsRepos s k"; auto simp: range_vals_def\<close>)
  qed (simp add: range_vals_def)
  then show ?thesis by (simp add: GetRepositoryByPath_def)
qed

lemma by_path_is_own:
  "TenantGetRepositoryByPath A ks p s = Some r \<Longrightarrow> grID r \<in> A \<and> grPath r = p"
  by (auto simp: TenantGetRepositoryByPath_def GetRepositoryByPath_def hasAccess_def find_Some_iff split: option.splits if_splits)

text \<open>
  C8: A tenant sees only its own repositories. Let \<open>A\<close> be the tenant's repositories (the empty id is never one).
  Whatever tenants wrote before, every gated read but the lookup by path answers as it would from a store that
  holds nothing but the rows of \<open>A\<close>, so no answer depends on a row of another tenant. The lookup by path answers
  only with a repository of \<open>A\<close> that has the path, and as from that store when no repository of another tenant
  has the same path; otherwise it may miss the tenant's own one.
\<close>

theorem tenant_sees_only_its_own:
  assumes "inj uuids" and "\<forall>n. uuids n \<noteq> []" and "\<forall>(B, w)\<in>set ws. admissible_write w" and "[] \<notin> A"
  defines "s \<equiv> after_writes uuids ws"
  shows "tenant_ask env A q (visible A s) = tenant_ask env A q s
    \<and> (\<forall>r. TenantGetRepositoryByPath A ks p s = Some r \<longrightarrow> grID r \<in> A \<and> grPath r = p)
    \<and> ((\<forall>r \<in> ran (gsRepos s). grPath r = p \<longrightarrow> grID r \<in> A) \<longrightarrow>
         TenantGetRepositoryByPath A ks p (visible A s) = TenantGetRepositoryByPath A ks p s)"
proof -
  have ok: "tenants_ok s" unfolding s_def by (rule after_writes_ok [OF assms(1-3)])
  show ?thesis
    using tenant_ask_visible [OF ok assms(4)] by_path_is_own GetRepositoryByPath_visible [OF _ tenants_okD(8) [OF ok]]
    by (auto simp: TenantGetRepositoryByPath_def)
qed

text \<open>
  C9: What a tenant writes stays inside its repositories: any number of writes through the filtered store, single
  or in batches, gated or not, leaves every registered repository outside its set with its record, files, symbols
  and calls, and with its requirements, discovered requirements and impact reports; and with its links, when no
  index is rewritten. (Usage, embedding and review rows, which the filter lets anyone write, are not among these.)
\<close>

theorem tenant_writes_stay_inside:
  assumes "inj uuids" and "\<forall>n. uuids n \<noteq> []" and "\<forall>(B, w)\<in>set hs. admissible_write w"
    and "k \<notin> A" and "GetRepository k (after_writes uuids hs) \<noteq> None" and "\<forall>w\<in>set ws. admissible_write w"
    and s': "s' = after_writes uuids (hs @ map (Pair A) ws)"
  shows "repo_view k s' = repo_view k (after_writes uuids hs) \<and> repo_stock k s' = repo_stock k (after_writes uuids hs)
     \<and> ((\<forall>a. WriteIndex a \<notin> set ws) \<longrightarrow>
          own_rows {k} slRepoID (gsLinks s') = own_rows {k} slRepoID (gsLinks (after_writes uuids hs)))"
proof -
  define s where "s = after_writes uuids hs"
  have ok: "tenants_ok s" unfolding s_def by (rule after_writes_ok [OF assms(1-3)])
  have run: "s' = fold (tenant_do A) ws s" by (simp add: s' s_def after_writes_def fold_map o_def)
  have "(repo_view k (fold (tenant_do A) ws s), repo_stock k (fold (tenant_do A) ws s)) = (repo_view k s, repo_stock k s)"
    by (rule tenant_outside.history_view) (use ok assms(4-6) in \<open>simp_all add: GetRepository_def s_def\<close>)
  moreover have "own_rows {k} slRepoID (gsLinks (fold (tenant_do A) ws s)) = own_rows {k} slRepoID (gsLinks s)"
    if "\<forall>a. WriteIndex a \<notin> set ws"
    by (rule tenant_links.history_view) (use ok assms(4) that in auto)
  ultimately show ?thesis by (simp add: run s_def)
qed

text \<open>Two tenants, each with a repository; the first stores a requirement and indexes its code.\<close>

definition owned_requirement :: StoredRequirement where
  "owned_requirement = \<lparr>rqID = [], rqRepoID = [], rqExternalID = ''R1'', rqTitle = ''t'', rqDescription = [], rqSource = [],
     rqPriority = [], rqTags = [], rqAcceptanceCriteria = [], rqCreatedAt = 0, rqUpdatedAt = 0\<rparr>"

definition two_tenants :: "(tenant \<times> tenant_write) list" where
  "two_tenants = [({}, WriteIndex (OpCreate 1 ''r'' ''p'')), ({}, WriteIndex (OpCreate 2 ''q'' ''o'')),
     ({''uu''}, WriteRequirement 3 ''uu'' owned_requirement)]"

lemma two_tenants_admissible: "\<forall>(B, w)\<in>set two_tenants. admissible_write w"
  by (simp add: two_tenants_def)

lemma two_tenants_repos: "GetRepository ''uu'' (after_writes demo_uuids two_tenants) \<noteq> None"
  by (simp add: two_tenants_def after_writes_def tenant_do_index op_allowed_def CreateRepository_def graph_NewString_def
      TenantStoreRequirement_def StoreRequirement_def hasAccess_def NewGraphStore_def GetRepository_def Let_def demo_uuids_def)

theorem tenant_sees_only_its_own_witness:
  "tenant_ask \<lparr>enSymbols = id, enDiscovered = id, enWide = (\<lambda>_. False)\<rparr> {''u''} (ReadRequirement ''uuu'')
       (visible {''u''} (after_writes demo_uuids two_tenants))
     = tenant_ask \<lparr>enSymbols = id, enDiscovered = id, enWide = (\<lambda>_. False)\<rparr> {''u''} (ReadRequirement ''uuu'')
       (after_writes demo_uuids two_tenants)"
  by (rule tenant_sees_only_its_own [OF demo_uuids_ok two_tenants_admissible, THEN conjunct1]) simp

theorem tenant_writes_stay_inside_witness:
  "repo_stock ''uu'' (after_writes demo_uuids (two_tenants @ [({''u''}, WriteIndex (OpReplace 4 ''u'' demo_old)),
       ({''u''}, WriteRequirementPatch [] 5 ''uuu'' \<lparr>upExternalID = None, upTitle = Some ''x'', upDescription = None,
          upPriority = None, upSource = None, upTags = None, upAcceptanceCriteria = None\<rparr>)]))
     = repo_stock ''uu'' (after_writes demo_uuids two_tenants)"
  using tenant_writes_stay_inside [OF demo_uuids_ok two_tenants_admissible _ two_tenants_repos _ refl,
      of "{''u''}" "[WriteIndex (OpReplace 4 ''u'' demo_old), WriteRequirementPatch [] 5 ''uuu'' \<lparr>upExternalID = None,
        upTitle = Some ''x'', upDescription = None, upPriority = None, upSource = None, upTags = None,
        upAcceptanceCriteria = None\<rparr>]"]
  by (simp add: demo_results_ok)

end
