(* ===== verification/Go_Path.thy ===== *)
theory Go_Path
  imports Go_Strings
begin

text \<open>
  Go's package \<^verbatim>\<open>path/filepath\<close> on Unix, as far as the indexer and the change watcher use it: cleaning,
  joining and taking paths apart. \<^verbatim>\<open>strings.Split\<close> is at a single byte.
\<close>

section \<open>Taking paths apart\<close>

fun Split :: "string \<Rightarrow> char \<Rightarrow> string list" where
  "Split [] c = [[]]"
| "Split (x # xs) c = (if x = c then [] # Split xs c else (case Split xs c of [] \<Rightarrow> [[x]] | p # ps \<Rightarrow> (x # p) # ps))"

abbreviation slash :: char where "slash \<equiv> CHR ''/''"

text \<open>\<^verbatim>\<open>filepath.Base\<close> of a path that does not end in a slash, and the last element for \<^verbatim>\<open>filepath.Ext\<close>.\<close>

definition leaf_of :: "string \<Rightarrow> string" where
  "leaf_of p = rev (takeWhile (\<lambda>c. c \<noteq> slash) (rev p))"

definition Ext :: "string \<Rightarrow> string" where
  "Ext p = (let l = leaf_of p in if CHR ''.'' \<in> set l then CHR ''.'' # rev (takeWhile (\<lambda>c. c \<noteq> CHR ''.'') (rev l)) else [])"

text \<open>\<^verbatim>\<open>filepath.Clean\<close>: one component more, on the components kept so far.\<close>

definition clean_step :: "bool \<Rightarrow> string \<Rightarrow> string list \<Rightarrow> string list" where
  "clean_step rooted c acc =
     (if c = [] \<or> c = ''.'' then acc
      else if c = ''..'' then (if acc \<noteq> [] \<and> last acc \<noteq> ''..'' then butlast acc
                               else if rooted then acc else acc @ [''..''])
      else acc @ [c])"

definition Clean :: "string \<Rightarrow> string" where
  "Clean p = (if p = [] then ''.''
     else let rooted = (hd p = slash); body = Join (fold (clean_step rooted) (Split p slash) []) ''/''
          in if rooted then slash # body else if body = [] then ''.'' else body)"

definition Dir :: "string \<Rightarrow> string" where
  "Dir p = Clean (take (length p - length (leaf_of p)) p)"

definition filepath_Join :: "string \<Rightarrow> string \<Rightarrow> string" where
  "filepath_Join a b = (let parts = filter (\<lambda>p. p \<noteq> []) [a, b] in if parts = [] then [] else Clean (Join parts ''/''))"

section \<open>Lemmas\<close>

lemma Split_nonempty [simp]: "Split s c \<noteq> []"
  by (induction s) (auto split: list.splits)

lemma Join_Cons: "ps \<noteq> [] \<Longrightarrow> Join (p # ps) sep = p @ sep @ Join ps sep"
  by (cases ps) auto

lemma Join_cons_char: "Join ((x # p) # ps) sep = x # Join (p # ps) sep"
  by (cases ps) auto

lemma Join_Split: "Join (Split s c) [c] = s"
proof (induction s)
  case Nil
  then show ?case by simp
next
  case (Cons x xs)
  then show ?case
    using Split_nonempty [of xs c]
    by (cases "Split xs c") (auto simp: Join_Cons Join_cons_char simp del: Split_nonempty)
qed

lemma Split_no_char: "c \<notin> set s \<Longrightarrow> Split s c = [s]"
  by (induction s) auto

lemma Split_append: "c \<notin> set a \<Longrightarrow> Split (a @ c # b) c = a # Split b c"
  by (induction a) auto

lemma Split_append_gen: "Split (s @ c # t) c = Split s c @ Split t c"
proof (induction s)
  case (Cons x xs)
  then show ?case using Split_nonempty [of xs c] by (cases "Split xs c") auto
qed simp

lemma Split_parts: "p \<in> set (Split s c) \<Longrightarrow> c \<notin> set p"
proof (induction s arbitrary: p)
  case (Cons x xs)
  then show ?case using Split_nonempty [of xs c] by (cases "Split xs c") (auto split: if_splits)
qed simp

lemma takeWhile_absent:
  assumes "c \<notin> set l"
  shows "takeWhile (\<lambda>x. x \<noteq> c) l = l" "takeWhile (\<lambda>x. x \<noteq> c) (l @ c # r) = l"
  using assms by (induction l) auto

lemma leaf_of_no_slash: "slash \<notin> set l \<Longrightarrow> leaf_of l = l"
  by (simp add: leaf_of_def takeWhile_absent)

lemma leaf_of_append: "slash \<notin> set l \<Longrightarrow> leaf_of (a @ slash # l) = l"
  by (simp add: leaf_of_def takeWhile_absent)

lemma last_Split: "last (Split s slash) = leaf_of s"
proof (induction s rule: rev_induct)
  case Nil
  then show ?case by (simp add: leaf_of_def)
next
  case (snoc x xs)
  show ?case
  proof (cases "x = slash")
    case True
    then show ?thesis by (simp add: Split_append_gen leaf_of_def)
  next
    case False
    have "Split (xs @ [x]) slash = butlast (Split xs slash) @ [last (Split xs slash) @ [x]]"
    proof (induction xs)
      case (Cons y ys)
      then show ?case using False Split_nonempty [of ys slash] by (cases "Split ys slash") (auto split: if_splits)
    qed (use False in simp)
    then show ?thesis using snoc False by (simp add: leaf_of_def)
  qed
qed

lemma Ext_leaf: "slash \<notin> set l \<Longrightarrow> Ext (a @ slash # l) = Ext l"
  by (simp add: Ext_def leaf_of_append leaf_of_no_slash)

end
