(* ===== verification/Index_Calls.thy ===== *)
theory Index_Calls
  imports Graph_Model Go_Path
begin

text \<open>
  How the indexer resolves call sites to symbols (\<^verbatim>\<open>resolveCallGraph\<close>, \<^verbatim>\<open>resolveTestLinkage\<close> and
  \<^verbatim>\<open>resolveCallTargetScoped\<close> of \<^verbatim>\<open>internal/indexer/indexer.go\<close>). A symbol id is a text; the sets of keys
  \<^verbatim>\<open>caller:target\<close> already emitted are sets of texts, as in the code.
\<close>

section \<open>Candidates\<close>

record symbolEntry =
  seID :: string
  seFilePath :: string
  seDir :: string

abbreviation SymbolTest :: SymbolKind where "SymbolTest \<equiv> ''test''"

definition entry_of :: "FileResult \<Rightarrow> Symbol \<Rightarrow> symbolEntry" where
  "entry_of f y = \<lparr>seID = syID y, seFilePath = syFilePath y, seDir = Dir (frPath f)\<rparr>"

text \<open>The slice that the name index holds for one name, for the symbols that satisfy \<open>keep\<close>.\<close>

definition nameIndex :: "(Symbol \<Rightarrow> bool) \<Rightarrow> FileResult list \<Rightarrow> string \<Rightarrow> symbolEntry list" where
  "nameIndex keep files name =
     concat (map (\<lambda>f. map (entry_of f) (filter (\<lambda>y. keep y \<and> syName y = name) (frSymbols f))) files)"

definition is_callable :: "Symbol \<Rightarrow> bool" where
  "is_callable y \<longleftrightarrow> syKind y = SymbolFunction \<or> syKind y = SymbolMethod \<or> syKind y = SymbolTest"

definition is_tested :: "Symbol \<Rightarrow> bool" where
  "is_tested y \<longleftrightarrow> \<not> syIsTest y \<and> (syKind y = SymbolFunction \<or> syKind y = SymbolMethod)"

definition resolveCallTargetScoped :: "string \<Rightarrow> string \<Rightarrow> string \<Rightarrow> symbolEntry list \<Rightarrow> string" where
  "resolveCallTargetScoped callerID callerFilePath callerDir candidates =
     (let filtered = filter (\<lambda>c. seID c \<noteq> callerID) candidates
      in if filtered = [] then []
         else let sameFile = filter (\<lambda>c. seFilePath c = callerFilePath) filtered
           in if length sameFile = 1 then seID (sameFile ! 0)
              else let samePackage = filter (\<lambda>c. seDir c = callerDir) filtered
                in if length samePackage = 1 then seID (samePackage ! 0)
                   else if length filtered = 1 then seID (filtered ! 0)
                   else [])"

section \<open>Relations\<close>

type_synonym edges = "string set \<times> Relation list"

text \<open>The end of both loops: nothing for no target or a self-call, and no edge twice.\<close>

definition add_edge :: "RelationType \<Rightarrow> string \<Rightarrow> string \<Rightarrow> edges \<Rightarrow> edges" where
  "add_edge type callerID target st = (case st of (seen, relations) \<Rightarrow>
     if target = [] \<or> target = callerID then (seen, relations)
     else let key = callerID @ '':'' @ target
       in if key \<in> seen then (seen, relations)
          else (insert key seen, relations @ [\<lparr>rlSourceID = callerID, rlTargetID = target, rlType = type\<rparr>]))"

definition call_target :: "FileResult list \<Rightarrow> string \<Rightarrow> CallSite \<Rightarrow> string" where
  "call_target files callerDir call =
     (let candidates = nameIndex is_callable files (csCalleeName call)
      in if candidates = [] then []
         else resolveCallTargetScoped (csCallerID call) (csFilePath call) callerDir candidates)"

definition call_sites :: "FileResult list \<Rightarrow> (string \<times> CallSite) list" where
  "call_sites files = concat (map (\<lambda>f. map (\<lambda>call. (Dir (frPath f), call)) (frCalls f)) files)"

definition resolveCallGraph :: "FileResult list \<Rightarrow> Relation list" where
  "resolveCallGraph files =
     snd (fold (\<lambda>(dir, call). add_edge RelationCalls (csCallerID call) (call_target files dir call))
            (call_sites files) ({}, []))"

definition byID :: "FileResult list \<Rightarrow> string \<rightharpoonup> Symbol" where
  "byID files = fold (\<lambda>y m. m(syID y \<mapsto> y)) (concat (map frSymbols files)) Map.empty"

definition test_target :: "FileResult list \<Rightarrow> string \<Rightarrow> CallSite \<Rightarrow> string" where
  "test_target files callerDir call = (case byID files (csCallerID call) of
       None \<Rightarrow> []
     | Some caller \<Rightarrow>
         if \<not> syIsTest caller then []
         else let candidates = nameIndex is_tested files (csCalleeName call)
           in if candidates = [] then []
              else let target = resolveCallTargetScoped (csCallerID call) (csFilePath call) callerDir candidates
                in if target = [] \<or> target = csCallerID call then []
                   else case byID files target of
                       Some tsym \<Rightarrow> if syIsTest tsym then [] else target
                     | None \<Rightarrow> target)"

definition resolveTestLinkage :: "FileResult list \<Rightarrow> Relation list" where
  "resolveTestLinkage files =
     snd (fold (\<lambda>(dir, call). add_edge RelationTests (csCallerID call) (test_target files dir call))
            (call_sites files) ({}, []))"

section \<open>The loops\<close>

definition edge_of :: "Relation \<Rightarrow> string \<times> string" where
  "edge_of r = (rlSourceID r, rlTargetID r)"

definition seen_keys :: "edges \<Rightarrow> bool" where
  "seen_keys st \<longleftrightarrow> fst st = (\<lambda>r. rlSourceID r @ '':'' @ rlTargetID r) ` set (snd st)
     \<and> (\<forall>r\<in>set (snd st). CHR '':'' \<notin> set (rlSourceID r))
     \<and> distinct (map edge_of (snd st))"

lemma key_inj:
  assumes "CHR '':'' \<notin> set a" "CHR '':'' \<notin> set c" "a @ '':'' @ b = c @ '':'' @ d"
  shows "a = c \<and> b = d"
proof -
  have "takeWhile (\<lambda>x. x \<noteq> CHR '':'') (a @ CHR '':'' # b) = takeWhile (\<lambda>x. x \<noteq> CHR '':'') (c @ CHR '':'' # d)"
    using assms(3) by simp
  then have "a = c" unfolding takeWhile_absent(2) [OF assms(1)] takeWhile_absent(2) [OF assms(2)] .
  then show ?thesis using assms(3) by simp
qed

lemma add_edge_inv:
  assumes inv: "seen_keys st" and caller: "CHR '':'' \<notin> set callerID"
  shows "seen_keys (add_edge type callerID target st)"
    "edge_of ` set (snd (add_edge type callerID target st))
       = edge_of ` set (snd st) \<union> (if target = [] \<or> target = callerID then {} else {(callerID, target)})"
    "(\<forall>r\<in>set (snd st). rlType r = type) \<Longrightarrow> \<forall>r\<in>set (snd (add_edge type callerID target st)). rlType r = type"
proof -
  obtain seen rels where st: "st = (seen, rels)" by (cases st)
  have mem: "callerID @ '':'' @ target \<in> seen \<longleftrightarrow> (callerID, target) \<in> edge_of ` set rels"
  proof
    assume "callerID @ '':'' @ target \<in> seen"
    then obtain r where r: "r \<in> set rels" "callerID @ '':'' @ target = rlSourceID r @ '':'' @ rlTargetID r"
      using inv by (auto simp: seen_keys_def st)
    then have "callerID = rlSourceID r \<and> target = rlTargetID r"
      using key_inj [OF caller _ r(2)] inv by (simp add: seen_keys_def st)
    then show "(callerID, target) \<in> edge_of ` set rels" using r(1) by (auto simp: edge_of_def)
  next
    assume "(callerID, target) \<in> edge_of ` set rels"
    then show "callerID @ '':'' @ target \<in> seen" using inv by (auto simp: seen_keys_def st edge_of_def)
  qed
  show "seen_keys (add_edge type callerID target st)"
    using inv caller mem by (auto simp: seen_keys_def st add_edge_def Let_def edge_of_def)
  show "edge_of ` set (snd (add_edge type callerID target st))
       = edge_of ` set (snd st) \<union> (if target = [] \<or> target = callerID then {} else {(callerID, target)})"
    using mem by (auto simp: st add_edge_def Let_def edge_of_def)
  show "(\<forall>r\<in>set (snd st). rlType r = type) \<Longrightarrow> \<forall>r\<in>set (snd (add_edge type callerID target st)). rlType r = type"
    by (auto simp: st add_edge_def Let_def)
qed

text \<open>What either loop emits, for any way of choosing targets.\<close>

definition edge_loop :: "RelationType \<Rightarrow> (string \<times> CallSite \<Rightarrow> string) \<Rightarrow> (string \<times> CallSite) list \<Rightarrow> edges \<Rightarrow> edges" where
  "edge_loop type pick sites = fold (\<lambda>site. add_edge type (csCallerID (snd site)) (pick site)) sites"

lemma edge_loop_emits:
  assumes "seen_keys st" "\<forall>site\<in>set sites. CHR '':'' \<notin> set (csCallerID (snd site))" "\<forall>r\<in>set (snd st). rlType r = type"
  shows "seen_keys (edge_loop type pick sites st)
    \<and> edge_of ` set (snd (edge_loop type pick sites st)) = edge_of ` set (snd st)
        \<union> {(csCallerID (snd site), pick site) | site. site \<in> set sites \<and> pick site \<noteq> [] \<and> pick site \<noteq> csCallerID (snd site)}
    \<and> (\<forall>r\<in>set (snd (edge_loop type pick sites st)). rlType r = type)"
  using assms
proof (induction sites arbitrary: st)
  case Nil
  then show ?case by (simp add: edge_loop_def)
next
  case (Cons site sites)
  let ?st = "add_edge type (csCallerID (snd site)) (pick site) st"
  have c: "CHR '':'' \<notin> set (csCallerID (snd site))" using Cons.prems(2) by simp
  note step = add_edge_inv [OF Cons.prems(1) c]
  have "edge_loop type pick (site # sites) st = edge_loop type pick sites ?st" by (simp add: edge_loop_def)
  moreover note Cons.IH [OF step(1) _ step(3) [OF Cons.prems(3)]]
  ultimately show ?case using Cons.prems(2) step(2) by (cases site) auto
qed

lemma loops_are_edge_loops:
  "resolveCallGraph files = snd (edge_loop RelationCalls (\<lambda>(dir, call). call_target files dir call) (call_sites files) ({}, []))"
  "resolveTestLinkage files = snd (edge_loop RelationTests (\<lambda>(dir, call). test_target files dir call) (call_sites files) ({}, []))"
  by (simp_all add: resolveCallGraph_def resolveTestLinkage_def edge_loop_def case_prod_unfold)

section \<open>Scoped resolution\<close>

text \<open>The ids of the symbols other than the caller that a call may mean, in the scope \<open>P\<close>.\<close>

definition callees ::
  "(Symbol \<Rightarrow> bool) \<Rightarrow> FileResult list \<Rightarrow> CallSite \<Rightarrow> (FileResult \<Rightarrow> Symbol \<Rightarrow> bool) \<Rightarrow> string set" where
  "callees keep files call P = {syID y | f y. f \<in> set files \<and> y \<in> set (frSymbols f) \<and> keep y
     \<and> syName y = csCalleeName call \<and> syID y \<noteq> csCallerID call \<and> P f y}"

text \<open>The target is the only candidate of the file, else of the directory, else of the repository.\<close>

definition scoped_target :: "(Symbol \<Rightarrow> bool) \<Rightarrow> FileResult list \<Rightarrow> string \<Rightarrow> CallSite \<Rightarrow> string \<Rightarrow> bool" where
  "scoped_target keep files dir call t \<longleftrightarrow>
     (let same_file = callees keep files call (\<lambda>_ y. syFilePath y = csFilePath call);
          same_dir = callees keep files call (\<lambda>f _. Dir (frPath f) = dir);
          anywhere = callees keep files call (\<lambda>_ _. True)
      in if is_singleton same_file then same_file = {t}
         else if is_singleton same_dir then same_dir = {t}
         else anywhere = {t})"

lemma single_hit:
  assumes "distinct (map g xs)"
  shows "length xs = 1 \<longleftrightarrow> is_singleton (g ` set xs)" "length xs = 1 \<Longrightarrow> g ` set xs = {t} \<longleftrightarrow> g (xs ! 0) = t"
proof -
  have "card (g ` set xs) = length xs" using assms by (metis distinct_card length_map list.set_map)
  then show "length xs = 1 \<longleftrightarrow> is_singleton (g ` set xs)" by (simp add: is_singleton_altdef)
  show "length xs = 1 \<Longrightarrow> g ` set xs = {t} \<longleftrightarrow> g (xs ! 0) = t" by (cases xs) auto
qed

definition all_symbols :: "FileResult list \<Rightarrow> Symbol list" where
  "all_symbols files = concat (map frSymbols files)"

lemma nameIndex_ids: "map seID (nameIndex keep files name) = map syID (filter (\<lambda>y. keep y \<and> syName y = name) (all_symbols files))"
  unfolding nameIndex_def all_symbols_def by (induction files) (simp_all add: entry_of_def comp_def)

lemma nameIndex_entries: "c \<in> set (nameIndex keep files name)
    \<longleftrightarrow> (\<exists>f y. f \<in> set files \<and> y \<in> set (frSymbols f) \<and> keep y \<and> syName y = name \<and> c = entry_of f y)"
  unfolding nameIndex_def by auto

lemma filtered_callees:
  assumes "\<And>f y. Q (entry_of f y) \<longleftrightarrow> P f y"
  shows "seID ` set (filter Q (filter (\<lambda>c. seID c \<noteq> csCallerID call) (nameIndex keep files (csCalleeName call))))
    = callees keep files call P"
proof -
  let ?xs = "filter Q (filter (\<lambda>c. seID c \<noteq> csCallerID call) (nameIndex keep files (csCalleeName call)))"
  have id: "seID (entry_of f y) = syID y" for f y by (simp add: entry_of_def)
  have "set ?xs = {entry_of f y | f y. f \<in> set files \<and> y \<in> set (frSymbols f) \<and> keep y
      \<and> syName y = csCalleeName call \<and> syID y \<noteq> csCallerID call \<and> P f y}"
    by (auto simp: nameIndex_entries assms id) blast
  then have "seID ` set ?xs = seID ` {entry_of f y | f y. f \<in> set files \<and> y \<in> set (frSymbols f) \<and> keep y
      \<and> syName y = csCalleeName call \<and> syID y \<noteq> csCallerID call \<and> P f y}" by simp
  also have "\<dots> = {seID (entry_of f y) | f y. f \<in> set files \<and> y \<in> set (frSymbols f) \<and> keep y
      \<and> syName y = csCalleeName call \<and> syID y \<noteq> csCallerID call \<and> P f y}" by blast
  finally show ?thesis by (simp add: callees_def id)
qed

lemma resolve_is_scoped:
  assumes ids: "distinct (map syID (all_symbols files))" and named: "[] \<notin> syID ` set (all_symbols files)"
  shows "t \<noteq> [] \<and> resolveCallTargetScoped (csCallerID call) (csFilePath call) dir (nameIndex keep files (csCalleeName call)) = t
    \<longleftrightarrow> scoped_target keep files dir call t"
proof -
  let ?all = "filter (\<lambda>c. seID c \<noteq> csCallerID call) (nameIndex keep files (csCalleeName call))"
  let ?file = "filter (\<lambda>c. seFilePath c = csFilePath call) ?all"
  let ?dir = "filter (\<lambda>c. seDir c = dir) ?all"
  have once: "distinct (map seID (nameIndex keep files (csCalleeName call)))"
    unfolding nameIndex_ids using ids by (rule distinct_map_filter)
  then have all1: "distinct (map seID ?all)" by (rule distinct_map_filter)
  then have file1: "distinct (map seID ?file)" and dir1: "distinct (map seID ?dir)" by (rule distinct_map_filter)+
  have fs: "seID ` set ?file = callees keep files call (\<lambda>_ y. syFilePath y = csFilePath call)"
    by (rule filtered_callees) (simp add: entry_of_def)
  have ds: "seID ` set ?dir = callees keep files call (\<lambda>f _. Dir (frPath f) = dir)"
    by (rule filtered_callees) (simp add: entry_of_def)
  have alls: "seID ` set ?all = callees keep files call (\<lambda>_ _. True)"
    using filtered_callees [of "\<lambda>_. True" "\<lambda>_ _. True" call keep files] by simp
  have named: "[] \<notin> callees keep files call P" for P
    using named unfolding callees_def all_symbols_def by force
  have some: "callees keep files call P \<noteq> {[]}" for P using named [of P] by auto
  have target: "resolveCallTargetScoped (csCallerID call) (csFilePath call) dir (nameIndex keep files (csCalleeName call)) =
      (if length ?file = 1 then seID (?file ! 0) else if length ?dir = 1 then seID (?dir ! 0)
       else if length ?all = 1 then seID (?all ! 0) else [])"
    unfolding resolveCallTargetScoped_def Let_def by (cases "?all = []") simp_all
  consider (F) "length ?file = 1" | (D) "length ?file \<noteq> 1" "length ?dir = 1"
    | (A) "length ?file \<noteq> 1" "length ?dir \<noteq> 1" by blast
  then show ?thesis
  proof cases
    case F
    then have "is_singleton (callees keep files call (\<lambda>_ y. syFilePath y = csFilePath call))"
      using single_hit(1) [OF file1] fs by simp
    then show ?thesis using single_hit(2) [OF file1 F, of t] fs target F some by (auto simp: scoped_target_def)
  next
    case D
    then have "\<not> is_singleton (callees keep files call (\<lambda>_ y. syFilePath y = csFilePath call))"
        "is_singleton (callees keep files call (\<lambda>f _. Dir (frPath f) = dir))"
      using single_hit(1) [OF file1] single_hit(1) [OF dir1] fs ds by simp_all
    then show ?thesis using single_hit(2) [OF dir1 D(2), of t] ds target D some by (auto simp: scoped_target_def)
  next
    case A
    then have no: "\<not> is_singleton (callees keep files call (\<lambda>_ y. syFilePath y = csFilePath call))"
        "\<not> is_singleton (callees keep files call (\<lambda>f _. Dir (frPath f) = dir))"
      using single_hit(1) [OF file1] single_hit(1) [OF dir1] fs ds by simp_all
    show ?thesis
    proof (cases "length ?all = 1")
      case True
      then show ?thesis using single_hit(2) [OF all1 True, of t] alls target A no some by (auto simp: scoped_target_def)
    next
      case False
      then have "\<not> is_singleton (callees keep files call (\<lambda>_ _. True))" using single_hit(1) [OF all1] alls by simp
      then show ?thesis using target A no False by (auto simp: scoped_target_def is_singleton_def)
    qed
  qed
qed

lemma scoped_found:
  assumes "scoped_target keep files dir call t"
  obtains f y where "f \<in> set files" "y \<in> set (frSymbols f)" "keep y" "syID y = t" "t \<noteq> csCallerID call"
proof -
  obtain P where "callees keep files call P = {t}"
    using assms unfolding scoped_target_def Let_def by (metis (no_types))
  then have "t \<in> callees keep files call P" by simp
  then show thesis using that unfolding callees_def by blast
qed

lemma scoped_not_self: "scoped_target keep files dir call t \<Longrightarrow> t \<noteq> csCallerID call"
  by (erule scoped_found)

lemma scoped_is_candidate: "scoped_target keep files dir call t \<Longrightarrow> \<exists>y\<in>set (all_symbols files). keep y \<and> syID y = t"
  by (erule scoped_found) (auto simp: all_symbols_def)

lemma resolve_no_candidates: "resolveCallTargetScoped a b c [] = []"
  by (simp add: resolveCallTargetScoped_def)

lemma call_target_scoped:
  assumes "distinct (map syID (all_symbols files))" "[] \<notin> syID ` set (all_symbols files)"
  shows "t \<noteq> [] \<and> call_target files dir call = t \<longleftrightarrow> scoped_target is_callable files dir call t"
  using resolve_is_scoped [OF assms, of t call dir is_callable]
  by (cases "nameIndex is_callable files (csCalleeName call) = []") (simp_all add: call_target_def resolve_no_candidates Let_def)

lemma byID_symbol:
  assumes "distinct (map syID (all_symbols files))"
  shows "byID files i = Some y \<longleftrightarrow> y \<in> set (all_symbols files) \<and> syID y = i"
proof -
  have "fold (\<lambda>y m. m(syID y \<mapsto> y)) ys m i = Some y \<longleftrightarrow> (y \<in> set ys \<and> syID y = i) \<or> (i \<notin> syID ` set ys \<and> m i = Some y)"
    if "distinct (map syID ys)" for ys :: "Symbol list" and m
    using that by (induction ys arbitrary: m) auto
  from this [OF assms, of Map.empty] show ?thesis by (simp add: byID_def all_symbols_def)
qed

lemma test_target_scoped:
  assumes ids: "distinct (map syID (all_symbols files))" and named: "[] \<notin> syID ` set (all_symbols files)"
  shows "t \<noteq> [] \<and> test_target files dir call = t
    \<longleftrightarrow> (\<exists>y\<in>set (all_symbols files). syID y = csCallerID call \<and> syIsTest y) \<and> scoped_target is_tested files dir call t"
proof (cases "\<exists>y. byID files (csCallerID call) = Some y \<and> syIsTest y")
  case False
  then have "test_target files dir call = []" by (auto simp: test_target_def split: option.splits)
  then show ?thesis using False by (auto simp: byID_symbol [OF ids])
next
  case True
  then obtain caller where caller: "byID files (csCallerID call) = Some caller" "syIsTest caller" by blast
  let ?r = "resolveCallTargetScoped (csCallerID call) (csFilePath call) dir (nameIndex is_tested files (csCalleeName call))"
  have fine: "?r \<noteq> csCallerID call \<and> (case byID files ?r of Some y \<Rightarrow> \<not> syIsTest y | None \<Rightarrow> True)" if "?r \<noteq> []"
  proof -
    have s: "scoped_target is_tested files dir call ?r" using resolve_is_scoped [OF ids named, of ?r call dir is_tested] that by simp
    obtain y where y: "y \<in> set (all_symbols files)" "is_tested y" "syID y = ?r" using scoped_is_candidate [OF s] by blast
    then have "byID files ?r = Some y" by (simp add: byID_symbol [OF ids])
    then show ?thesis using scoped_not_self [OF s] y(2) by (simp add: is_tested_def)
  qed
  have "test_target files dir call = ?r"
  proof (cases "?r = []")
    case True
    then show ?thesis using caller by (simp add: test_target_def Let_def)
  next
    case False
    then have "nameIndex is_tested files (csCalleeName call) \<noteq> []" by (auto simp: resolve_no_candidates)
    then show ?thesis using caller fine [OF False] False by (auto simp: test_target_def Let_def split: option.splits)
  qed
  moreover have "\<exists>y\<in>set (all_symbols files). syID y = csCallerID call \<and> syIsTest y"
    using caller by (auto simp: byID_symbol [OF ids])
  ultimately show ?thesis using resolve_is_scoped [OF ids named, of t call dir is_tested] by simp
qed

lemma edge_loop_edges:
  assumes plain: "\<forall>f\<in>set files. \<forall>call\<in>set (frCalls f). CHR '':'' \<notin> set (csCallerID call)"
    and spec: "\<And>dir call t. t \<noteq> [] \<and> f dir call = t \<longleftrightarrow> P dir call t"
    and self: "\<And>dir call t. P dir call t \<Longrightarrow> t \<noteq> csCallerID call"
  shows "distinct (map edge_of (snd (edge_loop type (case_prod f) (call_sites files) ({}, []))))"
    "(a, b) \<in> edge_of ` set (snd (edge_loop type (case_prod f) (call_sites files) ({}, [])))
       \<longleftrightarrow> (\<exists>g call. g \<in> set files \<and> call \<in> set (frCalls g) \<and> csCallerID call = a \<and> P (Dir (frPath g)) call b)"
proof -
  have start: "seen_keys ({}, [])" by (simp add: seen_keys_def)
  have callers: "\<forall>site\<in>set (call_sites files). CHR '':'' \<notin> set (csCallerID (snd site))"
    using plain by (auto simp: call_sites_def)
  note loop = edge_loop_emits [OF start callers, of type "case_prod f"]
  show "distinct (map edge_of (snd (edge_loop type (case_prod f) (call_sites files) ({}, []))))"
    using loop by (simp add: seen_keys_def)
  have site: "(dir, call) \<in> set (call_sites files) \<longleftrightarrow> (\<exists>g. g \<in> set files \<and> call \<in> set (frCalls g) \<and> dir = Dir (frPath g))" for dir call
    by (auto simp: call_sites_def)
  have "(a, b) \<in> edge_of ` set (snd (edge_loop type (case_prod f) (call_sites files) ({}, [])))
      \<longleftrightarrow> (\<exists>dir call. (dir, call) \<in> set (call_sites files) \<and> csCallerID call = a
            \<and> (b \<noteq> [] \<and> f dir call = b) \<and> b \<noteq> csCallerID call)"
    using loop by auto
  also have "\<dots> \<longleftrightarrow> (\<exists>dir call. (dir, call) \<in> set (call_sites files) \<and> csCallerID call = a \<and> P dir call b)"
    unfolding spec using self by blast
  also have "\<dots> \<longleftrightarrow> (\<exists>g call. g \<in> set files \<and> call \<in> set (frCalls g) \<and> csCallerID call = a \<and> P (Dir (frPath g)) call b)"
    unfolding site by blast
  finally show "(a, b) \<in> edge_of ` set (snd (edge_loop type (case_prod f) (call_sites files) ({}, [])))
       \<longleftrightarrow> (\<exists>g call. g \<in> set files \<and> call \<in> set (frCalls g) \<and> csCallerID call = a \<and> P (Dir (frPath g)) call b)" .
qed

text \<open>
  C40: For distinct symbol ids the call edges are exactly the scoped resolution of the call sites, each
  once and never a self-call: the only candidate of the caller's file, else of its directory, else of
  the repository. The test edges are those whose caller is a test, resolved among the symbols that
  are not.
\<close>

theorem call_and_test_edges_are_the_scoped_resolution:
  assumes ids: "distinct (map syID (all_symbols files))" and named: "[] \<notin> syID ` set (all_symbols files)"
    and plain: "\<forall>f\<in>set files. \<forall>call\<in>set (frCalls f). CHR '':'' \<notin> set (csCallerID call)"
  shows "distinct (map edge_of (resolveCallGraph files)) \<and> distinct (map edge_of (resolveTestLinkage files))
     \<and> (\<forall>a b. (a, b) \<in> edge_of ` set (resolveCallGraph files)
          \<longleftrightarrow> (\<exists>f call. f \<in> set files \<and> call \<in> set (frCalls f) \<and> csCallerID call = a
               \<and> scoped_target is_callable files (Dir (frPath f)) call b))
     \<and> (\<forall>a b. (a, b) \<in> edge_of ` set (resolveTestLinkage files)
          \<longleftrightarrow> (\<exists>y\<in>set (all_symbols files). syID y = a \<and> syIsTest y)
            \<and> (\<exists>f call. f \<in> set files \<and> call \<in> set (frCalls f) \<and> csCallerID call = a
               \<and> scoped_target is_tested files (Dir (frPath f)) call b))"
proof -
  let ?test = "\<lambda>call. \<exists>y\<in>set (all_symbols files). syID y = csCallerID call \<and> syIsTest y"
  have calls: "distinct (map edge_of (snd (edge_loop RelationCalls (case_prod (call_target files)) (call_sites files) ({}, []))))"
    "(a, b) \<in> edge_of ` set (snd (edge_loop RelationCalls (case_prod (call_target files)) (call_sites files) ({}, [])))
       \<longleftrightarrow> (\<exists>g call. g \<in> set files \<and> call \<in> set (frCalls g) \<and> csCallerID call = a
             \<and> scoped_target is_callable files (Dir (frPath g)) call b)" for a b
    by (rule edge_loop_edges [OF plain, where P = "scoped_target is_callable files"],
        rule call_target_scoped [OF ids named], erule scoped_not_self)+
  have tests: "distinct (map edge_of (snd (edge_loop RelationTests (case_prod (test_target files)) (call_sites files) ({}, []))))"
    "(a, b) \<in> edge_of ` set (snd (edge_loop RelationTests (case_prod (test_target files)) (call_sites files) ({}, [])))
       \<longleftrightarrow> (\<exists>g call. g \<in> set files \<and> call \<in> set (frCalls g) \<and> csCallerID call = a
             \<and> ?test call \<and> scoped_target is_tested files (Dir (frPath g)) call b)" for a b
    by (rule edge_loop_edges [OF plain, where P = "\<lambda>dir call t. ?test call \<and> scoped_target is_tested files dir call t"],
        rule test_target_scoped [OF ids named], erule conjE, erule scoped_not_self)+
  show ?thesis
    unfolding loops_are_edge_loops calls(2) tests(2)
    by (intro conjI calls(1) tests(1) allI refl iffI) (auto, metis)
qed

definition demo_symbol :: "string \<Rightarrow> string \<Rightarrow> SymbolKind \<Rightarrow> string \<Rightarrow> bool \<Rightarrow> Symbol" where
  "demo_symbol i name kind path test = \<lparr>syID = i, syName = name, syQualifiedName = name, syKind = kind, syLanguage = ''go'',
     syFilePath = path, syStartLine = 1, syEndLine = 2, syStartCol = 0, syEndCol = 0, sySignature = [], syDocComment = [],
     syReceiver = [], syIsTest = test\<rparr>"

definition demo_file :: "string \<Rightarrow> Symbol list \<Rightarrow> CallSite list \<Rightarrow> FileResult" where
  "demo_file path syms calls = \<lparr>frPath = path, frLanguage = ''go'', frLineCount = 9, frContentHash = [], frSymbols = syms,
     frImports = [], frCalls = calls, frErrors = [], frAIScore = Fin 0, frAISignals = [], frGrailsRole = []\<rparr>"

text \<open>\<open>helper\<close> stands in two directories: the test of directory \<open>p\<close> means the one beside it.\<close>

definition demo_files :: "FileResult list" where
  "demo_files =
     [demo_file ''p/a.go'' [demo_symbol ''1'' ''helper'' SymbolFunction ''p/a.go'' False] [],
      demo_file ''q/a.go'' [demo_symbol ''2'' ''helper'' SymbolFunction ''q/a.go'' False] [],
      demo_file ''p/a_test.go'' [demo_symbol ''3'' ''TestHelper'' SymbolTest ''p/a_test.go'' True]
        [\<lparr>csCallerID = ''3'', csCalleeName = ''helper'', csFilePath = ''p/a_test.go'', csLine = 1\<rparr>]]"

lemma demo_files_ok:
  "distinct (map syID (all_symbols demo_files))" "[] \<notin> syID ` set (all_symbols demo_files)"
  "\<forall>f\<in>set demo_files. \<forall>call\<in>set (frCalls f). CHR '':'' \<notin> set (csCallerID call)"
  by code_simp+

lemma demo_edges: "edge_of ` set (resolveTestLinkage demo_files) = {(''3'', ''1'')}"
  by code_simp

theorem call_and_test_edges_are_the_scoped_resolution_witness:
  "\<exists>f call. f \<in> set demo_files \<and> call \<in> set (frCalls f) \<and> csCallerID call = ''3''
     \<and> scoped_target is_tested demo_files (Dir (frPath f)) call ''1''"
  using call_and_test_edges_are_the_scoped_resolution [OF demo_files_ok, THEN conjunct2, THEN conjunct2, THEN conjunct2,
      THEN spec [of _ "''3''"], THEN spec [of _ "''1''"]]
  by (simp only: demo_edges singleton_iff simp_thms)

end
