(* ===== verification/Index_Scan.thy ===== *)
theory Index_Scan
  imports Go_Path
begin

text \<open>
  Which files of a working tree are indexed (\<^verbatim>\<open>internal/git/local.go\<close>): the ignore rules, the
  languages known by extension, and the scan, with \<^verbatim>\<open>filepath.Walk\<close> as recursion over the tree.
\<close>

section \<open>Ignored paths\<close>

definition DefaultIgnorePatterns :: "string list" where
  "DefaultIgnorePatterns =
     [''.git'', ''node_modules'', ''__pycache__'', ''.venv'', ''venv'',
      ''vendor'', ''dist'', ''build'', ''.next'', ''.cache'',
      ''target'', ''bin'', ''obj'', ''.idea'', ''.vscode'',
      ''.DS_Store'', ''coverage'', ''.mypy_cache'', ''.ruff_cache'',
      ''.pytest_cache'', ''.tox'', ''gen'', ''out'']"

definition defaultIgnoreSet :: "string \<Rightarrow> bool" where
  "defaultIgnoreSet name \<longleftrightarrow> name \<in> set DefaultIgnorePatterns"

fun ignored_component :: "string list \<Rightarrow> bool" where
  "ignored_component [] = False"
| "ignored_component (part # parts) =
     (if part = [] then ignored_component parts
      else if defaultIgnoreSet part then True
      else if HasPrefix part ''.'' then True
      else ignored_component parts)"

definition IsIgnoredDir :: "string \<Rightarrow> bool" where
  "IsIgnoredDir relDir = (let clean = TrimPrefix relDir ''./''
     in if clean = [] \<or> clean = ''.'' then False else ignored_component (Split clean slash))"

definition DetectLanguage :: "string \<Rightarrow> string" where
  "DetectLanguage path = (let ext = ToLower (Ext path) in
     if ext = ''.go'' then ''go''
     else if ext = ''.py'' then ''python''
     else if ext = ''.ts'' then ''typescript''
     else if ext = ''.tsx'' then ''typescript''
     else if ext = ''.js'' then ''javascript''
     else if ext = ''.jsx'' then ''javascript''
     else if ext = ''.java'' then ''java''
     else if ext = ''.rs'' then ''rust''
     else if ext = ''.cs'' then ''csharp''
     else if ext \<in> {''.cpp'', ''.cc'', ''.cxx'', ''.c'', ''.h'', ''.hpp''} then ''cpp''
     else if ext = ''.rb'' then ''ruby''
     else if ext = ''.php'' then ''php''
     else if ext \<in> {''.groovy'', ''.gradle'', ''.gvy''} then ''groovy''
     else if ext = ''.md'' then ''markdown''
     else if ext = ''.json'' then ''json''
     else if ext \<in> {''.yaml'', ''.yml''} then ''yaml''
     else if ext = ''.toml'' then ''toml''
     else if ext = ''.csv'' then ''csv''
     else [])"

definition IsIgnoredPath :: "string \<Rightarrow> bool" where
  "IsIgnoredPath relPath = (let clean = TrimPrefix relPath ''./''
     in if clean = [] \<or> clean = ''.'' then False
        else let parts = Split clean slash
             in if ignored_component parts then True else DetectLanguage (last parts) = [])"

section \<open>The scan\<close>

record FileInfo =
  fiPath :: string
  fiAbsPath :: string
  fiLanguage :: string
  fiSize :: int

record RepoInfo =
  riName :: string
  riPath :: string
  riFiles :: "FileInfo list"

text \<open>A tree on disk, in the order in which \<^verbatim>\<open>filepath.Walk\<close> reads it; what cannot be accessed is not in it.\<close>

datatype entry = FileEntry string int | DirEntry string "entry list"

fun entry_name :: "entry \<Rightarrow> string" where
  "entry_name (FileEntry name _) = name"
| "entry_name (DirEntry name _) = name"

definition child_path :: "string \<Rightarrow> string \<Rightarrow> string" where
  "child_path rel name = (if rel = [] then name else rel @ ''/'' @ name)"

fun scan_entry :: "string \<Rightarrow> string \<Rightarrow> entry \<Rightarrow> FileInfo list" where
  "scan_entry dir rel (FileEntry name bytes) =
     (if IsIgnoredPath rel then []
      else if bytes > 2 ^ 20 then []
      else [\<lparr>fiPath = rel, fiAbsPath = filepath_Join dir rel, fiLanguage = DetectLanguage (filepath_Join dir rel), fiSize = bytes\<rparr>])"
| "scan_entry dir rel (DirEntry name entries) =
     (if defaultIgnoreSet name \<or> HasPrefix name ''.'' then []
      else concat (map (\<lambda>e. scan_entry dir (child_path rel (entry_name e)) e) entries))"

datatype scan_error = NotADirectory string

text \<open>
  What stands at the path that is scanned: the tree itself, or a symbolic link of \<open>bytes\<close> bytes to one.
  \<^verbatim>\<open>os.Stat\<close> follows the link and \<^verbatim>\<open>filepath.Walk\<close> does not: it visits the link as the one file \<^verbatim>\<open>.\<close>. Links
  below the root are files to the walk.
\<close>

datatype scan_root = PlainRoot entry | LinkedRoot string int entry

definition ScanRepository :: "string \<Rightarrow> scan_root \<Rightarrow> scan_error + RepoInfo" where
  "ScanRepository dir r = (case r of
       PlainRoot (DirEntry name entries) \<Rightarrow>
         Inr \<lparr>riName = name, riPath = dir, riFiles = scan_entry dir [] (DirEntry name entries)\<rparr>
     | LinkedRoot name bytes (DirEntry _ _) \<Rightarrow>
         Inr \<lparr>riName = name, riPath = dir,
           riFiles = (if IsIgnoredPath ''.'' then [] else if bytes > 2 ^ 20 then []
             else [\<lparr>fiPath = ''.'', fiAbsPath = dir, fiLanguage = DetectLanguage dir, fiSize = bytes\<rparr>])\<rparr>
     | _ \<Rightarrow> Inl (NotADirectory dir))"

text \<open>A repository whose path is a link is indexed as that link and nothing else.\<close>

lemma linked_root_lists_itself:
  assumes "bytes \<le> 2 ^ 20"
  shows "\<exists>repo. ScanRepository dir (LinkedRoot name bytes (DirEntry target entries)) = Inr repo
     \<and> map fiPath (riFiles repo) = [''.'']"
proof -
  have "\<not> IsIgnoredPath ''.''" by code_simp
  then show ?thesis using assms by (simp add: ScanRepository_def)
qed

section \<open>What the scan lists\<close>

text \<open>The files of a tree with their paths and sizes, whatever they are called.\<close>

fun tree_files :: "string \<Rightarrow> entry \<Rightarrow> (string \<times> int) list" where
  "tree_files rel (FileEntry name bytes) = [(rel, bytes)]"
| "tree_files rel (DirEntry name entries) = concat (map (\<lambda>e. tree_files (child_path rel (entry_name e)) e) entries)"

definition plain_name :: "string \<Rightarrow> bool" where
  "plain_name n \<longleftrightarrow> n \<noteq> [] \<and> n \<noteq> ''.'' \<and> n \<noteq> ''..'' \<and> slash \<notin> set n"

fun names_ok :: "entry \<Rightarrow> bool" where
  "names_ok (FileEntry name bytes) = plain_name name"
| "names_ok (DirEntry name entries) =
     (plain_name name \<and> distinct (map entry_name entries) \<and> list_all names_ok entries)"

lemma ignored_component_iff:
  "ignored_component parts \<longleftrightarrow> (\<exists>p\<in>set parts. p \<noteq> [] \<and> (defaultIgnoreSet p \<or> HasPrefix p ''.''))"
  by (induction parts) auto

lemma ignored_component_append [simp]: "ignored_component (a @ b) \<longleftrightarrow> ignored_component a \<or> ignored_component b"
  by (auto simp: ignored_component_iff)

lemma HasPrefix_dot: "HasPrefix n ''.'' \<longleftrightarrow> n \<noteq> [] \<and> hd n = CHR ''.''"
  by (cases n) auto


text \<open>A relative path below the root: plain names, joined by slashes.\<close>

definition rel_path :: "string \<Rightarrow> bool" where
  "rel_path rel \<longleftrightarrow> (\<forall>p\<in>set (Split rel slash). plain_name p)"

definition parts_of :: "string \<Rightarrow> string list" where
  "parts_of rel = (if rel = [] then [] else Split rel slash)"

lemma rel_path_nonempty: "rel_path rel \<Longrightarrow> rel \<noteq> []"
  by (cases rel) (simp_all add: rel_path_def plain_name_def)

lemma rel_path_child:
  assumes n: "plain_name n" and rel: "rel = [] \<or> rel_path rel"
  shows "rel_path (child_path rel n)" "Split (child_path rel n) slash = parts_of rel @ [n]"
proof -
  have one: "Split n slash = [n]" using n by (simp add: plain_name_def Split_no_char)
  then show parts: "Split (child_path rel n) slash = parts_of rel @ [n]"
    by (simp add: child_path_def parts_of_def Split_append_gen)
  show "rel_path (child_path rel n)" using n rel by (auto simp: rel_path_def parts parts_of_def)
qed

lemma rel_path_trim:
  assumes "rel_path rel"
  shows "TrimPrefix rel ''./'' = rel" "rel \<noteq> ''.''"
proof -
  have no: "''.'' \<notin> set (Split rel slash)" using assms by (auto simp: rel_path_def plain_name_def)
  have "\<not> HasPrefix rel ''./''"
  proof
    assume "HasPrefix rel ''./''"
    then obtain t where "rel = ''.'' @ slash # t" by (auto simp: HasPrefix_iff)
    then have "Split rel slash = ''.'' # Split t slash" using Split_append [of slash "''.''" t] by simp
    then show False using no by simp
  qed
  then show "TrimPrefix rel ''./'' = rel" by (simp add: TrimPrefix_def)
  show "rel \<noteq> ''.''" using no by auto
qed

lemma IsIgnoredPath_rel:
  "rel_path rel \<Longrightarrow> IsIgnoredPath rel \<longleftrightarrow> ignored_component (Split rel slash) \<or> DetectLanguage (leaf_of rel) = []"
  by (auto simp: IsIgnoredPath_def rel_path_trim rel_path_nonempty last_Split Let_def)

lemma tree_files_paths:
  assumes "names_ok e" "rel_path rel" "(p, n) \<in> set (tree_files rel e)"
  shows "rel_path p \<and> (\<exists>q. Split p slash = Split rel slash @ q)"
  using assms
proof (induction e arbitrary: rel)
  case (FileEntry name bytes)
  then show ?case by simp
next
  case (DirEntry name entries)
  then obtain x where x: "x \<in> set entries" "(p, n) \<in> set (tree_files (child_path rel (entry_name x)) x)" by auto
  have ok: "names_ok x" using DirEntry.prems(1) x(1) by (simp add: list_all_iff)
  have name: "plain_name (entry_name x)" using ok by (cases x) auto
  have sub: "rel_path (child_path rel (entry_name x))"
      "Split (child_path rel (entry_name x)) slash = Split rel slash @ [entry_name x]"
    using rel_path_child [OF name] DirEntry.prems(2) rel_path_nonempty by (auto simp: parts_of_def)
  show ?case using DirEntry.IH [OF x(1) ok sub(1) x(2)] sub(2) by auto
qed

lemma entry_name_plain: "names_ok e \<Longrightarrow> plain_name (entry_name e)"
  by (cases e) auto

definition listed :: "string \<times> int \<Rightarrow> bool" where
  "listed = (\<lambda>(p, n). \<not> IsIgnoredPath p \<and> n \<le> 2 ^ 20)"

lemma hidden_tree_lists_nothing:
  assumes "names_ok e" "rel_path rel" "ignored_component (Split rel slash)"
  shows "filter listed (tree_files rel e) = []"
proof -
  have "\<not> listed (p, n)" if listing: "(p, n) \<in> set (tree_files rel e)" for p n
  proof -
    obtain q where p: "rel_path p" "Split p slash = Split rel slash @ q" using tree_files_paths [OF assms(1,2) listing] by blast
    then show ?thesis using assms(3) by (simp add: listed_def IsIgnoredPath_rel)
  qed
  then show ?thesis by (auto simp: filter_empty_conv)
qed

lemma plain_ignored: "plain_name n \<Longrightarrow> ignored_component [n] \<longleftrightarrow> defaultIgnoreSet n \<or> HasPrefix n ''.''"
  by (auto simp: plain_name_def)

lemma scan_entry_files:
  assumes "names_ok e" "base = [] \<or> rel_path base"
  shows "map (\<lambda>f. (fiPath f, fiSize f)) (scan_entry dir (child_path base (entry_name e)) e)
    = filter listed (tree_files (child_path base (entry_name e)) e)"
  using assms
proof (induction e arbitrary: base)
  case (FileEntry name bytes)
  then show ?case by (simp add: listed_def)
next
  case (DirEntry name entries)
  let ?rel = "child_path base name"
  have name: "plain_name name" using DirEntry.prems(1) by simp
  note rel = rel_path_child [OF name DirEntry.prems(2)]
  show ?case
  proof (cases "defaultIgnoreSet name \<or> HasPrefix name ''.''")
    case True
    have "filter listed (tree_files ?rel (DirEntry name entries)) = []"
      by (rule hidden_tree_lists_nothing [OF DirEntry.prems(1) rel(1)]) (use rel(2) True name plain_ignored in simp)
    then show ?thesis using True by simp
  next
    case False
    have "map (\<lambda>f. (fiPath f, fiSize f)) (scan_entry dir (child_path ?rel (entry_name x)) x)
        = filter listed (tree_files (child_path ?rel (entry_name x)) x)" if "x \<in> set entries" for x
      by (rule DirEntry.IH [OF that]) (use DirEntry.prems(1) that rel(1) in \<open>simp_all add: list_all_iff\<close>)
    then show ?thesis using False by (simp add: map_concat filter_concat comp_def cong: map_cong)
  qed
qed

lemma fold_clean_plain:
  "\<forall>p\<in>set ps. plain_name p \<Longrightarrow> fold (clean_step rooted) ps acc = acc @ ps"
  by (induction ps arbitrary: acc) (auto simp: clean_step_def plain_name_def)

lemma Join_append: "ps \<noteq> [] \<Longrightarrow> qs \<noteq> [] \<Longrightarrow> Join (ps @ qs) sep = Join ps sep @ sep @ Join qs sep"
proof (induction ps)
  case (Cons p ps)
  then show ?case by (cases "ps = []") (simp_all add: Join_Cons)
qed simp

lemma leaf_of_Join:
  assumes rel: "rel_path rel" and dir: "dir \<noteq> []"
  shows "leaf_of (filepath_Join dir rel) = leaf_of rel"
proof -
  let ?ps = "Split rel slash"
  have plain: "\<forall>p\<in>set ?ps. plain_name p" using rel by (simp add: rel_path_def)
  have leaf: "slash \<notin> set (last ?ps)" by (rule Split_parts [of _ rel]) simp
  have ends: "leaf_of (Join (acc @ ?ps) ''/'') = last ?ps" for acc
  proof (cases "acc @ butlast ?ps = []")
    case True
    have "acc @ ?ps = (acc @ butlast ?ps) @ [last ?ps]" by simp
    then show ?thesis unfolding True using leaf leaf_of_no_slash by (metis Join.simps(2) append_Nil)
  next
    case False
    have "acc @ ?ps = (acc @ butlast ?ps) @ [last ?ps]" by simp
    then have "Join (acc @ ?ps) ''/'' = Join (acc @ butlast ?ps) ''/'' @ slash # last ?ps"
      using Join_append [OF False, of "[last ?ps]" "''/''"] by (metis Join.simps(2) append_Cons append_Nil list.distinct(1))
    then show ?thesis using leaf_of_append [OF leaf] by metis
  qed
  have "takeWhile (\<lambda>c. c \<noteq> slash) (xs @ [slash]) = takeWhile (\<lambda>c. c \<noteq> slash) xs" for xs
    by (induction xs) auto
  then have front: "leaf_of (slash # x) = leaf_of x" for x by (simp add: leaf_of_def)
  have "last ?ps \<noteq> []" using plain last_in_set [of ?ps] by (simp add: plain_name_def)
  then have "leaf_of (Join (acc @ ?ps) ''/'') \<noteq> []" for acc by (simp add: ends)
  then have filled: "Join (acc @ ?ps) ''/'' \<noteq> []" for acc by (metis leaf_of_no_slash empty_iff empty_set)
  have "fold (clean_step r) (Split (dir @ slash # rel) slash) [] = fold (clean_step r) (Split dir slash) [] @ ?ps" for r
    by (simp add: Split_append_gen fold_clean_plain [OF plain])
  then show ?thesis using dir rel_path_nonempty [OF rel] ends filled front
    by (simp add: filepath_Join_def Clean_def Let_def last_Split)
qed

lemma DetectLanguage_leaf: "DetectLanguage p = DetectLanguage (leaf_of p)"
proof -
  have "leaf_of (leaf_of p) = leaf_of p"
    by (rule leaf_of_no_slash) (metis last_Split Split_parts Split_nonempty last_in_set)
  then show ?thesis by (simp add: DetectLanguage_def Ext_def)
qed

lemma distinct_concat_tagged:
  assumes "distinct (map k es)" "\<forall>e\<in>set es. distinct (g e) \<and> (\<forall>x\<in>set (g e). tag x = k e)"
  shows "distinct (concat (map g es))"
  using assms by (induction es) (auto, metis image_eqI)

lemma tree_files_below:
  assumes ok: "names_ok e" and base: "base = [] \<or> rel_path base"
    and p: "p \<in> fst ` set (tree_files (child_path base (entry_name e)) e)"
  shows "rel_path p" "\<exists>q. Split p slash = parts_of base @ entry_name e # q"
proof -
  note sub = rel_path_child [OF entry_name_plain [OF ok] base]
  obtain n where n: "(p, n) \<in> set (tree_files (child_path base (entry_name e)) e)" using p by force
  note it = tree_files_paths [OF ok sub(1) n]
  show "rel_path p" using it by simp
  obtain q where "Split p slash = Split (child_path base (entry_name e)) slash @ q" using it by blast
  then have "Split p slash = parts_of base @ entry_name e # q" by (simp add: sub(2))
  then show "\<exists>q. Split p slash = parts_of base @ entry_name e # q" by (rule exI)
qed

lemma tree_files_distinct:
  assumes "names_ok e" "base = [] \<or> rel_path base"
  shows "distinct (map fst (tree_files (child_path base (entry_name e)) e))"
  using assms
proof (induction e arbitrary: base)
  case (FileEntry name bytes)
  then show ?case by simp
next
  case (DirEntry name entries)
  let ?rel = "child_path base name"
  have name: "plain_name name" using DirEntry.prems(1) by simp
  note rel = rel_path_child [OF name DirEntry.prems(2)]
  let ?g = "\<lambda>x. map fst (tree_files (child_path ?rel (entry_name x)) x)"
  have "distinct (?g x) \<and> (\<forall>p\<in>set (?g x). Split p slash ! (length (parts_of base) + 1) = entry_name x)"
    if x: "x \<in> set entries" for x
  proof
    have ok: "names_ok x" using DirEntry.prems(1) x by (simp add: list_all_iff)
    show "distinct (?g x)" by (rule DirEntry.IH [OF x ok]) (simp add: rel(1))
    show "\<forall>p\<in>set (?g x). Split p slash ! (length (parts_of base) + 1) = entry_name x"
    proof
      fix p assume "p \<in> set (?g x)"
      then have "p \<in> fst ` set (tree_files (child_path ?rel (entry_name x)) x)" by simp
      from tree_files_below(2) [OF ok disjI2 [OF rel(1)] this]
      obtain q where "Split p slash = parts_of ?rel @ entry_name x # q" by blast
      moreover have "length (parts_of ?rel) = length (parts_of base) + 1"
        using rel rel_path_nonempty [OF rel(1)] by (simp add: parts_of_def)
      ultimately show "Split p slash ! (length (parts_of base) + 1) = entry_name x" by (simp add: nth_append)
    qed
  qed
  note step = this
  have "distinct (map entry_name entries)" using DirEntry.prems(1) by simp
  then have "distinct (concat (map ?g entries))"
    by (rule distinct_concat_tagged [where tag = "\<lambda>p. Split p slash ! (length (parts_of base) + 1)"]) (rule ballI, rule step)
  then show ?case by (simp add: map_concat comp_def)
qed

lemma root_files:
  assumes "names_ok (DirEntry name entries)"
  shows "distinct (map fst (tree_files [] (DirEntry name entries)))"
    "p \<in> set (map fst (tree_files [] (DirEntry name entries))) \<Longrightarrow> rel_path p"
proof -
  have ok: "names_ok x" if "x \<in> set entries" for x using assms that by (simp add: list_all_iff)
  let ?g = "\<lambda>x. map fst (tree_files (child_path [] (entry_name x)) x)"
  have "distinct (?g x) \<and> (\<forall>p\<in>set (?g x). hd (Split p slash) = entry_name x)" if x: "x \<in> set entries" for x
  proof
    show "distinct (?g x)" by (rule tree_files_distinct [OF ok [OF x]]) simp
    show "\<forall>p\<in>set (?g x). hd (Split p slash) = entry_name x"
    proof
      fix p assume "p \<in> set (?g x)"
      then have "p \<in> fst ` set (tree_files (child_path [] (entry_name x)) x)" by simp
      from tree_files_below(2) [OF ok [OF x] disjI1 [OF refl] this]
      show "hd (Split p slash) = entry_name x" by (auto simp: parts_of_def)
    qed
  qed
  note step = this
  have "distinct (map entry_name entries)" using assms by simp
  then have "distinct (concat (map ?g entries))"
    by (rule distinct_concat_tagged [where tag = "\<lambda>p. hd (Split p slash)"]) (rule ballI, rule step)
  then show "distinct (map fst (tree_files [] (DirEntry name entries)))" by (simp add: map_concat comp_def)
  show "rel_path p" if below: "p \<in> set (map fst (tree_files [] (DirEntry name entries)))"
  proof -
    obtain x where "x \<in> set entries" "p \<in> fst ` set (tree_files (child_path [] (entry_name x)) x)" using below by force
    then show "rel_path p" using tree_files_below(1) [OF ok disjI1 [OF refl]] by blast
  qed
qed

lemma scan_language:
  "f \<in> set (scan_entry dir rel e) \<Longrightarrow> fiLanguage f = DetectLanguage (filepath_Join dir (fiPath f))"
  by (induction e arbitrary: rel) (auto split: if_splits)

section \<open>Properties\<close>

text \<open>
  C25: the scan of a path that is not a symbolic link lists exactly the files that the watcher's filter
  keeps and that have at most a mebibyte, each once, with the language of its name, unless the root
  directory itself has an ignored or hidden name.
\<close>

theorem scan_lists_what_the_watcher_keeps:
  assumes names: "names_ok (DirEntry name entries)" and dir: "dir \<noteq> []"
    and visible: "\<not> defaultIgnoreSet name" "\<not> HasPrefix name ''.''"
    and scan: "ScanRepository dir (PlainRoot (DirEntry name entries)) = Inr repo"
  shows "map (\<lambda>f. (fiPath f, fiSize f)) (riFiles repo)
      = filter (\<lambda>(p, n). \<not> IsIgnoredPath p \<and> n \<le> 2 ^ 20) (tree_files [] (DirEntry name entries))
     \<and> distinct (map fiPath (riFiles repo))
     \<and> (\<forall>f\<in>set (riFiles repo). fiLanguage f = DetectLanguage (fiPath f) \<and> fiLanguage f \<noteq> [])"
proof -
  let ?e = "DirEntry name entries"
  have files: "riFiles repo = scan_entry dir [] ?e" using scan by (auto simp: ScanRepository_def)
  have sub: "map (\<lambda>f. (fiPath f, fiSize f)) (scan_entry dir (child_path [] (entry_name x)) x)
      = filter listed (tree_files (child_path [] (entry_name x)) x)" if "x \<in> set entries" for x
    by (rule scan_entry_files) (use names that in \<open>simp_all add: list_all_iff\<close>)
  then have rows: "map (\<lambda>f. (fiPath f, fiSize f)) (riFiles repo) = filter listed (tree_files [] ?e)"
    using visible unfolding files by (simp add: map_concat filter_concat comp_def cong: map_cong)
  then have "map fst (map (\<lambda>f. (fiPath f, fiSize f)) (riFiles repo)) = map fst (filter listed (tree_files [] ?e))" by metis
  then have paths: "map fiPath (riFiles repo) = map fst (filter listed (tree_files [] ?e))" by (simp add: comp_def)
  have once: "distinct (map fiPath (riFiles repo))" unfolding paths using root_files(1) [OF names] by (rule distinct_map_filter)
  have "fiLanguage f = DetectLanguage (fiPath f) \<and> fiLanguage f \<noteq> []" if f: "f \<in> set (riFiles repo)" for f
  proof -
    have "fiPath f \<in> set (map fst (filter listed (tree_files [] ?e)))" using f by (metis paths image_eqI list.set_map)
    then obtain n where n: "(fiPath f, n) \<in> set (tree_files [] ?e)" "listed (fiPath f, n)"
      by (auto simp del: tree_files.simps)
    have rel: "rel_path (fiPath f)" using root_files(2) [OF names] n(1) by force
    have "fiLanguage f = DetectLanguage (filepath_Join dir (fiPath f))" using f unfolding files by (rule scan_language)
    then have "fiLanguage f = DetectLanguage (leaf_of (fiPath f))" by (simp add: DetectLanguage_leaf [of "filepath_Join _ _"] leaf_of_Join [OF rel dir])
    then show ?thesis using n(2) rel DetectLanguage_leaf [of "fiPath f"] by (simp add: listed_def IsIgnoredPath_rel)
  qed
  then have "\<forall>f\<in>set (riFiles repo). fiLanguage f = DetectLanguage (fiPath f) \<and> fiLanguage f \<noteq> []" by blast
  then show ?thesis using rows once unfolding listed_def by blast
qed

definition demo_entries :: "entry list" where
  "demo_entries =
     [FileEntry ''main.go'' 10, DirEntry ''vendor'' [FileEntry ''v.go'' 1], FileEntry ''big.go'' 2000000,
      DirEntry ''src'' [FileEntry ''a.py'' 5, FileEntry ''.env.py'' 1, FileEntry ''logo.png'' 7]]"

lemma demo_entries_ok:
  "names_ok (DirEntry ''repo'' demo_entries)" "\<not> defaultIgnoreSet ''repo''" "\<not> HasPrefix ''repo'' ''.''"
  by code_simp+

lemma demo_entries_scan: "ScanRepository ''/repo'' (PlainRoot (DirEntry ''repo'' demo_entries))
    = Inr \<lparr>riName = ''repo'', riPath = ''/repo'', riFiles = scan_entry ''/repo'' [] (DirEntry ''repo'' demo_entries)\<rparr>"
  by (simp add: ScanRepository_def)

lemma demo_entries_listed: "map fiPath (scan_entry ''/repo'' [] (DirEntry ''repo'' demo_entries)) = [''main.go'', ''src/a.py'']"
  by code_simp

theorem scan_lists_what_the_watcher_keeps_witness:
  "distinct (map fiPath (scan_entry ''/repo'' [] (DirEntry ''repo'' demo_entries)))
   \<and> map fiPath (scan_entry ''/repo'' [] (DirEntry ''repo'' demo_entries)) = [''main.go'', ''src/a.py'']"
  using scan_lists_what_the_watcher_keeps [OF demo_entries_ok(1) _ demo_entries_ok(2,3) demo_entries_scan] demo_entries_listed by simp

text \<open>A root directory that has an ignored or hidden name itself makes the whole scan empty.\<close>

lemma ignored_root_hides_the_repository:
  "defaultIgnoreSet name \<or> HasPrefix name ''.'' \<Longrightarrow>
     ScanRepository dir (PlainRoot (DirEntry name entries)) = Inr \<lparr>riName = name, riPath = dir, riFiles = []\<rparr>"
  by (auto simp: ScanRepository_def)

end
