(* ===== verification/Index_Files.thy ===== *)
theory Index_Files
  imports Index_Calls Index_Scan
begin

text \<open>
  The indexer's three entry points (\<^verbatim>\<open>internal/indexer/indexer.go\<close>: \<^verbatim>\<open>IndexRepository\<close>,
  \<^verbatim>\<open>IndexRepositoryIncremental\<close>, \<^verbatim>\<open>IndexFiles\<close>) and the branch read from \<^verbatim>\<open>.git/HEAD\<close>
  (\<^verbatim>\<open>internal/git/local.go\<close>). The disk, the tree-sitter parser with its query extraction, the hash and
  the score of generated code are functions of a record; cancellation is asked once per file.
\<close>

section \<open>The branch of a working tree\<close>

datatype stat_result = NotExist | StatError string | StatDir | StatFile

record git_fs =
  fsStat :: "string \<Rightarrow> stat_result"
  fsRead :: "string \<Rightarrow> string + string"

datatype head_error = ErrNotAGitRepo | HeadError string

definition isHexSHA :: "string \<Rightarrow> bool" where
  "isHexSHA s \<longleftrightarrow> (length s = 40 \<or> length s = 64)
     \<and> list_all (\<lambda>c. let n = (of_char c :: nat) in (48 \<le> n \<and> n \<le> 57) \<or> (97 \<le> n \<and> n \<le> 102) \<or> (65 \<le> n \<and> n \<le> 70)) s"

definition IsAbs :: "string \<Rightarrow> bool" where
  "IsAbs p = HasPrefix p ''/''"

definition parse_head :: "string \<Rightarrow> head_error + string" where
  "parse_head content = (let head = TrimSpace content
     in if HasPrefix head ''ref: refs/heads/'' then Inr (TrimPrefix head ''ref: refs/heads/'')
        else if isHexSHA head then Inr ''HEAD''
        else Inl (HeadError (''unrecognized HEAD contents: '' @ head)))"

definition fastHeadRef :: "git_fs \<Rightarrow> string \<Rightarrow> head_error + string" where
  "fastHeadRef fs repoPath =
     (let gitEntry = filepath_Join repoPath ''.git'';
          in_dir = (\<lambda>gitDir. case fsRead fs (filepath_Join gitDir ''HEAD'') of
              Inl e \<Rightarrow> Inl (HeadError (''read HEAD: '' @ e))
            | Inr content \<Rightarrow> parse_head content)
      in case fsStat fs gitEntry of
           NotExist \<Rightarrow> Inl ErrNotAGitRepo
         | StatError e \<Rightarrow> Inl (HeadError (''stat .git: '' @ e))
         | StatDir \<Rightarrow> in_dir gitEntry
         | StatFile \<Rightarrow> (case fsRead fs gitEntry of
               Inl e \<Rightarrow> Inl (HeadError (''read .git pointer file: '' @ e))
             | Inr body \<Rightarrow>
                 (let line = TrimSpace body
                  in if \<not> HasPrefix line ''gitdir:'' then Inl (HeadError (''unrecognized .git pointer: '' @ line))
                     else let raw = TrimSpace (TrimPrefix line ''gitdir:'')
                       in in_dir (if IsAbs raw then raw else filepath_Join repoPath raw))))"

text \<open>The slow path asks git: an error, or nothing for a directory that is no repository, or a branch.\<close>

definition HeadRef :: "git_fs \<Rightarrow> (string \<Rightarrow> string + string option) \<Rightarrow> string \<Rightarrow> head_error + string" where
  "HeadRef fs gitMetadata repoPath = (case fastHeadRef fs repoPath of
       Inr branch \<Rightarrow> Inr branch
     | Inl ErrNotAGitRepo \<Rightarrow> Inl ErrNotAGitRepo
     | Inl (HeadError _) \<Rightarrow> (case gitMetadata repoPath of
           Inl e \<Rightarrow> Inl (HeadError (''reading git metadata: '' @ e))
         | Inr None \<Rightarrow> Inl ErrNotAGitRepo
         | Inr (Some branch) \<Rightarrow> Inr branch))"

section \<open>One file\<close>

record tools =
  tStat :: "string \<Rightarrow> stat_result"
  tRead :: "string \<Rightarrow> string + string"
  tParse :: "string \<Rightarrow> string \<Rightarrow> string \<Rightarrow> string + FileResult"
  tSha :: "string \<Rightarrow> string"
  tAI :: "string \<Rightarrow> string \<Rightarrow> Symbol list \<Rightarrow> float64 \<times> string list"

text \<open>The languages with a grammar (the keys of \<^verbatim>\<open>Registry\<close>).\<close>

definition has_grammar :: "string \<Rightarrow> bool" where
  "has_grammar language \<longleftrightarrow> language \<in> {''go'', ''python'', ''typescript'', ''javascript'', ''java'', ''rust'', ''ruby'',
     ''php'', ''cpp'', ''csharp'', ''groovy''}"

text \<open>A parse result with its content hash and the score of generated code, as every entry point completes it.\<close>

definition completed :: "tools \<Rightarrow> string \<Rightarrow> string \<Rightarrow> FileResult \<Rightarrow> FileResult" where
  "completed t language content fr =
     (case tAI t content language (frSymbols fr) of (score, signals) \<Rightarrow>
        fr\<lparr>frContentHash := tSha t content, frAIScore := score, frAISignals := signals\<rparr>)"

section \<open>Aggregates\<close>

text \<open>\<^verbatim>\<open>ExtractModules\<close> ranges over a map: \<open>ds\<close> is the order, \<open>ids\<close> the fresh ids.\<close>

definition dirFiles :: "FileResult list \<Rightarrow> string \<rightharpoonup> int" where
  "dirFiles files = fold (\<lambda>f m. let dir = Dir (frPath f) in m(dir \<mapsto> (case m dir of None \<Rightarrow> 0 | Some n \<Rightarrow> n) + 1)) files Map.empty"

definition moduleName :: "string \<Rightarrow> string" where
  "moduleName dir =
     (let name = (if dir = ''.'' then ''root'' else dir);
          parts = Split dir slash
      in if 0 < length parts then parts ! (length parts - 1) else name)"

definition ExtractModules :: "string list \<Rightarrow> string list \<Rightarrow> FileResult list \<Rightarrow> Module list" where
  "ExtractModules ids ds files =
     map (\<lambda>(i, dir). \<lparr>mdID = i, mdName = moduleName dir, mdPath = dir, mdFileCount = (case dirFiles files dir of None \<Rightarrow> 0 | Some n \<Rightarrow> n)\<rparr>)
       (zip ids ds)"

definition countRelations :: "FileResult list \<Rightarrow> Module list \<Rightarrow> int" where
  "countRelations files modules =
     sum_list (map (\<lambda>f. int (length (frSymbols f)) + int (length (frImports f))) files) + int (length modules)"

definition aggregated :: "string list \<Rightarrow> string list \<Rightarrow> IndexResult \<Rightarrow> IndexResult" where
  "aggregated ids ds r =
     (let modules = ExtractModules ids ds (ixFiles r);
          relations = resolveCallGraph (ixFiles r) @ resolveTestLinkage (ixFiles r)
      in r\<lparr>ixModules := modules, ixRelations := relations,
           ixTotalRelations := countRelations (ixFiles r) modules + int (length relations)\<rparr>)"

definition result_of :: "string \<Rightarrow> string \<Rightarrow> string \<Rightarrow> FileResult list \<Rightarrow> string list \<Rightarrow> IndexResult" where
  "result_of name path branch files errors = \<lparr>ixRepoName = name, ixRepoPath = path, ixBranch = branch, ixFiles = files,
     ixTotalFiles = int (length files), ixTotalSymbols = sum_list (map (\<lambda>f. int (length (frSymbols f))) files),
     ixTotalRelations = 0, ixRelations = [], ixModules = [], ixErrors = errors\<rparr>"

section \<open>A changed set of files\<close>

datatype ctx_error = CtxCanceled | CtxDeadlineExceeded

datatype index_error =
    ErrEmptyFiles
  | ErrPreviousResultRequired
  | BranchUnknown head_error
  | IndexBranchMismatch string string
  | ContextDone ctx_error
  | ErrInvalidFullReindexReason string
  | ScanFailed scan_error

text \<open>The position of a path in the previous files: the last one, as the map is filled from the left.\<close>

definition prevByPath :: "FileResult list \<Rightarrow> string \<Rightarrow> nat option" where
  "prevByPath files p = (let is = filter (\<lambda>i. frPath (files ! i) = p) [0..<length files] in if is = [] then None else Some (last is))"

record delta =
  dlMerged :: "FileResult list"
  dlDrops :: "nat set"
  dlErrors :: "string list"

definition index_one :: "tools \<Rightarrow> string \<Rightarrow> FileResult list \<Rightarrow> string \<Rightarrow> delta \<Rightarrow> delta" where
  "index_one t repoPath prev relPath d =
     (let absPath = filepath_Join repoPath relPath
      in case tStat t absPath of
           NotExist \<Rightarrow> (case prevByPath prev relPath of Some i \<Rightarrow> d\<lparr>dlDrops := insert i (dlDrops d)\<rparr> | None \<Rightarrow> d)
         | StatError e \<Rightarrow> d\<lparr>dlErrors := dlErrors d @ [''stat '' @ relPath @ '': '' @ e]\<rparr>
         | _ \<Rightarrow>
             (let language = DetectLanguage relPath
              in if \<not> has_grammar language then d
                 else case tRead t absPath of
                     Inl e \<Rightarrow> d\<lparr>dlErrors := dlErrors d @ [''read '' @ relPath @ '': '' @ e]\<rparr>
                   | Inr content \<Rightarrow>
                       (case tParse t relPath language content of
                          Inl e \<Rightarrow> d\<lparr>dlErrors := dlErrors d @ [''parse '' @ relPath @ '': '' @ e]\<rparr>
                        | Inr parsed \<Rightarrow>
                            (let fr = completed t language content parsed
                             in case prevByPath prev relPath of
                                  Some i \<Rightarrow> d\<lparr>dlMerged := (dlMerged d)[i := fr], dlDrops := dlDrops d - {i}\<rparr>
                                | None \<Rightarrow> d\<lparr>dlMerged := dlMerged d @ [fr]\<rparr>))))"

fun index_loop :: "tools \<Rightarrow> (nat \<Rightarrow> ctx_error option) \<Rightarrow> string \<Rightarrow> FileResult list \<Rightarrow> nat \<Rightarrow> string list \<Rightarrow> delta \<Rightarrow> ctx_error + delta" where
  "index_loop t expired repoPath prev n [] d = Inr d"
| "index_loop t expired repoPath prev n (relPath # rest) d = (case expired n of
      Some e \<Rightarrow> Inl e
    | None \<Rightarrow> index_loop t expired repoPath prev (Suc n) rest (index_one t repoPath prev relPath d))"

definition drop_indices :: "nat set \<Rightarrow> FileResult list \<Rightarrow> FileResult list" where
  "drop_indices drops merged =
     (if drops = {} then merged else map snd (filter (\<lambda>(i, f). i \<notin> drops) (enumerate 0 merged)))"

definition IndexFiles ::
  "tools \<Rightarrow> (string \<Rightarrow> head_error + string) \<Rightarrow> (nat \<Rightarrow> ctx_error option) \<Rightarrow> string list \<Rightarrow> string list
   \<Rightarrow> string \<Rightarrow> string list \<Rightarrow> string \<Rightarrow> IndexResult option \<Rightarrow> index_error + IndexResult" where
  "IndexFiles t head expired ids ds repoPath files branch previousResult =
     (if files = [] then Inl ErrEmptyFiles
      else case previousResult of
        None \<Rightarrow> Inl ErrPreviousResultRequired
      | Some prev \<Rightarrow> (case head repoPath of
            Inl e \<Rightarrow> Inl (BranchUnknown e)
          | Inr headBranch \<Rightarrow>
              if headBranch \<noteq> branch then Inl (IndexBranchMismatch branch headBranch)
              else (case index_loop t expired repoPath (ixFiles prev) 0 files
                        \<lparr>dlMerged = ixFiles prev, dlDrops = {}, dlErrors = []\<rparr> of
                      Inl e \<Rightarrow> Inl (ContextDone e)
                    | Inr d \<Rightarrow> Inr (aggregated ids ds
                        (result_of (ixRepoName prev) (ixRepoPath prev) branch (drop_indices (dlDrops d) (dlMerged d)) (dlErrors d))))))"

section \<open>A whole repository\<close>

datatype RepoIndexFullReason = ReasonUnspecified | ReasonInitialOnboard | ReasonOperatorRebuild

fun reason_String :: "RepoIndexFullReason \<Rightarrow> string" where
  "reason_String ReasonInitialOnboard = ''initial_onboard''"
| "reason_String ReasonOperatorRebuild = ''operator_rebuild''"
| "reason_String ReasonUnspecified = ''unspecified''"

fun reason_IsValid :: "RepoIndexFullReason \<Rightarrow> bool" where
  "reason_IsValid ReasonInitialOnboard = True"
| "reason_IsValid ReasonOperatorRebuild = True"
| "reason_IsValid ReasonUnspecified = False"

definition validateFullReindexReason :: "RepoIndexFullReason \<Rightarrow> index_error option" where
  "validateFullReindexReason r = (if reason_IsValid r then None else Some (ErrInvalidFullReindexReason (reason_String r)))"

type_synonym parsed_files = "FileResult list \<times> string list"

definition parse_into :: "tools \<Rightarrow> FileInfo \<Rightarrow> string \<Rightarrow> parsed_files \<Rightarrow> parsed_files" where
  "parse_into t fi content st = (case st of (files, errors) \<Rightarrow>
     case tParse t (fiPath fi) (fiLanguage fi) content of
       Inl e \<Rightarrow> (files, errors @ [''parse '' @ fiPath fi @ '': '' @ e])
     | Inr parsed \<Rightarrow> (files @ [completed t (fiLanguage fi) content parsed], errors))"

definition full_one :: "tools \<Rightarrow> FileInfo \<Rightarrow> parsed_files \<Rightarrow> parsed_files" where
  "full_one t fi st = (case st of (files, errors) \<Rightarrow>
     if \<not> has_grammar (fiLanguage fi) then (files, errors)
     else case tRead t (fiAbsPath fi) of
         Inl e \<Rightarrow> (files, errors @ [''read '' @ fiPath fi @ '': '' @ e])
       | Inr content \<Rightarrow> parse_into t fi content (files, errors))"

definition incremental_one ::
  "tools \<Rightarrow> (string \<rightharpoonup> string) \<Rightarrow> (string \<rightharpoonup> FileResult) \<Rightarrow> FileInfo \<Rightarrow> parsed_files \<Rightarrow> parsed_files" where
  "incremental_one t previousHashes previousFiles fi st = (case st of (files, errors) \<Rightarrow>
     if \<not> has_grammar (fiLanguage fi) then (files, errors)
     else case tRead t (fiAbsPath fi) of
         Inl e \<Rightarrow> (files, errors @ [''read '' @ fiPath fi @ '': '' @ e])
       | Inr content \<Rightarrow>
           (case (if previousHashes (fiPath fi) = Some (tSha t content) then previousFiles (fiPath fi) else None) of
              Some prevFile \<Rightarrow> (files @ [prevFile], errors)
            | None \<Rightarrow> parse_into t fi content (files, errors)))"

fun file_loop :: "(FileInfo \<Rightarrow> parsed_files \<Rightarrow> parsed_files) \<Rightarrow> (nat \<Rightarrow> ctx_error option) \<Rightarrow> nat \<Rightarrow> FileInfo list
    \<Rightarrow> parsed_files \<Rightarrow> ctx_error + parsed_files" where
  "file_loop step expired n [] st = Inr st"
| "file_loop step expired n (fi # rest) st = (case expired n of
      Some e \<Rightarrow> Inl e
    | None \<Rightarrow> file_loop step expired (Suc n) rest (step fi st))"

definition index_scanned :: "(FileInfo \<Rightarrow> parsed_files \<Rightarrow> parsed_files) \<Rightarrow> (nat \<Rightarrow> ctx_error option) \<Rightarrow> string list \<Rightarrow> string list
    \<Rightarrow> scan_error + RepoInfo \<Rightarrow> index_error + IndexResult" where
  "index_scanned step expired ids ds scan = (case scan of
       Inl e \<Rightarrow> Inl (ScanFailed e)
     | Inr repo \<Rightarrow> (case file_loop step expired 0 (riFiles repo) ([], []) of
           Inl e \<Rightarrow> Inl (ContextDone e)
         | Inr (files, errors) \<Rightarrow> Inr (aggregated ids ds (result_of (riName repo) (riPath repo) [] files errors))))"

definition IndexRepository ::
  "tools \<Rightarrow> (nat \<Rightarrow> ctx_error option) \<Rightarrow> string list \<Rightarrow> string list \<Rightarrow> scan_error + RepoInfo \<Rightarrow> RepoIndexFullReason
   \<Rightarrow> index_error + IndexResult" where
  "IndexRepository t expired ids ds scan reason = (case validateFullReindexReason reason of
       Some e \<Rightarrow> Inl e
     | None \<Rightarrow> index_scanned (full_one t) expired ids ds scan)"

definition IndexRepositoryIncremental ::
  "tools \<Rightarrow> (nat \<Rightarrow> ctx_error option) \<Rightarrow> string list \<Rightarrow> string list \<Rightarrow> scan_error + RepoInfo \<Rightarrow> (string \<rightharpoonup> string)
   \<Rightarrow> (string \<rightharpoonup> FileResult) \<Rightarrow> index_error + IndexResult" where
  "IndexRepositoryIncremental t expired ids ds scan previousHashes previousFiles =
     index_scanned (incremental_one t previousHashes previousFiles) expired ids ds scan"


section \<open>What a delta does to the files\<close>

text \<open>The file that a path has now, given what it had before.\<close>

definition file_now :: "tools \<Rightarrow> string \<Rightarrow> string \<Rightarrow> FileResult option \<Rightarrow> FileResult option" where
  "file_now t repoPath p before =
     (let absPath = filepath_Join repoPath p
      in case tStat t absPath of
           NotExist \<Rightarrow> None
         | StatError e \<Rightarrow> before
         | _ \<Rightarrow>
             if \<not> has_grammar (DetectLanguage p) then before
             else case tRead t absPath of
                 Inl e \<Rightarrow> before
               | Inr content \<Rightarrow>
                   (case tParse t p (DetectLanguage p) content of
                      Inl e \<Rightarrow> before
                    | Inr parsed \<Rightarrow> Some (completed t (DetectLanguage p) content parsed)))"

definition file_at :: "FileResult list \<Rightarrow> string \<Rightarrow> FileResult option" where
  "file_at files p = find (\<lambda>f. frPath f = p) files"

definition keeps_paths :: "tools \<Rightarrow> bool" where
  "keeps_paths t \<longleftrightarrow> (\<forall>p language content fr. tParse t p language content = Inr fr \<longrightarrow> frPath fr = p)"

definition live :: "delta \<Rightarrow> FileResult set" where
  "live d = {dlMerged d ! i | i. i < length (dlMerged d) \<and> i \<notin> dlDrops d}"

definition delta_ok :: "FileResult list \<Rightarrow> string set \<Rightarrow> delta \<Rightarrow> bool" where
  "delta_ok prev D d \<longleftrightarrow> distinct (map frPath (dlMerged d)) \<and> length prev \<le> length (dlMerged d)
     \<and> (\<forall>i<length prev. frPath (dlMerged d ! i) = frPath (prev ! i)) \<and> dlDrops d \<subseteq> {..<length prev}
     \<and> (\<forall>i. length prev \<le> i \<and> i < length (dlMerged d) \<longrightarrow> frPath (dlMerged d ! i) \<in> D)"

lemma completed_path [simp]: "frPath (completed t l c fr) = frPath fr"
  by (simp add: completed_def case_prod_unfold)

lemma file_at_Some: "distinct (map frPath files) \<Longrightarrow> file_at files p = Some f \<longleftrightarrow> f \<in> set files \<and> frPath f = p"
  unfolding file_at_def by (induction files) (auto split: if_splits)

lemma prevByPath_Some:
  assumes "distinct (map frPath files)"
  shows "prevByPath files p = Some i \<longleftrightarrow> i < length files \<and> frPath (files ! i) = p"
proof -
  let ?is = "filter (\<lambda>i. frPath (files ! i) = p) [0..<length files]"
  have inj: "i = j" if "i \<in> set ?is" "j \<in> set ?is" for i j
    using that assms nth_eq_iff_index_eq [of "map frPath files" i j] by simp
  show ?thesis
  proof (cases "?is = []")
    case True
    then show ?thesis by (auto simp: prevByPath_def filter_empty_conv)
  next
    case False
    then have l: "last ?is \<in> set ?is" by (rule last_in_set)
    have "prevByPath files p = Some (last ?is)" using False by (simp add: prevByPath_def Let_def)
    moreover have "i < length files \<and> frPath (files ! i) = p \<longleftrightarrow> i \<in> set ?is" for i by auto
    ultimately show ?thesis using inj l by (metis option.inject)
  qed
qed

lemma prevByPath_None: "prevByPath files p = None \<longleftrightarrow> p \<notin> frPath ` set files"
proof -
  have "p \<in> frPath ` set files \<longleftrightarrow> (\<exists>i<length files. frPath (files ! i) = p)" by (force simp: in_set_conv_nth)
  then show ?thesis by (auto simp: prevByPath_def Let_def filter_empty_conv)
qed

lemma delta_index_unique:
  "delta_ok prev D d \<Longrightarrow> i < length (dlMerged d) \<Longrightarrow> j < length (dlMerged d)
     \<Longrightarrow> frPath (dlMerged d ! i) = frPath (dlMerged d ! j) \<Longrightarrow> i = j"
  using nth_eq_iff_index_eq [of "map frPath (dlMerged d)" i j] by (simp add: delta_ok_def)

lemma live_image: "live d = (\<lambda>i. dlMerged d ! i) ` {i. i < length (dlMerged d) \<and> i \<notin> dlDrops d}"
  unfolding live_def by blast

lemma live_update:
  assumes ok: "delta_ok prev D d" and i: "i < length prev" and path: "frPath fr = frPath (prev ! i)"
  shows "live (d\<lparr>dlMerged := (dlMerged d)[i := fr], dlDrops := dlDrops d - {i}\<rparr>)
      = insert fr {f \<in> live d. frPath f \<noteq> frPath fr}"
proof -
  have len: "i < length (dlMerged d)" and at: "frPath (dlMerged d ! i) = frPath fr" using ok i path by (auto simp: delta_ok_def)
  have other: "frPath (dlMerged d ! j) \<noteq> frPath fr" if "j < length (dlMerged d)" "j \<noteq> i" for j
    using delta_index_unique [OF ok that(1) len] that(2) at by metis
  show ?thesis using len at other unfolding live_def by (auto simp: nth_list_update split: if_splits) metis+
qed

lemma live_append:
  assumes ok: "delta_ok prev D d" and fresh: "frPath fr \<notin> frPath ` set (dlMerged d)"
  shows "live (d\<lparr>dlMerged := dlMerged d @ [fr]\<rparr>) = insert fr {f \<in> live d. frPath f \<noteq> frPath fr}"
proof -
  have n: "length (dlMerged d) \<notin> dlDrops d" using ok by (auto simp: delta_ok_def)
  have "live (d\<lparr>dlMerged := dlMerged d @ [fr]\<rparr>) = insert fr (live d)"
  proof -
    let ?n = "length (dlMerged d)"
    have "{i. i < Suc ?n \<and> i \<notin> dlDrops d} = insert ?n {i. i < ?n \<and> i \<notin> dlDrops d}" using n by auto
    moreover have "(\<lambda>i. (dlMerged d @ [fr]) ! i) ` {i. i < ?n \<and> i \<notin> dlDrops d} = (\<lambda>i. dlMerged d ! i) ` {i. i < ?n \<and> i \<notin> dlDrops d}"
      by (rule image_cong) (auto simp: nth_append)
    ultimately show ?thesis by (simp add: live_image)
  qed
  moreover have "{f \<in> live d. frPath f \<noteq> frPath fr} = live d" using fresh unfolding live_def by auto (metis image_eqI nth_mem)
  ultimately show ?thesis by simp
qed

lemma live_drop:
  assumes ok: "delta_ok prev D d" and i: "i < length prev"
  shows "live (d\<lparr>dlDrops := insert i (dlDrops d)\<rparr>) = {f \<in> live d. frPath f \<noteq> frPath (prev ! i)}"
proof -
  have len: "i < length (dlMerged d)" and at: "frPath (dlMerged d ! i) = frPath (prev ! i)" using ok i by (auto simp: delta_ok_def)
  have other: "frPath (dlMerged d ! j) \<noteq> frPath (prev ! i)" if "j < length (dlMerged d)" "j \<noteq> i" for j
    using delta_index_unique [OF ok that(1) len] that(2) at by metis
  show ?thesis using len at other unfolding live_def by auto
qed

lemma fresh_path:
  assumes ok: "delta_ok prev D d" and new: "prevByPath prev p = None" "p \<notin> D"
  shows "p \<notin> frPath ` set (dlMerged d)"
proof
  assume "p \<in> frPath ` set (dlMerged d)"
  then obtain i where i: "i < length (dlMerged d)" "frPath (dlMerged d ! i) = p" by (auto simp: in_set_conv_nth)
  show False
  proof (cases "i < length prev")
    case True
    then have "p = frPath (prev ! i)" using ok i by (simp add: delta_ok_def)
    then show False using True new(1) by (simp add: prevByPath_None)
  next
    case False
    then show False using ok i new(2) by (auto simp: delta_ok_def)
  qed
qed

lemma index_one_cases:
  assumes "keeps_paths t"
  obtains (gone) "\<And>b. file_now t repoPath p b = None"
      "index_one t repoPath prev p d = (case prevByPath prev p of Some i \<Rightarrow> d\<lparr>dlDrops := insert i (dlDrops d)\<rparr> | None \<Rightarrow> d)"
  | (kept) errors where "\<And>b. file_now t repoPath p b = b" "index_one t repoPath prev p d = d\<lparr>dlErrors := errors\<rparr>"
  | (parsed) fr where "\<And>b. file_now t repoPath p b = Some fr" "frPath fr = p"
      "index_one t repoPath prev p d = (case prevByPath prev p of
           Some i \<Rightarrow> d\<lparr>dlMerged := (dlMerged d)[i := fr], dlDrops := dlDrops d - {i}\<rparr>
         | None \<Rightarrow> d\<lparr>dlMerged := dlMerged d @ [fr]\<rparr>)"
proof -
  let ?abs = "filepath_Join repoPath p" and ?l = "DetectLanguage p"
  have same: "d = d\<lparr>dlErrors := dlErrors d\<rparr>" by simp
  consider (1) "tStat t ?abs = NotExist" | (2) e where "tStat t ?abs = StatError e"
    | (3) "tStat t ?abs \<in> {StatDir, StatFile}" "\<not> has_grammar ?l"
    | (4) e where "tStat t ?abs \<in> {StatDir, StatFile}" "has_grammar ?l" "tRead t ?abs = Inl e"
    | (5) content e where "tStat t ?abs \<in> {StatDir, StatFile}" "has_grammar ?l" "tRead t ?abs = Inr content" "tParse t p ?l content = Inl e"
    | (6) content x where "tStat t ?abs \<in> {StatDir, StatFile}" "has_grammar ?l" "tRead t ?abs = Inr content" "tParse t p ?l content = Inr x"
    by (cases "tStat t ?abs"; cases "tRead t ?abs"; cases "has_grammar ?l") (auto, (metis obj_sumE)+)
  then show thesis
  proof cases
    case 1
    then show thesis by (intro gone) (simp_all add: file_now_def index_one_def Let_def)
  next
    case 2
    then show thesis by (intro kept) (simp_all add: file_now_def index_one_def Let_def)
  next
    case 3
    then show thesis by (intro kept [of "dlErrors d"]) (auto simp: file_now_def index_one_def Let_def)
  next
    case 4
    then show thesis by (intro kept [of "dlErrors d @ [''read '' @ p @ '': '' @ e]"]) (auto simp: file_now_def index_one_def Let_def)
  next
    case 5
    then show thesis by (intro kept [of "dlErrors d @ [''parse '' @ p @ '': '' @ e]"]) (auto simp: file_now_def index_one_def Let_def)
  next
    case 6
    then show thesis
      using assms by (intro parsed [of "completed t ?l content x"]) (auto simp: file_now_def index_one_def Let_def keeps_paths_def)
  qed
qed

lemma delta_ok_mono: "delta_ok prev D d \<Longrightarrow> D \<subseteq> E \<Longrightarrow> delta_ok prev E d"
  by (auto simp: delta_ok_def)

lemma index_one_step:
  assumes ok: "delta_ok prev D d" and dp: "distinct (map frPath prev)" and new: "p \<notin> D" and t: "keeps_paths t"
    and before: "{f \<in> live d. frPath f = p} = {f \<in> set prev. frPath f = p}"
  shows "delta_ok prev (insert p D) (index_one t repoPath prev p d)
    \<and> live (index_one t repoPath prev p d)
       = {f \<in> live d. frPath f \<noteq> p} \<union> {f. file_now t repoPath p (file_at prev p) = Some f}"
proof -
  have grown: "delta_ok prev (insert p D) d" using ok by (rule delta_ok_mono) blast
  have none: "{f \<in> live d. frPath f \<noteq> p} = live d" if "prevByPath prev p = None"
    using before that unfolding prevByPath_None by blast
  show ?thesis
  proof (rule index_one_cases [OF t, of repoPath p prev d])
    assume now: "\<And>b. file_now t repoPath p b = None"
      and one: "index_one t repoPath prev p d = (case prevByPath prev p of Some i \<Rightarrow> d\<lparr>dlDrops := insert i (dlDrops d)\<rparr> | None \<Rightarrow> d)"
    show ?thesis
    proof (cases "prevByPath prev p")
      case None
      then show ?thesis using grown none now one by simp
    next
      case (Some i)
      then have i: "i < length prev" "frPath (prev ! i) = p" by (simp_all add: prevByPath_Some [OF dp])
      then show ?thesis using grown now Some live_drop [OF ok i(1)] unfolding one by (auto simp: delta_ok_def)
    qed
  next
    fix errors assume now: "\<And>b. file_now t repoPath p b = b" and one: "index_one t repoPath prev p d = d\<lparr>dlErrors := errors\<rparr>"
    have "live d = {f \<in> live d. frPath f \<noteq> p} \<union> {f. file_at prev p = Some f}"
      unfolding file_at_Some [OF dp] using before by blast
    moreover have "live (d\<lparr>dlErrors := errors\<rparr>) = live d" by (simp add: live_def)
    ultimately show ?thesis using grown now one by (simp add: delta_ok_def)
  next
    fix fr assume now: "\<And>b. file_now t repoPath p b = Some fr" and path: "frPath fr = p"
      and one: "index_one t repoPath prev p d = (case prevByPath prev p of
           Some i \<Rightarrow> d\<lparr>dlMerged := (dlMerged d)[i := fr], dlDrops := dlDrops d - {i}\<rparr>
         | None \<Rightarrow> d\<lparr>dlMerged := dlMerged d @ [fr]\<rparr>)"
    show ?thesis
    proof (cases "prevByPath prev p")
      case None
      note fresh = fresh_path [OF ok None new]
      have "delta_ok prev (insert p D) (d\<lparr>dlMerged := dlMerged d @ [fr]\<rparr>)"
        using grown fresh path by (auto simp: delta_ok_def nth_append)
      then show ?thesis using live_append [OF ok] fresh path None now unfolding one by auto
    next
      case (Some i)
      then have i: "i < length prev" "frPath (prev ! i) = p" by (simp_all add: prevByPath_Some [OF dp])
      have len: "i < length (dlMerged d)" and at: "frPath (dlMerged d ! i) = p" using ok i by (auto simp: delta_ok_def)
      have paths: "map frPath ((dlMerged d)[i := fr]) = map frPath (dlMerged d)"
        using len at path by (simp add: map_update list_update_same_conv)
      have nths: "frPath ((dlMerged d)[i := fr] ! j) = frPath (dlMerged d ! j)" if "j < length (dlMerged d)" for j
        using arg_cong [OF paths, of "\<lambda>xs. xs ! j"] that by simp
      have "delta_ok prev (insert p D) (d\<lparr>dlMerged := (dlMerged d)[i := fr], dlDrops := dlDrops d - {i}\<rparr>)"
        using grown by (auto simp: delta_ok_def paths nths)
      then show ?thesis using live_update [OF ok i(1)] path i(2) Some now unfolding one by auto
    qed
  qed
qed

lemma file_now_path:
  assumes "keeps_paths t" "file_now t repoPath p before = Some f" "\<And>f. before = Some f \<Longrightarrow> frPath f = p"
  shows "frPath f = p"
  using assms by (auto simp: file_now_def keeps_paths_def Let_def split: stat_result.splits sum.splits if_splits)

lemma index_loop_step:
  assumes "delta_ok prev D d" "distinct (map frPath prev)" "keeps_paths t" "distinct files" "set files \<inter> D = {}"
    and "\<forall>p. p \<notin> D \<longrightarrow> {f \<in> live d. frPath f = p} = {f \<in> set prev. frPath f = p}"
    and "index_loop t expired repoPath prev n files d = Inr d'"
  shows "delta_ok prev (D \<union> set files) d'
    \<and> live d' = {f \<in> live d. frPath f \<notin> set files} \<union> {f. \<exists>p\<in>set files. file_now t repoPath p (file_at prev p) = Some f}"
  using assms
proof (induction files arbitrary: D d n)
  case Nil
  then show ?case by simp
next
  case (Cons p files)
  let ?d = "index_one t repoPath prev p d"
  have run: "index_loop t expired repoPath prev (Suc n) files ?d = Inr d'" using Cons.prems(7) by (simp split: option.splits)
  have step: "delta_ok prev (insert p D) ?d"
      "live ?d = {f \<in> live d. frPath f \<noteq> p} \<union> {f. file_now t repoPath p (file_at prev p) = Some f}"
    using index_one_step [OF Cons.prems(1,2) _ Cons.prems(3), of p repoPath] Cons.prems(5,6) by auto
  have now: "frPath f = q" if "file_now t repoPath q (file_at prev q) = Some f" for f q
    by (rule file_now_path [OF Cons.prems(3) that]) (simp add: file_at_Some [OF Cons.prems(2)])
  have "\<forall>q. q \<notin> insert p D \<longrightarrow> {f \<in> live ?d. frPath f = q} = {f \<in> set prev. frPath f = q}"
  proof (intro allI impI)
    fix q assume q: "q \<notin> insert p D"
    have "{f \<in> live ?d. frPath f = q} = {f \<in> live d. frPath f = q}" using q now unfolding step(2) by auto
    then show "{f \<in> live ?d. frPath f = q} = {f \<in> set prev. frPath f = q}" using q Cons.prems(6) by blast
  qed
  then have it: "delta_ok prev (insert p D \<union> set files) d'"
      "live d' = {f \<in> live ?d. frPath f \<notin> set files} \<union> {f. \<exists>p\<in>set files. file_now t repoPath p (file_at prev p) = Some f}"
    using Cons.IH [OF step(1) Cons.prems(2,3) _ _ _ run] Cons.prems(4,5) by auto
  have "p \<notin> set files" using Cons.prems(4) by simp
  then have "live d' = {f \<in> live d. frPath f \<notin> set (p # files)} \<union> {f. \<exists>p\<in>set (p # files). file_now t repoPath p (file_at prev p) = Some f}"
    using now unfolding it(2) step(2) by auto
  then show ?case using it(1) by simp
qed

lemma set_drop_indices: "set (drop_indices drops merged) = {merged ! i | i. i < length merged \<and> i \<notin> drops}"
proof -
  have "x \<in> set (map snd (filter (\<lambda>(i, f). i \<notin> drops) (enumerate 0 merged))) \<longleftrightarrow> (\<exists>i. (i, x) \<in> set (enumerate 0 merged) \<and> i \<notin> drops)" for x
    by force
  then have m: "x \<in> set (map snd (filter (\<lambda>(i, f). i \<notin> drops) (enumerate 0 merged))) \<longleftrightarrow> (\<exists>i. i < length merged \<and> merged ! i = x \<and> i \<notin> drops)" for x
    by (simp add: in_set_enumerate_eq)
  have "set (map snd (filter (\<lambda>(i, f). i \<notin> drops) (enumerate 0 merged))) = {merged ! i | i. i < length merged \<and> i \<notin> drops}"
    by (rule set_eqI) (simp only: m, auto)
  moreover have "set merged = {merged ! i | i. i < length merged}" by (auto simp: in_set_conv_nth)
  ultimately show ?thesis by (simp add: drop_indices_def)
qed

lemma distinct_drop_indices: "distinct (map frPath merged) \<Longrightarrow> distinct (map frPath (drop_indices drops merged))"
proof -
  assume d: "distinct (map frPath merged)"
  have "map frPath (map snd (enumerate 0 merged)) = map frPath merged" by simp
  then have "map (\<lambda>x. frPath (snd x)) (enumerate 0 merged) = map frPath merged" unfolding map_map comp_def .
  then have "distinct (map (\<lambda>x. frPath (snd x)) (filter (\<lambda>(i, f). i \<notin> drops) (enumerate 0 merged)))"
    using d by (intro distinct_map_filter) simp
  then show ?thesis using d by (simp add: drop_indices_def comp_def)
qed

lemma index_files_delta:
  assumes t: "keeps_paths t" and dp: "distinct (map frPath (ixFiles prev))" and df: "distinct files"
    and run: "IndexFiles t head expired ids ds repoPath files branch (Some prev) = Inr r"
  shows "file_at (ixFiles r) p
       = (if p \<in> set files then file_now t repoPath p (file_at (ixFiles prev) p) else file_at (ixFiles prev) p)
     \<and> distinct (map frPath (ixFiles r)) \<and> head repoPath = Inr branch \<and> ixBranch r = branch
     \<and> ixRepoPath r = ixRepoPath prev \<and> ixTotalFiles r = int (length (ixFiles r))
     \<and> ixTotalSymbols r = sum_list (map (\<lambda>f. int (length (frSymbols f))) (ixFiles r))
     \<and> ixModules r = ExtractModules ids ds (ixFiles r)
     \<and> ixRelations r = resolveCallGraph (ixFiles r) @ resolveTestLinkage (ixFiles r)
     \<and> ixTotalRelations r = countRelations (ixFiles r) (ixModules r) + int (length (ixRelations r))"
proof -
  let ?d0 = "\<lparr>dlMerged = ixFiles prev, dlDrops = {}, dlErrors = []\<rparr>"
  obtain d where head: "head repoPath = Inr branch" and loop: "index_loop t expired repoPath (ixFiles prev) 0 files ?d0 = Inr d"
      and r: "r = aggregated ids ds (result_of (ixRepoName prev) (ixRepoPath prev) branch (drop_indices (dlDrops d) (dlMerged d)) (dlErrors d))"
    using run by (auto simp: IndexFiles_def split: if_splits sum.splits)
  have live0: "live ?d0 = set (ixFiles prev)" by (auto simp: live_def in_set_conv_nth)
  have ok0: "delta_ok (ixFiles prev) {} ?d0" using dp by (simp add: delta_ok_def)
  have start: "\<forall>p. p \<notin> {} \<longrightarrow> {f \<in> live ?d0. frPath f = p} = {f \<in> set (ixFiles prev). frPath f = p}" unfolding live0 by simp
  have files: "ixFiles r = drop_indices (dlDrops d) (dlMerged d)" by (simp add: r aggregated_def result_of_def Let_def)
  note it = index_loop_step [OF ok0 dp t df _ start loop]
  have paths: "distinct (map frPath (ixFiles r))" unfolding files by (rule distinct_drop_indices) (use it in \<open>simp add: delta_ok_def\<close>)
  have rows: "set (ixFiles r) = {f \<in> set (ixFiles prev). frPath f \<notin> set files}
      \<union> {f. \<exists>p\<in>set files. file_now t repoPath p (file_at (ixFiles prev) p) = Some f}"
    using it unfolding files set_drop_indices live0 by (simp add: live_def)
  have now: "frPath f = q" if "file_now t repoPath q (file_at (ixFiles prev) q) = Some f" for f q
    by (rule file_now_path [OF t that]) (simp add: file_at_Some [OF dp])
  have "file_at (ixFiles r) p = Some f \<longleftrightarrow>
      (if p \<in> set files then file_now t repoPath p (file_at (ixFiles prev) p) else file_at (ixFiles prev) p) = Some f" for f
    unfolding file_at_Some [OF paths] rows using now by (auto simp: file_at_Some [OF dp])
  then have "file_at (ixFiles r) p
      = (if p \<in> set files then file_now t repoPath p (file_at (ixFiles prev) p) else file_at (ixFiles prev) p)"
    by (metis option.exhaust)
  then show ?thesis using paths head by (simp add: r aggregated_def result_of_def Let_def)
qed

text \<open>Everything new in a result is a file of the delta, so the watcher's containment check never fires on it.\<close>

lemma index_files_contained:
  assumes "keeps_paths t" "distinct (map frPath (ixFiles prev))" "distinct files"
    and "IndexFiles t head expired ids ds repoPath files branch (Some prev) = Inr r"
  shows "frPath ` set (ixFiles r) \<subseteq> frPath ` set (ixFiles prev) \<union> set files"
proof
  fix p assume p: "p \<in> frPath ` set (ixFiles r)"
  note delta = index_files_delta [OF assms, of p]
  show "p \<in> frPath ` set (ixFiles prev) \<union> set files"
  proof (rule ccontr)
    assume "p \<notin> frPath ` set (ixFiles prev) \<union> set files"
    then have "file_at (ixFiles r) p = None" using delta by (auto simp: file_at_def find_None_iff)
    then show False using p by (auto simp: file_at_def find_None_iff)
  qed
qed

text \<open>
  C28: indexing a delta of distinct files replaces exactly their entries by what the disk now says of
  them (nothing for a file that is gone, the old entry for one that cannot be read or parsed) and
  leaves every other entry as it was; paths stay unique and the branch is the checked one. Modules,
  call and test relations and the totals of files, symbols and relations are all computed from the
  merged files.
\<close>

theorem index_files_is_a_delta:
  assumes t: "keeps_paths t" and dp: "distinct (map frPath (ixFiles prev))" and df: "distinct files"
    and run: "IndexFiles t head expired ids ds repoPath files branch (Some prev) = Inr r"
  shows "file_at (ixFiles r) p
       = (if p \<in> set files then file_now t repoPath p (file_at (ixFiles prev) p) else file_at (ixFiles prev) p)
     \<and> distinct (map frPath (ixFiles r)) \<and> head repoPath = Inr branch \<and> ixBranch r = branch
     \<and> ixRepoPath r = ixRepoPath prev \<and> ixTotalFiles r = int (length (ixFiles r))
     \<and> ixTotalSymbols r = sum_list (map (\<lambda>f. int (length (frSymbols f))) (ixFiles r))
     \<and> ixModules r = ExtractModules ids ds (ixFiles r)
     \<and> ixRelations r = resolveCallGraph (ixFiles r) @ resolveTestLinkage (ixFiles r)
     \<and> ixTotalRelations r = countRelations (ixFiles r) (ixModules r) + int (length (ixRelations r))"
  using assms by (rule index_files_delta)

section \<open>A full scan and an incremental one\<close>

text \<open>A file result without the random ids of its symbols.\<close>

definition anonymous :: "FileResult \<Rightarrow> FileResult" where
  "anonymous fr = fr\<lparr>frSymbols := map (\<lambda>y. y\<lparr>syID := []\<rparr>) (frSymbols fr), frCalls := map (\<lambda>c. c\<lparr>csCallerID := []\<rparr>) (frCalls fr)\<rparr>"

text \<open>
  What the carried-forward results must be: for each scanned file, a result filed under the hash of its
  present content is, up to symbol ids, what parsing that content in the language of the file gives.
  It holds of the results of an earlier scan (\<open>earlier_scan_is_carried_ok\<close>).
\<close>

definition carried_ok :: "tools \<Rightarrow> FileInfo list \<Rightarrow> (string \<rightharpoonup> string) \<Rightarrow> (string \<rightharpoonup> FileResult) \<Rightarrow> bool" where
  "carried_ok t fis previousHashes previousFiles \<longleftrightarrow> (\<forall>fi\<in>set fis. \<forall>content prevFile.
     tRead t (fiAbsPath fi) = Inr content
     \<and> previousHashes (fiPath fi) = Some (tSha t content) \<and> previousFiles (fiPath fi) = Some prevFile
     \<longrightarrow> (\<exists>parsed. tParse t (fiPath fi) (fiLanguage fi) content = Inr parsed
          \<and> anonymous prevFile = anonymous (completed t (fiLanguage fi) content parsed)))"

definition scanned :: "scan_error + RepoInfo \<Rightarrow> FileInfo list" where
  "scanned scan = (case scan of Inl e \<Rightarrow> [] | Inr repo \<Rightarrow> riFiles repo)"

text \<open>
  Two instants: the disk may have changed, but the hash, the parser and the score are the same
  functions, the parser up to the ids it makes up, and no content has the hash of another one.
\<close>

definition later :: "tools \<Rightarrow> tools \<Rightarrow> bool" where
  "later t' t \<longleftrightarrow> tSha t' = tSha t
     \<and> (\<forall>p l c. rel_sum (=) (\<lambda>x y. anonymous (completed t' l c x) = anonymous (completed t l c y)) (tParse t' p l c) (tParse t p l c))
     \<and> (\<forall>a b c d. tRead t' a = Inr c \<and> tRead t b = Inr d \<and> tSha t c = tSha t d \<longrightarrow> c = d)"

lemma full_loop_files:
  assumes "file_loop (full_one t) expired n fis st = Inr st'" and "f \<in> set (fst st')"
  shows "f \<in> set (fst st) \<or> (\<exists>fi\<in>set fis. \<exists>c parsed. tRead t (fiAbsPath fi) = Inr c
     \<and> tParse t (fiPath fi) (fiLanguage fi) c = Inr parsed \<and> f = completed t (fiLanguage fi) c parsed)"
  using assms(1)
proof (induction fis arbitrary: n st)
  case Nil
  then show ?case using assms(2) by simp
next
  case (Cons fi fis)
  then have "file_loop (full_one t) expired (Suc n) fis (full_one t fi st) = Inr st'"
    by (simp split: option.splits)
  from Cons.IH [OF this] consider "f \<in> set (fst (full_one t fi st))"
    | "\<exists>fi\<in>set fis. \<exists>c parsed. tRead t (fiAbsPath fi) = Inr c
        \<and> tParse t (fiPath fi) (fiLanguage fi) c = Inr parsed \<and> f = completed t (fiLanguage fi) c parsed" by blast
  then show ?case
  proof cases
    case 1
    then show ?thesis
      by (auto simp: full_one_def parse_into_def case_prod_unfold split: if_splits sum.splits)
  next
    case 2
    then show ?thesis by auto
  qed
qed

lemma earlier_scan_is_carried_ok:
  assumes later: "later t' t" and paths: "keeps_paths t'"
    and lang: "\<forall>fi\<in>set fis \<union> set (riFiles repo). fiLanguage fi = language (fiPath fi)"
    and run: "IndexRepository t' expired ids ds (Inr repo) reason = Inr prev"
  shows "carried_ok t fis (map_of (map (\<lambda>f. (frPath f, frContentHash f)) (ixFiles prev)))
           (map_of (map (\<lambda>f. (frPath f, f)) (ixFiles prev)))"
  unfolding carried_ok_def
proof (intro ballI allI impI)
  fix fi content prevFile
  assume fi: "fi \<in> set fis" and a: "tRead t (fiAbsPath fi) = Inr content
      \<and> map_of (map (\<lambda>f. (frPath f, frContentHash f)) (ixFiles prev)) (fiPath fi) = Some (tSha t content)
      \<and> map_of (map (\<lambda>f. (frPath f, f)) (ixFiles prev)) (fiPath fi) = Some prevFile"
  have same: "map_of (map (\<lambda>f. (frPath f, frContentHash f)) fs) p = map_option frContentHash (map_of (map (\<lambda>f. (frPath f, f)) fs) p)" for fs p
    by (induction fs) auto
  have hash: "frContentHash prevFile = tSha t content" using a unfolding same by auto
  have mem: "prevFile \<in> set (ixFiles prev)" and at: "frPath prevFile = fiPath fi"
    using a by (auto dest!: map_of_SomeD)
  obtain st where loop: "file_loop (full_one t') expired 0 (riFiles repo) ([], []) = Inr st" and files: "ixFiles prev = fst st"
    using run by (auto simp: IndexRepository_def index_scanned_def aggregated_def result_of_def Let_def split: option.splits sum.splits prod.splits)
  obtain g c parsed where g: "g \<in> set (riFiles repo)" and c: "tRead t' (fiAbsPath g) = Inr c"
      and parse: "tParse t' (fiPath g) (fiLanguage g) c = Inr parsed" and prevFile: "prevFile = completed t' (fiLanguage g) c parsed"
    using full_loop_files [OF loop, of prevFile] mem [unfolded files] by (auto intro: that)
  have "frPath prevFile = fiPath g" using paths parse by (auto simp: prevFile completed_def keeps_paths_def split: prod.split)
  then have p: "fiPath g = fiPath fi" using at by simp
  then have l: "fiLanguage g = fiLanguage fi" using lang fi g by auto
  have "frContentHash prevFile = tSha t c" using later by (simp add: prevFile completed_def later_def split: prod.split)
  then have "c = content" using later hash c a unfolding later_def by metis
  then have "rel_sum (=) (\<lambda>x y. anonymous (completed t' (fiLanguage fi) content x) = anonymous (completed t (fiLanguage fi) content y))
      (Inr parsed) (tParse t (fiPath fi) (fiLanguage fi) content)"
    using later parse p l unfolding later_def by metis
  then show "\<exists>parsed. tParse t (fiPath fi) (fiLanguage fi) content = Inr parsed
      \<and> anonymous prevFile = anonymous (completed t (fiLanguage fi) content parsed)"
    using prevFile l \<open>c = content\<close> by (cases "tParse t (fiPath fi) (fiLanguage fi) content") auto
qed

definition same_files :: "parsed_files \<Rightarrow> parsed_files \<Rightarrow> bool" where
  "same_files st st' \<longleftrightarrow> map anonymous (fst st) = map anonymous (fst st') \<and> snd st = snd st'"

lemma same_files_step:
  assumes carried: "carried_ok t fis hashes carry" and "fi \<in> set fis" and same: "same_files st st'"
  shows "same_files (incremental_one t hashes carry fi st) (full_one t fi st')"
proof (cases "has_grammar (fiLanguage fi)")
  case False
  then show ?thesis using same by (simp add: incremental_one_def full_one_def case_prod_unfold)
next
  case True
  show ?thesis
  proof (cases "tRead t (fiAbsPath fi)")
    case (Inl e)
    then show ?thesis using same True by (simp add: incremental_one_def full_one_def case_prod_unfold same_files_def)
  next
    case (Inr content)
    show ?thesis
    proof (cases "if hashes (fiPath fi) = Some (tSha t content) then carry (fiPath fi) else None")
      case None
      then show ?thesis using same True Inr
        by (simp add: incremental_one_def full_one_def case_prod_unfold parse_into_def same_files_def split: sum.split)
    next
      case (Some prevFile)
      then obtain parsed where "tParse t (fiPath fi) (fiLanguage fi) content = Inr parsed"
          "anonymous prevFile = anonymous (completed t (fiLanguage fi) content parsed)"
        using carried Inr \<open>fi \<in> set fis\<close> unfolding carried_ok_def by (metis option.distinct(1))
      then show ?thesis using same True Inr Some
        by (simp add: incremental_one_def full_one_def case_prod_unfold parse_into_def same_files_def)
    qed
  qed
qed

lemma same_files_loop:
  assumes carried: "carried_ok t fis hashes carry" and "same_files st st'"
  shows "case (file_loop (incremental_one t hashes carry) expired n fis st, file_loop (full_one t) expired n fis st') of
      (Inl e, Inl e') \<Rightarrow> e = e' | (Inr x, Inr y) \<Rightarrow> same_files x y | _ \<Rightarrow> False"
  using assms
proof (induction fis arbitrary: n st st')
  case (Cons fi fis)
  have rest: "carried_ok t fis hashes carry" using Cons.prems(1) by (simp add: carried_ok_def)
  show ?case
  proof (cases "expired n")
    case None
    then show ?thesis
      using Cons.IH [OF rest same_files_step [OF Cons.prems(1) _ Cons.prems(2), of fi]] by simp
  qed simp
qed simp

lemma anonymous_symbols: "map anonymous xs = map anonymous ys
    \<Longrightarrow> sum_list (map (\<lambda>f. int (length (frSymbols f))) xs) = sum_list (map (\<lambda>f. int (length (frSymbols f))) ys)"
proof -
  assume "map anonymous xs = map anonymous ys"
  then have "map (\<lambda>f. int (length (frSymbols f))) (map anonymous xs) = map (\<lambda>f. int (length (frSymbols f))) (map anonymous ys)" by simp
  moreover have "map (\<lambda>f. int (length (frSymbols f))) (map anonymous zs) = map (\<lambda>f. int (length (frSymbols f))) zs" for zs
    by (simp add: anonymous_def)
  ultimately show ?thesis by metis
qed

text \<open>
  C39: the incremental scan, which takes over every file whose content hash is known, ends as the full
  scan does: with the same failure, or with the same files (up to the ids of their symbols), the same
  errors and the same totals of files and symbols. The carried results must be what parsing gives, as
  those of an earlier scan are. Relations are not compared: they name the random symbol ids.
\<close>

theorem incremental_scan_agrees_with_full:
  assumes carried: "carried_ok t (scanned scan) hashes carry" and reason: "reason_IsValid reason"
  shows "case (IndexRepositoryIncremental t expired ids ds scan hashes carry, IndexRepository t expired ids' ds' scan reason) of
       (Inl e, Inl e') \<Rightarrow> e = e'
     | (Inr r, Inr r') \<Rightarrow> map anonymous (ixFiles r) = map anonymous (ixFiles r') \<and> ixErrors r = ixErrors r'
         \<and> ixTotalFiles r = ixTotalFiles r' \<and> ixTotalSymbols r = ixTotalSymbols r'
     | _ \<Rightarrow> False"
proof (cases scan)
  case (Inl e)
  then show ?thesis using reason
    by (simp add: IndexRepositoryIncremental_def IndexRepository_def index_scanned_def validateFullReindexReason_def)
next
  case (Inr repo)
  have "carried_ok t (riFiles repo) hashes carry" using carried Inr by (simp add: scanned_def)
  note loops = same_files_loop [OF this, of "([], [])" "([], [])" expired 0]
  have shape: "ixFiles (aggregated i d (result_of n p b fs es)) = fs" "ixErrors (aggregated i d (result_of n p b fs es)) = es"
      "ixTotalFiles (aggregated i d (result_of n p b fs es)) = int (length fs)"
      "ixTotalSymbols (aggregated i d (result_of n p b fs es)) = sum_list (map (\<lambda>f. int (length (frSymbols f))) fs)"
    for i d n p b fs es by (simp_all add: aggregated_def result_of_def Let_def)
  have len: "length fs = length gs" if "map anonymous fs = map anonymous gs" for fs gs using that by (metis length_map)
  show ?thesis
  proof (cases "file_loop (incremental_one t hashes carry) expired 0 (riFiles repo) ([], [])")
    case (Inl e)
    then show ?thesis using loops reason \<open>scan = Inr repo\<close>
      by (auto simp: IndexRepositoryIncremental_def IndexRepository_def index_scanned_def validateFullReindexReason_def
          same_files_def split: sum.splits)
  next
    case (Inr st)
    then obtain st' where st': "file_loop (full_one t) expired 0 (riFiles repo) ([], []) = Inr st'" "same_files st st'"
      using loops by (auto simp: same_files_def split: sum.splits)
    then have same: "map anonymous (fst st) = map anonymous (fst st')" "snd st = snd st'" by (simp_all add: same_files_def)
    show ?thesis using Inr st'(1) reason \<open>scan = Inr repo\<close> same len [OF same(1)] anonymous_symbols [OF same(1)]
      by (simp add: IndexRepositoryIncremental_def IndexRepository_def index_scanned_def validateFullReindexReason_def
          case_prod_unfold shape)
  qed
qed

section \<open>Modules\<close>

lemma dirFiles_count: "dirFiles files dir
    = (let n = length (filter (\<lambda>f. Dir (frPath f) = dir) files) in if n = 0 then None else Some (int n))"
proof (induction files rule: rev_induct)
  case (snoc f files)
  then show ?case by (auto simp: dirFiles_def Let_def filter_empty_conv)
qed (simp add: dirFiles_def)

text \<open>The modules are the directories of the files, each with the number of its files.\<close>

lemma modules_count_the_files:
  assumes "enumerates (dirFiles files) ds" "length ids = length ds"
  shows "map mdPath (ExtractModules ids ds files) = ds" "set ds = (\<lambda>f. Dir (frPath f)) ` set files" "distinct ds"
    "\<forall>m\<in>set (ExtractModules ids ds files). mdFileCount m = int (length (filter (\<lambda>f. Dir (frPath f) = mdPath m) files))"
proof -
  show "map mdPath (ExtractModules ids ds files) = ds"
    using assms(2) by (simp add: ExtractModules_def comp_def case_prod_unfold)
  have "dirFiles files d \<noteq> None \<longleftrightarrow> d \<in> (\<lambda>f. Dir (frPath f)) ` set files" for d
    by (auto simp: dirFiles_count Let_def filter_empty_conv)
  then show "set ds = (\<lambda>f. Dir (frPath f)) ` set files" using assms(1) by (auto simp: enumerates_def)
  show "distinct ds" using assms(1) by (simp add: enumerates_def)
  show "\<forall>m\<in>set (ExtractModules ids ds files). mdFileCount m = int (length (filter (\<lambda>f. Dir (frPath f) = mdPath m) files))"
    by (auto simp: ExtractModules_def dirFiles_count Let_def)
qed

text \<open>The special name for the root never survives: the last component of \<open>.\<close> is taken afterwards.\<close>

lemma root_module_is_named_dot: "moduleName ''.'' = ''.''"
  by (simp add: moduleName_def)

section \<open>Branches\<close>

lemma TrimSpace_line:
  assumes "a \<noteq> []" "\<not> is_space (hd a)" "\<not> is_space (last a)" "is_space c"
  shows "TrimSpace (a @ [c]) = a"
proof -
  have "dropWhile is_space (a @ [c]) = a @ [c]" using assms(1,2) by (cases a) auto
  moreover have "dropWhile is_space (rev a) = rev a" using assms(1,3) by (cases a rule: rev_cases) auto
  ultimately show ?thesis using assms(4) by (simp add: TrimSpace_def)
qed

lemma branch_of_an_attached_head:
  assumes "\<forall>c\<in>set b. \<not> is_space c" "b \<noteq> []"
  shows "parse_head (''ref: refs/heads/'' @ b @ [CHR 0x0A]) = Inr b"
proof -
  have "TrimSpace (''ref: refs/heads/'' @ b @ [CHR 0x0A]) = ''ref: refs/heads/'' @ b"
    using TrimSpace_line [of "''ref: refs/heads/'' @ b" "CHR 0x0A"] assms by (simp add: is_space_def last_append)
  moreover have "HasPrefix (''ref: refs/heads/'' @ b) ''ref: refs/heads/''" unfolding HasPrefix_iff by blast
  ultimately show ?thesis unfolding parse_head_def Let_def by (simp only: TrimPrefix_append if_True)
qed

lemma unknown_head_asks_git:
  "fastHeadRef fs repoPath = Inl (HeadError e) \<Longrightarrow> gitMetadata repoPath = Inr (Some b) \<Longrightarrow> HeadRef fs gitMetadata repoPath = Inr b"
  by (simp add: HeadRef_def)

section \<open>Instances\<close>

definition demo_tools :: tools where
  "demo_tools = \<lparr>tStat = (\<lambda>p. if p = ''/repo/b.go'' then StatFile else NotExist), tRead = (\<lambda>p. Inr ''package b''),
     tParse = (\<lambda>p l c. Inr ((demo_file p [] [])\<lparr>frLanguage := l\<rparr>)), tSha = id, tAI = (\<lambda>c l ys. (Fin 0, []))\<rparr>"

definition demo_before :: IndexResult where
  "demo_before = result_of ''repo'' ''/repo'' ''main'' [demo_file ''a.go'' [] []] []"

definition demo_after :: IndexResult where
  "demo_after = projr (IndexFiles demo_tools (\<lambda>_. Inr ''main'') (\<lambda>_. None) [''m''] [''.''] ''/repo'' [''a.go'', ''b.go''] ''main''
     (Some demo_before))"

lemma demo_after_run:
  "IndexFiles demo_tools (\<lambda>_. Inr ''main'') (\<lambda>_. None) [''m''] [''.''] ''/repo'' [''a.go'', ''b.go''] ''main'' (Some demo_before) = Inr demo_after"
  by (simp add: demo_after_def IndexFiles_def)

lemma demo_tools_paths: "keeps_paths demo_tools"
  by (simp add: keeps_paths_def demo_tools_def demo_file_def)

lemma demo_delta_now:
  "file_now demo_tools ''/repo'' ''b.go'' None = Some (completed demo_tools ''go'' ''package b'' (demo_file ''b.go'' [] []))"
  by code_simp

theorem index_files_is_a_delta_witness:
  "file_at (ixFiles demo_after) ''b.go'' = Some (completed demo_tools ''go'' ''package b'' (demo_file ''b.go'' [] []))"
  using index_files_is_a_delta [OF demo_tools_paths _ _ demo_after_run, of "''b.go''"] demo_delta_now
  by (simp add: demo_before_def result_of_def file_at_def demo_file_def)

definition demo_scan :: "scan_error + RepoInfo" where
  "demo_scan = Inr \<lparr>riName = ''repo'', riPath = ''/repo'',
     riFiles = [\<lparr>fiPath = ''b.go'', fiAbsPath = ''/repo/b.go'', fiLanguage = ''go'', fiSize = 9\<rparr>]\<rparr>"

text \<open>A parser that makes up another symbol id each time, and a result of an earlier run.\<close>

definition demo_scanner :: tools where
  "demo_scanner = demo_tools\<lparr>tParse := (\<lambda>p l c.
     Inr ((demo_file p [demo_symbol ''new'' ''b'' SymbolFunction p False] [])\<lparr>frLanguage := l\<rparr>))\<rparr>"

definition demo_carry :: FileResult where
  "demo_carry = completed demo_scanner ''go'' ''package b'' (demo_file ''b.go'' [demo_symbol ''old'' ''b'' SymbolFunction ''b.go'' False] [])"

lemma demo_carried: "carried_ok demo_scanner (scanned demo_scan) [''b.go'' \<mapsto> ''package b''] [''b.go'' \<mapsto> demo_carry]"
  by (auto simp: carried_ok_def scanned_def demo_scan_def demo_carry_def demo_scanner_def demo_tools_def completed_def
      anonymous_def demo_file_def demo_symbol_def)

lemma demo_reuse:
  "\<exists>r r'. IndexRepositoryIncremental demo_scanner (\<lambda>_. None) [''m''] [''.''] demo_scan [''b.go'' \<mapsto> ''package b''] [''b.go'' \<mapsto> demo_carry] = Inr r
     \<and> IndexRepository demo_scanner (\<lambda>_. None) [''m''] [''.''] demo_scan ReasonOperatorRebuild = Inr r'
     \<and> ixFiles r = [demo_carry]"
  by (simp add: IndexRepositoryIncremental_def IndexRepository_def index_scanned_def demo_scan_def validateFullReindexReason_def
      incremental_one_def full_one_def parse_into_def has_grammar_def aggregated_def result_of_def Let_def
      demo_scanner_def demo_tools_def)

theorem incremental_scan_agrees_with_full_witness:
  "\<exists>r r'. IndexRepositoryIncremental demo_scanner (\<lambda>_. None) [''m''] [''.''] demo_scan [''b.go'' \<mapsto> ''package b''] [''b.go'' \<mapsto> demo_carry] = Inr r
     \<and> IndexRepository demo_scanner (\<lambda>_. None) [''m''] [''.''] demo_scan ReasonOperatorRebuild = Inr r'
     \<and> ixFiles r = [demo_carry] \<and> map anonymous (ixFiles r') = [anonymous demo_carry]"
  using incremental_scan_agrees_with_full [OF demo_carried, of ReasonOperatorRebuild "\<lambda>_. None" "[''m'']" "[''.'']" "[''m'']" "[''.'']"]
    demo_reuse
  by auto

end
