(* ===== verification/Watch_Event.thy ===== *)
theory Watch_Event
  imports Graph_Impact Index_Files
begin

text \<open>
  Change events of the watch loop and what makes one acceptable (\<^verbatim>\<open>internal/changewatch/types.go\<close>,
  \<^verbatim>\<open>errors.go\<close>, \<^verbatim>\<open>path.go\<close>), and the keys, path sets and diffs that the router derives from an event
  (\<^verbatim>\<open>router.go\<close>). Statuses and source kinds are strings with named constants, as in the code.
\<close>

section \<open>Events\<close>

abbreviation FileChangeAdded :: string where "FileChangeAdded \<equiv> ''added''"
abbreviation FileChangeModified :: string where "FileChangeModified \<equiv> ''modified''"
abbreviation FileChangeDeleted :: string where "FileChangeDeleted \<equiv> ''deleted''"
abbreviation FileChangeRenamed :: string where "FileChangeRenamed \<equiv> ''renamed''"

definition status_IsValid :: "string \<Rightarrow> bool" where
  "status_IsValid s \<longleftrightarrow> s \<in> {FileChangeAdded, FileChangeModified, FileChangeDeleted, FileChangeRenamed}"

abbreviation SourceKindFsnotifyLocal :: string where "SourceKindFsnotifyLocal \<equiv> ''fsnotify_local''"
abbreviation SourceKindMCPRecordChange :: string where "SourceKindMCPRecordChange \<equiv> ''mcp_record_change''"
abbreviation SourceKindHTTPIngress :: string where "SourceKindHTTPIngress \<equiv> ''http_ingress''"

definition kind_IsValid :: "string \<Rightarrow> bool" where
  "kind_IsValid k \<longleftrightarrow> k \<in> {SourceKindFsnotifyLocal, SourceKindMCPRecordChange, SourceKindHTTPIngress}"

record FileChange =
  fcPath :: string
  fcStatus :: string
  fcOldPath :: string
  fcContentHashAfter :: string

record ChangeSource =
  soKind :: string
  soConnectorID :: string
  soActor :: string
  soActorDisplay :: string
  soIntent :: string
  soRequirementIDs :: "string list"

record Trust =
  trVerified :: bool
  trVerificationMethod :: string
  trReceivedVia :: string

record ChangeEvent =
  evSchemaVersion :: string
  evEventID :: string
  evRepositoryID :: string
  evOccurredAt :: time
  evReceivedAt :: time
  evBranch :: string
  evBeforeRef :: string
  evAfterRef :: string
  evFiles :: "FileChange list"
  evSource :: ChangeSource
  evTrust :: Trust

datatype SubmitOutcome =
    OutcomeIndexing | OutcomeDeduped | OutcomeRateLimited | OutcomeBreakerTripped | OutcomeRejectedNoDelta
  | OutcomeRejectedInvalidPaths | OutcomeRejectedBranchMismatch | OutcomeRejectedSchema | OutcomeRejectedUnknownRepo

datatype watch_error =
    ErrEmptyDelta
  | ErrInvalidPath string
  | ErrBranchMismatch
  | ErrHeadUnknown head_error
  | ErrUnknownSourceKind
  | ErrUnknownFileStatus
  | ErrUnsupportedSchemaMajor string
  | ErrContainmentViolation
  | ErrChangeWatchDisabled
  | ErrUnknownRepo
  | ErrBreakerOpen
  | ErrRateLimited
  | Required string
  | ErrIndexFiles index_error
  | ErrMerge go_error

section \<open>Paths\<close>

definition validateRelPath :: "string \<Rightarrow> watch_error option" where
  "validateRelPath p =
     (if p = [] then Some (ErrInvalidPath ''empty path'')
      else if CHR 0x5C \<in> set p then Some (ErrInvalidPath ''backslash separator'')
      else if HasPrefix p ''/'' then Some (ErrInvalidPath ''leading /'')
      else if HasPrefix p ''./'' then Some (ErrInvalidPath ''leading ./'')
      else if Contains p ''//'' then Some (ErrInvalidPath ''double-slash'')
      else if Contains p ''/./'' then Some (ErrInvalidPath ''/./ tricks'')
      else if p = ''..'' \<or> HasPrefix p ''../'' \<or> Contains p ''/../'' \<or> HasSuffix p ''/..''
        then Some (ErrInvalidPath ''.. component'')
      else None)"

text \<open>\<^verbatim>\<open>filepath.ToSlash\<close>: \<open>sep\<close> is the separator of the operating system.\<close>

definition ToSlash :: "char \<Rightarrow> string \<Rightarrow> string" where
  "ToSlash sep p = map (\<lambda>c. if c = sep then slash else c) p"

definition NormalizePath :: "char \<Rightarrow> string \<Rightarrow> watch_error + string" where
  "NormalizePath sep p =
     (if p = [] then Inl (ErrInvalidPath ''empty path'')
      else let cleaned = ToSlash sep p
        in if cleaned \<noteq> p then Inl (ErrInvalidPath ''backslash separator'')
           else case validateRelPath cleaned of
               Some e \<Rightarrow> Inl e
             | None \<Rightarrow> if HasSuffix cleaned ''/'' then Inl (ErrInvalidPath ''trailing /'') else Inr cleaned)"

fun normalize_loop :: "char \<Rightarrow> string list \<Rightarrow> string list \<Rightarrow> watch_error + string list" where
  "normalize_loop sep [] out = Inr out"
| "normalize_loop sep (p # ps) out = (case NormalizePath sep p of
      Inl e \<Rightarrow> Inl e
    | Inr q \<Rightarrow> normalize_loop sep ps (out @ [q]))"

definition NormalizePaths :: "char \<Rightarrow> string list \<Rightarrow> watch_error + string list" where
  "NormalizePaths sep paths = (if paths = [] then Inr [] else normalize_loop sep paths [])"

section \<open>Validation\<close>

definition is_digit :: "char \<Rightarrow> bool" where
  "is_digit c \<longleftrightarrow> 48 \<le> (of_char c :: nat) \<and> (of_char c :: nat) \<le> 57"

definition digits_value :: "string \<Rightarrow> int" where
  "digits_value ds = foldl (\<lambda>n c. 10 * n + (of_char c - 48)) 0 ds"

text \<open>\<^verbatim>\<open>strconv.Atoi\<close>: an optional sign and digits that fit 64 bits.\<close>

definition Atoi :: "string \<Rightarrow> int option" where
  "Atoi s =
     (let (neg, ds) = (case s of c # cs \<Rightarrow> if c = CHR ''-'' then (True, cs) else if c = CHR ''+'' then (False, cs) else (False, s)
          | [] \<Rightarrow> (False, s));
          n = (if neg then - digits_value ds else digits_value ds)
      in if ds = [] \<or> \<not> list_all is_digit ds then None
         else if n < - (2 ^ 63) \<or> 2 ^ 63 \<le> n then None
         else Some n)"

definition schemaMajor :: "string \<Rightarrow> watch_error + int" where
  "schemaMajor v0 =
     (let v = TrimSpace v0
      in if v = [] then Inl (ErrUnsupportedSchemaMajor ''empty schema_version'')
         else let majorStr = takeWhile (\<lambda>c. c \<noteq> CHR ''.'') v
           in case Atoi majorStr of
                None \<Rightarrow> Inl (ErrUnsupportedSchemaMajor v)
              | Some n \<Rightarrow> if n < 0 then Inl (ErrUnsupportedSchemaMajor (''negative major '' @ v)) else Inr n)"

definition validate_file :: "FileChange \<Rightarrow> (SubmitOutcome \<times> watch_error) option" where
  "validate_file f =
     (if \<not> status_IsValid (fcStatus f) then Some (OutcomeRejectedSchema, ErrUnknownFileStatus)
      else case validateRelPath (fcPath f) of
          Some e \<Rightarrow> Some (OutcomeRejectedInvalidPaths, e)
        | None \<Rightarrow>
            if fcStatus f = FileChangeRenamed
            then if fcOldPath f = [] then Some (OutcomeRejectedSchema, Required ''old_path'')
                 else case validateRelPath (fcOldPath f) of
                     Some e \<Rightarrow> Some (OutcomeRejectedInvalidPaths, e)
                   | None \<Rightarrow> None
            else None)"

fun validate_files :: "FileChange list \<Rightarrow> (SubmitOutcome \<times> watch_error) option" where
  "validate_files [] = None"
| "validate_files (f # fs) = (case validate_file f of Some r \<Rightarrow> Some r | None \<Rightarrow> validate_files fs)"

definition Validate_event :: "ChangeEvent option \<Rightarrow> (SubmitOutcome \<times> watch_error) option" where
  "Validate_event ep = (case ep of
       None \<Rightarrow> Some (OutcomeRejectedSchema, Required ''event'')
     | Some e \<Rightarrow>
         if evSchemaVersion e = [] then Some (OutcomeRejectedSchema, Required ''schema_version'')
         else case schemaMajor (evSchemaVersion e) of
             Inl err \<Rightarrow> Some (OutcomeRejectedSchema, err)
           | Inr major \<Rightarrow>
               if major \<noteq> 0 \<and> major \<noteq> 1 then Some (OutcomeRejectedSchema, ErrUnsupportedSchemaMajor [])
               else if evEventID e = [] then Some (OutcomeRejectedSchema, Required ''event_id'')
               else if evRepositoryID e = [] then Some (OutcomeRejectedSchema, Required ''repository_id'')
               else if evBranch e = [] then Some (OutcomeRejectedSchema, Required ''branch'')
               else if IsZero (evOccurredAt e) then Some (OutcomeRejectedSchema, Required ''occurred_at'')
               else if \<not> kind_IsValid (soKind (evSource e)) then Some (OutcomeRejectedSchema, ErrUnknownSourceKind)
               else if evFiles e = [] then Some (OutcomeRejectedNoDelta, ErrEmptyDelta)
               else validate_files (evFiles e))"

section \<open>What the router derives from an event\<close>

definition hashed_files :: "ChangeEvent \<Rightarrow> FileChange list" where
  "hashed_files ev = filter (\<lambda>f. fcContentHashAfter f \<noteq> []) (evFiles ev)"

text \<open>The insertion sort of the code is \<^verbatim>\<open>sort\<close>; of several hashes for a path the last one stays.\<close>

definition contentHashKey :: "ChangeEvent \<Rightarrow> string" where
  "contentHashKey ev =
     (let paths = map fcPath (hashed_files ev);
          hashes = fold (\<lambda>f m. m(fcPath f \<mapsto> fcContentHashAfter f)) (hashed_files ev) Map.empty
      in if paths = [] then []
         else fold (\<lambda>p out. out @ ''|'' @ p @ ''='' @ (case hashes p of Some h \<Rightarrow> h | None \<Rightarrow> [])) (sort paths)
                (''ch:'' @ evRepositoryID ev))"

definition affected_step :: "FileChange \<Rightarrow> string list \<Rightarrow> string list" where
  "affected_step f out =
     (let out1 = (if fcPath f \<in> set out then out else out @ [fcPath f])
      in if fcStatus f = FileChangeRenamed \<and> fcOldPath f \<noteq> [] \<and> fcOldPath f \<notin> set out1 then out1 @ [fcOldPath f] else out1)"

definition affectedPathsFor :: "ChangeEvent \<Rightarrow> string list" where
  "affectedPathsFor ev = fold affected_step (evFiles ev) []"

definition strip_heads :: "string \<Rightarrow> string" where
  "strip_heads a = (if length a > length ''refs/heads/'' \<and> take (length ''refs/heads/'') a = ''refs/heads/''
     then drop (length ''refs/heads/'') a else a)"

definition branchesEqual :: "string \<Rightarrow> string \<Rightarrow> bool" where
  "branchesEqual a b \<longleftrightarrow> strip_heads a = strip_heads b"

definition containmentViolations :: "IndexResult \<Rightarrow> IndexResult \<Rightarrow> string list \<Rightarrow> string list" where
  "containmentViolations prev merged affected =
     map frPath (filter (\<lambda>f. frPath f \<notin> frPath ` set (ixFiles prev) \<and> frPath f \<notin> set affected) (ixFiles merged))"

definition file_diff :: "FileChange \<Rightarrow> ImpactFileDiff" where
  "file_diff f = \<lparr>idPath = fcPath f, idOldPath = fcOldPath f, idStatus = fcStatus f, idAdditions = 0, idDeletions = 0\<rparr>"

definition buildFileDiffs :: "ChangeEvent \<Rightarrow> ImpactFileDiff list \<times> string set" where
  "buildFileDiffs ev = (map file_diff (evFiles ev),
     fold (\<lambda>f ch. let ch1 = insert (fcPath f) ch in if fcOldPath f \<noteq> [] then insert (fcOldPath f) ch1 else ch1) (evFiles ev) {})"

definition describeReason :: "ChangeEvent \<Rightarrow> string" where
  "describeReason ev =
     (let actor = (if soActor (evSource ev) = [] then soKind (evSource ev) else soActor (evSource ev))
      in if length (evFiles ev) = 1 then actor @ '' edited '' @ fcPath (evFiles ev ! 0)
         else actor @ '' touched '' @ Itoa (int (length (evFiles ev))) @ '' files'')"

section \<open>Acceptable paths\<close>

lemma last_component: "slash \<notin> set c \<Longrightarrow> last (Split p slash) = c \<longleftrightarrow> p = c \<or> (\<exists>a. p = a @ slash # c)"
proof
  assume c: "slash \<notin> set c" and l: "last (Split p slash) = c"
  show "p = c \<or> (\<exists>a. p = a @ slash # c)"
  proof (cases "butlast (Split p slash) = []")
    case True
    then have "Split p slash = [c]" using l append_butlast_last_id [OF Split_nonempty, of p slash] by simp
    then show ?thesis using Join_Split [of p slash] by simp
  next
    case False
    have "Split p slash = butlast (Split p slash) @ [c]" using l append_butlast_last_id [OF Split_nonempty, of p slash] by simp
    then have "p = Join (butlast (Split p slash)) ''/'' @ ''/'' @ c"
      using Join_append [OF False, of "[c]" "''/''"] Join_Split [of p slash] by (metis Join.simps(2) not_Cons_self2)
    then show ?thesis by auto
  qed
next
  assume c: "slash \<notin> set c" and "p = c \<or> (\<exists>a. p = a @ slash # c)"
  then show "last (Split p slash) = c" by (auto simp: Split_append_gen Split_no_char)
qed

lemma early_component:
  assumes c: "slash \<notin> set c"
  shows "c \<in> set (butlast (Split p slash)) \<longleftrightarrow> HasPrefix p (c @ ''/'') \<or> Contains p (''/'' @ c @ ''/'')"
proof
  assume "c \<in> set (butlast (Split p slash))"
  then obtain xs ys where b: "butlast (Split p slash) = xs @ c # ys" by (meson split_list)
  let ?l = "last (Split p slash)"
  have s: "Split p slash = xs @ c # ys @ [?l]" using b append_butlast_last_id [OF Split_nonempty, of p slash] by (metis append.assoc append_Cons)
  have tail: "Join (c # ys @ [?l]) ''/'' = c @ ''/'' @ Join (ys @ [?l]) ''/''" by (simp add: Join_Cons)
  show "HasPrefix p (c @ ''/'') \<or> Contains p (''/'' @ c @ ''/'')"
  proof (cases "xs = []")
    case True
    then have "p = c @ ''/'' @ Join (ys @ [?l]) ''/''" using s tail Join_Split [of p slash] by (metis append_Nil)
    then show ?thesis by (metis HasPrefix_iff append.assoc)
  next
    case False
    have "p = Join xs ''/'' @ ''/'' @ c @ ''/'' @ Join (ys @ [?l]) ''/''"
      using Join_append [OF False, of "c # ys @ [?l]" "''/''"] s tail Join_Split [of p slash] by (metis list.distinct(1))
    then show ?thesis by (metis Contains_append append.assoc)
  qed
next
  assume "HasPrefix p (c @ ''/'') \<or> Contains p (''/'' @ c @ ''/'')"
  then consider t where "p = c @ slash # t" | a t where "p = a @ slash # c @ slash # t"
    by (auto simp: HasPrefix_iff Contains_iff)
  then show "c \<in> set (butlast (Split p slash))"
    by cases (simp_all add: Split_no_char [OF c] Split_append_gen butlast_append)
qed

lemma any_component: "c \<in> set (Split p slash) \<longleftrightarrow> c \<in> set (butlast (Split p slash)) \<or> last (Split p slash) = c"
  using append_butlast_last_id [OF Split_nonempty, of p slash] by (metis Un_iff list.set(1) list.set(2) set_append insert_iff empty_iff)

text \<open>The rejected patterns, read as conditions on the components.\<close>

lemma no_empty_component:
  "[] \<notin> set (Split p slash) \<longleftrightarrow> p \<noteq> [] \<and> \<not> HasPrefix p ''/'' \<and> \<not> Contains p ''//'' \<and> \<not> HasSuffix p ''/''"
  unfolding any_component early_component [of "[]", simplified] last_component [of "[]", simplified]
  by (auto simp: HasSuffix_iff)

lemma no_parent_component:
  "''..'' \<notin> set (Split p slash)
     \<longleftrightarrow> \<not> (p = ''..'' \<or> HasPrefix p ''../'' \<or> Contains p ''/../'' \<or> HasSuffix p ''/..'')"
  unfolding any_component early_component [of "''..''", simplified] last_component [of "''..''", simplified]
  by (auto simp: HasSuffix_iff)

lemma no_early_dot: "''.'' \<notin> set (butlast (Split p slash)) \<longleftrightarrow> \<not> HasPrefix p ''./'' \<and> \<not> Contains p ''/./''"
  unfolding early_component [of "''.''", simplified] by auto

lemma ToSlash_same: "ToSlash sep p = p \<longleftrightarrow> sep = slash \<or> sep \<notin> set p"
  unfolding ToSlash_def by (induction p) auto

definition normal_path :: "string \<Rightarrow> bool" where
  "normal_path p \<longleftrightarrow> CHR 0x5C \<notin> set p \<and> (\<forall>c\<in>set (Split p slash). c \<noteq> [] \<and> c \<noteq> ''..'')
     \<and> ''.'' \<notin> set (butlast (Split p slash))"

lemma normal_path_tests: "normal_path p \<longleftrightarrow> validateRelPath p = None \<and> \<not> HasSuffix p ''/''"
proof -
  have "normal_path p \<longleftrightarrow> CHR 0x5C \<notin> set p \<and> [] \<notin> set (Split p slash) \<and> ''..'' \<notin> set (Split p slash)
      \<and> ''.'' \<notin> set (butlast (Split p slash))"
    unfolding normal_path_def by blast
  also have "\<dots> \<longleftrightarrow> validateRelPath p = None \<and> \<not> HasSuffix p ''/''"
    unfolding no_empty_component no_parent_component no_early_dot validateRelPath_def by simp
  finally show ?thesis .
qed

text \<open>
  C16: on every operating system the ingress accepts exactly the non-empty paths without a backslash that
  have no empty component, no component \<open>..\<close> and no component \<open>.\<close> except possibly as the last one (so \<open>.\<close>
  and \<open>src/.\<close> are accepted, see \<open>final_dot_is_accepted\<close>); it hands an accepted path on unchanged.
\<close>

theorem normalize_accepts_exactly_the_normal_paths:
  assumes "sep = slash \<or> sep = CHR 0x5C"
  shows "NormalizePath sep p = Inr q \<longleftrightarrow> q = p \<and> normal_path p"
proof (cases "p = []")
  case True
  then show ?thesis by (simp add: NormalizePath_def normal_path_def)
next
  case False
  have "CHR 0x5C \<notin> set p" if "validateRelPath p = None" using that by (simp add: validateRelPath_def split: if_splits)
  then have "validateRelPath p = None \<longrightarrow> ToSlash sep p = p" using assms by (auto simp: ToSlash_same)
  then show ?thesis using False
    by (auto simp: NormalizePath_def normal_path_tests Let_def split: option.splits if_splits)
qed

theorem normalize_accepts_exactly_the_normal_paths_witness:
  "NormalizePath (CHR 0x5C) ''src/a.go'' = Inr ''src/a.go''"
proof -
  have "normal_path ''src/a.go''" by code_simp
  then show ?thesis using normalize_accepts_exactly_the_normal_paths [of "CHR 0x5C" "''src/a.go''" "''src/a.go''"] by simp
qed

text \<open>A directory passes as a file when it is written with a final dot.\<close>

lemma final_dot_is_accepted: "NormalizePath slash ''.'' = Inr ''.''" "NormalizePath slash ''src/.'' = Inr ''src/.''"
  by code_simp+

text \<open>Two events with the same hashed files have one key, whatever else they change.\<close>

lemma key_ignores_unhashed_files:
  "evRepositoryID ev = evRepositoryID ev' \<Longrightarrow> hashed_files ev = hashed_files ev' \<Longrightarrow> contentHashKey ev = contentHashKey ev'"
  by (simp add: contentHashKey_def)

lemma affectedPathsFor_distinct: "distinct (affectedPathsFor ev)"
proof -
  have "distinct (fold affected_step fs out)" if "distinct out" for fs out
    using that by (induction fs arbitrary: out) (simp_all add: affected_step_def Let_def)
  then show ?thesis by (simp add: affectedPathsFor_def)
qed

lemma affectedPathsFor_paths: "set (affectedPathsFor ev)
    = fcPath ` set (evFiles ev) \<union> fcOldPath ` {f \<in> set (evFiles ev). fcStatus f = FileChangeRenamed \<and> fcOldPath f \<noteq> []}"
proof -
  have step: "set (affected_step f out) = set out \<union> {fcPath f} \<union> (if fcStatus f = FileChangeRenamed \<and> fcOldPath f \<noteq> [] then {fcOldPath f} else {})" for f out
    by (auto simp: affected_step_def Let_def)
  have "set (fold affected_step fs out) = set out \<union> fcPath ` set fs
      \<union> fcOldPath ` {f \<in> set fs. fcStatus f = FileChangeRenamed \<and> fcOldPath f \<noteq> []}" for fs out
    by (induction fs arbitrary: out) (simp, auto simp: step split: if_splits)
  then show ?thesis by (simp add: affectedPathsFor_def)
qed

lemma affectedPathsFor_nonempty: "evFiles ev \<noteq> [] \<Longrightarrow> affectedPathsFor ev \<noteq> []"
  using affectedPathsFor_paths [of ev] by auto

lemma containmentViolations_none:
  "containmentViolations prev merged affected = [] \<longleftrightarrow> frPath ` set (ixFiles merged) \<subseteq> frPath ` set (ixFiles prev) \<union> set affected"
  by (auto simp: containmentViolations_def filter_empty_conv)

text \<open>The indexer never produces a file outside the declared delta.\<close>

lemma indexer_results_are_contained:
  assumes "keeps_paths t" "distinct (map frPath (ixFiles prev))"
    and "IndexFiles t head expired ids ds repoPath (affectedPathsFor ev) branch (Some prev) = Inr r"
  shows "containmentViolations prev r (affectedPathsFor ev) = []"
  unfolding containmentViolations_none by (rule index_files_contained [OF assms(1,2) affectedPathsFor_distinct assms(3)])

end
