(* ===== verification/Watch_Breaker.thy ===== *)
theory Watch_Breaker
  imports Go_Prelude
begin

text \<open>
  The throttle of one connector and the circuit breaker of one repository
  (\<^verbatim>\<open>internal/changewatch/breaker.go\<close>). Tokens are exact rationals where the code has floats.
\<close>

section \<open>Token bucket\<close>

record tokenBucket =
  tbRatePerMin :: int
  tbTokens :: rat
  tbLast :: time

definition newTokenBucket :: "int \<Rightarrow> tokenBucket" where
  "newTokenBucket ratePerMin = \<lparr>tbRatePerMin = ratePerMin, tbTokens = of_int ratePerMin, tbLast = zero_time\<rparr>"

definition Seconds :: "duration \<Rightarrow> rat" where
  "Seconds d = of_int d / of_int Second"

definition bucket_allow :: "time \<Rightarrow> tokenBucket \<Rightarrow> bool \<times> tokenBucket" where
  "bucket_allow now b =
     (if tbRatePerMin b \<le> 0 then (True, b)
      else let b1 = (if IsZero (tbLast b) then b\<lparr>tbLast := now\<rparr> else b);
               elapsed = Seconds (time_Sub now (tbLast b1));
               b2 = (if elapsed > 0
                 then b1\<lparr>tbTokens := min (of_int (tbRatePerMin b1)) (tbTokens b1 + elapsed * of_int (tbRatePerMin b1) / 60),
                         tbLast := now\<rparr>
                 else b1)
        in if tbTokens b2 \<ge> 1 then (True, b2\<lparr>tbTokens := tbTokens b2 - 1\<rparr>) else (False, b2))"

section \<open>Breaker\<close>

record windowBreaker =
  wbRatePerMin :: int
  wbHead :: time
  wbCounts :: "int list"
  wbCooldown :: time

definition newWindowBreaker :: "int \<Rightarrow> windowBreaker" where
  "newWindowBreaker ratePerMin = \<lparr>wbRatePerMin = ratePerMin, wbHead = zero_time, wbCounts = replicate 5 0, wbCooldown = zero_time\<rparr>"

definition truncateToMinute :: "time \<Rightarrow> time" where
  "truncateToMinute t = t - t mod Minute"

definition allOverThreshold :: "windowBreaker \<Rightarrow> bool" where
  "allOverThreshold b \<longleftrightarrow> list_all (\<lambda>c. wbRatePerMin b \<le> c) (wbCounts b)"

definition advanceTo :: "time \<Rightarrow> windowBreaker \<Rightarrow> windowBreaker" where
  "advanceTo now b =
     (let currentMin = truncateToMinute now
      in if IsZero (wbHead b) then b\<lparr>wbHead := currentMin\<rparr>
         else if \<not> After currentMin (wbHead b) then b
         else let deltaMin = nat (time_Sub currentMin (wbHead b) div Minute)
           in if length (wbCounts b) \<le> deltaMin then b\<lparr>wbCounts := replicate 5 0, wbHead := currentMin\<rparr>
              else b\<lparr>wbCounts := map (\<lambda>i. if deltaMin \<le> i then wbCounts b ! (i - deltaMin) else 0) [0..<length (wbCounts b)],
                     wbHead := currentMin\<rparr>)"

definition breaker_observe :: "time \<Rightarrow> windowBreaker \<Rightarrow> windowBreaker" where
  "breaker_observe now b =
     (if wbRatePerMin b \<le> 0 then b
      else let b1 = advanceTo now b;
               b2 = b1\<lparr>wbCounts := (wbCounts b1)[0 := wbCounts b1 ! 0 + 1]\<rparr>
        in if allOverThreshold b2 then b2\<lparr>wbCooldown := wbHead b2 + 2 * Minute\<rparr> else b2)"

definition breaker_tripped :: "time \<Rightarrow> windowBreaker \<Rightarrow> bool \<times> windowBreaker" where
  "breaker_tripped now b =
     (if wbRatePerMin b \<le> 0 then (False, b)
      else if IsZero (wbCooldown b) then (False, b)
      else if Before now (wbCooldown b) then (True, b)
      else (False, b\<lparr>wbCooldown := zero_time, wbCounts := replicate 5 0, wbHead := truncateToMinute now\<rparr>))"

section \<open>What a bucket admits\<close>

fun bucket_run :: "time list \<Rightarrow> tokenBucket \<Rightarrow> nat \<times> tokenBucket" where
  "bucket_run [] b = (0, b)"
| "bucket_run (t # ts) b =
     (case bucket_allow t b of (ok, b1) \<Rightarrow> case bucket_run ts b1 of (n, b2) \<Rightarrow> ((if ok then Suc n else n), b2))"

text \<open>Tokens and admissions together never exceed a full bucket and what accrued since \<open>a\<close>.\<close>

definition bucket_budget :: "time \<Rightarrow> tokenBucket \<Rightarrow> nat \<Rightarrow> bool" where
  "bucket_budget a b n \<longleftrightarrow> 0 < tbRatePerMin b \<and> 0 \<le> tbTokens b \<and> tbTokens b \<le> of_int (tbRatePerMin b)
     \<and> (if a \<le> tbLast b
        then of_nat n + tbTokens b \<le> of_int (tbRatePerMin b) + Seconds (tbLast b - a) * of_int (tbRatePerMin b) / 60
        else n = 0)"

lemma Seconds_pos [simp]: "0 < Seconds d \<longleftrightarrow> 0 < d" "0 \<le> Seconds d \<longleftrightarrow> 0 \<le> d"
  by (simp_all add: Seconds_def duration_units zero_less_divide_iff zero_le_divide_iff)

lemma Seconds_mono: "d \<le> e \<Longrightarrow> Seconds d \<le> Seconds e"
  by (simp add: Seconds_def duration_units divide_right_mono)

lemma Seconds_add: "Seconds (d + e) = Seconds d + Seconds e"
  by (simp add: Seconds_def add_divide_distrib)

lemma time_Sub_le: "0 < t - u \<Longrightarrow> 0 < time_Sub t u \<and> time_Sub t u \<le> t - u"
  by (simp add: time_Sub_def)

lemma time_Sub_nonpos: "t - u \<le> 0 \<Longrightarrow> time_Sub t u \<le> 0"
  by (simp add: time_Sub_def)

lemma bucket_allow_budget:
  assumes budget: "bucket_budget a b n" and a: "0 < a" "a \<le> now"
    and run: "bucket_allow now b = (ok, b')"
  shows "bucket_budget a b' (if ok then Suc n else n)" "tbLast b' \<le> max (tbLast b) now"
    "tbRatePerMin b' = tbRatePerMin b"
proof -
  let ?r = "tbRatePerMin b"
  let ?rate = "of_int ?r :: rat"
  have rate: "0 < ?r" "0 < ?rate" and tokens: "0 \<le> tbTokens b" "tbTokens b \<le> ?rate" using budget by (simp_all add: bucket_budget_def)
  define b1 where "b1 = (if IsZero (tbLast b) then b\<lparr>tbLast := now\<rparr> else b)"
  define elapsed where "elapsed = Seconds (time_Sub now (tbLast b1))"
  define b2 where "b2 = (if elapsed > 0 then b1\<lparr>tbTokens := min (of_int (tbRatePerMin b1)) (tbTokens b1 + elapsed * of_int (tbRatePerMin b1) / 60), tbLast := now\<rparr> else b1)"
  have shape: "tbTokens b1 = tbTokens b" "tbRatePerMin b1 = ?r" "tbRatePerMin b2 = ?r" by (simp_all add: b1_def b2_def)
  have call: "(ok, b') = (if tbTokens b2 \<ge> 1 then (True, b2\<lparr>tbTokens := tbTokens b2 - 1\<rparr>) else (False, b2))"
    using run rate(1) unfolding bucket_allow_def Let_def b1_def [symmetric] elapsed_def [symmetric] b2_def [symmetric] by simp
  have last: "a \<le> tbLast b2"
  proof (cases "a \<le> tbLast b1")
    case True
    then show ?thesis using a(2) by (simp add: b2_def)
  next
    case False
    then have "0 < now - tbLast b1" using a by simp
    then have "0 < elapsed" using time_Sub_le [of now "tbLast b1"] by (simp add: elapsed_def)
    then show ?thesis using a(2) by (simp add: b2_def)
  qed
  have range: "0 \<le> tbTokens b2 \<and> tbTokens b2 \<le> ?rate" using tokens rate by (auto simp: b2_def b1_def)
  have sum: "of_nat n + tbTokens b2 \<le> ?rate + Seconds (tbLast b2 - a) * ?rate / 60"
  proof (cases "a \<le> tbLast b")
    case False
    then have "n = 0" using budget by (simp add: bucket_budget_def)
    moreover have "0 \<le> Seconds (tbLast b2 - a) * ?rate / 60" using last rate by simp
    ultimately show ?thesis using range by simp
  next
    case True
    then have old: "of_nat n + tbTokens b \<le> ?rate + Seconds (tbLast b - a) * ?rate / 60" using budget by (simp add: bucket_budget_def)
    have b1: "b1 = b" using True a(1) by (simp add: b1_def IsZero_def zero_time_def)
    show ?thesis
    proof (cases "elapsed > 0")
      case False
      then show ?thesis using old by (simp add: b2_def b1)
    next
      case True
      then have "0 < now - tbLast b" using time_Sub_nonpos [of now "tbLast b"] by (force simp: elapsed_def b1)
      then have "elapsed \<le> Seconds (now - tbLast b)" using time_Sub_le [of now "tbLast b"] Seconds_mono by (simp add: elapsed_def b1)
      then have "elapsed * ?rate / 60 \<le> Seconds (now - tbLast b) * ?rate / 60" using rate(2) by (simp add: divide_right_mono)
      moreover have "Seconds (now - a) * ?rate / 60 = Seconds (tbLast b - a) * ?rate / 60 + Seconds (now - tbLast b) * ?rate / 60"
        using Seconds_add [of "tbLast b - a" "now - tbLast b"] by (simp add: algebra_simps add_divide_distrib)
      moreover have t2: "tbTokens b2 \<le> tbTokens b + elapsed * ?rate / 60" "tbLast b2 = now" using True by (simp_all add: b2_def b1)
      ultimately show ?thesis using old unfolding t2(2) by linarith
    qed
  qed
  show "bucket_budget a b' (if ok then Suc n else n)"
    using call range sum last rate by (auto simp: bucket_budget_def shape split: if_splits)
  show "tbLast b' \<le> max (tbLast b) now" using call by (auto simp: b2_def b1_def split: if_splits)
  show "tbRatePerMin b' = tbRatePerMin b" using call by (auto simp: shape split: if_splits)
qed

lemma bucket_run_budget:
  assumes "bucket_budget a b n" "0 < a" "\<forall>t\<in>set ts. a \<le> t \<and> t \<le> e" "tbLast b \<le> e" "bucket_run ts b = (m, b')"
  shows "bucket_budget a b' (n + m) \<and> tbLast b' \<le> e \<and> tbRatePerMin b' = tbRatePerMin b"
  using assms
proof (induction ts arbitrary: b n m)
  case (Cons t ts)
  obtain ok b1 where one: "bucket_allow t b = (ok, b1)" by fastforce
  obtain k where k: "bucket_run ts b1 = (k, b')" "m = (if ok then Suc k else k)"
    using Cons.prems(5) one by (auto split: prod.splits)
  note step = bucket_allow_budget [OF Cons.prems(1,2) _ one]
  have "bucket_budget a b' ((if ok then Suc n else n) + k) \<and> tbLast b' \<le> e \<and> tbRatePerMin b' = tbRatePerMin b1"
    by (rule Cons.IH [OF step(1) Cons.prems(2) _ _ k(1)]) (use Cons.prems(3,4) step(2) in auto)
  then show ?case using k(2) step(3) Cons.prems(3) by auto
qed simp

text \<open>
  C17: Between two instants a bucket lets at most its rate pass plus what accrues meanwhile, whatever
  the order and number of the requests and however long it was idle before. (Tokens are counted
  exactly; the code rounds them to floats.)
\<close>

theorem bucket_admits_at_most_its_rate:
  assumes ts: "\<forall>t\<in>set ts. a \<le> t \<and> t \<le> e" and a: "0 < a" "a \<le> e"
    and b: "0 < tbRatePerMin b" "0 \<le> tbTokens b" "tbTokens b \<le> of_int (tbRatePerMin b)" "tbLast b \<le> a"
  shows "of_nat (fst (bucket_run ts b)) \<le> of_int (tbRatePerMin b) + Seconds (e - a) * of_int (tbRatePerMin b) / 60"
proof -
  obtain m b' where run: "bucket_run ts b = (m, b')" by fastforce
  have start: "bucket_budget a b 0" using b by (simp add: bucket_budget_def Seconds_def)
  have "bucket_budget a b' m \<and> tbLast b' \<le> e \<and> tbRatePerMin b' = tbRatePerMin b"
    using bucket_run_budget [OF start a(1) ts _ run] a(2) b(4) by simp
  then have bud: "bucket_budget a b' m" and last: "tbLast b' \<le> e" and rate: "tbRatePerMin b' = tbRatePerMin b" by simp_all
  have all: "0 \<le> Seconds (e - a) * of_int (tbRatePerMin b) / 60" using a(2) b(1) by simp
  show ?thesis
  proof (cases "a \<le> tbLast b'")
    case False
    then have "m = 0" using bud by (simp add: bucket_budget_def)
    then show ?thesis using run all b(1) by simp
  next
    case True
    then have "of_nat m + tbTokens b' \<le> of_int (tbRatePerMin b) + Seconds (tbLast b' - a) * of_int (tbRatePerMin b) / 60" "0 \<le> tbTokens b'"
      using bud rate by (simp_all add: bucket_budget_def)
    moreover have "Seconds (tbLast b' - a) * of_int (tbRatePerMin b) / 60 \<le> Seconds (e - a) * of_int (tbRatePerMin b) / 60"
      using Seconds_mono [of "tbLast b' - a" "e - a"] last b(1) by (simp add: divide_right_mono)
    ultimately show ?thesis using run by simp
  qed
qed

theorem bucket_admits_at_most_its_rate_witness:
  "of_nat (fst (bucket_run (replicate 100 (60 * Second)) (newTokenBucket 30))) \<le> (30 :: rat)"
  using bucket_admits_at_most_its_rate [of "replicate 100 (60 * Second)" "60 * Second" "60 * Second" "newTokenBucket 30"]
  by (simp add: newTokenBucket_def duration_units zero_time_def Seconds_def)


section \<open>What the window counts\<close>

text \<open>The observations of the minute that lies \<open>i\<close> minutes before that of \<open>t\<close>.\<close>

definition minute_count :: "time list \<Rightarrow> time \<Rightarrow> nat \<Rightarrow> nat" where
  "minute_count ts t i = length (filter (\<lambda>u. truncateToMinute u = truncateToMinute t - int i * Minute) ts)"

definition window_ok :: "int \<Rightarrow> time list \<Rightarrow> windowBreaker \<Rightarrow> bool" where
  "window_ok rate ts b \<longleftrightarrow> wbRatePerMin b = rate \<and> length (wbCounts b) = 5
     \<and> (if ts = [] then wbHead b = zero_time \<and> wbCounts b = replicate 5 0
        else wbHead b = truncateToMinute (last ts)
          \<and> (\<forall>i<5. wbCounts b ! i = int (minute_count ts (last ts) i)))"

lemma truncate_parts: "truncateToMinute t = Minute * (t div Minute)"
  by (simp add: truncateToMinute_def minus_mod_eq_mult_div)

lemma truncate_le: "truncateToMinute t \<le> t"
  by (simp add: truncateToMinute_def duration_units)

lemma truncate_mono: "t \<le> u \<Longrightarrow> truncateToMinute t \<le> truncateToMinute u"
  by (simp add: truncate_parts duration_units zdiv_mono1)

lemma minute_later_none:
  "\<forall>u\<in>set ts. u \<le> last ts \<Longrightarrow> truncateToMinute (last ts) < m \<Longrightarrow> filter (\<lambda>u. truncateToMinute u = m) ts = []"
  using truncate_mono by (fastforce simp: filter_empty_conv)

lemma advanceTo_window:
  assumes ok: "window_ok rate ts b" and mono: "\<forall>u\<in>set ts. u \<le> last ts" "ts \<noteq> [] \<Longrightarrow> last ts \<le> now"
    and past: "\<forall>u\<in>set ts. Minute \<le> u"
  shows "wbHead (advanceTo now b) = truncateToMinute now \<and> length (wbCounts (advanceTo now b)) = 5
     \<and> (\<forall>i<5. wbCounts (advanceTo now b) ! i = int (minute_count ts now i))
     \<and> wbRatePerMin (advanceTo now b) = rate \<and> wbCooldown (advanceTo now b) = wbCooldown b"
proof (cases "ts = []")
  case True
  then show ?thesis using ok by (auto simp: window_ok_def advanceTo_def IsZero_def minute_count_def Let_def)
next
  case False
  let ?h = "truncateToMinute (last ts)" and ?n = "truncateToMinute now"
  have head: "wbHead b = ?h" and len: "length (wbCounts b) = 5" and rate: "wbRatePerMin b = rate"
    and counts: "\<And>i. i < 5 \<Longrightarrow> wbCounts b ! i = int (minute_count ts (last ts) i)"
    using ok False by (simp_all add: window_ok_def)
  have "Minute \<le> last ts" using past False by simp
  then have "truncateToMinute Minute \<le> ?h" by (rule truncate_mono)
  then have pos: "0 < ?h" by (simp add: truncateToMinute_def duration_units)
  have le: "?h \<le> ?n" using mono(2) False truncate_mono by blast
  define k where "k = nat ((?n - ?h) div Minute)"
  have "(?n - ?h) mod Minute = 0" by (simp add: truncate_parts right_diff_distrib [symmetric])
  then have "Minute * ((?n - ?h) div Minute) = ?n - ?h" by (metis mult_div_mod_eq add.right_neutral)
  moreover have "0 \<le> (?n - ?h) div Minute" using le by (simp add: duration_units pos_imp_zdiv_nonneg_iff)
  ultimately have shift: "?n = ?h + int k * Minute" by (simp add: k_def mult.commute)
  have sub: "nat (time_Sub ?n ?h div Minute) = k \<or> 5 \<le> nat (time_Sub ?n ?h div Minute) \<and> 5 \<le> k"
  proof (cases "?n - ?h \<le> max_duration")
    case True
    then have "time_Sub ?n ?h = ?n - ?h" using le by (simp add: time_Sub_def)
    then show ?thesis by (simp add: k_def)
  next
    case False
    then have "time_Sub ?n ?h = max_duration" by (simp add: time_Sub_def)
    moreover have "5 \<le> max_duration div Minute" by (simp add: duration_units)
    moreover have "max_duration div Minute \<le> (?n - ?h) div Minute" using False by (intro zdiv_mono1) (simp_all add: duration_units)
    ultimately have "5 \<le> time_Sub ?n ?h div Minute" "5 \<le> (?n - ?h) div Minute" by (metis, linarith)
    then show ?thesis unfolding k_def by (simp add: le_nat_iff)
  qed
  have moved: "minute_count ts now i = (if k \<le> i then minute_count ts (last ts) (i - k) else 0)" for i
  proof (cases "k \<le> i")
    case True
    then have "?n - int i * Minute = ?h - int (i - k) * Minute" using shift by (simp add: of_nat_diff algebra_simps)
    then show ?thesis using True by (simp add: minute_count_def)
  next
    case False
    then have "?h < ?n - int i * Minute" using shift by (simp add: duration_units)
    then show ?thesis using minute_later_none [OF mono(1)] False by (simp add: minute_count_def)
  qed
  show ?thesis
  proof (cases "k = 0")
    case True
    then have "?n = ?h" using shift by simp
    then show ?thesis using pos head len rate counts moved True
      by (simp add: advanceTo_def IsZero_def zero_time_def After_def Let_def)
  next
    case False
    then have "?h < ?n" using shift by (simp add: duration_units)
    then have later: "After ?n (wbHead b)" "\<not> IsZero (wbHead b)" using pos head by (simp_all add: After_def IsZero_def zero_time_def)
    have adv: "advanceTo now b = (if 5 \<le> k then b\<lparr>wbCounts := replicate 5 0, wbHead := ?n\<rparr>
        else b\<lparr>wbCounts := map (\<lambda>i. if k \<le> i then wbCounts b ! (i - k) else 0) [0..<5], wbHead := ?n\<rparr>)"
      using later sub by (auto simp: advanceTo_def Let_def len head)
    show ?thesis using counts rate unfolding adv by (auto simp: moved)
  qed
qed

lemma list_all_nth5: "length xs = 5 \<Longrightarrow> list_all P xs \<longleftrightarrow> (\<forall>i<5. P (xs ! i))"
  by (auto simp: list_all_length)

lemma minute_count_snoc: "minute_count (ts @ [t]) t i = minute_count ts t i + (if i = 0 then 1 else 0)"
  by (simp add: minute_count_def duration_units)

lemma observe_window:
  assumes ok: "window_ok rate ts b" and mono: "\<forall>u\<in>set ts. u \<le> last ts" "ts \<noteq> [] \<Longrightarrow> last ts \<le> now"
    and past: "\<forall>u\<in>set ts. Minute \<le> u" and rate: "0 < rate"
  shows "window_ok rate (ts @ [now]) (breaker_observe now b)
    \<and> wbCooldown (breaker_observe now b)
      = (if \<forall>i<5. rate \<le> int (minute_count (ts @ [now]) now i) then truncateToMinute now + 2 * Minute else wbCooldown b)"
proof -
  let ?b1 = "advanceTo now b"
  let ?b2 = "?b1\<lparr>wbCounts := (wbCounts ?b1)[0 := wbCounts ?b1 ! 0 + 1]\<rparr>"
  note adv = advanceTo_window [OF ok mono past]
  have r: "wbRatePerMin b = rate" using ok by (simp add: window_ok_def)
  have obs: "breaker_observe now b = (if allOverThreshold ?b2 then ?b2\<lparr>wbCooldown := wbHead ?b2 + 2 * Minute\<rparr> else ?b2)"
    using r rate by (simp add: breaker_observe_def Let_def)
  have counts: "\<forall>i<5. wbCounts ?b2 ! i = int (minute_count (ts @ [now]) now i)"
    using adv by (simp add: nth_list_update minute_count_snoc)
  have over: "allOverThreshold ?b2 \<longleftrightarrow> (\<forall>i<5. rate \<le> int (minute_count (ts @ [now]) now i))"
    using adv counts by (simp add: allOverThreshold_def list_all_nth5)
  show ?thesis using adv counts over unfolding obs window_ok_def by auto
qed

lemma fold_observe_window:
  assumes "sorted ts" "\<forall>u\<in>set ts. Minute \<le> u" "0 < rate"
  shows "window_ok rate ts (fold breaker_observe ts (newWindowBreaker rate))"
  using assms
proof (induction ts rule: rev_induct)
  case Nil
  then show ?case by (simp add: window_ok_def newWindowBreaker_def)
next
  case (snoc t ts)
  have "\<forall>u\<in>set ts. u \<le> last ts" using snoc.prems(1) by (cases ts rule: rev_cases) (auto simp: sorted_append)
  then show ?case using observe_window [of rate ts "fold breaker_observe ts (newWindowBreaker rate)" t] snoc
    by (auto simp: sorted_append)
qed

text \<open>
  C26: After any ascending observations a further one opens the breaker, for the rest of its minute and
  the whole next one, exactly when its minute and each of the four minutes before it saw at least the
  configured number of events; otherwise it leaves the cooldown alone.
\<close>

theorem breaker_opens_after_five_full_minutes:
  assumes ts: "sorted (ts @ [t])" "\<forall>u\<in>set (ts @ [t]). Minute \<le> u" and rate: "0 < rate"
    and b: "b = fold breaker_observe ts (newWindowBreaker rate)"
  shows "wbCooldown (breaker_observe t b)
    = (if \<forall>i<5. rate \<le> int (minute_count (ts @ [t]) t i) then truncateToMinute t + 2 * Minute else wbCooldown b)"
proof -
  have ok: "window_ok rate ts b" unfolding b using ts rate by (intro fold_observe_window) (auto simp: sorted_append)
  have "\<forall>u\<in>set ts. u \<le> last ts" using ts(1) by (cases ts rule: rev_cases) (auto simp: sorted_append)
  then show ?thesis using observe_window [OF ok _ _ _ rate, of t] ts by (auto simp: sorted_append)
qed

theorem breaker_opens_after_five_full_minutes_witness:
  "wbCooldown (breaker_observe (7 * Minute) (fold breaker_observe [3 * Minute, 4 * Minute, 5 * Minute, 6 * Minute] (newWindowBreaker 1)))
    = 9 * Minute"
proof -
  have full: "rate \<le> int (minute_count ([3 * Minute, 4 * Minute, 5 * Minute, 6 * Minute] @ [7 * Minute]) (7 * Minute) i)"
    if small: "i < 5" and one: "rate = 1" for i rate
  proof -
    consider "i = 0" | "i = 1" | "i = 2" | "i = 3" | "i = 4" using small by linarith
    then show ?thesis using one by cases (simp_all add: minute_count_def truncateToMinute_def duration_units)
  qed
  show ?thesis
    using breaker_opens_after_five_full_minutes [of "[3 * Minute, 4 * Minute, 5 * Minute, 6 * Minute]" "7 * Minute" 1, OF _ _ _ refl]
      full [of _ 1] by (simp add: truncateToMinute_def duration_units)
qed

end
