(* ===== verification/Watch_Router.thy ===== *)
theory Watch_Router
  imports Watch_Event Watch_Breaker
begin

text \<open>
  The router of the change-watch loop (\<^verbatim>\<open>internal/changewatch/router.go\<close>): one event from validation
  over breaker, throttle, deduplication and branch check to the merge of the indexed delta, the impact
  report and the freshness record. What the code locks is one definition (\<open>admit\<close>); the rest
  (\<open>dispatch\<close>) works on the previous result that the locked part returned.
\<close>

section \<open>State\<close>

record RouterConfig =
  wcEnabled :: bool
  wcRateLimitPerMin :: int
  wcRepoBreakerPerMin :: int
  wcT0BudgetMs :: int
  wcDedupWindow :: duration

definition applyDefaults :: "RouterConfig \<Rightarrow> RouterConfig" where
  "applyDefaults c = c\<lparr>wcRateLimitPerMin := max 0 (wcRateLimitPerMin c), wcRepoBreakerPerMin := max 0 (wcRepoBreakerPerMin c),
     wcT0BudgetMs := (if wcT0BudgetMs c \<le> 0 then 100 else wcT0BudgetMs c),
     wcDedupWindow := (if wcDedupWindow c \<le> 0 then 10 * Second else wcDedupWindow c)\<rparr>"

record freshnessRecord =
  fnBranch :: string
  fnIndexedCommit :: string
  fnLastVerifiedAt :: time
  fnReason :: string
  fnPartialRefresh :: bool
  fnTier :: string
  fnState :: string

definition zero_freshness :: freshnessRecord where
  "zero_freshness = \<lparr>fnBranch = [], fnIndexedCommit = [], fnLastVerifiedAt = zero_time, fnReason = [], fnPartialRefresh = False,
     fnTier = [], fnState = []\<rparr>"

record routerEvent =
  reEventID :: string
  reRepoID :: string
  reOutcome :: SubmitOutcome
  reErr :: "watch_error option"
  reTimestamp :: time

text \<open>The bus is a channel with a capacity; the applied reports are those handed to the \<^verbatim>\<open>ImpactApplier\<close>.\<close>

record Router =
  rtStore :: GraphStore
  rtPrev :: "string \<rightharpoonup> IndexResult"
  rtRates :: "string \<times> string \<rightharpoonup> tokenBucket"
  rtBreakers :: "string \<rightharpoonup> windowBreaker"
  rtDedup :: "string \<rightharpoonup> time"
  rtFreshness :: "string \<rightharpoonup> freshnessRecord"
  rtBus :: "(nat \<times> routerEvent list) option"
  rtApplier :: bool
  rtApplied :: "(string \<times> ImpactReport) list"

definition NewRouter :: "GraphStore \<Rightarrow> bool \<Rightarrow> Router" where
  "NewRouter store applier = \<lparr>rtStore = store, rtPrev = Map.empty, rtRates = Map.empty, rtBreakers = Map.empty, rtDedup = Map.empty,
     rtFreshness = Map.empty, rtBus = None, rtApplier = applier, rtApplied = []\<rparr>"

definition FreshnessFor :: "string \<Rightarrow> Router \<Rightarrow> freshnessRecord" where
  "FreshnessFor repoID s = (case rtFreshness s repoID of None \<Rightarrow> zero_freshness | Some rec \<Rightarrow> rec)"

definition PreviousResult :: "string \<Rightarrow> Router \<Rightarrow> IndexResult option" where
  "PreviousResult repoID s = rtPrev s repoID"

definition SeedPrevious :: "time \<Rightarrow> string \<Rightarrow> IndexResult option \<Rightarrow> Router \<Rightarrow> Router" where
  "SeedPrevious now repoID resultp s = (case resultp of
       None \<Rightarrow> s
     | Some result \<Rightarrow>
         (let s1 = s\<lparr>rtPrev := (rtPrev s)(repoID \<mapsto> result)\<rparr>
          in if rtFreshness s repoID \<noteq> None then s1
             else s1\<lparr>rtFreshness := (rtFreshness s)(repoID \<mapsto>
                 zero_freshness\<lparr>fnBranch := ixBranch result, fnLastVerifiedAt := now, fnTier := ''T0'', fnState := ''fresh''\<rparr>)\<rparr>))"

definition publish_event :: "ChangeEvent \<Rightarrow> SubmitOutcome \<Rightarrow> watch_error option \<Rightarrow> time \<Rightarrow> Router \<Rightarrow> Router" where
  "publish_event ev outcome err now s = (case rtBus s of
       None \<Rightarrow> s
     | Some (capacity, queue) \<Rightarrow>
         if length queue < capacity
         then s\<lparr>rtBus := Some (capacity, queue @ [\<lparr>reEventID = evEventID ev, reRepoID = evRepositoryID ev, reOutcome = outcome,
                  reErr = err, reTimestamp = now\<rparr>])\<rparr>
         else s)"

section \<open>Admission, under the lock\<close>

definition breakerFor :: "RouterConfig \<Rightarrow> string \<Rightarrow> Router \<Rightarrow> windowBreaker" where
  "breakerFor cfg repoID s = (case rtBreakers s repoID of Some b \<Rightarrow> b | None \<Rightarrow> newWindowBreaker (wcRepoBreakerPerMin cfg))"

definition rateBucketFor :: "RouterConfig \<Rightarrow> string \<times> string \<Rightarrow> Router \<Rightarrow> tokenBucket" where
  "rateBucketFor cfg k s = (case rtRates s k of Some b \<Rightarrow> b | None \<Rightarrow> newTokenBucket (wcRateLimitPerMin cfg))"

definition seen_within :: "RouterConfig \<Rightarrow> string \<Rightarrow> time \<Rightarrow> Router \<Rightarrow> bool" where
  "seen_within cfg k now s \<longleftrightarrow> (case rtDedup s k of None \<Rightarrow> False | Some t \<Rightarrow> time_Sub now t < wcDedupWindow cfg)"

definition isDuplicate :: "RouterConfig \<Rightarrow> ChangeEvent \<Rightarrow> time \<Rightarrow> Router \<Rightarrow> bool" where
  "isDuplicate cfg ev now s =
     (if seen_within cfg (evEventID ev) now s then True
      else let hashKey = contentHashKey ev in if hashKey = [] then False else seen_within cfg hashKey now s)"

definition pruneDedup :: "RouterConfig \<Rightarrow> time \<Rightarrow> Router \<Rightarrow> Router" where
  "pruneDedup cfg now s =
     (let cutoff = now - wcDedupWindow cfg
      in s\<lparr>rtDedup := (\<lambda>k. case rtDedup s k of None \<Rightarrow> None | Some t \<Rightarrow> if Before t cutoff then None else Some t)\<rparr>)"

definition recordDedup :: "RouterConfig \<Rightarrow> ChangeEvent \<Rightarrow> time \<Rightarrow> Router \<Rightarrow> Router" where
  "recordDedup cfg ev now s =
     (let s1 = s\<lparr>rtDedup := (rtDedup s)(evEventID ev \<mapsto> now)\<rparr>;
          k = contentHashKey ev;
          s2 = (if k \<noteq> [] then s1\<lparr>rtDedup := (rtDedup s1)(k \<mapsto> now)\<rparr> else s1)
      in pruneDedup cfg now s2)"

type_synonym verdict = "SubmitOutcome \<times> watch_error option"

text \<open>Throttle, then deduplication, of an event that found the breaker closed.\<close>

definition throttle_and_dedup ::
  "RouterConfig \<Rightarrow> time \<Rightarrow> ChangeEvent \<Rightarrow> IndexResult \<Rightarrow> windowBreaker \<Rightarrow> Router \<Rightarrow> (verdict + IndexResult) \<times> Router" where
  "throttle_and_dedup cfg now ev prev breaker s =
     (let repo = evRepositoryID ev; key = (repo, soKind (evSource ev)) in
      case bucket_allow now (rateBucketFor cfg key s) of (allowed, bucket) \<Rightarrow>
        let s1 = s\<lparr>rtBreakers := (rtBreakers s)(repo \<mapsto> breaker_observe now breaker), rtRates := (rtRates s)(key \<mapsto> bucket)\<rparr>
        in if \<not> allowed then (Inl (OutcomeRateLimited, Some ErrRateLimited), s1)
           else if isDuplicate cfg ev now s1 then (Inl (OutcomeDeduped, None), s1)
           else (Inr prev, recordDedup cfg ev now s1))"

definition admit :: "RouterConfig \<Rightarrow> time \<Rightarrow> ChangeEvent \<Rightarrow> Router \<Rightarrow> (verdict + IndexResult) \<times> Router" where
  "admit cfg now ev s = (let repo = evRepositoryID ev in
     case rtPrev s repo of
       None \<Rightarrow> (Inl (OutcomeRejectedUnknownRepo, Some ErrUnknownRepo), s)
     | Some prev \<Rightarrow>
         (case breaker_tripped now (breakerFor cfg repo s) of (tripped, breaker) \<Rightarrow>
            let s1 = s\<lparr>rtBreakers := (rtBreakers s)(repo \<mapsto> breaker)\<rparr>
            in if tripped then (Inl (OutcomeBreakerTripped, Some ErrBreakerOpen), s1)
               else throttle_and_dedup cfg now ev prev breaker s1))"

section \<open>Dispatch\<close>

text \<open>
  What a submission meets outside the router: the instants it reads, the branch of the working tree,
  the indexer under its budget, and the orders in which the store's and the impact code range over maps.
\<close>

record submit_env =
  seNow :: time
  seHead :: "string \<Rightarrow> head_error + string"
  seIndex :: "string \<Rightarrow> string list \<Rightarrow> string \<Rightarrow> IndexResult \<Rightarrow> index_error + IndexResult"
  seMergePaths :: "string list"
  seMergeNow :: time
  seOldOrder :: "StoredSymbol list \<Rightarrow> StoredSymbol list"
  seNewOrder :: "StoredSymbol list \<Rightarrow> StoredSymbol list"
  seNewKeys :: "symbolKey list"
  seOldKeys :: "symbolKey list"
  seLinks :: "string list"
  seReqs :: "string list"
  seReportNow :: time
  seReportMillis :: int
  seFreshNow :: time
  sePublishNow :: time

definition markPartialRefresh :: "ChangeEvent \<Rightarrow> bool \<Rightarrow> time \<Rightarrow> Router \<Rightarrow> Router" where
  "markPartialRefresh ev budgetExceeded now s =
     s\<lparr>rtFreshness := (rtFreshness s)(evRepositoryID ev \<mapsto> (FreshnessFor (evRepositoryID ev) s)
         \<lparr>fnPartialRefresh := True, fnLastVerifiedAt := now, fnReason := describeReason ev,
          fnState := (if budgetExceeded then ''stale'' else ''suspect'')\<rparr>)\<rparr>"

definition event_report :: "submit_env \<Rightarrow> ChangeEvent \<Rightarrow> GraphStore \<Rightarrow> GraphStore \<Rightarrow> ImpactReport" where
  "event_report e ev old new =
     (let oldSymbols = fst (GetSymbols (seOldOrder e) (evRepositoryID ev) None None 0 0 old);
          newSymbols = fst (GetSymbols (seNewOrder e) (evRepositoryID ev) None None 0 0 new);
          (fileDiffs, changedFiles) = buildFileDiffs ev;
          symbolChanges = DiffSymbols (seNewKeys e) (seOldKeys e) oldSymbols newSymbols changedFiles
      in ComputeImpact (seLinks e) (seReqs e) (seReportMillis e) (seReportNow e) (evRepositoryID ev) fileDiffs symbolChanges new)"

definition refreshed :: "ChangeEvent \<Rightarrow> time \<Rightarrow> freshnessRecord \<Rightarrow> freshnessRecord" where
  "refreshed ev now rec = rec\<lparr>fnBranch := evBranch ev, fnLastVerifiedAt := now, fnTier := ''T0'', fnState := ''fresh'',
     fnPartialRefresh := False, fnReason := describeReason ev\<rparr>"

definition merge_and_report :: "submit_env \<Rightarrow> ChangeEvent \<Rightarrow> IndexResult \<Rightarrow> Router \<Rightarrow> verdict \<times> Router" where
  "merge_and_report e ev newResult s =
     (let repo = evRepositoryID ev in
      case MergeIndexResult (seMergePaths e) (seMergeNow e) repo (affectedPathsFor ev) (Some newResult) (rtStore s) of
        (Inl err, store') \<Rightarrow> ((OutcomeIndexing, Some (ErrMerge err)), markPartialRefresh ev False (seFreshNow e) (s\<lparr>rtStore := store'\<rparr>))
      | (Inr _, store') \<Rightarrow>
          (let report = event_report e ev (rtStore s) store';
               s1 = s\<lparr>rtStore := store', rtApplied := (if rtApplier s then rtApplied s @ [(repo, report)] else rtApplied s)\<rparr>
           in ((OutcomeIndexing, None),
               s1\<lparr>rtPrev := (rtPrev s1)(repo \<mapsto> newResult),
                  rtFreshness := (rtFreshness s1)(repo \<mapsto> refreshed ev (seFreshNow e) (FreshnessFor repo s1))\<rparr>)))"

definition dispatch :: "submit_env \<Rightarrow> ChangeEvent \<Rightarrow> IndexResult \<Rightarrow> Router \<Rightarrow> verdict \<times> Router" where
  "dispatch e ev prev s = (case seHead e (ixRepoPath prev) of
       Inl err \<Rightarrow> ((OutcomeRejectedBranchMismatch, Some (ErrHeadUnknown err)), s)
     | Inr headBranch \<Rightarrow>
         if \<not> branchesEqual headBranch (evBranch ev) then ((OutcomeRejectedBranchMismatch, Some ErrBranchMismatch), s)
         else (case seIndex e (ixRepoPath prev) (affectedPathsFor ev) (evBranch ev) prev of
             Inl err \<Rightarrow> ((OutcomeIndexing, Some (ErrIndexFiles err)),
                         markPartialRefresh ev (err = ContextDone CtxDeadlineExceeded) (seFreshNow e) s)
           | Inr newResult \<Rightarrow>
               if containmentViolations prev newResult (affectedPathsFor ev) \<noteq> []
               then ((OutcomeRejectedSchema, Some ErrContainmentViolation), s)
               else merge_and_report e ev newResult s))"

section \<open>Submission\<close>

definition route :: "RouterConfig \<Rightarrow> submit_env \<Rightarrow> ChangeEvent \<Rightarrow> Router \<Rightarrow> verdict \<times> Router" where
  "route cfg e ev s = (case Validate_event (Some ev) of
       Some (outcome, err) \<Rightarrow> ((outcome, Some err), s)
     | None \<Rightarrow>
         if \<not> wcEnabled cfg then ((OutcomeRejectedSchema, Some ErrChangeWatchDisabled), s)
         else (case admit cfg (seNow e) ev s of
             (Inl verdict, s1) \<Rightarrow> (verdict, s1)
           | (Inr prev, s1) \<Rightarrow> dispatch e ev prev s1))"

definition Submit :: "RouterConfig \<Rightarrow> submit_env \<Rightarrow> ChangeEvent \<Rightarrow> Router \<Rightarrow> verdict \<times> Router" where
  "Submit cfg e ev s = (case route cfg e ev s of
     ((outcome, err), s1) \<Rightarrow> ((outcome, err), publish_event ev outcome err (sePublishNow e) s1))"

end
