(* ===== verification/Watch_Laws.thy ===== *)
theory Watch_Laws
  imports Watch_Router Graph_Laws
begin

text \<open>
  What the router guarantees: its verdict tells what it did, an event is indexed at most once within
  the deduplication window, and an event touches nothing outside its repository. The graph store enters
  through the contract of index histories.
\<close>

section \<open>Verdicts\<close>

definition core :: "Router \<Rightarrow> GraphStore \<times> (string \<rightharpoonup> IndexResult) \<times> (string \<rightharpoonup> freshnessRecord) \<times> (string \<times> ImpactReport) list" where
  "core s = (rtStore s, rtPrev s, rtFreshness s, rtApplied s)"

lemma publish_frame [simp]:
  "rtStore (publish_event ev out err now s) = rtStore s" "rtPrev (publish_event ev out err now s) = rtPrev s"
  "rtFreshness (publish_event ev out err now s) = rtFreshness s" "rtApplied (publish_event ev out err now s) = rtApplied s"
  "rtDedup (publish_event ev out err now s) = rtDedup s" "rtBreakers (publish_event ev out err now s) = rtBreakers s"
  "rtRates (publish_event ev out err now s) = rtRates s" "rtApplier (publish_event ev out err now s) = rtApplier s"
  by (simp_all add: publish_event_def split: option.split)

lemma recordDedup_frame [simp]:
  "rtStore (recordDedup cfg ev now s) = rtStore s" "rtPrev (recordDedup cfg ev now s) = rtPrev s"
  "rtFreshness (recordDedup cfg ev now s) = rtFreshness s" "rtApplied (recordDedup cfg ev now s) = rtApplied s"
  "rtBreakers (recordDedup cfg ev now s) = rtBreakers s" "rtRates (recordDedup cfg ev now s) = rtRates s"
  "rtApplier (recordDedup cfg ev now s) = rtApplier s"
  by (simp_all add: recordDedup_def pruneDedup_def Let_def)

text \<open>Admission decides over the breaker, the throttle and the recent events, and touches nothing else.\<close>

lemma admit_cases:
  assumes "admit cfg now ev s = (v, s')"
  obtains (unknown) "rtPrev s (evRepositoryID ev) = None" "v = Inl (OutcomeRejectedUnknownRepo, Some ErrUnknownRepo)" "s' = s"
  | (refused) out err b r where "v = Inl (out, err)" "out \<in> {OutcomeBreakerTripped, OutcomeRateLimited, OutcomeDeduped}"
      "s' = s\<lparr>rtBreakers := (rtBreakers s)(evRepositoryID ev \<mapsto> b), rtRates := r\<rparr>"
      "r = rtRates s \<or> (\<exists>t. r = (rtRates s)((evRepositoryID ev, soKind (evSource ev)) \<mapsto> t))"
  | (admitted) prev b t s2 where "rtPrev s (evRepositoryID ev) = Some prev" "v = Inr prev"
      "s2 = s\<lparr>rtBreakers := (rtBreakers s)(evRepositoryID ev \<mapsto> b),
             rtRates := (rtRates s)((evRepositoryID ev, soKind (evSource ev)) \<mapsto> t)\<rparr>"
      "\<not> isDuplicate cfg ev now s2" "s' = recordDedup cfg ev now s2"
proof (cases "rtPrev s (evRepositoryID ev)")
  case None
  then show thesis using assms by (intro unknown) (simp_all add: admit_def)
next
  case (Some prev)
  let ?repo = "evRepositoryID ev" and ?key = "(evRepositoryID ev, soKind (evSource ev))"
  obtain tripped b where b: "breaker_tripped now (breakerFor cfg ?repo s) = (tripped, b)" by fastforce
  define s1 where "s1 = s\<lparr>rtBreakers := (rtBreakers s)(?repo \<mapsto> b)\<rparr>"
  show thesis
  proof (cases tripped)
    case True
    then have "v = Inl (OutcomeBreakerTripped, Some ErrBreakerOpen)" "s' = s1" using assms Some b by (simp_all add: admit_def s1_def)
    then show thesis by (intro refused [where out = OutcomeBreakerTripped and err = "Some ErrBreakerOpen" and b = b and r = "rtRates s"]) (simp_all add: s1_def)
  next
    case False
    obtain allowed t where t: "bucket_allow now (rateBucketFor cfg ?key s1) = (allowed, t)" by fastforce
    define s2 where "s2 = s\<lparr>rtBreakers := (rtBreakers s)(?repo \<mapsto> breaker_observe now b), rtRates := (rtRates s)(?key \<mapsto> t)\<rparr>"
    have s2: "s1\<lparr>rtBreakers := (rtBreakers s1)(?repo \<mapsto> breaker_observe now b), rtRates := (rtRates s1)(?key \<mapsto> t)\<rparr> = s2"
      by (simp add: s1_def s2_def)
    have "(v, s') = throttle_and_dedup cfg now ev prev b s1" using assms Some b False by (simp add: admit_def s1_def)
    then have run: "(v, s') = (if \<not> allowed then (Inl (OutcomeRateLimited, Some ErrRateLimited), s2)
        else if isDuplicate cfg ev now s2 then (Inl (OutcomeDeduped, None), s2) else (Inr prev, recordDedup cfg ev now s2))"
      unfolding throttle_and_dedup_def Let_def t prod.case s2 .
    show thesis
    proof (cases "allowed \<and> \<not> isDuplicate cfg ev now s2")
      case True
      then show thesis using run by (intro admitted [OF Some _ s2_def]) simp_all
    next
      case no: False
      then have "s' = s2" "fst (projl v) \<in> {OutcomeBreakerTripped, OutcomeRateLimited, OutcomeDeduped}" "v = Inl (projl v)"
        using run by (auto split: if_splits)
      then show thesis
        by (intro refused [where out = "fst (projl v)" and err = "snd (projl v)" and b = "breaker_observe now b" and r = "(rtRates s)(?key \<mapsto> t)"])
           (simp_all add: s2_def, blast)
    qed
  qed
qed

lemma MergeIndexResult_failed: "MergeIndexResult ps now r a (Some res) s = (Inl err, s') \<Longrightarrow> s' = s"
  by (auto simp: MergeIndexResult_def Let_def split: option.splits prod.splits)

lemma validate_outcome: "Validate_event ep = Some (out, err) \<Longrightarrow> out \<notin> {OutcomeIndexing, OutcomeRejectedBranchMismatch}"
proof -
  have "validate_files fs = Some (out, err) \<Longrightarrow> out \<notin> {OutcomeIndexing, OutcomeRejectedBranchMismatch}" for fs
    by (induction fs) (auto simp: validate_file_def split: option.splits if_splits)
  then show "Validate_event ep = Some (out, err) \<Longrightarrow> out \<notin> {OutcomeIndexing, OutcomeRejectedBranchMismatch}"
    by (auto simp: Validate_event_def split: option.splits sum.splits if_splits)
qed

definition effect_of :: "submit_env \<Rightarrow> ChangeEvent \<Rightarrow> Router \<Rightarrow> verdict \<Rightarrow> Router \<Rightarrow> bool" where
  "effect_of e ev s v s' \<longleftrightarrow> (if fst v \<noteq> OutcomeIndexing then core s' = core s
    else if snd v \<noteq> None then rtStore s' = rtStore s \<and> rtPrev s' = rtPrev s \<and> rtApplied s' = rtApplied s
      \<and> fnPartialRefresh (FreshnessFor (evRepositoryID ev) s') \<and> fnState (FreshnessFor (evRepositoryID ev) s') \<in> {''stale'', ''suspect''}
    else \<exists>prev r repo. rtPrev s (evRepositoryID ev) = Some prev
      \<and> seIndex e (ixRepoPath prev) (affectedPathsFor ev) (evBranch ev) prev = Inr r
      \<and> containmentViolations prev r (affectedPathsFor ev) = []
      \<and> MergeIndexResult (seMergePaths e) (seMergeNow e) (evRepositoryID ev) (affectedPathsFor ev) (Some r) (rtStore s) = (Inr repo, rtStore s')
      \<and> rtPrev s' = (rtPrev s)(evRepositoryID ev \<mapsto> r)
      \<and> rtApplied s' = rtApplied s @ (if rtApplier s then [(evRepositoryID ev, event_report e ev (rtStore s) (rtStore s'))] else [])
      \<and> FreshnessFor (evRepositoryID ev) s' = refreshed ev (seFreshNow e) (FreshnessFor (evRepositoryID ev) s))"

lemma effect_of_publish [simp]: "effect_of e ev s v (publish_event ev out err now s') = effect_of e ev s v s'"
  by (simp add: effect_of_def core_def FreshnessFor_def)

lemma effect_of_core: "core t = core s \<Longrightarrow> rtApplier t = rtApplier s \<Longrightarrow> effect_of e ev t v s' = effect_of e ev s v s'"
  by (simp add: effect_of_def core_def FreshnessFor_def)

lemma dispatch_effect:
  assumes prev: "rtPrev s (evRepositoryID ev) = Some prev" and run: "dispatch e ev prev s = (v, s')"
  shows "effect_of e ev s v s'"
proof -
  have partial: "effect_of e ev t (OutcomeIndexing, Some err) (markPartialRefresh ev b now t)" for err b now t
    by (simp add: effect_of_def markPartialRefresh_def FreshnessFor_def)
  have merged: "effect_of e ev s v s'"
    if index: "seIndex e (ixRepoPath prev) (affectedPathsFor ev) (evBranch ev) prev = Inr r"
      and inside: "containmentViolations prev r (affectedPathsFor ev) = []" and go: "merge_and_report e ev r s = (v, s')" for r
  proof -
    obtain res store where m: "MergeIndexResult (seMergePaths e) (seMergeNow e) (evRepositoryID ev) (affectedPathsFor ev) (Some r) (rtStore s) = (res, store)"
      by fastforce
    show ?thesis
    proof (cases res)
      case (Inl err)
      then have "s\<lparr>rtStore := store\<rparr> = s" using MergeIndexResult_failed m by simp
      then show ?thesis using go m Inl partial by (auto simp: merge_and_report_def)
    next
      case (Inr repo)
      then show ?thesis using go m prev index inside by (auto simp: merge_and_report_def effect_of_def FreshnessFor_def Let_def)
    qed
  qed
  have still: "effect_of e ev t (out, err) t" if "out \<noteq> OutcomeIndexing" for out err t using that by (simp add: effect_of_def)
  show ?thesis using run partial merged by (auto simp: dispatch_def still split: sum.splits if_splits)
qed

lemma admit_core:
  assumes "admit cfg now ev s = (v, s')"
  shows "core s' = core s" "rtApplier s' = rtApplier s"
  using assms by (cases rule: admit_cases; simp add: core_def)+

lemma route_effect: "route cfg e ev s = (v, s') \<Longrightarrow> effect_of e ev s v s'"
proof -
  assume run: "route cfg e ev s = (v, s')"
  have still: "effect_of e ev s v s'" if "fst v \<noteq> OutcomeIndexing" "core s' = core s" using that by (simp add: effect_of_def)
  show ?thesis
  proof (cases "Validate_event (Some ev)")
    case (Some x)
    then show ?thesis using run validate_outcome by (intro still) (auto simp: route_def split: prod.splits)
  next
    case None
    show ?thesis
    proof (cases "wcEnabled cfg")
      case False
      then show ?thesis using run None by (intro still) (auto simp: route_def)
    next
      case True
      obtain w s1 where a: "admit cfg (seNow e) ev s = (w, s1)" by fastforce
      show ?thesis
      proof (cases w)
        case (Inl u)
        then have "v = u" "s' = s1" using run None True a by (simp_all add: route_def)
        moreover have "fst u \<noteq> OutcomeIndexing" using a Inl by (cases rule: admit_cases) auto
        ultimately show ?thesis using admit_core [OF a] by (intro still) simp_all
      next
        case (Inr prev)
        then have d: "dispatch e ev prev s1 = (v, s')" using run None True a by (simp add: route_def)
        have "rtPrev s (evRepositoryID ev) = Some prev" by (rule admit_cases [OF a]) (use Inr in simp_all)
        then have "rtPrev s1 (evRepositoryID ev) = Some prev" using admit_core(1) [OF a] by (simp add: core_def)
        from dispatch_effect [OF this d] show ?thesis unfolding effect_of_core [OF admit_core [OF a]] .
      qed
    qed
  qed
qed

text \<open>
  C21: The verdict of a submission tells what it did: any outcome but indexing left store, previous
  results, freshness and applied reports alone; indexing with an error left the store and the previous
  result alone and marks the freshness record as partial; indexing without error merged exactly what
  the indexer delivered for the event's paths, inside the declared delta, reported its impact, and made
  the repository fresh on the event's branch.
\<close>

theorem submit_outcome_tells_the_effect:
  assumes run: "Submit cfg e ev s = ((outcome, err), s')"
  shows "if outcome \<noteq> OutcomeIndexing then core s' = core s
    else if err \<noteq> None then rtStore s' = rtStore s \<and> rtPrev s' = rtPrev s \<and> rtApplied s' = rtApplied s
      \<and> fnPartialRefresh (FreshnessFor (evRepositoryID ev) s') \<and> fnState (FreshnessFor (evRepositoryID ev) s') \<in> {''stale'', ''suspect''}
    else \<exists>prev r repo. rtPrev s (evRepositoryID ev) = Some prev
      \<and> seIndex e (ixRepoPath prev) (affectedPathsFor ev) (evBranch ev) prev = Inr r
      \<and> containmentViolations prev r (affectedPathsFor ev) = []
      \<and> MergeIndexResult (seMergePaths e) (seMergeNow e) (evRepositoryID ev) (affectedPathsFor ev) (Some r) (rtStore s) = (Inr repo, rtStore s')
      \<and> rtPrev s' = (rtPrev s)(evRepositoryID ev \<mapsto> r)
      \<and> rtApplied s' = rtApplied s @ (if rtApplier s then [(evRepositoryID ev, event_report e ev (rtStore s) (rtStore s'))] else [])
      \<and> FreshnessFor (evRepositoryID ev) s' = refreshed ev (seFreshNow e) (FreshnessFor (evRepositoryID ev) s)"
proof -
  obtain s1 where route: "route cfg e ev s = ((outcome, err), s1)" and s': "s' = publish_event ev outcome err (sePublishNow e) s1"
    using run by (auto simp: Submit_def split: prod.splits)
  have "effect_of e ev s (outcome, err) s'" unfolding s' effect_of_publish by (rule route_effect [OF route])
  then show ?thesis by (simp only: effect_of_def fst_conv snd_conv)
qed

section \<open>At most once within the window\<close>

definition keyed :: "ChangeEvent \<Rightarrow> string \<Rightarrow> bool" where
  "keyed ev k \<longleftrightarrow> k = evEventID ev \<or> k \<noteq> [] \<and> k = contentHashKey ev"

definition remembered :: "string \<Rightarrow> time \<Rightarrow> time \<Rightarrow> Router \<Rightarrow> bool" where
  "remembered k a z s \<longleftrightarrow> (\<exists>t. rtDedup s k = Some t \<and> a \<le> t \<and> t \<le> z)"

lemma recordDedup_at:
  assumes "0 \<le> wcDedupWindow cfg"
  shows "rtDedup (recordDedup cfg ev now s) k = (if keyed ev k then Some now
     else case rtDedup s k of None \<Rightarrow> None | Some t \<Rightarrow> if t < now - wcDedupWindow cfg then None else Some t)"
  using assms by (auto simp: recordDedup_def pruneDedup_def Let_def keyed_def Before_def split: option.split)

lemma dispatch_dedup: "dispatch e ev prev s = (v, s') \<Longrightarrow> rtDedup s' = rtDedup s"
  by (auto simp: dispatch_def merge_and_report_def markPartialRefresh_def Let_def split: sum.splits if_splits prod.splits)

lemma submit_dedup:
  assumes w: "0 \<le> wcDedupWindow cfg" and run: "Submit cfg e ev s = (v, s')"
  shows "rtDedup s' = rtDedup s \<or> (\<forall>k. rtDedup s' k = rtDedup (recordDedup cfg ev (seNow e) s) k)"
    "fst v \<in> {OutcomeIndexing, OutcomeRejectedBranchMismatch} \<Longrightarrow> keyed ev k \<Longrightarrow> rtDedup s' k = Some (seNow e)"
    "fst v \<in> {OutcomeIndexing, OutcomeRejectedBranchMismatch} \<Longrightarrow> \<not> isDuplicate cfg ev (seNow e) s"
proof -
  obtain w s1 where a: "admit cfg (seNow e) ev s = (w, s1)" by fastforce
  have dup: "isDuplicate cfg ev (seNow e) (s\<lparr>rtBreakers := b, rtRates := r\<rparr>) = isDuplicate cfg ev (seNow e) s" for b r
    by (simp add: isDuplicate_def seen_within_def)
  have "(rtDedup s' = rtDedup s \<and> fst v \<notin> {OutcomeIndexing, OutcomeRejectedBranchMismatch})
      \<or> ((\<forall>k. rtDedup s' k = rtDedup (recordDedup cfg ev (seNow e) s) k) \<and> \<not> isDuplicate cfg ev (seNow e) s)"
  proof (cases "Validate_event (Some ev) \<noteq> None \<or> \<not> wcEnabled cfg")
    case True
    then show ?thesis using run validate_outcome by (auto simp: Submit_def route_def split: option.splits prod.splits)
  next
    case False
    then have ok: "Validate_event (Some ev) = None" "wcEnabled cfg" by (cases "Validate_event (Some ev)"; simp)+
    show ?thesis
    proof (rule admit_cases [OF a])
      assume "w = Inl (OutcomeRejectedUnknownRepo, Some ErrUnknownRepo)" "s1 = s"
      then show ?thesis using run ok a by (simp add: Submit_def route_def) (auto split: prod.splits)
    next
      fix out err b r
      assume "w = Inl (out, err)" "out \<in> {OutcomeBreakerTripped, OutcomeRateLimited, OutcomeDeduped}"
        "s1 = s\<lparr>rtBreakers := (rtBreakers s)(evRepositoryID ev \<mapsto> b), rtRates := r\<rparr>"
      then show ?thesis using run ok a by (simp add: Submit_def route_def) (auto split: prod.splits)
    next
      fix prev b t s2
      assume w: "w = Inr prev" and s2: "s2 = s\<lparr>rtBreakers := (rtBreakers s)(evRepositoryID ev \<mapsto> b),
             rtRates := (rtRates s)((evRepositoryID ev, soKind (evSource ev)) \<mapsto> t)\<rparr>"
        and nodup: "\<not> isDuplicate cfg ev (seNow e) s2" and s1: "s1 = recordDedup cfg ev (seNow e) s2"
      obtain v' s3 where d: "dispatch e ev prev s1 = (v', s3)" by fastforce
      have "rtDedup s' = rtDedup s3" using run ok a w d by (auto simp: Submit_def route_def split: prod.splits)
      also have "\<dots> = rtDedup s1" by (rule dispatch_dedup [OF d])
      finally have "rtDedup s' k = rtDedup (recordDedup cfg ev (seNow e) s) k" for k
        by (simp add: s1 s2 recordDedup_at assms(1))
      then show ?thesis using nodup unfolding s2 dup by blast
    qed
  qed
  then show "rtDedup s' = rtDedup s \<or> (\<forall>k. rtDedup s' k = rtDedup (recordDedup cfg ev (seNow e) s) k)"
    "fst v \<in> {OutcomeIndexing, OutcomeRejectedBranchMismatch} \<Longrightarrow> keyed ev k \<Longrightarrow> rtDedup s' k = Some (seNow e)"
    "fst v \<in> {OutcomeIndexing, OutcomeRejectedBranchMismatch} \<Longrightarrow> \<not> isDuplicate cfg ev (seNow e) s"
    by (auto simp: recordDedup_at assms(1))
qed

abbreviation submit_step :: "RouterConfig \<Rightarrow> submit_env \<times> ChangeEvent \<Rightarrow> Router \<Rightarrow> Router" where
  "submit_step cfg sub s \<equiv> snd (Submit cfg (fst sub) (snd sub) s)"

lemma remembered_step:
  assumes w: "z - a < wcDedupWindow cfg" and r: "remembered k a z s" and t: "a \<le> seNow (fst sub)" "seNow (fst sub) \<le> z"
  shows "remembered k a z (submit_step cfg sub s)"
proof -
  obtain v s' where run: "Submit cfg (fst sub) (snd sub) s = (v, s')" by fastforce
  have w0: "0 \<le> wcDedupWindow cfg" using w t by simp
  obtain u where "rtDedup s k = Some u" "a \<le> u" "u \<le> z" using r by (auto simp: remembered_def)
  then have "remembered k a z s'" using submit_dedup(1) [OF w0 run] w t by (auto simp: remembered_def recordDedup_at [OF w0])
  then show ?thesis by (simp add: run)
qed

lemma remembered_is_duplicate:
  assumes w: "z - a < wcDedupWindow cfg" and r: "remembered k a z s" and k: "keyed ev k"
  shows "isDuplicate cfg ev z s"
proof -
  obtain u where u: "rtDedup s k = Some u" "a \<le> u" "u \<le> z" using r by (auto simp: remembered_def)
  then have "time_Sub z u \<le> z - u" by (simp add: time_Sub_def)
  then have "seen_within cfg k z s" using u w by (simp add: seen_within_def)
  then show ?thesis using k by (auto simp: isDuplicate_def keyed_def)
qed

lemma recent_event_is_not_indexed:
  assumes first: "Submit cfg e1 ev1 s0 = (v1, s1)" "fst v1 \<in> {OutcomeIndexing, OutcomeRejectedBranchMismatch}"
    and order: "seNow e1 \<le> seNow e2" "\<forall>sub\<in>set subs. seNow e1 \<le> seNow (fst sub) \<and> seNow (fst sub) \<le> seNow e2"
    and window: "seNow e2 - seNow e1 < wcDedupWindow cfg"
    and same: "evEventID ev2 = evEventID ev1 \<or> contentHashKey ev2 \<noteq> [] \<and> contentHashKey ev2 = contentHashKey ev1"
    and second: "Submit cfg e2 ev2 (fold (submit_step cfg) subs s1) = (v2, s2)"
  shows "fst v2 \<noteq> OutcomeIndexing \<and> core s2 = core (fold (submit_step cfg) subs s1)"
proof -
  have w0: "0 \<le> wcDedupWindow cfg" using window order(1) by simp
  obtain k where k: "keyed ev1 k" "keyed ev2 k" using same by (auto simp: keyed_def)
  have "remembered k (seNow e1) (seNow e2) s1"
    using submit_dedup(2) [OF w0 first k(1)] order(1) by (simp add: remembered_def)
  then have "remembered k (seNow e1) (seNow e2) (fold (submit_step cfg) subs s1)"
    using order(2) by (induction subs arbitrary: s1) (simp_all add: remembered_step [OF window])
  then have "isDuplicate cfg ev2 (seNow e2) (fold (submit_step cfg) subs s1)"
    by (rule remembered_is_duplicate [OF window _ k(2)])
  then have no: "fst v2 \<noteq> OutcomeIndexing" using submit_dedup(3) [OF w0 second] by auto
  obtain s' where "route cfg e2 ev2 (fold (submit_step cfg) subs s1) = (v2, s')" "core s2 = core s'"
    using second by (auto simp: Submit_def core_def split: prod.splits)
  then show ?thesis using no route_effect by (auto simp: effect_of_def)
qed

text \<open>
  C22: Within the deduplication window an event is indexed at most once: after it was indexed, however
  many other events follow, neither a retry with its id nor another connector's event with the same
  content hashes is indexed or changes store, previous results, freshness or reports.
\<close>

theorem events_are_indexed_at_most_once:
  assumes first: "Submit cfg e1 ev1 s0 = ((OutcomeIndexing, err1), s1)"
    and order: "seNow e1 \<le> seNow e2" "\<forall>sub\<in>set subs. seNow e1 \<le> seNow (fst sub) \<and> seNow (fst sub) \<le> seNow e2"
    and window: "seNow e2 - seNow e1 < wcDedupWindow cfg"
    and same: "evEventID ev2 = evEventID ev1 \<or> contentHashKey ev2 \<noteq> [] \<and> contentHashKey ev2 = contentHashKey ev1"
    and second: "Submit cfg e2 ev2 (fold (submit_step cfg) subs s1) = ((outcome2, err2), s2)"
  shows "outcome2 \<noteq> OutcomeIndexing \<and> core s2 = core (fold (submit_step cfg) subs s1)"
  using recent_event_is_not_indexed [OF first _ order window same second] by simp

text \<open>
  The id is recorded before the branch is checked: a retry of an event that came while another branch
  was checked out is dropped as a duplicate, although it was never indexed.
\<close>

lemma retry_after_branch_mismatch_is_dropped:
  assumes "Submit cfg e1 ev s0 = ((OutcomeRejectedBranchMismatch, err1), s1)"
    and "seNow e1 \<le> seNow e2" "seNow e2 - seNow e1 < wcDedupWindow cfg"
    and "Submit cfg e2 ev s1 = ((outcome2, err2), s2)"
  shows "outcome2 \<noteq> OutcomeIndexing \<and> rtStore s2 = rtStore s1"
  using recent_event_is_not_indexed [OF assms(1) _ assms(2) _ assms(3), of "[]" ev "(outcome2, err2)" s2] assms(4)
  by (simp add: core_def)

text \<open>Deleted files carry no hash, so an event that repeats hashed files and also deletes one has the same key.\<close>

lemma deletion_beside_known_hashes_is_dropped:
  assumes "Submit cfg e1 ev s0 = ((OutcomeIndexing, err1), s1)" and hashed: "contentHashKey ev \<noteq> []"
    and "seNow e1 \<le> seNow e2" "seNow e2 - seNow e1 < wcDedupWindow cfg" and gone: "fcContentHashAfter f = []"
    and "Submit cfg e2 (ev\<lparr>evEventID := i, evFiles := evFiles ev @ [f]\<rparr>) s1 = ((outcome2, err2), s2)"
  shows "outcome2 \<noteq> OutcomeIndexing \<and> rtStore s2 = rtStore s1"
proof -
  have "contentHashKey (ev\<lparr>evEventID := i, evFiles := evFiles ev @ [f]\<rparr>) = contentHashKey ev"
    by (rule key_ignores_unhashed_files) (simp_all add: hashed_files_def gone)
  then show ?thesis
    using recent_event_is_not_indexed [OF assms(1) _ assms(3) _ assms(4), of "[]" "ev\<lparr>evEventID := i, evFiles := evFiles ev @ [f]\<rparr>"
        "(outcome2, err2)" s2] assms(6) hashed
    by (simp add: core_def)
qed

text \<open>
  Two submissions for one repository that are both past admission work on the same previous result; the
  one that ends last puts back, as the repository's current result, one that knows nothing of the other.
\<close>

lemma concurrent_events_lose_an_update:
  assumes a1: "admit cfg n1 ev1 s0 = (Inr p, s1)" and a2: "admit cfg n2 ev2 s1 = (Inr q, s2)"
    and repo: "evRepositoryID ev1 = evRepositoryID ev2"
    and d1: "dispatch e1 ev1 p s2 = ((OutcomeIndexing, None), s3)" and d2: "dispatch e2 ev2 q s3 = ((OutcomeIndexing, None), s4)"
    and index: "seIndex e2 = (\<lambda>path files branch prev. IndexFiles t head expired ids ds path files branch (Some prev))"
    and t: "keeps_paths t" and paths: "distinct (map frPath (ixFiles p))" and x: "x \<notin> set (affectedPathsFor ev2)"
  shows "\<exists>r. rtPrev s4 (evRepositoryID ev2) = Some r \<and> file_at (ixFiles r) x = file_at (ixFiles p) x"
proof -
  have p: "rtPrev s0 (evRepositoryID ev1) = Some p" by (rule admit_cases [OF a1]) simp_all
  have "rtPrev s1 (evRepositoryID ev2) = Some q" by (rule admit_cases [OF a2]) simp_all
  then have q: "q = p" using p admit_core(1) [OF a1] repo by (simp add: core_def)
  obtain r where r: "seIndex e2 (ixRepoPath q) (affectedPathsFor ev2) (evBranch ev2) q = Inr r" "rtPrev s4 (evRepositoryID ev2) = Some r"
    using d2 by (auto simp: dispatch_def merge_and_report_def markPartialRefresh_def Let_def split: sum.splits if_splits prod.splits)
  have "IndexFiles t head expired ids ds (ixRepoPath p) (affectedPathsFor ev2) (evBranch ev2) (Some p) = Inr r"
    using r(1) by (simp add: index q)
  from index_files_delta [OF t paths affectedPathsFor_distinct this, of x] show ?thesis using r(2) x by simp
qed

section \<open>An event stays in its repository\<close>

type_synonym repo_rows = "Repository option \<times> (File \<times> StoredSymbol list) list \<times> (StoredSymbol \<times> StoredSymbol) set"

definition router_view :: "string \<Rightarrow> Router
    \<Rightarrow> repo_rows \<times> IndexResult option \<times> freshnessRecord option \<times> windowBreaker option \<times> (string \<Rightarrow> tokenBucket option)" where
  "router_view k s = (repo_view k (rtStore s), rtPrev s k, rtFreshness s k, rtBreakers s k, \<lambda>kind. rtRates s (k, kind))"

text \<open>What the indexer and the range over the affected paths are trusted with.\<close>

definition submission_ok :: "submit_env \<times> ChangeEvent \<Rightarrow> bool" where
  "submission_ok sub \<longleftrightarrow> distinct (seMergePaths (fst sub)) \<and> set (seMergePaths (fst sub)) = set (affectedPathsFor (snd sub))
     \<and> (\<forall>path branch prev r. seIndex (fst sub) path (affectedPathsFor (snd sub)) branch prev = Inr r \<longrightarrow> paths_agree (ixFiles r))"

lemma dispatch_store:
  assumes "dispatch e ev prev s = (v, s')"
  shows "rtStore s' = rtStore s \<or> (\<exists>r. seIndex e (ixRepoPath prev) (affectedPathsFor ev) (evBranch ev) prev = Inr r
      \<and> rtStore s' = snd (MergeIndexResult (seMergePaths e) (seMergeNow e) (evRepositoryID ev) (affectedPathsFor ev) (Some r) (rtStore s)))"
  using assms by (auto simp: dispatch_def merge_and_report_def markPartialRefresh_def Let_def split: sum.splits if_splits prod.splits)

lemma dispatch_other:
  assumes "dispatch e ev prev s = (v, s')" "k \<noteq> evRepositoryID ev"
  shows "rtPrev s' k = rtPrev s k" "rtFreshness s' k = rtFreshness s k" "rtBreakers s' = rtBreakers s" "rtRates s' = rtRates s"
  using assms by (auto simp: dispatch_def merge_and_report_def markPartialRefresh_def Let_def split: sum.splits if_splits prod.splits)

lemma admit_other:
  assumes "admit cfg now ev s = (v, s')" "k \<noteq> evRepositoryID ev"
  shows "rtStore s' = rtStore s" "rtPrev s' k = rtPrev s k" "rtFreshness s' k = rtFreshness s k" "rtBreakers s' k = rtBreakers s k"
    "rtRates s' (k, kind) = rtRates s (k, kind)"
  using assms(2) by (rule_tac [!] admit_cases [OF assms(1)]; auto)+

lemma submit_store:
  assumes "Submit cfg e ev s = (v, s')"
  shows "rtStore s' = rtStore s \<or> (\<exists>prev r. seIndex e (ixRepoPath prev) (affectedPathsFor ev) (evBranch ev) prev = Inr r
      \<and> rtStore s' = snd (MergeIndexResult (seMergePaths e) (seMergeNow e) (evRepositoryID ev) (affectedPathsFor ev) (Some r) (rtStore s)))"
proof -
  obtain s1 where r: "route cfg e ev s = (v, s1)" and st: "rtStore s' = rtStore s1"
    using assms by (auto simp: Submit_def split: prod.splits)
  have "effect_of e ev s v s1" by (rule route_effect [OF r])
  then show ?thesis unfolding st effect_of_def by (auto simp: core_def split: if_splits) (metis snd_conv)+
qed

lemma submit_other:
  assumes run: "Submit cfg e ev s = (v, s')" and k: "k \<noteq> evRepositoryID ev"
  shows "rtPrev s' k = rtPrev s k \<and> rtFreshness s' k = rtFreshness s k \<and> rtBreakers s' k = rtBreakers s k
    \<and> (\<lambda>kind. rtRates s' (k, kind)) = (\<lambda>kind. rtRates s (k, kind))"
proof -
  obtain w s1 where a: "admit cfg (seNow e) ev s = (w, s1)" by fastforce
  obtain s2 where r: "route cfg e ev s = (v, s2)" and st: "rtPrev s' = rtPrev s2" "rtFreshness s' = rtFreshness s2"
      "rtBreakers s' = rtBreakers s2" "rtRates s' = rtRates s2"
    using run by (auto simp: Submit_def split: prod.splits)
  consider "s2 = s" | "s2 = s1" | prev where "dispatch e ev prev s1 = (v, s2)"
    using r a by (auto simp: route_def split: option.splits if_splits sum.splits)
  then show ?thesis using admit_other [OF a k] dispatch_other [of e ev _ s1 v s2] k by cases (auto simp: st)
qed

interpretation routed: view_keepers "submit_step cfg" "\<lambda>sub. submission_ok sub \<and> evRepositoryID (snd sub) \<noteq> k"
    "\<lambda>s :: Router. graph_wf (rtStore s) \<and> gsRepos (rtStore s) k \<noteq> None" "router_view k" for cfg k
proof
  fix s :: Router and sub
  assume inv: "graph_wf (rtStore s) \<and> gsRepos (rtStore s) k \<noteq> None" and sub: "submission_ok sub \<and> evRepositoryID (snd sub) \<noteq> k"
  obtain e ev where se: "sub = (e, ev)" by (cases sub)
  have other: "k \<noteq> evRepositoryID ev" using sub by (auto simp: se)
  obtain v s' where run: "Submit cfg e ev s = (v, s')" by fastforce
  have store: "graph_wf (rtStore s') \<and> gsRepos (rtStore s') k \<noteq> None \<and> repo_view k (rtStore s') = repo_view k (rtStore s)"
    using submit_store [OF run]
  proof (elim disjE exE conjE)
    assume "rtStore s' = rtStore s"
    then show ?thesis using inv by simp
  next
    fix prev r
    assume r: "seIndex e (ixRepoPath prev) (affectedPathsFor ev) (evBranch ev) prev = Inr r"
      and st: "rtStore s' = snd (MergeIndexResult (seMergePaths e) (seMergeNow e) (evRepositoryID ev) (affectedPathsFor ev) (Some r) (rtStore s))"
    let ?op = "OpMerge (seMergePaths e) (seMergeNow e) (evRepositoryID ev) (affectedPathsFor ev) (Some r)"
    have ok: "admissible_op ?op" "names_repo ?op \<noteq> Some k" using sub r by (auto simp: submission_ok_def se)
    have "rtStore s' = index_step ?op (rtStore s)" by (simp add: st)
    then show ?thesis using other_repository.step_inv [of "rtStore s" k ?op] other_repository.step_view [of "rtStore s" k ?op] inv ok by simp
  qed
  then show "graph_wf (rtStore (submit_step cfg sub s)) \<and> gsRepos (rtStore (submit_step cfg sub s)) k \<noteq> None"
    by (simp add: se run)
  show "router_view k (submit_step cfg sub s) = router_view k s"
    using store submit_other [OF run other] by (simp add: se run router_view_def)
qed

text \<open>
  C37: Whatever events are submitted for other repositories, accepted or not, a repository keeps its
  record, files, symbols and calls in the store, its previous result and freshness, its breaker and its
  throttles, and the graph store stays well formed.
\<close>

theorem events_stay_in_their_repository:
  assumes "graph_wf (rtStore s)" "GetRepository k (rtStore s) \<noteq> None"
    and "\<forall>sub\<in>set subs. submission_ok sub \<and> evRepositoryID (snd sub) \<noteq> k"
  shows "router_view k (fold (submit_step cfg) subs s) = router_view k s \<and> graph_wf (rtStore (fold (submit_step cfg) subs s))"
  using routed.history_view [of s k subs cfg] routed.history_inv [of s k subs cfg] assms by (simp add: GetRepository_def)

section \<open>Instances\<close>

definition demo_edit :: FileChange where
  "demo_edit = \<lparr>fcPath = ''a.go'', fcStatus = FileChangeModified, fcOldPath = [], fcContentHashAfter = ''h''\<rparr>"

definition demo_event :: "string \<Rightarrow> ChangeEvent" where
  "demo_event i = \<lparr>evSchemaVersion = ''0.1'', evEventID = i, evRepositoryID = ''r'', evOccurredAt = 1, evReceivedAt = 0,
     evBranch = ''main'', evBeforeRef = [], evAfterRef = [], evFiles = [demo_edit],
     evSource = \<lparr>soKind = SourceKindMCPRecordChange, soConnectorID = [], soActor = ''agent'', soActorDisplay = [], soIntent = [], soRequirementIDs = []\<rparr>,
     evTrust = \<lparr>trVerified = True, trVerificationMethod = [], trReceivedVia = []\<rparr>\<rparr>"

definition demo_env :: "time \<Rightarrow> submit_env" where
  "demo_env now = \<lparr>seNow = now, seHead = (\<lambda>_. Inr ''refs/heads/main''), seIndex = (\<lambda>_ _ _ _. Inl (ContextDone CtxDeadlineExceeded)),
     seMergePaths = [''a.go''], seMergeNow = now, seOldOrder = id, seNewOrder = id, seNewKeys = [], seOldKeys = [], seLinks = [],
     seReqs = [], seReportNow = now, seReportMillis = 0, seFreshNow = now, sePublishNow = now\<rparr>"

definition demo_config :: RouterConfig where
  "demo_config = \<lparr>wcEnabled = True, wcRateLimitPerMin = 0, wcRepoBreakerPerMin = 0, wcT0BudgetMs = 100, wcDedupWindow = 10\<rparr>"

definition demo_router :: Router where
  "demo_router = SeedPrevious 1 ''r'' (Some demo_before) (NewRouter demo_indexed True)"

lemma demo_event_valid: "Validate_event (Some (demo_event i)) = (if i = [] then Some (OutcomeRejectedSchema, Required ''event_id'') else None)"
proof -
  have major: "schemaMajor ''0.1'' = Inr 0" by code_simp
  have path: "validateRelPath ''a.go'' = None" by code_simp
  show ?thesis by (simp add: Validate_event_def demo_event_def major demo_edit_def validate_file_def status_IsValid_def path IsZero_def zero_time_def kind_IsValid_def)
qed

lemma demo_key: "contentHashKey (demo_event i) = ''ch:r|a.go=h''"
  by (simp add: contentHashKey_def hashed_files_def demo_event_def demo_edit_def)

lemma demo_fields: "evRepositoryID (demo_event i) = ''r''" "evEventID (demo_event i) = i" "evBranch (demo_event i) = ''main''"
  by (simp_all add: demo_event_def)

lemma demo_first: "fst (Submit demo_config (demo_env 5) (demo_event ''x'') demo_router)
    = (OutcomeIndexing, Some (ErrIndexFiles (ContextDone CtxDeadlineExceeded)))"
proof -
  have prev: "rtPrev demo_router ''r'' = Some demo_before" by (simp add: demo_router_def SeedPrevious_def NewRouter_def)
  have dedup: "rtDedup demo_router = Map.empty" by (simp add: demo_router_def SeedPrevious_def NewRouter_def)
  have fresh: "rtRates demo_router = Map.empty" "rtBreakers demo_router = Map.empty"
    by (simp_all add: demo_router_def SeedPrevious_def NewRouter_def)
  have a: "fst (admit demo_config 5 (demo_event ''x'') demo_router) = Inr demo_before"
    by (simp add: admit_def demo_fields prev breaker_tripped_def breakerFor_def fresh newWindowBreaker_def demo_config_def
        throttle_and_dedup_def bucket_allow_def rateBucketFor_def newTokenBucket_def isDuplicate_def seen_within_def dedup Let_def)
  have same: "branchesEqual ''refs/heads/main'' ''main''" by code_simp
  have d: "fst (dispatch (demo_env 5) (demo_event ''x'') demo_before s) = (OutcomeIndexing, Some (ErrIndexFiles (ContextDone CtxDeadlineExceeded)))" for s
    by (simp add: dispatch_def demo_env_def same demo_fields)
  obtain s1 where s1: "admit demo_config 5 (demo_event ''x'') demo_router = (Inr demo_before, s1)" using a by (metis prod.collapse)
  have now: "seNow (demo_env 5) = 5" and on: "wcEnabled demo_config" by (simp_all add: demo_env_def demo_config_def)
  have "fst (route demo_config (demo_env 5) (demo_event ''x'') demo_router)
      = (OutcomeIndexing, Some (ErrIndexFiles (ContextDone CtxDeadlineExceeded)))"
    using d [of s1] by (simp add: route_def demo_event_valid on now s1)
  then show ?thesis unfolding Submit_def by (auto split: prod.splits)
qed

theorem submit_outcome_tells_the_effect_witness:
  "fnPartialRefresh (FreshnessFor ''r'' (snd (Submit demo_config (demo_env 5) (demo_event ''x'') demo_router)))"
  using submit_outcome_tells_the_effect [of demo_config "demo_env 5" "demo_event ''x''" demo_router OutcomeIndexing
      "Some (ErrIndexFiles (ContextDone CtxDeadlineExceeded))" "snd (Submit demo_config (demo_env 5) (demo_event ''x'') demo_router)"]
    demo_first by (simp add: prod_eq_iff demo_fields)

theorem events_are_indexed_at_most_once_witness:
  "fst (fst (Submit demo_config (demo_env 9) (demo_event ''y'') (snd (Submit demo_config (demo_env 5) (demo_event ''x'') demo_router))))
     \<noteq> OutcomeIndexing"
proof -
  let ?s1 = "snd (Submit demo_config (demo_env 5) (demo_event ''x'') demo_router)"
  obtain o2 e2 s2 where two: "Submit demo_config (demo_env 9) (demo_event ''y'') ?s1 = ((o2, e2), s2)" by (metis prod.collapse)
  have one: "Submit demo_config (demo_env 5) (demo_event ''x'') demo_router
      = ((OutcomeIndexing, Some (ErrIndexFiles (ContextDone CtxDeadlineExceeded))), ?s1)" using demo_first by (simp add: prod_eq_iff)
  show ?thesis using events_are_indexed_at_most_once [OF one _ _ _ _, where subs = "[]" and ?e2.0 = "demo_env 9" and ?ev2.0 = "demo_event ''y''"] two
    by (simp add: demo_env_def demo_config_def demo_key)
qed

theorem events_stay_in_their_repository_witness:
  "router_view ''u'' (fold (submit_step demo_config) [(demo_env 5, demo_event ''x''), (demo_env 9, demo_event ''y'')] demo_router)
     = router_view ''u'' demo_router"
proof -
  have store: "rtStore demo_router = demo_indexed" by (simp add: demo_router_def SeedPrevious_def NewRouter_def)
  have paths: "affectedPathsFor (demo_event i) = [''a.go'']" for i
    by (simp add: affectedPathsFor_def demo_event_def affected_step_def demo_edit_def)
  have "\<forall>sub\<in>set [(demo_env 5, demo_event ''x''), (demo_env 9, demo_event ''y'')]. submission_ok sub \<and> evRepositoryID (snd sub) \<noteq> ''u''"
    by (simp add: submission_ok_def demo_env_def paths demo_fields)
  moreover have "graph_wf (rtStore demo_router)" "GetRepository ''u'' (rtStore demo_router) \<noteq> None"
    unfolding store by (fact demo_indexed_ok)+
  ultimately show ?thesis using events_stay_in_their_repository [of demo_router "''u''"
    "[(demo_env 5, demo_event ''x''), (demo_env 9, demo_event ''y'')]" demo_config] by blast
qed

end
