(* ===== verification/Spec2Isabelle.thy ===== *)
theory Spec2Isabelle
  imports LLM_Protocol LLM_Enqueue LLM_Pool LLM_Logs Trash_Worker Knowledge_Freshness Graph_Impact_Laws Graph_Tenant_Laws Watch_Laws
begin

text \<open>
  A verification development for SourceBridge, a platform that indexes repositories and generates
  field guides to them with language models. It models the parts of the Go server in which the
  program decides by itself, without a database, a network or a model behind it:

  \<^item> the job orchestrator that runs every language-model job (\<^verbatim>\<open>internal/llm\<close>,
    \<^verbatim>\<open>internal/llm/orchestrator\<close>);
  \<^item> the indexer after the parser: scan, resolution of calls, full, incremental and delta runs
    (\<^verbatim>\<open>internal/indexer/indexer.go\<close>, \<^verbatim>\<open>internal/git/local.go\<close>);
  \<^item> the code graph store with its links, requirements and reports, its tenant filter, change impact,
    simulation and execution paths (\<^verbatim>\<open>internal/graph\<close>);
  \<^item> the watch loop that turns change events into delta reindexes (\<^verbatim>\<open>internal/changewatch\<close>);
  \<^item> the knowledge store and the selective invalidation of generated artifacts
    (\<^verbatim>\<open>internal/knowledge\<close>);
  \<^item> the recycle bin with its retention worker and the cache that elects the worker
    (\<^verbatim>\<open>internal/trash\<close>, the in-memory cache of \<^verbatim>\<open>internal/db/redis.go\<close>).

  The parts meet as follows. A scan lists the files, the indexer parses them and resolves their calls, and
  the graph store takes the result in, as a whole or merged for the files of a change event that the
  router admitted. The difference to the old symbols gives an impact report, and makes artifacts of
  the knowledge store stale. A request for an artifact claims it there and enqueues a job; the job's terminal
  callbacks write the artifact or the repository understanding back. A deleted artifact goes to the
  recycle bin, and the worker purges it after the retention period. Every request reads and writes the
  graph through the filter of its tenant. Each package is modelled against its reference store, the
  in-memory one, which the SurrealDB stores must match.

  \<^bold>\<open>Theories.\<close>

  \<^item> \<open>Go_Prelude\<close>, \<open>Go_Strings\<close>, \<open>Go_Path\<close>: the part of Go and of its standard library that the code uses
    (time, 64-bit integers, comparison of floats, strings, paths, errors, ranging over maps), the
    collections of rewrite and introduction rules, and the lemmas that the components share.
  \<^item> \<open>LLM_Job\<close>, \<open>LLM_MemStore\<close>, \<open>LLM_Retry\<close>, \<open>LLM_Queue\<close>: the job model (\<^verbatim>\<open>job.go\<close>, \<^verbatim>\<open>job_log.go\<close>), the
    job store (\<^verbatim>\<open>memstore.go\<close>; locale \<open>terminal_store\<close>: a terminal status is final), error classes
    and retry policy (\<^verbatim>\<open>errors.go\<close>, \<^verbatim>\<open>retry.go\<close>), and the registry, breaker and metrics
    (\<^verbatim>\<open>dedupe.go\<close>, \<^verbatim>\<open>breaker.go\<close>, \<^verbatim>\<open>metrics.go\<close>; locale \<open>claim_table\<close>: who holds a key).
  \<^item> \<open>LLM_Orchestrator\<close>, \<open>LLM_Lifecycle\<close>, \<open>LLM_Run\<close>: \<^verbatim>\<open>orchestrator.go\<close>. Its state with enqueueing and
    the finalization claims; cancelling, the reaper, the start-up reconciliation and worker
    management (locale \<open>failing_pass\<close>, shared by reaper and reconciler); one run of a job with its
    retry loop and the debouncing runtime of \<^verbatim>\<open>runtime.go\<close>.
  \<^item> \<open>LLM_Enqueue\<close>, \<open>LLM_Protocol\<close>, \<open>LLM_Pool\<close>, \<open>LLM_Logs\<close>: the interleavings. Concurrent calls of \<^verbatim>\<open>Enqueue\<close>,
    one lock access per step (\<open>enqueue_step\<close>; the function \<open>Enqueue\<close> of \<open>LLM_Orchestrator\<close> is their
    composition when nothing disturbs the call, lemma \<open>undisturbed_enqueue\<close>); the finalization
    protocol and the worker pool as transition systems; the job log under polling.
  \<^item> \<open>Index_Scan\<close>, \<open>Index_Calls\<close>, \<open>Index_Files\<close>: the ignore rules and the walk; the scoped resolution of
    calls and tests; the three entry points of the indexer and the branch read from \<^verbatim>\<open>.git/HEAD\<close>.
  \<^item> \<open>Graph_Model\<close>, \<open>Graph_Index\<close>: the records of the store and its index writers and readers
    (\<^verbatim>\<open>store.go\<close>). \<open>Graph_Tables\<close>, \<open>Graph_Rows\<close>, \<open>Graph_Wf\<close>, \<open>Graph_Insert\<close>, \<open>Graph_View\<close>, \<open>Graph_Replace\<close>,
    \<open>Graph_Merge\<close>, \<open>Graph_Incremental\<close>, \<open>Graph_History\<close>, \<open>Graph_Laws\<close>: the invariant of the graph, what a
    repository shows of itself, what every writer does to both, and histories of writers (locales
    \<open>invariant_steps\<close> and, extending it, \<open>view_keepers\<close>, interpreted on the index operations, on links, on
    discovered requirements, on tenants and on the router).
  \<^item> \<open>Graph_Links\<close>, \<open>Graph_Link_Laws\<close>: requirements, links, discovered requirements, usage, embeddings,
    reviews, reports, package dependencies and the understanding score (\<^verbatim>\<open>understanding.go\<close>).
    \<open>Graph_Tenant\<close>, \<open>Graph_Tenant_View\<close>, \<open>Graph_Tenant_Laws\<close>: \<^verbatim>\<open>filtered.go\<close>, the store a tenant could be looking
    at, and the isolation of tenants. \<open>Graph_Impact\<close>, \<open>Graph_Impact_Laws\<close>: \<^verbatim>\<open>impact.go\<close>,
    \<^verbatim>\<open>simulation.go\<close>, \<^verbatim>\<open>execution_path.go\<close>.
  \<^item> \<open>Watch_Event\<close>, \<open>Watch_Breaker\<close>, \<open>Watch_Router\<close>, \<open>Watch_Laws\<close>: events and their validation (\<^verbatim>\<open>types.go\<close>,
    \<^verbatim>\<open>path.go\<close>), throttle and circuit breaker (\<^verbatim>\<open>breaker.go\<close>), and \<^verbatim>\<open>router.go\<close>, with what the code does
    under its lock as one definition (\<open>admit\<close>) and the rest as another (\<open>dispatch\<close>).
  \<^item> \<open>Knowledge_Model\<close>: \<^verbatim>\<open>models.go\<close> and \<^verbatim>\<open>understanding.go\<close>. \<open>Knowledge_Store\<close>: \<^verbatim>\<open>memstore.go\<close>, its
    histories and the invariant of the understandings. \<open>Knowledge_Claims\<close>, \<open>Knowledge_Content\<close>: what
    claims, late callbacks, supersedes, deletes, refinement units and lookups guarantee.
    \<open>Knowledge_Freshness\<close>: \<^verbatim>\<open>freshness.go\<close>.
  \<^item> \<open>Trash_Store\<close>: \<^verbatim>\<open>types.go\<close> and \<^verbatim>\<open>memstore.go\<close> of the recycle bin. \<open>Cache_Memory\<close>: the in-memory
    cache, with locale \<open>lease\<close> for what a client may rely on when it uses \<^verbatim>\<open>SetIfAbsent\<close> as a lock.
    \<open>Trash_Worker\<close>: \<^verbatim>\<open>worker.go\<close>, whose election lemmas are proved in \<open>lease\<close> and used on the cache.

  \<^bold>\<open>How the code is represented.\<close> A struct is a record, a map a partial function, a method that runs
  under its lock one function from state to result and state; a raised error is a value of a sum or
  an option. What the code reads from outside is an argument: clock readings, the identifiers that
  \<^verbatim>\<open>uuid\<close> draws (an arbitrary stream in the state), the order in which a loop visits a Go map (any list
  that \<open>enumerates\<close> its keys) or an unstable sort leaves equal elements, the outcome of a job's closure,
  the random and rounding steps of the backoff, the disk, the tree-sitter parser, the content hash and
  the score of generated code (the record \<open>tools\<close>), the head of a working tree. A lemma about such a function
  therefore holds for every clock, stream, order, disk and parser that its hypotheses admit.

  \<^bold>\<open>What the lemmas show.\<close>

  \<^item> Jobs: one path decides how a job ends in every interleaving; an undisturbed run ends with the verdict
    on its last attempt; duplicate jobs come only from steps that drop a live claim, admit a call
    without one or revive a job (and \<open>concurrent_enqueues_can_duplicate\<close>: the claim loop makes such
    a step); an undisturbed call attaches or admits as documented; reaper and reconciler
    fail exactly what they should; cancelling has the outcomes it promises; the pool converges; the
    lanes are one stable priority queue.
  \<^item> Indexer: the scan lists what the ignore filter of the watcher keeps; edges are the scoped
    resolution of the call sites; a delta run replaces exactly the entries of its files; an
    incremental scan ends as a full one.
  \<^item> Graph: every history of writers keeps it well formed and leaves other repositories alone; a
    replacement shows the delivered result, and a merge shows what a replacement would; link reads
    and package dependencies are exact; tenants see and change only their own; impact reports,
    symbol differences, expansions and execution paths are what they are said to be.
  \<^item> Watch loop: paths, buckets and breakers accept what they should; the verdict of a submission tells
    what it did; no event is indexed twice in the window; events stay in their repository.
  \<^item> Knowledge: claims never duplicate, understandings keep their invariant, and a reindex makes stale
    exactly what it concerns.
  \<^item> Recycle bin: a move takes exactly a subtree and a restore undoes it; a restore takes no live key for
    the row it names (but may duplicate one for another row of the batch); sweeps remove expired
    rows only; replicas take the sweep lock a lease apart; a lone replica sweeps on every other tick.

  \<^bold>\<open>Bounds.\<close> The claim loop of \<^verbatim>\<open>Enqueue\<close> makes at most two attempts, as the code does, so that fourteen
  accesses complete every undisturbed call (\<open>enqueue_run\<close>); a run makes at most as many as its attempt
  limit. The cascade of \<^verbatim>\<open>MoveToTrash\<close> recurses at most as deep as the table has rows
  (\<open>cascade_fuel\<close>: each level turns a live row). Expansions and traces recurse over their depth, as
  the code does. All other loops are structural or have a termination proof (\<open>collapse_underscores\<close>,
  \<open>ReplaceAll\<close>, \<open>itoa_digits\<close>).

  \<^bold>\<open>Where the model idealises.\<close> Floats are exact rationals where only sums and comparisons of them
  matter (token buckets, the understanding score); text is a list of bytes,
  with case mapping and white space of ASCII; pointers to stored records are not shared with the
  caller. A negative offset panics in the paginated reads: \<open>GetRequirements\<close> has that outcome, the
  reads through \<open>page\<close> take offsets that are not negative. An execution path of a depth for which
  its nodes cannot be allocated panics; the model takes the allocation to succeed.

  \<^bold>\<open>Not modelled.\<close> \<^verbatim>\<open>EnqueueSync\<close> (it polls with real sleeps), panics of a job's closure, and the
  floating-point aggregation of the job metrics; \<^verbatim>\<open>DecodeStaleReason\<close> (a JSON parser); the parser
  and its queries; the watcher that collects operating-system notifications; log output and progress
  reports everywhere. Hybrid search and clustering compute with floats over a database; the living wiki,
  question answering and reports are pipelines around language models and outside services; the SurrealDB
  stores, the REST, GraphQL and MCP layers, hosting services, settings and the workers call a
  database, a network or generated code.
\<close>

end
